(* ===== verification/Prelude.thy ===== *)
theory Prelude
  imports Main "HOL-Library.Char_ord" "HOL-Library.List_Lexorder" "HOL-Library.Product_Lexorder"
    "HOL-Library.AList"
begin

text \<open>
  What every component shares: byte strings with the operations of \<open>std::string\<close> the daemon
  uses, decimal printing and parsing (\<open>std::to_string\<close>, \<open>std::from_chars\<close>), the
  \<open>std::map\<close> as a key-sorted association list, and JSON values as the sources build them
  with \<open>nlohmann::json\<close>. Characters are bytes (\<open>char\<close> of Isabelle has 256 values), so
  \<open>length\<close> is \<open>std::string::size\<close>.

  The collections: \<open>str_simps\<close> for the string searches, \<open>amap_simps\<close> for the ordered
  map, \<open>dec_simps\<close> for decimal numbers.
\<close>

named_theorems str_simps \<open>string search and slicing\<close>
named_theorems amap_simps \<open>the ordered map\<close>
named_theorems dec_simps \<open>decimal printing and parsing\<close>

type_synonym bytes = string

abbreviation newline :: char where
  "newline \<equiv> CHR 0x0A"

abbreviation carriage_return :: char where
  "carriage_return \<equiv> CHR 0x0D"

text \<open>The number of values of \<open>std::uint64_t\<close> and the range of \<open>long long\<close>.\<close>

abbreviation two64 :: nat where
  "two64 \<equiv> 18446744073709551616"

abbreviation int64_max :: int where
  "int64_max \<equiv> 9223372036854775807"

abbreviation int64_min :: int where
  "int64_min \<equiv> - 9223372036854775808"

text \<open>Arithmetic of \<open>std::uint64_t\<close> on its values: modulo \<open>2 ^ 64\<close>.\<close>

definition u64_add :: "nat \<Rightarrow> nat \<Rightarrow> nat" where
  "u64_add a b = (a + b) mod two64"

definition u64_sub :: "nat \<Rightarrow> nat \<Rightarrow> nat" where
  "u64_sub a b = (a + (two64 - b)) mod two64"

text \<open>The exceptions the sources throw, by their C++ class and message.\<close>

datatype exn =
    InvalidArgument string
  | RuntimeError string
  | JsonTypeError
  | JsonOutOfRange
  | JsonParseError
  | StorageError string string

type_synonym 'a result = "exn + 'a"

text \<open>
  Where replacing a file through a temporary one can fail: opening or flushing the temporary file,
  restricting its permissions, the rename, restricting the permissions of the result.
\<close>

datatype io_fault = IoOk | OpenFails | FlushFails | TempChmodFails | RenameFails | ChmodFails

subsection \<open>Character classes of the C locale\<close>

definition byte_of :: "char \<Rightarrow> nat" where
  "byte_of c = of_char c"

definition is_space :: "char \<Rightarrow> bool" where
  "is_space c \<longleftrightarrow> byte_of c = 32 \<or> (9 \<le> byte_of c \<and> byte_of c \<le> 13)"

definition is_digit :: "char \<Rightarrow> bool" where
  "is_digit c \<longleftrightarrow> 48 \<le> byte_of c \<and> byte_of c \<le> 57"

definition is_upper :: "char \<Rightarrow> bool" where
  "is_upper c \<longleftrightarrow> 65 \<le> byte_of c \<and> byte_of c \<le> 90"

definition is_lower :: "char \<Rightarrow> bool" where
  "is_lower c \<longleftrightarrow> 97 \<le> byte_of c \<and> byte_of c \<le> 122"

definition is_alnum :: "char \<Rightarrow> bool" where
  "is_alnum c \<longleftrightarrow> is_digit c \<or> is_upper c \<or> is_lower c"

definition to_lower :: "char \<Rightarrow> char" where
  "to_lower c = (if is_upper c then char_of (byte_of c + 32) else c)"

subsection \<open>Searching and slicing\<close>

fun find_if :: "('a \<Rightarrow> bool) \<Rightarrow> 'a list \<Rightarrow> nat option" where
  "find_if p [] = None"
| "find_if p (x # xs) = (if p x then Some 0 else map_option Suc (find_if p xs))"

text \<open>\<open>s.find(c)\<close> and \<open>s.rfind(c)\<close>; \<open>npos\<close> is \<open>None\<close>.\<close>

definition find_char :: "char \<Rightarrow> string \<Rightarrow> nat option" where
  "find_char c s = find_if (\<lambda>d. d = c) s"

definition rfind_char :: "char \<Rightarrow> string \<Rightarrow> nat option" where
  "rfind_char c s = map_option (\<lambda>i. length s - 1 - i) (find_if (\<lambda>d. d = c) (rev s))"

definition starts_with :: "string \<Rightarrow> string \<Rightarrow> bool" where
  "starts_with s p \<longleftrightarrow> take (length p) s = p"

definition ends_with :: "string \<Rightarrow> string \<Rightarrow> bool" where
  "ends_with s p \<longleftrightarrow> starts_with (rev s) (rev p)"

text \<open>\<open>s.find(p)\<close>: the first position at which \<open>p\<close> occurs.\<close>

fun find_str :: "string \<Rightarrow> string \<Rightarrow> nat option" where
  "find_str p [] = (if p = [] then Some 0 else None)"
| "find_str p (c # s) =
     (if starts_with (c # s) p then Some 0 else map_option Suc (find_str p s))"

text \<open>\<open>s.substr(pos, count)\<close> for \<open>pos \<le> size\<close>; the callers keep that bound.\<close>

definition substr :: "string \<Rightarrow> nat \<Rightarrow> nat \<Rightarrow> string" where
  "substr s pos cnt = take cnt (drop pos s)"

subsection \<open>Decimal numbers\<close>

definition digit_char :: "nat \<Rightarrow> char" where
  "digit_char d = char_of (48 + d)"

fun to_string :: "nat \<Rightarrow> string" where
  "to_string n = (if n < 10 then [digit_char n] else to_string (n div 10) @ [digit_char (n mod 10)])"

declare to_string.simps [simp del]

definition digit_value :: "char \<Rightarrow> nat" where
  "digit_value c = byte_of c - 48"

definition dec_value :: "string \<Rightarrow> nat" where
  "dec_value s = foldl (\<lambda>acc c. acc * 10 + digit_value c) 0 s"

text \<open>\<open>std::to_string\<close> of a signed integer.\<close>

definition int_to_string :: "int \<Rightarrow> string" where
  "int_to_string i = (if i < 0 then CHR ''-'' # to_string (nat (- i)) else to_string (nat i))"

text \<open>
  \<open>std::from_chars(begin, end, value)\<close> on an unsigned type with \<open>lim\<close> values, together
  with the test \<open>ec == errc{} && ptr == end\<close> that every caller makes: at least one digit,
  only digits, and no overflow. Leading zeros are accepted, a sign is not.
\<close>

definition from_chars_all :: "nat \<Rightarrow> string \<Rightarrow> nat option" where
  "from_chars_all lim s =
     (if s \<noteq> [] \<and> list_all is_digit s \<and> dec_value s < lim then Some (dec_value s) else None)"

subsection \<open>The ordered map\<close>

text \<open>
  \<open>std::map\<close> as the list of its entries in key order, the order in which the range-for loops
  of the sources visit it. \<open>amap_put\<close> is \<open>m[k] = v\<close>.
\<close>

type_synonym ('k, 'v) amap = "('k \<times> 'v) list"

fun amap_put :: "'k::linorder \<Rightarrow> 'v \<Rightarrow> ('k, 'v) amap \<Rightarrow> ('k, 'v) amap" where
  "amap_put k v [] = [(k, v)]"
| "amap_put k v (e # m) =
     (if fst e < k then e # amap_put k v m
      else if fst e = k then (k, v) # m
      else (k, v) # e # m)"

definition amap_wf :: "('k::linorder, 'v) amap \<Rightarrow> bool" where
  "amap_wf m \<longleftrightarrow> sorted_wrt (<) (map fst m)"

definition amap_has :: "('k, 'v) amap \<Rightarrow> 'k \<Rightarrow> bool" where
  "amap_has m k \<longleftrightarrow> map_of m k \<noteq> None"

definition amap_of :: "('k::linorder \<times> 'v) list \<Rightarrow> ('k, 'v) amap" where
  "amap_of es = foldl (\<lambda>m e. amap_put (fst e) (snd e) m) [] es"

subsection \<open>JSON values\<close>

text \<open>
  The values of \<open>nlohmann::json\<close>. An object is an ordered map from names to values; a number
  is a 64-bit integer or a double, which the sources only copy, so a double is its 64 bits.
  \<open>parse\<close> and \<open>dump\<close> belong to the package and are parameters of the definitions that
  call them.
\<close>

datatype json =
    JNull
  | JBool bool
  | JInt int
  | JFloat nat
  | JStr string
  | JArr "json list"
  | JObj "(string \<times> json) list"

text \<open>\<open>j[name] = v\<close> on an object; \<open>j.value(name, default)\<close>.\<close>

fun json_put :: "string \<Rightarrow> json \<Rightarrow> json \<Rightarrow> json" where
  "json_put k v (JObj m) = JObj (amap_put k v m)"
| "json_put k v j = j"

fun json_get :: "string \<Rightarrow> json \<Rightarrow> json option" where
  "json_get k (JObj m) = map_of m k"
| "json_get k j = None"

definition json_value :: "json \<Rightarrow> string \<Rightarrow> json \<Rightarrow> json" where
  "json_value j k d = (case json_get k j of None \<Rightarrow> d | Some v \<Rightarrow> v)"

text \<open>
  \<open>j[name] = v\<close> on any value: a null becomes an object, and any other value that is not an
  object throws \<open>type_error\<close>.
\<close>

fun json_index_put :: "string \<Rightarrow> json \<Rightarrow> json \<Rightarrow> json result" where
  "json_index_put k v JNull = Inr (JObj [(k, v)])"
| "json_index_put k v (JObj m) = Inr (JObj (amap_put k v m))"
| "json_index_put k v _ = Inl JsonTypeError"

text \<open>An object literal \<open>{{k, v}, ...}\<close>.\<close>

definition json_object :: "(string \<times> json) list \<Rightarrow> json" where
  "json_object es = JObj (amap_of es)"

fun is_object :: "json \<Rightarrow> bool" where
  "is_object (JObj _) = True"
| "is_object _ = False"

text \<open>
  What the sources call of the package, as one parameter: \<open>parse\<close> (\<open>None\<close> for
  \<open>parse_error\<close>), \<open>dump()\<close>, \<open>dump(2)\<close> and the conversion of a double to an integer.
\<close>

record json_lib =
  lib_parse :: "string \<Rightarrow> json option"
  lib_dump :: "json \<Rightarrow> string"
  lib_dump2 :: "json \<Rightarrow> string"
  lib_trunc :: "nat \<Rightarrow> int"

text \<open>Sequencing of computations that may throw.\<close>

definition andthen :: "'a result \<Rightarrow> ('a \<Rightarrow> 'b result) \<Rightarrow> 'b result" where
  "andthen r f = (case r of Inl e \<Rightarrow> Inl e | Inr x \<Rightarrow> f x)"

text \<open>\<open>j.at(name)\<close>, \<open>j.get<std::string>()\<close> and \<open>j.get<long long>()\<close>.\<close>

definition json_at :: "json \<Rightarrow> string \<Rightarrow> json result" where
  "json_at j k =
     (if \<not> is_object j then Inl JsonTypeError
      else case json_get k j of None \<Rightarrow> Inl JsonOutOfRange | Some v \<Rightarrow> Inr v)"

fun get_string :: "json \<Rightarrow> string result" where
  "get_string (JStr s) = Inr s"
| "get_string _ = Inl JsonTypeError"

fun get_int :: "json_lib \<Rightarrow> json \<Rightarrow> int result" where
  "get_int lib (JInt i) = Inr i"
| "get_int lib (JBool b) = Inr (if b then 1 else 0)"
| "get_int lib (JFloat d) = Inr (lib_trunc lib d)"
| "get_int lib _ = Inl JsonTypeError"

text \<open>The narrowing of \<open>get<int>()\<close>: the low 32 bits, signed.\<close>

definition to_int32 :: "int \<Rightarrow> int" where
  "to_int32 i = (i + 2147483648) mod 4294967296 - 2147483648"

definition get_int32 :: "json_lib \<Rightarrow> json \<Rightarrow> int result" where
  "get_int32 lib j = andthen (get_int lib j) (\<lambda>i. Inr (to_int32 i))"

fun is_array :: "json \<Rightarrow> bool" where
  "is_array (JArr _) = True"
| "is_array _ = False"

fun array_items :: "json \<Rightarrow> json list" where
  "array_items (JArr xs) = xs"
| "array_items _ = []"

text \<open>
  \<open>ex.what()\<close>: the message given to the constructor; the text of the JSON package's own
  exceptions is its parameter \<open>json_what\<close>.
\<close>

fun what :: "(exn \<Rightarrow> string) \<Rightarrow> exn \<Rightarrow> string" where
  "what json_what (InvalidArgument m) = m"
| "what json_what (RuntimeError m) = m"
| "what json_what (StorageError _ m) = m"
| "what json_what e = json_what e"

subsection \<open>Lemmas on unsigned arithmetic\<close>

lemma u64_add_small [simp]: "a + b < two64 \<Longrightarrow> u64_add a b = a + b"
  by (simp add: u64_add_def)

lemma u64_sub_small [simp]:
  assumes "b \<le> a" and "a < two64"
  shows "u64_sub a b = a - b"
proof -
  have "a + (two64 - b) = (a - b) + two64" using assms by simp
  then show ?thesis using assms unfolding u64_sub_def by (metis less_imp_diff_less mod_add_self2 mod_less)
qed

lemma andthen_Inr [simp]: "andthen (Inr x) f = f x"
  by (simp add: andthen_def)

lemma andthen_Inl [simp]: "andthen (Inl e) f = Inl e"
  by (simp add: andthen_def)

lemma andthen_eq_Inr: "andthen r f = Inr y \<longleftrightarrow> (\<exists>x. r = Inr x \<and> f x = Inr y)"
  by (cases r) simp_all

lemma get_int32_small [simp]: "- 2147483648 \<le> i \<Longrightarrow> i < 2147483648 \<Longrightarrow> get_int32 lib (JInt i) = Inr i"
  by (simp add: get_int32_def to_int32_def andthen_def)

lemma to_int32_id [simp]: "- 2147483648 \<le> i \<Longrightarrow> i < 2147483648 \<Longrightarrow> to_int32 i = i"
  by (simp add: to_int32_def)

subsection \<open>Lemmas on strings\<close>

lemma find_if_Some_iff:
  "find_if p xs = Some i \<longleftrightarrow> i < length xs \<and> p (xs ! i) \<and> (\<forall>j < i. \<not> p (xs ! j))"
proof (induction xs arbitrary: i)
  case Nil
  then show ?case by simp
next
  case (Cons x xs)
  show ?case
  proof (cases i)
    case 0
    then show ?thesis by auto
  next
    case (Suc k)
    then show ?thesis using Cons.IH [of k] by (auto simp: less_Suc_eq_0_disj)
  qed
qed

lemma find_if_None_iff [str_simps]: "find_if p xs = None \<longleftrightarrow> (\<forall>x \<in> set xs. \<not> p x)"
  by (induction xs) auto

lemma find_if_append [str_simps]:
  "find_if p (xs @ ys) =
     (case find_if p xs of Some i \<Rightarrow> Some i | None \<Rightarrow> map_option (\<lambda>i. length xs + i) (find_if p ys))"
  by (cases "find_if p ys"; induction xs) (auto split: option.splits)

lemma find_char_append_notin [str_simps]:
  "c \<notin> set xs \<Longrightarrow> find_char c (xs @ c # ys) = Some (length xs)"
  by (induction xs) (auto simp: find_char_def)

lemma find_char_None_iff [str_simps]: "find_char c s = None \<longleftrightarrow> c \<notin> set s"
  by (auto simp: find_char_def find_if_None_iff)

lemma find_char_Some_iff:
  "find_char c s = Some i \<longleftrightarrow> i < length s \<and> s ! i = c \<and> c \<notin> set (take i s)"
  by (auto simp: find_char_def find_if_Some_iff in_set_conv_nth)

lemma find_char_SomeE:
  assumes "find_char c s = Some i"
  obtains xs ys where "s = xs @ c # ys" "length xs = i" "c \<notin> set xs"
proof -
  from assms have i: "i < length s" "s ! i = c" "c \<notin> set (take i s)"
    by (auto simp: find_char_Some_iff)
  have "s = take i s @ c # drop (Suc i) s" using i by (metis id_take_nth_drop)
  then show thesis using i by (intro that [of "take i s" "drop (Suc i) s"]) auto
qed

lemma starts_with_append [simp, str_simps]: "starts_with (p @ s) p"
  by (simp add: starts_with_def)

lemma starts_with_iff [str_simps]: "starts_with s p \<longleftrightarrow> (\<exists>t. s = p @ t)"
  unfolding starts_with_def by (metis append_eq_conv_conj append_take_drop_id)

lemma ends_with_iff [str_simps]: "ends_with s p \<longleftrightarrow> (\<exists>t. s = t @ p)"
  unfolding ends_with_def starts_with_iff by (metis rev_append rev_rev_ident)

lemma starts_with_length: "starts_with s p \<Longrightarrow> length p \<le> length s"
  by (auto simp: starts_with_iff)

lemma find_str_Some_length: "find_str p s = Some i \<Longrightarrow> i + length p \<le> length s"
proof (induction s arbitrary: i)
  case Nil
  then show ?case by (auto split: if_splits)
next
  case (Cons c s)
  then show ?case by (auto split: if_splits dest!: starts_with_length)
qed

lemma find_str_Some_at: "find_str p s = Some i \<Longrightarrow> starts_with (drop i s) p"
proof (induction s arbitrary: i)
  case Nil
  then show ?case by (auto simp: starts_with_def split: if_splits)
next
  case (Cons c s)
  then show ?case by (auto split: if_splits)
qed

lemma find_str_None_iff: "find_str p s = None \<longleftrightarrow> (\<forall>a b. s \<noteq> a @ p @ b)"
proof (induction s)
  case Nil
  then show ?case by auto
next
  case (Cons c s)
  have "(\<exists>a b. c # s = a @ p @ b) \<longleftrightarrow> starts_with (c # s) p \<or> (\<exists>a b. s = a @ p @ b)"
    by (auto simp: starts_with_iff Cons_eq_append_conv)
  with Cons show ?case by (auto split: if_splits)
qed

lemma find_str_Some_first:
  "find_str p s = Some i \<Longrightarrow> j < i \<Longrightarrow> \<not> starts_with (drop j s) p"
proof (induction s arbitrary: i j)
  case Nil
  then show ?case by (auto split: if_splits)
next
  case (Cons c s)
  then show ?case by (cases j) (auto split: if_splits)
qed

subsection \<open>Lemmas on decimal numbers\<close>

lemma byte_of_digit_char [dec_simps]: "d < 10 \<Longrightarrow> byte_of (digit_char d) = 48 + d"
  by (simp add: byte_of_def digit_char_def of_char_of)

lemma is_digit_digit_char [dec_simps]: "d < 10 \<Longrightarrow> is_digit (digit_char d)"
  by (simp add: is_digit_def byte_of_digit_char)

lemma digit_value_digit_char [dec_simps]: "d < 10 \<Longrightarrow> digit_value (digit_char d) = d"
  by (simp add: digit_value_def byte_of_digit_char)

lemma dec_value_snoc [dec_simps]: "dec_value (s @ [c]) = dec_value s * 10 + digit_value c"
  by (simp add: dec_value_def)

lemma dec_value_Nil [dec_simps]: "dec_value [] = 0"
  by (simp add: dec_value_def)

lemma to_string_not_Nil [simp]: "to_string n \<noteq> []"
  by (subst to_string.simps) simp

lemma to_string_digits [dec_simps]: "list_all is_digit (to_string n)"
proof (induction n rule: to_string.induct)
  case (1 n)
  then show ?case
    by (subst to_string.simps) (auto simp: dec_simps)
qed

lemma dec_value_to_string [dec_simps]: "dec_value (to_string n) = n"
proof (induction n rule: to_string.induct)
  case (1 n)
  show ?case
  proof (cases "n < 10")
    case True
    then show ?thesis
      by (subst to_string.simps) (simp add: dec_value_def digit_value_digit_char)
  next
    case False
    then show ?thesis
      using 1 by (subst to_string.simps) (simp add: dec_value_snoc digit_value_digit_char)
  qed
qed

lemma from_chars_all_to_string [dec_simps]:
  "from_chars_all lim (to_string n) = (if n < lim then Some n else None)"
  by (simp add: from_chars_all_def dec_simps)

lemma from_chars_all_bound: "from_chars_all lim s = Some n \<Longrightarrow> n < lim"
  by (auto simp: from_chars_all_def split: if_splits)

lemma to_string_inj: "to_string m = to_string n \<Longrightarrow> m = n"
  by (metis dec_value_to_string)

subsection \<open>Lemmas on the ordered map\<close>

lemma map_of_amap_put [amap_simps]: "map_of (amap_put k v m) = (map_of m)(k \<mapsto> v)"
  by (induction m) (auto simp: fun_eq_iff)

lemma map_of_amap_put_same [amap_simps]: "map_of (amap_put k v m) k = Some v"
  by (induction m) auto

lemma keys_amap_put [amap_simps]: "fst ` set (amap_put k v m) = insert k (fst ` set m)"
  by (induction m) auto

lemma amap_wf_put [amap_simps]: "amap_wf m \<Longrightarrow> amap_wf (amap_put k v m)"
proof (induction m)
  case Nil
  then show ?case by (simp add: amap_wf_def)
next
  case (Cons e m)
  then have IH: "amap_wf (amap_put k v m)" and lt: "\<forall>x \<in> fst ` set m. fst e < x"
    by (auto simp: amap_wf_def)
  have "fst e < k \<Longrightarrow> \<forall>x \<in> fst ` set (amap_put k v m). fst e < x"
    using lt by (auto simp: keys_amap_put)
  then show ?case using IH Cons.prems by (auto simp: amap_wf_def)
qed

lemma amap_wf_Nil [simp]: "amap_wf []"
  by (simp add: amap_wf_def)

lemma amap_wf_distinct: "amap_wf m \<Longrightarrow> distinct (map fst m)"
  unfolding amap_wf_def using strict_sorted_iff by blast

lemma amap_wf_of: "amap_wf (amap_of es)"
proof -
  have "amap_wf m \<Longrightarrow> amap_wf (foldl (\<lambda>m e. amap_put (fst e) (snd e) m) m es)" for m
    by (induction es arbitrary: m) (auto simp: amap_simps)
  then show ?thesis by (simp add: amap_of_def)
qed

lemma map_of_amap_of: "map_of (amap_of es) = map_of (rev es)"
proof -
  have "amap_wf m \<Longrightarrow>
    map_of (foldl (\<lambda>m e. amap_put (fst e) (snd e) m) m es) = map_of m ++ map_of (rev es)" for m
    by (induction es arbitrary: m) (auto simp: amap_simps map_add_def fun_eq_iff split: option.splits)
  from this [of "[]"] show ?thesis by (simp add: amap_of_def)
qed

lemma json_get_object: "json_get k (json_object es) = map_of (rev es) k"
  by (simp add: json_object_def map_of_amap_of)

lemma is_object_json_object [simp]: "is_object (json_object es)"
  by (simp add: json_object_def)

lemma amap_wf_filter: "amap_wf m \<Longrightarrow> amap_wf (filter p m)"
  by (auto simp: amap_wf_def sorted_wrt_map intro: sorted_wrt_filter)

subsection \<open>Lemmas on tables (association lists with distinct keys)\<close>

lemma length_AList_delete:
  "distinct (map fst xs) \<Longrightarrow> k \<in> fst ` set xs \<Longrightarrow> Suc (length (AList.delete k xs)) = length xs"
proof (induction xs)
  case Nil
  then show ?case by simp
next
  case (Cons x xs)
  then show ?case by (cases x; cases "fst x = k") (auto simp: AList.delete_idem)
qed

lemma length_AList_update:
  "length (AList.update k v al) = (if map_of al k = None then Suc (length al) else length al)"
  by (induction al) auto

lemma values_AList_delete: "snd ` set (AList.delete k xs) \<subseteq> snd ` set xs"
  by (auto simp: AList.delete_eq)

lemma values_AList_update: "snd ` set (AList.update k v al) \<subseteq> insert v (snd ` set al)"
  by (induction al) auto

end
