(* ===== verification/TextUtil.thy ===== *)
theory TextUtil
  imports Prelude
begin

text \<open>
  The text helpers that several sources share: \<open>trim_ascii\<close> and \<open>lowercase_ascii\<close>
  (\<open>src/src/api/support/LocalModelRouting.cpp\<close>, with a private copy in
  \<open>ThreadCompaction.cpp\<close>) and the line splitting and bullet helpers of
  \<open>ThreadCompaction.cpp\<close>. The erasing loops are \<open>dropWhile\<close> from each end.
\<close>

definition trim_ascii :: "string \<Rightarrow> string" where
  "trim_ascii s = rev (dropWhile is_space (rev (dropWhile is_space s)))"

definition lowercase_ascii :: "string \<Rightarrow> string" where
  "lowercase_ascii s = map to_lower s"

text \<open>The character loop of \<open>split_lines_trimmed\<close>, with the line read so far.\<close>

fun split_lines_from :: "string \<Rightarrow> string \<Rightarrow> string list" where
  "split_lines_from current [] =
     (let tl = trim_ascii current in if tl = [] then [] else [tl])"
| "split_lines_from current (ch # rest) =
     (if ch = newline then
        (let line = trim_ascii current
         in (if line = [] then [] else [line]) @ split_lines_from [] rest)
      else if ch = carriage_return then split_lines_from current rest
      else split_lines_from (current @ [ch]) rest)"

definition split_lines_trimmed :: "string \<Rightarrow> string list" where
  "split_lines_trimmed text = split_lines_from [] text"

definition normalize_section_key :: "string \<Rightarrow> string" where
  "normalize_section_key line =
     trim_ascii (lowercase_ascii (dropWhile (\<lambda>c. c = CHR ''#'') line))"

definition bulletize :: "string \<Rightarrow> string" where
  "bulletize line =
     (if line = [] then []
      else if starts_with line ''- '' \<or> starts_with line ''* '' then line
      else if 3 \<le> length line \<and> is_digit (line ! 0) \<and> line ! 1 = CHR ''.'' \<and> line ! 2 = CHR '' ''
      then ''- '' @ drop 3 line
      else ''- '' @ line)"

definition truncate_bytes_tail :: "string \<Rightarrow> nat \<Rightarrow> string" where
  "truncate_bytes_tail text max_bytes =
     (if length text \<le> max_bytes then text else drop (length text - max_bytes) text)"

subsection \<open>Lemmas\<close>

lemma trim_ascii_hd: "trim_ascii s \<noteq> [] \<Longrightarrow> \<not> is_space (hd (trim_ascii s))"
proof -
  assume ne: "trim_ascii s \<noteq> []"
  define t where "t = dropWhile is_space s"
  have "t = trim_ascii s @ rev (takeWhile is_space (rev t))"
    by (metis rev_append rev_rev_ident t_def takeWhile_dropWhile_id trim_ascii_def)
  then have "hd t = hd (trim_ascii s)" "t \<noteq> []" using ne by (metis hd_append2, auto)
  then show ?thesis using hd_dropWhile [of is_space s] by (simp add: t_def)
qed

lemma trim_ascii_last: "trim_ascii s \<noteq> [] \<Longrightarrow> \<not> is_space (last (trim_ascii s))"
  using hd_dropWhile [of is_space "rev (dropWhile is_space s)"] by (simp add: trim_ascii_def last_rev)

lemma trim_ascii_id:
  assumes "s = [] \<or> (\<not> is_space (hd s) \<and> \<not> is_space (last s))"
  shows "trim_ascii s = s"
proof (cases "s = []")
  case True
  then show ?thesis by (simp add: trim_ascii_def)
next
  case False
  then have "dropWhile is_space s = s" "dropWhile is_space (rev s) = rev s"
    using assms by (simp_all add: dropWhile_eq_self_iff hd_rev)
  then show ?thesis by (simp add: trim_ascii_def)
qed

lemma trim_ascii_idem [simp]: "trim_ascii (trim_ascii s) = trim_ascii s"
  by (rule trim_ascii_id) (use trim_ascii_hd trim_ascii_last in blast)

lemma trim_ascii_ne: "\<exists>c \<in> set s. \<not> is_space c \<Longrightarrow> trim_ascii s \<noteq> []"
  unfolding trim_ascii_def by (induction s) auto

lemma split_lines_from_nonempty: "\<forall>l \<in> set (split_lines_from cur s). l \<noteq> [] \<and> trim_ascii l = l"
  by (induction cur s rule: split_lines_from.induct) (auto simp: Let_def)

lemma split_lines_from_some:
  "\<exists>c \<in> set cur \<union> set s. \<not> is_space c \<Longrightarrow> split_lines_from cur s \<noteq> []"
proof (induction cur s rule: split_lines_from.induct)
  case (1 current)
  then show ?case using trim_ascii_ne by (auto simp: Let_def)
next
  case (2 current ch rest)
  have sp: "is_space newline" "is_space carriage_return" by (simp_all add: is_space_def byte_of_def)
  show ?case
  proof (cases "ch = newline")
    case True
    then show ?thesis using 2 sp trim_ascii_ne [of current] by (auto simp: Let_def)
  next
    case False
    then show ?thesis using 2 sp by auto
  qed
qed

lemma bulletize_bullet: "line \<noteq> [] \<Longrightarrow> starts_with (bulletize line) ''- '' \<or> starts_with (bulletize line) ''* ''"
  by (auto simp: bulletize_def starts_with_iff)

lemma bulletize_idem: "bulletize (bulletize line) = bulletize line"
  by (auto simp: bulletize_def starts_with_iff)

lemma truncate_bytes_tail_length: "length (truncate_bytes_tail s n) \<le> n"
  by (simp add: truncate_bytes_tail_def)

lemma truncate_bytes_tail_suffix: "\<exists>t. s = t @ truncate_bytes_tail s n"
  by (auto simp: truncate_bytes_tail_def intro: append_take_drop_id [symmetric])

lemma lowercase_idem: "lowercase_ascii (lowercase_ascii s) = lowercase_ascii s"
proof -
  have "to_lower (to_lower c) = to_lower c" for c
    by (auto simp: to_lower_def is_upper_def byte_of_def of_char_of take_bit_eq_mod)
  then show ?thesis by (simp add: lowercase_ascii_def)
qed

end
