(* ===== verification/NudgeText.thy ===== *)
theory NudgeText
  imports TextUtil "HOL-Library.Word"
begin

unbundle bit_operations_syntax

text \<open>
  The texts of nudges (\<open>src/src/ai/NudgeService.cpp\<close>): cleaning and validating suggested titles,
  the titles made from a card's body without a model, reading titles from a model's answer, and
  the identifier of a nudge, a 64-bit hash of what it is about.

  \<open>trim_copy\<close> and \<open>lower_copy\<close> of the source are \<open>trim_ascii\<close> and
  \<open>lowercase_ascii\<close>. The loop that fills up the titles may run forever for all the code says:
  it is a partial function, and the lemmas show that it returns.
\<close>

subsection \<open>Lines and words\<close>

text \<open>\<open>std::getline\<close> until the end: a last line without newline counts if it is not empty.\<close>

fun getlines_from :: "string \<Rightarrow> string \<Rightarrow> string list" where
  "getlines_from cur [] = (if cur = [] then [] else [cur])"
| "getlines_from cur (c # cs) = (if c = newline then cur # getlines_from [] cs else getlines_from (cur @ [c]) cs)"

definition getlines :: "string \<Rightarrow> string list" where
  "getlines text = getlines_from [] text"

text \<open>\<open>words >> word\<close> until the end.\<close>

fun words_from :: "string \<Rightarrow> string \<Rightarrow> string list" where
  "words_from cur [] = (if cur = [] then [] else [cur])"
| "words_from cur (c # cs) =
     (if is_space c then (if cur = [] then [] else [cur]) @ words_from [] cs else words_from (cur @ [c]) cs)"

subsection \<open>Cleaning titles\<close>

definition strip_wrapping_quotes :: "string \<Rightarrow> string" where
  "strip_wrapping_quotes v =
     (let value = trim_ascii v
      in if 2 \<le> length value \<and> (hd value = CHR 0x22 \<and> last value = CHR 0x22 \<or> hd value = CHR 0x27 \<and> last value = CHR 0x27)
         then trim_ascii (substr value 1 (length value - 2)) else value)"

lemma length_trim_ascii: "length (trim_ascii s) \<le> length s"
  unfolding trim_ascii_def by (metis length_dropWhile_le length_rev order_trans)

function strip_bullets :: "string \<Rightarrow> string" where
  "strip_bullets [] = []"
| "strip_bullets (c # cs) = (if c = CHR ''-'' \<or> c = CHR ''*'' then strip_bullets (trim_ascii cs) else c # cs)"
  by pat_completeness auto
termination by (relation "measure length") (auto simp: less_Suc_eq_le length_trim_ascii)

definition strip_list_marker :: "string \<Rightarrow> string" where
  "strip_list_marker v =
     (let value = strip_bullets (trim_ascii v); i = length (takeWhile is_digit value)
      in if 0 < i \<and> i < length value \<and> (value ! i = CHR ''.'' \<or> value ! i = CHR '')'')
         then trim_ascii (drop (i + 1) value) else value)"

definition drop_last_char :: "char \<Rightarrow> string \<Rightarrow> string" where
  "drop_last_char c value = (if value \<noteq> [] \<and> last value = c then trim_ascii (butlast value) else value)"

definition clean_title_text :: "string \<Rightarrow> string" where
  "clean_title_text v =
     (let value = strip_list_marker v;
          value = drop_last_char CHR '','' value;
          value = strip_wrapping_quotes value;
          value = (if value \<noteq> [] \<and> hd value = CHR ''#'' then trim_ascii (tl value) else value);
          value = filter (\<lambda>c. c \<noteq> CHR 0x60) value;
          value = filter (\<lambda>c. c \<noteq> CHR ''*'') value;
          value = trim_ascii value;
          value = drop_last_char CHR ''.'' value
      in if 60 < length value then trim_ascii (take 60 value) else value)"

definition valid_suggested_title :: "string \<Rightarrow> bool" where
  "valid_suggested_title title \<longleftrightarrow>
     title \<noteq> [] \<and> newline \<notin> set title \<and>
     title \<notin> {''['', '']'', ''{'', ''}''} \<and>
     CHR ''['' \<notin> set title \<and> CHR '']'' \<notin> set title \<and>
     lowercase_ascii title \<notin> {''json'', ''javascript'', ''titles''} \<and>
     \<not> starts_with (lowercase_ascii title) ''untitled''"

definition add_unique_title :: "string list \<Rightarrow> string \<Rightarrow> string list" where
  "add_unique_title titles candidate =
     (let cleaned = clean_title_text candidate
      in if \<not> valid_suggested_title cleaned then titles
         else if lowercase_ascii cleaned \<notin> set (map lowercase_ascii titles) \<and> length titles < 3
         then titles @ [cleaned] else titles)"

subsection \<open>Titles from a model's answer\<close>

definition json_titles :: "json option \<Rightarrow> string list \<Rightarrow> string list" where
  "json_titles parsed out =
     (case parsed of
        Some (JArr items) \<Rightarrow> foldl (\<lambda>out item. case item of JStr s \<Rightarrow> add_unique_title out s | _ \<Rightarrow> out) out items
      | _ \<Rightarrow> out)"

fun line_titles :: "string list \<Rightarrow> string list \<Rightarrow> string list" where
  "line_titles [] out = out"
| "line_titles (line # lines) out = (if length out < 3 then line_titles lines (add_unique_title out line) else out)"

definition parse_title_suggestions :: "json_lib \<Rightarrow> string \<Rightarrow> string list" where
  "parse_title_suggestions lib generated =
     (let out = json_titles (lib_parse lib generated) []
      in if out \<noteq> [] then out
         else let out = (case (find_char CHR ''['' generated, rfind_char CHR '']'' generated) of
                           (Some a, Some b) \<Rightarrow>
                             if a < b then json_titles (lib_parse lib (substr generated a (b - a + 1))) out else out
                         | _ \<Rightarrow> out)
              in if out \<noteq> [] then out else line_titles (getlines generated) out)"

subsection \<open>Titles from the body\<close>

definition first_nonempty_line :: "string \<Rightarrow> string" where
  "first_nonempty_line text =
     (case filter (\<lambda>l. l \<noteq> []) (map clean_title_text (getlines text)) of [] \<Rightarrow> [] | l # _ \<Rightarrow> l)"

definition first_sentence :: "string \<Rightarrow> string" where
  "first_sentence text = clean_title_text (takeWhile (\<lambda>c. c \<notin> {CHR ''.'', CHR ''!'', CHR ''?'', newline}) (trim_ascii text))"

fun first_words_from :: "nat \<Rightarrow> string list \<Rightarrow> nat \<Rightarrow> string \<Rightarrow> string" where
  "first_words_from max_words [] n out = out"
| "first_words_from max_words (w # ws) n out =
     (if n < max_words then
        (let word = clean_title_text w
         in if word = [] then first_words_from max_words ws n out
            else first_words_from max_words ws (n + 1) (out @ (if 0 < n then '' '' else []) @ word))
      else out)"

definition first_words_title :: "string \<Rightarrow> nat \<Rightarrow> string" where
  "first_words_title text max_words = clean_title_text (first_words_from max_words (words_from [] text) 0 [])"

definition early_titles :: "string \<Rightarrow> string list" where
  "early_titles body =
     (let out = add_unique_title [] (first_nonempty_line body);
          out = add_unique_title out (first_sentence body);
          short_title = first_words_title body 5;
          out = add_unique_title out short_title
      in if short_title \<noteq> []
         then add_unique_title (add_unique_title out (short_title @ '' Overview'')) (''Notes on '' @ short_title) else out)"

definition body_titles :: "string \<Rightarrow> string list" where
  "body_titles body = add_unique_title (add_unique_title (early_titles body) ''Card Summary'') ''Key Ideas''"

partial_function (option) fill_titles :: "string list \<Rightarrow> string list option" where
  "fill_titles out =
     (if length out < 3 then fill_titles (add_unique_title out (''Title Option '' @ to_string (length out + 1)))
      else Some out)"

definition deterministic_title_suggestions :: "string \<Rightarrow> string list option" where
  "deterministic_title_suggestions body = fill_titles (body_titles body)"

subsection \<open>The hash\<close>

definition hex_char :: "nat \<Rightarrow> char" where
  "hex_char n = ''0123456789abcdef'' ! n"

definition to_hex16 :: "nat \<Rightarrow> string" where
  "to_hex16 n = map (\<lambda>i. hex_char (n div 16 ^ i mod 16)) (rev [0..<16])"

definition fnv1a :: "string \<Rightarrow> 64 word" where
  "fnv1a s = foldl (\<lambda>h c. (h XOR of_nat (byte_of c)) * 1099511628211) 1469598103934665603 s"

definition fnv1a_hex :: "string \<Rightarrow> string" where
  "fnv1a_hex s = to_hex16 (unat (fnv1a s))"

subsection \<open>Lemmas\<close>

lemma clean_title_length: "length (clean_title_text v) \<le> 60"
  unfolding clean_title_text_def Let_def
  by (auto intro: order_trans [OF length_trim_ascii])

definition titles_ok :: "string list \<Rightarrow> bool" where
  "titles_ok ts \<longleftrightarrow> length ts \<le> 3 \<and> distinct (map lowercase_ascii ts) \<and>
     (\<forall>t \<in> set ts. valid_suggested_title t \<and> length t \<le> 60)"

lemma titles_ok_Nil [simp]: "titles_ok []"
  by (simp add: titles_ok_def)

lemma titles_ok_add [simp]: "titles_ok ts \<Longrightarrow> titles_ok (add_unique_title ts c)"
  by (auto simp: titles_ok_def add_unique_title_def Let_def clean_title_length)

lemma titles_ok_early: "titles_ok (early_titles body)"
  by (simp add: early_titles_def Let_def)

lemma titles_ok_body: "titles_ok (body_titles body)"
  by (simp add: body_titles_def titles_ok_early)

text \<open>Adding a clean title: it is there afterwards, up to case, or the list is full.\<close>

lemma add_unique_title_in:
  assumes "titles_ok ts" and "clean_title_text c = c" and "valid_suggested_title c"
  shows "length (add_unique_title ts c) = 3 \<or> lowercase_ascii c \<in> lowercase_ascii ` set (add_unique_title ts c)"
  using assms by (auto simp: add_unique_title_def titles_ok_def Let_def)

lemma add_unique_title_mono: "set ts \<subseteq> set (add_unique_title ts c) \<and> length ts \<le> length (add_unique_title ts c)"
  by (auto simp: add_unique_title_def Let_def)

lemma fixed_titles:
  "clean_title_text ''Card Summary'' = ''Card Summary''" "valid_suggested_title ''Card Summary''"
  "clean_title_text ''Key Ideas'' = ''Key Ideas''" "valid_suggested_title ''Key Ideas''"
  "clean_title_text ''Title Option 3'' = ''Title Option 3''" "valid_suggested_title ''Title Option 3''"
  "lowercase_ascii ''Card Summary'' = ''card summary''" "lowercase_ascii ''Key Ideas'' = ''key ideas''"
  "lowercase_ascii ''Title Option 3'' = ''title option 3''"
  by code_simp+

lemma body_titles_cases:
  "length (body_titles body) = 3 \<or>
   (length (body_titles body) = 2 \<and> lowercase_ascii ` set (body_titles body) = {''card summary'', ''key ideas''})"
proof -
  define ts where "ts = early_titles body"
  have ts: "titles_ok ts" "body_titles body = add_unique_title (add_unique_title ts ''Card Summary'') ''Key Ideas''"
    by (simp_all add: body_titles_def ts_def titles_ok_early)
  let ?a = "add_unique_title ts ''Card Summary''" and ?b = "body_titles body"
  have a: "length ?a = 3 \<or> ''card summary'' \<in> lowercase_ascii ` set ?a"
    using add_unique_title_in [OF ts(1) fixed_titles(1,2)] fixed_titles(7) by simp
  have b: "length ?b = 3 \<or> ''key ideas'' \<in> lowercase_ascii ` set ?b"
    using add_unique_title_in [OF titles_ok_add [OF ts(1)] fixed_titles(3,4)] fixed_titles(8) ts(2) by simp
  have mono: "set ?a \<subseteq> set ?b" "length ?a \<le> length ?b" using add_unique_title_mono ts(2) by auto
  have ok: "length ?b \<le> 3" "distinct (map lowercase_ascii ?b)" using titles_ok_body by (auto simp: titles_ok_def)
  show ?thesis
  proof (cases "length ?b = 3")
    case False
    then have sub: "{''card summary'', ''key ideas''} \<subseteq> lowercase_ascii ` set ?b" using a b mono ok(1) by auto
    have card: "card (lowercase_ascii ` set ?b) = length ?b" using distinct_card [OF ok(2)] by simp
    have "card {''card summary'', ''key ideas''} \<le> card (lowercase_ascii ` set ?b)" by (rule card_mono [OF _ sub]) simp
    then have "length ?b = 2" using card ok(1) False by simp
    then show ?thesis using sub card card_subset_eq [OF _ sub] by simp
  qed simp
qed

lemma to_string_3: "to_string 3 = ''3''"
  by code_simp

lemma fill_titles_full: "length ts = 3 \<Longrightarrow> fill_titles ts = Some ts"
  by (subst fill_titles.simps) simp

text \<open>The loop returns: after at most one round the list is full.\<close>

lemma deterministic_titles:
  obtains ts where "deterministic_title_suggestions body = Some ts" "titles_ok ts" "length ts = 3"
proof (cases "length (body_titles body) = 3")
  case True
  then show ?thesis using that fill_titles_full titles_ok_body by (simp add: deterministic_title_suggestions_def)
next
  case False
  then have two: "length (body_titles body) = 2" "lowercase_ascii ` set (body_titles body) = {''card summary'', ''key ideas''}"
    using body_titles_cases by auto
  let ?ts = "add_unique_title (body_titles body) ''Title Option 3''"
  have "to_string (length (body_titles body) + 1) = to_string 3" using two(1) by simp
  then have "to_string (length (body_titles body) + 1) = ''3''" using to_string_3 by simp
  then have "fill_titles (body_titles body) = fill_titles ?ts" using two(1) by (subst fill_titles.simps) simp
  moreover have "length ?ts = 3"
    using two fixed_titles(5,6,9) by (simp add: add_unique_title_def Let_def)
  ultimately show ?thesis
    using that [of ?ts] fill_titles_full titles_ok_body titles_ok_add by (simp add: deterministic_title_suggestions_def)
qed

lemma titles_ok_json: "titles_ok out \<Longrightarrow> titles_ok (json_titles parsed out)"
proof -
  have "titles_ok out \<Longrightarrow> titles_ok (foldl (\<lambda>out item. case item of JStr s \<Rightarrow> add_unique_title out s | _ \<Rightarrow> out) out items)" for items
    by (induction items arbitrary: out) (auto split: json.split)
  then show "titles_ok out \<Longrightarrow> titles_ok (json_titles parsed out)"
    by (auto simp: json_titles_def split: option.split json.split)
qed

lemma titles_ok_lines: "titles_ok out \<Longrightarrow> titles_ok (line_titles ls out)"
  by (induction ls arbitrary: out) auto

lemma titles_ok_parse: "titles_ok (parse_title_suggestions lib generated)"
  by (auto simp: parse_title_suggestions_def Let_def titles_ok_lines titles_ok_json split: option.split)

lemma titles_ok_foldl: "titles_ok ts \<Longrightarrow> titles_ok (foldl add_unique_title ts fs)"
  by (induction fs arbitrary: ts) auto

end
