(* ===== verification/WorkTree.thy ===== *)
theory WorkTree
  imports Prelude
begin

text \<open>
  What the durable copies of database rows share (\<open>src/src/ai/AiThreadStateDurability.cpp\<close>,
  \<open>src/src/ai/AiNudgeDurability.cpp\<close>): a row is written as a JSON file of its project's Git work
  tree, encrypted for projects in the mode \<open>encrypted_git\<close>, at a path made from its key, and a
  restore walks the work trees and puts every file back as a row.

  A work tree is the list of its files, each a path (the list of its components) with its
  content, in the order the directory iterator visits them. What the daemon calls of other
  packages is the parameter \<open>env\<close>: writing, staging and committing a file, and the project
  cipher; their documented behaviour is \<open>env_ok\<close>.

  The locale \<open>row_copies\<close> is the contract of such a kind of copy; its lemmas say that writing
  a copy keeps the work trees well formed and that a walk finds for every key exactly the copy
  written last.
\<close>

record project =
  p_id :: string
  p_root :: string
  p_privacy_mode :: string
  p_key_id :: "string option"

type_synonym worktree = "(string list \<times> string) list"

record state_env =
  env_write :: "string list \<Rightarrow> string \<Rightarrow> worktree \<Rightarrow> worktree result"
  env_encrypt :: "string \<Rightarrow> string \<Rightarrow> string \<Rightarrow> string"
  env_decrypt :: "string \<Rightarrow> string \<Rightarrow> string \<Rightarrow> string result"

definition env_ok :: "state_env \<Rightarrow> bool" where
  "env_ok env \<longleftrightarrow>
     (\<forall>path c t t'. env_write env path c t = Inr t' \<longrightarrow>
        map_of t' = (map_of t)(path \<mapsto> c) \<and> (distinct (map fst t) \<longrightarrow> distinct (map fst t'))) \<and>
     (\<forall>i k c. env_decrypt env i k (env_encrypt env i k c) = Inr c)"

definition opt_json :: "string option \<Rightarrow> json" where
  "opt_json v = (case v of None \<Rightarrow> JNull | Some s \<Rightarrow> JStr s)"

text \<open>The project's key; \<open>kind\<close> names the kind of copy in the message.\<close>

definition project_key :: "string \<Rightarrow> project \<Rightarrow> string result" where
  "project_key kind p =
     (case p_key_id p of
        None \<Rightarrow> Inl (RuntimeError (''encrypted project has no key for AI '' @ kind))
      | Some k \<Rightarrow> if k = [] then Inl (RuntimeError (''encrypted project has no key for AI '' @ kind)) else Inr k)"

definition encode_blob :: "state_env \<Rightarrow> string \<Rightarrow> project \<Rightarrow> string \<Rightarrow> string result" where
  "encode_blob env kind p plain =
     (if p_privacy_mode p \<noteq> ''encrypted_git'' then Inr plain
      else andthen (project_key kind p) (\<lambda>k. Inr (env_encrypt env (p_id p) k plain)))"

definition decode_blob :: "state_env \<Rightarrow> string \<Rightarrow> project \<Rightarrow> string \<Rightarrow> string result" where
  "decode_blob env kind p raw =
     (if p_privacy_mode p = ''encrypted_git''
      then andthen (project_key kind p) (\<lambda>k. env_decrypt env (p_id p) k raw)
      else Inr raw)"

lemma decode_encode_blob: "env_ok env \<Longrightarrow> encode_blob env kind p plain = Inr c \<Longrightarrow> decode_blob env kind p c = Inr plain"
  by (auto simp: encode_blob_def decode_blob_def env_ok_def andthen_eq_Inr split: if_splits)

text \<open>The path of a copy below its directory; \<open>short\<close> is the message for a key that is too short.\<close>

definition sharded_path :: "string \<Rightarrow> string \<Rightarrow> string \<Rightarrow> string list result" where
  "sharded_path dir short key =
     (if length key < 4 then Inl (InvalidArgument short)
      else Inr [dir, substr key 0 2, substr key 2 2, key @ ''.json''])"

text \<open>\<open>entry.path().extension() == ".json"\<close> for a file name: something before the last dot.\<close>

definition json_extension :: "string \<Rightarrow> bool" where
  "json_extension name \<longleftrightarrow> ends_with name ''.json'' \<and> length name > 5"

definition is_copy_file :: "string \<Rightarrow> string list \<Rightarrow> bool" where
  "is_copy_file dir path \<longleftrightarrow> path \<noteq> [] \<and> hd path = dir \<and> 1 < length path \<and> json_extension (last path)"

lemma sharded_path_file:
  "sharded_path dir short i = Inr path \<Longrightarrow> is_copy_file dir path \<and> last path = i @ ''.json''"
  by (auto simp: sharded_path_def is_copy_file_def json_extension_def ends_with_iff split: if_splits)

lemma sharded_path_inj: "sharded_path dir short i = Inr path \<Longrightarrow> sharded_path dir short j = Inr path \<Longrightarrow> i = j"
  by (auto simp: sharded_path_def split: if_splits)

lemma find_by_key: "distinct (map f xs) \<Longrightarrow> x \<in> set xs \<Longrightarrow> find (\<lambda>y. f y = f x) xs = Some x"
  by (induction xs) force+

subsection \<open>Tables of rows\<close>

definition put_rows :: "('a \<Rightarrow> string) \<Rightarrow> (string \<times> 'a) list \<Rightarrow> 'a list \<Rightarrow> (string \<times> 'a) list" where
  "put_rows key t rows = foldl (\<lambda>t r. AList.update (key r) r t) t rows"

lemma put_rows_simps [simp]:
  "put_rows key t [] = t"
  "put_rows key t (r # rs) = put_rows key (AList.update (key r) r t) rs"
  "put_rows key t (rs @ rs') = put_rows key (put_rows key t rs) rs'"
  by (simp_all add: put_rows_def)

lemma put_rows_lookup:
  assumes "\<forall>r \<in> set rows. key r = i \<longrightarrow> r = r0" and "r0 \<in> set rows" and "key r0 = i"
  shows "map_of (put_rows key t rows) i = Some r0"
  using assms
proof (induction rows rule: rev_induct)
  case (snoc r rows)
  have step: "map_of (put_rows key t (rows @ [r])) i = (if key r = i then Some r else map_of (put_rows key t rows) i)"
    by (simp add: update_conv')
  show ?case
  proof (cases "key r = i")
    case True
    then show ?thesis using step snoc.prems(1) by simp
  next
    case False
    then have "r0 \<in> set rows" using snoc.prems(2,3) by auto
    then have "map_of (put_rows key t rows) i = Some r0" by (intro snoc.IH snoc.prems(3)) (use snoc.prems(1) in simp)
    then show ?thesis using step False by simp
  qed
qed simp

lemma put_rows_other: "i \<notin> key ` set rows \<Longrightarrow> map_of (put_rows key t rows) i = map_of t i"
  by (induction rows arbitrary: t) (auto simp: update_conv')

text \<open>The ownership audit over the joined rows (key and root of the project), until one has no file.\<close>

fun rows_durable :: "(string \<Rightarrow> string list result) \<Rightarrow> (string \<Rightarrow> worktree) \<Rightarrow> (string \<times> string) list \<Rightarrow> bool result" where
  "rows_durable relpath trees [] = Inr True"
| "rows_durable relpath trees ((i, root) # rows) =
     andthen (relpath i) (\<lambda>path. if map_of (trees root) path \<noteq> None then rows_durable relpath trees rows else Inr False)"

lemma rows_durable_file:
  "rows_durable relpath trees rows = Inr True \<Longrightarrow> (i, root) \<in> set rows \<Longrightarrow>
   \<exists>path c. relpath i = Inr path \<and> (path, c) \<in> set (trees root)"
proof (induction relpath trees rows rule: rows_durable.induct)
  case (2 relpath trees j root' rows)
  then show ?case by (auto simp: andthen_eq_Inr split: if_splits dest: map_of_SomeD)
qed simp

subsection \<open>The contract\<close>

definition copy_ok ::
  "('a \<Rightarrow> string list result) \<Rightarrow> (string list \<Rightarrow> bool) \<Rightarrow> (project \<Rightarrow> string \<Rightarrow> 'a result) \<Rightarrow> ('a \<Rightarrow> string option) \<Rightarrow>
     project \<Rightarrow> string list \<times> string \<Rightarrow> bool" where
  "copy_ok path_of is_copy decode owner p e \<longleftrightarrow> (is_copy (fst e) \<longrightarrow>
     (\<exists>r. decode p (snd e) = Inr r \<and> path_of r = Inr (fst e) \<and> owner r = Some (p_id p)))"

definition trees_ok ::
  "('a \<Rightarrow> string list result) \<Rightarrow> (string list \<Rightarrow> bool) \<Rightarrow> (project \<Rightarrow> string \<Rightarrow> 'a result) \<Rightarrow> ('a \<Rightarrow> string option) \<Rightarrow>
     project list \<Rightarrow> (string \<Rightarrow> worktree) \<Rightarrow> bool" where
  "trees_ok path_of is_copy decode owner ps trees \<longleftrightarrow>
     distinct (map p_id ps) \<and> distinct (map p_root ps) \<and>
     (\<forall>p \<in> set ps. distinct (map fst (trees (p_root p))) \<and>
        (\<forall>e \<in> set (trees (p_root p)). copy_ok path_of is_copy decode owner p e))"

definition copies_of :: "(string list \<Rightarrow> bool) \<Rightarrow> (project \<Rightarrow> string \<Rightarrow> 'a result) \<Rightarrow> project \<Rightarrow> worktree \<Rightarrow> 'a list" where
  "copies_of is_copy decode p es = map (\<lambda>e. projr (decode p (snd e))) (filter (\<lambda>e. is_copy (fst e)) es)"

definition all_copies ::
  "(string list \<Rightarrow> bool) \<Rightarrow> (project \<Rightarrow> string \<Rightarrow> 'a result) \<Rightarrow> project list \<Rightarrow> (string \<Rightarrow> worktree) \<Rightarrow> 'a list" where
  "all_copies is_copy decode ps trees = concat (map (\<lambda>p. copies_of is_copy decode p (trees (p_root p))) ps)"

locale row_copies =
  fixes key :: "'a \<Rightarrow> string"
    and path_of :: "'a \<Rightarrow> string list result"
    and is_copy :: "string list \<Rightarrow> bool"
    and owner :: "'a \<Rightarrow> string option"
  assumes path_is_copy: "path_of r = Inr path \<Longrightarrow> is_copy path"
    and path_key: "path_of r = Inr path \<Longrightarrow> path_of r' = Inr path \<longleftrightarrow> key r' = key r"
    and owner_key: "key r' = key r \<Longrightarrow> owner r = Some i \<Longrightarrow> owner r' = Some j \<Longrightarrow> i = j"
begin

text \<open>Two copies of a key in well-formed work trees are the same copy.\<close>

lemma copies_unique:
  assumes ok: "trees_ok path_of is_copy decode owner ps trees" and p: "p \<in> set ps" and q: "q \<in> set ps"
    and e: "(path, c) \<in> set (trees (p_root p))" "is_copy path" "decode p c = Inr r"
    and e': "(path', c') \<in> set (trees (p_root q))" "is_copy path'" "decode q c' = Inr r'"
    and same: "key r' = key r"
  shows "r' = r"
proof -
  have r: "path_of r = Inr path" "owner r = Some (p_id p)" using ok p e by (force simp: trees_ok_def copy_ok_def)+
  have r': "path_of r' = Inr path'" "owner r' = Some (p_id q)" using ok q e' by (force simp: trees_ok_def copy_ok_def)+
  have "p_id q = p_id p" using owner_key [OF same r(2) r'(2)] by simp
  then have qp: "q = p" using ok p q by (auto simp: trees_ok_def distinct_map inj_on_def)
  have "path' = path" using path_key [OF r(1), of r'] r'(1) same by simp
  then have "c' = c" using e(1) e'(1) qp ok p by (auto simp: trees_ok_def dest: eq_key_imp_eq_value)
  then show ?thesis using e(3) e'(3) qp by simp
qed

lemma all_copies_in:
  assumes "trees_ok path_of is_copy decode owner ps trees" and "r \<in> set (all_copies is_copy decode ps trees)"
  obtains p path c where "p \<in> set ps" "(path, c) \<in> set (trees (p_root p))" "is_copy path" "decode p c = Inr r"
    "path_of r = Inr path" "owner r = Some (p_id p)"
  using assms by (fastforce simp: all_copies_def copies_of_def trees_ok_def copy_ok_def)

lemma walk_finds:
  assumes ok: "trees_ok path_of is_copy decode owner ps trees" and p: "p \<in> set ps"
    and e: "(path, c) \<in> set (trees (p_root p))" "is_copy path" "decode p c = Inr r"
  shows "map_of (put_rows key t (all_copies is_copy decode ps trees)) (key r) = Some r"
proof (rule put_rows_lookup)
  show "\<forall>r' \<in> set (all_copies is_copy decode ps trees). key r' = key r \<longrightarrow> r' = r"
    using copies_unique [OF ok p _ e] by (metis all_copies_in [OF ok])
  show "r \<in> set (all_copies is_copy decode ps trees)"
    using p e by (force simp: all_copies_def copies_of_def image_iff)
qed simp

text \<open>A key without a copy keeps its row.\<close>

lemma walk_other:
  assumes ok: "trees_ok path_of is_copy decode owner ps trees" and "path_of r = Inr path"
    and "\<forall>p \<in> set ps. path \<notin> fst ` set (trees (p_root p))"
  shows "map_of (put_rows key t (all_copies is_copy decode ps trees)) (key r) = map_of t (key r)"
proof (rule put_rows_other, rule notI)
  assume "key r \<in> key ` set (all_copies is_copy decode ps trees)"
  then obtain r' where r': "r' \<in> set (all_copies is_copy decode ps trees)" "key r' = key r" by auto
  then obtain p path' c where e: "p \<in> set ps" "(path', c) \<in> set (trees (p_root p))" "path_of r' = Inr path'"
    using all_copies_in [OF ok r'(1)] by metis
  then have "path' = path" using path_key [OF assms(2), of r'] r'(2) by simp
  then show False using e assms(3) by force
qed

text \<open>Writing the copy of a row keeps the work trees well formed, and the walk then finds the row.\<close>

lemma write_keeps:
  assumes ok: "trees_ok path_of is_copy decode owner ps trees" and env: "env_ok env" and p: "p \<in> set ps"
    and w: "env_write env path c (trees (p_root p)) = Inr tree"
    and r: "decode p c = Inr r" "path_of r = Inr path" "owner r = Some (p_id p)"
  shows "trees_ok path_of is_copy decode owner ps (trees(p_root p := tree))"
proof -
  have dt: "distinct (map fst (trees (p_root p)))" using ok p by (simp add: trees_ok_def)
  have m: "map_of tree = (map_of (trees (p_root p)))(path \<mapsto> c)" and d: "distinct (map fst tree)"
    using env w dt by (auto simp: env_ok_def)
  have files: "copy_ok path_of is_copy decode owner p e" if e: "e \<in> set tree" for e
  proof -
    obtain a b where ab: "e = (a, b)" by (cases e)
    then have "map_of tree a = Some b" using e d by simp
    then have "(a = path \<and> b = c) \<or> (a, b) \<in> set (trees (p_root p))"
      using m by (auto split: if_splits dest: map_of_SomeD)
    moreover have "copy_ok path_of is_copy decode owner p (path, c)" using r by (simp add: copy_ok_def)
    ultimately show ?thesis using ok p ab by (auto simp: trees_ok_def)
  qed
  have eq: "q = p" if "q \<in> set ps" "p_root q = p_root p" for q
    using ok p that by (auto simp: trees_ok_def distinct_map inj_on_def)
  have "distinct (map fst ((trees(p_root p := tree)) (p_root q))) \<and>
      (\<forall>e \<in> set ((trees(p_root p := tree)) (p_root q)). copy_ok path_of is_copy decode owner q e)" if q: "q \<in> set ps" for q
  proof (cases "p_root q = p_root p")
    case True
    then show ?thesis using eq [OF q True] d files by simp
  next
    case False
    then show ?thesis using ok q by (simp add: trees_ok_def)
  qed
  then show ?thesis using ok unfolding trees_ok_def by blast
qed

lemma write_found:
  assumes ok: "trees_ok path_of is_copy decode owner ps trees" and env: "env_ok env" and p: "p \<in> set ps"
    and w: "env_write env path c (trees (p_root p)) = Inr tree"
    and r: "decode p c = Inr r" "path_of r = Inr path" "owner r = Some (p_id p)"
  shows "map_of (put_rows key t (all_copies is_copy decode ps (trees(p_root p := tree)))) (key r) = Some r"
proof (rule walk_finds [OF write_keeps [OF assms] p _ path_is_copy [OF r(2)] r(1)])
  have "map_of tree path = Some c" using env w by (simp add: env_ok_def)
  then show "(path, c) \<in> set ((trees(p_root p := tree)) (p_root p))" by (simp add: map_of_SomeD)
qed

text \<open>A row that the audit saw comes back, if its copy was current.\<close>

lemma audited_found:
  assumes ok: "trees_ok path_of is_copy decode owner ps trees" and p: "p \<in> set ps"
    and audit: "rows_durable relpath trees rows = Inr True" "(key r, p_root p) \<in> set rows"
    and path: "path_of r = relpath (key r)"
    and current: "\<And>path c. path_of r = Inr path \<Longrightarrow> (path, c) \<in> set (trees (p_root p)) \<Longrightarrow> decode p c = Inr r"
  shows "map_of (put_rows key t (all_copies is_copy decode ps trees)) (key r) = Some r"
proof -
  obtain path' c where f: "path_of r = Inr path'" "(path', c) \<in> set (trees (p_root p))"
    using rows_durable_file [OF audit] path by auto
  show ?thesis by (rule walk_finds [OF ok p f(2) path_is_copy [OF f(1)] current [OF f]])
qed

end

end
