(* ===== verification/Http.thy ===== *)
theory Http
  imports Prelude
begin

text \<open>
  The HTTP front of the daemon, below the sockets: requests and responses as the sources use
  them, \<open>HttpAuth.h\<close>, \<open>HttpQuery.h\<close> and \<open>HttpResponses.h\<close> of
  \<open>src/src/api/support\<close>, \<open>api/Router.cpp\<close>, the request splitting, lane
  classification and dispatch of \<open>api/Session.cpp\<close>, and the route tables of
  \<open>api/routes/AuthenticatedRoutes.cpp\<close> and \<open>api/routes/ai/AiDispatch.cpp\<close>.

  The route handlers work on a state of type \<open>'w\<close> (the database, the card store and the other
  objects a session points to). They are the fields of the records \<open>ai_routes\<close>,
  \<open>routes\<close> and \<open>api\<close>, so that what is proved of the dispatch holds whatever they do.
  A handler answers with \<open>None\<close> where the source returns \<open>false\<close>. Beast parses header
  names without regard to case; a header list here has the canonical names, and \<open>find\<close>
  gives the first field of a name. Every response closes its connection.
\<close>

subsection \<open>Requests and responses\<close>

datatype verb = VGet | VHead | VPost | VPut | VPatch | VDelete | VOther string

record request =
  rq_method :: verb
  rq_target :: string
  rq_headers :: "(string \<times> string) list"
  rq_body :: string

record response =
  rs_status :: nat
  rs_content_type :: string
  rs_body :: string

definition json_response :: "json_lib \<Rightarrow> nat \<Rightarrow> json \<Rightarrow> response" where
  "json_response lib status payload =
     \<lparr>rs_status = status, rs_content_type = ''application/json'', rs_body = lib_dump lib payload\<rparr>"

definition error_payload :: "string \<Rightarrow> string \<Rightarrow> json" where
  "error_payload code message =
     json_object [(''ok'', JBool False),
                  (''error'', json_object [(''code'', JStr code), (''message'', JStr message)])]"

definition error_response :: "json_lib \<Rightarrow> nat \<Rightarrow> string \<Rightarrow> string \<Rightarrow> response" where
  "error_response lib status code message = json_response lib status (error_payload code message)"

definition is_authorized_bearer :: "request \<Rightarrow> string \<Rightarrow> bool" where
  "is_authorized_bearer req token =
     (case map_of (rq_headers req) ''Authorization'' of
        None \<Rightarrow> False
      | Some auth \<Rightarrow>
          if \<not> starts_with auth ''Bearer '' then False
          else drop (length ''Bearer '') auth = token)"

definition query_param_value :: "string \<Rightarrow> string \<Rightarrow> string" where
  "query_param_value query_string key =
     (let needle = key @ ''=''
      in case find_str needle query_string of
           None \<Rightarrow> []
         | Some pos \<Rightarrow>
             let rest = drop (pos + length needle) query_string
             in case find_char CHR ''&'' rest of None \<Rightarrow> rest | Some n \<Rightarrow> take n rest)"

subsection \<open>The router\<close>

text \<open>A handler of the router always answers; the key is the method and the whole target.\<close>

type_synonym 'w router = "((verb \<times> string) \<times> (request \<Rightarrow> 'w \<Rightarrow> response \<times> 'w)) list"

definition router_add ::
  "verb \<Rightarrow> string \<Rightarrow> (request \<Rightarrow> 'w \<Rightarrow> response \<times> 'w) \<Rightarrow> 'w router \<Rightarrow> 'w router" where
  "router_add method target handler routes = AList.update (method, target) handler routes"

definition router_dispatch :: "'w router \<Rightarrow> request \<Rightarrow> 'w \<Rightarrow> response option \<times> 'w" where
  "router_dispatch routes req w =
     (case map_of routes (rq_method req, rq_target req) of
        None \<Rightarrow> (None, w)
      | Some handler \<Rightarrow> apfst Some (handler req w))"

subsection \<open>Splitting the target, lanes\<close>

datatype lane = Save | Foreground | Background

definition split_target :: "string \<Rightarrow> string \<times> string" where
  "split_target target =
     (case find_char CHR ''?'' target of
        None \<Rightarrow> (target, [])
      | Some query_pos \<Rightarrow> (take query_pos target, drop (Suc query_pos) target))"

definition contains :: "string \<Rightarrow> string \<Rightarrow> bool" where
  "contains s p \<longleftrightarrow> find_str p s \<noteq> None"

definition classify_request_lane :: "request \<Rightarrow> string \<Rightarrow> lane" where
  "classify_request_lane req path =
     (let is_get_like = (rq_method req = VGet \<or> rq_method req = VHead);
          is_card_route = (path = ''/cards'' \<or> starts_with path ''/cards/'');
          is_ai_route = (path = ''/ai'' \<or> starts_with path ''/ai/'');
          is_history_route = contains path ''/history/'';
          is_link_route = (contains path ''/links'' \<or> contains path ''/backlinks'');
          is_forced_sync_route = (ends_with path ''/git/pull'' \<or> ends_with path ''/git/sync'')
      in if is_card_route \<and> \<not> is_get_like \<and> \<not> is_link_route then Save
         else if is_ai_route \<or> is_history_route \<or> is_link_route \<or> is_forced_sync_route then Background
         else Foreground)"

fun lane_name :: "lane \<Rightarrow> string" where
  "lane_name Save = ''save''"
| "lane_name Foreground = ''foreground''"
| "lane_name Background = ''background''"

record prepared_request =
  pq_req :: request
  pq_path :: string
  pq_query_string :: string
  pq_lane :: lane

text \<open>\<open>prepare_request\<close> after the read; a failed read (\<open>None\<close>) closes the connection.\<close>

definition prepare_request :: "request option \<Rightarrow> prepared_request option" where
  "prepare_request read_result =
     (case read_result of
        None \<Rightarrow> None
      | Some req \<Rightarrow>
          let (path, query_string) = split_target (rq_target req)
          in Some \<lparr>pq_req = req, pq_path = path, pq_query_string = query_string,
                   pq_lane = classify_request_lane req path\<rparr>)"

definition ping_response :: "json_lib \<Rightarrow> request \<Rightarrow> response" where
  "ping_response lib req =
     (if rq_method req \<noteq> VGet then error_response lib 405 ''method_not_allowed'' ''Use GET for /ping.''
      else \<lparr>rs_status = 200, rs_content_type = ''text/plain'', rs_body = ''pong''\<rparr>)"

subsection \<open>Dispatch to the route handlers\<close>

datatype handled = NotHandled | Answered response | Streamed

type_synonym 'w plain_handler = "string \<Rightarrow> string \<Rightarrow> request \<Rightarrow> 'w \<Rightarrow> response option \<times> 'w"
type_synonym 'w stream_handler = "string \<Rightarrow> string \<Rightarrow> request \<Rightarrow> 'w \<Rightarrow> handled \<times> 'w"

definition plain :: "response option \<times> 'w \<Rightarrow> handled \<times> 'w" where
  "plain r = (case fst r of None \<Rightarrow> NotHandled | Some res \<Rightarrow> Answered res, snd r)"

text \<open>\<open>if (handler(...)) return ...;\<close> and what follows it.\<close>

definition or_else :: "handled \<times> 'w \<Rightarrow> ('w \<Rightarrow> handled \<times> 'w) \<Rightarrow> handled \<times> 'w" where
  "or_else r k = (if fst r = NotHandled then k (snd r) else r)"

fun segment_from :: "nat \<Rightarrow> nat \<Rightarrow> string \<Rightarrow> string" where
  "segment_from 0 index rest = []"
| "segment_from (Suc fuel) index rest =
     (case find_char CHR ''/'' rest of
        None \<Rightarrow> if index = 1 then rest else []
      | Some n \<Rightarrow> if index = 1 then take n rest else segment_from fuel (index - 1) (drop (Suc n) rest))"

text \<open>\<open>segment_at\<close>: the loop advances past one slash per turn, so the path's length bounds it.\<close>

definition segment_at :: "string \<Rightarrow> nat \<Rightarrow> string" where
  "segment_at path index =
     (if path = [] \<or> hd path \<noteq> CHR ''/'' then [] else segment_from (length path) index (tl path))"

definition first_segment :: "string \<Rightarrow> string" where
  "first_segment path =
     (if path = [] \<or> hd path \<noteq> CHR ''/'' then []
      else case find_char CHR ''/'' (tl path) of None \<Rightarrow> tl path | Some n \<Rightarrow> take n (tl path))"

record 'w ai_routes =
  handle_ai_status_routes :: "'w plain_handler"
  handle_ai_provider_routes :: "'w plain_handler"
  handle_ai_nudge_routes :: "'w plain_handler"
  handle_ai_run_routes :: "'w stream_handler"
  handle_ai_runner_routes :: "'w stream_handler"
  handle_ai_thread_routes :: "'w plain_handler"
  handle_ai_message_routes :: "'w plain_handler"
  has_secret_store :: bool

definition dispatch_ai_routes :: "'w ai_routes \<Rightarrow> 'w stream_handler" where
  "dispatch_ai_routes ai path query req w =
     (let ai_resource = segment_at path 2
      in if ai_resource \<in> {''capabilities'', ''status'', ''local-models''} then
           plain (handle_ai_status_routes ai path query req w)
         else if ai_resource = ''providers'' then
           (if has_secret_store ai then plain (handle_ai_provider_routes ai path query req w) else (NotHandled, w))
         else if ai_resource = ''nudges'' then plain (handle_ai_nudge_routes ai path query req w)
         else if ai_resource = ''runs'' then handle_ai_run_routes ai path query req w
         else if ai_resource = ''runner'' \<or> ai_resource = ''runners'' then
           or_else (plain (handle_ai_status_routes ai path query req w)) (handle_ai_runner_routes ai path query req)
         else if ai_resource = ''threads'' then plain (handle_ai_thread_routes ai path query req w)
         else if ai_resource = ''messages'' then plain (handle_ai_message_routes ai path query req w)
         else (NotHandled, w))"

record 'w routes =
  handle_history_routes :: "'w plain_handler"
  handle_project_routes :: "'w plain_handler"
  handle_rebuild_routes :: "'w plain_handler"
  handle_reindex_routes :: "'w plain_handler"
  handle_search_routes :: "'w plain_handler"
  ai_route_table :: "'w ai_routes"
  handle_ai_resource_routes :: "'w stream_handler"
  handle_trash_routes :: "'w plain_handler"
  handle_milestone_routes :: "'w plain_handler"
  handle_card_reference_routes :: "'w plain_handler"
  handle_card_routes :: "'w plain_handler"

definition route_to_resource :: "'w routes \<Rightarrow> 'w stream_handler" where
  "route_to_resource rt path query req w =
     (let resource = first_segment path
      in if resource = ''projects'' \<or> resource = ''recovery-token'' then
           or_else (if resource = ''projects'' then plain (handle_history_routes rt path query req w) else (NotHandled, w))
             (\<lambda>w. plain (handle_project_routes rt path query req w))
         else if resource = ''rebuild'' then plain (handle_rebuild_routes rt path query req w)
         else if resource = ''reindex'' then plain (handle_reindex_routes rt path query req w)
         else if resource = ''search'' then plain (handle_search_routes rt path query req w)
         else if resource = ''ai'' then dispatch_ai_routes (ai_route_table rt) path query req w
         else if resource = ''resources'' \<or> resource = ''locations'' \<or> resource = ''imports'' then
           handle_ai_resource_routes rt path query req w
         else if resource = ''trash'' then plain (handle_trash_routes rt path query req w)
         else if resource = ''calendar'' then plain (handle_milestone_routes rt path query req w)
         else if resource = ''card-references'' then plain (handle_card_reference_routes rt path query req w)
         else if resource = ''cards'' then
           or_else (plain (handle_milestone_routes rt path query req w))
             (\<lambda>w. plain (handle_card_routes rt path query req w))
         else (NotHandled, w))"

definition dispatch_authenticated_routes :: "json_lib \<Rightarrow> 'w routes \<Rightarrow> 'w stream_handler" where
  "dispatch_authenticated_routes lib rt path query req w =
     or_else (route_to_resource rt path query req w)
       (\<lambda>w. (Answered (error_response lib 404 ''not_found'' ''Route not found.''), w))"

subsection \<open>A loaded request\<close>

record 'w api =
  api_token :: string
  api_static :: "string \<Rightarrow> request \<Rightarrow> response option"
  api_oauth_callback :: "'w plain_handler"
  api_events :: "'w stream_handler option"
  api_router :: "'w router"
  api_routes :: "'w routes"

definition dispatch_events :: "'w api \<Rightarrow> 'w stream_handler" where
  "dispatch_events a path query req w =
     (case api_events a of None \<Rightarrow> (NotHandled, w) | Some h \<Rightarrow> h path query req w)"

text \<open>Behind the bearer check.\<close>

definition dispatch_private :: "json_lib \<Rightarrow> 'w api \<Rightarrow> 'w stream_handler" where
  "dispatch_private lib a path query req w =
     or_else (dispatch_events a path query req w)
       (\<lambda>w. or_else (plain (router_dispatch (api_router a) req w))
              (dispatch_authenticated_routes lib (api_routes a) path query req))"

definition respond :: "json_lib \<Rightarrow> 'w api \<Rightarrow> 'w stream_handler" where
  "respond lib a path query req w =
     (if path = ''/ping'' then (Answered (ping_response lib req), w)
      else case api_static a path req of
        Some res \<Rightarrow> (Answered res, w)
      | None \<Rightarrow>
          or_else (plain (api_oauth_callback a path query req w))
            (\<lambda>w. if \<not> is_authorized_bearer req (api_token a)
                 then (Answered (error_response lib 401 ''unauthorized'' ''Missing or invalid token.''), w)
                 else dispatch_private lib a path query req w))"

record prepared_response =
  pr_res :: response
  pr_lane :: lane

text \<open>A streamed answer leaves nothing to write: the source returns \<open>nullopt\<close>.\<close>

definition process_loaded_request ::
  "json_lib \<Rightarrow> 'w api \<Rightarrow> prepared_request \<Rightarrow> 'w \<Rightarrow> prepared_response option \<times> 'w" where
  "process_loaded_request lib a pq w =
     (let (h, w') = respond lib a (pq_path pq) (pq_query_string pq) (pq_req pq) w
      in (case h of
            Answered res \<Rightarrow> Some \<lparr>pr_res = res, pr_lane = classify_request_lane (pq_req pq) (pq_path pq)\<rparr>
          | _ \<Rightarrow> None, w'))"

definition session_execute ::
  "json_lib \<Rightarrow> 'w api \<Rightarrow> request option \<Rightarrow> 'w \<Rightarrow> prepared_response option \<times> 'w" where
  "session_execute lib a read_result w =
     (case prepare_request read_result of
        None \<Rightarrow> (None, w)
      | Some pq \<Rightarrow> process_loaded_request lib a pq w)"

subsection \<open>Lemmas: segments\<close>

definition join_path :: "string list \<Rightarrow> string" where
  "join_path segs = concat (map (\<lambda>s. CHR ''/'' # s) segs)"

lemma segment_from_join:
  "\<forall>s \<in> set (seg # segs). CHR ''/'' \<notin> set s \<Longrightarrow> i < length (seg # segs) \<Longrightarrow> i < fuel \<Longrightarrow>
   segment_from fuel (Suc i) (seg @ join_path segs) = (seg # segs) ! i"
proof (induction segs arbitrary: seg i fuel)
  case Nil
  then show ?case by (cases fuel) (auto simp: join_path_def find_char_None_iff [THEN iffD2])
next
  case (Cons t segs)
  then obtain f where f: "fuel = Suc f" by (cases fuel) auto
  have find: "find_char CHR ''/'' (seg @ join_path (t # segs)) = Some (length seg)"
    using Cons.prems(1) by (simp add: join_path_def find_char_append_notin)
  show ?case
  proof (cases i)
    case 0
    then show ?thesis using f find by simp
  next
    case (Suc j)
    then have "segment_from f (Suc j) (t @ join_path segs) = (t # segs) ! j"
      using Cons.prems f by (intro Cons.IH) auto
    then show ?thesis using f find Suc by (simp add: join_path_def)
  qed
qed

lemma join_path_length: "length segs \<le> length (join_path segs)"
  by (induction segs) (simp_all add: join_path_def)

lemma segment_at_nth:
  assumes "\<forall>s \<in> set segs. CHR ''/'' \<notin> set s" and "i < length segs"
  shows "segment_at (join_path segs) (Suc i) = segs ! i"
proof -
  obtain seg rest where segs: "segs = seg # rest" using assms(2) by (cases segs) auto
  have "segment_from (length (join_path segs)) (Suc i) (seg @ join_path rest) = segs ! i"
    using assms segment_from_join [of seg rest i] join_path_length [of segs] by (simp add: segs)
  then show ?thesis by (simp add: segment_at_def segs join_path_def)
qed

lemma first_segment_at: "first_segment path = segment_at path 1"
  by (cases path) (auto simp: first_segment_def segment_at_def split: option.splits)

subsection \<open>Lemmas: query strings\<close>

text \<open>The pairs of a query string, joined as a client sends them.\<close>

definition join_query :: "(string \<times> string) list \<Rightarrow> string" where
  "join_query kvs = concat (map (\<lambda>(k, v). k @ ''='' @ v @ ''&'') kvs)"

lemma starts_with_before: "c \<notin> set p \<Longrightarrow> starts_with (a @ c # b) p \<Longrightarrow> starts_with a p"
proof (induction p arbitrary: a)
  case Nil
  then show ?case by (simp add: starts_with_def)
next
  case (Cons x p)
  then show ?case by (cases a) (auto simp: starts_with_def)
qed

lemma find_str_skip:
  assumes "c \<notin> set p" and "p \<noteq> []" and "find_str p a = None"
  shows "find_str p (a @ c # b) = map_option (\<lambda>i. Suc (length a + i)) (find_str p b)"
  using assms(3)
proof (induction a)
  case Nil
  have "\<not> starts_with (c # b) p" using assms(1,2) by (cases p) (auto simp: starts_with_def)
  then show ?case by (simp add: option.map_comp comp_def)
next
  case (Cons x a)
  then have nx: "\<not> starts_with (x # a) p" and na: "find_str p a = None" by (auto split: if_splits)
  have "\<not> starts_with (x # a @ c # b) p" using starts_with_before [OF assms(1), of "x # a" b] nx by auto
  then show ?case using Cons.IH [OF na] by (simp add: option.map_comp comp_def)
qed

lemma find_str_here: "find_str p (p @ s) = Some 0"
  using starts_with_append [of p s] by (cases "p @ s") (auto simp del: starts_with_append)

lemma query_found:
  assumes "CHR ''&'' \<notin> set key"
    and "\<forall>kv \<in> set before. CHR ''&'' \<notin> set (snd kv) \<and> find_str (key @ ''='') (fst kv @ ''='' @ snd kv) = None"
  shows "find_str (key @ ''='') (join_query before @ key @ ''='' @ rest) = Some (length (join_query before))"
  using assms(2)
proof (induction before)
  case Nil
  then show ?case using find_str_here [of "key @ ''=''" rest] by (simp add: join_query_def)
next
  case (Cons kv before)
  obtain k v where kv: "kv = (k, v)" by (cases kv)
  have "find_str (key @ ''='') ((k @ ''='' @ v) @ CHR ''&'' # (join_query before @ key @ ''='' @ rest)) =
      map_option (\<lambda>i. Suc (length (k @ ''='' @ v) + i)) (Some (length (join_query before)))"
    using find_str_skip [of "CHR ''&''" "key @ ''=''" "k @ ''='' @ v"] Cons assms(1) kv by simp
  then show ?case by (simp add: join_query_def kv)
qed

lemma query_absent:
  assumes "CHR ''&'' \<notin> set key"
    and "\<forall>kv \<in> set kvs. CHR ''&'' \<notin> set (snd kv) \<and> find_str (key @ ''='') (fst kv @ ''='' @ snd kv) = None"
  shows "find_str (key @ ''='') (join_query kvs) = None"
  using assms(2)
proof (induction kvs)
  case Nil
  then show ?case by (simp add: join_query_def)
next
  case (Cons kv kvs)
  obtain k v where kv: "kv = (k, v)" by (cases kv)
  have "find_str (key @ ''='') ((k @ ''='' @ v) @ CHR ''&'' # join_query kvs) = None"
    using find_str_skip [of "CHR ''&''" "key @ ''=''" "k @ ''='' @ v"] Cons assms(1) kv by simp
  then show ?case by (simp add: join_query_def kv)
qed

subsection \<open>Lemmas: dispatch\<close>

lemma or_else_handled: "fst (k (snd r)) \<noteq> NotHandled \<Longrightarrow> fst (or_else r k) \<noteq> NotHandled"
  by (simp add: or_else_def)

lemma dispatch_private_handled: "fst (dispatch_private lib a path query req w) \<noteq> NotHandled"
  unfolding dispatch_private_def dispatch_authenticated_routes_def
  by (intro or_else_handled) simp

lemma respond_handled: "fst (respond lib a path query req w) \<noteq> NotHandled"
  using dispatch_private_handled [of lib a path query req]
  by (auto simp: respond_def or_else_def split: option.splits)

lemma respond_public:
  assumes "\<not> is_authorized_bearer req (api_token a)"
  shows "respond lib a path query req w =
    (if path = ''/ping'' then (Answered (ping_response lib req), w)
     else case api_static a path req of
       Some res \<Rightarrow> (Answered res, w)
     | None \<Rightarrow> (case api_oauth_callback a path query req w of
         (Some res, w') \<Rightarrow> (Answered res, w')
       | (None, w') \<Rightarrow> (Answered (error_response lib 401 ''unauthorized'' ''Missing or invalid token.''), w')))"
  using assms by (auto simp: respond_def or_else_def plain_def split: option.splits prod.splits)

lemma is_authorized_bearer_iff:
  "is_authorized_bearer req token \<longleftrightarrow> map_of (rq_headers req) ''Authorization'' = Some (''Bearer '' @ token)"
  by (auto simp: is_authorized_bearer_def starts_with_iff split: option.splits)

lemma router_dispatch_add:
  "router_dispatch (router_add m t h r) req w =
     (if (rq_method req, rq_target req) = (m, t) then apfst Some (h req w) else router_dispatch r req w)"
  by (auto simp: router_dispatch_def router_add_def update_conv')

subsection \<open>Properties\<close>

text \<open>
  Query parameters. When no earlier pair of the query string contains \<open>key=\<close>, neither in its
  name nor across its value, \<open>query_param_value\<close> returns exactly the value of the first pair
  named \<open>key\<close>; when no pair contains it, the empty string. The search is for the text
  \<open>key=\<close> anywhere, so a longer name that ends in the key shadows it: for
  \<open>old_q=1&q=2\<close> the value of \<open>q\<close> is read as \<open>1\<close>.
\<close>

theorem query_param_lookup:
  assumes "CHR ''&'' \<notin> set key" and "CHR ''&'' \<notin> set val"
    and "\<forall>kv \<in> set before. CHR ''&'' \<notin> set (snd kv) \<and> find_str (key @ ''='') (fst kv @ ''='' @ snd kv) = None"
  shows "query_param_value (join_query before @ key @ ''='' @ val) key = val \<and>
    query_param_value (join_query before @ key @ ''='' @ val @ ''&'' @ rest) key = val \<and>
    query_param_value (join_query before) key = [] \<and>
    query_param_value ''old_q=1&q=2'' ''q'' = ''1''"
proof (intro conjI)
  have none: "find_char CHR ''&'' val = None" using assms(2) by (simp add: find_char_None_iff)
  show "query_param_value (join_query before @ key @ ''='' @ val) key = val"
    using query_found [OF assms(1,3), of val] none by (simp add: query_param_value_def Let_def)
  show "query_param_value (join_query before @ key @ ''='' @ val @ ''&'' @ rest) key = val"
    using query_found [OF assms(1,3), of "val @ ''&'' @ rest"] find_char_append_notin [OF assms(2), of rest]
    by (simp add: query_param_value_def Let_def)
  show "query_param_value (join_query before) key = []"
    using query_absent [OF assms(1,3)] by (simp add: query_param_value_def Let_def)
  show "query_param_value ''old_q=1&q=2'' ''q'' = ''1''" by code_simp
qed

theorem query_param_lookup_witness:
  "query_param_value (join_query [(''a'', ''1'')] @ ''q'' @ ''='' @ ''x y'') ''q'' = ''x y''"
proof -
  have "\<forall>kv \<in> set [(''a'', ''1'')]. CHR ''&'' \<notin> set (snd kv) \<and>
      find_str (''q'' @ ''='') (fst kv @ ''='' @ snd kv) = None"
    by (simp add: starts_with_def)
  then show ?thesis using query_param_lookup [of "''q''" "''x y''" "[(''a'', ''1'')]"] by simp
qed

text \<open>
  The route segments. For a path of segments without slashes, \<open>segment_at\<close> returns the
  segment of that number, counted from one, and the empty string past the end;
  \<open>first_segment\<close> is the first of them. A request whose target carries a query is routed by
  the part before the first question mark, whatever the query holds.
\<close>

theorem route_segments:
  assumes "\<forall>s \<in> set segs. CHR ''/'' \<notin> set s"
  shows "(\<forall>i < length segs. segment_at (join_path segs) (Suc i) = segs ! i) \<and>
    first_segment (join_path segs) = (if segs = [] then [] else hd segs) \<and>
    (CHR ''?'' \<notin> set (join_path segs) \<longrightarrow>
       split_target (join_path segs @ ''?'' @ query) = (join_path segs, query) \<and>
       split_target (join_path segs) = (join_path segs, []))"
proof (intro conjI allI impI)
  show "segment_at (join_path segs) (Suc i) = segs ! i" if "i < length segs" for i
    using segment_at_nth assms that by blast
  show "first_segment (join_path segs) = (if segs = [] then [] else hd segs)"
    using segment_at_nth [OF assms, of 0] unfolding first_segment_at
    by (cases segs) (auto simp: segment_at_def join_path_def hd_conv_nth)
qed (auto simp: split_target_def find_char_append_notin find_char_None_iff [THEN iffD2] split: option.splits)

theorem route_segments_witness:
  "segment_at ''/ai/runs/x1/events'' 2 = ''runs'' \<and> first_segment ''/ai/runs/x1/events'' = ''ai''"
proof -
  have j: "join_path [''ai'', ''runs'', ''x1'', ''events''] = ''/ai/runs/x1/events''" by (simp add: join_path_def)
  show ?thesis
    using route_segments [of "[''ai'', ''runs'', ''x1'', ''events'']" "[]"] unfolding j
    by (auto dest!: spec [of _ 1] simp: numeral_2_eq_2)
qed

end
