(* ===== verification/Paths.thy ===== *)
theory Paths
  imports Prelude "HOL-Library.Sublist"
begin

text \<open>
  File system paths and the places the daemon keeps its files: what the sources use of
  \<open>std::filesystem::path\<close>, on POSIX paths as text, and \<open>src/src/platform/BaseDir.cpp\<close>,
  \<open>Paths.h\<close> and \<open>Paths.cpp\<close>. The environment is a function; \<open>pw_dir\<close> is the home
  directory of the user database, \<open>None\<close> when there is none.
\<close>

subsection \<open>Path operations\<close>

definition is_absolute :: "string \<Rightarrow> bool" where
  "is_absolute p \<longleftrightarrow> starts_with p ''/''"

definition path_join :: "string \<Rightarrow> string \<Rightarrow> string" where
  "path_join a b =
     (if is_absolute b then b
      else if a = [] \<or> last a = CHR ''/'' then a @ b
      else a @ ''/'' @ b)"

text \<open>The elements between the slashes.\<close>

fun path_parts_from :: "string \<Rightarrow> string \<Rightarrow> string list" where
  "path_parts_from current [] = [current]"
| "path_parts_from current (c # rest) =
     (if c = CHR ''/'' then current # path_parts_from [] rest else path_parts_from (current @ [c]) rest)"

definition path_parts :: "string \<Rightarrow> string list" where
  "path_parts p = path_parts_from [] p"

definition filename :: "string \<Rightarrow> string" where
  "filename p = last (path_parts p)"

definition parent_path :: "string \<Rightarrow> string" where
  "parent_path p =
     (case rfind_char CHR ''/'' p of None \<Rightarrow> [] | Some 0 \<Rightarrow> ''/'' | Some n \<Rightarrow> take n p)"

definition extension :: "string \<Rightarrow> string" where
  "extension p =
     (let f = filename p
      in if f = ''.'' \<or> f = ''..'' then []
         else case rfind_char CHR ''.'' f of None \<Rightarrow> [] | Some 0 \<Rightarrow> [] | Some n \<Rightarrow> drop n f)"

subsection \<open>Base directories\<close>

definition env_value :: "(string \<Rightarrow> string option) \<Rightarrow> string \<Rightarrow> string" where
  "env_value getenv key = (case getenv key of None \<Rightarrow> [] | Some v \<Rightarrow> v)"

definition home_from_system :: "string option \<Rightarrow> string" where
  "home_from_system pw_dir = (case pw_dir of None \<Rightarrow> [] | Some d \<Rightarrow> d)"

definition home_dir :: "(string \<Rightarrow> string option) \<Rightarrow> string option \<Rightarrow> string" where
  "home_dir getenv pw_dir =
     (if env_value getenv ''HOME'' \<noteq> [] then env_value getenv ''HOME''
      else if home_from_system pw_dir \<noteq> [] then home_from_system pw_dir
      else ''.'')"

definition absolute_env_or_default ::
  "(string \<Rightarrow> string option) \<Rightarrow> string option \<Rightarrow> string \<Rightarrow> string \<Rightarrow> string" where
  "absolute_env_or_default getenv pw_dir key sfx =
     (let v = env_value getenv key
      in if v \<noteq> [] \<and> is_absolute v then v else path_join (home_dir getenv pw_dir) sfx)"

definition XdgDataHome :: "(string \<Rightarrow> string option) \<Rightarrow> string option \<Rightarrow> string" where
  "XdgDataHome getenv pw_dir = absolute_env_or_default getenv pw_dir ''XDG_DATA_HOME'' ''.local/share''"

definition XdgConfigHome :: "(string \<Rightarrow> string option) \<Rightarrow> string option \<Rightarrow> string" where
  "XdgConfigHome getenv pw_dir = absolute_env_or_default getenv pw_dir ''XDG_CONFIG_HOME'' ''.config''"

definition XdgCacheHome :: "(string \<Rightarrow> string option) \<Rightarrow> string option \<Rightarrow> string" where
  "XdgCacheHome getenv pw_dir = absolute_env_or_default getenv pw_dir ''XDG_CACHE_HOME'' ''.cache''"

record paths =
  data_dir :: string
  config_dir :: string
  cache_dir :: string

definition paths_resolve :: "(string \<Rightarrow> string option) \<Rightarrow> string option \<Rightarrow> string \<Rightarrow> paths" where
  "paths_resolve getenv pw_dir app_id =
     \<lparr>data_dir = path_join (XdgDataHome getenv pw_dir) app_id,
      config_dir = path_join (XdgConfigHome getenv pw_dir) app_id,
      cache_dir = path_join (XdgCacheHome getenv pw_dir) app_id\<rparr>"

definition server_dir :: "paths \<Rightarrow> string" where
  "server_dir p = path_join (data_dir p) ''server''"

definition db_path :: "paths \<Rightarrow> string" where
  "db_path p = path_join (server_dir p) ''holder.db''"

definition project_registry_path :: "paths \<Rightarrow> string" where
  "project_registry_path p = path_join (config_dir p) ''projects.json''"

definition device_config_path :: "paths \<Rightarrow> string" where
  "device_config_path p = path_join (config_dir p) ''daemon-config.json''"

definition cloud_usage_ledger_path :: "paths \<Rightarrow> string" where
  "cloud_usage_ledger_path p = path_join (config_dir p) ''cloud-usage.json''"

definition default_projects_root :: "(string \<Rightarrow> string option) \<Rightarrow> string option \<Rightarrow> string" where
  "default_projects_root getenv pw_dir =
     (case getenv ''HOLDER_PROJECTS_ROOT'' of
        Some v \<Rightarrow> v
      | None \<Rightarrow> path_join (data_dir (paths_resolve getenv pw_dir ''holder'')) ''projects'')"

subsection \<open>Lemmas\<close>

text \<open>Where a path leads, lexically: empty parts and \<open>.\<close> stay, \<open>..\<close> goes up.\<close>

fun walk :: "string list \<Rightarrow> string list \<Rightarrow> string list" where
  "walk at [] = at"
| "walk at (p # ps) =
     (if p = [] \<or> p = ''.'' then walk at ps
      else if p = ''..'' then walk (butlast at) ps
      else walk (at @ [p]) ps)"

definition resolve :: "string \<Rightarrow> string list" where
  "resolve p = walk [] (path_parts p)"

lemma walk_append: "walk at (ps @ qs) = walk (walk at ps) qs"
  by (induction at ps rule: walk.induct) auto

lemma walk_down: "''..'' \<notin> set ps \<Longrightarrow> prefix at (walk at ps)"
proof (induction at ps rule: walk.induct)
  case (2 at p ps)
  then show ?case using prefix_order.trans [of at "at @ [p]"] by auto
qed simp

lemma path_parts_from_append:
  "path_parts_from cur (a @ CHR ''/'' # b) = path_parts_from cur a @ path_parts_from [] b"
  by (induction cur a rule: path_parts_from.induct) auto

lemma path_parts_join: "path_parts (a @ CHR ''/'' # b) = path_parts a @ path_parts b"
  by (simp add: path_parts_def path_parts_from_append)

end
