(* ===== verification/Docs.thy ===== *)
theory Docs
  imports Http TextUtil Paths
begin

text \<open>
  The files served without a token: \<open>src/src/api/support/PathDiscovery.cpp\<close>,
  \<open>src/src/platform/InstalledDataPath.cpp\<close>, \<open>src/src/api/routes/StaticRoutes.cpp\<close> and
  the configuration object that \<open>src/assets/swagger-ui/swagger-initializer.js\<close> hands to the
  Swagger UI bundle.

  The environment, the working directory and the file system are
  the fields of \<open>host\<close>, with the YAML package (\<open>YAML::Load\<close>) and \<open>strtod\<close>; a double is
  its 64 bits, as everywhere.
\<close>

subsection \<open>The host\<close>

datatype yaml = YNull | YScalar string | YSeq "yaml list" | YMap "(yaml \<times> yaml) list"

record host =
  h_getenv :: "string \<Rightarrow> string option"
  h_cwd :: string
  h_exists :: "string \<Rightarrow> bool"
  h_is_directory :: "string \<Rightarrow> bool"
  h_read :: "string \<Rightarrow> string option"
  h_install_datadir :: string
  h_yaml_load :: "string \<Rightarrow> yaml option"
  h_strtod :: "string \<Rightarrow> nat option"

definition installed_data_path :: "host \<Rightarrow> string \<Rightarrow> string option" where
  "installed_data_path h rel_path =
     (if h_install_datadir h = [] then None
      else let candidate = path_join (h_install_datadir h) rel_path
           in if h_exists h candidate then Some candidate else None)"

text \<open>The first candidate that passes its test.\<close>

fun first_ok :: "(string \<Rightarrow> bool) \<Rightarrow> string list \<Rightarrow> string option" where
  "first_ok ok [] = None"
| "first_ok ok (p # ps) = (if ok p then Some p else first_ok ok ps)"

definition env_list :: "host \<Rightarrow> string \<Rightarrow> string list" where
  "env_list h key = (case h_getenv h key of None \<Rightarrow> [] | Some v \<Rightarrow> [v])"

definition or_installed :: "string option \<Rightarrow> string option \<Rightarrow> string option" where
  "or_installed found installed = (case found of None \<Rightarrow> installed | Some p \<Rightarrow> Some p)"

definition find_openapi_path :: "host \<Rightarrow> string option" where
  "find_openapi_path h =
     or_installed
       (first_ok (h_exists h)
          (env_list h ''HOLDER_OPENAPI_PATH'' @
           [path_join (h_cwd h) ''openapi.yaml'', path_join (parent_path (h_cwd h)) ''openapi.yaml'']))
       (installed_data_path h ''openapi.yaml'')"

definition find_ai_catalog_path :: "host \<Rightarrow> string option" where
  "find_ai_catalog_path h =
     or_installed
       (first_ok (h_exists h)
          (env_list h ''HOLDER_AI_CATALOG_PATH'' @ [path_join (path_join (h_cwd h) ''config'') ''ai_catalog.yaml'']))
       (installed_data_path h ''config/ai_catalog.yaml'')"

definition find_git_providers_path :: "host \<Rightarrow> string option" where
  "find_git_providers_path h =
     or_installed
       (first_ok (h_exists h)
          (env_list h ''HOLDER_GIT_PROVIDERS_PATH'' @
           [path_join (path_join (h_cwd h) ''config'') ''git_providers.yaml'']))
       (installed_data_path h ''config/git_providers.yaml'')"

definition find_docs_root :: "host \<Rightarrow> string option" where
  "find_docs_root h =
     or_installed
       (first_ok (\<lambda>p. h_exists h p \<and> h_is_directory h p)
          (env_list h ''HOLDER_DOCS_ROOT'' @
           [path_join (path_join (h_cwd h) ''assets'') ''swagger-ui'',
            path_join (path_join (parent_path (h_cwd h)) ''assets'') ''swagger-ui'']))
       (case installed_data_path h ''assets/swagger-ui'' of
          None \<Rightarrow> None
        | Some installed \<Rightarrow> if h_is_directory h installed then Some installed else None)"

definition is_safe_relpath :: "string \<Rightarrow> bool" where
  "is_safe_relpath p = (if is_absolute p then False else ''..'' \<notin> set (path_parts p))"

definition content_type_for_extension :: "string \<Rightarrow> string" where
  "content_type_for_extension ext =
     (let lower = lowercase_ascii ext
      in if lower = ''.html'' then ''text/html; charset=utf-8''
         else if lower = ''.css'' then ''text/css; charset=utf-8''
         else if lower = ''.js'' then ''application/javascript''
         else if lower = ''.json'' then ''application/json''
         else if lower = ''.yaml'' \<or> lower = ''.yml'' then ''application/yaml''
         else if lower = ''.svg'' then ''image/svg+xml''
         else if lower = ''.png'' then ''image/png''
         else if lower = ''.ico'' then ''image/x-icon''
         else if lower = ''.txt'' then ''text/plain; charset=utf-8''
         else ''application/octet-stream'')"

subsection \<open>YAML scalars\<close>

text \<open>
  \<open>strtoll(text, &end, 10)\<close> with the test that it consumed the whole C string: optional white
  space, an optional sign, digits; a value out of range saturates.
\<close>

definition c_str :: "string \<Rightarrow> string" where
  "c_str s = takeWhile (\<lambda>c. c \<noteq> CHR 0x00) s"

definition strtoll_all :: "string \<Rightarrow> int option" where
  "strtoll_all text =
     (let body = dropWhile is_space (c_str text);
          neg = (body \<noteq> [] \<and> hd body = CHR ''-'');
          digits = (if body \<noteq> [] \<and> (hd body = CHR ''-'' \<or> hd body = CHR ''+'') then tl body else body)
      in if digits = [] \<or> \<not> list_all is_digit digits then None
         else let v = int (dec_value digits)
              in Some (if neg then max int64_min (- v) else min int64_max v))"

text \<open>\<open>as<std::string>()\<close> of a key: the scalar, \<open>null\<close> for a null, otherwise it throws.\<close>

fun yaml_key :: "yaml \<Rightarrow> string option" where
  "yaml_key (YScalar s) = Some s"
| "yaml_key YNull = Some ''null''"
| "yaml_key _ = None"

definition yaml_scalar :: "host \<Rightarrow> string \<Rightarrow> json" where
  "yaml_scalar h text =
     (if text = ''true'' then JBool True
      else if text = ''false'' then JBool False
      else case strtoll_all text of
          Some i \<Rightarrow> JInt i
        | None \<Rightarrow> (case h_strtod h (c_str text) of Some d \<Rightarrow> JFloat d | None \<Rightarrow> JStr text))"

fun yaml_to_json :: "host \<Rightarrow> yaml \<Rightarrow> json option"
and yamls_to_json :: "host \<Rightarrow> yaml list \<Rightarrow> json list option"
and yaml_pairs_to_json :: "host \<Rightarrow> (yaml \<times> yaml) list \<Rightarrow> json \<Rightarrow> json option" where
  "yaml_to_json h YNull = Some JNull"
| "yaml_to_json h (YScalar s) = Some (yaml_scalar h s)"
| "yaml_to_json h (YSeq ys) = map_option JArr (yamls_to_json h ys)"
| "yaml_to_json h (YMap kvs) = yaml_pairs_to_json h kvs (JObj [])"
| "yamls_to_json h [] = Some []"
| "yamls_to_json h (y # ys) =
     (case yaml_to_json h y of None \<Rightarrow> None | Some j \<Rightarrow> map_option (Cons j) (yamls_to_json h ys))"
| "yaml_pairs_to_json h [] out = Some out"
| "yaml_pairs_to_json h ((k, v) # kvs) out =
     (case yaml_key k of
        None \<Rightarrow> None
      | Some name \<Rightarrow>
          (case yaml_to_json h v of None \<Rightarrow> None | Some j \<Rightarrow> yaml_pairs_to_json h kvs (json_put name j out)))"

subsection \<open>The static routes\<close>

definition text_response :: "nat \<Rightarrow> string \<Rightarrow> string \<Rightarrow> response" where
  "text_response status body content_type =
     \<lparr>rs_status = status, rs_content_type = content_type, rs_body = body\<rparr>"

abbreviation plain_text :: string where
  "plain_text \<equiv> ''text/plain; charset=utf-8''"

definition serve_yaml_as_json :: "json_lib \<Rightarrow> host \<Rightarrow> string \<Rightarrow> string \<Rightarrow> response" where
  "serve_yaml_as_json lib h path not_found_message =
     (case h_read h path of
        None \<Rightarrow> text_response 404 not_found_message plain_text
      | Some content \<Rightarrow>
          (case Option.bind (h_yaml_load h content) (yaml_to_json h) of
             Some j \<Rightarrow> text_response 200 (lib_dump2 lib j) ''application/json''
           | None \<Rightarrow> text_response 500 ''Failed to parse YAML.'' plain_text))"

text \<open>The three YAML files as they are: found by discovery, read, sent with the type of the extension.\<close>

definition serve_file :: "host \<Rightarrow> string option \<Rightarrow> string \<Rightarrow> response" where
  "serve_file h found not_found_message =
     (case found of
        None \<Rightarrow> text_response 404 not_found_message plain_text
      | Some p \<Rightarrow>
          (case h_read h p of
             None \<Rightarrow> text_response 404 not_found_message plain_text
           | Some content \<Rightarrow> text_response 200 content (content_type_for_extension (extension p))))"

definition docs_relpath :: "string \<Rightarrow> string" where
  "docs_relpath path =
     (if starts_with path ''/docs/'' then
        (let rel = drop (length ''/docs/'') path in if rel = [] then ''index.html'' else rel)
      else ''index.html'')"

definition serve_docs :: "host \<Rightarrow> string \<Rightarrow> response" where
  "serve_docs h path =
     (case find_docs_root h of
        None \<Rightarrow> text_response 404 ''Docs assets not found.'' plain_text
      | Some root \<Rightarrow>
          let rel = docs_relpath path
          in if \<not> is_safe_relpath rel then text_response 404 ''Not found.'' plain_text
             else serve_file h (Some (path_join root rel)) ''Not found.'')"

definition is_static_path :: "string \<Rightarrow> bool" where
  "is_static_path path \<longleftrightarrow>
     path \<in> {''/openapi.yaml'', ''/ai_catalog.yaml'', ''/ai_catalog.json'', ''/git_providers.yaml'',
             ''/git_providers.json'', ''/docs''} \<or> starts_with path ''/docs/''"

definition handle_static_routes :: "json_lib \<Rightarrow> host \<Rightarrow> string \<Rightarrow> request \<Rightarrow> response option" where
  "handle_static_routes lib h path req =
     (if \<not> is_static_path path then None
      else if rq_method req \<noteq> VGet then Some (text_response 405 ''Method not allowed.'' plain_text)
      else if path = ''/openapi.yaml'' then Some (serve_file h (find_openapi_path h) ''openapi.yaml not found.'')
      else if path = ''/ai_catalog.yaml'' then
        Some (serve_file h (find_ai_catalog_path h) ''ai_catalog.yaml not found.'')
      else if path = ''/ai_catalog.json'' then
        Some (case find_ai_catalog_path h of
                None \<Rightarrow> text_response 404 ''ai_catalog.yaml not found.'' plain_text
              | Some p \<Rightarrow> serve_yaml_as_json lib h p ''ai_catalog.yaml not found.'')
      else if path = ''/git_providers.yaml'' then
        Some (serve_file h (find_git_providers_path h) ''git_providers.yaml not found.'')
      else if path = ''/git_providers.json'' then
        Some (case find_git_providers_path h of
                None \<Rightarrow> text_response 404 ''git_providers.yaml not found.'' plain_text
              | Some p \<Rightarrow> serve_yaml_as_json lib h p ''git_providers.yaml not found.'')
      else Some (serve_docs h path))"

subsection \<open>The Swagger UI page\<close>

text \<open>
  What \<open>window.onload\<close> passes to \<open>SwaggerUIBundle\<close>; the presets and plugins are members of
  the bundle, by name. The bundle itself is a parameter; \<open>window.ui\<close> is its result.
\<close>

record swagger_config =
  sw_url :: string
  sw_dom_id :: string
  sw_deep_linking :: bool
  sw_presets :: "string list"
  sw_plugins :: "string list"
  sw_layout :: string

definition swagger_initializer :: swagger_config where
  "swagger_initializer =
     \<lparr>sw_url = ''/openapi.yaml'', sw_dom_id = ''#swagger-ui'', sw_deep_linking = True,
      sw_presets = [''SwaggerUIBundle.presets.apis'', ''SwaggerUIStandalonePreset''],
      sw_plugins = [''SwaggerUIBundle.plugins.DownloadUrl''], sw_layout = ''StandaloneLayout''\<rparr>"

definition window_onload :: "(swagger_config \<Rightarrow> 'ui) \<Rightarrow> 'ui" where
  "window_onload swagger_ui_bundle = swagger_ui_bundle swagger_initializer"

subsection \<open>Lemmas\<close>

lemma safe_relpath_confined:
  assumes "is_safe_relpath rel"
  shows "prefix (resolve root) (resolve (path_join root rel))"
proof -
  have rel: "\<not> is_absolute rel" "''..'' \<notin> set (path_parts rel)"
    using assms by (auto simp: is_safe_relpath_def split: if_splits)
  show ?thesis
  proof (cases "root = [] \<or> last root \<noteq> CHR ''/''")
    case True
    then show ?thesis
      using rel walk_down [OF rel(2), of "resolve root"]
      by (cases "root = []") (simp_all add: path_join_def resolve_def path_parts_join walk_append path_parts_def [of "[]"])
  next
    case False
    then obtain r where r: "root = r @ ''/''" by (metis append_butlast_last_id)
    have "resolve root = walk [] (path_parts r)"
      using path_parts_join [of r "[]"] by (simp add: resolve_def r walk_append path_parts_def)
    then show ?thesis
      using rel walk_down [OF rel(2), of "resolve root"] False r path_parts_join [of r rel]
      by (simp add: path_join_def resolve_def walk_append)
  qed
qed

text \<open>The files the static routes may read: the three found by discovery and what lies below the docs root.\<close>

definition public_file :: "host \<Rightarrow> string \<Rightarrow> bool" where
  "public_file h p \<longleftrightarrow>
     Some p \<in> {find_openapi_path h, find_ai_catalog_path h, find_git_providers_path h} \<or>
     (\<exists>root. find_docs_root h = Some root \<and> prefix (resolve root) (resolve p))"

definition set_read :: "(string \<Rightarrow> string option) \<Rightarrow> host \<Rightarrow> host" where
  "set_read rd h = h\<lparr>h_read := rd\<rparr>"

lemma discovery_ignores_contents [simp]:
  "find_openapi_path (set_read rd h) = find_openapi_path h"
  "find_ai_catalog_path (set_read rd h) = find_ai_catalog_path h"
  "find_git_providers_path (set_read rd h) = find_git_providers_path h"
  "find_docs_root (set_read rd h) = find_docs_root h"
  by (simp_all add: find_openapi_path_def find_ai_catalog_path_def find_git_providers_path_def find_docs_root_def
      env_list_def installed_data_path_def set_read_def cong: option.case_cong)

lemma yaml_ignores_contents:
  "yaml_to_json (set_read rd h) y = yaml_to_json h y"
  "yamls_to_json (set_read rd h) ys = yamls_to_json h ys"
  "yaml_pairs_to_json (set_read rd h) kvs out = yaml_pairs_to_json h kvs out"
  by (induction h y and h ys and h kvs out rule: yaml_to_json_yamls_to_json_yaml_pairs_to_json.induct)
    (simp_all add: yaml_scalar_def set_read_def split: option.splits)

lemma serve_file_same: "(\<And>p. found = Some p \<Longrightarrow> rd p = h_read h p) \<Longrightarrow>
  serve_file (set_read rd h) found m = serve_file h found m"
  by (simp add: serve_file_def set_read_def split: option.splits)

lemma serve_yaml_same: "rd p = h_read h p \<Longrightarrow>
  serve_yaml_as_json lib (set_read rd h) p m = serve_yaml_as_json lib h p m"
proof -
  assume "rd p = h_read h p"
  moreover have "yaml_to_json (set_read rd h) = yaml_to_json h" by (rule ext) (rule yaml_ignores_contents)
  moreover have "h_yaml_load (set_read rd h) = h_yaml_load h" "h_read (set_read rd h) = rd" by (simp_all add: set_read_def)
  ultimately show ?thesis by (simp add: serve_yaml_as_json_def cong: option.case_cong)
qed

lemma serve_docs_same:
  assumes "\<And>p. public_file h p \<Longrightarrow> rd p = h_read h p"
  shows "serve_docs (set_read rd h) path = serve_docs h path"
proof (cases "find_docs_root h")
  case (Some root)
  then show ?thesis
    using assms safe_relpath_confined [of "docs_relpath path" root]
    by (auto simp: serve_docs_def Let_def public_file_def intro!: serve_file_same)
qed (simp add: serve_docs_def)

subsection \<open>Properties\<close>

text \<open>
  C35 The routes that need no token disclose nothing else. Whatever the path and the request, the
  answer of \<open>handle_static_routes\<close> depends only on the contents of the public files: the
  three files that path discovery finds, and files that lie, lexically, at or below the docs root;
  any other file may change without a visible effect. A \<open>/docs/\<close> path with a \<open>..\<close> element,
  or one that would restart at the root, is answered with 404.
\<close>

theorem static_routes_confined:
  assumes "\<And>p. public_file h p \<Longrightarrow> rd p = h_read h p"
  shows "handle_static_routes lib (set_read rd h) path req = handle_static_routes lib h path req \<and>
    (rq_method req = VGet \<and> starts_with path ''/docs/'' \<and> \<not> is_safe_relpath (drop 6 path) \<and> drop 6 path \<noteq> [] \<longrightarrow>
      (\<exists>res. handle_static_routes lib h path req = Some res \<and> rs_status res = 404))"
proof (intro conjI impI)
  have yaml: "(case f of None \<Rightarrow> r | Some p \<Rightarrow> serve_yaml_as_json lib (set_read rd h) p m) =
      (case f of None \<Rightarrow> r | Some p \<Rightarrow> serve_yaml_as_json lib h p m)"
    if "f = find_ai_catalog_path h \<or> f = find_git_providers_path h" for f r m
    using that assms by (auto simp: public_file_def intro!: serve_yaml_same split: option.splits)
  have found: "serve_file (set_read rd h) f m = serve_file h f m"
    if "f = find_openapi_path h \<or> f = find_ai_catalog_path h \<or> f = find_git_providers_path h" for f m
    using that assms by (intro serve_file_same) (auto simp: public_file_def)
  show "handle_static_routes lib (set_read rd h) path req = handle_static_routes lib h path req"
    unfolding handle_static_routes_def by (simp add: yaml found serve_docs_same [OF assms])
  assume a: "rq_method req = VGet \<and> starts_with path ''/docs/'' \<and> \<not> is_safe_relpath (drop 6 path) \<and> drop 6 path \<noteq> []"
  then have "path = ''/docs/'' @ drop 6 path" by (auto simp: starts_with_iff)
  then have ne: "path \<notin> {''/openapi.yaml'', ''/ai_catalog.yaml'', ''/ai_catalog.json'', ''/git_providers.yaml'',
      ''/git_providers.json''}" by auto
  have "docs_relpath path = drop 6 path" using a by (simp add: docs_relpath_def Let_def eval_nat_numeral)
  then have "rs_status (serve_docs h path) = 404"
    using a by (simp add: serve_docs_def text_response_def split: option.splits)
  then show "\<exists>res. handle_static_routes lib h path req = Some res \<and> rs_status res = 404"
    using a ne by (auto simp: handle_static_routes_def is_static_path_def)
qed

definition sample_host :: host where
  "sample_host =
     \<lparr>h_getenv = (\<lambda>_. None), h_cwd = ''/srv'', h_exists = (\<lambda>p. p \<in> {''/srv/openapi.yaml'', ''/srv/assets/swagger-ui''}),
      h_is_directory = (\<lambda>p. p = ''/srv/assets/swagger-ui''), h_read = (\<lambda>p. Some p),
      h_install_datadir = [], h_yaml_load = (\<lambda>_. None), h_strtod = (\<lambda>_. None)\<rparr>"

definition sample_get :: "string \<Rightarrow> request" where
  "sample_get target = \<lparr>rq_method = VGet, rq_target = target, rq_headers = [], rq_body = []\<rparr>"

definition sample_docs_lib :: json_lib where
  "sample_docs_lib = \<lparr>lib_parse = (\<lambda>_. None), lib_dump = (\<lambda>_. ''{}''), lib_dump2 = (\<lambda>_. ''{}''), lib_trunc = (\<lambda>_. 0)\<rparr>"

theorem static_routes_confined_witness:
  "\<exists>res. handle_static_routes sample_docs_lib sample_host ''/docs/../secret'' (sample_get ''/docs/../secret'') = Some res \<and>
     rs_status res = 404"
proof -
  have "\<not> is_safe_relpath (drop 6 ''/docs/../secret'')" by (simp add: is_safe_relpath_def path_parts_def)
  then show ?thesis
    using static_routes_confined [of sample_host "h_read sample_host" sample_docs_lib "''/docs/../secret''"
        "sample_get ''/docs/../secret''"]
    by (simp add: sample_get_def starts_with_def)
qed

text \<open>
  C39 The documentation page finds its specification. The URL that
  \<open>swagger-initializer.js\<close> gives the Swagger UI bundle is a path the static routes serve: a GET
  of it is always answered, with the contents of the discovered \<open>openapi.yaml\<close>, unchanged and
  typed as YAML when it can be read, and with 404 otherwise; other methods get 405.
\<close>

theorem docs_url_served:
  "handle_static_routes lib h (sw_url (window_onload id)) req =
    Some (if rq_method req \<noteq> VGet then text_response 405 ''Method not allowed.'' plain_text
          else case Option.bind (find_openapi_path h) (h_read h) of
                 None \<Rightarrow> text_response 404 ''openapi.yaml not found.'' plain_text
               | Some content \<Rightarrow> text_response 200 content
                   (content_type_for_extension (extension (the (find_openapi_path h)))))
   \<and> (h_getenv h ''HOLDER_OPENAPI_PATH'' = None \<and> find_openapi_path h = Some p \<longrightarrow>
        content_type_for_extension (extension p) = ''application/yaml'')"
proof (intro conjI impI)
  show "handle_static_routes lib h (sw_url (window_onload id)) req =
    Some (if rq_method req \<noteq> VGet then text_response 405 ''Method not allowed.'' plain_text
          else case Option.bind (find_openapi_path h) (h_read h) of
                 None \<Rightarrow> text_response 404 ''openapi.yaml not found.'' plain_text
               | Some content \<Rightarrow> text_response 200 content
                   (content_type_for_extension (extension (the (find_openapi_path h)))))"
    by (simp add: window_onload_def swagger_initializer_def handle_static_routes_def is_static_path_def serve_file_def
        split: option.splits)
  have parts: "filename (path_join a ''openapi.yaml'') = ''openapi.yaml''" for a
  proof (cases "a = [] \<or> last a \<noteq> CHR ''/''")
    case True
    then show ?thesis
      by (auto simp: path_join_def is_absolute_def starts_with_def filename_def path_parts_join)
        (simp_all add: path_parts_def)
  next
    case False
    then obtain r where "a = r @ ''/''" by (metis append_butlast_last_id)
    then show ?thesis
      using path_parts_join [of r "''openapi.yaml''"]
      by (simp add: path_join_def is_absolute_def starts_with_def filename_def) (simp add: path_parts_def)
  qed
  assume "h_getenv h ''HOLDER_OPENAPI_PATH'' = None \<and> find_openapi_path h = Some p"
  then have "\<exists>a. p = path_join a ''openapi.yaml''"
    by (auto simp: find_openapi_path_def env_list_def or_installed_def installed_data_path_def Let_def split: if_splits)
  then have "extension p = ''.yaml''"
    using parts by (auto simp: extension_def Let_def rfind_char_def eval_nat_numeral)
  then show "content_type_for_extension (extension p) = ''application/yaml''"
    by (simp add: content_type_for_extension_def lowercase_ascii_def to_lower_def is_upper_def byte_of_def)
qed

theorem docs_url_served_witness:
  "handle_static_routes sample_docs_lib sample_host (sw_url (window_onload id)) (sample_get ''/openapi.yaml'') =
     Some (text_response 200 ''/srv/openapi.yaml'' ''application/yaml'')"
proof -
  have p: "find_openapi_path sample_host = Some ''/srv/openapi.yaml''" "h_getenv sample_host ''HOLDER_OPENAPI_PATH'' = None"
    "h_read sample_host ''/srv/openapi.yaml'' = Some ''/srv/openapi.yaml''"
    by (simp_all add: find_openapi_path_def sample_host_def env_list_def or_installed_def path_join_def is_absolute_def
        starts_with_def)
  show ?thesis
    using docs_url_served [of sample_docs_lib sample_host "sample_get ''/openapi.yaml''" "''/srv/openapi.yaml''"] p
    by (simp add: sample_get_def)
qed

end
