(* ===== verification/ModelRouting.thy ===== *)
theory ModelRouting
  imports Docs TextUtil "HOL-Library.Multiset"
begin

text \<open>
  \<open>src/src/api/support/LocalModelRouting.cpp\<close>: the classes of machines, the catalogue of local
  models, the recommendations for a machine and the choice among installed models.

  The catalogue is an \<open>unordered_map\<close>; it is the list of its entries in the order of iteration,
  whatever that is. The conversion of a decimal number times a unit to a number of bytes is the
  argument \<open>scale\<close>, \<open>None\<close> when \<open>std::stod\<close> throws; the detection of the machine
  comes from another library and is the argument \<open>detected\<close>.
\<close>

subsection \<open>Data\<close>

record local_model =
  lm_name :: string
  lm_digest :: string
  lm_size :: int
  lm_modified_at :: string

record model_meta =
  mm_tag :: string
  mm_provider :: string
  mm_engine :: string
  mm_category :: string
  mm_hardware_tier :: string
  mm_speed :: string
  mm_quality :: string
  mm_size_bytes :: int

record caste_info =
  ci_name :: string
  ci_reason :: string

definition empty_meta :: model_meta where
  "empty_meta = \<lparr>mm_tag = [], mm_provider = [], mm_engine = [], mm_category = [], mm_hardware_tier = [],
     mm_speed = [], mm_quality = [], mm_size_bytes = 0\<rparr>"

subsection \<open>Sizes and ranks\<close>

definition size_unit :: "string \<Rightarrow> nat" where
  "size_unit u =
     (if u = ''kb'' \<or> u = ''k'' then 1024
      else if u = ''mb'' \<or> u = ''m'' then 1024 ^ 2
      else if u = ''gb'' \<or> u = ''g'' then 1024 ^ 3
      else if u = ''tb'' \<or> u = ''t'' then 1024 ^ 4
      else 1)"

definition parse_size_bytes :: "(string \<Rightarrow> nat \<Rightarrow> int option) \<Rightarrow> string \<Rightarrow> int result" where
  "parse_size_bytes scale input =
     (let s = filter (\<lambda>c. \<not> is_space c) input
      in if s = [] then Inr 0
         else let number = takeWhile (\<lambda>c. is_digit c \<or> c = CHR ''.'') s;
                  u = drop (length number) s
              in if number = [] then Inr 0
                 else case scale number (size_unit (lowercase_ascii u)) of
                        None \<Rightarrow> Inl (InvalidArgument ''stod'')
                      | Some n \<Rightarrow> Inr n)"

definition normalize_caste_name :: "string \<Rightarrow> string" where
  "normalize_caste_name raw =
     (let key = lowercase_ascii (trim_ascii raw)
      in if key = [] then []
         else if key = ''mini'' \<or> key = ''user'' \<or> key = ''developer'' \<or> key = ''workstation'' \<or> key = ''rig'' then key
         else if key = ''tiny'' then ''mini''
         else if key = ''budget'' then ''user''
         else if key = ''laptop'' then ''developer''
         else if key = ''gaming'' then ''workstation''
         else [])"

definition caste_rank :: "string \<Rightarrow> int" where
  "caste_rank name =
     (let n = normalize_caste_name name
      in if n = ''mini'' then 0 else if n = ''user'' then 1 else if n = ''developer'' then 2
         else if n = ''workstation'' then 3 else if n = ''rig'' then 4 else - 1)"

definition quality_rank :: "string \<Rightarrow> int" where
  "quality_rank quality =
     (let q = lowercase_ascii (trim_ascii quality)
      in if q = ''high'' then 3 else if q = ''medium'' then 2 else if q = ''low'' then 1 else 0)"

definition speed_rank :: "string \<Rightarrow> int" where
  "speed_rank speed =
     (let s = lowercase_ascii (trim_ascii speed)
      in if s = ''fast'' then 3 else if s = ''medium'' then 2 else if s = ''slow'' then 1 else 0)"

definition caste_meets_or_exceeds :: "string \<Rightarrow> string \<Rightarrow> bool" where
  "caste_meets_or_exceeds machine_caste required_caste =
     (let machine = caste_rank machine_caste; required = caste_rank required_caste
      in if machine < 0 \<or> required < 0 then False else required \<le> machine)"

definition detect_machine_caste :: "(string \<times> string) option \<Rightarrow> caste_info option" where
  "detect_machine_caste detected =
     (case detected of
        None \<Rightarrow> None
      | Some (name, reason) \<Rightarrow>
          (let out = \<lparr>ci_name = normalize_caste_name name, ci_reason = reason\<rparr>
           in if ci_name out = [] then None else Some out))"

text \<open>The last colon starts the version of a tag; \<open>latest\<close> is the default.\<close>

definition normalize_model_tag_for_match :: "string \<Rightarrow> string" where
  "normalize_model_tag_for_match raw =
     (let name = lowercase_ascii (trim_ascii raw)
      in if name = [] then []
         else case rfind_char CHR '':'' name of
                None \<Rightarrow> name
              | Some colon \<Rightarrow> if drop (colon + 1) name = ''latest'' then take colon name else name)"

subsection \<open>The catalogue\<close>

text \<open>
  \<open>node[key]\<close> of a constant node: undefined for a missing name and for values without names;
  a scalar has no subscript and throws. \<open>as<std::string>()\<close> of null is the text \<open>null\<close>.
\<close>

fun yaml_at :: "yaml \<Rightarrow> string \<Rightarrow> yaml option result" where
  "yaml_at (YMap m) k = Inr (map_of m (YScalar k))"
| "yaml_at (YScalar s) k = Inl (RuntimeError ''operator[] call on a scalar'')"
| "yaml_at _ k = Inr None"

fun yaml_string :: "yaml \<Rightarrow> string result" where
  "yaml_string (YScalar s) = Inr s"
| "yaml_string YNull = Inr ''null''"
| "yaml_string _ = Inl (RuntimeError ''bad conversion'')"

definition yaml_field :: "yaml \<Rightarrow> string \<Rightarrow> string option result" where
  "yaml_field node k =
     andthen (yaml_at node k) (\<lambda>v. case v of None \<Rightarrow> Inr None | Some y \<Rightarrow> andthen (yaml_string y) (\<lambda>s. Inr (Some s)))"

definition or_empty :: "string option \<Rightarrow> string" where
  "or_empty v = (case v of None \<Rightarrow> [] | Some s \<Rightarrow> s)"

text \<open>One entry of the list; \<open>None\<close> when it has no tag.\<close>

definition parse_meta_entry :: "(string \<Rightarrow> nat \<Rightarrow> int option) \<Rightarrow> yaml \<Rightarrow> model_meta option result" where
  "parse_meta_entry scale node =
     andthen (yaml_field node ''tag'') (\<lambda>tag. case tag of
       None \<Rightarrow> Inr None
     | Some t \<Rightarrow>
         andthen (yaml_field node ''provider'') (\<lambda>provider.
         andthen (yaml_field node ''engine'') (\<lambda>engine.
         andthen (yaml_field node ''category'') (\<lambda>category.
         andthen (yaml_field node ''hardware_tier'') (\<lambda>tier.
         andthen (if tier = None then yaml_field node ''caste'' else Inr tier) (\<lambda>caste.
         andthen (yaml_field node ''speed'') (\<lambda>speed.
         andthen (yaml_field node ''quality'') (\<lambda>quality.
         andthen (yaml_field node ''size'') (\<lambda>size.
         andthen (case size of None \<Rightarrow> Inr 0 | Some s \<Rightarrow> parse_size_bytes scale s) (\<lambda>bytes.
           Inr (Some \<lparr>mm_tag = t, mm_provider = or_empty provider, mm_engine = or_empty engine,
             mm_category = or_empty category, mm_hardware_tier = (case caste of None \<Rightarrow> [] | Some c \<Rightarrow> normalize_caste_name c),
             mm_speed = or_empty speed, mm_quality = or_empty quality, mm_size_bytes = bytes\<rparr>)))))))))))"

text \<open>An exception ends the loop with the entries read so far.\<close>

fun load_meta_entries ::
  "(string \<Rightarrow> nat \<Rightarrow> int option) \<Rightarrow> yaml list \<Rightarrow> (string \<times> model_meta) list \<Rightarrow> (string \<times> model_meta) list" where
  "load_meta_entries scale [] meta = meta"
| "load_meta_entries scale (node # nodes) meta =
     (case parse_meta_entry scale node of
        Inl _ \<Rightarrow> meta
      | Inr None \<Rightarrow> load_meta_entries scale nodes meta
      | Inr (Some e) \<Rightarrow> load_meta_entries scale nodes (AList.update (mm_tag e) e meta))"

definition local_entries :: "yaml \<Rightarrow> yaml list result" where
  "local_entries root =
     andthen (yaml_at root ''models'') (\<lambda>a. case a of None \<Rightarrow> Inr [] | Some a \<Rightarrow>
     andthen (yaml_at a ''Models'') (\<lambda>b. case b of None \<Rightarrow> Inr [] | Some b \<Rightarrow>
     andthen (yaml_at b ''Local'') (\<lambda>c. case c of Some (YSeq nodes) \<Rightarrow> Inr nodes | _ \<Rightarrow> Inr [])))"

definition load_local_model_meta :: "host \<Rightarrow> (string \<Rightarrow> nat \<Rightarrow> int option) \<Rightarrow> (string \<times> model_meta) list" where
  "load_local_model_meta h scale =
     (case find_ai_catalog_path h of
        None \<Rightarrow> []
      | Some path \<Rightarrow>
          (case Option.bind (h_read h path) (h_yaml_load h) of
             None \<Rightarrow> []
           | Some root \<Rightarrow> (case local_entries root of Inl _ \<Rightarrow> [] | Inr nodes \<Rightarrow> load_meta_entries scale nodes [])))"

subsection \<open>Recommendations\<close>

text \<open>\<open>std::stable_sort\<close>: each element goes before the first one that is not smaller.\<close>

fun insert_by :: "('a \<Rightarrow> 'a \<Rightarrow> bool) \<Rightarrow> 'a \<Rightarrow> 'a list \<Rightarrow> 'a list" where
  "insert_by before x [] = [x]"
| "insert_by before x (y # ys) = (if before y x then y # insert_by before x ys else x # y # ys)"

definition stable_sort :: "('a \<Rightarrow> 'a \<Rightarrow> bool) \<Rightarrow> 'a list \<Rightarrow> 'a list" where
  "stable_sort before xs = foldr (insert_by before) xs []"

definition text_or_null :: "string \<Rightarrow> json" where
  "text_or_null s = (if s = [] then JNull else JStr s)"

definition eligible :: "string \<Rightarrow> model_meta \<Rightarrow> bool" where
  "eligible machine_caste m \<longleftrightarrow> mm_hardware_tier m \<noteq> [] \<and> caste_meets_or_exceeds machine_caste (mm_hardware_tier m)"

definition recommendation :: "string set \<Rightarrow> string \<times> model_meta \<Rightarrow> json" where
  "recommendation installed e =
     json_object [(''tag'', JStr (fst e)), (''provider'', text_or_null (mm_provider (snd e))),
       (''engine'', text_or_null (mm_engine (snd e))), (''category'', text_or_null (mm_category (snd e))),
       (''required_caste'', JStr (mm_hardware_tier (snd e))),
       (''installed'', JBool (normalize_model_tag_for_match (fst e) \<in> installed))]"

definition item_tag :: "json \<Rightarrow> string" where
  "item_tag j = (case json_get ''tag'' j of Some (JStr s) \<Rightarrow> s | _ \<Rightarrow> [])"

definition meta_quality :: "(string \<times> model_meta) list \<Rightarrow> string \<Rightarrow> int" where
  "meta_quality meta t = (case map_of meta t of None \<Rightarrow> 0 | Some m \<Rightarrow> quality_rank (mm_quality m))"

definition meta_speed :: "(string \<times> model_meta) list \<Rightarrow> string \<Rightarrow> int" where
  "meta_speed meta t = (case map_of meta t of None \<Rightarrow> 0 | Some m \<Rightarrow> speed_rank (mm_speed m))"

definition recommended_before :: "(string \<times> model_meta) list \<Rightarrow> json \<Rightarrow> json \<Rightarrow> bool" where
  "recommended_before meta a b =
     (let ta = item_tag a; tb = item_tag b; qa = meta_quality meta ta; qb = meta_quality meta tb
      in if qa \<noteq> qb then qb < qa
         else let sa = meta_speed meta ta; sb = meta_speed meta tb
              in if sa \<noteq> sb then sb < sa else ta < tb)"

definition build_caste_recommendations ::
  "local_model list \<Rightarrow> (string \<times> model_meta) list \<Rightarrow> string \<Rightarrow> json list" where
  "build_caste_recommendations installed_models meta machine_caste =
     (let installed = set (map (\<lambda>m. normalize_model_tag_for_match (lm_name m)) installed_models);
          out = map (recommendation installed) (filter (\<lambda>e. eligible machine_caste (snd e)) meta)
      in stable_sort (recommended_before meta) out)"

subsection \<open>Choice of a model\<close>

definition extract_json_array :: "string \<Rightarrow> string option" where
  "extract_json_array text =
     (case find_char CHR ''['' text of
        None \<Rightarrow> None
      | Some start \<Rightarrow>
          (case rfind_char CHR '']'' text of
             None \<Rightarrow> None
           | Some stop \<Rightarrow> if stop \<le> start then None else Some (substr text start (stop - start + 1))))"

fun ranked_from :: "string list \<Rightarrow> json list \<Rightarrow> string list \<Rightarrow> string list" where
  "ranked_from candidates [] ranked = ranked"
| "ranked_from candidates (JStr name # items) ranked =
     ranked_from candidates items (if name \<in> set candidates \<and> name \<notin> set ranked then ranked @ [name] else ranked)"
| "ranked_from candidates (_ # items) ranked = ranked_from candidates items ranked"

definition parse_ranked_models :: "json_lib \<Rightarrow> string \<Rightarrow> string list \<Rightarrow> string list" where
  "parse_ranked_models lib text candidates =
     (case Option.bind (extract_json_array text) (lib_parse lib) of
        Some (JArr items) \<Rightarrow> ranked_from candidates items []
      | _ \<Rightarrow> [])"

definition smaller_model :: "local_model \<Rightarrow> local_model \<Rightarrow> local_model" where
  "smaller_model best m = (if 0 < lm_size m \<and> (lm_size best = 0 \<or> lm_size m < lm_size best) then m else best)"

definition pick_smallest_model :: "local_model list \<Rightarrow> string" where
  "pick_smallest_model models = (case models of [] \<Rightarrow> [] | m # _ \<Rightarrow> lm_name (foldl smaller_model m models))"

definition larger_model :: "local_model \<Rightarrow> local_model \<Rightarrow> local_model" where
  "larger_model best m = (if lm_size best < lm_size m then m else best)"

definition pick_largest_model :: "local_model list \<Rightarrow> string" where
  "pick_largest_model models = (case models of [] \<Rightarrow> [] | m # _ \<Rightarrow> lm_name (foldl larger_model m models))"

fun router_from :: "(string \<times> model_meta) list \<Rightarrow> local_model list \<Rightarrow> string \<times> int \<Rightarrow> string \<times> int" where
  "router_from meta [] best = best"
| "router_from meta (m # ms) best =
     router_from meta ms
       (case map_of meta (lm_name m) of
          None \<Rightarrow> best
        | Some e \<Rightarrow>
            if mm_category e \<noteq> ''router'' then best
            else let size = (if 0 < mm_size_bytes e then mm_size_bytes e else lm_size m)
                 in if fst best = [] \<or> (0 < size \<and> (snd best = 0 \<or> size < snd best)) then (lm_name m, size) else best)"

definition pick_router_model :: "local_model list \<Rightarrow> (string \<times> model_meta) list \<Rightarrow> string" where
  "pick_router_model models meta = fst (router_from meta models ([], 0))"

subsection \<open>Lemmas: sorting\<close>

lemma insert_by_key:
  "(\<And>y. y \<in> set ys \<Longrightarrow> before y x \<longleftrightarrow> \<not> f x \<le> f y) \<Longrightarrow> insert_by before x ys = insort_key f x ys"
  by (induction ys) auto

lemma stable_sort_key:
  assumes "\<And>x y. x \<in> set xs \<Longrightarrow> y \<in> set xs \<Longrightarrow> before y x \<longleftrightarrow> \<not> f x \<le> f y"
  shows "stable_sort before xs = sort_key f xs"
  using assms unfolding stable_sort_def
proof (induction xs)
  case (Cons x xs)
  have "foldr (insert_by before) xs [] = sort_key f xs" by (rule Cons.IH) (use Cons.prems in simp)
  then show ?case using insert_by_key [of "sort_key f xs" before x f] Cons.prems by simp
qed simp

lemma sort_key_mset:
  assumes "mset xs = mset ys" and "inj_on f (set xs)" and "distinct xs"
  shows "sort_key f xs = sort_key f ys"
proof (rule properties_for_sort_key)
  show "mset (sort_key f ys) = mset xs" using assms(1) by simp
  show "sorted (map f (sort_key f ys))" by simp
  have d: "distinct (sort_key f ys)" "set (sort_key f ys) = set xs"
    using assms(1,3) by (metis distinct_sort mset_eq_imp_distinct_iff, metis mset_eq_setD set_sort)
  show "filter (\<lambda>x. f k = f x) (sort_key f ys) = filter (\<lambda>x. f k = f x) xs" if "k \<in> set (sort_key f ys)" for k
  proof -
    have "filter (\<lambda>x. f k = f x) zs = filter (\<lambda>x. x = k) zs" if "set zs = set xs" for zs
      using assms(2) \<open>k \<in> set (sort_key f ys)\<close> d(2) that by (intro filter_cong) (auto dest: inj_onD)
    moreover have "filter (\<lambda>x. x = k) zs = [k]" if "distinct zs" "k \<in> set zs" for zs
      using that by (induction zs) (auto simp: filter_empty_conv)
    ultimately show ?thesis using d assms(3) that by simp
  qed
qed

subsection \<open>Lemmas: recommendations\<close>

definition recommendation_key :: "(string \<times> model_meta) list \<Rightarrow> json \<Rightarrow> int \<times> int \<times> string" where
  "recommendation_key meta j = (- meta_quality meta (item_tag j), - meta_speed meta (item_tag j), item_tag j)"

lemma recommended_before_key: "recommended_before meta a b \<longleftrightarrow> recommendation_key meta a < recommendation_key meta b"
  by (auto simp: recommended_before_def recommendation_key_def Let_def)

lemma item_tag_recommendation [simp]: "item_tag (recommendation installed e) = fst e"
  by (simp add: item_tag_def recommendation_def json_get_object)

lemma recommendations_sorted:
  "build_caste_recommendations ms meta caste =
     sort_key (recommendation_key meta)
       (map (recommendation (set (map (\<lambda>m. normalize_model_tag_for_match (lm_name m)) ms))) (filter (\<lambda>e. eligible caste (snd e)) meta))"
  unfolding build_caste_recommendations_def Let_def
  by (rule stable_sort_key) (auto simp: recommended_before_key not_le)

lemma map_of_mset: "mset xs = mset ys \<Longrightarrow> distinct (map fst xs) \<Longrightarrow> map_of xs = map_of ys"
  by (metis map_of_inject_set mset_eq_imp_distinct_iff mset_eq_setD mset_map)

subsection \<open>Lemmas: the choice of a model\<close>

lemma ranked_from_ok:
  "distinct ranked \<Longrightarrow> set ranked \<subseteq> set candidates \<Longrightarrow>
   distinct (ranked_from candidates items ranked) \<and> set (ranked_from candidates items ranked) \<subseteq> set candidates"
  by (induction candidates items ranked rule: ranked_from.induct) auto

lemma parse_ranked_models_ok:
  "distinct (parse_ranked_models lib text candidates) \<and> set (parse_ranked_models lib text candidates) \<subseteq> set candidates"
  using ranked_from_ok [of "[]"] by (auto simp: parse_ranked_models_def split: option.splits json.splits)

lemma smallest_from:
  "\<forall>m \<in> set ms. 0 \<le> lm_size m \<Longrightarrow> 0 \<le> lm_size best \<Longrightarrow>
   foldl smaller_model best ms \<in> insert best (set ms) \<and>
   (\<forall>m \<in> insert best (set ms). 0 < lm_size m \<longrightarrow>
      0 < lm_size (foldl smaller_model best ms) \<and> lm_size (foldl smaller_model best ms) \<le> lm_size m)"
proof (induction ms arbitrary: best)
  case (Cons x xs)
  let ?b = "smaller_model best x"
  have b: "0 \<le> lm_size ?b" "?b \<in> {best, x}" "\<forall>m \<in> {best, x}. 0 < lm_size m \<longrightarrow> 0 < lm_size ?b \<and> lm_size ?b \<le> lm_size m"
    using Cons.prems by (auto simp: smaller_model_def)
  have IH: "foldl smaller_model ?b xs \<in> insert ?b (set xs)"
    "\<forall>m \<in> insert ?b (set xs). 0 < lm_size m \<longrightarrow> 0 < lm_size (foldl smaller_model ?b xs) \<and> lm_size (foldl smaller_model ?b xs) \<le> lm_size m"
    using Cons.IH [of ?b] Cons.prems b(1) by auto
  have "0 < lm_size (foldl smaller_model ?b xs) \<and> lm_size (foldl smaller_model ?b xs) \<le> lm_size m"
    if m: "m \<in> {best, x}" "0 < lm_size m" for m
  proof -
    have "0 < lm_size ?b" "lm_size ?b \<le> lm_size m" using b(3) m by blast+
    moreover have "0 < lm_size (foldl smaller_model ?b xs)" "lm_size (foldl smaller_model ?b xs) \<le> lm_size ?b"
      using IH(2) \<open>0 < lm_size ?b\<close> by blast+
    ultimately show ?thesis by simp
  qed
  then show ?case using IH b(2) by auto
qed auto

lemma pick_smallest_model_ok:
  assumes "ms \<noteq> []" and "\<forall>m \<in> set ms. 0 \<le> lm_size m"
  shows "\<exists>b \<in> set ms. pick_smallest_model ms = lm_name b \<and>
    (\<forall>m \<in> set ms. 0 < lm_size m \<longrightarrow> 0 < lm_size b \<and> lm_size b \<le> lm_size m)"
proof -
  obtain m0 rest where ms: "ms = m0 # rest" using assms(1) by (cases ms) auto
  let ?b = "foldl smaller_model m0 ms"
  have "0 \<le> lm_size m0" using assms(2) ms by simp
  note f = smallest_from [OF assms(2) this]
  have "?b \<in> set ms" using f ms by auto
  then show ?thesis using f ms by (intro bexI [of _ ?b]) (auto simp: pick_smallest_model_def)
qed

lemma largest_from:
  "foldl larger_model best ms \<in> insert best (set ms) \<and> (\<forall>m \<in> insert best (set ms). lm_size m \<le> lm_size (foldl larger_model best ms))"
proof (induction ms arbitrary: best)
  case (Cons x xs)
  from Cons.IH [of "larger_model best x"] show ?case by (auto simp: larger_model_def split: if_splits)
qed simp

lemma pick_largest_model_ok:
  "ms \<noteq> [] \<Longrightarrow> \<exists>b \<in> set ms. pick_largest_model ms = lm_name b \<and> (\<forall>m \<in> set ms. lm_size m \<le> lm_size b)"
  using largest_from [of "hd ms" ms] by (cases ms) (auto simp: pick_largest_model_def)

lemma router_from_ok:
  "fst best = [] \<or> P (fst best) \<Longrightarrow> (\<And>m e. m \<in> set ms \<Longrightarrow> map_of meta (lm_name m) = Some e \<Longrightarrow> mm_category e = ''router'' \<Longrightarrow> P (lm_name m)) \<Longrightarrow>
   fst (router_from meta ms best) = [] \<or> P (fst (router_from meta ms best))"
proof (induction meta ms best rule: router_from.induct)
  case (2 meta m ms best)
  show ?case unfolding router_from.simps
    by (rule 2(1)) (use 2(2,3) in \<open>auto simp: Let_def split: option.splits\<close>)
qed simp

subsection \<open>Properties\<close>

text \<open>
  Recommendations are the models the machine can run, best first, whatever the order of the hash
  table. For a catalogue with one entry per tag: two iteration orders give the same list; the list
  has one item for each entry whose hardware class is named and not above the machine's; and of two
  items the earlier has the higher quality, or the same quality and higher speed, or the same of
  both and the smaller tag.
\<close>

theorem recommendations_ranked:
  assumes "distinct (map fst meta)" and "mset meta' = mset meta"
    and out_def: "out = build_caste_recommendations installed meta caste"
  shows "build_caste_recommendations installed meta' caste = out \<and>
    mset (map item_tag out) = mset (map fst (filter (\<lambda>e. eligible caste (snd e)) meta)) \<and>
    sorted_wrt (\<lambda>a b. (meta_quality meta (item_tag b), meta_speed meta (item_tag b)) < (meta_quality meta (item_tag a), meta_speed meta (item_tag a)) \<or>
      (meta_quality meta (item_tag b), meta_speed meta (item_tag b)) = (meta_quality meta (item_tag a), meta_speed meta (item_tag a)) \<and>
      item_tag a < item_tag b) out"
proof -
  let ?inst = "set (map (\<lambda>m. normalize_model_tag_for_match (lm_name m)) installed)"
  let ?items = "\<lambda>meta. map (recommendation ?inst) (filter (\<lambda>e. eligible caste (snd e)) meta)"
  have mo: "map_of meta' = map_of meta" using map_of_mset [OF assms(2)] assms by (metis mset_eq_imp_distinct_iff mset_map)
  have key: "recommendation_key meta' = recommendation_key meta"
    by (simp add: recommendation_key_def meta_quality_def meta_speed_def mo fun_eq_iff)
  have dt: "distinct (map item_tag (?items meta))"
    using assms(1) by (auto simp: comp_def distinct_map inj_on_def)
  then have inj: "inj_on item_tag (set (?items meta))" and d: "distinct (?items meta)"
    using distinct_map [of item_tag "?items meta"] by blast+
  have "inj_on (recommendation_key meta) (set (?items meta))"
    using inj by (intro inj_onI) (auto simp: recommendation_key_def dest: inj_onD)
  then have "sort_key (recommendation_key meta) (?items meta) = sort_key (recommendation_key meta) (?items meta')"
    by (rule sort_key_mset [rotated]) (use assms(2) d in simp_all)
  then have 1: "build_caste_recommendations installed meta' caste = out"
    unfolding out_def recommendations_sorted key by simp
  have out: "out = sort_key (recommendation_key meta) (?items meta)" by (simp add: out_def recommendations_sorted)
  have 2: "mset (map item_tag out) = mset (map fst (filter (\<lambda>e. eligible caste (snd e)) meta))"
    unfolding out mset_map mset_sort by (simp add: image_mset.compositionality comp_def flip: mset_map)
  have "sorted (map (recommendation_key meta) out)" unfolding out by simp
  moreover have "distinct (map (recommendation_key meta) out)"
    using \<open>inj_on (recommendation_key meta) (set (?items meta))\<close> d by (simp add: out distinct_map)
  ultimately have "sorted_wrt (<) (map (recommendation_key meta) out)" using strict_sorted_iff by blast
  then have "sorted_wrt (\<lambda>a b. recommendation_key meta a < recommendation_key meta b) out" by (simp add: sorted_wrt_map)
  then have 3: "sorted_wrt (\<lambda>a b. (meta_quality meta (item_tag b), meta_speed meta (item_tag b)) < (meta_quality meta (item_tag a), meta_speed meta (item_tag a)) \<or>
      (meta_quality meta (item_tag b), meta_speed meta (item_tag b)) = (meta_quality meta (item_tag a), meta_speed meta (item_tag a)) \<and>
      item_tag a < item_tag b) out"
    by (rule sorted_wrt_mono_rel [rotated]) (auto simp: recommendation_key_def)
  show ?thesis using 1 2 3 by blast
qed

definition sample_meta :: "(string \<times> model_meta) list" where
  "sample_meta =
     [(''a'', empty_meta\<lparr>mm_tag := ''a'', mm_hardware_tier := ''user'', mm_quality := ''low''\<rparr>),
      (''b'', empty_meta\<lparr>mm_tag := ''b'', mm_hardware_tier := ''mini'', mm_quality := ''High''\<rparr>),
      (''c'', empty_meta\<lparr>mm_tag := ''c'', mm_hardware_tier := ''rig''\<rparr>)]"

lemma sample_eligible: "filter (\<lambda>e. eligible ''laptop'' (snd e)) sample_meta = take 2 sample_meta"
  by code_simp

theorem recommendations_ranked_witness:
  "set (map item_tag (build_caste_recommendations [] (rev sample_meta) ''laptop'')) = {''a'', ''b''}"
proof -
  have "distinct (map fst sample_meta)" "mset (rev sample_meta) = mset sample_meta" by (simp_all add: sample_meta_def)
  from recommendations_ranked [OF this refl, of "[]" "''laptop''"]
  have "mset (map item_tag (build_caste_recommendations [] (rev sample_meta) ''laptop'')) = mset [''a'', ''b'']"
    unfolding sample_eligible by (simp add: sample_meta_def del: mset_map)
  then show ?thesis by (metis mset_eq_setD list.set(1) list.set(2))
qed

end
