(* ===== verification/Runners.thy ===== *)
theory Runners
  imports ModelRouting
begin

text \<open>
  The runners of local models: references to a model of a runner
  (\<open>src/src/llm/RunnerModelRef.cpp\<close>), the configured models
  (\<open>src/src/ai/AiLocalModelConfigRepo.cpp\<close>, whose table has at most the row \<open>global\<close>) and
  the table of clients (\<open>src/src/llm/RunnerRegistry.cpp\<close>). The repository of runners is another
  library's; what it returns is an argument. A client is the address it talks to and whether the
  executor wraps it.
\<close>

subsection \<open>References to models\<close>

record model_ref =
  mr_runner_id :: string
  mr_model_name :: string

definition make_runner_model_ref :: "string \<Rightarrow> string \<Rightarrow> string" where
  "make_runner_model_ref runner_id model_name = runner_id @ ''::'' @ model_name"

definition parse_runner_model_ref :: "string \<Rightarrow> model_ref option" where
  "parse_runner_model_ref ref =
     (case find_str ''::'' ref of
        None \<Rightarrow> None
      | Some pos \<Rightarrow>
          if pos = 0 \<or> length ref \<le> pos + 2 then None
          else Some \<lparr>mr_runner_id = take pos ref, mr_model_name = drop (pos + 2) ref\<rparr>)"

definition kAutoLocalRunnerId :: string where
  "kAutoLocalRunnerId = ''auto-local''"

definition normalize_local_runner_model_ref :: "string \<Rightarrow> string" where
  "normalize_local_runner_model_ref ref =
     (if ref = [] then ref
      else if parse_runner_model_ref ref \<noteq> None then ref
      else make_runner_model_ref kAutoLocalRunnerId ref)"

definition local_model_name_from_ref :: "string option \<Rightarrow> string \<Rightarrow> string option" where
  "local_model_name_from_ref ref expected_runner_id =
     (case ref of
        None \<Rightarrow> None
      | Some r \<Rightarrow>
          if r = [] then None
          else case parse_runner_model_ref r of
                 None \<Rightarrow> Some r
               | Some p \<Rightarrow> if mr_runner_id p \<noteq> expected_runner_id then None else Some (mr_model_name p))"

definition runner_id_from_ref :: "string option \<Rightarrow> string option" where
  "runner_id_from_ref ref =
     (case ref of
        None \<Rightarrow> None
      | Some r \<Rightarrow> if r = [] then None else map_option mr_runner_id (parse_runner_model_ref r))"

text \<open>The runner registry is its lookup of clients; \<open>None\<close> is the null pointer.\<close>

definition resolve_configured_runner_model ::
  "string option \<Rightarrow> (string \<Rightarrow> 'c option) option \<Rightarrow> (model_ref \<times> 'c) option" where
  "resolve_configured_runner_model ref registry =
     (case (ref, registry) of
        (Some r, Some get_client) \<Rightarrow>
          if r = [] then None
          else (case parse_runner_model_ref (normalize_local_runner_model_ref r) of
                  None \<Rightarrow> None
                | Some p \<Rightarrow> map_option (\<lambda>c. (p, c)) (get_client (mr_runner_id p)))
      | _ \<Rightarrow> None)"

subsection \<open>The configured models\<close>

record local_config =
  lc_fast :: "string option"
  lc_strong :: "string option"
  lc_deep :: "string option"
  lc_updated_at :: int

definition bind_optional_text :: "string option \<Rightarrow> string option" where
  "bind_optional_text v = (case v of None \<Rightarrow> None | Some s \<Rightarrow> if s = [] then None else Some (c_str s))"

definition has_any_model :: "string option \<Rightarrow> string option \<Rightarrow> string option \<Rightarrow> bool" where
  "has_any_model fast strong deep \<longleftrightarrow> (\<exists>v \<in> {fast, strong, deep}. \<exists>s. v = Some s \<and> s \<noteq> [])"

definition config_get :: "local_config option \<Rightarrow> local_config option" where
  "config_get row =
     map_option (\<lambda>r. r\<lparr>lc_fast := map_option normalize_local_runner_model_ref (lc_fast r),
                       lc_strong := map_option normalize_local_runner_model_ref (lc_strong r),
                       lc_deep := map_option normalize_local_runner_model_ref (lc_deep r)\<rparr>) row"

definition config_clear :: "local_config option \<Rightarrow> local_config option" where
  "config_clear row = None"

definition config_set ::
  "string option \<Rightarrow> string option \<Rightarrow> string option \<Rightarrow> int \<Rightarrow> local_config option \<Rightarrow> local_config option" where
  "config_set fast strong deep updated_at row =
     (if \<not> has_any_model fast strong deep then config_clear row
      else Some \<lparr>lc_fast = bind_optional_text (map_option normalize_local_runner_model_ref fast),
                 lc_strong = bind_optional_text (map_option normalize_local_runner_model_ref strong),
                 lc_deep = bind_optional_text (map_option normalize_local_runner_model_ref deep),
                 lc_updated_at = updated_at\<rparr>)"

subsection \<open>The runner registry\<close>

record runner =
  rn_id :: string
  rn_name :: string
  rn_kind :: string
  rn_base_url :: "string option"
  rn_source :: string
  rn_enabled :: bool
  rn_created_at :: int
  rn_updated_at :: int

record runner_repo =
  rp_list :: "runner list"
  rp_get :: "string \<Rightarrow> runner option"

datatype client = AutoLocal bool | Manual string string bool

record runner_registry =
  rr_repo :: "runner_repo option"
  rr_auto_local :: bool
  rr_executor :: bool
  rr_clients :: "(string \<times> client) list"
  rr_probes :: "client list"

definition auto_local_runner_record :: runner where
  "auto_local_runner_record =
     \<lparr>rn_id = kAutoLocalRunnerId, rn_name = ''Local Ollama'', rn_kind = ''ollama'',
      rn_base_url = Some ''http://127.0.0.1:11434'', rn_source = ''auto_local'', rn_enabled = True,
      rn_created_at = 0, rn_updated_at = 0\<rparr>"

definition parse_http_base_url :: "string option \<Rightarrow> (string \<times> string) option" where
  "parse_http_base_url base_url =
     (case base_url of
        None \<Rightarrow> None
      | Some url \<Rightarrow>
          if url = [] \<or> \<not> starts_with url ''http://'' then None
          else let v = drop (length ''http://'') url
               in if v = [] then None
                  else let v = (case find_char CHR ''/'' v of None \<Rightarrow> v | Some slash \<Rightarrow> take slash v)
                       in if v = [] then None
                          else case rfind_char CHR '':'' v of
                                 None \<Rightarrow> None
                               | Some colon \<Rightarrow>
                                   if colon = 0 \<or> colon = length v - 1 then None
                                   else Some (take colon v, drop (colon + 1) v))"

text \<open>The client of a row, if it is an enabled manual runner of the known kind with a usable address.\<close>

definition manual_client :: "bool \<Rightarrow> runner \<Rightarrow> client option" where
  "manual_client executor r =
     (if \<not> rn_enabled r \<or> rn_source r \<noteq> ''manual'' \<or> rn_kind r \<noteq> ''ollama'' then None
      else map_option (\<lambda>(host, port). Manual host port executor) (parse_http_base_url (rn_base_url r)))"

text \<open>Each client's probe is started; \<open>emplace\<close> keeps an entry that is already there.\<close>

fun load_clients :: "bool \<Rightarrow> runner list \<Rightarrow> (string \<times> client) list \<times> client list \<Rightarrow> (string \<times> client) list \<times> client list" where
  "load_clients executor [] acc = acc"
| "load_clients executor (r # rs) (clients, probes) =
     load_clients executor rs
       (case manual_client executor r of
          None \<Rightarrow> (clients, probes)
        | Some c \<Rightarrow> (if map_of clients (rn_id r) = None then clients @ [(rn_id r, c)] else clients, probes @ [c]))"

definition load_manual_clients :: "runner_registry \<Rightarrow> runner_registry" where
  "load_manual_clients rr =
     (case rr_repo rr of
        None \<Rightarrow> rr\<lparr>rr_clients := []\<rparr>
      | Some repo \<Rightarrow>
          (let (clients, probes) = load_clients (rr_executor rr) (rp_list repo) ([], rr_probes rr)
           in rr\<lparr>rr_clients := clients, rr_probes := probes\<rparr>))"

definition runner_registry_new :: "runner_repo option \<Rightarrow> bool \<Rightarrow> bool \<Rightarrow> runner_registry" where
  "runner_registry_new repo auto_local executor =
     load_manual_clients \<lparr>rr_repo = repo, rr_auto_local = auto_local, rr_executor = executor, rr_clients = [], rr_probes = []\<rparr>"

definition registry_refresh :: "runner_repo option \<Rightarrow> runner_registry \<Rightarrow> runner_registry" where
  "registry_refresh repo rr = load_manual_clients (rr\<lparr>rr_repo := repo\<rparr>)"

definition list_runners :: "runner_registry \<Rightarrow> runner list" where
  "list_runners rr = auto_local_runner_record # (case rr_repo rr of None \<Rightarrow> [] | Some repo \<Rightarrow> rp_list repo)"

definition get_runner :: "runner_registry \<Rightarrow> string \<Rightarrow> runner option" where
  "get_runner rr i =
     (if i = kAutoLocalRunnerId then Some auto_local_runner_record
      else case rr_repo rr of None \<Rightarrow> None | Some repo \<Rightarrow> rp_get repo i)"

definition get_client :: "runner_registry \<Rightarrow> string \<Rightarrow> client option" where
  "get_client rr i =
     (if i = kAutoLocalRunnerId then (if rr_auto_local rr then Some (AutoLocal (rr_executor rr)) else None)
      else map_of (rr_clients rr) i)"

definition share_client :: "runner_registry \<Rightarrow> string \<Rightarrow> client option" where
  "share_client rr i =
     (if i = kAutoLocalRunnerId
      then (if rr_auto_local rr \<and> rr_executor rr then Some (AutoLocal True)
            else if rr_auto_local rr then Some (AutoLocal False)
            else None)
      else map_of (rr_clients rr) i)"

subsection \<open>Lemmas\<close>

lemma share_client_get: "share_client rr i = get_client rr i"
  by (simp add: share_client_def get_client_def)

lemma find_str_append:
  assumes "\<forall>a b. r @ [CHR '':''] \<noteq> a @ ''::'' @ b"
  shows "find_str ''::'' (r @ ''::'' @ m) = Some (length r)"
  using assms
proof (induction r)
  case Nil
  then show ?case by (simp add: starts_with_def)
next
  case (Cons c r)
  have IH: "find_str ''::'' (r @ ''::'' @ m) = Some (length r)"
    by (rule Cons.IH) (use Cons.prems in \<open>metis append_Cons\<close>)
  have "\<not> starts_with ((c # r) @ ''::'' @ m) ''::''"
  proof
    assume "starts_with ((c # r) @ ''::'' @ m) ''::''"
    then have "c = CHR '':''" "hd (r @ [CHR '':'']) = CHR '':''" by (auto simp: starts_with_def hd_append split: if_splits) (cases r; simp)
    then have "(c # r) @ [CHR '':''] = [] @ ''::'' @ tl (r @ [CHR '':''])" by (cases r) auto
    then show False using Cons.prems by blast
  qed
  then show ?case using IH by simp
qed

definition plain_id :: "string \<Rightarrow> bool" where
  "plain_id r \<longleftrightarrow> r \<noteq> [] \<and> (\<forall>a b. r @ [CHR '':''] \<noteq> a @ ''::'' @ b)"

lemma parse_make_ref:
  assumes "plain_id r" and "m \<noteq> []"
  shows "parse_runner_model_ref (make_runner_model_ref r m) = Some \<lparr>mr_runner_id = r, mr_model_name = m\<rparr>"
proof -
  have "find_str ''::'' (r @ ''::'' @ m) = Some (length r)" using assms(1) by (intro find_str_append) (simp add: plain_id_def)
  then show ?thesis using assms by (simp add: parse_runner_model_ref_def make_runner_model_ref_def plain_id_def)
qed

lemma parse_ref_parts:
  assumes "parse_runner_model_ref ref = Some p"
  shows "ref = make_runner_model_ref (mr_runner_id p) (mr_model_name p) \<and> mr_runner_id p \<noteq> [] \<and> mr_model_name p \<noteq> []"
proof -
  obtain pos where pos: "find_str ''::'' ref = Some pos" "0 < pos" "pos + 2 < length ref"
    and p: "p = \<lparr>mr_runner_id = take pos ref, mr_model_name = drop (pos + 2) ref\<rparr>"
    using assms by (auto simp: parse_runner_model_ref_def split: option.splits if_splits)
  have "take 2 (drop pos ref) = ''::''" using find_str_Some_at [OF pos(1)] by (simp add: starts_with_def numeral_2_eq_2)
  then have "ref = take pos ref @ ''::'' @ drop (pos + 2) ref"
    by (metis append_take_drop_id drop_drop add.commute)
  moreover have "take pos ref \<noteq> []" "drop (pos + 2) ref \<noteq> []" using pos by auto
  ultimately show ?thesis unfolding p make_runner_model_ref_def by simp
qed

lemma auto_local_plain: "plain_id kAutoLocalRunnerId"
proof -
  have "find_str ''::'' (kAutoLocalRunnerId @ [CHR '':'']) = None" by (simp add: kAutoLocalRunnerId_def starts_with_def)
  then have "\<forall>a b. kAutoLocalRunnerId @ [CHR '':''] \<noteq> a @ ''::'' @ b" by (rule find_str_None_iff [THEN iffD1])
  then show ?thesis unfolding plain_id_def by (simp add: kAutoLocalRunnerId_def)
qed

lemma parse_normalized:
  assumes "r \<noteq> []"
  shows "\<exists>p. parse_runner_model_ref (normalize_local_runner_model_ref r) = Some p
     \<and> normalize_local_runner_model_ref r = make_runner_model_ref (mr_runner_id p) (mr_model_name p)"
proof (cases "parse_runner_model_ref r")
  case None
  then show ?thesis using assms parse_make_ref [OF auto_local_plain, of r]
    by (simp add: normalize_local_runner_model_ref_def)
next
  case (Some p)
  then show ?thesis using assms parse_ref_parts [OF Some] by (simp add: normalize_local_runner_model_ref_def)
qed

lemma normalize_ref_idem [simp]:
  "normalize_local_runner_model_ref (normalize_local_runner_model_ref r) = normalize_local_runner_model_ref r"
  using parse_make_ref [OF auto_local_plain, of r]
  by (auto simp: normalize_local_runner_model_ref_def make_runner_model_ref_def)

lemma normalize_ref_Nil_iff [simp]: "normalize_local_runner_model_ref r = [] \<longleftrightarrow> r = []"
  by (simp add: normalize_local_runner_model_ref_def make_runner_model_ref_def)

lemma c_str_plain: "CHR 0x00 \<notin> set s \<Longrightarrow> c_str s = s"
  by (induction s) (auto simp: c_str_def)

text \<open>What the rows of the repository make of the table: the first usable row of each identifier.\<close>

definition first_client :: "bool \<Rightarrow> runner list \<Rightarrow> string \<Rightarrow> client option" where
  "first_client executor rows i =
     (case filter (\<lambda>r. rn_id r = i \<and> manual_client executor r \<noteq> None) rows of
        [] \<Rightarrow> None
      | r # _ \<Rightarrow> manual_client executor r)"

lemma load_clients_lookup:
  "map_of (fst (load_clients executor rows (clients, probes))) i =
     (case map_of clients i of Some c \<Rightarrow> Some c | None \<Rightarrow> first_client executor rows i)"
proof (induction rows arbitrary: clients probes)
  case Nil
  then show ?case by (simp add: first_client_def split: option.split)
next
  case (Cons r rows)
  show ?case
  proof (cases "manual_client executor r")
    case None
    then show ?thesis by (simp add: Cons.IH first_client_def split: option.split)
  next
    case (Some c)
    then show ?thesis by (auto simp: Cons.IH first_client_def map_add_def split: option.split)
  qed
qed

lemma load_clients_probes:
  "snd (load_clients executor rows (clients, probes)) = probes @ List.map_filter (manual_client executor) rows"
  by (induction rows arbitrary: clients probes) (auto simp: map_filter_simps split: option.split)

lemma get_client_refresh:
  "get_client (registry_refresh repo rr) i =
     (if i = kAutoLocalRunnerId then (if rr_auto_local rr then Some (AutoLocal (rr_executor rr)) else None)
      else (case repo of None \<Rightarrow> None | Some rp \<Rightarrow> first_client (rr_executor rr) (rp_list rp) i))"
  using load_clients_lookup [of "rr_executor rr" _ "[]" "rr_probes rr" i]
  by (auto simp: get_client_def registry_refresh_def load_manual_clients_def split_beta split: option.split)

text \<open>The reference a configured name stands for.\<close>

definition meant_ref :: "string \<Rightarrow> model_ref" where
  "meant_ref r =
     (case parse_runner_model_ref r of
        Some p \<Rightarrow> p
      | None \<Rightarrow> \<lparr>mr_runner_id = kAutoLocalRunnerId, mr_model_name = r\<rparr>)"

lemma parse_normalized_meant:
  "r \<noteq> [] \<Longrightarrow> parse_runner_model_ref (normalize_local_runner_model_ref r) = Some (meant_ref r)"
  using parse_make_ref [OF auto_local_plain, of r]
  by (auto simp: normalize_local_runner_model_ref_def meant_ref_def)

lemma config_get_set_fast:
  assumes "r \<noteq> []" and "CHR 0x00 \<notin> set r"
  shows "map_option lc_fast (config_get (config_set (Some r) strong deep t row))
     = Some (Some (normalize_local_runner_model_ref r))"
proof -
  have "CHR 0x00 \<notin> set (normalize_local_runner_model_ref r)"
    using assms(2) by (simp add: normalize_local_runner_model_ref_def make_runner_model_ref_def kAutoLocalRunnerId_def)
  then show ?thesis
    using assms(1) by (simp add: config_get_def config_set_def has_any_model_def bind_optional_text_def c_str_plain)
qed

text \<open>
  A configured model keeps its meaning through the table and the registry: a name stored as the
  fast model is read back as a reference that stands for the same runner and model (for a bare
  name, the automatic local runner), a reference made of a runner identifier and a model parses to
  them, and resolving what was read back gives exactly the client that the rows of the repository
  determine: the first enabled manual row of that identifier with a usable address, or the
  automatic client.\<close>
theorem configured_model_resolves:
  assumes "r \<noteq> []" and "CHR 0x00 \<notin> set r" and "plain_id i" and "m \<noteq> []"
  shows "\<exists>cfg. config_get (config_set (Some r) strong deep t row) = Some cfg
     \<and> resolve_configured_runner_model (lc_fast cfg) (Some (get_client (registry_refresh (Some rp) rr))) =
         map_option (\<lambda>c. (meant_ref r, c))
           (if mr_runner_id (meant_ref r) = kAutoLocalRunnerId
            then (if rr_auto_local rr then Some (AutoLocal (rr_executor rr)) else None)
            else first_client (rr_executor rr) (rp_list rp) (mr_runner_id (meant_ref r)))
     \<and> meant_ref (make_runner_model_ref i m) = \<lparr>mr_runner_id = i, mr_model_name = m\<rparr>
     \<and> (parse_runner_model_ref r = None \<longrightarrow> meant_ref r = \<lparr>mr_runner_id = kAutoLocalRunnerId, mr_model_name = r\<rparr>)"
proof -
  obtain cfg where cfg: "config_get (config_set (Some r) strong deep t row) = Some cfg"
    "lc_fast cfg = Some (normalize_local_runner_model_ref r)"
    using config_get_set_fast [OF assms(1,2)] by fastforce
  have "resolve_configured_runner_model (lc_fast cfg) (Some g) = map_option (\<lambda>c. (meant_ref r, c)) (g (mr_runner_id (meant_ref r)))" for g :: "string \<Rightarrow> client option"
    using assms(1) by (simp add: cfg(2) resolve_configured_runner_model_def parse_normalized_meant)
  moreover have "meant_ref (make_runner_model_ref i m) = \<lparr>mr_runner_id = i, mr_model_name = m\<rparr>"
    by (simp add: meant_ref_def parse_make_ref [OF assms(3,4)])
  ultimately show ?thesis using cfg(1) by (simp add: get_client_refresh) (simp add: meant_ref_def)
qed

theorem configured_model_resolves_witness:
  "\<exists>cfg. config_get (config_set (Some ''box::llama'') None None 5 None) = Some cfg
     \<and> resolve_configured_runner_model (lc_fast cfg)
         (Some (get_client (registry_refresh
            (Some \<lparr>rp_list = [\<lparr>rn_id = ''box'', rn_name = ''b'', rn_kind = ''ollama'', rn_base_url = Some ''http://h:1/x'',
                              rn_source = ''manual'', rn_enabled = True, rn_created_at = 1, rn_updated_at = 1\<rparr>],
                   rp_get = Map.empty\<rparr>)
            \<lparr>rr_repo = None, rr_auto_local = True, rr_executor = True, rr_clients = [], rr_probes = []\<rparr>)))
       = Some (\<lparr>mr_runner_id = ''box'', mr_model_name = ''llama''\<rparr>, Manual ''h'' ''1'' True)"
proof -
  have m: "meant_ref ''box::llama'' = \<lparr>mr_runner_id = ''box'', mr_model_name = ''llama''\<rparr>" by code_simp
  have c: "first_client True [\<lparr>rn_id = ''box'', rn_name = ''b'', rn_kind = ''ollama'', rn_base_url = Some ''http://h:1/x'',
                              rn_source = ''manual'', rn_enabled = True, rn_created_at = 1, rn_updated_at = 1\<rparr>] ''box''
            = Some (Manual ''h'' ''1'' True)" by code_simp
  show ?thesis
    using configured_model_resolves [of "''box::llama''" kAutoLocalRunnerId "''x''" None None 5 None
        "\<lparr>rp_list = [\<lparr>rn_id = ''box'', rn_name = ''b'', rn_kind = ''ollama'', rn_base_url = Some ''http://h:1/x'',
                              rn_source = ''manual'', rn_enabled = True, rn_created_at = 1, rn_updated_at = 1\<rparr>],
          rp_get = Map.empty\<rparr>"
        "\<lparr>rr_repo = None, rr_auto_local = True, rr_executor = True, rr_clients = [], rr_probes = []\<rparr>"]
      auto_local_plain
    by (auto simp: m c kAutoLocalRunnerId_def)
qed

end
