(* ===== verification/JsonCodec.thy ===== *)
theory JsonCodec
  imports Prelude
begin

text \<open>
  A concrete instance of the JSON parameter \<open>json_lib\<close>: a prefix code with unary lengths that
  prints every value and parses it back, trailing white space included. It stands in for the
  package where a witness needs one whose \<open>parse\<close> undoes its \<open>dump\<close>; no property depends on it.
\<close>

definition enc_nat :: "nat \<Rightarrow> string" where
  "enc_nat n = replicate n CHR ''1'' @ ''0''"

definition dec_nat :: "string \<Rightarrow> nat \<times> string" where
  "dec_nat s = (let k = length (takeWhile (\<lambda>c. c = CHR ''1'') s) in (k, drop (Suc k) s))"

definition enc_str :: "string \<Rightarrow> string" where
  "enc_str s = enc_nat (length s) @ s"

definition dec_str :: "string \<Rightarrow> string \<times> string" where
  "dec_str s = (let (k, r) = dec_nat s in (take k r, drop k r))"

primrec enc :: "json \<Rightarrow> string" where
  "enc JNull = ''n''"
| "enc (JBool b) = (if b then ''t'' else ''f'')"
| "enc (JInt i) = (if i < 0 then ''-'' else ''+'') @ enc_nat (nat \<bar>i\<bar>)"
| "enc (JFloat d) = ''d'' @ enc_nat d"
| "enc (JStr s) = ''s'' @ enc_str s"
| "enc (JArr xs) = ''a'' @ enc_nat (length xs) @ concat (map enc xs)"
| "enc (JObj kvs) =
     ''o'' @ enc_nat (length kvs) @ concat (map (\<lambda>kv. enc_str (fst kv) @ snd kv) (map (map_prod id enc) kvs))"

fun dec :: "nat \<Rightarrow> string \<Rightarrow> (json \<times> string) option"
and dec_list :: "nat \<Rightarrow> nat \<Rightarrow> string \<Rightarrow> (json list \<times> string) option"
and dec_pairs :: "nat \<Rightarrow> nat \<Rightarrow> string \<Rightarrow> ((string \<times> json) list \<times> string) option" where
  "dec 0 s = None"
| "dec (Suc n) s =
     (if s = [] then None
      else if hd s = CHR ''n'' then Some (JNull, tl s)
      else if hd s = CHR ''t'' then Some (JBool True, tl s)
      else if hd s = CHR ''f'' then Some (JBool False, tl s)
      else if hd s = CHR ''-'' then Some (let (k, r) = dec_nat (tl s) in (JInt (- int k), r))
      else if hd s = CHR ''+'' then Some (let (k, r) = dec_nat (tl s) in (JInt (int k), r))
      else if hd s = CHR ''d'' then Some (let (k, r) = dec_nat (tl s) in (JFloat k, r))
      else if hd s = CHR ''s'' then Some (let (t, r) = dec_str (tl s) in (JStr t, r))
      else if hd s = CHR ''a'' then
        map_option (apfst JArr) (dec_list n (fst (dec_nat (tl s))) (snd (dec_nat (tl s))))
      else if hd s = CHR ''o'' then
        map_option (apfst JObj) (dec_pairs n (fst (dec_nat (tl s))) (snd (dec_nat (tl s))))
      else None)"
| "dec_list n 0 s = Some ([], s)"
| "dec_list 0 (Suc k) s = None"
| "dec_list (Suc n) (Suc k) s =
     (case dec n s of
        None \<Rightarrow> None
      | Some (j, r) \<Rightarrow> map_option (apfst (Cons j)) (dec_list n k r))"
| "dec_pairs n 0 s = Some ([], s)"
| "dec_pairs 0 (Suc k) s = None"
| "dec_pairs (Suc n) (Suc k) s =
     (let (name, s') = dec_str s
      in case dec n s' of
           None \<Rightarrow> None
         | Some (j, r) \<Rightarrow> map_option (apfst (Cons (name, j))) (dec_pairs n k r))"

definition codec_parse :: "string \<Rightarrow> json option" where
  "codec_parse s =
     (case dec (length s) s of
        None \<Rightarrow> None
      | Some (j, r) \<Rightarrow> if list_all is_space r then Some j else None)"

definition codec_lib :: json_lib where
  "codec_lib = \<lparr>lib_parse = codec_parse, lib_dump = enc, lib_dump2 = enc, lib_trunc = (\<lambda>_. 0)\<rparr>"

lemma dec_nat_enc [simp]: "dec_nat (enc_nat n @ r) = (n, r)"
proof -
  have "takeWhile (\<lambda>c. c = CHR ''1'') (replicate n CHR ''1'' @ CHR ''0'' # r) = replicate n CHR ''1''"
    by (induction n) simp_all
  then show ?thesis by (simp add: dec_nat_def enc_nat_def Let_def)
qed

lemma dec_str_enc [simp]: "dec_str (enc_str s @ r) = (s, r)"
  by (simp add: dec_str_def enc_str_def)

lemma enc_ne: "enc j \<noteq> []"
  by (cases j) simp_all

lemma enc_pos: "1 \<le> length (enc j)"
  using enc_ne [of j] by (cases "enc j") simp_all

lemma dec_list_enc:
  assumes "\<And>x n r. x \<in> set xs \<Longrightarrow> length (enc x) \<le> n \<Longrightarrow> dec n (enc x @ r) = Some (x, r)"
    and "Suc (length (concat (map enc xs))) \<le> n"
  shows "dec_list n (length xs) (concat (map enc xs) @ r) = Some (xs, r)"
  using assms
proof (induction xs arbitrary: n)
  case (Cons x xs)
  then obtain m where m: "n = Suc m" by (cases n) auto
  have "dec m (enc x @ concat (map enc xs) @ r) = Some (x, concat (map enc xs) @ r)"
    using Cons.prems m by simp
  moreover have "dec_list m (length xs) (concat (map enc xs) @ r) = Some (xs, r)"
    by (rule Cons.IH) (use Cons.prems m enc_pos [of x] in auto)
  ultimately show ?case using m by simp
qed simp

lemma dec_pairs_enc:
  assumes "\<And>k x n r. (k, x) \<in> set kvs \<Longrightarrow> length (enc x) \<le> n \<Longrightarrow> dec n (enc x @ r) = Some (x, r)"
    and "Suc (length (concat (map (\<lambda>kv. enc_str (fst kv) @ enc (snd kv)) kvs))) \<le> n"
  shows "dec_pairs n (length kvs) (concat (map (\<lambda>kv. enc_str (fst kv) @ enc (snd kv)) kvs) @ r) = Some (kvs, r)"
  using assms
proof (induction kvs arbitrary: n)
  case (Cons kv kvs)
  let ?rest = "concat (map (\<lambda>kv. enc_str (fst kv) @ enc (snd kv)) kvs)"
  obtain m where m: "n = Suc m" using Cons.prems by (cases n) auto
  obtain k x where kv: "kv = (k, x)" by (cases kv)
  have "dec m (enc x @ ?rest @ r) = Some (x, ?rest @ r)"
    by (rule Cons.prems(1) [of k]) (use Cons.prems(2) m kv in auto)
  moreover have "dec_pairs m (length kvs) (?rest @ r) = Some (kvs, r)"
    by (rule Cons.IH) (use Cons.prems m kv enc_pos [of x] in auto)
  ultimately show ?case using m kv by simp
qed simp

lemma dec_enc: "length (enc j) \<le> n \<Longrightarrow> dec n (enc j @ r) = Some (j, r)"
proof (induction j arbitrary: n r)
  case (JArr xs)
  then obtain m where m: "n = Suc m" by (cases n) auto
  have "dec_list m (length xs) (concat (map enc xs) @ r) = Some (xs, r)"
    by (rule dec_list_enc) (use JArr m in \<open>auto simp: enc_nat_def\<close>)
  then show ?case using m by simp
next
  case (JObj kvs)
  have map: "map (\<lambda>kv. enc_str (fst kv) @ snd kv) (map (map_prod id enc) kvs) =
      map (\<lambda>kv. enc_str (fst kv) @ enc (snd kv)) kvs" by (simp add: comp_def)
  obtain m where m: "n = Suc m" using JObj by (cases n) auto
  have "dec_pairs m (length kvs) (concat (map (\<lambda>kv. enc_str (fst kv) @ enc (snd kv)) kvs) @ r) = Some (kvs, r)"
  proof (rule dec_pairs_enc)
    show "dec n (enc x @ r) = Some (x, r)" if "(k, x) \<in> set kvs" "length (enc x) \<le> n" for k x n r
      by (rule JObj.IH [OF that(1)]) (use that in \<open>auto simp: Basic_BNFs.snds.simps\<close>)
    show "Suc (length (concat (map (\<lambda>kv. enc_str (fst kv) @ enc (snd kv)) kvs))) \<le> m"
      using JObj.prems m by (simp add: map [symmetric] enc_nat_def del: map_map)
  qed
  then show ?case using m by (simp add: map [symmetric] del: map_map)
next
  case (JInt i)
  then obtain m where "n = Suc m" by (cases n) (auto simp: enc_nat_def)
  then show ?case by (cases "i < 0") simp_all
next
  case (JBool b)
  then obtain m where "n = Suc m" by (cases n) (auto split: if_splits)
  then show ?case by (cases b) simp_all
next
  case JNull
  then obtain m where "n = Suc m" by (cases n) auto
  then show ?case by simp
next
  case (JFloat d)
  then obtain m where "n = Suc m" by (cases n) auto
  then show ?case by simp
next
  case (JStr t)
  then obtain m where "n = Suc m" by (cases n) auto
  then show ?case by simp
qed

lemma codec_parse_enc: "list_all is_space ws \<Longrightarrow> codec_parse (enc j @ ws) = Some j"
  using dec_enc [of j "length (enc j @ ws)" ws] by (simp add: codec_parse_def)

lemma codec_round_trip [simp]:
  "lib_parse codec_lib (enc j) = Some j" "lib_parse codec_lib (enc j @ [newline]) = Some j"
  "lib_dump codec_lib = enc" "lib_dump2 codec_lib = enc"
  using codec_parse_enc [of "[]" j] codec_parse_enc [of "[newline]" j]
  by (simp_all add: codec_lib_def is_space_def byte_of_def)

end
