(* ===== verification/Nudges.thy ===== *)
theory Nudges
  imports NudgeText WorkTree Runners Paths JsonCodec
begin

text \<open>
  Nudges, the suggestions the daemon shows beside a card: their table
  (\<open>src/src/ai/AiNudgeRepo.cpp\<close>), the durable copies of dismissals in the work trees
  (\<open>src/src/ai/AiNudgeDurability.cpp\<close>) and the service that evaluates candidates
  (\<open>src/src/ai/NudgeService.cpp\<close>).

  The table is a list of rows under their primary key \<open>nudge_id\<close>; texts are bound with
  \<open>c_str()\<close>, so they end at a NUL. Rows that tie in an \<open>ORDER BY\<close> keep the table's order.
  Repositories of other packages, card files, git and the model runners are fields of \<open>nudge_env\<close>;
  a throwing database call is not modelled, a throwing json access or file write is.
\<close>

subsection \<open>Data\<close>

record candidate =
  nc_kind :: string
  nc_project_id :: string
  nc_card_id :: "string option"
  nc_created_at :: int
  nc_basis_fingerprint :: "string option"
  nc_basis_commit :: "string option"
  nc_facts :: json

record nudge =
  ng_id :: string
  ng_kind :: string
  ng_project_id :: string
  ng_card_id :: "string option"
  ng_title :: string
  ng_body :: string
  ng_meta_json :: json
  ng_basis_fingerprint :: "string option"
  ng_basis_commit :: "string option"
  ng_created_at :: int
  ng_dismissed :: bool

record decision =
  nd_accepted :: bool
  nd_should_nudge :: bool
  nd_reason :: string
  nd_nudge :: "nudge option"

text \<open>A row of \<open>ai_nudges\<close>; a dismissal (\<open>DismissedNudge\<close>) is a row with its time.\<close>

record nudge_row =
  nr_id :: string
  nr_kind :: string
  nr_project_id :: string
  nr_card_id :: "string option"
  nr_title :: string
  nr_body :: string
  nr_meta_json :: string
  nr_basis_fingerprint :: "string option"
  nr_basis_commit :: "string option"
  nr_created_at :: int
  nr_dismissed_at :: "int option"

record nudge_world =
  nw_projects :: "project list"
  nw_manifest :: "string \<Rightarrow> bool"
  nw_trees :: "string \<Rightarrow> worktree"
  nw_table :: "(string \<times> nudge_row) list"

record card_row =
  cr_id :: string
  cr_title :: string
  cr_rel_path :: string
  cr_parent :: "string option"
  cr_updated_at :: int

record thread =
  th_id :: string
  th_card_id :: "string option"

record message =
  ms_role :: string
  ms_content :: string

record nudge_env =
  ne_lib :: json_lib
  ne_files :: state_env
  ne_card :: "string \<Rightarrow> card_row option"
  ne_children :: "string \<Rightarrow> string \<Rightarrow> card_row list"
  ne_roots :: "string \<Rightarrow> card_row list"
  ne_all :: "string \<Rightarrow> card_row list"
  ne_read :: "string \<Rightarrow> string option"
  ne_card_body :: "string \<Rightarrow> string"
  ne_sha256 :: "string \<Rightarrow> nat list"
  ne_head :: "string \<Rightarrow> string option"
  ne_threads :: "string \<Rightarrow> thread list"
  ne_messages :: "string \<Rightarrow> message list"
  ne_config :: "local_config option result"
  ne_registry :: "runner_registry option"
  ne_status :: "client \<Rightarrow> bool \<times> local_model list"
  ne_generate :: "client \<Rightarrow> string \<Rightarrow> string \<Rightarrow> string option"

subsection \<open>Evaluating a candidate\<close>

text \<open>\<open>facts.value(name, default)\<close>.\<close>

definition fact :: "(json \<Rightarrow> 'a result) \<Rightarrow> json \<Rightarrow> string \<Rightarrow> 'a \<Rightarrow> 'a result" where
  "fact get facts k d =
     (if \<not> is_object facts then Inl JsonTypeError
      else case json_get k facts of None \<Rightarrow> Inr d | Some v \<Rightarrow> get v)"

fun get_bool :: "json \<Rightarrow> bool result" where
  "get_bool (JBool b) = Inr b"
| "get_bool _ = Inl JsonTypeError"

definition is_placeholder_title :: "string \<Rightarrow> bool" where
  "is_placeholder_title title \<longleftrightarrow> starts_with (lowercase_ascii title) ''untitled''"

definition is_successful_push_status :: "string \<Rightarrow> bool" where
  "is_successful_push_status status \<longleftrightarrow> status = ''pushed'' \<or> status = ''up_to_date''"

definition decided :: "bool \<Rightarrow> string \<Rightarrow> string \<Rightarrow> decision" where
  "decided should_nudge ready not_ready =
     \<lparr>nd_accepted = True, nd_should_nudge = should_nudge, nd_reason = (if should_nudge then ready else not_ready),
      nd_nudge = None\<rparr>"

definition evaluate_candidate :: "json_lib \<Rightarrow> candidate \<Rightarrow> decision result" where
  "evaluate_candidate lib c =
     (let facts = nc_facts c
      in if nc_kind c = ''card.title_only'' then
           andthen (fact get_string facts ''title'' []) (\<lambda>title.
           andthen (fact get_bool facts ''body_empty'' False) (\<lambda>body_empty.
           andthen (fact (get_int32 lib) facts ''doc_chars'' 0) (\<lambda>doc_chars.
             Inr (decided (body_empty \<and> title \<noteq> [] \<and> \<not> is_placeholder_title title \<and> doc_chars \<le> 160)
                   ''title_only_candidate_ready'' ''title_only_not_actionable''))))
         else if nc_kind c = ''card.stuck_drafting'' then
           andthen (fact (get_int32 lib) facts ''autosave_count'' 0) (\<lambda>autosave_count.
           andthen (fact (get_int32 lib) facts ''body_chars'' 0) (\<lambda>body_chars.
             Inr (decided (3 \<le> autosave_count \<and> 0 < body_chars \<and> body_chars \<le> 160)
                   ''stuck_drafting_candidate_ready'' ''stuck_drafting_not_actionable'')))
         else if nc_kind c = ''git.push_failed_repeated'' then
           andthen (fact (get_int32 lib) facts ''failure_count'' 0) (\<lambda>failure_count.
           andthen (fact get_string facts ''latest_status'' []) (\<lambda>latest_status.
             Inr (decided (2 \<le> failure_count \<and> \<not> is_successful_push_status latest_status)
                   ''git_push_failure_candidate_ready'' ''git_push_failure_not_actionable'')))
         else if nc_kind c = ''card.title_suggestion'' then
           andthen (fact get_string facts ''title'' []) (\<lambda>title.
           andthen (fact get_bool facts ''body_empty'' True) (\<lambda>body_empty.
           andthen (fact (get_int32 lib) facts ''body_chars'' 0) (\<lambda>body_chars.
             Inr (decided (nc_card_id c \<noteq> None \<and> is_placeholder_title title \<and> \<not> body_empty \<and> 40 \<le> body_chars)
                   ''title_suggestion_candidate_ready'' ''title_suggestion_not_actionable''))))
         else Inr \<lparr>nd_accepted = False, nd_should_nudge = False, nd_reason = ''unknown_candidate_kind'', nd_nudge = None\<rparr>)"

definition build_nudge_title :: "candidate \<Rightarrow> string" where
  "build_nudge_title c =
     (if nc_kind c = ''card.title_only'' then ''Start this card''
      else if nc_kind c = ''card.stuck_drafting'' then ''Unstick this draft''
      else if nc_kind c = ''git.push_failed_repeated'' then ''Fix git push''
      else if nc_kind c = ''card.title_suggestion'' then ''Suggest a title''
      else ''Suggestion'')"

definition quote :: string where
  "quote = [CHR 0x22]"

definition build_nudge_body :: "candidate \<Rightarrow> string result" where
  "build_nudge_body c =
     (if nc_kind c = ''card.title_only'' then
        andthen (fact get_string (nc_facts c) ''title'' []) (\<lambda>title.
          Inr (''You named this card '' @ quote @ title @ quote @
               '' but it still only has a title. Draft an opening paragraph or a short outline next.''))
      else if nc_kind c = ''card.stuck_drafting'' then
        andthen (fact get_string (nc_facts c) ''title'' []) (\<lambda>title.
          Inr (''You have been editing '' @ quote @ title @ quote @
               '' for a while without getting far. Try writing three bullets first, then expand one.''))
      else if nc_kind c = ''git.push_failed_repeated'' then
        andthen (fact get_string (nc_facts c) ''latest_status'' []) (\<lambda>latest_status.
          Inr (''Git push is still failing ('' @ latest_status @ ''). Check auth or remote setup before trying again.''))
      else if nc_kind c = ''card.title_suggestion'' then Inr ''Pick a clearer title for this card.''
      else Inr ''No suggestion available.'')"

definition line :: "string \<Rightarrow> string" where
  "line s = s @ [newline]"

definition build_nudge_prompt :: "json_lib \<Rightarrow> candidate \<Rightarrow> string \<Rightarrow> string \<Rightarrow> string" where
  "build_nudge_prompt lib c deterministic_body context_summary =
     line ''Rewrite this app nudge for a local personal knowledge tool.'' @
     line ''Constraints:'' @
     line ''- Output exactly one short paragraph.'' @
     line ''- Keep it under 35 words.'' @
     line ''- Be concrete and helpful, not chatty.'' @
     line ''- Do not mention AI, models, or that this was rewritten.'' @
     line ''- Do not use markdown bullets.'' @
     line (''Candidate kind: '' @ nc_kind c) @
     line (''Facts: '' @ lib_dump lib (nc_facts c)) @
     (if context_summary \<noteq> [] then line ''Context:'' @ line context_summary else []) @
     line (''Fallback wording: '' @ deterministic_body) @
     ''Return only the rewritten body text.''"

text \<open>Fields are separated by newlines; a missing field is empty.\<close>

definition nudge_key :: "string \<Rightarrow> string \<Rightarrow> string option \<Rightarrow> string option \<Rightarrow> string option \<Rightarrow> string" where
  "nudge_key kind project card_id fingerprint commit =
     line kind @ line project @ line (or_empty card_id) @ line (or_empty fingerprint) @ or_empty commit"

definition build_nudge_id :: "candidate \<Rightarrow> string" where
  "build_nudge_id c =
     ''nudge-'' @ fnv1a_hex (nudge_key (nc_kind c) (nc_project_id c) (nc_card_id c) (nc_basis_fingerprint c) (nc_basis_commit c))"

subsection \<open>What the model is shown\<close>

definition truncate_for_prompt :: "string \<Rightarrow> nat \<Rightarrow> string" where
  "truncate_for_prompt text max_bytes = (if length text \<le> max_bytes then text else take max_bytes text)"

definition join_titles :: "string list \<Rightarrow> string" where
  "join_titles titles = (case titles of [] \<Rightarrow> [] | t # ts \<Rightarrow> foldl (\<lambda>out title. out @ ''; '' @ title) t ts)"

definition get_project :: "string \<Rightarrow> nudge_world \<Rightarrow> project option" where
  "get_project i w = find (\<lambda>p. p_id p = i) (nw_projects w)"

text \<open>The plain text of a card's file, where every failure is a missing value.\<close>

definition card_plain :: "nudge_env \<Rightarrow> nudge_world \<Rightarrow> string \<Rightarrow> string \<Rightarrow> string option" where
  "card_plain env w project_id card_id =
     (case (get_project project_id w, ne_card env card_id) of
        (Some p, Some c) \<Rightarrow>
          (case ne_read env (path_join (p_root p) (cr_rel_path c)) of
             None \<Rightarrow> None
           | Some raw \<Rightarrow>
               if p_privacy_mode p = ''encrypted_git'' then
                 (case p_key_id p of
                    None \<Rightarrow> None
                  | Some k \<Rightarrow>
                      if k = [] then None
                      else (case env_decrypt (ne_files env) (p_id p) k raw of Inl _ \<Rightarrow> None | Inr text \<Rightarrow> Some text))
               else Some raw)
      | _ \<Rightarrow> None)"

definition load_card_body :: "nudge_env \<Rightarrow> nudge_world \<Rightarrow> string \<Rightarrow> string \<Rightarrow> string option" where
  "load_card_body env w project_id card_id = map_option (ne_card_body env) (card_plain env w project_id card_id)"

definition siblings_of :: "nudge_env \<Rightarrow> string \<Rightarrow> card_row \<Rightarrow> card_row list" where
  "siblings_of env project_id c =
     (case cr_parent c of Some parent \<Rightarrow> ne_children env project_id parent | None \<Rightarrow> ne_roots env project_id)"

fun first_titles :: "string \<Rightarrow> card_row list \<Rightarrow> string list \<Rightarrow> string list" where
  "first_titles card_id [] titles = titles"
| "first_titles card_id (s # ss) titles =
     (if cr_id s = card_id \<or> cr_title s = [] then first_titles card_id ss titles
      else let titles = titles @ [cr_title s]
           in if 8 \<le> length titles then titles else first_titles card_id ss titles)"

definition sibling_card_titles :: "nudge_env \<Rightarrow> string \<Rightarrow> string \<Rightarrow> string list" where
  "sibling_card_titles env project_id card_id =
     (case ne_card env card_id of None \<Rightarrow> [] | Some c \<Rightarrow> first_titles card_id (siblings_of env project_id c) [])"

definition parent_card :: "nudge_env \<Rightarrow> string \<Rightarrow> card_row option" where
  "parent_card env card_id = Option.bind (ne_card env card_id) (\<lambda>c. Option.bind (cr_parent c) (ne_card env))"

definition sibling_cards :: "nudge_env \<Rightarrow> string \<Rightarrow> string \<Rightarrow> card_row list" where
  "sibling_cards env project_id card_id =
     (case ne_card env card_id of
        None \<Rightarrow> []
      | Some c \<Rightarrow> filter (\<lambda>s. cr_id s \<noteq> card_id) (siblings_of env project_id c))"

definition card_excerpt_line :: "nudge_env \<Rightarrow> nudge_world \<Rightarrow> string \<Rightarrow> card_row \<Rightarrow> string" where
  "card_excerpt_line env w project_id c =
     (case load_card_body env w project_id (cr_id c) of
        None \<Rightarrow> []
      | Some body \<Rightarrow>
          let text = trim_ascii body in if text = [] then [] else cr_title c @ '': '' @ truncate_for_prompt text 180)"

text \<open>The loop that both lists of excerpts share: non-empty lines until the limit is reached.\<close>

fun take_excerpts :: "(card_row \<Rightarrow> string) \<Rightarrow> nat \<Rightarrow> card_row list \<Rightarrow> string list \<Rightarrow> string list" where
  "take_excerpts excerpt limit [] excerpts = excerpts"
| "take_excerpts excerpt limit (c # cs) excerpts =
     (if excerpt c = [] then take_excerpts excerpt limit cs excerpts
      else let excerpts = excerpts @ [excerpt c]
           in if limit \<le> length excerpts then excerpts else take_excerpts excerpt limit cs excerpts)"

definition sibling_card_excerpts :: "nudge_env \<Rightarrow> nudge_world \<Rightarrow> string \<Rightarrow> string \<Rightarrow> nat \<Rightarrow> string list" where
  "sibling_card_excerpts env w project_id card_id limit =
     take_excerpts (card_excerpt_line env w project_id) limit (sibling_cards env project_id card_id) []"

text \<open>\<open>std::sort\<close> by falling \<open>updated_at\<close>; cards of the same time keep their order here.\<close>

definition recent_project_card_excerpts ::
  "nudge_env \<Rightarrow> nudge_world \<Rightarrow> string \<Rightarrow> string option \<Rightarrow> nat \<Rightarrow> string list" where
  "recent_project_card_excerpts env w project_id exclude_card_id limit =
     take_excerpts (card_excerpt_line env w project_id) limit
       (filter (\<lambda>c. exclude_card_id \<noteq> Some (cr_id c)) (sort_key (\<lambda>c. - cr_updated_at c) (ne_all env project_id))) []"

definition selected_thread :: "thread list \<Rightarrow> string option \<Rightarrow> thread option" where
  "selected_thread threads card_id =
     (case (case card_id of None \<Rightarrow> None | Some i \<Rightarrow> find (\<lambda>t. th_card_id t = Some i) threads) of
        Some t \<Rightarrow> Some t
      | None \<Rightarrow> (case threads of [] \<Rightarrow> None | t # _ \<Rightarrow> Some t))"

definition message_line :: "message \<Rightarrow> string" where
  "message_line m =
     line ((if ms_role m = ''assistant'' then ''Assistant'' else ''User'') @ '': '' @
           truncate_for_prompt (trim_ascii (ms_content m)) 220)"

definition latest_ai_thread_excerpt :: "nudge_env \<Rightarrow> string \<Rightarrow> string option \<Rightarrow> string option" where
  "latest_ai_thread_excerpt env project_id card_id =
     (case selected_thread (ne_threads env project_id) card_id of
        None \<Rightarrow> None
      | Some t \<Rightarrow>
          let messages = ne_messages env (th_id t)
          in if messages = [] then None
             else Some (trim_ascii (concat (map message_line (drop (length messages - 4) messages)))))"

definition excerpt_block :: "string \<Rightarrow> string list \<Rightarrow> string" where
  "excerpt_block heading excerpts =
     (if excerpts = [] then [] else line heading @ concat (map (\<lambda>e. line (''- '' @ e)) excerpts))"

definition card_context :: "nudge_env \<Rightarrow> nudge_world \<Rightarrow> candidate \<Rightarrow> string \<Rightarrow> string \<Rightarrow> string" where
  "card_context env w c card_id title =
     (let project_id = nc_project_id c;
          trimmed_body = (case load_card_body env w project_id card_id of None \<Rightarrow> [] | Some b \<Rightarrow> trim_ascii b);
          siblings = sibling_card_titles env project_id card_id
      in (if title \<noteq> [] then line (''Current card title: '' @ title) else []) @
         (if trimmed_body \<noteq> [] then line ''Current card body:'' @ line (truncate_for_prompt trimmed_body 700) else []) @
         (if siblings \<noteq> [] then line (''Sibling cards: '' @ join_titles siblings) else []) @
         (if nc_kind c = ''card.title_only'' \<and> trimmed_body = [] then
            (case parent_card env card_id of
               None \<Rightarrow> []
             | Some parent \<Rightarrow>
                 line (''Parent card title: '' @ cr_title parent) @
                 (case load_card_body env w project_id (cr_id parent) of
                    None \<Rightarrow> []
                  | Some b \<Rightarrow>
                      if trim_ascii b \<noteq> [] then line (''Parent card excerpt: '' @ truncate_for_prompt (trim_ascii b) 220)
                      else [])) @
            excerpt_block ''Sibling card excerpts:'' (sibling_card_excerpts env w project_id card_id 4) @
            excerpt_block ''Recent project card excerpts:''
              (recent_project_card_excerpts env w project_id (nc_card_id c) 4)
          else []))"

definition build_nudge_context_summary :: "nudge_env \<Rightarrow> nudge_world \<Rightarrow> candidate \<Rightarrow> string result" where
  "build_nudge_context_summary env w c =
     andthen (case nc_card_id c of
                None \<Rightarrow> Inr []
              | Some card_id \<Rightarrow>
                  andthen (fact get_string (nc_facts c) ''title'' []) (\<lambda>title. Inr (card_context env w c card_id title)))
       (\<lambda>out. Inr (trim_ascii (out @
          (case latest_ai_thread_excerpt env (nc_project_id c) (nc_card_id c) of
             None \<Rightarrow> []
           | Some excerpt \<Rightarrow> line ''Recent AI thread:'' @ line excerpt))))"

subsection \<open>Asking a local model\<close>

definition configured_target :: "nudge_env \<Rightarrow> (model_ref \<times> client) option" where
  "configured_target env =
     (case (ne_registry env, ne_config env) of
        (Some rr, Inr cfg) \<Rightarrow>
          (case resolve_configured_runner_model (Option.bind cfg lc_fast) (Some (get_client rr)) of
             None \<Rightarrow> None
           | Some (ref, client) \<Rightarrow>
               let (available, models) = ne_status env client
               in if available \<and> mr_model_name ref \<in> set (map lm_name models) then Some (ref, client) else None)
      | _ \<Rightarrow> None)"

definition pick_local_model_for_nudges :: "nudge_env \<Rightarrow> (model_ref \<times> client) option" where
  "pick_local_model_for_nudges env =
     (case configured_target env of
        Some target \<Rightarrow> Some target
      | None \<Rightarrow>
          (case Option.bind (ne_registry env) (\<lambda>rr. get_client rr kAutoLocalRunnerId) of
             None \<Rightarrow> None
           | Some runner \<Rightarrow>
               let (available, models) = ne_status env runner
               in if \<not> available then None
                  else (case models of
                          [] \<Rightarrow> None
                        | m # ms \<Rightarrow>
                            let best = foldl smaller_model m ms
                            in if lm_name best = [] then None
                               else Some (\<lparr>mr_runner_id = kAutoLocalRunnerId, mr_model_name = lm_name best\<rparr>, runner))))"

definition title_prompt :: "string \<Rightarrow> string \<Rightarrow> string" where
  "title_prompt title body =
     line ''Suggest exactly three concise human-readable titles for this card.'' @
     line ''Constraints:'' @
     line ''- Output only a JSON array of exactly three strings.'' @
     line ''- Each title must be under 60 characters.'' @
     line ''- Do not include numbering, markdown, explanations, or quotes outside JSON.'' @
     line ''- Do not use Untitled.'' @
     line (''Current title: '' @ title) @
     line ''Card body:'' @ line (truncate_for_prompt (trim_ascii body) 1200)"

definition merged_suggestions :: "string list \<Rightarrow> string list \<Rightarrow> string list" where
  "merged_suggestions parsed suggestions =
     (let parsed = foldl add_unique_title parsed suggestions
      in if 3 \<le> length parsed then take 3 parsed else suggestions)"

definition suggested_titles :: "nudge_env \<Rightarrow> candidate \<Rightarrow> string \<Rightarrow> string list \<Rightarrow> string list result" where
  "suggested_titles env c body suggestions =
     (case pick_local_model_for_nudges env of
        None \<Rightarrow> Inr suggestions
      | Some (ref, client) \<Rightarrow>
          andthen (fact get_string (nc_facts c) ''title'' []) (\<lambda>title.
            case ne_generate env client (mr_model_name ref) (title_prompt title body) of
              None \<Rightarrow> Inr suggestions
            | Some generated \<Rightarrow>
                Inr (merged_suggestions (parse_title_suggestions (ne_lib env) generated) suggestions)))"

definition body_or_empty :: "nudge_env \<Rightarrow> nudge_world \<Rightarrow> candidate \<Rightarrow> string \<Rightarrow> string" where
  "body_or_empty env w c card_id = or_empty (load_card_body env w (nc_project_id c) card_id)"

text \<open>\<open>None\<close> if the loop over the titles does not end.\<close>

definition build_nudge_meta_json :: "nudge_env \<Rightarrow> nudge_world \<Rightarrow> candidate \<Rightarrow> json result option" where
  "build_nudge_meta_json env w c =
     (if nc_kind c \<noteq> ''card.title_suggestion'' then Some (Inr (JObj []))
      else case nc_card_id c of
        None \<Rightarrow> Some (Inr (JObj []))
      | Some card_id \<Rightarrow>
          (case deterministic_title_suggestions (body_or_empty env w c card_id) of
             None \<Rightarrow> None
           | Some suggestions \<Rightarrow>
               Some (andthen (suggested_titles env c (body_or_empty env w c card_id) suggestions)
                 (\<lambda>titles. Inr (JObj [(''suggestions'', JArr (map JStr titles))])))))"

text \<open>Phrases of the prompt; an answer that repeats one is not shown.\<close>

definition prompt_phrases :: "string list" where
  "prompt_phrases = [''current card'', ''sibling cards'', ''recent ai thread'', ''recent project card excerpts'',
     ''parent card'', ''fallback wording'', ''candidate kind'', ''facts:'', [newline], ''#'']"

definition usable_answer :: "string \<Rightarrow> bool" where
  "usable_answer trimmed \<longleftrightarrow>
     trimmed \<noteq> [] \<and> length trimmed \<le> 240 \<and>
     (\<forall>phrase \<in> set prompt_phrases. find_str phrase (lowercase_ascii trimmed) = None) \<and>
     last trimmed \<noteq> CHR 0x22"

definition build_nudge_body_with_runner :: "nudge_env \<Rightarrow> nudge_world \<Rightarrow> candidate \<Rightarrow> string result" where
  "build_nudge_body_with_runner env w c =
     andthen (build_nudge_body c) (\<lambda>deterministic.
       if nc_kind c = ''card.title_suggestion'' then Inr deterministic
       else case pick_local_model_for_nudges env of
         None \<Rightarrow> Inr deterministic
       | Some (ref, client) \<Rightarrow>
           andthen (build_nudge_context_summary env w c) (\<lambda>summary.
             case ne_generate env client (mr_model_name ref) (build_nudge_prompt (ne_lib env) c deterministic summary) of
               None \<Rightarrow> Inr deterministic
             | Some generated \<Rightarrow>
                 let trimmed = trim_ascii generated in Inr (if usable_answer trimmed then trimmed else deterministic)))"

subsection \<open>Durable dismissals\<close>

definition nudge_path :: "string \<Rightarrow> string list result" where
  "nudge_path nudge_id = sharded_path ''ai_nudge_dismissals'' ''nudge_id too short for tombstone path'' nudge_id"

definition nudge_as_json :: "json_lib \<Rightarrow> nudge_row \<Rightarrow> json result" where
  "nudge_as_json lib r =
     (case lib_parse lib (nr_meta_json r) of
        None \<Rightarrow> Inl JsonParseError
      | Some meta \<Rightarrow> Inr (json_object
          [(''version'', JInt 1), (''nudge_id'', JStr (nr_id r)), (''kind'', JStr (nr_kind r)),
           (''project_id'', JStr (nr_project_id r)), (''card_id'', opt_json (nr_card_id r)), (''title'', JStr (nr_title r)),
           (''body'', JStr (nr_body r)), (''meta_json'', meta),
           (''basis_fingerprint'', opt_json (nr_basis_fingerprint r)), (''basis_commit'', opt_json (nr_basis_commit r)),
           (''created_at'', JInt (nr_created_at r)),
           (''dismissed_at'', JInt (case nr_dismissed_at r of None \<Rightarrow> 0 | Some t \<Rightarrow> t))]))"

definition null_or_string :: "json \<Rightarrow> string \<Rightarrow> string option result" where
  "null_or_string body k =
     andthen (json_at body k) (\<lambda>v. if v = JNull then Inr None else andthen (get_string v) (\<lambda>s. Inr (Some s)))"

definition nudge_from_json :: "json_lib \<Rightarrow> json \<Rightarrow> nudge_row result" where
  "nudge_from_json lib body =
     andthen (fact (get_int32 lib) body ''version'' 0) (\<lambda>version.
     if version \<noteq> 1 then Inl (RuntimeError ''unsupported AI nudge dismissal version'')
     else
     andthen (andthen (json_at body ''nudge_id'') get_string) (\<lambda>nudge_id.
     andthen (andthen (json_at body ''kind'') get_string) (\<lambda>kind.
     andthen (andthen (json_at body ''project_id'') get_string) (\<lambda>project_id.
     andthen (null_or_string body ''card_id'') (\<lambda>card_id.
     andthen (andthen (json_at body ''title'') get_string) (\<lambda>title.
     andthen (andthen (json_at body ''body'') get_string) (\<lambda>nudge_body.
     andthen (json_at body ''meta_json'') (\<lambda>meta.
     andthen (null_or_string body ''basis_fingerprint'') (\<lambda>fingerprint.
     andthen (null_or_string body ''basis_commit'') (\<lambda>commit.
     andthen (andthen (json_at body ''created_at'') (get_int lib)) (\<lambda>created_at.
     andthen (andthen (json_at body ''dismissed_at'') (get_int lib)) (\<lambda>dismissed_at.
       if nudge_id = [] \<or> kind = [] \<or> project_id = [] \<or> dismissed_at \<le> 0
       then Inl (RuntimeError ''invalid AI nudge dismissal'')
       else Inr \<lparr>nr_id = nudge_id, nr_kind = kind, nr_project_id = project_id, nr_card_id = card_id, nr_title = title,
                 nr_body = nudge_body, nr_meta_json = lib_dump lib meta, nr_basis_fingerprint = fingerprint,
                 nr_basis_commit = commit, nr_created_at = created_at, nr_dismissed_at = Some dismissed_at\<rparr>))))))))))))"

definition encode_nudge :: "json_lib \<Rightarrow> state_env \<Rightarrow> project \<Rightarrow> nudge_row \<Rightarrow> string result" where
  "encode_nudge lib env p r =
     andthen (nudge_as_json lib r) (\<lambda>j. encode_blob env ''nudge dismissal'' p (lib_dump2 lib j @ [newline]))"

definition decode_nudge :: "json_lib \<Rightarrow> state_env \<Rightarrow> project \<Rightarrow> string \<Rightarrow> nudge_row result" where
  "decode_nudge lib env p raw =
     andthen (decode_blob env ''nudge dismissal'' p raw) (\<lambda>text.
       case lib_parse lib text of None \<Rightarrow> Inl JsonParseError | Some body \<Rightarrow> nudge_from_json lib body)"

definition find_dismissed :: "nudge_world \<Rightarrow> string \<Rightarrow> nudge_row option" where
  "find_dismissed w nudge_id =
     (case map_of (nw_table w) (c_str nudge_id) of
        None \<Rightarrow> None
      | Some r \<Rightarrow> if nr_dismissed_at r = None then None else Some r)"

text \<open>What binding the texts of a row with \<open>c_str()\<close> stores.\<close>

definition stored_row :: "nudge_row \<Rightarrow> nudge_row" where
  "stored_row r = r\<lparr>nr_id := c_str (nr_id r), nr_kind := c_str (nr_kind r), nr_project_id := c_str (nr_project_id r),
     nr_card_id := map_option c_str (nr_card_id r), nr_title := c_str (nr_title r), nr_body := c_str (nr_body r),
     nr_meta_json := c_str (nr_meta_json r), nr_basis_fingerprint := map_option c_str (nr_basis_fingerprint r),
     nr_basis_commit := map_option c_str (nr_basis_commit r)\<rparr>"

definition insert_dismissed :: "nudge_row \<Rightarrow> nudge_world \<Rightarrow> nudge_world" where
  "insert_dismissed r w = w\<lparr>nw_table := AList.update (nr_id (stored_row r)) (stored_row r) (nw_table w)\<rparr>"

definition persist_nudge_dismissal :: "nudge_env \<Rightarrow> string \<Rightarrow> nudge_world \<Rightarrow> bool result \<times> nudge_world" where
  "persist_nudge_dismissal env nudge_id w =
     (case find_dismissed w nudge_id of
        None \<Rightarrow> (Inr False, w)
      | Some r \<Rightarrow>
          case get_project (nr_project_id r) w of
            None \<Rightarrow> (Inl (RuntimeError ''project missing for nudge dismissal''), w)
          | Some p \<Rightarrow>
              if \<not> nw_manifest w (p_root p) then (Inr False, w)
              else case andthen (nudge_path nudge_id) (\<lambda>path.
                          andthen (encode_nudge (ne_lib env) (ne_files env) p r) (\<lambda>content.
                            env_write (ne_files env) path content (nw_trees w (p_root p)))) of
                     Inl e \<Rightarrow> (Inl e, w)
                   | Inr tree \<Rightarrow> (Inr True, w\<lparr>nw_trees := (nw_trees w)(p_root p := tree)\<rparr>))"

definition dismissed_ids :: "nudge_world \<Rightarrow> string list" where
  "dismissed_ids w = sort (map fst (filter (\<lambda>e. nr_dismissed_at (snd e) \<noteq> None) (nw_table w)))"

fun backfill_ids :: "nudge_env \<Rightarrow> string list \<Rightarrow> nat \<Rightarrow> nudge_world \<Rightarrow> nat result \<times> nudge_world" where
  "backfill_ids env [] n w = (Inr n, w)"
| "backfill_ids env (i # is) n w =
     (case find_dismissed w i of
        None \<Rightarrow> backfill_ids env is n w
      | Some r \<Rightarrow>
          case get_project (nr_project_id r) w of
            None \<Rightarrow> backfill_ids env is n w
          | Some p \<Rightarrow>
              case nudge_path i of
                Inl e \<Rightarrow> (Inl e, w)
              | Inr path \<Rightarrow>
                  if map_of (nw_trees w (p_root p)) path \<noteq> None then backfill_ids env is n w
                  else case persist_nudge_dismissal env i w of
                         (Inl e, w') \<Rightarrow> (Inl e, w')
                       | (Inr b, w') \<Rightarrow> backfill_ids env is (if b then Suc n else n) w')"

definition backfill_nudge_dismissals :: "nudge_env \<Rightarrow> nudge_world \<Rightarrow> nat result \<times> nudge_world" where
  "backfill_nudge_dismissals env w = backfill_ids env (dismissed_ids w) 0 w"

definition is_dismissal_file :: "string list \<Rightarrow> bool" where
  "is_dismissal_file path = is_copy_file ''ai_nudge_dismissals'' path"

definition restore_dismissal ::
  "nudge_env \<Rightarrow> project \<Rightarrow> string list \<times> string \<Rightarrow> nudge_world \<Rightarrow> unit result \<times> nudge_world" where
  "restore_dismissal env p entry w =
     (case decode_nudge (ne_lib env) (ne_files env) p (snd entry) of
        Inl e \<Rightarrow> (Inl e, w)
      | Inr r \<Rightarrow>
          if nr_project_id r \<noteq> p_id p \<or> last (fst entry) \<noteq> nr_id r @ ''.json''
          then (Inl (RuntimeError ''nudge dismissal path or project mismatch''), w)
          else (Inr (), insert_dismissed r w))"

fun restore_dismissals_in ::
  "nudge_env \<Rightarrow> project \<Rightarrow> worktree \<Rightarrow> nat \<Rightarrow> nudge_world \<Rightarrow> nat result \<times> nudge_world" where
  "restore_dismissals_in env p [] n w = (Inr n, w)"
| "restore_dismissals_in env p (e # es) n w =
     (if \<not> is_dismissal_file (fst e) then restore_dismissals_in env p es n w
      else case restore_dismissal env p e w of
             (Inl x, w') \<Rightarrow> (Inl x, w')
           | (Inr _, w') \<Rightarrow> restore_dismissals_in env p es (Suc n) w')"

fun restore_dismissals_of :: "nudge_env \<Rightarrow> project list \<Rightarrow> nat \<Rightarrow> nudge_world \<Rightarrow> nat result \<times> nudge_world" where
  "restore_dismissals_of env [] n w = (Inr n, w)"
| "restore_dismissals_of env (p # ps) n w =
     (case restore_dismissals_in env p (nw_trees w (p_root p)) n w of
        (Inl x, w') \<Rightarrow> (Inl x, w')
      | (Inr n', w') \<Rightarrow> restore_dismissals_of env ps n' w')"

definition restore_nudge_dismissals :: "nudge_env \<Rightarrow> nudge_world \<Rightarrow> nat result \<times> nudge_world" where
  "restore_nudge_dismissals env w = restore_dismissals_of env (nw_projects w) 0 w"

definition joined_dismissals :: "nudge_world \<Rightarrow> (string \<times> string) list" where
  "joined_dismissals w =
     List.map_filter (\<lambda>i. map_option (\<lambda>p. (i, p_root p))
         (Option.bind (map_of (nw_table w) i) (\<lambda>r. get_project (nr_project_id r) w)))
       (dismissed_ids w)"

definition all_nudge_dismissals_are_durable :: "nudge_world \<Rightarrow> bool result" where
  "all_nudge_dismissals_are_durable w = rows_durable nudge_path (nw_trees w) (joined_dismissals w)"

subsection \<open>The table\<close>

definition row_of_nudge :: "json_lib \<Rightarrow> nudge \<Rightarrow> nudge_row" where
  "row_of_nudge lib n = stored_row
     \<lparr>nr_id = ng_id n, nr_kind = ng_kind n, nr_project_id = ng_project_id n, nr_card_id = ng_card_id n,
      nr_title = ng_title n, nr_body = ng_body n,
      nr_meta_json = (if ng_meta_json n = JNull then ''{}'' else lib_dump lib (ng_meta_json n)),
      nr_basis_fingerprint = ng_basis_fingerprint n, nr_basis_commit = ng_basis_commit n,
      nr_created_at = ng_created_at n, nr_dismissed_at = None\<rparr>"

definition row_to_nudge :: "json_lib \<Rightarrow> nudge_row \<Rightarrow> nudge result" where
  "row_to_nudge lib r =
     andthen (if nr_meta_json r = [] then Inr (JObj [])
              else case lib_parse lib (nr_meta_json r) of None \<Rightarrow> Inl JsonParseError | Some j \<Rightarrow> Inr j) (\<lambda>meta.
       Inr \<lparr>ng_id = nr_id r, ng_kind = nr_kind r, ng_project_id = nr_project_id r, ng_card_id = nr_card_id r,
            ng_title = nr_title r, ng_body = nr_body r, ng_meta_json = meta,
            ng_basis_fingerprint = nr_basis_fingerprint r, ng_basis_commit = nr_basis_commit r,
            ng_created_at = nr_created_at r, ng_dismissed = (nr_dismissed_at r \<noteq> None)\<rparr>)"

definition nudge_create :: "json_lib \<Rightarrow> nudge \<Rightarrow> nudge_world \<Rightarrow> unit result \<times> nudge_world" where
  "nudge_create lib n w =
     (let r = row_of_nudge lib n
      in if map_of (nw_table w) (nr_id r) \<noteq> None then (Inl (RuntimeError ''insert ai_nudge failed''), w)
         else (Inr (), w\<lparr>nw_table := nw_table w @ [(nr_id r, r)]\<rparr>))"

definition find_by_id :: "json_lib \<Rightarrow> string \<Rightarrow> nudge_world \<Rightarrow> nudge option result" where
  "find_by_id lib nudge_id w =
     (case map_of (nw_table w) (c_str nudge_id) of
        None \<Rightarrow> Inr None
      | Some r \<Rightarrow> andthen (row_to_nudge lib r) (\<lambda>n. Inr (Some n)))"

definition create_or_get :: "json_lib \<Rightarrow> nudge \<Rightarrow> nudge_world \<Rightarrow> nudge result \<times> nudge_world" where
  "create_or_get lib n w =
     (let r = row_of_nudge lib n;
          w' = (if map_of (nw_table w) (nr_id r) \<noteq> None then w else w\<lparr>nw_table := nw_table w @ [(nr_id r, r)]\<rparr>)
      in (andthen (find_by_id lib (ng_id n) w') (\<lambda>stored.
            case stored of
              None \<Rightarrow> Inl (RuntimeError ''insert ai_nudge failed: row not found after insert'')
            | Some s \<Rightarrow> Inr s), w'))"

definition same_subject :: "string \<Rightarrow> string \<Rightarrow> string option \<Rightarrow> nudge_row \<Rightarrow> bool" where
  "same_subject kind project_id card_id r \<longleftrightarrow>
     nr_kind r = c_str kind \<and> nr_project_id r = c_str project_id \<and> nr_card_id r = map_option c_str card_id"

definition same_basis :: "string option \<Rightarrow> string option \<Rightarrow> nudge_row \<Rightarrow> bool" where
  "same_basis fingerprint commit r \<longleftrightarrow>
     nr_basis_fingerprint r = map_option c_str fingerprint \<and> nr_basis_commit r = map_option c_str commit"

definition find_active_exact_match ::
  "json_lib \<Rightarrow> string \<Rightarrow> string \<Rightarrow> string option \<Rightarrow> string option \<Rightarrow> string option \<Rightarrow> nudge_world \<Rightarrow> nudge option result" where
  "find_active_exact_match lib kind project_id card_id fingerprint commit w =
     (case filter (\<lambda>r. same_subject kind project_id card_id r \<and> same_basis fingerprint commit r \<and> nr_dismissed_at r = None)
             (map snd (nw_table w)) of
        [] \<Rightarrow> Inr None
      | r # _ \<Rightarrow> andthen (row_to_nudge lib r) (\<lambda>n. Inr (Some n)))"

fun rows_to_nudges :: "json_lib \<Rightarrow> nudge_row list \<Rightarrow> nudge list result" where
  "rows_to_nudges lib [] = Inr []"
| "rows_to_nudges lib (r # rs) = andthen (row_to_nudge lib r) (\<lambda>n. andthen (rows_to_nudges lib rs) (\<lambda>ns. Inr (n # ns)))"

definition list_active :: "json_lib \<Rightarrow> string \<Rightarrow> string option \<Rightarrow> nudge_world \<Rightarrow> nudge list result" where
  "list_active lib project_id card_id w =
     rows_to_nudges lib (sort_key (\<lambda>r. - nr_created_at r)
       (filter (\<lambda>r. nr_project_id r = c_str project_id \<and> nr_dismissed_at r = None \<and>
                 (nr_card_id r = None \<or> (card_id \<noteq> None \<and> nr_card_id r = map_option c_str card_id)))
         (map snd (nw_table w))))"

definition dismiss_rows :: "int \<Rightarrow> (nudge_row \<Rightarrow> bool) \<Rightarrow> nudge_world \<Rightarrow> nudge_world" where
  "dismiss_rows now sel w =
     w\<lparr>nw_table := map (\<lambda>(i, r). (i, if sel r \<and> nr_dismissed_at r = None then r\<lparr>nr_dismissed_at := Some now\<rparr> else r)) (nw_table w)\<rparr>"

definition dismiss_stale_variants ::
  "nudge_env \<Rightarrow> int \<Rightarrow> string \<Rightarrow> string \<Rightarrow> string option \<Rightarrow> string option \<Rightarrow> string option \<Rightarrow> nudge_world \<Rightarrow>
     unit result \<times> nudge_world" where
  "dismiss_stale_variants env now kind project_id card_id fingerprint commit w =
     (case backfill_nudge_dismissals env
             (dismiss_rows now (\<lambda>r. same_subject kind project_id card_id r \<and> \<not> same_basis fingerprint commit r) w) of
        (Inl e, w') \<Rightarrow> (Inl e, w')
      | (Inr _, w') \<Rightarrow> (Inr (), w'))"

definition nudge_dismiss :: "nudge_env \<Rightarrow> int \<Rightarrow> string \<Rightarrow> nudge_world \<Rightarrow> bool result \<times> nudge_world" where
  "nudge_dismiss env now nudge_id w =
     (let changed = (case map_of (nw_table w) (c_str nudge_id) of None \<Rightarrow> False | Some r \<Rightarrow> nr_dismissed_at r = None);
          w1 = dismiss_rows now (\<lambda>r. nr_id r = c_str nudge_id) w
      in if changed then
           (case persist_nudge_dismissal env nudge_id w1 of
              (Inl e, w') \<Rightarrow> (Inl e, w')
            | (Inr _, w') \<Rightarrow> (Inr True, w'))
         else (Inr False, w1))"

subsection \<open>The service\<close>

definition hex_byte :: "nat \<Rightarrow> string" where
  "hex_byte b = [hex_char (b div 16 mod 16), hex_char (b mod 16)]"

definition short_content_fingerprint :: "nudge_env \<Rightarrow> string \<Rightarrow> string" where
  "short_content_fingerprint env content = concat (map hex_byte (take 6 (ne_sha256 env content)))"

definition current_card_fingerprint :: "nudge_env \<Rightarrow> nudge_world \<Rightarrow> string \<Rightarrow> string \<Rightarrow> string option" where
  "current_card_fingerprint env w project_id card_id =
     map_option (\<lambda>text. short_content_fingerprint env (ne_card_body env text)) (card_plain env w project_id card_id)"

text \<open>\<open>ne_head\<close> is libgit2's answer for a root: the hexadecimal id of the head, if there is one.\<close>

definition current_project_head_commit :: "nudge_env \<Rightarrow> nudge_world \<Rightarrow> string \<Rightarrow> string option" where
  "current_project_head_commit env w project_id =
     (case get_project project_id w of
        None \<Rightarrow> None
      | Some p \<Rightarrow> (case ne_head env (p_root p) of None \<Rightarrow> None | Some t \<Rightarrow> if t = [] then None else Some t))"

definition is_stale :: "nudge_env \<Rightarrow> nudge_world \<Rightarrow> nudge \<Rightarrow> bool" where
  "is_stale env w n =
     (let commit_stale = (case ng_basis_commit n of
                            None \<Rightarrow> False
                          | Some b \<Rightarrow> (case current_project_head_commit env w (ng_project_id n) of None \<Rightarrow> False | Some c \<Rightarrow> c \<noteq> b))
      in case ng_basis_fingerprint n of
           None \<Rightarrow> commit_stale
         | Some f \<Rightarrow>
             (case ng_card_id n of
                None \<Rightarrow> False
              | Some card_id \<Rightarrow>
                  (case current_card_fingerprint env w (ng_project_id n) card_id of
                     Some c \<Rightarrow> if c \<noteq> f then True else commit_stale
                   | None \<Rightarrow> commit_stale)))"

definition record_nudge :: "nudge_env \<Rightarrow> candidate \<Rightarrow> decision \<Rightarrow> nudge_world \<Rightarrow> (decision result \<times> nudge_world) option" where
  "record_nudge env c d w =
     (case build_nudge_body_with_runner env w c of
        Inl e \<Rightarrow> Some (Inl e, w)
      | Inr body \<Rightarrow>
          (case build_nudge_meta_json env w c of
             None \<Rightarrow> None
           | Some (Inl e) \<Rightarrow> Some (Inl e, w)
           | Some (Inr meta) \<Rightarrow>
               (let n = \<lparr>ng_id = build_nudge_id c, ng_kind = nc_kind c, ng_project_id = nc_project_id c, ng_card_id = nc_card_id c,
                         ng_title = build_nudge_title c, ng_body = body, ng_meta_json = meta,
                         ng_basis_fingerprint = nc_basis_fingerprint c, ng_basis_commit = nc_basis_commit c,
                         ng_created_at = nc_created_at c, ng_dismissed = False\<rparr>
                in case create_or_get (ne_lib env) n w of
                     (Inl e, w') \<Rightarrow> Some (Inl e, w')
                   | (Inr stored, w') \<Rightarrow>
                       if ng_dismissed stored
                       then Some (Inr (d\<lparr>nd_should_nudge := False, nd_reason := ''nudge_already_dismissed'', nd_nudge := None\<rparr>), w')
                       else Some (Inr (d\<lparr>nd_nudge := Some stored\<rparr>), w'))))"

definition evaluate_and_record ::
  "nudge_env \<Rightarrow> int \<Rightarrow> candidate \<Rightarrow> nudge_world \<Rightarrow> (decision result \<times> nudge_world) option" where
  "evaluate_and_record env now c w =
     (case evaluate_candidate (ne_lib env) c of
        Inl e \<Rightarrow> Some (Inl e, w)
      | Inr d \<Rightarrow>
          if \<not> nd_accepted d \<or> \<not> nd_should_nudge d then Some (Inr d, w)
          else case find_active_exact_match (ne_lib env) (nc_kind c) (nc_project_id c) (nc_card_id c)
                      (nc_basis_fingerprint c) (nc_basis_commit c) w of
            Inl e \<Rightarrow> Some (Inl e, w)
          | Inr (Some n) \<Rightarrow> Some (Inr (d\<lparr>nd_nudge := Some n\<rparr>), w)
          | Inr None \<Rightarrow>
              (case dismiss_stale_variants env now (nc_kind c) (nc_project_id c) (nc_card_id c)
                      (nc_basis_fingerprint c) (nc_basis_commit c) w of
                 (Inl e, w') \<Rightarrow> Some (Inl e, w')
               | (Inr _, w') \<Rightarrow> record_nudge env c d w'))"

fun keep_fresh :: "nudge_env \<Rightarrow> int \<Rightarrow> nudge list \<Rightarrow> nudge_world \<Rightarrow> nudge list result \<times> nudge_world" where
  "keep_fresh env now [] w = (Inr [], w)"
| "keep_fresh env now (n # ns) w =
     (if is_stale env w n then
        (case nudge_dismiss env now (ng_id n) w of
           (Inl e, w') \<Rightarrow> (Inl e, w')
         | (Inr _, w') \<Rightarrow> keep_fresh env now ns w')
      else (case keep_fresh env now ns w of
              (Inl e, w') \<Rightarrow> (Inl e, w')
            | (Inr out, w') \<Rightarrow> (Inr (n # out), w')))"

definition nudge_list :: "nudge_env \<Rightarrow> int \<Rightarrow> string \<Rightarrow> string option \<Rightarrow> nudge_world \<Rightarrow> nudge list result \<times> nudge_world" where
  "nudge_list env now project_id card_id w =
     (case list_active (ne_lib env) project_id card_id w of
        Inl e \<Rightarrow> (Inl e, w)
      | Inr active \<Rightarrow> keep_fresh env now active w)"

end
