(* ===== verification/System.thy ===== *)
theory System
  imports Main
begin

text \<open>
  The contracts of the step relations that model threads. A \<open>step_system\<close> has an invariant that
  every step keeps; a \<open>draining_system\<close> moreover lowers a natural number at every step and is
  stuck only where its work is done. The listener, the event stream and the serial executor are
  instances; what their clients use is proved here once.
\<close>

locale step_system =
  fixes move :: "'s \<Rightarrow> 's \<Rightarrow> bool"
    and inv :: "'s \<Rightarrow> bool"
  assumes kept: "move s t \<Longrightarrow> inv s \<Longrightarrow> inv t"
begin

lemma run_keeps: "move\<^sup>*\<^sup>* s t \<Longrightarrow> inv s \<Longrightarrow> inv t"
  by (induction rule: rtranclp_induct) (simp_all add: kept)

text \<open>A quantity that no step raises is not raised by a run either.\<close>

lemma run_monotone:
  assumes "move\<^sup>*\<^sup>* s t" and "inv s" and "\<And>a b. inv a \<Longrightarrow> move a b \<Longrightarrow> (f b :: 'o :: order) \<le> f a"
  shows "f t \<le> f s"
  using assms(1)
proof (induction rule: rtranclp_induct)
  case (step a b)
  then have "f b \<le> f a" using assms(2,3) run_keeps by blast
  then show ?case using step by simp
qed simp

end

locale draining_system = step_system +
  fixes load :: "'s \<Rightarrow> nat"
    and final :: "'s \<Rightarrow> bool"
  assumes lowers: "inv s \<Longrightarrow> move s t \<Longrightarrow> load t < load s"
    and not_stuck: "inv s \<Longrightarrow> \<not> final s \<Longrightarrow> \<exists>t. move s t"
begin

text \<open>Every schedule ends within \<open>load\<close> steps, and where it ends the work is done.\<close>

lemma run_length: "(move ^^ n) s t \<Longrightarrow> inv s \<Longrightarrow> n + load t \<le> load s"
proof (induction n arbitrary: t)
  case (Suc n)
  then obtain u where u: "(move ^^ n) s u" "move u t" by auto
  then have "inv u" using Suc.prems(2) run_keeps by (meson relpowp_imp_rtranclp)
  then show ?case using Suc.IH [OF u(1) Suc.prems(2)] lowers [OF _ u(2)] by fastforce
qed simp

lemma finishes: "inv s \<Longrightarrow> \<exists>t. move\<^sup>*\<^sup>* s t \<and> final t"
proof (induction "load s" arbitrary: s rule: less_induct)
  case less
  show ?case
  proof (cases "final s")
    case False
    then obtain t where t: "move s t" using not_stuck less.prems by blast
    then show ?thesis
      using less.hyps [of t] lowers [OF less.prems t] kept [OF t less.prems] by (meson converse_rtranclp_into_rtranclp)
  qed blast
qed

lemma stuck_final: "inv s \<Longrightarrow> (\<And>t. \<not> move s t) \<Longrightarrow> final s"
  using not_stuck by blast

end

text \<open>The sum of a weight over the threads, and what one thread's move changes of it.\<close>

definition load_of :: "('t \<Rightarrow> nat) \<Rightarrow> 't list \<Rightarrow> nat" where
  "load_of f ts = sum_list (map f ts)"

lemma load_of_update: "i < length ts \<Longrightarrow> load_of f (ts[i := t]) + f (ts ! i) = load_of f ts + f t"
proof -
  assume i: "i < length ts"
  then have "ts = take i ts @ ts ! i # drop (Suc i) ts" by (rule id_take_nth_drop)
  then have "load_of f ts = load_of f (take i ts) + f (ts ! i) + load_of f (drop (Suc i) ts)"
    unfolding load_of_def by (metis add.assoc list.simps(9) map_append sum_list.Cons sum_list_append)
  then show ?thesis using i by (simp add: upd_conv_take_nth_drop load_of_def)
qed

lemma load_of_less: "i < length ts \<Longrightarrow> f t < f (ts ! i) \<Longrightarrow> load_of f (ts[i := t]) + (f (ts ! i) - f t) = load_of f ts"
  using load_of_update [of i ts f t] by simp

lemma load_of_more: "i < length ts \<Longrightarrow> f (ts ! i) \<le> f t \<Longrightarrow> load_of f (ts[i := t]) = load_of f ts + (f t - f (ts ! i))"
  using load_of_update [of i ts f t] by simp

lemma load_of_lowers: "i < length ts \<Longrightarrow> f t < f (ts ! i) \<Longrightarrow> load_of f (ts[i := t]) < load_of f ts"
  using load_of_update [of i ts f t] by simp

lemma load_of_simps [simp]:
  "load_of f [] = 0" "load_of f (t # ts) = f t + load_of f ts" "load_of f (ts @ us) = load_of f ts + load_of f us"
  by (simp_all add: load_of_def)

lemma member_le_load_of: "i < length ts \<Longrightarrow> f (ts ! i) \<le> load_of f ts"
  using elem_le_sum_list [of i "map f ts"] by (simp add: load_of_def)

end
