(* ===== verification/NudgeLaws.thy ===== *)
theory NudgeLaws
  imports Nudges System
begin

text \<open>
  What the nudge service keeps: the invariant of its table and of the dismissals in the work trees,
  that every operation keeps it, that a dismissal lasts, also across a rebuild of the database, and
  what the texts shown to the user can be.
\<close>

subsection \<open>Rows\<close>

abbreviation nul_free :: "string \<Rightarrow> bool" where
  "nul_free s \<equiv> CHR 0x00 \<notin> set s"

lemma nul_free_c_str [simp]: "nul_free (c_str s)"
  by (auto simp: c_str_def dest: set_takeWhileD)

lemma c_str_id [simp]: "nul_free s \<Longrightarrow> c_str s = s"
  by (rule c_str_plain)

lemma map_c_str_id [simp]: "(\<forall>s. v = Some s \<longrightarrow> nul_free s) \<Longrightarrow> map_option c_str v = v"
  by (cases v) auto

lemma stored_row_idem [simp]: "stored_row (stored_row r) = stored_row r"
  by (simp add: stored_row_def option.map_comp comp_def)

definition row_id :: "nudge_row \<Rightarrow> string" where
  "row_id r = ''nudge-'' @ fnv1a_hex (nudge_key (nr_kind r) (nr_project_id r) (nr_card_id r) (nr_basis_fingerprint r) (nr_basis_commit r))"

text \<open>
  A row as the service makes it. \<open>owners\<close> assigns every identifier its project: identifiers hash
  the project, so it exists unless hashes of different projects collide.
\<close>

definition nudge_ok :: "json_lib \<Rightarrow> (string \<Rightarrow> string option) \<Rightarrow> nudge_row \<Rightarrow> bool" where
  "nudge_ok lib owners r \<longleftrightarrow>
     nr_id r = row_id r \<and> nr_kind r \<noteq> [] \<and> nr_project_id r \<noteq> [] \<and> stored_row r = r \<and>
     owners (nr_id r) = Some (nr_project_id r) \<and> (\<exists>j. nr_meta_json r = lib_dump lib j) \<and>
     (\<forall>t. nr_dismissed_at r = Some t \<longrightarrow> 0 < t)"

definition table_ok :: "json_lib \<Rightarrow> (string \<Rightarrow> string option) \<Rightarrow> nudge_world \<Rightarrow> bool" where
  "table_ok lib owners w \<longleftrightarrow>
     distinct (map fst (nw_table w)) \<and> (\<forall>(i, r) \<in> set (nw_table w). i = nr_id r \<and> nudge_ok lib owners r)"

text \<open>What the service needs of the json package: parsing undoes printing, and printed text has no NUL.\<close>

definition lib_ok :: "json_lib \<Rightarrow> bool" where
  "lib_ok lib \<longleftrightarrow> (\<forall>j. lib_parse lib (lib_dump lib j) = Some j \<and>
     lib_parse lib (lib_dump2 lib j @ [newline]) = Some j \<and> nul_free (lib_dump lib j))"

lemma hex_char_nul_free: "n < 16 \<Longrightarrow> hex_char n \<noteq> CHR 0x00"
  unfolding hex_char_def
  by (simp add: numeral_eq_Suc less_Suc_eq) auto

lemma row_id_facts: "4 \<le> length (row_id r)" "nul_free (row_id r)"
proof -
  have "nul_free (to_hex16 n)" for n
    using hex_char_nul_free by (auto simp: to_hex16_def dest!: sym [where s = "CHR 0x00"])
  then show "nul_free (row_id r)" by (simp add: row_id_def fnv1a_hex_def)
qed (simp add: row_id_def)

lemma row_id_path: "\<exists>path. nudge_path (row_id r) = Inr path"
  using row_id_facts(1) [of r] by (simp add: nudge_path_def sharded_path_def)

lemma nudge_round_trip:
  assumes "lib_ok lib" and "nudge_ok lib owners r" and "nr_dismissed_at r = Some t"
    and "nudge_as_json lib r = Inr j"
  shows "nudge_from_json lib j = Inr r"
proof -
  obtain m where m: "nr_meta_json r = lib_dump lib m" "lib_parse lib (nr_meta_json r) = Some m"
    using assms(1,2) by (auto simp: nudge_ok_def lib_ok_def)
  have j: "j = json_object
          [(''version'', JInt 1), (''nudge_id'', JStr (nr_id r)), (''kind'', JStr (nr_kind r)),
           (''project_id'', JStr (nr_project_id r)), (''card_id'', opt_json (nr_card_id r)), (''title'', JStr (nr_title r)),
           (''body'', JStr (nr_body r)), (''meta_json'', m),
           (''basis_fingerprint'', opt_json (nr_basis_fingerprint r)), (''basis_commit'', opt_json (nr_basis_commit r)),
           (''created_at'', JInt (nr_created_at r)), (''dismissed_at'', JInt t)]"
    using assms(3,4) m(2) by (simp add: nudge_as_json_def)
  have o: "is_object j" by (simp add: j)
  have g: "json_get ''version'' j = Some (JInt 1)" "json_get ''nudge_id'' j = Some (JStr (nr_id r))"
    "json_get ''kind'' j = Some (JStr (nr_kind r))" "json_get ''project_id'' j = Some (JStr (nr_project_id r))"
    "json_get ''card_id'' j = Some (opt_json (nr_card_id r))" "json_get ''title'' j = Some (JStr (nr_title r))"
    "json_get ''body'' j = Some (JStr (nr_body r))" "json_get ''meta_json'' j = Some m"
    "json_get ''basis_fingerprint'' j = Some (opt_json (nr_basis_fingerprint r))"
    "json_get ''basis_commit'' j = Some (opt_json (nr_basis_commit r))"
    "json_get ''created_at'' j = Some (JInt (nr_created_at r))" "json_get ''dismissed_at'' j = Some (JInt t)"
    by (simp_all add: j json_get_object)
  have n: "json_get k j = Some (opt_json v) \<Longrightarrow> null_or_string j k = Inr v" for k v
    using o by (cases v) (simp_all add: null_or_string_def json_at_def opt_json_def)
  have ne: "nr_id r \<noteq> []" using assms(2) by (simp add: nudge_ok_def row_id_def)
  have v: "fact (get_int32 lib) j ''version'' 0 = Inr 1" using o g(1) by (simp add: fact_def get_int32_def to_int32_def)
  have at: "json_get k j = Some x \<Longrightarrow> json_at j k = Inr x" for k x using o by (simp add: json_at_def)
  show ?thesis
    unfolding nudge_from_json_def v at [OF g(2)] at [OF g(3)] at [OF g(4)] n [OF g(5)] at [OF g(6)] at [OF g(7)] at [OF g(8)]
      n [OF g(9)] n [OF g(10)] at [OF g(11)] at [OF g(12)]
    using assms(2,3) ne m(1) by (cases r) (simp add: nudge_ok_def)
qed

subsection \<open>The copies\<close>

text \<open>A dismissal file is good if it decodes to a row as the service makes them.\<close>

definition decode_good :: "nudge_env \<Rightarrow> (string \<Rightarrow> string option) \<Rightarrow> project \<Rightarrow> string \<Rightarrow> nudge_row result" where
  "decode_good env owners p raw =
     andthen (decode_nudge (ne_lib env) (ne_files env) p raw) (\<lambda>r.
       if nudge_ok (ne_lib env) owners r then Inr r else Inl (RuntimeError ''not a row of the service''))"

definition owner_of :: "(string \<Rightarrow> string option) \<Rightarrow> nudge_row \<Rightarrow> string option" where
  "owner_of owners r = (if owners (nr_id r) = Some (nr_project_id r) then Some (nr_project_id r) else None)"

interpretation nudge_copies: row_copies nr_id "\<lambda>r. nudge_path (nr_id r)" is_dismissal_file "owner_of owners" for owners
proof
  show "nudge_path (nr_id r) = Inr path \<Longrightarrow> is_dismissal_file path" for r path
    unfolding nudge_path_def is_dismissal_file_def by (simp add: sharded_path_file)
  show "nudge_path (nr_id r) = Inr path \<Longrightarrow> nudge_path (nr_id r') = Inr path \<longleftrightarrow> nr_id r' = nr_id r" for r r' path
    by (auto simp: nudge_path_def dest: sharded_path_inj)
  show "nr_id r' = nr_id r \<Longrightarrow> owner_of owners r = Some i \<Longrightarrow> owner_of owners r' = Some j \<Longrightarrow> i = j" for r r' i j
    by (auto simp: owner_of_def split: if_splits)
qed

definition files_ok :: "nudge_env \<Rightarrow> (string \<Rightarrow> string option) \<Rightarrow> nudge_world \<Rightarrow> bool" where
  "files_ok env owners w \<longleftrightarrow>
     trees_ok (\<lambda>r. nudge_path (nr_id r)) is_dismissal_file (decode_good env owners) (owner_of owners) (nw_projects w) (nw_trees w)"

definition nudges_ok :: "nudge_env \<Rightarrow> (string \<Rightarrow> string option) \<Rightarrow> nudge_world \<Rightarrow> bool" where
  "nudges_ok env owners w \<longleftrightarrow> table_ok (ne_lib env) owners w \<and> files_ok env owners w"

text \<open>What the service needs of other packages.\<close>

definition nudge_env_ok :: "nudge_env \<Rightarrow> bool" where
  "nudge_env_ok env \<longleftrightarrow> lib_ok (ne_lib env) \<and> env_ok (ne_files env)"

lemma decode_encode_nudge:
  assumes "nudge_env_ok env" and "nudge_ok (ne_lib env) owners r" and "nr_dismissed_at r = Some t"
    and "encode_nudge (ne_lib env) (ne_files env) p r = Inr c"
  shows "decode_good env owners p c = Inr r"
proof -
  obtain j where j: "nudge_as_json (ne_lib env) r = Inr j"
    "encode_blob (ne_files env) ''nudge dismissal'' p (lib_dump2 (ne_lib env) j @ [newline]) = Inr c"
    using assms(4) by (auto simp: encode_nudge_def andthen_eq_Inr)
  have "decode_blob (ne_files env) ''nudge dismissal'' p c = Inr (lib_dump2 (ne_lib env) j @ [newline])"
    by (rule decode_encode_blob [OF _ j(2)]) (use assms(1) in \<open>simp add: nudge_env_ok_def\<close>)
  moreover have "nudge_from_json (ne_lib env) j = Inr r"
    by (rule nudge_round_trip [OF _ assms(2,3) j(1)]) (use assms(1) in \<open>simp add: nudge_env_ok_def\<close>)
  ultimately show ?thesis
    using assms(1,2) by (simp add: decode_good_def decode_nudge_def nudge_env_ok_def lib_ok_def)
qed

lemma get_project_Some: "get_project i w = Some p \<Longrightarrow> p \<in> set (nw_projects w) \<and> p_id p = i"
  by (auto simp: get_project_def find_Some_iff)

lemma persist_frame:
  "nw_table (snd (persist_nudge_dismissal env i w)) = nw_table w"
  "nw_projects (snd (persist_nudge_dismissal env i w)) = nw_projects w"
  by (auto simp: persist_nudge_dismissal_def split: option.split sum.split)

lemma find_dismissed_ok:
  assumes "table_ok lib owners w" and "find_dismissed w i = Some r"
  shows "nudge_ok lib owners r \<and> nr_id r = c_str i \<and> (\<exists>t. nr_dismissed_at r = Some t)"
  using assms by (fastforce simp: find_dismissed_def table_ok_def split: option.splits if_splits dest: map_of_SomeD)

lemma nudge_ok_owner: "nudge_ok lib owners r \<Longrightarrow> owners (nr_id r) = Some (nr_project_id r)"
  unfolding nudge_ok_def by blast

lemma persist_keeps:
  assumes "nudge_env_ok env" and "nudges_ok env owners w" and "nul_free i"
  shows "nudges_ok env owners (snd (persist_nudge_dismissal env i w))"
proof (cases "fst (persist_nudge_dismissal env i w) = Inr True")
  case False
  then have "snd (persist_nudge_dismissal env i w) = w"
    by (auto simp: persist_nudge_dismissal_def split: option.splits sum.splits if_splits)
  then show ?thesis using assms(2) by simp
next
  case True
  then obtain r p path c tree where r: "find_dismissed w i = Some r" and p: "get_project (nr_project_id r) w = Some p"
    and w: "nudge_path i = Inr path" "encode_nudge (ne_lib env) (ne_files env) p r = Inr c"
      "env_write (ne_files env) path c (nw_trees w (p_root p)) = Inr tree"
      "snd (persist_nudge_dismissal env i w) = w\<lparr>nw_trees := (nw_trees w)(p_root p := tree)\<rparr>"
    by (auto simp: persist_nudge_dismissal_def andthen_eq_Inr split: option.splits sum.splits if_splits)
  have ok: "nudge_ok (ne_lib env) owners r" "nr_id r = i" "\<exists>t. nr_dismissed_at r = Some t"
    using find_dismissed_ok [OF _ r] assms by (auto simp: nudges_ok_def)
  have own: "owner_of owners r = Some (p_id p)" using nudge_ok_owner [OF ok(1)] get_project_Some [OF p] by (simp add: owner_of_def)
  have dec: "decode_good env owners p c = Inr r" using decode_encode_nudge [OF assms(1) ok(1) _ w(2)] ok(3) by blast
  have "files_ok env owners (w\<lparr>nw_trees := (nw_trees w)(p_root p := tree)\<rparr>)"
    using nudge_copies.write_keeps [of "decode_good env owners" owners "nw_projects w" "nw_trees w" "ne_files env" p path c tree r]
      assms(1,2) get_project_Some [OF p] w dec ok own by (simp add: files_ok_def nudges_ok_def nudge_env_ok_def)
  then show ?thesis using assms(2) w(4) by (simp add: nudges_ok_def table_ok_def)
qed

lemma table_ids: "table_ok lib owners w \<Longrightarrow> (i, r) \<in> set (nw_table w) \<Longrightarrow> i = nr_id r \<and> nudge_ok lib owners r \<and> nul_free i"
  using row_id_facts(2) by (fastforce simp: table_ok_def nudge_ok_def)

lemma backfill_ids_keeps:
  assumes "nudge_env_ok env" and "nudges_ok env owners w" and "\<forall>i \<in> set is. nul_free i"
  shows "nudges_ok env owners (snd (backfill_ids env is n w)) \<and>
    nw_table (snd (backfill_ids env is n w)) = nw_table w \<and> nw_projects (snd (backfill_ids env is n w)) = nw_projects w"
  using assms
proof (induction "is" arbitrary: n w)
  case (Cons i "is")
  have p: "nudges_ok env owners (snd (persist_nudge_dismissal env i w))"
    using persist_keeps Cons.prems by simp
  show ?case
    using Cons.IH [OF Cons.prems(1,2)] Cons.IH [OF Cons.prems(1) p] persist_frame [of env i w] Cons.prems p
    by (auto split: option.split sum.split prod.split)
qed simp

lemma backfill_keeps:
  assumes "nudge_env_ok env" and "nudges_ok env owners w"
  shows "nudges_ok env owners (snd (backfill_nudge_dismissals env w)) \<and>
    nw_table (snd (backfill_nudge_dismissals env w)) = nw_table w \<and>
    nw_projects (snd (backfill_nudge_dismissals env w)) = nw_projects w"
  unfolding backfill_nudge_dismissals_def
  by (rule backfill_ids_keeps [OF assms])
    (use assms(2) table_ids in \<open>fastforce simp: dismissed_ids_def nudges_ok_def\<close>)

subsection \<open>Restoring\<close>

abbreviation dismissals :: "nudge_env \<Rightarrow> (string \<Rightarrow> string option) \<Rightarrow> nudge_world \<Rightarrow> nudge_row list" where
  "dismissals env owners w \<equiv> all_copies is_dismissal_file (decode_good env owners) (nw_projects w) (nw_trees w)"

abbreviation dismissal_ok :: "nudge_env \<Rightarrow> (string \<Rightarrow> string option) \<Rightarrow> project \<Rightarrow> string list \<times> string \<Rightarrow> bool" where
  "dismissal_ok env owners \<equiv>
     copy_ok (\<lambda>r. nudge_path (nr_id r)) is_dismissal_file (decode_good env owners) (owner_of owners)"

lemma restore_in_table:
  assumes "\<forall>e \<in> set es. dismissal_ok env owners p e"
  shows "\<exists>m. restore_dismissals_in env p es n w =
    (Inr m, w\<lparr>nw_table := put_rows nr_id (nw_table w) (copies_of is_dismissal_file (decode_good env owners) p es)\<rparr>)"
  using assms
proof (induction es arbitrary: n w)
  case Nil
  then show ?case by (simp add: copies_of_def)
next
  case (Cons e es)
  show ?case
  proof (cases "is_dismissal_file (fst e)")
    case False
    then show ?thesis using Cons by (simp add: copies_of_def)
  next
    case True
    then obtain r where r: "decode_good env owners p (snd e) = Inr r" "nudge_path (nr_id r) = Inr (fst e)"
      "owner_of owners r = Some (p_id p)"
      using Cons.prems by (force simp: copy_ok_def)
    have d: "decode_nudge (ne_lib env) (ne_files env) p (snd e) = Inr r" "stored_row r = r"
      using r(1) by (auto simp: decode_good_def andthen_eq_Inr nudge_ok_def split: if_splits)
    have "nr_project_id r = p_id p" using r(3) by (simp add: owner_of_def split: if_splits)
    moreover have "last (fst e) = nr_id r @ ''.json''" using r(2) sharded_path_file by (simp add: nudge_path_def)
    ultimately have "restore_dismissal env p e w = (Inr (), w\<lparr>nw_table := AList.update (nr_id r) r (nw_table w)\<rparr>)"
      using d by (simp add: restore_dismissal_def insert_dismissed_def)
    then show ?thesis
      using True r(1) Cons.IH [of "Suc n" "w\<lparr>nw_table := AList.update (nr_id r) r (nw_table w)\<rparr>"] Cons.prems
      by (simp add: copies_of_def)
  qed
qed

lemma restore_of_table:
  assumes "\<forall>p \<in> set ps. \<forall>e \<in> set (nw_trees w (p_root p)). dismissal_ok env owners p e"
  shows "\<exists>m. restore_dismissals_of env ps n w =
    (Inr m, w\<lparr>nw_table := put_rows nr_id (nw_table w) (all_copies is_dismissal_file (decode_good env owners) ps (nw_trees w))\<rparr>)"
  using assms
proof (induction ps arbitrary: n w)
  case Nil
  then show ?case by (simp add: all_copies_def)
next
  case (Cons p ps)
  let ?rows = "copies_of is_dismissal_file (decode_good env owners) p (nw_trees w (p_root p))"
  obtain m where m: "restore_dismissals_in env p (nw_trees w (p_root p)) n w =
      (Inr m, w\<lparr>nw_table := put_rows nr_id (nw_table w) ?rows\<rparr>)"
    using restore_in_table [of "nw_trees w (p_root p)" env owners p n w] Cons.prems by auto
  then show ?case
    using Cons.IH [of "w\<lparr>nw_table := put_rows nr_id (nw_table w) ?rows\<rparr>" m] Cons.prems
    by (simp add: all_copies_def)
qed

lemma restore_nudges_table:
  "files_ok env owners w \<Longrightarrow> \<exists>m. restore_nudge_dismissals env w =
    (Inr m, w\<lparr>nw_table := put_rows nr_id (nw_table w) (dismissals env owners w)\<rparr>)"
  unfolding restore_nudge_dismissals_def files_ok_def
  by (rule restore_of_table) (auto simp: trees_ok_def)

lemma put_rows_ok:
  assumes "distinct (map fst t)" and "\<forall>(i, r) \<in> set t. i = key r \<and> P r" and "\<forall>r \<in> set rows. P r"
  shows "distinct (map fst (put_rows key t rows)) \<and> (\<forall>(i, r) \<in> set (put_rows key t rows). i = key r \<and> P r)"
  using assms
proof (induction rows arbitrary: t)
  case (Cons r rows)
  have "set (AList.update (key r) r t) \<subseteq> insert (key r, r) (set t)" by (induction t) auto
  then have "\<forall>(i, r) \<in> set (AList.update (key r) r t). i = key r \<and> P r" using Cons.prems(2,3) by fastforce
  then show ?case using Cons.IH [of "AList.update (key r) r t"] Cons.prems by (simp add: distinct_update)
qed simp

lemma nudge_from_json_dismissed: "nudge_from_json lib j = Inr r \<Longrightarrow> \<exists>t. nr_dismissed_at r = Some t"
  unfolding nudge_from_json_def by (elim andthen_eq_Inr [THEN iffD1, elim_format] exE conjE) (auto simp: andthen_eq_Inr split: if_splits)

lemma decode_good_facts:
  assumes "decode_good env owners p c = Inr r"
  shows "nudge_ok (ne_lib env) owners r \<and> (\<exists>t. nr_dismissed_at r = Some t)"
proof -
  have r: "decode_nudge (ne_lib env) (ne_files env) p c = Inr r" "nudge_ok (ne_lib env) owners r"
    using assms by (auto simp: decode_good_def andthen_eq_Inr split: if_splits)
  then obtain j where "nudge_from_json (ne_lib env) j = Inr r"
    by (auto simp: decode_nudge_def andthen_eq_Inr split: option.splits)
  then show ?thesis using r(2) nudge_from_json_dismissed by blast
qed

lemma dismissals_ok:
  assumes "files_ok env owners w" and "r \<in> set (dismissals env owners w)"
  shows "nudge_ok (ne_lib env) owners r \<and> (\<exists>t. nr_dismissed_at r = Some t)"
  using nudge_copies.all_copies_in [OF assms [unfolded files_ok_def]] decode_good_facts by metis

lemma restore_keeps:
  assumes "nudges_ok env owners w"
  shows "nudges_ok env owners (snd (restore_nudge_dismissals env w))"
proof -
  obtain m where m: "restore_nudge_dismissals env w = (Inr m, w\<lparr>nw_table := put_rows nr_id (nw_table w) (dismissals env owners w)\<rparr>)"
    using restore_nudges_table assms unfolding nudges_ok_def by blast
  have "table_ok (ne_lib env) owners (w\<lparr>nw_table := put_rows nr_id (nw_table w) (dismissals env owners w)\<rparr>)"
    using put_rows_ok [of "nw_table w" nr_id "nudge_ok (ne_lib env) owners" "dismissals env owners w"] dismissals_ok assms
    by (auto simp: nudges_ok_def table_ok_def)
  then show ?thesis using assms m by (simp add: nudges_ok_def files_ok_def)
qed

subsection \<open>The operations\<close>

definition dismissed_in :: "string \<Rightarrow> nudge_world \<Rightarrow> bool" where
  "dismissed_in i w \<longleftrightarrow> (\<exists>r t. map_of (nw_table w) i = Some r \<and> nr_dismissed_at r = Some t)"

lemma dismiss_rows_frame [simp]:
  "nw_projects (dismiss_rows now sel w) = nw_projects w" "nw_trees (dismiss_rows now sel w) = nw_trees w"
  by (simp_all add: dismiss_rows_def)

lemma dismiss_rows_lookup:
  "map_of (nw_table (dismiss_rows now sel w)) i =
     map_option (\<lambda>r. if sel r \<and> nr_dismissed_at r = None then r\<lparr>nr_dismissed_at := Some now\<rparr> else r) (map_of (nw_table w) i)"
  by (simp add: dismiss_rows_def map_of_map)

lemma nudge_ok_dismiss: "nudge_ok lib owners r \<Longrightarrow> 0 < now \<Longrightarrow> nudge_ok lib owners (r\<lparr>nr_dismissed_at := Some now\<rparr>)"
  by (cases r) (simp add: nudge_ok_def row_id_def stored_row_def)

lemma dismiss_rows_keeps:
  assumes "nudges_ok env owners w" and "0 < now"
  shows "nudges_ok env owners (dismiss_rows now sel w)"
proof -
  have "map fst (nw_table (dismiss_rows now sel w)) = map fst (nw_table w)"
    by (simp add: dismiss_rows_def comp_def split_beta)
  moreover have "\<forall>(i, r) \<in> set (nw_table (dismiss_rows now sel w)). i = nr_id r \<and> nudge_ok (ne_lib env) owners r"
    using assms nudge_ok_dismiss by (fastforce simp: dismiss_rows_def nudges_ok_def table_ok_def)
  ultimately have "table_ok (ne_lib env) owners (dismiss_rows now sel w)"
    using assms(1) unfolding nudges_ok_def table_ok_def by presburger
  then show ?thesis using assms(1) by (simp add: nudges_ok_def files_ok_def)
qed

lemma dismiss_rows_dismissed:
  assumes "dismissed_in i w"
  shows "dismissed_in i (dismiss_rows now sel w)"
proof -
  obtain r t where "map_of (nw_table w) i = Some r" "nr_dismissed_at r = Some t" using assms by (auto simp: dismissed_in_def)
  then have "map_of (nw_table (dismiss_rows now sel w)) i = Some r" by (simp add: dismiss_rows_lookup)
  then show ?thesis using \<open>nr_dismissed_at r = Some t\<close> unfolding dismissed_in_def by blast
qed

lemma stale_keeps:
  assumes "nudge_env_ok env" and "nudges_ok env owners w" and "0 < now"
    and "dismiss_stale_variants env now kind pid cid fp cm w = (res, w')"
  shows "nudges_ok env owners w' \<and> nw_projects w' = nw_projects w \<and> (dismissed_in i w \<longrightarrow> dismissed_in i w')"
proof -
  let ?w = "dismiss_rows now (\<lambda>r. same_subject kind pid cid r \<and> \<not> same_basis fp cm r) w"
  have w': "w' = snd (backfill_nudge_dismissals env ?w)"
    using assms(4) by (auto simp: dismiss_stale_variants_def split: prod.splits sum.splits)
  show ?thesis
    using backfill_keeps [OF assms(1) dismiss_rows_keeps [OF assms(2,3)]] dismiss_rows_dismissed [of i w]
    unfolding w' by (simp add: dismissed_in_def)
qed

lemma nudge_dismiss_keeps:
  assumes "nudge_env_ok env" and "nudges_ok env owners w" and "0 < now" and "nul_free j"
    and "nudge_dismiss env now j w = (res, w')"
  shows "nudges_ok env owners w' \<and> nw_projects w' = nw_projects w \<and> (dismissed_in i w \<longrightarrow> dismissed_in i w')"
proof -
  let ?w = "dismiss_rows now (\<lambda>r. nr_id r = c_str j) w"
  have "w' = ?w \<or> w' = snd (persist_nudge_dismissal env j ?w)"
    using assms(5) by (auto simp: nudge_dismiss_def Let_def split: prod.splits sum.splits if_splits)
  then show ?thesis
    using dismiss_rows_keeps [OF assms(2,3), of "\<lambda>r. nr_id r = c_str j"] dismiss_rows_dismissed [of i w]
      persist_keeps [OF assms(1) dismiss_rows_keeps [OF assms(2,3)] assms(4)] persist_frame [of env j ?w]
    by (auto simp: dismissed_in_def)
qed

text \<open>A dismissal through the service takes effect: the row is dismissed, or there is none.\<close>

lemma nudge_dismiss_effect:
  assumes "table_ok lib owners w" and "nul_free i" and "map_of (nw_table w) i = Some r"
    and "nudge_dismiss env now i w = (res, w')"
  shows "dismissed_in i w'"
proof -
  let ?w = "dismiss_rows now (\<lambda>r. nr_id r = c_str i) w"
  have "nr_id r = i" using assms(1,3) by (auto simp: table_ok_def dest!: map_of_SomeD)
  then have d: "dismissed_in i ?w" using assms(2,3) by (auto simp: dismissed_in_def dismiss_rows_lookup)
  have "w' = ?w \<or> w' = snd (persist_nudge_dismissal env i ?w)"
    using assms(4) by (auto simp: nudge_dismiss_def Let_def split: prod.splits sum.splits if_splits)
  then show ?thesis using d persist_frame [of env i ?w] by (auto simp: dismissed_in_def)
qed

definition candidate_ok :: "(string \<Rightarrow> string option) \<Rightarrow> candidate \<Rightarrow> bool" where
  "candidate_ok owners c \<longleftrightarrow>
     nc_project_id c \<noteq> [] \<and> nul_free (nc_project_id c) \<and>
     (\<forall>v \<in> {nc_card_id c, nc_basis_fingerprint c, nc_basis_commit c}. \<forall>s. v = Some s \<longrightarrow> nul_free s) \<and>
     owners (build_nudge_id c) = Some (nc_project_id c)"

definition kinds :: "string set" where
  "kinds = {''card.title_only'', ''card.stuck_drafting'', ''git.push_failed_repeated'', ''card.title_suggestion''}"

lemma kinds_ok: "k \<in> kinds \<Longrightarrow> k \<noteq> [] \<and> nul_free k"
  by (auto simp: kinds_def)

lemma evaluate_accepts:
  assumes "evaluate_candidate lib c = Inr d"
  shows "nd_nudge d = None \<and> (nd_accepted d \<longrightarrow> nc_kind c \<in> kinds)"
  using assms by (auto simp: evaluate_candidate_def Let_def decided_def kinds_def andthen_eq_Inr split: if_splits)

lemma meta_returns:
  obtains r where "build_nudge_meta_json env w c = Some r" "\<And>j. r = Inr j \<Longrightarrow> j \<noteq> JNull"
proof (cases "nc_kind c = ''card.title_suggestion'' \<and> nc_card_id c \<noteq> None")
  case False
  then show ?thesis using that [of "Inr (JObj [])"] by (auto simp: build_nudge_meta_json_def)
next
  case True
  then obtain i where i: "nc_card_id c = Some i" by blast
  obtain ts where "deterministic_title_suggestions (body_or_empty env w c i) = Some ts" by (rule deterministic_titles)
  then show ?thesis using True i that unfolding build_nudge_meta_json_def by (auto simp: andthen_eq_Inr)
qed

lemma stored_row_fields [simp]:
  "nr_dismissed_at (stored_row r) = nr_dismissed_at r" "nr_created_at (stored_row r) = nr_created_at r"
  "nr_id (stored_row r) = c_str (nr_id r)" "nr_kind (stored_row r) = c_str (nr_kind r)"
  "nr_project_id (stored_row r) = c_str (nr_project_id r)" "nr_card_id (stored_row r) = map_option c_str (nr_card_id r)"
  "nr_basis_fingerprint (stored_row r) = map_option c_str (nr_basis_fingerprint r)"
  "nr_basis_commit (stored_row r) = map_option c_str (nr_basis_commit r)" "nr_meta_json (stored_row r) = c_str (nr_meta_json r)"
  by (simp_all add: stored_row_def)

text \<open>The nudge that the service makes of a candidate.\<close>

definition nudge_of :: "candidate \<Rightarrow> string \<Rightarrow> json \<Rightarrow> nudge" where
  "nudge_of c body meta =
     \<lparr>ng_id = build_nudge_id c, ng_kind = nc_kind c, ng_project_id = nc_project_id c, ng_card_id = nc_card_id c,
      ng_title = build_nudge_title c, ng_body = body, ng_meta_json = meta,
      ng_basis_fingerprint = nc_basis_fingerprint c, ng_basis_commit = nc_basis_commit c,
      ng_created_at = nc_created_at c, ng_dismissed = False\<rparr>"

lemma build_id_row: "candidate_ok owners c \<Longrightarrow> nul_free (nc_kind c) \<Longrightarrow>
   row_id (row_of_nudge lib (nudge_of c body meta)) = build_nudge_id c"
  by (simp add: row_of_nudge_def row_id_def nudge_of_def build_nudge_id_def candidate_ok_def)

lemma build_id_nul_free: "candidate_ok owners c \<Longrightarrow> nul_free (nc_kind c) \<Longrightarrow> nul_free (build_nudge_id c)"
  using build_id_row row_id_facts(2) by metis

lemma row_of_nudge_ok:
  assumes "lib_ok lib" and "candidate_ok owners c" and "nc_kind c \<in> kinds" and "meta \<noteq> JNull"
  shows "nudge_ok lib owners (row_of_nudge lib (nudge_of c body meta)) \<and>
    nr_id (row_of_nudge lib (nudge_of c body meta)) = build_nudge_id c"
proof -
  let ?r = "row_of_nudge lib (nudge_of c body meta)"
  have k: "nc_kind c \<noteq> []" "nul_free (nc_kind c)" using kinds_ok assms(3) by auto
  have i: "nr_id ?r = build_nudge_id c"
    using build_id_nul_free [OF assms(2) k(2)] by (simp add: row_of_nudge_def nudge_of_def)
  have "owners (nr_id ?r) = Some (nr_project_id ?r)" "nr_kind ?r \<noteq> []" "nr_project_id ?r \<noteq> []"
    using assms(2) k i by (simp_all add: candidate_ok_def) (simp_all add: row_of_nudge_def nudge_of_def)
  moreover have "nr_meta_json ?r = lib_dump lib meta" using assms(1,4) by (simp add: row_of_nudge_def nudge_of_def lib_ok_def)
  moreover have "stored_row ?r = ?r" "\<forall>t. nr_dismissed_at ?r = Some t \<longrightarrow> 0 < t" by (simp_all add: row_of_nudge_def)
  moreover have "nr_id ?r = row_id ?r" using i build_id_row [OF assms(2) k(2)] by simp
  ultimately show ?thesis using i unfolding nudge_ok_def by blast
qed

lemma create_keeps:
  assumes "nudge_env_ok env" and "nudges_ok env owners w" and "candidate_ok owners c" and "nc_kind c \<in> kinds" and "meta \<noteq> JNull"
    and "create_or_get (ne_lib env) (nudge_of c body meta) w = (res, w')"
  shows "nudges_ok env owners w' \<and> nw_projects w' = nw_projects w \<and> (dismissed_in i w \<longrightarrow> dismissed_in i w')"
proof -
  let ?r = "row_of_nudge (ne_lib env) (nudge_of c body meta)"
  have r: "nudge_ok (ne_lib env) owners ?r" "nr_id ?r = build_nudge_id c"
    using row_of_nudge_ok [OF _ assms(3,4,5)] assms(1) by (auto simp: nudge_env_ok_def)
  have w': "w' = (if map_of (nw_table w) (nr_id ?r) \<noteq> None then w else w\<lparr>nw_table := nw_table w @ [(nr_id ?r, ?r)]\<rparr>)"
    using assms(6) by (simp add: create_or_get_def Let_def)
  show ?thesis
  proof (cases "map_of (nw_table w) (nr_id ?r) = None")
    case True
    then have "w' = w\<lparr>nw_table := nw_table w @ [(nr_id ?r, ?r)]\<rparr>" using w' by simp
    then show ?thesis
      using True r(1) assms(2)
      by (auto simp: nudges_ok_def table_ok_def files_ok_def dismissed_in_def map_of_eq_None_iff)
  next
    case False
    then have "w' = w" unfolding w' by simp
    then show ?thesis using assms(2) by simp
  qed
qed

text \<open>\<open>evaluate_and_record\<close> always returns, and keeps the invariant and every dismissal.\<close>

lemma evaluate_keeps:
  assumes "nudge_env_ok env" and "nudges_ok env owners w" and "0 < now" and "candidate_ok owners c"
  obtains res w' where "evaluate_and_record env now c w = Some (res, w')" "nudges_ok env owners w'"
    "nw_projects w' = nw_projects w" "\<And>i. dismissed_in i w \<Longrightarrow> dismissed_in i w'"
proof -
  have rec: "\<exists>res w'. record_nudge env c d v = Some (res, w') \<and> nudges_ok env owners w' \<and> nw_projects w' = nw_projects v \<and>
      (\<forall>i. dismissed_in i v \<longrightarrow> dismissed_in i w')" if v: "nudges_ok env owners v" and k: "nc_kind c \<in> kinds" for d v
  proof (cases "build_nudge_body_with_runner env v c")
    case (Inl e)
    then show ?thesis using v by (simp add: record_nudge_def)
  next
    case (Inr body)
    obtain m where m: "build_nudge_meta_json env v c = Some m" "\<And>j. m = Inr j \<Longrightarrow> j \<noteq> JNull"
      by (rule meta_returns [where env = env and w = v and c = c]) blast
    show ?thesis
    proof (cases m)
      case (Inr meta)
      obtain res w' where cg: "create_or_get (ne_lib env) (nudge_of c body meta) v = (res, w')" by (rule prod.exhaust)
      note kept = create_keeps [OF assms(1) v assms(4) k m(2) [OF Inr] cg]
      have "\<exists>res'. record_nudge env c d v = Some (res', w')"
        using \<open>build_nudge_body_with_runner env v c = Inr body\<close> m(1) Inr cg unfolding nudge_of_def
        by (cases res) (simp_all add: record_nudge_def)
      then show ?thesis using kept by blast
    qed (use Inr m(1) v in \<open>simp add: record_nudge_def\<close>)
  qed
  have "\<exists>res w'. evaluate_and_record env now c w = Some (res, w') \<and> nudges_ok env owners w' \<and> nw_projects w' = nw_projects w \<and>
      (\<forall>i. dismissed_in i w \<longrightarrow> dismissed_in i w')"
  proof (cases "\<exists>d. evaluate_candidate (ne_lib env) c = Inr d \<and> nd_accepted d \<and> nd_should_nudge d \<and>
      find_active_exact_match (ne_lib env) (nc_kind c) (nc_project_id c) (nc_card_id c) (nc_basis_fingerprint c) (nc_basis_commit c) w = Inr None")
    case False
    then have "\<exists>res. evaluate_and_record env now c w = Some (res, w)"
      by (auto simp: evaluate_and_record_def split: sum.split option.split)
    then show ?thesis using assms(2) by blast
  next
    case True
    then obtain d where d: "evaluate_candidate (ne_lib env) c = Inr d" "nd_accepted d" "nd_should_nudge d"
      "find_active_exact_match (ne_lib env) (nc_kind c) (nc_project_id c) (nc_card_id c) (nc_basis_fingerprint c) (nc_basis_commit c) w = Inr None"
      by blast
    obtain sres v where s: "dismiss_stale_variants env now (nc_kind c) (nc_project_id c) (nc_card_id c) (nc_basis_fingerprint c) (nc_basis_commit c) w = (sres, v)"
      by (rule prod.exhaust)
    note kept = stale_keeps [OF assms(1-3) s]
    have k: "nc_kind c \<in> kinds" using evaluate_accepts [OF d(1)] d(2) by blast
    show ?thesis
    proof (cases sres)
      case (Inl e)
      then show ?thesis using d s kept by (simp add: evaluate_and_record_def)
    next
      case (Inr u)
      then have "evaluate_and_record env now c w = record_nudge env c d v" using d s by (simp add: evaluate_and_record_def)
      then show ?thesis using rec [OF _ k, of v d] kept by fastforce
    qed
  qed
  then show ?thesis using that by blast
qed

subsection \<open>What is shown\<close>

definition active_in :: "string \<Rightarrow> nudge_world \<Rightarrow> bool" where
  "active_in i w \<longleftrightarrow> (\<exists>r. map_of (nw_table w) i = Some r \<and> nr_dismissed_at r = None)"

lemma active_not_dismissed: "active_in i w \<Longrightarrow> dismissed_in j w \<Longrightarrow> i \<noteq> j"
  by (auto simp: active_in_def dismissed_in_def)

lemma row_to_nudge_fields: "row_to_nudge lib r = Inr n \<Longrightarrow> ng_id n = nr_id r \<and> ng_dismissed n = (nr_dismissed_at r \<noteq> None)"
  by (auto simp: row_to_nudge_def andthen_eq_Inr)

lemma active_row:
  assumes "table_ok lib owners w" and "r \<in> set (map snd (nw_table w))" and "nr_dismissed_at r = None"
  shows "active_in (nr_id r) w"
proof -
  obtain i where i: "(i, r) \<in> set (nw_table w)" using assms(2) by auto
  then have "i = nr_id r" using table_ids [OF assms(1)] by blast
  then have "map_of (nw_table w) (nr_id r) = Some r" using i assms(1) by (simp add: table_ok_def)
  then show ?thesis using assms(3) by (simp add: active_in_def)
qed

lemma exact_match_active:
  assumes "table_ok lib owners w" and "find_active_exact_match lib k p c f m w = Inr (Some n)"
  shows "active_in (ng_id n) w"
proof -
  obtain r rs where r: "filter (\<lambda>r. same_subject k p c r \<and> same_basis f m r \<and> nr_dismissed_at r = None) (map snd (nw_table w)) = r # rs"
    "row_to_nudge lib r = Inr n"
    using assms(2) by (auto simp: find_active_exact_match_def andthen_eq_Inr split: list.splits)
  then have "r \<in> set (map snd (nw_table w))" "nr_dismissed_at r = None"
    using filter_eq_Cons_iff [THEN iffD1, OF r(1)] by fastforce+
  then show ?thesis using active_row [OF assms(1)] row_to_nudge_fields [OF r(2)] by simp
qed

lemma create_or_get_active:
  assumes "table_ok lib owners w'" and "create_or_get lib n w = (Inr s, w')" and "\<not> ng_dismissed s"
  shows "active_in (ng_id s) w'"
proof -
  have "find_by_id lib (ng_id n) w' = Inr (Some s)"
    using assms(2) by (auto simp: create_or_get_def Let_def andthen_eq_Inr split: option.splits)
  then obtain r where r: "map_of (nw_table w') (c_str (ng_id n)) = Some r" "row_to_nudge lib r = Inr s"
    by (auto simp: find_by_id_def andthen_eq_Inr split: option.splits)
  then have "r \<in> set (map snd (nw_table w'))" by (force dest: map_of_SomeD)
  then show ?thesis using active_row [OF assms(1)] row_to_nudge_fields [OF r(2)] assms(3) by simp
qed

lemma record_active:
  assumes "table_ok (ne_lib env) owners w'" and "record_nudge env c d w = Some (Inr d', w')" and "nd_nudge d' = Some n"
  shows "active_in (ng_id n) w'"
  using assms(2,3) create_or_get_active [OF assms(1)]
  by (auto simp: record_nudge_def Let_def split: sum.splits option.splits prod.splits if_splits)

lemma evaluate_active:
  assumes "table_ok (ne_lib env) owners w" and "table_ok (ne_lib env) owners w'"
    and "evaluate_and_record env now c w = Some (Inr d, w')" and "nd_nudge d = Some n"
  shows "active_in (ng_id n) w'"
  using assms(3,4) record_active [OF assms(2)] exact_match_active [OF assms(1)] evaluate_accepts [of "ne_lib env" c d]
  by (auto simp: evaluate_and_record_def split: sum.splits option.splits prod.splits if_splits)

lemma rows_to_nudges_in:
  "rows_to_nudges lib rs = Inr ns \<Longrightarrow> n \<in> set ns \<Longrightarrow> \<exists>r \<in> set rs. row_to_nudge lib r = Inr n"
  by (induction rs arbitrary: ns) (auto simp: andthen_eq_Inr)

lemma list_active_active:
  assumes "table_ok lib owners w" and "list_active lib p c w = Inr ns" and "n \<in> set ns"
  shows "active_in (ng_id n) w"
  using rows_to_nudges_in [OF assms(2) [unfolded list_active_def] assms(3)] active_row [OF assms(1)] row_to_nudge_fields
  by fastforce

lemma keep_fresh_keeps:
  assumes "nudge_env_ok env" and "nudges_ok env owners w" and "0 < now" and "\<forall>n \<in> set ns. nul_free (ng_id n)"
    and "keep_fresh env now ns w = (res, w')"
  shows "nudges_ok env owners w' \<and> nw_projects w' = nw_projects w \<and> (dismissed_in i w \<longrightarrow> dismissed_in i w') \<and>
    (\<forall>out. res = Inr out \<longrightarrow> set out \<subseteq> set ns)"
  using assms
proof (induction ns arbitrary: w res w')
  case (Cons n ns)
  show ?case
  proof (cases "is_stale env w n")
    case True
    obtain dres v where v: "nudge_dismiss env now (ng_id n) w = (dres, v)" by (rule prod.exhaust)
    have kept: "nudges_ok env owners v \<and> nw_projects v = nw_projects w \<and> (dismissed_in i w \<longrightarrow> dismissed_in i v)"
      by (rule nudge_dismiss_keeps [OF Cons.prems(1-3) _ v]) (use Cons.prems(4) in simp)
    show ?thesis
    proof (cases dres)
      case (Inl e)
      then show ?thesis using True v kept Cons.prems(5) by auto
    next
      case (Inr b)
      then have "keep_fresh env now ns v = (res, w')" using True v Cons.prems(5) by simp
      then show ?thesis using Cons.IH [of v res w'] Cons.prems(1,3,4) kept by auto
    qed
  next
    case False
    obtain res2 v where v: "keep_fresh env now ns w = (res2, v)" by (rule prod.exhaust)
    then show ?thesis
      using Cons.IH [OF Cons.prems(1,2,3) _ v] Cons.prems(4,5) False by (auto split: sum.splits)
  qed
qed auto

lemma list_keeps:
  assumes "nudge_env_ok env" and "nudges_ok env owners w" and "0 < now" and "nudge_list env now p c w = (res, w')"
  shows "nudges_ok env owners w' \<and> nw_projects w' = nw_projects w \<and> (dismissed_in i w \<longrightarrow> dismissed_in i w') \<and>
    (\<forall>out n. res = Inr out \<longrightarrow> n \<in> set out \<longrightarrow> active_in (ng_id n) w)"
proof (cases "list_active (ne_lib env) p c w")
  case (Inl e)
  then show ?thesis using assms(2,4) by (auto simp: nudge_list_def)
next
  case (Inr ns)
  have t: "table_ok (ne_lib env) owners w" using assms(2) by (simp add: nudges_ok_def)
  have act: "active_in (ng_id n) w" if "n \<in> set ns" for n using list_active_active [OF t Inr that] .
  then have "\<forall>n \<in> set ns. nul_free (ng_id n)" using table_ids [OF t] by (fastforce simp: active_in_def dest: map_of_SomeD)
  moreover have "keep_fresh env now ns w = (res, w')" using Inr assms(4) by (simp add: nudge_list_def)
  ultimately show ?thesis using keep_fresh_keeps [OF assms(1-3)] act by blast
qed

lemma joined_dismissals_in:
  assumes "table_ok lib owners w" and "map_of (nw_table w) i = Some r" and "nr_dismissed_at r = Some t"
    and "get_project (nr_project_id r) w = Some p"
  shows "(i, p_root p) \<in> set (joined_dismissals w)"
proof -
  have "i \<in> set (dismissed_ids w)" using map_of_SomeD [OF assms(2)] assms(3) by (force simp: dismissed_ids_def)
  moreover have "map_option (\<lambda>p. (i, p_root p)) (Option.bind (map_of (nw_table w) i) (\<lambda>r. get_project (nr_project_id r) w))
      = Some (i, p_root p)" using assms(2,4) by simp
  ultimately show ?thesis unfolding joined_dismissals_def map_filter_def
    by (force simp del: bind_eq_Some_conv map_option_eq_Some)
qed

text \<open>A database that passes the ownership audit can be dropped: the restore brings every dismissal back.\<close>

lemma rebuild_keeps:
  assumes ok: "nudges_ok env owners w" and audit: "all_nudge_dismissals_are_durable w = Inr True"
    and i: "dismissed_in i w" and p: "p \<in> set (nw_projects w)" "owners i = Some (p_id p)"
    and res: "restore_nudge_dismissals env (w\<lparr>nw_table := []\<rparr>) = (res, w')"
  shows "nudges_ok env owners w' \<and> nw_projects w' = nw_projects w \<and> dismissed_in i w'"
proof -
  have t: "table_ok (ne_lib env) owners w" and f: "files_ok env owners w" using ok by (simp_all add: nudges_ok_def)
  obtain r d where r: "map_of (nw_table w) i = Some r" "nr_dismissed_at r = Some d" using i by (auto simp: dismissed_in_def)
  have ri: "nr_id r = i" "nudge_ok (ne_lib env) owners r" using table_ids [OF t map_of_SomeD [OF r(1)]] by auto
  have "nr_project_id r = p_id p" using nudge_ok_owner [OF ri(2)] ri(1) p(2) by simp
  then have "get_project (nr_project_id r) w = Some p"
    using find_by_key [of p_id "nw_projects w" p] f p(1) by (simp add: get_project_def files_ok_def trees_ok_def)
  then have "(i, p_root p) \<in> set (joined_dismissals w)" using joined_dismissals_in [OF t r] by blast
  then obtain path c where c: "nudge_path i = Inr path" "(path, c) \<in> set (nw_trees w (p_root p))"
    using rows_durable_file audit unfolding all_nudge_dismissals_are_durable_def by blast
  have df: "is_dismissal_file path" using nudge_copies.path_is_copy [of r path] ri(1) c(1) by simp
  then obtain r' where r': "decode_good env owners p c = Inr r'" "nudge_path (nr_id r') = Inr path"
    using f p(1) c(2) by (force simp: files_ok_def trees_ok_def copy_ok_def)
  have id': "nr_id r' = i" using nudge_copies.path_key [of r path r'] r'(2) ri(1) c(1) by simp
  have f0: "files_ok env owners (w\<lparr>nw_table := []\<rparr>)" using f by (simp add: files_ok_def)
  obtain m where m: "(res, w') = (Inr m, w\<lparr>nw_table := put_rows nr_id [] (dismissals env owners w)\<rparr>)"
    using restore_nudges_table [OF f0] res by auto
  have "map_of (put_rows nr_id [] (dismissals env owners w)) (nr_id r') = Some r'"
    by (rule nudge_copies.walk_finds [OF f [unfolded files_ok_def] p(1) c(2) df r'(1)])
  then have "dismissed_in i w'" using m decode_good_facts [OF r'(1)] id' by (auto simp: dismissed_in_def)
  moreover have "nudges_ok env owners (w\<lparr>nw_table := []\<rparr>)" using f0 by (simp add: nudges_ok_def table_ok_def)
  then have "nudges_ok env owners w'" using restore_keeps [of env owners "w\<lparr>nw_table := []\<rparr>"] res by simp
  ultimately show ?thesis using m by simp
qed

subsection \<open>Runs of the service\<close>

definition shown_by :: "decision result \<Rightarrow> nudge list" where
  "shown_by res = (case res of Inl e \<Rightarrow> [] | Inr d \<Rightarrow> (case nd_nudge d of None \<Rightarrow> [] | Some n \<Rightarrow> [n]))"

text \<open>
  The requests to the service, in any order, and rebuilds of the database after a successful
  audit. The first component collects every nudge that was answered to the client.
\<close>

inductive nudge_step ::
  "nudge_env \<Rightarrow> (string \<Rightarrow> string option) \<Rightarrow> nudge list \<times> nudge_world \<Rightarrow> nudge list \<times> nudge_world \<Rightarrow> bool"
  for env owners where
  Evaluate: "0 < now \<Longrightarrow> candidate_ok owners c \<Longrightarrow> evaluate_and_record env now c w = Some (res, w') \<Longrightarrow>
     nudge_step env owners (s, w) (s @ shown_by res, w')"
| ListNudges: "0 < now \<Longrightarrow> nudge_list env now project card_id w = (res, w') \<Longrightarrow>
     nudge_step env owners (s, w) (s @ (case res of Inl e \<Rightarrow> [] | Inr ns \<Rightarrow> ns), w')"
| Dismiss: "0 < now \<Longrightarrow> nul_free j \<Longrightarrow> nudge_dismiss env now j w = (res, w') \<Longrightarrow> nudge_step env owners (s, w) (s, w')"
| Rebuild: "all_nudge_dismissals_are_durable w = Inr True \<Longrightarrow>
     restore_nudge_dismissals env (w\<lparr>nw_table := []\<rparr>) = (res, w') \<Longrightarrow> nudge_step env owners (s, w) (s, w')"

definition stays_dismissed :: "nudge_env \<Rightarrow> (string \<Rightarrow> string option) \<Rightarrow> string \<Rightarrow> nudge list \<times> nudge_world \<Rightarrow> bool" where
  "stays_dismissed env owners i t \<longleftrightarrow>
     nudge_env_ok env \<and> nudges_ok env owners (snd t) \<and> dismissed_in i (snd t) \<and>
     (\<exists>p \<in> set (nw_projects (snd t)). owners i = Some (p_id p)) \<and> i \<notin> ng_id ` set (fst t)"

lemma nudge_step_stays:
  assumes "nudge_step env owners (s, w) (s', w')" and "stays_dismissed env owners i (s, w)"
  shows "stays_dismissed env owners i (s', w')"
proof -
  have env: "nudge_env_ok env" and ok: "nudges_ok env owners w" and d: "dismissed_in i w" and s: "i \<notin> ng_id ` set s"
    using assms(2) by (auto simp: stays_dismissed_def)
  obtain p where p: "p \<in> set (nw_projects w)" "owners i = Some (p_id p)" using assms(2) by (auto simp: stays_dismissed_def)
  have t: "table_ok (ne_lib env) owners w" using ok by (simp add: nudges_ok_def)
  have final: "stays_dismissed env owners i (s', w')"
    if "nudges_ok env owners w'" "nw_projects w' = nw_projects w" "dismissed_in i w'" "i \<notin> ng_id ` set s'"
    using that env p by (auto simp: stays_dismissed_def)
  from assms(1) show ?thesis
  proof cases
    case (Evaluate now c res)
    obtain res2 w2 where "evaluate_and_record env now c w = Some (res2, w2)" "nudges_ok env owners w2"
      "nw_projects w2 = nw_projects w" "\<And>i. dismissed_in i w \<Longrightarrow> dismissed_in i w2"
      by (rule evaluate_keeps [OF env ok Evaluate(2,3)]) blast
    then have w': "nudges_ok env owners w'" "nw_projects w' = nw_projects w" "dismissed_in i w'"
      using Evaluate(4) d by auto
    have t': "table_ok (ne_lib env) owners w'" using w'(1) by (simp add: nudges_ok_def)
    have "ng_id n \<noteq> i" if n: "n \<in> set (shown_by res)" for n
    proof -
      obtain d' where "res = Inr d'" "nd_nudge d' = Some n"
        using n by (auto simp: shown_by_def split: sum.splits option.splits)
      then show ?thesis using evaluate_active [OF t t', of now c d' n] Evaluate(4) active_not_dismissed [OF _ w'(3)] by blast
    qed
    then show ?thesis using final w' s Evaluate(1) by auto
  next
    case (ListNudges now project card_id res)
    note kept = list_keeps [OF env ok ListNudges(2,3)]
    have "i \<notin> ng_id ` set (case res of Inl e \<Rightarrow> [] | Inr ns \<Rightarrow> ns)"
      using kept active_not_dismissed [OF _ d] by (fastforce split: sum.splits)
    then show ?thesis using final kept d s ListNudges(1) by auto
  next
    case (Dismiss now j res)
    then show ?thesis using final nudge_dismiss_keeps [OF env ok Dismiss(2,3,4)] d s by auto
  next
    case (Rebuild res)
    then show ?thesis using final rebuild_keeps [OF ok Rebuild(2) d p Rebuild(3)] s by auto
  qed
qed

interpretation dismissed: step_system "nudge_step env owners" "stays_dismissed env owners i" for env owners i
proof
  show "nudge_step env owners a b \<Longrightarrow> stays_dismissed env owners i a \<Longrightarrow> stays_dismissed env owners i b" for a b
    by (cases a; cases b) (use nudge_step_stays in blast)
qed

subsection \<open>Properties\<close>

text \<open>
  C15 A dismissed nudge never comes back. From a state in which a nudge is dismissed, through any
  sequence of evaluations of candidates (the one that raised it included), listings, dismissals,
  failing file writes, and rebuilds of the database from the work trees after a successful
  ownership audit, no answer to the client shows it; it is still dismissed at the end, the table
  and the files stay well formed, and the next evaluation returns.\<close>
theorem dismissed_nudge_stays:
  assumes "nudge_env_ok env" and "nudges_ok env owners w" and "dismissed_in i w"
    and "p \<in> set (nw_projects w)" and "owners i = Some (p_id p)"
    and "(nudge_step env owners)\<^sup>*\<^sup>* ([], w) (shown, w')" and "0 < now" and "candidate_ok owners c"
  shows "i \<notin> ng_id ` set shown \<and> dismissed_in i w' \<and> nudges_ok env owners w' \<and>
    (\<exists>res w''. evaluate_and_record env now c w' = Some (res, w''))"
proof -
  have "stays_dismissed env owners i ([], w)" using assms(1-5) by (auto simp: stays_dismissed_def)
  from dismissed.run_keeps [OF assms(6) this] have s: "stays_dismissed env owners i (shown, w')" .
  then have "nudges_ok env owners w'" by (simp add: stays_dismissed_def)
  then obtain res w'' where "evaluate_and_record env now c w' = Some (res, w'')"
    by (rule evaluate_keeps [OF assms(1) _ assms(7,8)])
  then show ?thesis using s by (auto simp: stays_dismissed_def)
qed

text \<open>A concrete service: a printer whose output has no NUL, no runners, one project.\<close>

fun esc :: "string \<Rightarrow> string" where
  "esc [] = []"
| "esc (c # cs) =
     (if c = CHR 0x00 then [CHR 0x01, CHR 0x02] else if c = CHR 0x01 then [CHR 0x01, CHR 0x01] else [c]) @ esc cs"

fun unesc :: "string \<Rightarrow> string" where
  "unesc (c # d # cs) = (if c = CHR 0x01 then (if d = CHR 0x02 then CHR 0x00 else CHR 0x01) # unesc cs else c # unesc (d # cs))"
| "unesc s = s"

lemma unesc_Cons: "c \<noteq> CHR 0x01 \<Longrightarrow> unesc (c # s) = c # unesc s"
  by (cases s) auto

lemma unesc_esc: "unesc (esc s @ [newline]) = s @ [newline]" "unesc (esc s) = s" "nul_free (esc s)"
  by (induction s) (auto simp: unesc_Cons)

definition esc_lib :: json_lib where
  "esc_lib = \<lparr>lib_parse = (\<lambda>s. codec_parse (unesc s)), lib_dump = (\<lambda>j. esc (enc j)), lib_dump2 = (\<lambda>j. esc (enc j)), lib_trunc = (\<lambda>_. 0)\<rparr>"

lemma esc_lib_ok: "lib_ok esc_lib"
  using codec_parse_enc [of "[]"] codec_parse_enc [of "[newline]"]
  by (simp add: lib_ok_def esc_lib_def unesc_esc is_space_def byte_of_def)

definition sample_files :: state_env where
  "sample_files = \<lparr>env_write = (\<lambda>path c t. Inr (AList.update path c t)),
                   env_encrypt = (\<lambda>_ _ c. rev c), env_decrypt = (\<lambda>_ _ c. Inr (rev c))\<rparr>"

lemma sample_files_ok: "env_ok sample_files"
  by (auto simp: env_ok_def sample_files_def update_conv' intro: distinct_update)

definition sample_nudge_env :: nudge_env where
  "sample_nudge_env =
     \<lparr>ne_lib = esc_lib, ne_files = sample_files, ne_card = (\<lambda>_. None), ne_children = (\<lambda>_ _. []), ne_roots = (\<lambda>_. []),
      ne_all = (\<lambda>_. []), ne_read = (\<lambda>_. None), ne_card_body = (\<lambda>s. s), ne_sha256 = (\<lambda>_. replicate 32 0),
      ne_head = (\<lambda>_. None), ne_threads = (\<lambda>_. []), ne_messages = (\<lambda>_. []), ne_config = Inr None, ne_registry = None,
      ne_status = (\<lambda>_. (False, [])), ne_generate = (\<lambda>_ _ _. None)\<rparr>"

definition sample_candidate :: candidate where
  "sample_candidate =
     \<lparr>nc_kind = ''git.push_failed_repeated'', nc_project_id = ''p1'', nc_card_id = None, nc_created_at = 3,
      nc_basis_fingerprint = None, nc_basis_commit = Some ''abc'',
      nc_facts = json_object [(''failure_count'', JInt 3), (''latest_status'', JStr ''auth'')]\<rparr>"

definition sample_dismissed :: nudge_row where
  "sample_dismissed = (row_of_nudge esc_lib (nudge_of sample_candidate ''text'' (JObj [])))\<lparr>nr_dismissed_at := Some 4\<rparr>"

definition sample_nudge_world :: nudge_world where
  "sample_nudge_world =
     \<lparr>nw_projects = [\<lparr>p_id = ''p1'', p_root = ''/r'', p_privacy_mode = ''encrypted_git'', p_key_id = Some ''k''\<rparr>],
      nw_manifest = (\<lambda>_. True), nw_trees = (\<lambda>_. []), nw_table = [(nr_id sample_dismissed, sample_dismissed)]\<rparr>"

lemma sample_nudges:
  "nudge_env_ok sample_nudge_env" "candidate_ok (\<lambda>_. Some ''p1'') sample_candidate"
  "nudges_ok sample_nudge_env (\<lambda>_. Some ''p1'') sample_nudge_world"
  "nr_id sample_dismissed = build_nudge_id sample_candidate"
proof -
  show c: "candidate_ok (\<lambda>_. Some ''p1'') sample_candidate" by (simp add: candidate_ok_def sample_candidate_def)
  have k: "nc_kind sample_candidate \<in> kinds" by (simp add: sample_candidate_def kinds_def)
  note r = row_of_nudge_ok [OF esc_lib_ok c k, of "JObj []" "''text''"]
  then have "nudge_ok esc_lib (\<lambda>_. Some ''p1'') sample_dismissed" using nudge_ok_dismiss by (simp add: sample_dismissed_def)
  then show "nudges_ok sample_nudge_env (\<lambda>_. Some ''p1'') sample_nudge_world"
    by (simp add: nudges_ok_def table_ok_def files_ok_def trees_ok_def sample_nudge_world_def sample_nudge_env_def)
  show "nudge_env_ok sample_nudge_env" by (simp add: nudge_env_ok_def sample_nudge_env_def esc_lib_ok sample_files_ok)
  show "nr_id sample_dismissed = build_nudge_id sample_candidate" using r by (simp add: sample_dismissed_def)
qed

theorem dismissed_nudge_stays_witness:
  "\<exists>res w'. evaluate_and_record sample_nudge_env 5 sample_candidate sample_nudge_world = Some (res, w') \<and>
     build_nudge_id sample_candidate \<notin> ng_id ` set (shown_by res) \<and> dismissed_in (build_nudge_id sample_candidate) w'"
proof -
  have now: "(0 :: int) < 5" by simp
  obtain res w' where e: "evaluate_and_record sample_nudge_env 5 sample_candidate sample_nudge_world = Some (res, w')"
    by (rule evaluate_keeps [OF sample_nudges(1,3) now sample_nudges(2)])
  have run: "(nudge_step sample_nudge_env (\<lambda>_. Some ''p1''))\<^sup>*\<^sup>* ([], sample_nudge_world) ([] @ shown_by res, w')"
    by (rule r_into_rtranclp, rule nudge_step.Evaluate [OF now sample_nudges(2) e])
  have "dismissed_in (build_nudge_id sample_candidate) sample_nudge_world"
    using sample_nudges(4) by (simp add: dismissed_in_def sample_nudge_world_def) (simp add: sample_dismissed_def)
  from dismissed_nudge_stays [OF sample_nudges(1,3) this _ _ run now sample_nudges(2)] e show ?thesis
    by (simp add: sample_nudge_world_def)
qed



end
