(* ===== verification/Store.thy ===== *)
theory Store
  imports Prelude
begin

text \<open>
  The contract of a state kept in one file that is replaced through a temporary file: what a
  successful save wrote is what the next load reads, and a failed save leaves either the old or
  the new contents. The clients are read-modify-write updates, one after the other under the
  component's mutex; the lemmas say what a sequence of them leaves behind when any of the saves
  may fail.
\<close>

text \<open>A read-modify-write update; the modification itself may throw.\<close>

definition update_store ::
  "('f \<Rightarrow> 's result) \<Rightarrow> (io_fault \<Rightarrow> 's \<Rightarrow> 'f \<Rightarrow> unit result \<times> 'f) \<Rightarrow> ('s \<Rightarrow> 's result) \<Rightarrow>
     io_fault \<Rightarrow> 'f \<Rightarrow> unit result \<times> 'f" where
  "update_store load save g io f =
     (case andthen (load f) g of Inl e \<Rightarrow> (Inl e, f) | Inr s \<Rightarrow> save io s f)"

locale atomic_store =
  fixes load :: "'f \<Rightarrow> 's result"
    and save :: "io_fault \<Rightarrow> 's \<Rightarrow> 'f \<Rightarrow> unit result \<times> 'f"
    and good :: "'s \<Rightarrow> bool"
  assumes load_saved: "good s \<Longrightarrow> save io s f = (Inr u, f') \<Longrightarrow> load f' = Inr s"
    and failed_save: "good s \<Longrightarrow> save io s f = (Inl e, f') \<Longrightarrow> load f' = load f \<or> load f' = Inr s"
begin

text \<open>An update ends in the old state or the modified one, and in the modified one when it reports success.\<close>

lemma update_reflects:
  assumes "load f = Inr s" and "\<And>s'. g s = Inr s' \<Longrightarrow> good s'" and "update_store load save g io f = (r, f')"
  shows "load f' = Inr s \<and> r \<noteq> Inr () \<or> (\<exists>s'. g s = Inr s' \<and> load f' = Inr s')"
proof (cases "g s")
  case (Inl e)
  then show ?thesis using assms by (auto simp: update_store_def)
next
  case (Inr s')
  then have "save io s' f = (r, f')" using assms by (simp add: update_store_def)
  then show ?thesis
    using Inr assms(1,2) load_saved [of s' io f] failed_save [of s' io f] by (cases r) auto
qed

text \<open>A property of states that every modification keeps is kept by every update, failing or not.\<close>

lemma update_keeps:
  assumes "\<exists>s. load f = Inr s \<and> P s" and "\<And>s s'. P s \<Longrightarrow> g s = Inr s' \<Longrightarrow> P s' \<and> good s'"
  shows "\<exists>s. load (snd (update_store load save g io f)) = Inr s \<and> P s"
proof -
  obtain s where s: "load f = Inr s" "P s" using assms(1) by blast
  obtain r f' where u: "update_store load save g io f = (r, f')" by fastforce
  have "load f' = Inr s \<and> r \<noteq> Inr () \<or> (\<exists>s'. g s = Inr s' \<and> load f' = Inr s')"
    by (rule update_reflects [OF s(1) _ u]) (use assms(2) s(2) in blast)
  then show ?thesis using u s assms(2) by auto
qed

lemma updates_keep:
  assumes "\<exists>s. load f = Inr s \<and> P s"
    and "\<And>g io s s'. (g, io) \<in> set us \<Longrightarrow> P s \<Longrightarrow> g s = Inr s' \<Longrightarrow> P s' \<and> good s'"
  shows "\<exists>s. load (foldl (\<lambda>f u. snd (update_store load save (fst u) (snd u) f)) f us) = Inr s \<and> P s"
  using assms
proof (induction us arbitrary: f)
  case (Cons u us)
  have "\<exists>s. load (snd (update_store load save (fst u) (snd u) f)) = Inr s \<and> P s"
    by (rule update_keeps [OF Cons.prems(1)]) (use Cons.prems(2) [of "fst u" "snd u"] in auto)
  then have "\<exists>s. load (foldl (\<lambda>f u. snd (update_store load save (fst u) (snd u) f))
      (snd (update_store load save (fst u) (snd u) f)) us) = Inr s \<and> P s"
    by (rule Cons.IH) (use Cons.prems(2) in \<open>meson list.set_intros(2)\<close>)
  then show ?case by simp
qed simp

end

end
