(* ===== verification/ThreadState.thy ===== *)
theory ThreadState
  imports WorkTree
begin

text \<open>
  \<open>src/src/ai/AiThreadStateDurability.cpp\<close> and the state record of
  \<open>src/src/api/support/ThreadCompaction.h\<close>: the compaction state of an AI thread is kept in
  a database table and, for projects with a manifest, in a JSON file of the project's Git work
  tree (\<open>WorkTree\<close>). The thread and project tables are data of the world. Thread ids are path
  components, without slash or NUL.

  The lemmas show the round trip of the file format, that what was persisted is what a restore
  into an empty database brings back, and that a database which passes the ownership audit loses
  no state of a known thread.
\<close>

record thread_state =
  ts_thread_id :: string
  ts_rolling_summary :: "string option"
  ts_pinned_facts_json :: "string option"
  ts_last_compacted_message_id :: "string option"
  ts_updated_at :: int

record state_world =
  sw_threads :: "(string \<times> string) list"
  sw_projects :: "project list"
  sw_manifest :: "string \<Rightarrow> bool"
  sw_trees :: "string \<Rightarrow> worktree"
  sw_table :: "(string \<times> thread_state) list"

definition relative_path :: "string \<Rightarrow> string list result" where
  "relative_path thread_id = sharded_path ''ai_thread_state'' ''thread_id too short for state path'' thread_id"

definition state_json :: "thread_state \<Rightarrow> json" where
  "state_json s = json_object
     [(''version'', JInt 1), (''thread_id'', JStr (ts_thread_id s)),
      (''rolling_summary'', opt_json (ts_rolling_summary s)),
      (''pinned_facts_json'', opt_json (ts_pinned_facts_json s)),
      (''last_compacted_message_id'', opt_json (ts_last_compacted_message_id s)),
      (''updated_at'', JInt (ts_updated_at s))]"

definition encode_state :: "json_lib \<Rightarrow> state_env \<Rightarrow> project \<Rightarrow> thread_state \<Rightarrow> string result" where
  "encode_state lib env p s = encode_blob env ''thread state'' p (lib_dump2 lib (state_json s) @ [newline])"

definition opt_string_field :: "json \<Rightarrow> string \<Rightarrow> string option result" where
  "opt_string_field body k =
     (case json_get k body of
        None \<Rightarrow> Inr None
      | Some v \<Rightarrow> if v = JNull then Inr None else andthen (get_string v) (\<lambda>s. Inr (Some s)))"

definition decode_body :: "json_lib \<Rightarrow> json \<Rightarrow> thread_state result" where
  "decode_body lib body =
     (if \<not> is_object body then Inl JsonTypeError
      else andthen (case json_get ''version'' body of None \<Rightarrow> Inr 0 | Some v \<Rightarrow> get_int32 lib v) (\<lambda>version.
        if version \<noteq> 1 then Inl (RuntimeError ''unsupported AI thread state version'')
        else andthen (andthen (json_at body ''thread_id'') get_string) (\<lambda>thread_id.
             andthen (opt_string_field body ''rolling_summary'') (\<lambda>rolling_summary.
             andthen (opt_string_field body ''pinned_facts_json'') (\<lambda>pinned_facts_json.
             andthen (opt_string_field body ''last_compacted_message_id'') (\<lambda>last_id.
             andthen (andthen (json_at body ''updated_at'') (get_int lib)) (\<lambda>updated_at.
               if thread_id = [] then Inl (RuntimeError ''AI thread state has no thread_id'')
               else Inr \<lparr>ts_thread_id = thread_id, ts_rolling_summary = rolling_summary,
                         ts_pinned_facts_json = pinned_facts_json,
                         ts_last_compacted_message_id = last_id, ts_updated_at = updated_at\<rparr>)))))))"

definition decode_state :: "json_lib \<Rightarrow> state_env \<Rightarrow> project \<Rightarrow> string \<Rightarrow> thread_state result" where
  "decode_state lib env p raw =
     andthen (decode_blob env ''thread state'' p raw) (\<lambda>plain.
       case lib_parse lib plain of None \<Rightarrow> Inl JsonParseError | Some body \<Rightarrow> decode_body lib body)"

text \<open>\<open>INSERT ... ON CONFLICT(thread_id) DO UPDATE\<close>; \<open>ok\<close> tells whether SQLite accepts it.\<close>

definition upsert_projection :: "bool \<Rightarrow> thread_state \<Rightarrow> state_world \<Rightarrow> unit result \<times> state_world" where
  "upsert_projection ok s w =
     (if ok then (Inr (), w\<lparr>sw_table := AList.update (ts_thread_id s) s (sw_table w)\<rparr>)
      else (Inl (RuntimeError ''restore AI thread state failed''), w))"

definition find_project :: "string \<Rightarrow> state_world \<Rightarrow> project option" where
  "find_project pid w = find (\<lambda>p. p_id p = pid) (sw_projects w)"

definition persist_thread_compaction_state ::
  "json_lib \<Rightarrow> state_env \<Rightarrow> thread_state \<Rightarrow> state_world \<Rightarrow> bool result \<times> state_world" where
  "persist_thread_compaction_state lib env s w =
     (case map_of (sw_threads w) (ts_thread_id s) of
        None \<Rightarrow> (Inr False, w)
      | Some pid \<Rightarrow>
          case find_project pid w of
            None \<Rightarrow> (Inl (RuntimeError ''project missing for AI thread state''), w)
          | Some p \<Rightarrow>
              if \<not> sw_manifest w (p_root p) then (Inr False, w)
              else case andthen (relative_path (ts_thread_id s)) (\<lambda>path.
                          andthen (encode_state lib env p s) (\<lambda>content.
                            env_write env path content (sw_trees w (p_root p)))) of
                     Inl e \<Rightarrow> (Inl e, w)
                   | Inr tree \<Rightarrow> (Inr True, w\<lparr>sw_trees := (sw_trees w)(p_root p := tree)\<rparr>))"

definition has_file :: "state_world \<Rightarrow> string \<Rightarrow> string list \<Rightarrow> bool" where
  "has_file w root path \<longleftrightarrow> map_of (sw_trees w root) path \<noteq> None"

text \<open>The loop of the backfill over the rows of the table, in \<open>thread_id\<close> order.\<close>

fun backfill_rows ::
  "json_lib \<Rightarrow> state_env \<Rightarrow> thread_state list \<Rightarrow> nat \<Rightarrow> state_world \<Rightarrow> nat result \<times> state_world" where
  "backfill_rows lib env [] n w = (Inr n, w)"
| "backfill_rows lib env (s # ss) n w =
     (case map_of (sw_threads w) (ts_thread_id s) of
        None \<Rightarrow> backfill_rows lib env ss n w
      | Some pid \<Rightarrow>
          case find_project pid w of
            None \<Rightarrow> backfill_rows lib env ss n w
          | Some p \<Rightarrow>
              case relative_path (ts_thread_id s) of
                Inl e \<Rightarrow> (Inl e, w)
              | Inr path \<Rightarrow>
                  if has_file w (p_root p) path then backfill_rows lib env ss n w
                  else case persist_thread_compaction_state lib env s w of
                         (Inl e, w') \<Rightarrow> (Inl e, w')
                       | (Inr b, w') \<Rightarrow> backfill_rows lib env ss (if b then Suc n else n) w')"

definition backfill_thread_compaction_states ::
  "json_lib \<Rightarrow> state_env \<Rightarrow> bool \<Rightarrow> state_world \<Rightarrow> nat result \<times> state_world" where
  "backfill_thread_compaction_states lib env prepared w =
     (if \<not> prepared then (Inl (RuntimeError ''prepare AI thread state backfill failed''), w)
      else backfill_rows lib env (sort_key ts_thread_id (map snd (sw_table w))) 0 w)"

definition is_state_file :: "string list \<Rightarrow> bool" where
  "is_state_file path = is_copy_file ''ai_thread_state'' path"

definition restore_entry ::
  "json_lib \<Rightarrow> state_env \<Rightarrow> project \<Rightarrow> string list \<times> string \<Rightarrow> state_world \<Rightarrow> unit result \<times> state_world" where
  "restore_entry lib env p entry w =
     (case decode_state lib env p (snd entry) of
        Inl e \<Rightarrow> (Inl e, w)
      | Inr s \<Rightarrow>
          if last (fst entry) \<noteq> ts_thread_id s @ ''.json''
          then (Inl (RuntimeError ''AI thread state path does not match thread_id''), w)
          else if map_of (sw_threads w) (ts_thread_id s) \<noteq> Some (p_id p)
          then (Inl (RuntimeError ''AI thread state references an unknown thread''), w)
          else upsert_projection True s w)"

fun restore_entries ::
  "json_lib \<Rightarrow> state_env \<Rightarrow> project \<Rightarrow> worktree \<Rightarrow> nat \<Rightarrow> state_world \<Rightarrow> nat result \<times> state_world" where
  "restore_entries lib env p [] n w = (Inr n, w)"
| "restore_entries lib env p (e # es) n w =
     (if \<not> is_state_file (fst e) then restore_entries lib env p es n w
      else case restore_entry lib env p e w of
             (Inl x, w') \<Rightarrow> (Inl x, w')
           | (Inr _, w') \<Rightarrow> restore_entries lib env p es (Suc n) w')"

fun restore_projects ::
  "json_lib \<Rightarrow> state_env \<Rightarrow> project list \<Rightarrow> nat \<Rightarrow> state_world \<Rightarrow> nat result \<times> state_world" where
  "restore_projects lib env [] n w = (Inr n, w)"
| "restore_projects lib env (p # ps) n w =
     (case restore_entries lib env p (sw_trees w (p_root p)) n w of
        (Inl x, w') \<Rightarrow> (Inl x, w')
      | (Inr n', w') \<Rightarrow> restore_projects lib env ps n' w')"

definition restore_thread_compaction_states ::
  "json_lib \<Rightarrow> state_env \<Rightarrow> state_world \<Rightarrow> nat result \<times> state_world" where
  "restore_thread_compaction_states lib env w = restore_projects lib env (sw_projects w) 0 w"

text \<open>The rows of the audit: the state table joined with the threads and their projects.\<close>

definition joined_states :: "state_world \<Rightarrow> (string \<times> string) list" where
  "joined_states w =
     List.map_filter (\<lambda>i. map_option (\<lambda>p. (i, p_root p))
         (Option.bind (map_of (sw_threads w) i) (\<lambda>pid. find_project pid w)))
       (sort (map fst (sw_table w)))"

definition all_thread_compaction_states_are_durable :: "bool \<Rightarrow> state_world \<Rightarrow> bool result" where
  "all_thread_compaction_states_are_durable prepared w =
     (if \<not> prepared then Inl (RuntimeError ''prepare AI thread state ownership audit failed'')
      else rows_durable relative_path (sw_trees w) (joined_states w))"

subsection \<open>Lemmas: the file format\<close>

definition state_reads_back :: "json_lib \<Rightarrow> thread_state \<Rightarrow> bool" where
  "state_reads_back lib s \<longleftrightarrow> lib_parse lib (lib_dump2 lib (state_json s) @ [newline]) = Some (state_json s)"

lemma decode_body_state_json:
  assumes "ts_thread_id s \<noteq> []"
  shows "decode_body lib (state_json s) = Inr s"
proof -
  have o: "is_object (state_json s)" by (simp add: state_json_def)
  have g: "json_get ''version'' (state_json s) = Some (JInt 1)"
    "json_get ''thread_id'' (state_json s) = Some (JStr (ts_thread_id s))"
    "json_get ''rolling_summary'' (state_json s) = Some (opt_json (ts_rolling_summary s))"
    "json_get ''pinned_facts_json'' (state_json s) = Some (opt_json (ts_pinned_facts_json s))"
    "json_get ''last_compacted_message_id'' (state_json s) = Some (opt_json (ts_last_compacted_message_id s))"
    "json_get ''updated_at'' (state_json s) = Some (JInt (ts_updated_at s))"
    by (simp_all add: state_json_def json_get_object)
  have f: "json_get k (state_json s) = Some (opt_json v) \<Longrightarrow> opt_string_field (state_json s) k = Inr v" for k v
    by (cases v) (simp_all add: opt_string_field_def opt_json_def)
  show ?thesis
    using assms o g(1,2,6) f [OF g(3)] f [OF g(4)] f [OF g(5)] by (simp add: decode_body_def json_at_def)
qed

lemma decode_encode_state:
  assumes "env_ok env" and "state_reads_back lib s" and "ts_thread_id s \<noteq> []"
    and "encode_state lib env p s = Inr c"
  shows "decode_state lib env p c = Inr s"
  using assms decode_body_state_json [OF assms(3)] decode_encode_blob [OF assms(1)]
  by (auto simp: encode_state_def decode_state_def state_reads_back_def)

lemma relative_path_state_file:
  "relative_path i = Inr path \<Longrightarrow> is_state_file path \<and> last path = i @ ''.json''"
  unfolding relative_path_def is_state_file_def by (rule sharded_path_file)

interpretation thread_copies: row_copies ts_thread_id "\<lambda>s. relative_path (ts_thread_id s)" is_state_file
    "\<lambda>s. map_of threads (ts_thread_id s)" for threads
  by unfold_locales (auto simp: relative_path_state_file, auto simp: relative_path_def dest: sharded_path_inj)

subsection \<open>Lemmas: restoring\<close>

abbreviation state_ok :: "json_lib \<Rightarrow> state_env \<Rightarrow> state_world \<Rightarrow> project \<Rightarrow> string list \<times> string \<Rightarrow> bool" where
  "state_ok lib env w \<equiv> copy_ok (\<lambda>s. relative_path (ts_thread_id s)) is_state_file (decode_state lib env)
     (\<lambda>s. map_of (sw_threads w) (ts_thread_id s))"

definition world_ok :: "json_lib \<Rightarrow> state_env \<Rightarrow> state_world \<Rightarrow> bool" where
  "world_ok lib env w \<longleftrightarrow>
     trees_ok (\<lambda>s. relative_path (ts_thread_id s)) is_state_file (decode_state lib env)
       (\<lambda>s. map_of (sw_threads w) (ts_thread_id s)) (sw_projects w) (sw_trees w)"

abbreviation states_of :: "json_lib \<Rightarrow> state_env \<Rightarrow> project \<Rightarrow> worktree \<Rightarrow> thread_state list" where
  "states_of lib env \<equiv> copies_of is_state_file (decode_state lib env)"

lemma restore_entries_table:
  assumes "\<forall>e \<in> set es. state_ok lib env w p e"
  shows "restore_entries lib env p es n w =
    (Inr (n + length (states_of lib env p es)), w\<lparr>sw_table := put_rows ts_thread_id (sw_table w) (states_of lib env p es)\<rparr>)"
  using assms
proof (induction es arbitrary: n w)
  case Nil
  then show ?case by (simp add: copies_of_def)
next
  case (Cons e es)
  show ?case
  proof (cases "is_state_file (fst e)")
    case False
    then show ?thesis using Cons by (simp add: copies_of_def)
  next
    case True
    then obtain s where s: "decode_state lib env p (snd e) = Inr s"
      "last (fst e) = ts_thread_id s @ ''.json''" "map_of (sw_threads w) (ts_thread_id s) = Some (p_id p)"
      using Cons.prems relative_path_state_file by (force simp: copy_ok_def)
    let ?w = "w\<lparr>sw_table := AList.update (ts_thread_id s) s (sw_table w)\<rparr>"
    have "\<forall>e \<in> set es. state_ok lib env ?w p e" using Cons.prems by simp
    from Cons.IH [OF this, of "Suc n"] show ?thesis
      using True s by (simp add: restore_entry_def upsert_projection_def copies_of_def)
  qed
qed

lemma restore_projects_table:
  assumes "\<forall>p \<in> set ps. \<forall>e \<in> set (sw_trees w (p_root p)). state_ok lib env w p e"
  shows "restore_projects lib env ps n w =
    (Inr (n + length (all_copies is_state_file (decode_state lib env) ps (sw_trees w))),
     w\<lparr>sw_table := put_rows ts_thread_id (sw_table w) (all_copies is_state_file (decode_state lib env) ps (sw_trees w))\<rparr>)"
  using assms
proof (induction ps arbitrary: n w)
  case Nil
  then show ?case by (simp add: all_copies_def)
next
  case (Cons p ps)
  let ?ss = "states_of lib env p (sw_trees w (p_root p))"
  let ?w = "w\<lparr>sw_table := put_rows ts_thread_id (sw_table w) ?ss\<rparr>"
  have "\<forall>p \<in> set ps. \<forall>e \<in> set (sw_trees ?w (p_root p)). state_ok lib env ?w p e" using Cons.prems by simp
  from Cons.IH [OF this, of "n + length ?ss"] show ?case
    using restore_entries_table [of "sw_trees w (p_root p)" lib env w p n] Cons.prems
    by (simp add: all_copies_def)
qed

lemma restore_table:
  assumes "world_ok lib env w"
  shows "\<exists>n. restore_thread_compaction_states lib env w =
    (Inr n, w\<lparr>sw_table := put_rows ts_thread_id (sw_table w) (all_copies is_state_file (decode_state lib env) (sw_projects w) (sw_trees w))\<rparr>)"
  unfolding restore_thread_compaction_states_def
  by (subst restore_projects_table) (use assms in \<open>auto simp: world_ok_def trees_ok_def\<close>)

lemma persist_True_cases:
  assumes "persist_thread_compaction_state lib env s w = (Inr True, w1)"
  obtains p path c tree where "map_of (sw_threads w) (ts_thread_id s) = Some (p_id p)"
    "p \<in> set (sw_projects w)" "relative_path (ts_thread_id s) = Inr path"
    "encode_state lib env p s = Inr c" "env_write env path c (sw_trees w (p_root p)) = Inr tree"
    "w1 = w\<lparr>sw_trees := (sw_trees w)(p_root p := tree)\<rparr>"
proof -
  obtain pid where pid: "map_of (sw_threads w) (ts_thread_id s) = Some pid"
    using assms by (auto simp: persist_thread_compaction_state_def split: option.splits)
  then obtain p where p: "find_project pid w = Some p"
    using assms by (auto simp: persist_thread_compaction_state_def split: option.splits)
  then have "p \<in> set (sw_projects w)" "p_id p = pid"
    by (auto simp: find_project_def find_Some_iff)
  then show thesis
    using assms pid p that
    by (auto simp: persist_thread_compaction_state_def andthen_eq_Inr split: if_splits sum.splits)
qed

text \<open>The state files that exist are those of the table's rows, as persisting after each change keeps them.\<close>

definition states_current :: "json_lib \<Rightarrow> state_env \<Rightarrow> state_world \<Rightarrow> bool" where
  "states_current lib env w \<longleftrightarrow>
     (\<forall>s p path c. (ts_thread_id s, s) \<in> set (sw_table w) \<and> p \<in> set (sw_projects w) \<and>
        map_of (sw_threads w) (ts_thread_id s) = Some (p_id p) \<and> relative_path (ts_thread_id s) = Inr path \<and>
        (path, c) \<in> set (sw_trees w (p_root p)) \<longrightarrow> decode_state lib env p c = Inr s)"

lemma joined_states_in:
  assumes "world_ok lib env w" and "i \<in> fst ` set (sw_table w)" and "p \<in> set (sw_projects w)"
    and "map_of (sw_threads w) i = Some (p_id p)"
  shows "(i, p_root p) \<in> set (joined_states w)"
proof -
  have "find_project (p_id p) w = Some p"
    using assms(1,3) find_by_key [of p_id "sw_projects w" p] by (simp add: find_project_def world_ok_def trees_ok_def)
  then have "map_option (\<lambda>p. (i, p_root p)) (Option.bind (map_of (sw_threads w) i) (\<lambda>pid. find_project pid w)) = Some (i, p_root p)"
    using assms(4) by simp
  then show ?thesis using assms(2) unfolding joined_states_def map_filter_def
    by (force simp del: bind_eq_Some_conv map_option_eq_Some)
qed

lemma audited_states_restored:
  assumes ok: "world_ok lib env w" and cur: "states_current lib env w"
    and audit: "all_thread_compaction_states_are_durable prepared w = Inr True"
    and s: "(ts_thread_id s, s) \<in> set (sw_table w)" and p: "p \<in> set (sw_projects w)"
    and own: "map_of (sw_threads w) (ts_thread_id s) = Some (p_id p)"
  shows "\<exists>n w2. restore_thread_compaction_states lib env (w\<lparr>sw_table := table\<rparr>) = (Inr n, w2) \<and>
    map_of (sw_table w2) (ts_thread_id s) = Some s"
proof -
  have rd: "rows_durable relative_path (sw_trees w) (joined_states w) = Inr True"
    using audit by (simp add: all_thread_compaction_states_are_durable_def split: if_splits)
  have j: "(ts_thread_id s, p_root p) \<in> set (joined_states w)"
    by (rule joined_states_in [OF ok _ p own]) (use s in force)
  have "map_of (put_rows ts_thread_id table (all_copies is_state_file (decode_state lib env) (sw_projects w) (sw_trees w)))
      (ts_thread_id s) = Some s"
    by (rule thread_copies.audited_found [OF ok [unfolded world_ok_def] p rd j refl])
      (use cur s p own in \<open>auto simp: states_current_def\<close>)
  moreover have "world_ok lib env (w\<lparr>sw_table := table\<rparr>)" using ok by (simp add: world_ok_def)
  ultimately show ?thesis using restore_table [of lib env "w\<lparr>sw_table := table\<rparr>"] by auto
qed

subsection \<open>Properties\<close>


definition sample_state :: thread_state where
  "sample_state = \<lparr>ts_thread_id = ''abcd'', ts_rolling_summary = Some ''sum'', ts_pinned_facts_json = None,
                   ts_last_compacted_message_id = None, ts_updated_at = 12\<rparr>"

definition sample_env :: state_env where
  "sample_env = \<lparr>env_write = (\<lambda>path c t. Inr (AList.update path c t)),
                 env_encrypt = (\<lambda>_ _ c. rev c), env_decrypt = (\<lambda>_ _ c. Inr (rev c))\<rparr>"

definition sample_state_lib :: json_lib where
  "sample_state_lib = \<lparr>lib_parse = (\<lambda>_. Some (state_json sample_state)), lib_dump = (\<lambda>_. ''x''),
                       lib_dump2 = (\<lambda>_. ''x''), lib_trunc = (\<lambda>_. 0)\<rparr>"

definition sample_state_world :: state_world where
  "sample_state_world =
     \<lparr>sw_threads = [(''abcd'', ''p1'')],
      sw_projects = [\<lparr>p_id = ''p1'', p_root = ''/r'', p_privacy_mode = ''encrypted_git'', p_key_id = Some ''k''\<rparr>],
      sw_manifest = (\<lambda>_. True), sw_trees = (\<lambda>_. []), sw_table = []\<rparr>"


end
