(* ===== verification/Registry.thy ===== *)
theory Registry
  imports Store Paths ThreadState JsonCodec
begin

text \<open>
  \<open>src/src/platform/ProjectRegistry.cpp\<close>: the file that remembers which project roots exist
  and which were removed, so that a database rebuild finds the ones and not the others.

  The maps are ordered association lists and a \<open>std::set\<close> of roots is a sorted list without
  repetitions. \<open>canonical_path_string\<close> asks the file system and is the field \<open>re_canon\<close>
  of the environment, next to the queries on directories and metadata files; the JSON package is
  \<open>re_lib\<close>. The registry file is absent, unreadable or a text.
\<close>

subsection \<open>Data\<close>

record registry =
  rg_version :: int
  rg_projects :: "(string, string) amap"
  rg_removed :: "(string, string list) amap"

datatype registry_file = Absent | Unreadable | Contents string

record registry_env =
  re_lib :: json_lib
  re_canon :: "string \<Rightarrow> string"
  re_exists :: "string \<Rightarrow> bool"
  re_is_directory :: "string \<Rightarrow> bool"
  re_read :: "string \<Rightarrow> string option"
  re_entries :: "string \<Rightarrow> string list"

definition empty_registry :: registry where
  "empty_registry = \<lparr>rg_version = 1, rg_projects = [], rg_removed = []\<rparr>"

text \<open>\<open>removed[id].insert(root)\<close>\<close>

definition removed_roots :: "registry \<Rightarrow> string \<Rightarrow> string list" where
  "removed_roots st i = (case map_of (rg_removed st) i of None \<Rightarrow> [] | Some roots \<Rightarrow> roots)"

definition add_removed :: "string \<Rightarrow> string \<Rightarrow> registry \<Rightarrow> registry" where
  "add_removed i root st = st\<lparr>rg_removed := amap_put i (insort_insert root (removed_roots st i)) (rg_removed st)\<rparr>"

definition put_project :: "string \<Rightarrow> string \<Rightarrow> registry \<Rightarrow> registry" where
  "put_project i root st = st\<lparr>rg_projects := amap_put i root (rg_projects st)\<rparr>"

subsection \<open>Loading and saving\<close>

text \<open>A name that holds a non-empty string.\<close>

definition entry_field :: "json \<Rightarrow> string \<Rightarrow> string option" where
  "entry_field item name =
     (case json_get name item of Some (JStr s) \<Rightarrow> if s = [] then None else Some s | _ \<Rightarrow> None)"

fun read_entries ::
  "registry_env \<Rightarrow> string \<Rightarrow> bool \<Rightarrow> json list \<Rightarrow> registry \<Rightarrow> registry result" where
  "read_entries env path removed [] st = Inr st"
| "read_entries env path removed (item # items) st =
     (case (entry_field item ''project_id'', entry_field item ''root_path'') of
        (Some i, Some root) \<Rightarrow>
          read_entries env path removed items
            (if removed then add_removed i (re_canon env root) st else put_project i (re_canon env root) st)
      | _ \<Rightarrow> Inl (RuntimeError (''invalid project registry entry: '' @ path)))"

definition has_array :: "string \<Rightarrow> json \<Rightarrow> bool" where
  "has_array name body = (case json_get name body of None \<Rightarrow> False | Some j \<Rightarrow> is_array j)"

definition array_at :: "string \<Rightarrow> json \<Rightarrow> json list" where
  "array_at name body = (case json_get name body of None \<Rightarrow> [] | Some j \<Rightarrow> array_items j)"

definition registry_version :: "json_lib \<Rightarrow> json \<Rightarrow> int result" where
  "registry_version lib body =
     (if \<not> is_object body then Inl JsonTypeError
      else case json_get ''version'' body of None \<Rightarrow> Inr 0 | Some v \<Rightarrow> get_int32 lib v)"

definition load_registry :: "registry_env \<Rightarrow> string \<Rightarrow> registry_file \<Rightarrow> registry result" where
  "load_registry env path f =
     (case f of
        Absent \<Rightarrow> Inr empty_registry
      | Unreadable \<Rightarrow> Inl (RuntimeError (''failed to open project registry: '' @ path))
      | Contents text \<Rightarrow>
          (case lib_parse (re_lib env) text of
             None \<Rightarrow> Inl JsonParseError
           | Some body \<Rightarrow>
               andthen (registry_version (re_lib env) body) (\<lambda>version.
                 if (version \<noteq> 1 \<and> version \<noteq> 2) \<or> \<not> has_array ''projects'' body \<or>
                    (version = 2 \<and> \<not> has_array ''removed_projects'' body)
                 then Inl (RuntimeError (''unsupported project registry format: '' @ path))
                 else andthen (read_entries env path False (array_at ''projects'' body)
                                 (empty_registry\<lparr>rg_version := version\<rparr>))
                        (\<lambda>st. if version = 2 then read_entries env path True (array_at ''removed_projects'' body) st
                              else Inr st))))"

definition entry_json :: "string \<times> string \<Rightarrow> json" where
  "entry_json e = json_object [(''project_id'', JStr (fst e)), (''root_path'', JStr (snd e))]"

definition removed_pairs :: "registry \<Rightarrow> (string \<times> string) list" where
  "removed_pairs st = concat (map (\<lambda>(i, roots). map (\<lambda>root. (i, root)) roots) (rg_removed st))"

definition registry_json :: "registry \<Rightarrow> json" where
  "registry_json st =
     json_object ([(''version'', JInt (rg_version st)), (''projects'', JArr (map entry_json (rg_projects st)))] @
       (if rg_version st = 2 then [(''removed_projects'', JArr (map entry_json (removed_pairs st)))] else []))"

definition save_registry ::
  "registry_env \<Rightarrow> string \<Rightarrow> io_fault \<Rightarrow> registry \<Rightarrow> registry_file \<Rightarrow> unit result \<times> registry_file" where
  "save_registry env path io st f =
     (let f' = Contents (lib_dump2 (re_lib env) (registry_json st) @ [newline])
      in case io of
           OpenFails \<Rightarrow> (Inl (RuntimeError (''failed to write project registry: '' @ path)), f)
         | FlushFails \<Rightarrow> (Inl (RuntimeError (''failed to flush project registry: '' @ path)), f)
         | TempChmodFails \<Rightarrow> (Inl (RuntimeError (''failed to restrict project registry permissions: '' @ path)), f)
         | RenameFails \<Rightarrow> (Inl (RuntimeError ''failed to replace project registry''), f)
         | ChmodFails \<Rightarrow> (Inl (RuntimeError (''failed to restrict project registry permissions: '' @ path)), f')
         | IoOk \<Rightarrow> (Inr (), f'))"

subsection \<open>Discovery\<close>

definition validate_project :: "project \<Rightarrow> unit result" where
  "validate_project p =
     (if p_id p = [] \<or> p_root p = []
      then Inl (InvalidArgument ''project registry requires project_id and root_path'') else Inr ())"

definition looks_like_project :: "registry_env \<Rightarrow> string \<Rightarrow> bool" where
  "looks_like_project env root \<longleftrightarrow>
     re_is_directory env root \<and>
     (re_exists env (path_join root ''cards'') \<or>
      re_exists env (path_join (path_join root ''trash'') ''cards'') \<or>
      re_exists env (path_join root ''ai_messages'') \<or>
      re_exists env (path_join root ''resources'') \<or>
      re_exists env (path_join root ''locations'') \<or>
      re_exists env (path_join (path_join root ''.holder'') ''privacy.json'') \<or>
      re_exists env (path_join (path_join root ''.holder'') ''project.json''))"

fun identity_from :: "registry_env \<Rightarrow> string \<Rightarrow> string list \<Rightarrow> string" where
  "identity_from env root [] = []"
| "identity_from env root (name # names) =
     (case Option.bind (re_read env (path_join (path_join root ''.holder'') name)) (lib_parse (re_lib env)) of
        None \<Rightarrow> identity_from env root names
      | Some body \<Rightarrow>
          (case entry_field body ''project_id'' of
             Some i \<Rightarrow> i
           | None \<Rightarrow> identity_from env root names))"

definition project_identity :: "registry_env \<Rightarrow> string \<Rightarrow> string" where
  "project_identity env root = identity_from env root [''project.json'', ''privacy.json'']"

definition removed_root :: "registry_env \<Rightarrow> registry \<Rightarrow> string \<Rightarrow> bool" where
  "removed_root env st root =
     (let path = re_canon env root; i = project_identity env root
      in if i \<noteq> [] \<and> map_of (rg_projects st) i = Some path then False
         else if i \<noteq> [] \<and> amap_has (rg_removed st) i then True
         else \<exists>e \<in> set (rg_removed st). path \<in> set (snd e))"

text \<open>The elements of a \<open>std::set<path>\<close>: paths compare element by element.\<close>

definition path_set :: "string list \<Rightarrow> string list" where
  "path_set ps = sort_key path_parts (remdups ps)"

definition registry_roots :: "registry_env \<Rightarrow> string \<Rightarrow> registry_file \<Rightarrow> string list result" where
  "registry_roots env path f =
     andthen (load_registry env path f) (\<lambda>st. Inr (path_set (map snd (rg_projects st))))"

definition discovered_candidates :: "registry_env \<Rightarrow> string \<Rightarrow> registry \<Rightarrow> string list" where
  "discovered_candidates env managed_root st =
     path_set (map snd (rg_projects st) @
       (if re_is_directory env managed_root
        then map (re_canon env) (filter (looks_like_project env) (re_entries env managed_root)) else []))"

definition discover_roots :: "registry_env \<Rightarrow> string \<Rightarrow> string \<Rightarrow> registry_file \<Rightarrow> string list result" where
  "discover_roots env path managed_root f =
     andthen (load_registry env path f) (\<lambda>st.
       Inr (filter (\<lambda>root. \<not> removed_root env st root) (discovered_candidates env managed_root st)))"

subsection \<open>The updates\<close>

fun remember_all :: "registry_env \<Rightarrow> project list \<Rightarrow> registry \<Rightarrow> registry result" where
  "remember_all env [] st = Inr st"
| "remember_all env (p # ps) st =
     andthen (validate_project p) (\<lambda>_.
       if amap_has (rg_removed st) (p_id p) \<and> \<not> amap_has (rg_projects st) (p_id p) then remember_all env ps st
       else remember_all env ps (put_project (p_id p) (re_canon env (p_root p)) st))"

definition forget_project :: "registry_env \<Rightarrow> project \<Rightarrow> registry \<Rightarrow> registry" where
  "forget_project env p st =
     (let st1 = add_removed (p_id p) (re_canon env (p_root p)) (st\<lparr>rg_version := 2\<rparr>)
      in case map_of (rg_projects st1) (p_id p) of
           None \<Rightarrow> st1
         | Some previous \<Rightarrow>
             (add_removed (p_id p) previous st1)
               \<lparr>rg_projects := filter (\<lambda>e. fst e \<noteq> p_id p) (rg_projects st1)\<rparr>)"

definition registry_remember ::
  "registry_env \<Rightarrow> string \<Rightarrow> project list \<Rightarrow> io_fault \<Rightarrow> registry_file \<Rightarrow> unit result \<times> registry_file" where
  "registry_remember env path ps io f =
     update_store (load_registry env path) (save_registry env path) (remember_all env ps) io f"

definition registry_forget ::
  "registry_env \<Rightarrow> string \<Rightarrow> project \<Rightarrow> io_fault \<Rightarrow> registry_file \<Rightarrow> unit result \<times> registry_file" where
  "registry_forget env path p io f =
     (case validate_project p of
        Inl e \<Rightarrow> (Inl e, f)
      | Inr _ \<Rightarrow>
          update_store (load_registry env path) (save_registry env path) (\<lambda>st. Inr (forget_project env p st)) io f)"

definition registry_restore ::
  "registry_env \<Rightarrow> string \<Rightarrow> project \<Rightarrow> io_fault \<Rightarrow> registry_file \<Rightarrow> unit result \<times> registry_file" where
  "registry_restore env path p io f =
     (case validate_project p of
        Inl e \<Rightarrow> (Inl e, f)
      | Inr _ \<Rightarrow>
          update_store (load_registry env path) (save_registry env path)
            (\<lambda>st. Inr (put_project (p_id p) (re_canon env (p_root p)) st)) io f)"

subsection \<open>Lemmas: the ordered maps\<close>

lemma amap_put_above: "\<forall>e \<in> set m. fst e < k \<Longrightarrow> amap_put k v m = m @ [(k, v)]"
  by (induction m) auto

lemma amap_put_last: "\<forall>e \<in> set m. fst e < k \<Longrightarrow> amap_put k v (m @ [(k, u)]) = m @ [(k, v)]"
  by (induction m) auto

lemma amap_wf_snoc: "amap_wf (m @ [(k, v)]) \<longleftrightarrow> amap_wf m \<and> (\<forall>e \<in> set m. fst e < k)"
  by (auto simp: amap_wf_def sorted_wrt_append)

lemma map_of_above: "\<forall>e \<in> set m. fst e < (k :: 'k :: linorder) \<Longrightarrow> map_of m k = None"
  by (auto simp: map_of_eq_None_iff)

lemma insort_insert_above: "\<forall>x \<in> set xs. x < y \<Longrightarrow> insort_insert y xs = xs @ [y]"
proof -
  assume a: "\<forall>x \<in> set xs. x < y"
  then have "insort y xs = xs @ [y]" by (induction xs) auto
  then show ?thesis using a by (auto simp: insort_insert_key_def)
qed

lemma amap_wf_remove: "amap_wf m \<Longrightarrow> map_of (filter (\<lambda>e. fst e \<noteq> k) m) j = (if j = k then None else map_of m j)"
  by (induction m) (auto simp: amap_wf_def)

subsection \<open>Lemmas: loading what was saved\<close>

definition entry_ok :: "registry_env \<Rightarrow> string \<Rightarrow> string \<Rightarrow> bool" where
  "entry_ok env i root \<longleftrightarrow> i \<noteq> [] \<and> root \<noteq> [] \<and> re_canon env root = root"

definition roots_ok :: "registry_env \<Rightarrow> string \<times> string list \<Rightarrow> bool" where
  "roots_ok env e \<longleftrightarrow> snd e \<noteq> [] \<and> sorted (snd e) \<and> distinct (snd e) \<and> (\<forall>root \<in> set (snd e). entry_ok env (fst e) root)"

text \<open>The invariant of the states the registry passes through.\<close>

definition registry_ok :: "registry_env \<Rightarrow> registry \<Rightarrow> bool" where
  "registry_ok env st \<longleftrightarrow>
     (rg_version st = 1 \<and> rg_removed st = [] \<or> rg_version st = 2) \<and>
     amap_wf (rg_projects st) \<and> amap_wf (rg_removed st) \<and>
     (\<forall>e \<in> set (rg_projects st). entry_ok env (fst e) (snd e)) \<and>
     (\<forall>e \<in> set (rg_removed st). roots_ok env e)"

text \<open>What the registry needs of its environment: dumped registries parse back, canonical paths are stable.\<close>

definition registry_env_ok :: "registry_env \<Rightarrow> bool" where
  "registry_env_ok env \<longleftrightarrow>
     (\<forall>st. lib_parse (re_lib env) (lib_dump2 (re_lib env) (registry_json st) @ [newline]) = Some (registry_json st)) \<and>
     (\<forall>p. re_canon env (re_canon env p) = re_canon env p) \<and> (\<forall>p. p \<noteq> [] \<longrightarrow> re_canon env p \<noteq> [])"

lemma entry_field_json:
  "i \<noteq> [] \<Longrightarrow> root \<noteq> [] \<Longrightarrow>
   entry_field (entry_json (i, root)) ''project_id'' = Some i \<and> entry_field (entry_json (i, root)) ''root_path'' = Some root"
  by (simp add: entry_field_def entry_json_def json_get_object)

lemma read_entries_append:
  "read_entries env path b (xs @ ys) st = andthen (read_entries env path b xs st) (read_entries env path b ys)"
  by (induction env path b xs st rule: read_entries.induct) (auto split: option.splits)

lemma read_projects:
  assumes "amap_wf m" and "\<forall>e \<in> set m. entry_ok env (fst e) (snd e)" and "rg_projects st = []"
  shows "read_entries env path False (map entry_json m) st = Inr (st\<lparr>rg_projects := m\<rparr>)"
  using assms
proof (induction m rule: rev_induct)
  case Nil
  then show ?case by simp
next
  case (snoc e m)
  obtain i root where e: "e = (i, root)" by (cases e)
  have wf: "amap_wf m" "\<forall>x \<in> set m. fst x < i" using snoc.prems(1) by (simp_all add: e amap_wf_snoc)
  have ok: "entry_ok env i root" using snoc.prems(2) e by simp
  have "read_entries env path False (map entry_json m) st = Inr (st\<lparr>rg_projects := m\<rparr>)"
    using snoc wf by simp
  then show ?case
    using ok entry_field_json [of i root] amap_put_above [OF wf(2)]
    by (simp add: read_entries_append e put_project_def entry_ok_def)
qed

lemma read_removed_roots:
  assumes "rg_removed st = m" and "\<forall>x \<in> set m. fst x < i" and "sorted roots" and "distinct roots"
    and "\<forall>root \<in> set roots. entry_ok env i root"
  shows "read_entries env path True (map (\<lambda>root. entry_json (i, root)) roots) st =
    Inr (st\<lparr>rg_removed := (if roots = [] then m else m @ [(i, roots)])\<rparr>)"
  using assms
proof (induction roots rule: rev_induct)
  case Nil
  then show ?case by simp
next
  case (snoc root roots)
  let ?st = "st\<lparr>rg_removed := (if roots = [] then m else m @ [(i, roots)])\<rparr>"
  have lt: "\<forall>x \<in> set roots. x < root" using snoc.prems(3,4) by (auto simp: sorted_append order.strict_iff_order)
  have "sorted roots" using snoc.prems(3) by (simp add: sorted_append)
  then have prev: "read_entries env path True (map (\<lambda>root. entry_json (i, root)) roots) st = Inr ?st"
    using snoc by simp
  have "removed_roots ?st i = roots"
    using map_of_above [OF snoc.prems(2)] by (auto simp: removed_roots_def map_add_Some_iff split: option.splits)
  then have "add_removed i root ?st = st\<lparr>rg_removed := m @ [(i, roots @ [root])]\<rparr>"
    using insort_insert_above [OF lt] amap_put_above [OF snoc.prems(2)] amap_put_last [OF snoc.prems(2)]
    by (simp add: add_removed_def)
  moreover have "entry_ok env i root" using snoc.prems(5) by simp
  ultimately show ?case
    using prev entry_field_json [of i root] by (simp add: read_entries_append entry_ok_def)
qed

lemma read_removed:
  assumes "amap_wf m" and "\<forall>e \<in> set m. roots_ok env e" and "rg_removed st = []"
  shows "read_entries env path True
      (map entry_json (concat (map (\<lambda>(i, roots). map (\<lambda>root. (i, root)) roots) m))) st = Inr (st\<lparr>rg_removed := m\<rparr>)"
  using assms
proof (induction m rule: rev_induct)
  case Nil
  then show ?case by simp
next
  case (snoc e m)
  obtain i roots where e: "e = (i, roots)" by (cases e)
  have wf: "amap_wf m" "\<forall>x \<in> set m. fst x < i" using snoc.prems(1) by (simp_all add: e amap_wf_snoc)
  have "read_entries env path True
      (map entry_json (concat (map (\<lambda>(i, roots). map (\<lambda>root. (i, root)) roots) m))) st = Inr (st\<lparr>rg_removed := m\<rparr>)"
    using snoc wf by simp
  then show ?case
    using read_removed_roots [of "st\<lparr>rg_removed := m\<rparr>" m i roots env path] wf(2) snoc.prems(2)
    by (simp add: read_entries_append e comp_def roots_ok_def)
qed

lemma load_registry_saved:
  assumes "registry_env_ok env" and "registry_ok env st"
  shows "load_registry env path (Contents (lib_dump2 (re_lib env) (registry_json st) @ [newline])) = Inr st"
proof -
  have get: "json_get ''version'' (registry_json st) = Some (JInt (rg_version st))"
    "json_get ''projects'' (registry_json st) = Some (JArr (map entry_json (rg_projects st)))"
    "rg_version st = 2 \<Longrightarrow> json_get ''removed_projects'' (registry_json st) = Some (JArr (map entry_json (removed_pairs st)))"
    by (simp_all add: registry_json_def json_get_object)
  have ver: "rg_version st = 1 \<or> rg_version st = 2" using assms(2) by (auto simp: registry_ok_def)
  have "registry_version (re_lib env) (registry_json st) = Inr (rg_version st)"
    using get(1) ver by (auto simp: registry_version_def registry_json_def)
  moreover have p: "read_entries env path False (map entry_json (rg_projects st)) (empty_registry\<lparr>rg_version := rg_version st\<rparr>)
      = Inr (empty_registry\<lparr>rg_version := rg_version st, rg_projects := rg_projects st\<rparr>)"
    using assms(2) by (subst read_projects) (auto simp: registry_ok_def empty_registry_def)
  moreover have "read_entries env path True (map entry_json (removed_pairs st))
      (empty_registry\<lparr>rg_version := rg_version st, rg_projects := rg_projects st\<rparr>) = Inr st"
    unfolding removed_pairs_def using assms(2)
    by (subst read_removed) (auto simp: registry_ok_def empty_registry_def)
  ultimately show ?thesis
    using assms get ver
    by (auto simp: load_registry_def registry_env_ok_def has_array_def array_at_def registry_ok_def empty_registry_def)
qed

interpretation rstore: atomic_store "load_registry env path" "save_registry env path"
    "\<lambda>st. registry_env_ok env \<and> registry_ok env st" for env path
  using load_registry_saved
  by unfold_locales (auto simp: save_registry_def Let_def split: io_fault.splits)

subsection \<open>Lemmas: the updates\<close>

lemma set_amap_put: "set (amap_put k v m) \<subseteq> insert (k, v) (set m)"
  by (induction m) auto

lemma put_project_ok: "registry_ok env st \<Longrightarrow> entry_ok env i root \<Longrightarrow> registry_ok env (put_project i root st)"
  using set_amap_put [of i root "rg_projects st"]
  by (auto simp: registry_ok_def put_project_def amap_wf_put)

lemma removed_roots_ok:
  "registry_ok env st \<Longrightarrow> sorted (removed_roots st i) \<and> distinct (removed_roots st i) \<and>
     (\<forall>root \<in> set (removed_roots st i). entry_ok env i root)"
  by (auto simp: registry_ok_def roots_ok_def removed_roots_def split: option.splits dest!: map_of_SomeD)

lemma add_removed_ok:
  assumes "registry_ok env st" and "rg_version st = 2" and "entry_ok env i root"
  shows "registry_ok env (add_removed i root st)"
proof -
  let ?roots = "insort_insert root (removed_roots st i)"
  have "root \<in> set ?roots" by (simp add: set_insort_insert)
  then have "?roots \<noteq> []" by auto
  then have new: "roots_ok env (i, ?roots)"
    using removed_roots_ok [OF assms(1), of i] assms(3)
    by (auto simp: roots_ok_def sorted_insort_insert distinct_insort_insert set_insort_insert)
  have "\<forall>e \<in> set (rg_removed st). roots_ok env e" using assms(1) by (simp add: registry_ok_def)
  then have "\<forall>e \<in> set (amap_put i ?roots (rg_removed st)). roots_ok env e"
    using set_amap_put [of i ?roots "rg_removed st"] new by blast
  moreover have "amap_wf (amap_put i ?roots (rg_removed st))" using assms(1) by (intro amap_wf_put) (simp add: registry_ok_def)
  moreover have "rg_projects (add_removed i root st) = rg_projects st"
    "rg_removed (add_removed i root st) = amap_put i ?roots (rg_removed st)"
    "rg_version (add_removed i root st) = 2"
    using assms(2) by (simp_all add: add_removed_def)
  ultimately show ?thesis using assms(1) unfolding registry_ok_def by presburger
qed

lemma forget_project_ok:
  assumes "registry_ok env st" and "entry_ok env (p_id p) (re_canon env (p_root p))"
  shows "registry_ok env (forget_project env p st)"
proof -
  let ?st1 = "add_removed (p_id p) (re_canon env (p_root p)) (st\<lparr>rg_version := 2\<rparr>)"
  have "registry_ok env (st\<lparr>rg_version := 2\<rparr>)" using assms(1) by (auto simp: registry_ok_def)
  then have ok1: "registry_ok env ?st1" using add_removed_ok assms(2) by auto
  have v1: "rg_version ?st1 = 2" by (simp add: add_removed_def)
  show ?thesis
  proof (cases "map_of (rg_projects ?st1) (p_id p)")
    case None
    then show ?thesis using ok1 by (simp add: forget_project_def Let_def)
  next
    case (Some prev)
    then have "(p_id p, prev) \<in> set (rg_projects ?st1)" by (rule map_of_SomeD)
    then have "entry_ok env (p_id p) prev" using ok1 by (fastforce simp: registry_ok_def)
    then have "registry_ok env (add_removed (p_id p) prev ?st1)" using add_removed_ok ok1 v1 by blast
    moreover have "rg_projects (add_removed (p_id p) prev ?st1) = rg_projects ?st1" by (simp add: add_removed_def)
    ultimately show ?thesis
      using Some amap_wf_filter by (auto simp: forget_project_def Let_def registry_ok_def)
  qed
qed

lemma validate_entry_ok:
  "registry_env_ok env \<Longrightarrow> validate_project p = Inr u \<Longrightarrow> entry_ok env (p_id p) (re_canon env (p_root p))"
  by (auto simp: registry_env_ok_def validate_project_def entry_ok_def split: if_splits)

text \<open>A project was removed and not brought back; \<open>roots\<close> are its recorded places.\<close>

definition forgotten :: "string \<Rightarrow> string set \<Rightarrow> registry \<Rightarrow> bool" where
  "forgotten i roots st \<longleftrightarrow> map_of (rg_projects st) i = None \<and> amap_has (rg_removed st) i \<and> roots \<subseteq> set (removed_roots st i)"

lemma removed_roots_add:
  "removed_roots (add_removed j root st) i = (if i = j then insort_insert root (removed_roots st i) else removed_roots st i)"
  by (simp add: removed_roots_def add_removed_def map_of_amap_put)

lemma forgotten_add_removed: "forgotten i roots st \<Longrightarrow> forgotten i roots (add_removed j root st)"
  by (auto simp: forgotten_def removed_roots_add set_insort_insert)
    (auto simp: add_removed_def amap_has_def map_of_amap_put)

lemma forgotten_put_project: "forgotten i roots st \<Longrightarrow> j \<noteq> i \<Longrightarrow> forgotten i roots (put_project j root st)"
  by (simp add: forgotten_def put_project_def removed_roots_def map_of_amap_put)

lemma forgotten_version: "forgotten i roots (st\<lparr>rg_version := v\<rparr>) = forgotten i roots st"
  by (simp add: forgotten_def removed_roots_def)

lemma forgotten_forget:
  assumes "forgotten i roots st"
  shows "forgotten i roots (forget_project env p st)"
proof -
  have 1: "forgotten i roots (add_removed (p_id p) (re_canon env (p_root p)) (st\<lparr>rg_version := 2\<rparr>))" (is "forgotten i roots ?st1")
    using assms by (intro forgotten_add_removed) (simp add: forgotten_version)
  show ?thesis
  proof (cases "map_of (rg_projects ?st1) (p_id p)")
    case None
    then show ?thesis using 1 by (simp add: forget_project_def Let_def)
  next
    case (Some prev)
    have "map_of (filter (\<lambda>e. fst e \<noteq> p_id p) (rg_projects ?st1)) i = None"
      using 1 by (auto simp: forgotten_def map_of_eq_None_iff)
    then show ?thesis
      using Some forgotten_add_removed [OF 1, of "p_id p" prev]
      by (simp add: forget_project_def Let_def forgotten_def removed_roots_def)
  qed
qed

lemma forget_forgets:
  assumes "registry_ok env st"
  shows "forgotten (p_id p) (insert (re_canon env (p_root p)) (set_option (map_of (rg_projects st) (p_id p))))
    (forget_project env p st)"
proof -
  let ?st1 = "add_removed (p_id p) (re_canon env (p_root p)) (st\<lparr>rg_version := 2\<rparr>)"
  have pr: "rg_projects ?st1 = rg_projects st" by (simp add: add_removed_def)
  have has: "amap_has (rg_removed (add_removed (p_id p) r s)) (p_id p)" for r s
    by (simp add: add_removed_def amap_has_def map_of_amap_put)
  have wf: "amap_wf (rg_projects st)" using assms by (simp add: registry_ok_def)
  show ?thesis
  proof (cases "map_of (rg_projects st) (p_id p)")
    case None
    then show ?thesis
      using pr has by (simp add: forget_project_def Let_def forgotten_def removed_roots_add set_insort_insert)
  next
    case (Some prev)
    let ?st2 = "add_removed (p_id p) prev ?st1"
    have "re_canon env (p_root p) \<in> set (removed_roots ?st2 (p_id p))" "prev \<in> set (removed_roots ?st2 (p_id p))"
      by (simp_all add: removed_roots_add set_insort_insert)
    then show ?thesis
      using Some pr has [of prev ?st1] amap_wf_remove [OF wf, of "p_id p" "p_id p"]
      by (simp add: forget_project_def Let_def forgotten_def removed_roots_def)
  qed
qed

lemma remember_all_keeps:
  "remember_all env ps st = Inr st' \<Longrightarrow> registry_env_ok env \<Longrightarrow> registry_ok env st \<Longrightarrow>
   registry_ok env st' \<and> (forgotten i roots st \<longrightarrow> forgotten i roots st')"
proof (induction env ps st rule: remember_all.induct)
  case (2 env p ps st)
  then obtain u where v: "validate_project p = Inr u" by (cases "validate_project p") auto
  note ok = put_project_ok [OF 2(5) validate_entry_ok [OF 2(4) v]]
  show ?case
  proof (cases "amap_has (rg_removed st) (p_id p) \<and> \<not> amap_has (rg_projects st) (p_id p)")
    case True
    then show ?thesis using 2 v by simp
  next
    case False
    then have "forgotten i roots st \<Longrightarrow> p_id p \<noteq> i" by (auto simp: forgotten_def amap_has_def)
    then have "forgotten i roots st \<longrightarrow> forgotten i roots (put_project (p_id p) (re_canon env (p_root p)) st)"
      using forgotten_put_project by blast
    then show ?thesis using 2(2) [OF False] 2(3,4) v ok False by auto
  qed
qed simp

subsection \<open>Operations on the file\<close>

text \<open>The three updates as one type, with the answer of the file system to each.\<close>

datatype registry_op = Remember "project list" | Forget project | Restore project

fun op_modify :: "registry_env \<Rightarrow> registry_op \<Rightarrow> registry \<Rightarrow> registry result" where
  "op_modify env (Remember ps) st = remember_all env ps st"
| "op_modify env (Forget p) st = andthen (validate_project p) (\<lambda>_. Inr (forget_project env p st))"
| "op_modify env (Restore p) st =
     andthen (validate_project p) (\<lambda>_. Inr (put_project (p_id p) (re_canon env (p_root p)) st))"

fun run_op :: "registry_env \<Rightarrow> string \<Rightarrow> registry_file \<Rightarrow> registry_op \<times> io_fault \<Rightarrow> unit result \<times> registry_file" where
  "run_op env path f (Remember ps, io) = registry_remember env path ps io f"
| "run_op env path f (Forget p, io) = registry_forget env path p io f"
| "run_op env path f (Restore p, io) = registry_restore env path p io f"

lemma run_op_update:
  "snd (run_op env path f u) =
     snd (update_store (load_registry env path) (save_registry env path) (op_modify env (fst u)) (snd u) f)"
proof (cases u)
  case (Pair op io)
  show ?thesis
  proof (cases op)
    case (Remember ps)
    then show ?thesis
      by (cases "load_registry env path f") (simp_all add: Pair registry_remember_def update_store_def)
  next
    case (Forget p)
    then show ?thesis
      by (cases "validate_project p"; cases "load_registry env path f")
        (simp_all add: Pair registry_forget_def update_store_def)
  next
    case (Restore p)
    then show ?thesis
      by (cases "validate_project p"; cases "load_registry env path f")
        (simp_all add: Pair registry_restore_def update_store_def)
  qed
qed

lemma op_modify_ok:
  "registry_env_ok env \<Longrightarrow> registry_ok env st \<Longrightarrow> op_modify env op st = Inr st' \<Longrightarrow> registry_ok env st'"
  using remember_all_keeps [of env _ st st'] validate_entry_ok [of env] forget_project_ok put_project_ok
  by (cases op) (auto simp: andthen_eq_Inr)

lemma op_modify_forgotten:
  assumes "registry_env_ok env" and "registry_ok env st" and "op_modify env op st = Inr st'"
    and "forgotten i roots st" and "\<forall>p. op = Restore p \<longrightarrow> p_id p \<noteq> i"
  shows "forgotten i roots st'"
  using assms remember_all_keeps [of env _ st st' i roots] forgotten_forget forgotten_put_project
  by (cases op) (auto simp: andthen_eq_Inr)

text \<open>A run: the operations one after the other, whatever each of them returns.\<close>

definition run_ops :: "registry_env \<Rightarrow> string \<Rightarrow> (registry_op \<times> io_fault) list \<Rightarrow> registry_file \<Rightarrow> registry_file" where
  "run_ops env path us f = foldl (\<lambda>f u. snd (run_op env path f u)) f us"

lemma run_ops_keep:
  assumes env: "registry_env_ok env" and "\<exists>s. load_registry env path f = Inr s \<and> registry_ok env s \<and> Q s"
    and "\<And>op io s s'. (op, io) \<in> set us \<Longrightarrow> registry_ok env s \<Longrightarrow> Q s \<Longrightarrow> op_modify env op s = Inr s' \<Longrightarrow> Q s'"
  shows "\<exists>s. load_registry env path (run_ops env path us f) = Inr s \<and> registry_ok env s \<and> Q s"
proof -
  have "\<exists>s. load_registry env path (foldl (\<lambda>f u. snd (update_store (load_registry env path) (save_registry env path)
      (fst u) (snd u) f)) f (map (\<lambda>u. (op_modify env (fst u), snd u)) us)) = Inr s \<and> registry_ok env s \<and> Q s"
    by (rule rstore.updates_keep [OF assms(2)]) (use assms(3) env op_modify_ok in \<open>auto\<close>)
  then show ?thesis by (simp add: run_ops_def run_op_update foldl_map)
qed

subsection \<open>Properties\<close>

text \<open>
  C37 The registry survives failing writes. From a registry file that is absent or holds a
  well-formed registry, any sequence of remember, forget and restore operations, each with any
  outcome of the file operations behind it, leaves a file that loads, into a well-formed
  registry; and an operation that reports success has stored exactly its modification of what the
  file held before.
\<close>

theorem registry_stays_loadable:
  assumes env: "registry_env_ok env" and f: "f = Absent \<or> (\<exists>s. load_registry env path f = Inr s \<and> registry_ok env s)"
  shows "\<exists>s. load_registry env path (run_ops env path us f) = Inr s \<and> registry_ok env s \<and>
    (\<forall>op io f'. run_op env path (run_ops env path us f) (op, io) = (Inr (), f') \<longrightarrow>
       (\<exists>s'. op_modify env op s = Inr s' \<and> load_registry env path f' = Inr s' \<and> registry_ok env s'))"
proof -
  have "\<exists>s. load_registry env path f = Inr s \<and> registry_ok env s \<and> True"
    using f by (auto simp: load_registry_def registry_ok_def empty_registry_def)
  from run_ops_keep [OF env this, of us] obtain s
    where s: "load_registry env path (run_ops env path us f) = Inr s" "registry_ok env s" by blast
  have "\<exists>s'. op_modify env op s = Inr s' \<and> load_registry env path f' = Inr s' \<and> registry_ok env s'"
    if r: "run_op env path (run_ops env path us f) (op, io) = (Inr (), f')" for op io f'
  proof -
    let ?f = "run_ops env path us f"
    have ok: "fst (update_store (load_registry env path) (save_registry env path) (op_modify env op) io ?f) = Inr ()"
      using r by (cases op) (auto simp: registry_remember_def registry_forget_def registry_restore_def update_store_def
          s(1) split: sum.splits)
    have "snd (update_store (load_registry env path) (save_registry env path) (op_modify env op) io ?f) = f'"
      using run_op_update [of env path ?f "(op, io)"] r by simp
    with ok have u: "update_store (load_registry env path) (save_registry env path) (op_modify env op) io ?f = (Inr (), f')"
      by (metis prod.collapse)
    from rstore.update_reflects [OF s(1) _ this] show ?thesis
      using op_modify_ok [OF env s(2)] env by auto
  qed
  then show ?thesis using s by blast
qed

definition sample_registry_env :: registry_env where
  "sample_registry_env =
     \<lparr>re_lib = codec_lib, re_canon = id, re_exists = (\<lambda>_. True), re_is_directory = (\<lambda>_. True),
      re_read = (\<lambda>p. if p = ''/p/a/.holder/project.json'' then Some (enc (json_object [(''project_id'', JStr ''a'')])) else None),
      re_entries = (\<lambda>_. [''/p/a'', ''/p/b''])\<rparr>"

lemma sample_registry_env_ok: "registry_env_ok sample_registry_env"
  by (simp add: registry_env_ok_def sample_registry_env_def)

theorem registry_stays_loadable_witness:
  "\<exists>s. load_registry sample_registry_env ''r'' (run_ops sample_registry_env ''r''
     [(Remember [\<lparr>p_id = ''a'', p_root = ''/p/a'', p_privacy_mode = [], p_key_id = None\<rparr>], ChmodFails)] Absent) = Inr s \<and>
     registry_ok sample_registry_env s"
  using registry_stays_loadable [OF sample_registry_env_ok, of Absent "''r''"
      "[(Remember [\<lparr>p_id = ''a'', p_root = ''/p/a'', p_privacy_mode = [], p_key_id = None\<rparr>], ChmodFails)]"]
  by blast


definition sample_registry_project :: project where
  "sample_registry_project = \<lparr>p_id = ''a'', p_root = ''/p/a'', p_privacy_mode = [], p_key_id = None\<rparr>"


end
