(* ===== verification/DeviceConfig.thy ===== *)
theory DeviceConfig
  imports NudgeLaws Registry
begin

text \<open>
  \<open>src/src/platform/DeviceConfigStore.cpp\<close>: the file that keeps the settings of the device (the
  configured local models, the manual runners, the provider settings) outside the disposable
  database.

  The repositories of runners and of provider settings belong to another package and are
  parameters; what the store needs of them is the locale \<open>keyed_table\<close>. The file is absent,
  unreadable or a text, as in \<open>Registry\<close>; failing to create its directory counts as failing to
  open the temporary file.
\<close>

subsection \<open>Tables with keys\<close>

locale keyed_table =
  fixes key :: "'v \<Rightarrow> string"
    and rows :: "'d \<Rightarrow> 'v list"
    and upsert :: "'v \<Rightarrow> 'd \<Rightarrow> 'd"
    and remove :: "string \<Rightarrow> 'd \<Rightarrow> 'd"
    and good :: "'d \<Rightarrow> bool"
  assumes good_upsert: "good d \<Longrightarrow> good (upsert v d)"
    and good_remove: "good d \<Longrightarrow> good (remove k d)"
    and distinct_rows: "good d \<Longrightarrow> distinct (map key (rows d))"
    and upsert_new: "good d \<Longrightarrow> key v \<notin> key ` set (rows d) \<Longrightarrow> set (rows (upsert v d)) = insert v (set (rows d))"
    and rows_remove: "good d \<Longrightarrow> set (rows (remove k d)) = {v \<in> set (rows d). key v \<noteq> k}"
begin

lemma remove_all:
  "good d \<Longrightarrow> good (foldl (\<lambda>d k. remove k d) d ks) \<and>
   set (rows (foldl (\<lambda>d k. remove k d) d ks)) = {v \<in> set (rows d). key v \<notin> set ks}"
proof (induction ks arbitrary: d)
  case (Cons k ks)
  have g: "good (remove k d)" using Cons.prems good_remove by simp
  show ?case using Cons.IH [OF g] rows_remove [OF Cons.prems, of k] by auto
qed simp

lemma upsert_all:
  "good d \<Longrightarrow> distinct (map key vs) \<Longrightarrow> key ` set vs \<inter> key ` set (rows d) = {} \<Longrightarrow>
   good (foldl (\<lambda>d v. upsert v d) d vs) \<and> set (rows (foldl (\<lambda>d v. upsert v d) d vs)) = set (rows d) \<union> set vs"
proof (induction vs arbitrary: d)
  case (Cons v vs)
  have g: "good (upsert v d)" using Cons.prems good_upsert by simp
  have s: "set (rows (upsert v d)) = insert v (set (rows d))" by (rule upsert_new) (use Cons.prems in auto)
  have "key ` set vs \<inter> key ` set (rows (upsert v d)) = {}" using Cons.prems(2,3) s by auto
  then show ?case using Cons.IH [OF g] Cons.prems(2) s by auto
qed simp

text \<open>Replacing the rows that satisfy a condition.\<close>

lemma replace_rows:
  assumes "good d" and "distinct (map key vs)" and "key ` set vs \<inter> key ` {v \<in> set (rows d). \<not> P v} = {}"
  shows "set (rows (foldl (\<lambda>d v. upsert v d) (foldl (\<lambda>d k. remove k d) d (map key (filter P (rows d)))) vs))
    = {v \<in> set (rows d). \<not> P v} \<union> set vs"
proof -
  let ?d = "foldl (\<lambda>d k. remove k d) d (map key (filter P (rows d)))"
  have inj: "inj_on key (set (rows d))" using distinct_rows [OF assms(1)] by (simp add: distinct_map)
  have "set (rows ?d) = {v \<in> set (rows d). \<not> P v}"
    using remove_all [OF assms(1), of "map key (filter P (rows d))"] inj by (auto dest: inj_onD)
  then show ?thesis using upsert_all [of ?d vs] remove_all [OF assms(1)] assms(2,3) by simp
qed

end

text \<open>A table held as an association list, as the tables of this development are.\<close>

interpretation alist: keyed_table key "map snd" "\<lambda>v d. AList.update (key v) v d" AList.delete
    "\<lambda>d. distinct (map fst d) \<and> (\<forall>(k, v) \<in> set d. k = key v)" for key
proof
  fix d :: "(string \<times> 'a) list" and v k
  assume g: "distinct (map fst d) \<and> (\<forall>(k, v) \<in> set d. k = key v)"
  have up: "set (AList.update k v d) \<subseteq> insert (k, v) (set d)" for k v by (induction d) auto
  show "distinct (map fst (AList.update (key v) v d)) \<and> (\<forall>(k, w) \<in> set (AList.update (key v) v d). k = key w)"
    using g up [of "key v" v] by (auto intro: distinct_update)
  show "distinct (map fst (AList.delete k d)) \<and> (\<forall>(k, w) \<in> set (AList.delete k d). k = key w)"
    using g by (auto simp: AList.delete_eq distinct_map inj_on_def)
  have "map key (map snd d) = map fst d" using g by (auto simp: case_prod_beta)
  then show "distinct (map key (map snd d))" using g by metis
  show "set (map snd (AList.update (key v) v d)) = insert v (set (map snd d))" if n: "key v \<notin> key ` set (map snd d)"
  proof -
    have "key v \<notin> fst ` set d" using n g by force
    then have "AList.update (key v) v d = d @ [(key v, v)]" by (induction d) auto
    then show ?thesis by simp
  qed
  show "set (map snd (AList.delete k d)) = {w \<in> set (map snd d). key w \<noteq> k}"
    using g by (auto simp: AList.delete_eq image_iff)
qed

subsection \<open>The store\<close>

record provider_setting =
  pv_provider :: string
  pv_enabled :: bool
  pv_updated_at :: int

record ('v, 'd) table_ops =
  tb_list :: "'d \<Rightarrow> 'v list"
  tb_upsert :: "'v \<Rightarrow> 'd \<Rightarrow> 'd"
  tb_remove :: "string \<Rightarrow> 'd \<Rightarrow> 'd"

record ('r, 's) device_db =
  dv_local :: "local_config option"
  dv_runners :: 'r
  dv_settings :: 's

record ('r, 's) device_env =
  de_lib :: json_lib
  de_runners :: "(runner, 'r) table_ops"
  de_settings :: "(provider_setting, 's) table_ops"

definition local_json :: "local_config \<Rightarrow> json" where
  "local_json c = json_object
     [(''fast_model'', opt_json (lc_fast c)), (''strong_model'', opt_json (lc_strong c)),
      (''deep_model'', opt_json (lc_deep c)), (''updated_at'', JInt (lc_updated_at c))]"

definition runner_json :: "runner \<Rightarrow> json" where
  "runner_json r = json_object
     [(''runner_id'', JStr (rn_id r)), (''name'', JStr (rn_name r)), (''kind'', JStr (rn_kind r)),
      (''base_url'', opt_json (rn_base_url r)), (''source'', JStr (rn_source r)), (''enabled'', JBool (rn_enabled r)),
      (''created_at'', JInt (rn_created_at r)), (''updated_at'', JInt (rn_updated_at r))]"

definition setting_json :: "provider_setting \<Rightarrow> json" where
  "setting_json s = json_object
     [(''provider'', JStr (pv_provider s)), (''enabled'', JBool (pv_enabled s)), (''updated_at'', JInt (pv_updated_at s))]"

definition is_manual :: "runner \<Rightarrow> bool" where
  "is_manual r \<longleftrightarrow> rn_source r \<noteq> ''auto_local''"

definition device_snapshot :: "('r, 's) device_env \<Rightarrow> ('r, 's) device_db \<Rightarrow> json" where
  "device_snapshot env db = json_object
     [(''version'', JInt 1),
      (''local_model'', (case config_get (dv_local db) of None \<Rightarrow> JNull | Some c \<Rightarrow> local_json c)),
      (''manual_runners'', JArr (map runner_json (filter is_manual (tb_list (de_runners env) (dv_runners db))))),
      (''provider_settings'', JArr (map setting_json (tb_list (de_settings env) (dv_settings db))))]"

text \<open>Replacing the file through a temporary one; \<open>body\<close> is the snapshot.\<close>

definition save_device :: "json_lib \<Rightarrow> string \<Rightarrow> io_fault \<Rightarrow> json \<Rightarrow> registry_file \<Rightarrow> unit result \<times> registry_file" where
  "save_device lib path io body f =
     (let f' = Contents (lib_dump2 lib body @ [newline])
      in case io of
           OpenFails \<Rightarrow> (Inl (RuntimeError (''failed to write device config: '' @ path)), f)
         | FlushFails \<Rightarrow> (Inl (RuntimeError (''failed to flush device config: '' @ path)), f)
         | TempChmodFails \<Rightarrow> (Inl (RuntimeError (''failed to restrict device config permissions: '' @ path)), f)
         | RenameFails \<Rightarrow> (Inl (RuntimeError ''failed to replace device config''), f)
         | ChmodFails \<Rightarrow> (Inl (RuntimeError (''failed to restrict device config permissions: '' @ path)), f')
         | IoOk \<Rightarrow> (Inr (), f'))"

definition write_snapshot ::
  "('r, 's) device_env \<Rightarrow> string \<Rightarrow> io_fault \<Rightarrow> ('r, 's) device_db \<Rightarrow> registry_file \<Rightarrow> unit result \<times> registry_file" where
  "write_snapshot env path io db f = save_device (de_lib env) path io (device_snapshot env db) f"

definition load_device :: "json_lib \<Rightarrow> string \<Rightarrow> registry_file \<Rightarrow> json result" where
  "load_device lib path f =
     (case f of
        Contents text \<Rightarrow>
          (case lib_parse lib text of
             None \<Rightarrow> Inl JsonParseError
           | Some body \<Rightarrow>
               andthen (fact (get_int32 lib) body ''version'' 0) (\<lambda>version.
                 if version \<noteq> 1 then Inl (RuntimeError (''unsupported device config version: '' @ path)) else Inr body))
      | _ \<Rightarrow> Inl (RuntimeError (''failed to open device config: '' @ path)))"

definition restore_local :: "json_lib \<Rightarrow> json \<Rightarrow> local_config option \<Rightarrow> local_config option result" where
  "restore_local lib body row =
     (case json_get ''local_model'' body of
        None \<Rightarrow> Inr (config_clear row)
      | Some v \<Rightarrow>
          if v = JNull then Inr (config_clear row)
          else
            andthen (opt_string_field v ''fast_model'') (\<lambda>fast.
            andthen (opt_string_field v ''strong_model'') (\<lambda>strong.
            andthen (opt_string_field v ''deep_model'') (\<lambda>deep.
            andthen (andthen (json_at v ''updated_at'') (get_int lib)) (\<lambda>updated_at.
              Inr (config_set fast strong deep updated_at row))))))"

definition runner_of_json :: "json_lib \<Rightarrow> json \<Rightarrow> runner result" where
  "runner_of_json lib v =
     andthen (andthen (json_at v ''runner_id'') get_string) (\<lambda>runner_id.
     andthen (andthen (json_at v ''name'') get_string) (\<lambda>name.
     andthen (andthen (json_at v ''kind'') get_string) (\<lambda>kind.
     andthen (opt_string_field v ''base_url'') (\<lambda>base_url.
     andthen (andthen (json_at v ''source'') get_string) (\<lambda>source.
     andthen (andthen (json_at v ''enabled'') get_bool) (\<lambda>enabled.
     andthen (andthen (json_at v ''created_at'') (get_int lib)) (\<lambda>created_at.
     andthen (andthen (json_at v ''updated_at'') (get_int lib)) (\<lambda>updated_at.
       Inr \<lparr>rn_id = runner_id, rn_name = name, rn_kind = kind, rn_base_url = base_url, rn_source = source,
            rn_enabled = enabled, rn_created_at = created_at, rn_updated_at = updated_at\<rparr>))))))))"

definition setting_of_json :: "json_lib \<Rightarrow> json \<Rightarrow> provider_setting result" where
  "setting_of_json lib v =
     andthen (andthen (json_at v ''provider'') get_string) (\<lambda>provider.
     andthen (andthen (json_at v ''enabled'') get_bool) (\<lambda>enabled.
     andthen (andthen (json_at v ''updated_at'') (get_int lib)) (\<lambda>updated_at.
       Inr \<lparr>pv_provider = provider, pv_enabled = enabled, pv_updated_at = updated_at\<rparr>)))"

text \<open>A range-based loop over a json value: the elements of an array, the values of an object, nothing
  for null, the value itself otherwise.\<close>

fun json_items :: "json \<Rightarrow> json list" where
  "json_items (JArr xs) = xs"
| "json_items (JObj m) = map snd m"
| "json_items JNull = []"
| "json_items j = [j]"

text \<open>The loops that insert: an entry that does not parse ends them, what was inserted stays.\<close>

fun upsert_parsed :: "(json \<Rightarrow> 'v result) \<Rightarrow> ('v, 'd) table_ops \<Rightarrow> json list \<Rightarrow> 'd \<Rightarrow> unit result \<times> 'd" where
  "upsert_parsed parse ops [] d = (Inr (), d)"
| "upsert_parsed parse ops (v # vs) d =
     (case parse v of Inl e \<Rightarrow> (Inl e, d) | Inr r \<Rightarrow> upsert_parsed parse ops vs (tb_upsert ops r d))"

definition remove_keys :: "('v, 'd) table_ops \<Rightarrow> string list \<Rightarrow> 'd \<Rightarrow> 'd" where
  "remove_keys ops ks d = foldl (\<lambda>d k. tb_remove ops k d) d ks"

definition restore_unlocked ::
  "('r, 's) device_env \<Rightarrow> string \<Rightarrow> registry_file \<Rightarrow> ('r, 's) device_db \<Rightarrow> unit result \<times> ('r, 's) device_db" where
  "restore_unlocked env path f db =
     (case load_device (de_lib env) path f of
        Inl e \<Rightarrow> (Inl e, db)
      | Inr body \<Rightarrow>
          (case restore_local (de_lib env) body (dv_local db) of
             Inl e \<Rightarrow> (Inl e, db)
           | Inr row \<Rightarrow>
               (let rt = de_runners env; st = de_settings env;
                    cleared = remove_keys rt (map rn_id (filter is_manual (tb_list rt (dv_runners db)))) (dv_runners db);
                    (res, runners) = upsert_parsed (runner_of_json (de_lib env)) rt
                       (json_items (json_value body ''manual_runners'' (JArr []))) cleared;
                    db1 = db\<lparr>dv_local := row, dv_runners := runners\<rparr>
                in case res of
                     Inl e \<Rightarrow> (Inl e, db1)
                   | Inr _ \<Rightarrow>
                       (let (res2, settings) = upsert_parsed (setting_of_json (de_lib env)) st
                              (json_items (json_value body ''provider_settings'' (JArr [])))
                              (remove_keys st (map pv_provider (tb_list st (dv_settings db))) (dv_settings db))
                        in (res2, db1\<lparr>dv_settings := settings\<rparr>)))))"

text \<open>The process-wide path, and the files.\<close>

record device_store =
  ds_path :: "string option"
  ds_files :: "string \<Rightarrow> registry_file"

definition initialize_device_config ::
  "('r, 's) device_env \<Rightarrow> io_fault \<Rightarrow> string \<Rightarrow> ('r, 's) device_db \<Rightarrow> device_store \<Rightarrow>
     unit result \<times> ('r, 's) device_db \<times> device_store" where
  "initialize_device_config env io path db st =
     (let st1 = st\<lparr>ds_path := Some path\<rparr>
      in if ds_files st1 path \<noteq> Absent then
           (let (res, db') = restore_unlocked env path (ds_files st1 path) db in (res, db', st1))
         else
           (let (res, f) = write_snapshot env path io db (ds_files st1 path)
            in (res, db, st1\<lparr>ds_files := (ds_files st1)(path := f)\<rparr>)))"

definition persist_device_config ::
  "('r, 's) device_env \<Rightarrow> io_fault \<Rightarrow> ('r, 's) device_db \<Rightarrow> device_store \<Rightarrow> unit result \<times> device_store" where
  "persist_device_config env io db st =
     (case ds_path st of
        None \<Rightarrow> (Inr (), st)
      | Some path \<Rightarrow>
          (let (res, f) = write_snapshot env path io db (ds_files st path)
           in (res, st\<lparr>ds_files := (ds_files st)(path := f)\<rparr>)))"

definition restore_device_config ::
  "('r, 's) device_env \<Rightarrow> string \<Rightarrow> ('r, 's) device_db \<Rightarrow> device_store \<Rightarrow> unit result \<times> ('r, 's) device_db" where
  "restore_device_config env path db st = restore_unlocked env path (ds_files st path) db"

subsection \<open>Lemmas\<close>

lemma opt_field_json: "json_get k j = Some (opt_json v) \<Longrightarrow> opt_string_field j k = Inr v"
  by (cases v) (simp_all add: opt_string_field_def opt_json_def)

lemma runner_round_trip [simp]: "runner_of_json lib (runner_json r) = Inr r"
proof -
  have "opt_string_field (runner_json r) ''base_url'' = Inr (rn_base_url r)"
    by (rule opt_field_json) (simp add: runner_json_def json_get_object)
  then show ?thesis
    unfolding runner_of_json_def by (simp add: json_at_def) (simp add: runner_json_def json_get_object)
qed

lemma setting_round_trip [simp]: "setting_of_json lib (setting_json s) = Inr s"
  by (simp add: setting_of_json_def setting_json_def json_at_def json_get_object)

lemma upsert_parsed_map:
  "(\<And>v. parse (print v) = Inr v) \<Longrightarrow>
   upsert_parsed parse ops (map print vs) d = (Inr (), foldl (\<lambda>d v. tb_upsert ops v d) d vs)"
  by (induction vs arbitrary: d) auto

text \<open>A row of the table of configured models as \<open>config_set\<close> stores it, for names without NUL.\<close>

definition config_row_ok :: "local_config option \<Rightarrow> bool" where
  "config_row_ok row \<longleftrightarrow> (\<forall>r. row = Some r \<longrightarrow>
     (\<exists>v \<in> {lc_fast r, lc_strong r, lc_deep r}. v \<noteq> None) \<and>
     (\<forall>v \<in> {lc_fast r, lc_strong r, lc_deep r}. \<forall>s. v = Some s \<longrightarrow> s \<noteq> [] \<and> nul_free s))"

lemma normalize_nul_free: "nul_free s \<Longrightarrow> nul_free (normalize_local_runner_model_ref s)"
  by (simp add: normalize_local_runner_model_ref_def make_runner_model_ref_def kAutoLocalRunnerId_def)

lemma bind_normalized:
  "(\<forall>s. v = Some s \<longrightarrow> s \<noteq> [] \<and> nul_free s) \<Longrightarrow>
   bind_optional_text (map_option normalize_local_runner_model_ref (map_option normalize_local_runner_model_ref v)) =
     map_option normalize_local_runner_model_ref v"
  by (cases v) (simp_all add: bind_optional_text_def normalize_nul_free)

lemma config_set_keeps_ok:
  "\<forall>v \<in> {fast, strong, deep}. \<forall>s. v = Some s \<longrightarrow> nul_free s \<Longrightarrow> config_row_ok (config_set fast strong deep t row)"
  by (auto simp: config_row_ok_def config_set_def config_clear_def has_any_model_def bind_optional_text_def normalize_nul_free
      split: option.splits if_splits)

lemma config_restored:
  assumes "config_row_ok row" and "config_get row = Some c"
  shows "config_get (config_set (lc_fast c) (lc_strong c) (lc_deep c) (lc_updated_at c) row') = Some c"
proof -
  obtain r where r: "row = Some r" using assms(2) by (cases row) (auto simp: config_get_def)
  let ?n = "map_option normalize_local_runner_model_ref"
  have c: "c = r\<lparr>lc_fast := ?n (lc_fast r), lc_strong := ?n (lc_strong r), lc_deep := ?n (lc_deep r)\<rparr>"
    using assms(2) r by (simp add: config_get_def)
  have ok: "\<exists>v \<in> {lc_fast r, lc_strong r, lc_deep r}. v \<noteq> None"
    "\<And>v. v \<in> {lc_fast r, lc_strong r, lc_deep r} \<Longrightarrow> \<forall>s. v = Some s \<longrightarrow> s \<noteq> [] \<and> nul_free s"
    using assms(1) r unfolding config_row_ok_def by blast+
  have any: "has_any_model (lc_fast c) (lc_strong c) (lc_deep c)"
  proof -
    obtain v s where v: "v \<in> {lc_fast r, lc_strong r, lc_deep r}" "v = Some s" using ok(1) not_None_eq by blast
    then have "s \<noteq> []" using ok(2) by blast
    then have "normalize_local_runner_model_ref s \<noteq> []" "?n v = Some (normalize_local_runner_model_ref s)" using v(2) by simp_all
    moreover have "?n v \<in> {lc_fast c, lc_strong c, lc_deep c}" using v(1) by (auto simp: c)
    ultimately show ?thesis unfolding has_any_model_def by metis
  qed
  have b: "bind_optional_text (?n (lc_fast c)) = lc_fast c" "bind_optional_text (?n (lc_strong c)) = lc_strong c"
    "bind_optional_text (?n (lc_deep c)) = lc_deep c"
    using bind_normalized [OF ok(2), of "lc_fast r"] bind_normalized [OF ok(2), of "lc_strong r"]
      bind_normalized [OF ok(2), of "lc_deep r"] by (simp_all add: c)
  have n: "?n (lc_fast c) = lc_fast c" "?n (lc_strong c) = lc_strong c" "?n (lc_deep c) = lc_deep c"
    by (simp_all add: c option.map_comp comp_def)
  show ?thesis using any b n by (simp add: config_set_def config_get_def)
qed

lemma local_json_fields:
  "local_json c \<noteq> JNull" "opt_string_field (local_json c) ''fast_model'' = Inr (lc_fast c)"
  "opt_string_field (local_json c) ''strong_model'' = Inr (lc_strong c)"
  "opt_string_field (local_json c) ''deep_model'' = Inr (lc_deep c)"
  "json_at (local_json c) ''updated_at'' = Inr (JInt (lc_updated_at c))"
proof -
  show "local_json c \<noteq> JNull" by (simp add: local_json_def json_object_def)
  show "json_at (local_json c) ''updated_at'' = Inr (JInt (lc_updated_at c))"
    by (simp add: local_json_def json_at_def json_get_object)
qed (rule opt_field_json, simp add: local_json_def json_get_object)+

lemma snapshot_fields:
  "json_get ''local_model'' (device_snapshot env db) = Some (case config_get (dv_local db) of None \<Rightarrow> JNull | Some c \<Rightarrow> local_json c)"
  "json_value (device_snapshot env db) ''manual_runners'' d =
     JArr (map runner_json (filter is_manual (tb_list (de_runners env) (dv_runners db))))"
  "json_value (device_snapshot env db) ''provider_settings'' d = JArr (map setting_json (tb_list (de_settings env) (dv_settings db)))"
  "fact (get_int32 lib) (device_snapshot env db) ''version'' 0 = Inr 1"
  by (simp_all add: device_snapshot_def json_value_def fact_def json_get_object get_int32_def to_int32_def)

lemma restore_local_snapshot:
  assumes "config_row_ok (dv_local db)"
  obtains row' where "restore_local lib (device_snapshot env db) row = Inr row'" "config_get row' = config_get (dv_local db)"
proof (cases "config_get (dv_local db)")
  case None
  then show ?thesis using that [of "config_clear row"] by (simp add: restore_local_def snapshot_fields config_clear_def config_get_def)
next
  case (Some c)
  then show ?thesis
    using that [of "config_set (lc_fast c) (lc_strong c) (lc_deep c) (lc_updated_at c) row"] config_restored [OF assms Some]
    by (simp add: restore_local_def snapshot_fields local_json_fields)
qed

text \<open>The file as an atomic store of its contents.\<close>

interpretation dstore: atomic_store "load_device lib path" "save_device lib path"
    "\<lambda>body. lib_ok lib \<and> fact (get_int32 lib) body ''version'' 0 = Inr 1" for lib path
  by unfold_locales
    (auto simp: save_device_def load_device_def lib_ok_def Let_def split: io_fault.splits)

lemma restore_written:
  assumes runners: "keyed_table rn_id (tb_list (de_runners env)) (tb_upsert (de_runners env)) (tb_remove (de_runners env)) good_r"
    and settings: "keyed_table pv_provider (tb_list (de_settings env)) (tb_upsert (de_settings env)) (tb_remove (de_settings env)) good_s"
    and good: "good_r (dv_runners db)" "good_s (dv_settings db)" "good_r (dv_runners db0)" "good_s (dv_settings db0)"
    and row: "config_row_ok (dv_local db)" and load: "load_device (de_lib env) path f = Inr (device_snapshot env db)"
    and disj: "rn_id ` {r \<in> set (tb_list (de_runners env) (dv_runners db)). is_manual r} \<inter>
      rn_id ` {r \<in> set (tb_list (de_runners env) (dv_runners db0)). \<not> is_manual r} = {}"
  shows "\<exists>db'. restore_unlocked env path f db0 = (Inr (), db') \<and> config_get (dv_local db') = config_get (dv_local db) \<and>
    set (tb_list (de_runners env) (dv_runners db')) =
      {r \<in> set (tb_list (de_runners env) (dv_runners db)). is_manual r} \<union>
      {r \<in> set (tb_list (de_runners env) (dv_runners db0)). \<not> is_manual r} \<and>
    set (tb_list (de_settings env) (dv_settings db')) = set (tb_list (de_settings env) (dv_settings db))"
proof -
  let ?rt = "de_runners env" and ?st = "de_settings env"
  let ?rs = "filter is_manual (tb_list ?rt (dv_runners db))" and ?ss = "tb_list ?st (dv_settings db)"
  let ?r = "foldl (\<lambda>d v. tb_upsert ?rt v d) (foldl (\<lambda>d k. tb_remove ?rt k d) (dv_runners db0) (map rn_id (filter is_manual (tb_list ?rt (dv_runners db0))))) ?rs"
  let ?s = "foldl (\<lambda>d v. tb_upsert ?st v d) (foldl (\<lambda>d k. tb_remove ?st k d) (dv_settings db0) (map pv_provider (filter (\<lambda>_. True) (tb_list ?st (dv_settings db0))))) ?ss"
  obtain row' where row': "restore_local (de_lib env) (device_snapshot env db) (dv_local db0) = Inr row'"
    "config_get row' = config_get (dv_local db)" by (rule restore_local_snapshot [OF row])
  have res: "restore_unlocked env path f db0 = (Inr (), db0\<lparr>dv_local := row', dv_runners := ?r, dv_settings := ?s\<rparr>)"
    using load row'(1) by (simp add: restore_unlocked_def snapshot_fields upsert_parsed_map remove_keys_def Let_def)
  have dr: "distinct (map rn_id ?rs)"
    using keyed_table.distinct_rows [OF runners good(1)] by (simp add: distinct_map inj_on_def)
  have "set (tb_list ?rt ?r) = {r \<in> set (tb_list ?rt (dv_runners db0)). \<not> is_manual r} \<union> set ?rs"
    by (rule keyed_table.replace_rows [OF runners good(3) dr]) (use disj in simp)
  moreover have "set (tb_list ?st ?s) = {r \<in> set (tb_list ?st (dv_settings db0)). \<not> True} \<union> set ?ss"
    by (rule keyed_table.replace_rows [OF settings good(4) keyed_table.distinct_rows [OF settings good(2)]]) simp
  ultimately show ?thesis using res row'(2) by auto
qed

end
