(* ===== verification/Quota.thy ===== *)
theory Quota
  imports Prelude "HOL-Library.Multiset"
begin

text \<open>
  \<open>src/src/api/support/CloudQuota.{h,cpp}\<close>: the accounting of cloud model calls (a table of
  usage events and the window sums the admission checks read), its durable copy (a JSON ledger
  file, written through a temporary file and a rename), and the per-model cooldown after
  failures.

  The SQL tables are lists of rows: \<open>ai_cloud_usage_events\<close> with unique \<open>event_id\<close>
  (the key that \<open>INSERT OR IGNORE\<close> relies on) and \<open>ai_cloud_model_cooldowns\<close> keyed by
  provider and model. Whether SQLite or the file system fails at a statement is an argument
  (\<open>db_fault\<close>, \<open>io_fault\<close>), so every \<open>throw\<close> is a branch; the JSON package is the
  parameter \<open>lib\<close>. \<open>long long\<close> values are \<open>int\<close>; the one product that could leave 64
  bits is bounded by a lemma.
\<close>

subsection \<open>Data\<close>

record usage_row =
  u_event_id :: string
  u_provider :: string
  u_model_id :: string
  u_prompt_tokens :: int
  u_response_tokens :: int
  u_total_tokens :: int
  u_created_at :: int

record window_usage =
  wu_requests :: int
  wu_tokens :: int

record cooldown_state =
  cd_provider :: string
  cd_model_id :: string
  cd_failure_count :: int
  cd_cooldown_until :: int
  cd_last_error :: string
  cd_updated_at :: int

datatype db_fault = DbOk | PrepareFails | StepFails

text \<open>The global ledger path, the files, and the two tables.\<close>

record quota_world =
  qw_ledger_path :: "string option"
  qw_files :: "string \<Rightarrow> string option"
  qw_usage :: "usage_row list"
  qw_cooldowns :: "((string \<times> string) \<times> cooldown_state) list"

subsection \<open>The ledger file\<close>

definition empty_ledger :: json where
  "empty_ledger = json_object [(''version'', JInt 1), (''events'', JArr [])]"

definition event_json :: "usage_row \<Rightarrow> json" where
  "event_json r = json_object
     [(''event_id'', JStr (u_event_id r)), (''provider'', JStr (u_provider r)),
      (''model_id'', JStr (u_model_id r)), (''prompt_tokens'', JInt (u_prompt_tokens r)),
      (''response_tokens'', JInt (u_response_tokens r)), (''total_tokens'', JInt (u_total_tokens r)),
      (''created_at'', JInt (u_created_at r))]"

definition ledger_version :: "json_lib \<Rightarrow> json \<Rightarrow> int result" where
  "ledger_version lib body =
     (if \<not> is_object body then Inl JsonTypeError
      else case json_get ''version'' body of None \<Rightarrow> Inr 0 | Some v \<Rightarrow> get_int32 lib v)"

definition load_ledger :: "json_lib \<Rightarrow> bool \<Rightarrow> (string \<Rightarrow> string option) \<Rightarrow> string \<Rightarrow> json result" where
  "load_ledger lib readable files path =
     (case files path of
        None \<Rightarrow> Inr empty_ledger
      | Some content \<Rightarrow>
          if \<not> readable then Inl (RuntimeError ''failed to open cloud usage ledger'')
          else case lib_parse lib content of
            None \<Rightarrow> Inl JsonParseError
          | Some body \<Rightarrow>
              andthen (ledger_version lib body) (\<lambda>version.
                if version \<noteq> 1 \<or> (case json_get ''events'' body of None \<Rightarrow> True | Some ev \<Rightarrow> \<not> is_array ev)
                then Inl (RuntimeError ''unsupported cloud usage ledger format'')
                else Inr body))"

text \<open>
  \<open>write_ledger\<close>: the new content goes to a temporary file that no other writer uses and is
  renamed over the ledger. A failure before the rename leaves the ledger as it was.
\<close>

definition write_ledger ::
  "json_lib \<Rightarrow> io_fault \<Rightarrow> string \<Rightarrow> json \<Rightarrow> quota_world \<Rightarrow> unit result \<times> quota_world" where
  "write_ledger lib io path body w =
     (let w' = w\<lparr>qw_files := (qw_files w)(path \<mapsto> lib_dump2 lib body @ [newline])\<rparr>
      in case io of
           OpenFails \<Rightarrow> (Inl (RuntimeError ''failed to write cloud usage ledger''), w)
         | FlushFails \<Rightarrow> (Inl (RuntimeError ''failed to flush cloud usage ledger''), w)
         | TempChmodFails \<Rightarrow>
             (Inl (RuntimeError ''failed to restrict cloud usage ledger permissions''), w)
         | RenameFails \<Rightarrow> (Inl (RuntimeError ''failed to replace cloud usage ledger''), w)
         | ChmodFails \<Rightarrow>
             (Inl (RuntimeError ''failed to restrict cloud usage ledger permissions''), w')
         | IoOk \<Rightarrow> (Inr (), w'))"

definition row_of_json :: "json_lib \<Rightarrow> json \<Rightarrow> usage_row result" where
  "row_of_json lib ev =
     andthen (andthen (json_at ev ''event_id'') get_string) (\<lambda>event_id.
     andthen (andthen (json_at ev ''provider'') get_string) (\<lambda>provider.
     andthen (andthen (json_at ev ''model_id'') get_string) (\<lambda>model_id.
     andthen (andthen (json_at ev ''prompt_tokens'') (get_int lib)) (\<lambda>prompt_tokens.
     andthen (andthen (json_at ev ''response_tokens'') (get_int lib)) (\<lambda>response_tokens.
     andthen (andthen (json_at ev ''total_tokens'') (get_int lib)) (\<lambda>total_tokens.
     andthen (andthen (json_at ev ''created_at'') (get_int lib)) (\<lambda>created_at.
       Inr \<lparr>u_event_id = event_id, u_provider = provider, u_model_id = model_id,
            u_prompt_tokens = prompt_tokens, u_response_tokens = response_tokens,
            u_total_tokens = total_tokens, u_created_at = created_at\<rparr>)))))))"

text \<open>\<open>INSERT OR IGNORE\<close> on the unique \<open>event_id\<close>.\<close>

definition insert_or_ignore :: "usage_row \<Rightarrow> usage_row list \<Rightarrow> usage_row list" where
  "insert_or_ignore r rows =
     (if u_event_id r \<in> u_event_id ` set rows then rows else rows @ [r])"

definition insert_event ::
  "json_lib \<Rightarrow> db_fault \<Rightarrow> json \<Rightarrow> quota_world \<Rightarrow> unit result \<times> quota_world" where
  "insert_event lib fault ev w =
     (if fault = PrepareFails then (Inl (RuntimeError ''prepare cloud usage restore failed''), w)
      else case row_of_json lib ev of
          Inl e \<Rightarrow> (Inl e, w)
        | Inr r \<Rightarrow>
            if fault = StepFails then (Inl (RuntimeError ''restore cloud usage event failed''), w)
            else (Inr (), w\<lparr>qw_usage := insert_or_ignore r (qw_usage w)\<rparr>))"

text \<open>The loop over the events of a ledger; \<open>faults\<close> gives the database's answer per event.\<close>

fun insert_events ::
  "json_lib \<Rightarrow> (nat \<Rightarrow> db_fault) \<Rightarrow> json list \<Rightarrow> quota_world \<Rightarrow> unit result \<times> quota_world" where
  "insert_events lib faults [] w = (Inr (), w)"
| "insert_events lib faults (ev # evs) w =
     (case insert_event lib (faults 0) ev w of
        (Inl e, w') \<Rightarrow> (Inl e, w')
      | (Inr _, w') \<Rightarrow> insert_events lib (\<lambda>n. faults (Suc n)) evs w')"

definition ledger_events :: "json \<Rightarrow> json list" where
  "ledger_events body = (case json_get ''events'' body of None \<Rightarrow> [] | Some ev \<Rightarrow> array_items ev)"

text \<open>The scan for an event id that is already in the ledger.\<close>

fun ledger_has :: "string \<Rightarrow> json list \<Rightarrow> bool result" where
  "ledger_has event_id [] = Inr False"
| "ledger_has event_id (ev # evs) =
     (if \<not> is_object ev then Inl JsonTypeError
      else case json_get ''event_id'' ev of
          None \<Rightarrow> if event_id = [] then Inr True else ledger_has event_id evs
        | Some v \<Rightarrow> andthen (get_string v) (\<lambda>s. if s = event_id then Inr True else ledger_has event_id evs))"

definition append_durable_event ::
  "json_lib \<Rightarrow> bool \<Rightarrow> io_fault \<Rightarrow> usage_row \<Rightarrow> quota_world \<Rightarrow> unit result \<times> quota_world" where
  "append_durable_event lib readable io r w =
     (case qw_ledger_path w of
        None \<Rightarrow> (Inr (), w)
      | Some path \<Rightarrow>
          case load_ledger lib readable (qw_files w) path of
            Inl e \<Rightarrow> (Inl e, w)
          | Inr body \<Rightarrow>
              case ledger_has (u_event_id r) (ledger_events body) of
                Inl e \<Rightarrow> (Inl e, w)
              | Inr True \<Rightarrow> (Inr (), w)
              | Inr False \<Rightarrow>
                  write_ledger lib io path
                    (json_put ''events'' (JArr (ledger_events body @ [event_json r])) body) w)"

definition restore_cloud_usage_ledger ::
  "json_lib \<Rightarrow> bool \<Rightarrow> (nat \<Rightarrow> db_fault) \<Rightarrow> string \<Rightarrow> quota_world \<Rightarrow> unit result \<times> quota_world" where
  "restore_cloud_usage_ledger lib readable faults path w =
     (case load_ledger lib readable (qw_files w) path of
        Inl e \<Rightarrow> (Inl e, w)
      | Inr body \<Rightarrow> insert_events lib faults (ledger_events body) w)"

text \<open>The export query, \<open>ORDER BY created_at, event_id\<close>.\<close>

definition export_rows :: "usage_row list \<Rightarrow> usage_row list" where
  "export_rows rows = sort_key (\<lambda>r. (u_created_at r, u_event_id r)) rows"

definition initialize_cloud_usage_ledger ::
  "json_lib \<Rightarrow> bool \<Rightarrow> (nat \<Rightarrow> db_fault) \<Rightarrow> db_fault \<Rightarrow> io_fault \<Rightarrow> string \<Rightarrow> quota_world \<Rightarrow>
     unit result \<times> quota_world" where
  "initialize_cloud_usage_ledger lib readable faults export_fault io path w0 =
     (let w = w0\<lparr>qw_ledger_path := None\<rparr>
      in if qw_files w path \<noteq> None then
           (case restore_cloud_usage_ledger lib readable faults path w of
              (Inl e, w') \<Rightarrow> (Inl e, w')
            | (Inr _, w') \<Rightarrow> (Inr (), w'\<lparr>qw_ledger_path := Some path\<rparr>))
         else if export_fault = PrepareFails then
           (Inl (RuntimeError ''prepare cloud usage export failed''), w)
         else if export_fault = StepFails then (Inl (RuntimeError ''cloud usage export failed''), w)
         else case write_ledger lib io path
                (json_put ''events'' (JArr (map event_json (export_rows (qw_usage w)))) empty_ledger) w of
              (Inl e, w') \<Rightarrow> (Inl e, w')
            | (Inr _, w') \<Rightarrow> (Inr (), w'\<lparr>qw_ledger_path := Some path\<rparr>))"

subsection \<open>Usage windows\<close>

definition in_window :: "string \<Rightarrow> string \<Rightarrow> int \<Rightarrow> usage_row \<Rightarrow> bool" where
  "in_window provider model_id since r \<longleftrightarrow>
     u_provider r = provider \<and> u_model_id r = model_id \<and> since \<le> u_created_at r"

definition load_cloud_window_usage ::
  "db_fault \<Rightarrow> string \<Rightarrow> string \<Rightarrow> int \<Rightarrow> quota_world \<Rightarrow> window_usage result" where
  "load_cloud_window_usage fault provider model_id since w =
     (case fault of
        PrepareFails \<Rightarrow> Inl (RuntimeError ''prepare cloud usage query failed'')
      | StepFails \<Rightarrow> Inr \<lparr>wu_requests = 0, wu_tokens = 0\<rparr>
      | DbOk \<Rightarrow>
          let rows = filter (in_window provider model_id since) (qw_usage w)
          in Inr \<lparr>wu_requests = int (length rows), wu_tokens = sum_list (map u_total_tokens rows)\<rparr>)"

definition usage_event ::
  "string \<Rightarrow> string \<Rightarrow> int \<Rightarrow> int \<Rightarrow> int \<Rightarrow> string \<Rightarrow> nat \<Rightarrow> usage_row" where
  "usage_event provider model_id prompt_tokens response_tokens created_at seed rand =
     \<lparr>u_event_id = ''cloud-'' @ seed @ ''-'' @ int_to_string created_at @ ''-'' @ to_string rand,
      u_provider = provider, u_model_id = model_id, u_prompt_tokens = prompt_tokens,
      u_response_tokens = response_tokens, u_total_tokens = prompt_tokens + response_tokens,
      u_created_at = created_at\<rparr>"

text \<open>The ledger is written first, the table second: a plain \<open>INSERT\<close>, which a duplicate id fails.\<close>

definition record_cloud_usage_event ::
  "json_lib \<Rightarrow> bool \<Rightarrow> io_fault \<Rightarrow> db_fault \<Rightarrow> usage_row \<Rightarrow> quota_world \<Rightarrow> unit result \<times> quota_world" where
  "record_cloud_usage_event lib readable io fault r w =
     (case append_durable_event lib readable io r w of
        (Inl e, w') \<Rightarrow> (Inl e, w')
      | (Inr _, w') \<Rightarrow>
          if fault = PrepareFails then (Inl (RuntimeError ''prepare cloud usage insert failed''), w')
          else if fault = StepFails \<or> u_event_id r \<in> u_event_id ` set (qw_usage w')
          then (Inl (RuntimeError ''insert cloud usage event failed''), w')
          else (Inr (), w'\<lparr>qw_usage := qw_usage w' @ [r]\<rparr>))"

subsection \<open>Cooldowns\<close>

definition failure_cooldown_seconds :: "int \<Rightarrow> int \<Rightarrow> int \<Rightarrow> int" where
  "failure_cooldown_seconds failure_count base_seconds cap_seconds =
     (if failure_count \<le> 0 then 0
      else let safe_base = max 1 base_seconds;
               safe_cap = max safe_base cap_seconds;
               bounded = min (failure_count - 1) 5;
               raw = safe_base * 2 ^ nat bounded
           in min raw safe_cap)"

definition load_cloud_model_cooldown ::
  "db_fault \<Rightarrow> string \<Rightarrow> string \<Rightarrow> quota_world \<Rightarrow> cooldown_state option result" where
  "load_cloud_model_cooldown fault provider model_id w =
     (case fault of
        PrepareFails \<Rightarrow> Inl (RuntimeError ''prepare cloud cooldown query failed'')
      | StepFails \<Rightarrow> Inr None
      | DbOk \<Rightarrow> Inr (map_of (qw_cooldowns w) (provider, model_id)))"

definition record_cloud_model_failure ::
  "db_fault \<Rightarrow> db_fault \<Rightarrow> string \<Rightarrow> string \<Rightarrow> string \<Rightarrow> int \<Rightarrow> int \<Rightarrow> int \<Rightarrow> quota_world \<Rightarrow>
     cooldown_state result \<times> quota_world" where
  "record_cloud_model_failure load_fault fault provider model_id error now base cap w =
     (case load_cloud_model_cooldown load_fault provider model_id w of
        Inl e \<Rightarrow> (Inl e, w)
      | Inr current \<Rightarrow>
          let failure_count = (case current of None \<Rightarrow> 1 | Some c \<Rightarrow> max 1 (cd_failure_count c + 1));
              out = \<lparr>cd_provider = provider, cd_model_id = model_id, cd_failure_count = failure_count,
                     cd_cooldown_until = now + failure_cooldown_seconds failure_count base cap,
                     cd_last_error = error, cd_updated_at = now\<rparr>
          in if fault = PrepareFails then (Inl (RuntimeError ''prepare cloud cooldown upsert failed''), w)
             else if fault = StepFails then (Inl (RuntimeError ''upsert cloud cooldown failed''), w)
             else (Inr out, w\<lparr>qw_cooldowns := AList.update (provider, model_id) out (qw_cooldowns w)\<rparr>))"

definition clear_cloud_model_cooldown ::
  "db_fault \<Rightarrow> string \<Rightarrow> string \<Rightarrow> int \<Rightarrow> quota_world \<Rightarrow> unit result \<times> quota_world" where
  "clear_cloud_model_cooldown fault provider model_id now w =
     (if fault = PrepareFails then (Inl (RuntimeError ''prepare cloud cooldown clear failed''), w)
      else if fault = StepFails then (Inl (RuntimeError ''clear cloud cooldown failed''), w)
      else (Inr (), w\<lparr>qw_cooldowns := AList.update (provider, model_id)
              \<lparr>cd_provider = provider, cd_model_id = model_id, cd_failure_count = 0,
               cd_cooldown_until = 0, cd_last_error = [], cd_updated_at = now\<rparr> (qw_cooldowns w)\<rparr>))"

subsection \<open>Lemmas: the ledger\<close>

text \<open>The content of a ledger that holds the given rows.\<close>

definition ledger_body :: "usage_row list \<Rightarrow> json" where
  "ledger_body rows = json_object [(''version'', JInt 1), (''events'', JArr (map event_json rows))]"

definition reads_back :: "json_lib \<Rightarrow> json \<Rightarrow> bool" where
  "reads_back lib body \<longleftrightarrow> lib_parse lib (lib_dump2 lib body @ [newline]) = Some body"

definition ledger_holds :: "json_lib \<Rightarrow> string \<Rightarrow> usage_row list \<Rightarrow> quota_world \<Rightarrow> bool" where
  "ledger_holds lib path rows w \<longleftrightarrow>
     qw_ledger_path w = Some path \<and>
     qw_files w path = Some (lib_dump2 lib (ledger_body rows) @ [newline])"

lemma row_of_event_json [simp]: "row_of_json lib (event_json r) = Inr r"
  by (simp add: row_of_json_def event_json_def json_at_def json_get_object)

lemma event_json_id: "is_object (event_json r)" "json_get ''event_id'' (event_json r) = Some (JStr (u_event_id r))"
  by (simp_all add: event_json_def json_get_object)

lemma ledger_events_body [simp]: "ledger_events (ledger_body rows) = map event_json rows"
  by (simp add: ledger_events_def ledger_body_def json_get_object)

lemma ledger_has_body [simp]:
  "ledger_has i (map event_json rows) = Inr (i \<in> u_event_id ` set rows)"
  by (induction rows) (auto simp: event_json_id)

lemma json_put_body:
  "json_put ''events'' (JArr (map event_json rows')) (ledger_body rows) = ledger_body rows'"
  "json_put ''events'' (JArr (map event_json rows')) empty_ledger = ledger_body rows'"
  by (simp_all add: ledger_body_def empty_ledger_def json_object_def amap_of_def less_char_def)

lemma load_ledger_body:
  assumes "reads_back lib (ledger_body rows)" and "files path = Some (lib_dump2 lib (ledger_body rows) @ [newline])"
  shows "load_ledger lib True files path = Inr (ledger_body rows)"
  using assms
  by (simp add: load_ledger_def reads_back_def ledger_version_def ledger_body_def json_get_object)

lemma append_durable_holds:
  assumes "ledger_holds lib path rows w" and "reads_back lib (ledger_body rows)"
    and "u_event_id r \<notin> u_event_id ` set rows"
  obtains w' where "append_durable_event lib True IoOk r w = (Inr (), w')"
    "ledger_holds lib path (rows @ [r]) w'" "qw_usage w' = qw_usage w"
proof -
  have "load_ledger lib True (qw_files w) path = Inr (ledger_body rows)"
    using assms(1,2) load_ledger_body by (simp add: ledger_holds_def)
  moreover have "json_put ''events'' (JArr (map event_json rows @ [event_json r])) (ledger_body rows)
      = ledger_body (rows @ [r])"
    using json_put_body(1) [of "rows @ [r]" rows] by simp
  ultimately show thesis
    using assms(1,3)
    by (intro that [of "w\<lparr>qw_files := (qw_files w)(path \<mapsto> lib_dump2 lib (ledger_body (rows @ [r])) @ [newline])\<rparr>"])
      (auto simp: append_durable_event_def ledger_holds_def write_ledger_def Let_def)
qed

lemma record_event_holds:
  assumes "ledger_holds lib path rows w" and "reads_back lib (ledger_body rows)"
    and "u_event_id r \<notin> u_event_id ` set rows"
  shows "ledger_holds lib path (rows @ [r]) (snd (record_cloud_usage_event lib True IoOk fault r w)) \<and>
    (qw_usage (snd (record_cloud_usage_event lib True IoOk fault r w)) = qw_usage w \<or>
     qw_usage (snd (record_cloud_usage_event lib True IoOk fault r w)) = qw_usage w @ [r] \<and>
     u_event_id r \<notin> u_event_id ` set (qw_usage w))"
  by (rule append_durable_holds [OF assms])
    (auto simp: record_cloud_usage_event_def ledger_holds_def)

text \<open>A run of recordings, in which the database may fail at any event.\<close>

fun record_all ::
  "json_lib \<Rightarrow> (nat \<Rightarrow> db_fault) \<Rightarrow> usage_row list \<Rightarrow> quota_world \<Rightarrow> quota_world" where
  "record_all lib faults [] w = w"
| "record_all lib faults (r # rs) w =
     record_all lib (\<lambda>n. faults (Suc n)) rs (snd (record_cloud_usage_event lib True IoOk (faults 0) r w))"

lemma record_all_holds:
  assumes "ledger_holds lib path rows w" and "distinct (map u_event_id (rows @ rs))"
    and "\<forall>n. reads_back lib (ledger_body (take n (rows @ rs)))"
  shows "ledger_holds lib path (rows @ rs) (record_all lib faults rs w)"
  using assms
proof (induction rs arbitrary: rows w faults)
  case Nil
  then show ?case by simp
next
  case (Cons r rs)
  have "reads_back lib (ledger_body rows)"
    using Cons.prems(3) [rule_format, of "length rows"] by simp
  moreover have "u_event_id r \<notin> u_event_id ` set rows" using Cons.prems(2) by auto
  ultimately have "ledger_holds lib path (rows @ [r])
      (snd (record_cloud_usage_event lib True IoOk (faults 0) r w))"
    using record_event_holds Cons.prems(1) by blast
  from Cons.IH [OF this] show ?case using Cons.prems by simp
qed

subsection \<open>Lemmas: restoring\<close>

lemma insert_events_rows:
  "insert_events lib (\<lambda>_. DbOk) (map event_json rows) w =
     (Inr (), w\<lparr>qw_usage := foldl (\<lambda>t r. insert_or_ignore r t) (qw_usage w) rows\<rparr>)"
  by (induction rows arbitrary: w) (auto simp: insert_event_def)

lemma insert_or_ignore_distinct:
  "distinct (map u_event_id t) \<Longrightarrow> distinct (map u_event_id (insert_or_ignore r t))"
  by (auto simp: insert_or_ignore_def)

lemma insert_all_table:
  assumes "distinct (map u_event_id t)" and "set t \<subseteq> set all" and "set rows \<subseteq> set all"
    and "distinct (map u_event_id all)"
  shows "distinct (map u_event_id (foldl (\<lambda>t r. insert_or_ignore r t) t rows)) \<and>
    set (foldl (\<lambda>t r. insert_or_ignore r t) t rows) = set t \<union> set rows"
  using assms
proof (induction rows arbitrary: t)
  case Nil
  then show ?case by simp
next
  case (Cons r rows)
  have "set (insert_or_ignore r t) = insert r (set t)"
  proof (cases "u_event_id r \<in> u_event_id ` set t")
    case True
    then obtain q where "q \<in> set t" "u_event_id q = u_event_id r" by auto
    moreover have "inj_on u_event_id (set all)" using Cons.prems(4) by (simp add: distinct_map)
    ultimately have "r \<in> set t" using Cons.prems(2,3) by (metis inj_onD list.set_intros(1) subsetD)
    then show ?thesis using True by (auto simp: insert_or_ignore_def)
  next
    case False
    then show ?thesis by (simp add: insert_or_ignore_def)
  qed
  then show ?case
    using Cons.IH [OF insert_or_ignore_distinct [OF Cons.prems(1)]] Cons.prems by auto
qed

lemma same_rows_same_usage:
  assumes "distinct (map u_event_id (qw_usage w))" and "distinct (map u_event_id (qw_usage v))"
    and "set (qw_usage w) = set (qw_usage v)"
  shows "load_cloud_window_usage fault provider model_id since w
    = load_cloud_window_usage fault provider model_id since v"
proof -
  have "mset (qw_usage w) = mset (qw_usage v)"
    using assms by (meson distinct_map set_eq_iff_mset_eq_distinct)
  then have m: "mset (filter p (qw_usage w)) = mset (filter p (qw_usage v))" for p by simp
  have "length (filter p (qw_usage w)) = length (filter p (qw_usage v))" for p
    using m [of p] by (rule mset_eq_length)
  moreover have "sum_list (map u_total_tokens (filter p (qw_usage w)))
      = sum_list (map u_total_tokens (filter p (qw_usage v)))" for p
    using m [of p] by (metis mset_map sum_mset_sum_list)
  ultimately show ?thesis by (simp add: load_cloud_window_usage_def Let_def split: db_fault.splits)
qed

lemma initialize_fresh:
  assumes "qw_files w path = None"
  shows "\<exists>w1. initialize_cloud_usage_ledger lib readable faults DbOk IoOk path w = (Inr (), w1) \<and>
    ledger_holds lib path (export_rows (qw_usage w)) w1 \<and> qw_usage w1 = qw_usage w"
  using assms json_put_body(2) [of "export_rows (qw_usage w)"]
  by (simp add: initialize_cloud_usage_ledger_def write_ledger_def Let_def ledger_holds_def)

lemma set_export_rows [simp]: "set (export_rows rows) = set rows"
  by (simp add: export_rows_def)

lemma distinct_export_rows: "distinct (map u_event_id rows) \<Longrightarrow> distinct (map u_event_id (export_rows rows))"
  by (simp add: export_rows_def distinct_map)

lemma restore_exact:
  assumes "ledger_holds lib path all w" and "reads_back lib (ledger_body all)"
    and "distinct (map u_event_id all)" and "distinct (map u_event_id t)" and "set t \<subseteq> set all"
  shows "\<exists>w'. restore_cloud_usage_ledger lib True (\<lambda>_. DbOk) path (w\<lparr>qw_usage := t\<rparr>) = (Inr (), w') \<and>
    distinct (map u_event_id (qw_usage w')) \<and> set (qw_usage w') = set all"
proof -
  have "load_ledger lib True (qw_files (w\<lparr>qw_usage := t\<rparr>)) path = Inr (ledger_body all)"
    using assms(1,2) load_ledger_body by (simp add: ledger_holds_def)
  then show ?thesis
    using insert_all_table [OF assms(4,5) _ assms(3), of all] assms(5)
    by (auto simp: restore_cloud_usage_ledger_def insert_events_rows)
qed

subsection \<open>Lemmas: cooldowns\<close>

lemma failure_cooldown_pos:
  "0 < n \<Longrightarrow> failure_cooldown_seconds n base cap = min (max 1 base * 2 ^ nat (min (n - 1) 5)) (max (max 1 base) cap)"
  by (simp add: failure_cooldown_seconds_def Let_def)

text \<open>Failure reports for any models, in order, each with its error text and time.\<close>

fun report_failures ::
  "int \<Rightarrow> int \<Rightarrow> ((string \<times> string) \<times> string \<times> int) list \<Rightarrow> quota_world \<Rightarrow> quota_world" where
  "report_failures base cap [] w = w"
| "report_failures base cap ((k, error, now) # rs) w =
     report_failures base cap rs
       (snd (record_cloud_model_failure DbOk DbOk (fst k) (snd k) error now base cap w))"

definition failures_of :: "quota_world \<Rightarrow> string \<times> string \<Rightarrow> int" where
  "failures_of w k = (case map_of (qw_cooldowns w) k of None \<Rightarrow> 0 | Some c \<Rightarrow> cd_failure_count c)"

lemma record_failure_table:
  "map_of (qw_cooldowns (snd (record_cloud_model_failure DbOk DbOk (fst k) (snd k) error now base cap w))) =
     (map_of (qw_cooldowns w))(k \<mapsto>
       \<lparr>cd_provider = fst k, cd_model_id = snd k, cd_failure_count = max 1 (failures_of w k + 1),
        cd_cooldown_until = now + failure_cooldown_seconds (max 1 (failures_of w k + 1)) base cap,
        cd_last_error = error, cd_updated_at = now\<rparr>)"
  by (cases k)
    (auto simp: record_cloud_model_failure_def load_cloud_model_cooldown_def Let_def failures_of_def
      update_conv' split: option.splits)

lemma report_failures_count:
  assumes "0 \<le> failures_of w k"
  shows "failures_of (report_failures base cap rs w) k =
    failures_of w k + int (length (filter (\<lambda>r. fst r = k) rs)) \<and> 0 \<le> failures_of (report_failures base cap rs w) k"
  using assms
proof (induction rs arbitrary: w)
  case Nil
  then show ?case by simp
next
  case (Cons r rs)
  obtain k' e t where r: "r = (k', e, t)" by (cases r) auto
  let ?w = "snd (record_cloud_model_failure DbOk DbOk (fst k') (snd k') e t base cap w)"
  have "failures_of ?w k = (if k' = k then failures_of w k + 1 else failures_of w k)"
    using record_failure_table [of k' e t base cap w] Cons.prems by (auto simp: failures_of_def)
  then show ?case using Cons.IH [of ?w] Cons.prems by (auto simp: r)
qed

lemma report_failures_append:
  "report_failures base cap (rs @ [(k, e, t)]) w =
     snd (record_cloud_model_failure DbOk DbOk (fst k) (snd k) e t base cap (report_failures base cap rs w))"
  by (induction rs arbitrary: w) auto

subsection \<open>Properties\<close>

definition sample_row :: usage_row where
  "sample_row = usage_event ''openai'' ''m'' 2 3 10 ''run'' 4"

definition sample_lib :: json_lib where
  "sample_lib = \<lparr>lib_parse = (\<lambda>s. if s = ''0'' @ [newline] then Some (ledger_body []) else Some (ledger_body [sample_row])),
                 lib_dump = (\<lambda>_. []),
                 lib_dump2 = (\<lambda>j. if j = ledger_body [] then ''0'' else ''1''),
                 lib_trunc = (\<lambda>_. 0)\<rparr>"

definition sample_world :: quota_world where
  "sample_world = \<lparr>qw_ledger_path = None, qw_files = (\<lambda>_. None), qw_usage = [], qw_cooldowns = []\<rparr>"

text \<open>
  C19 No usage is lost. Start the ledger over a database that has none yet, then record any
  events with fresh ids, while the database fails to store any of them in any pattern. Whatever
  part \<open>t\<close> of those rows later survives in the database (all that was stored, or nothing
  after the file was lost), restoring from the ledger succeeds and gives every model and window
  the usage of the complete history: the rows present at the start and every recorded event.
\<close>

theorem usage_ledger_durable:
  assumes "qw_files w0 path = None"
    and "initialize_cloud_usage_ledger lib readable f0 DbOk IoOk path w0 = (Inr (), w1)"
    and "distinct (map u_event_id (qw_usage w0 @ rs))"
    and "\<forall>n. reads_back lib (ledger_body (take n (export_rows (qw_usage w0) @ rs)))"
    and "w2 = record_all lib faults rs w1"
    and "distinct (map u_event_id t)" and "set t \<subseteq> set (qw_usage w0) \<union> set rs"
  shows "\<exists>w3. restore_cloud_usage_ledger lib True (\<lambda>_. DbOk) path (w2\<lparr>qw_usage := t\<rparr>) = (Inr (), w3) \<and>
    (\<forall>provider model_id since.
       load_cloud_window_usage DbOk provider model_id since w3 =
       load_cloud_window_usage DbOk provider model_id since (w0\<lparr>qw_usage := qw_usage w0 @ rs\<rparr>))"
proof -
  let ?all = "export_rows (qw_usage w0) @ rs"
  have d: "distinct (map u_event_id ?all)"
    using assms(3) distinct_export_rows by auto
  have "ledger_holds lib path (export_rows (qw_usage w0)) w1"
    using initialize_fresh [OF assms(1), of lib readable f0] assms(2) by auto
  from record_all_holds [OF this d assms(4)] have h: "ledger_holds lib path ?all w2"
    by (simp add: assms(5))
  have rb: "reads_back lib (ledger_body ?all)" using assms(4) [rule_format, of "length ?all"] by simp
  obtain w3 where w3: "restore_cloud_usage_ledger lib True (\<lambda>_. DbOk) path (w2\<lparr>qw_usage := t\<rparr>) = (Inr (), w3)"
    "distinct (map u_event_id (qw_usage w3))" "set (qw_usage w3) = set ?all"
    using restore_exact [OF h rb d assms(6)] assms(7) by auto
  have "load_cloud_window_usage DbOk p m s w3 =
      load_cloud_window_usage DbOk p m s (w0\<lparr>qw_usage := qw_usage w0 @ rs\<rparr>)" for p m s
    by (rule same_rows_same_usage) (use w3 assms(3) in simp_all)
  then show ?thesis using w3(1) by blast
qed

theorem usage_ledger_durable_witness:
  "\<exists>w1 w3. initialize_cloud_usage_ledger sample_lib True (\<lambda>_. DbOk) DbOk IoOk ''ledger'' sample_world = (Inr (), w1) \<and>
     restore_cloud_usage_ledger sample_lib True (\<lambda>_. DbOk) ''ledger''
       (record_all sample_lib (\<lambda>_. StepFails) [sample_row] w1) = (Inr (), w3) \<and>
     load_cloud_window_usage DbOk ''openai'' ''m'' 0 w3 = Inr \<lparr>wu_requests = 1, wu_tokens = 5\<rparr>"
proof -
  have 1: "qw_files sample_world ''ledger'' = None" by (simp add: sample_world_def)
  obtain w1 where 2: "initialize_cloud_usage_ledger sample_lib True (\<lambda>_. DbOk) DbOk IoOk ''ledger''
      sample_world = (Inr (), w1)" "qw_usage w1 = []"
      "ledger_holds sample_lib ''ledger'' [] w1"
    using initialize_fresh [OF 1, of sample_lib True "\<lambda>_. DbOk"]
    by (auto simp: sample_world_def export_rows_def)
  have ne: "ledger_body [sample_row] \<noteq> ledger_body []"
    by (metis ledger_events_body list.distinct(1) list.map_disc_iff)
  have 3: "\<forall>n. reads_back sample_lib (ledger_body (take n (export_rows (qw_usage sample_world) @ [sample_row])))"
    using ne by (auto simp: reads_back_def sample_lib_def sample_world_def export_rows_def take_Cons split: nat.splits)
  define w2 where "w2 = record_all sample_lib (\<lambda>_. StepFails) [sample_row] w1"
  have u: "qw_usage w2 = []"
  proof -
    have "reads_back sample_lib (ledger_body [])" using 3 [rule_format, of 0] by simp
    then obtain v where "append_durable_event sample_lib True IoOk sample_row w1 = (Inr (), v)"
      "qw_usage v = qw_usage w1"
      using append_durable_holds [OF 2(3), of sample_row] by auto
    then show ?thesis using 2(2) by (simp add: w2_def record_cloud_usage_event_def)
  qed
  have 4: "w2\<lparr>qw_usage := []\<rparr> = w2" using u by (cases w2) simp
  have "\<exists>w3. restore_cloud_usage_ledger sample_lib True (\<lambda>_. DbOk) ''ledger'' (w2\<lparr>qw_usage := []\<rparr>) = (Inr (), w3) \<and>
    (\<forall>provider model_id since.
       load_cloud_window_usage DbOk provider model_id since w3 =
       load_cloud_window_usage DbOk provider model_id since
         (sample_world\<lparr>qw_usage := qw_usage sample_world @ [sample_row]\<rparr>))"
    by (rule usage_ledger_durable [OF 1 2(1) _ 3 w2_def]) (simp_all add: sample_world_def)
  moreover have "load_cloud_window_usage DbOk ''openai'' ''m'' 0
      (sample_world\<lparr>qw_usage := qw_usage sample_world @ [sample_row]\<rparr>) = Inr \<lparr>wu_requests = 1, wu_tokens = 5\<rparr>"
    by (simp add: sample_world_def sample_row_def usage_event_def load_cloud_window_usage_def in_window_def)
  ultimately show ?thesis using 2(1) 4 w2_def by auto
qed

text \<open>
  Backoff after failures. Whatever failures of whatever models are reported in between, the
  latest report for a model finds the number of its earlier failures since the last clear, and
  the model is blocked from the time of that report for \<open>base * 2^(n-1)\<close> seconds, the exponent
  held at 5 and the result between the base and the cap (each raised to a sane minimum); for
  bases below \<open>2^58\<close> no product leaves the 64-bit range. Clearing returns the count to zero.
\<close>

theorem cooldown_backoff:
  assumes "0 \<le> failures_of w k" and "w' = report_failures base cap (rs @ [(k, e, t)]) w"
    and "n = failures_of w k + int (length (filter (\<lambda>r. fst r = k) rs)) + 1"
  shows "(\<exists>c. load_cloud_model_cooldown DbOk (fst k) (snd k) w' = Inr (Some c) \<and>
      cd_failure_count c = n \<and> cd_updated_at c = t \<and> cd_last_error c = e \<and>
      cd_cooldown_until c = t + min (max 1 base * 2 ^ nat (min (n - 1) 5)) (max (max 1 base) cap) \<and>
      t + max 1 base \<le> cd_cooldown_until c) \<and>
    (base < 2 ^ 58 \<longrightarrow> max 1 base * 2 ^ nat (min (n - 1) 5) \<le> int64_max) \<and>
    failures_of (snd (clear_cloud_model_cooldown DbOk (fst k) (snd k) now w')) k = 0"
proof -
  have n: "0 < n" using assms(1,3) by simp
  have c: "failures_of (report_failures base cap rs w) k = n - 1"
    using report_failures_count [OF assms(1)] assms(3) by simp
  have "load_cloud_model_cooldown DbOk (fst k) (snd k) w' = Inr (Some
       \<lparr>cd_provider = fst k, cd_model_id = snd k, cd_failure_count = n,
        cd_cooldown_until = t + failure_cooldown_seconds n base cap,
        cd_last_error = e, cd_updated_at = t\<rparr>)"
    using record_failure_table [of k e t base cap "report_failures base cap rs w"] c n
    by (simp add: assms(2) report_failures_append load_cloud_model_cooldown_def)
  moreover have "max 1 base * 1 \<le> max 1 base * 2 ^ nat (min (n - 1) 5)"
    by (rule mult_left_mono) simp_all
  moreover have "max 1 base * 2 ^ nat (min (n - 1) 5) \<le> int64_max" if "base < 2 ^ 58"
  proof -
    have "(2::int) ^ nat (min (n - 1) 5) \<le> 2 ^ 5" by (rule power_increasing) simp_all
    moreover have "max 1 base \<le> 2 ^ 58 - 1" using that by simp
    ultimately have "max 1 base * 2 ^ nat (min (n - 1) 5) \<le> (2 ^ 58 - 1) * 2 ^ 5"
      by (intro mult_mono) simp_all
    then show ?thesis by simp
  qed
  moreover have "failures_of (snd (clear_cloud_model_cooldown DbOk (fst k) (snd k) now w')) k = 0"
    by (simp add: clear_cloud_model_cooldown_def failures_of_def update_conv')
  ultimately show ?thesis using n by (auto simp: failure_cooldown_pos)
qed

theorem cooldown_backoff_witness:
  "\<exists>c. load_cloud_model_cooldown DbOk ''openai'' ''m''
      (report_failures 30 900 ([((''openai'', ''m''), ''e'', 5), ((''x'', ''y''), ''e'', 6)] @
         [((''openai'', ''m''), ''boom'', 100)]) sample_world) = Inr (Some c) \<and>
     cd_failure_count c = 2 \<and> cd_cooldown_until c = 160"
proof -
  have 1: "0 \<le> failures_of sample_world (''openai'', ''m'')" by (simp add: failures_of_def sample_world_def)
  have 2: "(2::int) = failures_of sample_world (''openai'', ''m'') +
      int (length (filter (\<lambda>r. fst r = (''openai'', ''m''))
        [((''openai'', ''m''), ''e'', 5::int), ((''x'', ''y''), ''e'', 6)])) + 1"
    by (simp add: failures_of_def sample_world_def)
  show ?thesis
    using cooldown_backoff [OF 1 refl 2, of 30 900 "''boom''" 100] by auto
qed

end
