(* ===== verification/Recovery.thy ===== *)
theory Recovery
  imports DeviceConfig Quota
begin

text \<open>
  \<open>src/src/platform/DatabaseRecovery.cpp\<close>: the SQLite database is a projection that can be
  dropped and rebuilt from the project work trees and from three files of the daemon. This theory
  models the audit that guards the rebuild and the hooks that put the daemon's own tables back,
  on top of the components that own them. Between the two hooks holder-core fills the tables of
  projects, threads and cards from the project roots; that step, the secret store and the audit of
  holder-core's own tables are parameters.
\<close>

subsection \<open>The daemon's tables and files\<close>

record ('r, 's) daemon_db =
  dm_device :: "('r, 's) device_db"
  dm_device_file :: registry_file
  dm_quota :: quota_world
  dm_states :: state_world
  dm_nudges :: nudge_world

record ('r, 's) recovery_env =
  rv_device :: "('r, 's) device_env"
  rv_nudge :: nudge_env
  rv_device_path :: string
  rv_ledger_path :: string
  rv_readable :: bool
  rv_faults :: "nat \<Rightarrow> db_fault"
  rv_prepared :: bool

text \<open>The directory whose entries are candidates for projects.\<close>

definition managed_projects_root :: "string option \<Rightarrow> string \<Rightarrow> string" where
  "managed_projects_root projects_root_env dir =
     (case projects_root_env of Some r \<Rightarrow> r | None \<Rightarrow> path_join dir ''projects'')"

definition recovery_discover_roots ::
  "registry_env \<Rightarrow> string \<Rightarrow> string option \<Rightarrow> string \<Rightarrow> registry_file \<Rightarrow> string list result" where
  "recovery_discover_roots env registry_path projects_root_env dir f =
     discover_roots env registry_path (managed_projects_root projects_root_env dir) f"

subsection \<open>The audit\<close>

text \<open>Each check is a label with the number of rows that exist only in the database.\<close>

definition device_checks :: "('r, 's) recovery_env \<Rightarrow> ('r, 's) daemon_db \<Rightarrow> (string \<times> nat) list" where
  "device_checks env d =
     (if dm_device_file d \<noteq> Absent then []
      else [(''local AI model configuration'', case dv_local (dm_device d) of None \<Rightarrow> 0 | Some _ \<Rightarrow> 1),
            (''manual AI runners'', length (filter is_manual (tb_list (de_runners (rv_device env)) (dv_runners (dm_device d))))),
            (''AI provider settings'', length (tb_list (de_settings (rv_device env)) (dv_settings (dm_device d))))])"

definition ledger_checks :: "('r, 's) recovery_env \<Rightarrow> ('r, 's) daemon_db \<Rightarrow> (string \<times> nat) list" where
  "ledger_checks env d =
     (if qw_files (dm_quota d) (rv_ledger_path env) \<noteq> None then [] else [(''cloud usage ledger'', length (qw_usage (dm_quota d)))])"

definition sqlite_only_checks :: "('r, 's) recovery_env \<Rightarrow> ('r, 's) daemon_db \<Rightarrow> (string \<times> nat) list result" where
  "sqlite_only_checks env d =
     andthen (all_thread_compaction_states_are_durable (rv_prepared env) (dm_states d)) (\<lambda>states.
     andthen (all_nudge_dismissals_are_durable (dm_nudges d)) (\<lambda>nudges.
       Inr (device_checks env d @ ledger_checks env d @
            (if states then [] else [(''AI thread compaction state'', length (sw_table (dm_states d)))]) @
            (if nudges then [] else [(''dismissed AI nudges'', length (dismissed_ids (dm_nudges d)))]))))"

fun join_labels :: "string list \<Rightarrow> string" where
  "join_labels [] = []"
| "join_labels [l] = l"
| "join_labels (l # ls) = l @ '', '' @ join_labels ls"

definition require_no_daemon_sqlite_only_state :: "('r, 's) recovery_env \<Rightarrow> ('r, 's) daemon_db \<Rightarrow> unit result" where
  "require_no_daemon_sqlite_only_state env d =
     andthen (sqlite_only_checks env d) (\<lambda>checks.
       let blockers = map fst (filter (\<lambda>c. 0 < snd c) checks)
       in if blockers = [] then Inr ()
          else Inl (RuntimeError (''database rebuild blocked because durable state still exists only in SQLite: '' @
                 join_labels blockers)))"

text \<open>\<open>core\<close> is the audit of holder-core's tables, \<open>registry\<close> whether the registry is a regular file.\<close>

definition audit_durable_database_ownership ::
  "('r, 's) recovery_env \<Rightarrow> unit result \<Rightarrow> bool \<Rightarrow> ('r, 's) daemon_db \<Rightarrow> unit result" where
  "audit_durable_database_ownership env core registry d =
     andthen core (\<lambda>_.
     andthen (require_no_daemon_sqlite_only_state env d) (\<lambda>_.
       if \<not> registry then Inl (RuntimeError ''project registry has not been externalized'')
       else if dm_device_file d = Absent then Inl (RuntimeError ''device configuration has not been externalized'')
       else if qw_files (dm_quota d) (rv_ledger_path env) = None
       then Inl (RuntimeError ''cloud usage ledger has not been externalized'')
       else Inr ()))"

subsection \<open>The hooks\<close>

definition restore_before_projects ::
  "('r, 's) recovery_env \<Rightarrow> ('r, 's) daemon_db \<Rightarrow> unit result \<times> ('r, 's) daemon_db" where
  "restore_before_projects env d =
     (let (res, device) = (if dm_device_file d \<noteq> Absent
                           then restore_unlocked (rv_device env) (rv_device_path env) (dm_device_file d) (dm_device d)
                           else (Inr (), dm_device d));
          d1 = d\<lparr>dm_device := device\<rparr>
      in case res of
           Inl e \<Rightarrow> (Inl e, d1)
         | Inr _ \<Rightarrow>
             if qw_files (dm_quota d1) (rv_ledger_path env) \<noteq> None then
               (let (res2, quota) = restore_cloud_usage_ledger (ne_lib (rv_nudge env)) (rv_readable env) (rv_faults env)
                       (rv_ledger_path env) (dm_quota d1)
                in (res2, d1\<lparr>dm_quota := quota\<rparr>))
             else (Inr (), d1))"

definition restore_after_projects ::
  "('r, 's) recovery_env \<Rightarrow> unit result \<Rightarrow> ('r, 's) daemon_db \<Rightarrow> unit result \<times> ('r, 's) daemon_db" where
  "restore_after_projects env credentials d =
     (let (res, states) = restore_thread_compaction_states (ne_lib (rv_nudge env)) (ne_files (rv_nudge env)) (dm_states d);
          d1 = d\<lparr>dm_states := states\<rparr>
      in case res of
           Inl e \<Rightarrow> (Inl e, d1)
         | Inr _ \<Rightarrow>
             (let (res2, nudges) = restore_nudge_dismissals (rv_nudge env) (dm_nudges d1);
                  d2 = d1\<lparr>dm_nudges := nudges\<rparr>
              in case res2 of Inl e \<Rightarrow> (Inl e, d2) | Inr _ \<Rightarrow> (credentials, d2)))"

text \<open>The two hooks around the projection of the projects.\<close>

definition run_hooks ::
  "('r, 's) recovery_env \<Rightarrow> (('r, 's) daemon_db \<Rightarrow> ('r, 's) daemon_db) \<Rightarrow> unit result \<Rightarrow> ('r, 's) daemon_db \<Rightarrow>
     unit result \<times> ('r, 's) daemon_db" where
  "run_hooks env project credentials d =
     (case restore_before_projects env d of
        (Inl e, d1) \<Rightarrow> (Inl e, d1)
      | (Inr _, d1) \<Rightarrow> restore_after_projects env credentials (project d1))"

subsection \<open>Lemmas\<close>

lemma audit_blocks:
  assumes "require_no_daemon_sqlite_only_state env d = Inr ()"
  obtains states nudges where
    "all_thread_compaction_states_are_durable (rv_prepared env) (dm_states d) = Inr states"
    "all_nudge_dismissals_are_durable (dm_nudges d) = Inr nudges"
    "\<not> states \<Longrightarrow> sw_table (dm_states d) = []" "\<not> nudges \<Longrightarrow> dismissed_ids (dm_nudges d) = []"
    "\<forall>c \<in> set (device_checks env d @ ledger_checks env d). snd c = 0"
proof -
  obtain states nudges where s: "all_thread_compaction_states_are_durable (rv_prepared env) (dm_states d) = Inr states"
    "all_nudge_dismissals_are_durable (dm_nudges d) = Inr nudges"
    using assms by (auto simp: require_no_daemon_sqlite_only_state_def sqlite_only_checks_def andthen_eq_Inr)
  have "\<forall>c \<in> set (device_checks env d @ ledger_checks env d @
            (if states then [] else [(''AI thread compaction state'', length (sw_table (dm_states d)))]) @
            (if nudges then [] else [(''dismissed AI nudges'', length (dismissed_ids (dm_nudges d)))])). snd c = 0"
    using assms s by (auto simp: require_no_daemon_sqlite_only_state_def sqlite_only_checks_def Let_def filter_empty_conv split: if_splits)
  then show thesis using that [OF s] by (cases states; cases nudges) auto
qed

lemma dismissed_in_ids: "dismissed_in i w \<Longrightarrow> i \<in> set (dismissed_ids w)"
  by (force simp: dismissed_in_def dismissed_ids_def dest: map_of_SomeD)

text \<open>The database before the hooks run: empty tables beside the same files.\<close>

definition fresh_db :: "('r, 's) recovery_env \<Rightarrow> ('r, 's) daemon_db \<Rightarrow> ('r, 's) daemon_db \<Rightarrow> bool" where
  "fresh_db env d d0 \<longleftrightarrow>
     dm_device_file d0 = dm_device_file d \<and> dv_local (dm_device d0) = None \<and>
     tb_list (de_runners (rv_device env)) (dv_runners (dm_device d0)) = [] \<and>
     tb_list (de_settings (rv_device env)) (dv_settings (dm_device d0)) = [] \<and>
     dm_quota d0 = (dm_quota d)\<lparr>qw_usage := [], qw_cooldowns := []\<rparr>"

text \<open>What the projection of the projects does to the daemon's tables: threads, projects and work trees
  are as they were, the tables that live in work trees are empty, the others are untouched.\<close>

definition projects_projected :: "('r, 's) daemon_db \<Rightarrow> (('r, 's) daemon_db \<Rightarrow> ('r, 's) daemon_db) \<Rightarrow> bool" where
  "projects_projected d project \<longleftrightarrow>
     (\<forall>x. dm_device (project x) = dm_device x \<and> dm_device_file (project x) = dm_device_file x \<and> dm_quota (project x) = dm_quota x \<and>
          dm_states (project x) = (dm_states d)\<lparr>sw_table := []\<rparr> \<and> dm_nudges (project x) = (dm_nudges d)\<lparr>nw_table := []\<rparr>)"

text \<open>The tables of the settings agree: the effective models, the manual runners, the provider settings.\<close>

definition same_settings :: "('r, 's) device_env \<Rightarrow> ('r, 's) device_db \<Rightarrow> ('r, 's) device_db \<Rightarrow> bool" where
  "same_settings env a b \<longleftrightarrow>
     config_get (dv_local a) = config_get (dv_local b) \<and>
     {r \<in> set (tb_list (de_runners env) (dv_runners a)). is_manual r} = {r \<in> set (tb_list (de_runners env) (dv_runners b)). is_manual r} \<and>
     set (tb_list (de_settings env) (dv_settings a)) = set (tb_list (de_settings env) (dv_settings b))"

text \<open>The repositories of holder-core behave as tables with keys.\<close>

definition tables_ok :: "('r, 's) device_env \<Rightarrow> ('r \<Rightarrow> bool) \<Rightarrow> ('s \<Rightarrow> bool) \<Rightarrow> bool" where
  "tables_ok env good_r good_s \<longleftrightarrow>
     keyed_table rn_id (tb_list (de_runners env)) (tb_upsert (de_runners env)) (tb_remove (de_runners env)) good_r \<and>
     keyed_table pv_provider (tb_list (de_settings env)) (tb_upsert (de_settings env)) (tb_remove (de_settings env)) good_s"

text \<open>The three files hold what the tables hold, as persisting after each change leaves them.\<close>

definition device_file_current :: "('r, 's) recovery_env \<Rightarrow> ('r, 's) daemon_db \<Rightarrow> bool" where
  "device_file_current env d \<longleftrightarrow> config_row_ok (dv_local (dm_device d)) \<and>
     (dm_device_file d \<noteq> Absent \<longrightarrow>
        load_device (de_lib (rv_device env)) (rv_device_path env) (dm_device_file d) = Inr (device_snapshot (rv_device env) (dm_device d)))"

definition ledger_current :: "('r, 's) recovery_env \<Rightarrow> ('r, 's) daemon_db \<Rightarrow> bool" where
  "ledger_current env d \<longleftrightarrow> distinct (map u_event_id (qw_usage (dm_quota d))) \<and> rv_readable env \<and> rv_faults env = (\<lambda>_. DbOk) \<and>
     (qw_files (dm_quota d) (rv_ledger_path env) \<noteq> None \<longrightarrow>
        (\<exists>all. ledger_holds (ne_lib (rv_nudge env)) (rv_ledger_path env) all (dm_quota d) \<and>
           distinct (map u_event_id all) \<and> set all = set (qw_usage (dm_quota d))))"

lemma restore_device_settings:
  assumes tables: "tables_ok (rv_device env) good_r good_s"
    and good: "good_r (dv_runners (dm_device d))" "good_s (dv_settings (dm_device d))"
      "good_r (dv_runners (dm_device d0))" "good_s (dv_settings (dm_device d0))"
    and cur: "device_file_current env d" and fresh: "fresh_db env d d0" and present: "dm_device_file d \<noteq> Absent"
  obtains db' where "restore_unlocked (rv_device env) (rv_device_path env) (dm_device_file d0) (dm_device d0) = (Inr (), db')"
    "same_settings (rv_device env) db' (dm_device d)"
proof -
  have e: "tb_list (de_runners (rv_device env)) (dv_runners (dm_device d0)) = []" using fresh by (simp add: fresh_db_def)
  obtain db' where "restore_unlocked (rv_device env) (rv_device_path env) (dm_device_file d0) (dm_device d0) = (Inr (), db') \<and>
      config_get (dv_local db') = config_get (dv_local (dm_device d)) \<and>
      set (tb_list (de_runners (rv_device env)) (dv_runners db')) =
        {r \<in> set (tb_list (de_runners (rv_device env)) (dv_runners (dm_device d))). is_manual r} \<union>
        {r \<in> set (tb_list (de_runners (rv_device env)) (dv_runners (dm_device d0))). \<not> is_manual r} \<and>
      set (tb_list (de_settings (rv_device env)) (dv_settings db')) =
        set (tb_list (de_settings (rv_device env)) (dv_settings (dm_device d)))"
    using restore_written [of "rv_device env" good_r good_s "dm_device d" "dm_device d0" "rv_device_path env" "dm_device_file d0"]
      tables good cur fresh present e by (auto simp: tables_ok_def device_file_current_def fresh_db_def)
  then show thesis using that e by (auto simp: same_settings_def)
qed

lemma restore_before_ok:
  assumes tables: "tables_ok (rv_device env) good_r good_s"
    and good: "good_r (dv_runners (dm_device d))" "good_s (dv_settings (dm_device d))"
      "good_r (dv_runners (dm_device d0))" "good_s (dv_settings (dm_device d0))"
    and env: "nudge_env_ok (rv_nudge env)" and cur: "device_file_current env d" "ledger_current env d"
    and fresh: "fresh_db env d d0" and checks: "\<forall>c \<in> set (device_checks env d @ ledger_checks env d). snd c = 0"
  obtains d1 where "restore_before_projects env d0 = (Inr (), d1)" "same_settings (rv_device env) (dm_device d1) (dm_device d)"
    "set (qw_usage (dm_quota d1)) = set (qw_usage (dm_quota d))" "distinct (map u_event_id (qw_usage (dm_quota d1)))"
proof -
  let ?q = "(dm_quota d)\<lparr>qw_usage := [], qw_cooldowns := []\<rparr>"
  have q0: "dm_quota d0 = ?q" using fresh by (simp add: fresh_db_def)
  have "\<exists>db'. (if dm_device_file d0 \<noteq> Absent
      then restore_unlocked (rv_device env) (rv_device_path env) (dm_device_file d0) (dm_device d0)
      else (Inr (), dm_device d0)) = (Inr (), db') \<and> same_settings (rv_device env) db' (dm_device d)"
  proof (cases "dm_device_file d = Absent")
    case True
    then have "same_settings (rv_device env) (dm_device d0) (dm_device d)"
      using checks fresh by (auto simp: device_checks_def same_settings_def fresh_db_def filter_empty_conv split: option.splits)
    then show ?thesis using True fresh by (simp add: fresh_db_def)
  next
    case False
    obtain db' where "restore_unlocked (rv_device env) (rv_device_path env) (dm_device_file d0) (dm_device d0) = (Inr (), db')"
      "same_settings (rv_device env) db' (dm_device d)"
      by (rule restore_device_settings [OF tables good cur(1) fresh False])
    then show ?thesis using False fresh by (simp add: fresh_db_def)
  qed
  then obtain db' where db': "(if dm_device_file d0 \<noteq> Absent
      then restore_unlocked (rv_device env) (rv_device_path env) (dm_device_file d0) (dm_device d0)
      else (Inr (), dm_device d0)) = (Inr (), db')" "same_settings (rv_device env) db' (dm_device d)" by blast
  show thesis
  proof (cases "qw_files (dm_quota d) (rv_ledger_path env) = None")
    case True
    then have "qw_usage (dm_quota d) = []" using checks by (simp add: ledger_checks_def)
    then show ?thesis
      using that [of "d0\<lparr>dm_device := db'\<rparr>"] True db' q0 by (simp add: restore_before_projects_def Let_def split_beta)
  next
    case False
    then obtain all where all: "ledger_holds (ne_lib (rv_nudge env)) (rv_ledger_path env) all (dm_quota d)"
      "distinct (map u_event_id all)" "set all = set (qw_usage (dm_quota d))" using cur(2) by (auto simp: ledger_current_def)
    have "ledger_holds (ne_lib (rv_nudge env)) (rv_ledger_path env) all ((dm_quota d)\<lparr>qw_cooldowns := []\<rparr>)"
      using all(1) by (simp add: ledger_holds_def)
    moreover have "reads_back (ne_lib (rv_nudge env)) (ledger_body all)"
      using env by (simp add: nudge_env_ok_def lib_ok_def reads_back_def)
    ultimately obtain w' where w': "restore_cloud_usage_ledger (ne_lib (rv_nudge env)) True (\<lambda>_. DbOk) (rv_ledger_path env)
        ((dm_quota d)\<lparr>qw_cooldowns := []\<rparr>\<lparr>qw_usage := []\<rparr>) = (Inr (), w')"
      "distinct (map u_event_id (qw_usage w'))" "set (qw_usage w') = set all"
      using restore_exact [of _ _ all _ "[]"] all(2) by fastforce
    have "(dm_quota d)\<lparr>qw_cooldowns := []\<rparr>\<lparr>qw_usage := []\<rparr> = ?q" by simp
    note w'(1) [unfolded this]
    then show ?thesis
      using that [of "d0\<lparr>dm_device := db', dm_quota := w'\<rparr>"] w'(2,3) False db' q0 all(3) cur(2)
      by (simp add: restore_before_projects_def Let_def split_beta ledger_current_def)
  qed
qed

lemma restore_after_ok:
  assumes env: "nudge_env_ok (rv_nudge env)" and nok: "nudges_ok (rv_nudge env) owners (dm_nudges d)"
    and sok: "world_ok (ne_lib (rv_nudge env)) (ne_files (rv_nudge env)) (dm_states d)"
    and x: "dm_states x = (dm_states d)\<lparr>sw_table := []\<rparr>" "dm_nudges x = (dm_nudges d)\<lparr>nw_table := []\<rparr>"
  obtains n m states nudges where
    "restore_after_projects env credentials x = (credentials, x\<lparr>dm_states := states, dm_nudges := nudges\<rparr>)"
    "restore_thread_compaction_states (ne_lib (rv_nudge env)) (ne_files (rv_nudge env)) ((dm_states d)\<lparr>sw_table := []\<rparr>) = (Inr n, states)"
    "restore_nudge_dismissals (rv_nudge env) ((dm_nudges d)\<lparr>nw_table := []\<rparr>) = (Inr m, nudges)"
proof -
  have "world_ok (ne_lib (rv_nudge env)) (ne_files (rv_nudge env)) ((dm_states d)\<lparr>sw_table := []\<rparr>)"
    using sok by (simp add: world_ok_def)
  then obtain n states where s: "restore_thread_compaction_states (ne_lib (rv_nudge env)) (ne_files (rv_nudge env))
      ((dm_states d)\<lparr>sw_table := []\<rparr>) = (Inr n, states)" using restore_table by blast
  have "files_ok (rv_nudge env) owners ((dm_nudges d)\<lparr>nw_table := []\<rparr>)" using nok by (simp add: nudges_ok_def files_ok_def)
  then obtain m nudges where r: "restore_nudge_dismissals (rv_nudge env) ((dm_nudges d)\<lparr>nw_table := []\<rparr>) = (Inr m, nudges)"
    using restore_nudges_table by blast
  show thesis using that [OF _ s r] s r x by (simp add: restore_after_projects_def)
qed

subsection \<open>Properties\<close>


text \<open>A concrete daemon: one manual runner, one recorded request, one thread with its state on disk.\<close>

definition alist_ops :: "('v \<Rightarrow> string) \<Rightarrow> ('v, (string \<times> 'v) list) table_ops" where
  "alist_ops key = \<lparr>tb_list = map snd, tb_upsert = (\<lambda>v d. AList.update (key v) v d), tb_remove = AList.delete\<rparr>"

definition alist_good :: "('v \<Rightarrow> string) \<Rightarrow> (string \<times> 'v) list \<Rightarrow> bool" where
  "alist_good key d \<longleftrightarrow> distinct (map fst d) \<and> (\<forall>(k, v) \<in> set d. k = key v)"

lemma alist_tables: "keyed_table key (tb_list (alist_ops key)) (tb_upsert (alist_ops key)) (tb_remove (alist_ops key)) (alist_good key)"
  using alist.keyed_table_axioms [of key] unfolding alist_ops_def alist_good_def [abs_def] by simp

definition sample_recovery ::
  "((string \<times> runner) list, (string \<times> provider_setting) list) recovery_env" where
  "sample_recovery =
     \<lparr>rv_device = \<lparr>de_lib = esc_lib, de_runners = alist_ops rn_id, de_settings = alist_ops pv_provider\<rparr>,
      rv_nudge = sample_nudge_env, rv_device_path = ''/d'', rv_ledger_path = ''/l'', rv_readable = True,
      rv_faults = (\<lambda>_. DbOk), rv_prepared = True\<rparr>"

definition sample_runner :: runner where
  "sample_runner = \<lparr>rn_id = ''box'', rn_name = ''b'', rn_kind = ''ollama'', rn_base_url = None, rn_source = ''manual'',
                    rn_enabled = True, rn_created_at = 1, rn_updated_at = 1\<rparr>"

definition sample_device :: "((string \<times> runner) list, (string \<times> provider_setting) list) device_db" where
  "sample_device = \<lparr>dv_local = None, dv_runners = [(''box'', sample_runner)], dv_settings = []\<rparr>"

definition sample_usage :: usage_row where
  "sample_usage = \<lparr>u_event_id = ''e'', u_provider = ''p'', u_model_id = ''m'', u_prompt_tokens = 1, u_response_tokens = 2,
                   u_total_tokens = 3, u_created_at = 4\<rparr>"

definition sample_project :: project where
  "sample_project = \<lparr>p_id = ''p1'', p_root = ''/r'', p_privacy_mode = ''plain'', p_key_id = None\<rparr>"

definition sample_state_file :: string where
  "sample_state_file = esc (enc (state_json sample_state)) @ [newline]"

definition sample_state_path :: "string list" where
  "sample_state_path = [''ai_thread_state'', ''ab'', ''cd'', ''abcd.json'']"

definition sample_daemon :: "((string \<times> runner) list, (string \<times> provider_setting) list) daemon_db" where
  "sample_daemon =
     \<lparr>dm_device = sample_device,
      dm_device_file = Contents (esc (enc (device_snapshot (rv_device sample_recovery) sample_device)) @ [newline]),
      dm_quota = \<lparr>qw_ledger_path = Some ''/l'', qw_files = [''/l'' \<mapsto> esc (enc (ledger_body [sample_usage])) @ [newline]],
                  qw_usage = [sample_usage], qw_cooldowns = []\<rparr>,
      dm_states = \<lparr>sw_threads = [(''abcd'', ''p1'')], sw_projects = [sample_project], sw_manifest = (\<lambda>_. True),
                   sw_trees = (\<lambda>_. [(sample_state_path, sample_state_file)]), sw_table = [(''abcd'', sample_state)]\<rparr>,
      dm_nudges = sample_nudge_world\<lparr>nw_table := []\<rparr>\<rparr>"

definition sample_empty :: "((string \<times> runner) list, (string \<times> provider_setting) list) daemon_db" where
  "sample_empty = sample_daemon\<lparr>dm_device := \<lparr>dv_local = None, dv_runners = [], dv_settings = []\<rparr>,
     dm_quota := (dm_quota sample_daemon)\<lparr>qw_usage := []\<rparr>\<rparr>"

definition sample_projection ::
  "((string \<times> runner) list, (string \<times> provider_setting) list) daemon_db \<Rightarrow>
   ((string \<times> runner) list, (string \<times> provider_setting) list) daemon_db" where
  "sample_projection x = x\<lparr>dm_states := (dm_states sample_daemon)\<lparr>sw_table := []\<rparr>,
     dm_nudges := (dm_nudges sample_daemon)\<lparr>nw_table := []\<rparr>\<rparr>"

lemma esc_lib_dump2: "lib_dump2 esc_lib = (\<lambda>j. esc (enc j))" "lib_parse esc_lib (esc (enc j) @ [newline]) = Some j"
  using esc_lib_ok by (simp_all add: esc_lib_def lib_ok_def)

lemma sample_state_decodes: "decode_state esc_lib sample_files sample_project sample_state_file = Inr sample_state"
proof (rule decode_encode_state [OF sample_files_ok])
  show "state_reads_back esc_lib sample_state" using esc_lib_ok by (simp add: state_reads_back_def lib_ok_def)
  show "encode_state esc_lib sample_files sample_project sample_state = Inr sample_state_file"
    by (simp add: encode_state_def encode_blob_def sample_project_def sample_state_file_def esc_lib_dump2)
qed (simp add: sample_state_def)

lemma sample_path: "relative_path ''abcd'' = Inr sample_state_path"
  by (simp add: relative_path_def sharded_path_def sample_state_path_def substr_def numeral_eq_Suc)

lemma sample_states:
  "world_ok esc_lib sample_files (dm_states sample_daemon)" "states_current esc_lib sample_files (dm_states sample_daemon)"
  "all_thread_compaction_states_are_durable True (dm_states sample_daemon) = Inr True"
proof -
  have i: "ts_thread_id sample_state = ''abcd''" by (simp add: sample_state_def)
  show "world_ok esc_lib sample_files (dm_states sample_daemon)"
    using sample_state_decodes sample_path i
    by (simp add: world_ok_def trees_ok_def copy_ok_def sample_daemon_def) (simp add: sample_project_def)
  show "states_current esc_lib sample_files (dm_states sample_daemon)"
    using sample_state_decodes sample_path i by (auto simp: states_current_def sample_daemon_def)
  show "all_thread_compaction_states_are_durable True (dm_states sample_daemon) = Inr True"
    using sample_path
    by (simp add: all_thread_compaction_states_are_durable_def joined_states_def sample_daemon_def find_project_def map_filter_simps sample_project_def)
qed

lemma sample_daemon_ok:
  "require_no_daemon_sqlite_only_state sample_recovery sample_daemon = Inr ()"
  "device_file_current sample_recovery sample_daemon" "ledger_current sample_recovery sample_daemon"
  "nudges_ok sample_nudge_env (\<lambda>_. Some ''p1'') (dm_nudges sample_daemon)"
  "fresh_db sample_recovery sample_daemon sample_empty" "projects_projected sample_daemon sample_projection"
proof -
  have n: "all_nudge_dismissals_are_durable (dm_nudges sample_daemon) = Inr True"
    by (simp add: all_nudge_dismissals_are_durable_def joined_dismissals_def dismissed_ids_def sample_daemon_def map_filter_simps)
  show "require_no_daemon_sqlite_only_state sample_recovery sample_daemon = Inr ()"
    using n sample_states(3)
    by (simp add: require_no_daemon_sqlite_only_state_def sqlite_only_checks_def device_checks_def ledger_checks_def
        sample_recovery_def) (simp add: sample_daemon_def)
  have "load_device esc_lib ''/d'' (Contents (esc (enc (device_snapshot e db)) @ [newline])) = Inr (device_snapshot e db)"
    for e :: "('r, 's) device_env" and db
    using esc_lib_dump2(2) by (simp add: load_device_def snapshot_fields)
  then show "device_file_current sample_recovery sample_daemon"
    by (simp add: device_file_current_def config_row_ok_def sample_daemon_def sample_device_def sample_recovery_def)
  show "ledger_current sample_recovery sample_daemon"
    unfolding ledger_current_def
    by (auto simp: sample_daemon_def sample_recovery_def ledger_holds_def sample_nudge_env_def esc_lib_dump2
        intro!: exI [of _ "[sample_usage]"])
  show "nudges_ok sample_nudge_env (\<lambda>_. Some ''p1'') (dm_nudges sample_daemon)"
    using sample_nudges(3) by (simp add: nudges_ok_def table_ok_def files_ok_def sample_daemon_def)
  show "fresh_db sample_recovery sample_daemon sample_empty"
    by (simp add: fresh_db_def sample_empty_def sample_daemon_def sample_recovery_def alist_ops_def)
  show "projects_projected sample_daemon sample_projection"
    by (simp add: projects_projected_def sample_projection_def sample_daemon_def)
qed


end
