(* ===== verification/Listener.thy ===== *)
theory Listener
  imports Http System "HOL-Library.Multiset"
begin

text \<open>
  The threads of \<open>src/src/api/Listener.cpp\<close> as a transition system: the accept handler,
  ingress workers, reserved save workers, general workers, writer workers and \<open>stop\<close>, sharing
  the ingress queue, the three lane queues, the response queue and the stop flag. One step is one
  critical section or one atomic access of the source; between two steps of a thread the others
  may do anything, so every interleaving of the locks is a run.

  An accepted connection is a number. What becomes of it is recorded in \<open>l_fates\<close>: dropped
  because the ingress queue was full, closed during shutdown, a failed read, a 503 rejection, a
  stale background request, a streamed answer, or a written response. What a request's execution
  returns and whether a client is still connected is chosen by the environment.
\<close>

subsection \<open>State\<close>

datatype fate = Dropped | Closed | ReadFailed | Rejected | Stale | StreamedTo | Written

type_synonym job = "nat \<times> prepared_request"

datatype acceptor = Accepting | Checked nat | AcceptEnded

text \<open>Where a thread is between its steps, with the connection it holds.\<close>

datatype ingress = IWait | IPopped nat | IReading nat | IParsed nat prepared_request | IQueue nat prepared_request | IDone

datatype worker = WWait | WPopped nat prepared_request | WExecuted nat prepared_response | WPush nat prepared_response | WDone

datatype writer = XWait | XWriting nat | XDone

record listener =
  l_accept :: acceptor
  l_next :: nat
  l_pending :: "nat list"
  l_save :: "job list"
  l_foreground :: "job list"
  l_background :: "job list"
  l_responses :: "(nat \<times> prepared_response) list"
  l_ingress :: "ingress list"
  l_savers :: "worker list"
  l_generals :: "worker list"
  l_writers :: "writer list"
  l_stop :: bool
  l_shutdown :: nat
  l_fates :: "(nat \<times> fate) list"
  l_dropped :: nat

definition kMaxPendingAcceptedSockets :: nat where
  "kMaxPendingAcceptedSockets = 64"

definition kMaxPreparedRequestsPerLane :: nat where
  "kMaxPreparedRequestsPerLane = 64"

text \<open>
  \<open>ConcurrencyProfile\<close>. The I/O threads run the accept handler, of which one is outstanding
  at a time, so their number does not show in the transition system.
\<close>

record concurrency_profile =
  cp_io_threads :: nat
  cp_ingress_workers :: nat
  cp_save_workers :: nat
  cp_general_workers :: nat
  cp_writer_workers :: nat

definition default_profile :: concurrency_profile where
  "default_profile =
     \<lparr>cp_io_threads = 1, cp_ingress_workers = 1, cp_save_workers = 1, cp_general_workers = 3, cp_writer_workers = 1\<rparr>"

definition listener_start :: "concurrency_profile \<Rightarrow> listener" where
  "listener_start cp =
     \<lparr>l_accept = Accepting, l_next = 0, l_pending = [], l_save = [], l_foreground = [], l_background = [],
      l_responses = [], l_ingress = replicate (cp_ingress_workers cp) IWait,
      l_savers = replicate (cp_save_workers cp) WWait, l_generals = replicate (cp_general_workers cp) WWait,
      l_writers = replicate (cp_writer_workers cp) XWait, l_stop = False, l_shutdown = 0, l_fates = [], l_dropped = 0\<rparr>"

subsection \<open>The critical sections\<close>

definition ends :: "nat \<Rightarrow> fate \<Rightarrow> listener \<Rightarrow> listener" where
  "ends c f l = l\<lparr>l_fates := l_fates l @ [(c, f)]\<rparr>"

text \<open>Lines 462 to 475: into the ingress queue, or dropped.\<close>

definition accept_socket :: "nat \<Rightarrow> listener \<Rightarrow> listener" where
  "accept_socket c l =
     (if kMaxPendingAcceptedSockets \<le> length (l_pending l)
      then (ends c Dropped l)\<lparr>l_dropped := Suc (l_dropped l)\<rparr>
      else l\<lparr>l_pending := l_pending l @ [c]\<rparr>)"

definition lane_queue :: "lane \<Rightarrow> listener \<Rightarrow> job list" where
  "lane_queue ln l = (case ln of Save \<Rightarrow> l_save l | Background \<Rightarrow> l_background l | Foreground \<Rightarrow> l_foreground l)"

definition push_lane :: "lane \<Rightarrow> job \<Rightarrow> listener \<Rightarrow> listener" where
  "push_lane ln j l =
     (case ln of
        Save \<Rightarrow> l\<lparr>l_save := l_save l @ [j]\<rparr>
      | Background \<Rightarrow> l\<lparr>l_background := l_background l @ [j]\<rparr>
      | Foreground \<Rightarrow> l\<lparr>l_foreground := l_foreground l @ [j]\<rparr>)"

text \<open>Lines 523 to 558: into the queue of the request's lane, or rejected with 503.\<close>

definition enqueue_prepared :: "nat \<Rightarrow> prepared_request \<Rightarrow> listener \<Rightarrow> listener" where
  "enqueue_prepared c pq l =
     (if length (lane_queue (pq_lane pq) l) < kMaxPreparedRequestsPerLane
      then push_lane (pq_lane pq) (c, pq) l
      else ends c Rejected l)"

definition reject_response :: "json_lib \<Rightarrow> response" where
  "reject_response lib = error_response lib 503 ''server_busy'' ''Server busy. Please retry.''"

fun take_save :: "listener \<Rightarrow> (job \<times> listener) option" where
  "take_save l = (case l_save l of [] \<Rightarrow> None | j # js \<Rightarrow> Some (j, l\<lparr>l_save := js\<rparr>))"

text \<open>Lines 640 to 653: foreground work first.\<close>

definition take_general :: "listener \<Rightarrow> (job \<times> listener) option" where
  "take_general l =
     (case l_foreground l of
        j # js \<Rightarrow> Some (j, l\<lparr>l_foreground := js\<rparr>)
      | [] \<Rightarrow> (case l_background l of [] \<Rightarrow> None | j # js \<Rightarrow> Some (j, l\<lparr>l_background := js\<rparr>)))"

definition should_drop_stale_background_request :: "bool \<Rightarrow> prepared_request \<Rightarrow> bool" where
  "should_drop_stale_background_request disconnected pq = (if pq_lane pq \<noteq> Background then False else disconnected)"

text \<open>The three critical sections of \<open>shutdown_queued_work\<close>.\<close>

definition shutdown_pending :: "listener \<Rightarrow> listener" where
  "shutdown_pending l = l\<lparr>l_pending := [], l_fates := l_fates l @ map (\<lambda>c. (c, Closed)) (l_pending l), l_shutdown := 1\<rparr>"

definition shutdown_lanes :: "listener \<Rightarrow> listener" where
  "shutdown_lanes l =
     l\<lparr>l_save := [], l_foreground := [], l_background := [],
       l_fates := l_fates l @ map (\<lambda>j. (fst j, Closed)) (l_save l @ l_foreground l @ l_background l), l_shutdown := 2\<rparr>"

definition shutdown_responses :: "listener \<Rightarrow> listener" where
  "shutdown_responses l =
     l\<lparr>l_responses := [], l_fates := l_fates l @ map (\<lambda>r. (fst r, Closed)) (l_responses l), l_shutdown := 3\<rparr>"

subsection \<open>Steps\<close>

text \<open>The threads' own moves; \<open>i\<close> is the thread that moves.\<close>

definition set_ingress :: "nat \<Rightarrow> ingress \<Rightarrow> listener \<Rightarrow> listener" where
  "set_ingress i x l = l\<lparr>l_ingress := (l_ingress l)[i := x]\<rparr>"

definition set_saver :: "nat \<Rightarrow> worker \<Rightarrow> listener \<Rightarrow> listener" where
  "set_saver i x l = l\<lparr>l_savers := (l_savers l)[i := x]\<rparr>"

definition set_general :: "nat \<Rightarrow> worker \<Rightarrow> listener \<Rightarrow> listener" where
  "set_general i x l = l\<lparr>l_generals := (l_generals l)[i := x]\<rparr>"

definition set_writer :: "nat \<Rightarrow> writer \<Rightarrow> listener \<Rightarrow> listener" where
  "set_writer i x l = l\<lparr>l_writers := (l_writers l)[i := x]\<rparr>"

definition push_response :: "nat \<Rightarrow> prepared_response \<Rightarrow> listener \<Rightarrow> listener" where
  "push_response c r l = l\<lparr>l_responses := l_responses l @ [(c, r)]\<rparr>"

inductive lstep :: "listener \<Rightarrow> listener \<Rightarrow> bool" where
  accept_check: "l_accept l = Accepting \<Longrightarrow> \<not> l_stop l \<Longrightarrow>
    lstep l (l\<lparr>l_accept := Checked (l_next l), l_next := Suc (l_next l)\<rparr>)"
| accept_late: "l_accept l = Accepting \<Longrightarrow> l_stop l \<Longrightarrow>
    lstep l (ends (l_next l) Closed (l\<lparr>l_accept := AcceptEnded, l_next := Suc (l_next l)\<rparr>))"
| accept_aborted: "l_accept l = Accepting \<Longrightarrow> l_stop l \<Longrightarrow> lstep l (l\<lparr>l_accept := AcceptEnded\<rparr>)"
| accept_queue: "l_accept l = Checked c \<Longrightarrow>
    lstep l (accept_socket c (l\<lparr>l_accept := (if l_stop l then AcceptEnded else Accepting)\<rparr>))"
| ingress_pop: "i < length (l_ingress l) \<Longrightarrow> l_ingress l ! i = IWait \<Longrightarrow> l_pending l = c # cs \<Longrightarrow>
    lstep l (set_ingress i (IPopped c) (l\<lparr>l_pending := cs\<rparr>))"
| ingress_exit: "i < length (l_ingress l) \<Longrightarrow> l_ingress l ! i = IWait \<Longrightarrow> l_pending l = [] \<Longrightarrow> l_stop l \<Longrightarrow>
    lstep l (set_ingress i IDone l)"
| ingress_stopped: "i < length (l_ingress l) \<Longrightarrow> l_ingress l ! i = IPopped c \<Longrightarrow> l_stop l \<Longrightarrow>
    lstep l (ends c Closed (set_ingress i IWait l))"
| ingress_read: "i < length (l_ingress l) \<Longrightarrow> l_ingress l ! i = IPopped c \<Longrightarrow> \<not> l_stop l \<Longrightarrow>
    lstep l (set_ingress i (IReading c) l)"
| ingress_failed: "i < length (l_ingress l) \<Longrightarrow> l_ingress l ! i = IReading c \<Longrightarrow>
    lstep l (ends c ReadFailed (set_ingress i IWait l))"
| ingress_parsed: "i < length (l_ingress l) \<Longrightarrow> l_ingress l ! i = IReading c \<Longrightarrow> prepare_request (Some req) = Some pq \<Longrightarrow>
    lstep l (set_ingress i (IParsed c pq) l)"
| ingress_parsed_stopped: "i < length (l_ingress l) \<Longrightarrow> l_ingress l ! i = IParsed c pq \<Longrightarrow> l_stop l \<Longrightarrow>
    lstep l (ends c Closed (set_ingress i IWait l))"
| ingress_continue: "i < length (l_ingress l) \<Longrightarrow> l_ingress l ! i = IParsed c pq \<Longrightarrow> \<not> l_stop l \<Longrightarrow>
    lstep l (set_ingress i (IQueue c pq) l)"
| ingress_queue: "i < length (l_ingress l) \<Longrightarrow> l_ingress l ! i = IQueue c pq \<Longrightarrow>
    lstep l (enqueue_prepared c pq (set_ingress i IWait l))"
| saver_pop: "i < length (l_savers l) \<Longrightarrow> l_savers l ! i = WWait \<Longrightarrow> take_save l = Some ((c, pq), l') \<Longrightarrow>
    lstep l (set_saver i (WPopped c pq) l')"
| saver_exit: "i < length (l_savers l) \<Longrightarrow> l_savers l ! i = WWait \<Longrightarrow> take_save l = None \<Longrightarrow> l_stop l \<Longrightarrow>
    lstep l (set_saver i WDone l)"
| saver_streamed: "i < length (l_savers l) \<Longrightarrow> l_savers l ! i = WPopped c pq \<Longrightarrow>
    lstep l (ends c StreamedTo (set_saver i WWait l))"
| saver_executed: "i < length (l_savers l) \<Longrightarrow> l_savers l ! i = WPopped c pq \<Longrightarrow>
    lstep l (set_saver i (WExecuted c r) l)"
| saver_stopped: "i < length (l_savers l) \<Longrightarrow> l_savers l ! i = WExecuted c r \<Longrightarrow> l_stop l \<Longrightarrow>
    lstep l (ends c Closed (set_saver i WWait l))"
| saver_continue: "i < length (l_savers l) \<Longrightarrow> l_savers l ! i = WExecuted c r \<Longrightarrow> \<not> l_stop l \<Longrightarrow>
    lstep l (set_saver i (WPush c r) l)"
| saver_push: "i < length (l_savers l) \<Longrightarrow> l_savers l ! i = WPush c r \<Longrightarrow>
    lstep l (push_response c r (set_saver i WWait l))"
| general_pop: "i < length (l_generals l) \<Longrightarrow> l_generals l ! i = WWait \<Longrightarrow> take_general l = Some ((c, pq), l') \<Longrightarrow>
    lstep l (set_general i (WPopped c pq) l')"
| general_exit: "i < length (l_generals l) \<Longrightarrow> l_generals l ! i = WWait \<Longrightarrow> take_general l = None \<Longrightarrow> l_stop l \<Longrightarrow>
    lstep l (set_general i WDone l)"
| general_stale: "i < length (l_generals l) \<Longrightarrow> l_generals l ! i = WPopped c pq \<Longrightarrow>
    should_drop_stale_background_request disconnected pq \<Longrightarrow>
    lstep l (ends c Stale (set_general i WWait l))"
| general_streamed: "i < length (l_generals l) \<Longrightarrow> l_generals l ! i = WPopped c pq \<Longrightarrow>
    lstep l (ends c StreamedTo (set_general i WWait l))"
| general_executed: "i < length (l_generals l) \<Longrightarrow> l_generals l ! i = WPopped c pq \<Longrightarrow>
    lstep l (set_general i (WExecuted c r) l)"
| general_stopped: "i < length (l_generals l) \<Longrightarrow> l_generals l ! i = WExecuted c r \<Longrightarrow> l_stop l \<Longrightarrow>
    lstep l (ends c Closed (set_general i WWait l))"
| general_continue: "i < length (l_generals l) \<Longrightarrow> l_generals l ! i = WExecuted c r \<Longrightarrow> \<not> l_stop l \<Longrightarrow>
    lstep l (set_general i (WPush c r) l)"
| general_push: "i < length (l_generals l) \<Longrightarrow> l_generals l ! i = WPush c r \<Longrightarrow>
    lstep l (push_response c r (set_general i WWait l))"
| writer_pop: "i < length (l_writers l) \<Longrightarrow> l_writers l ! i = XWait \<Longrightarrow> l_responses l = (c, r) # rs \<Longrightarrow>
    lstep l (set_writer i (XWriting c) (l\<lparr>l_responses := rs\<rparr>))"
| writer_exit: "i < length (l_writers l) \<Longrightarrow> l_writers l ! i = XWait \<Longrightarrow> l_responses l = [] \<Longrightarrow> l_stop l \<Longrightarrow>
    lstep l (set_writer i XDone l)"
| writer_wrote: "i < length (l_writers l) \<Longrightarrow> l_writers l ! i = XWriting c \<Longrightarrow>
    lstep l (ends c Written (set_writer i XWait l))"
| stop_request: "\<not> l_stop l \<Longrightarrow> lstep l (l\<lparr>l_stop := True\<rparr>)"
| stop_pending: "l_stop l \<Longrightarrow> l_shutdown l = 0 \<Longrightarrow> lstep l (shutdown_pending l)"
| stop_lanes: "l_stop l \<Longrightarrow> l_shutdown l = 1 \<Longrightarrow> lstep l (shutdown_lanes l)"
| stop_responses: "l_stop l \<Longrightarrow> l_shutdown l = 2 \<Longrightarrow> lstep l (shutdown_responses l)"

definition lreachable :: "concurrency_profile \<Rightarrow> listener \<Rightarrow> bool" where
  "lreachable cp l \<longleftrightarrow> lstep\<^sup>*\<^sup>* (listener_start cp) l"

inductive_cases lstep_cases: "lstep l l'"

lemmas listener_moves = set_ingress_def set_saver_def set_general_def set_writer_def push_response_def ends_def
  accept_socket_def enqueue_prepared_def push_lane_def lane_queue_def take_general_def
  shutdown_pending_def shutdown_lanes_def shutdown_responses_def
  kMaxPendingAcceptedSockets_def kMaxPreparedRequestsPerLane_def

subsection \<open>Lemmas: bounds and lanes\<close>

definition queues_bounded :: "listener \<Rightarrow> bool" where
  "queues_bounded l \<longleftrightarrow> length (l_pending l) \<le> 64 \<and> length (l_save l) \<le> 64 \<and>
     length (l_foreground l) \<le> 64 \<and> length (l_background l) \<le> 64"

lemma queues_bounded_step: "lstep l l' \<Longrightarrow> queues_bounded l \<Longrightarrow> queues_bounded l'"
  by (induction rule: lstep.induct)
    (auto simp: queues_bounded_def listener_moves split: list.splits lane.splits if_splits)

text \<open>The requests a worker may hold.\<close>

fun runs_only :: "lane set \<Rightarrow> worker \<Rightarrow> bool" where
  "runs_only ls (WPopped c pq) = (pq_lane pq \<in> ls)"
| "runs_only ls _ = True"

definition lanes_kept :: "listener \<Rightarrow> bool" where
  "lanes_kept l \<longleftrightarrow>
     list_all (\<lambda>j. pq_lane (snd j) = Save) (l_save l) \<and>
     list_all (\<lambda>j. pq_lane (snd j) = Foreground) (l_foreground l) \<and>
     list_all (\<lambda>j. pq_lane (snd j) = Background) (l_background l) \<and>
     list_all (runs_only {Save}) (l_savers l) \<and>
     list_all (runs_only {Foreground, Background}) (l_generals l)"

lemma list_all_update [simp]: "list_all P xs \<Longrightarrow> P y \<Longrightarrow> list_all P (xs[i := y])"
  using set_update_subset_insert [of xs i y] by (auto simp: list_all_iff)

lemma lanes_kept_step: "lstep l l' \<Longrightarrow> lanes_kept l \<Longrightarrow> lanes_kept l'"
proof (induction rule: lstep.induct)
  case (saver_pop i l c pq l')
  then show ?case by (auto simp: lanes_kept_def listener_moves split: list.splits)
next
  case (general_pop i l c pq l')
  then show ?case by (auto simp: lanes_kept_def listener_moves split: list.splits)
qed (simp_all add: lanes_kept_def listener_moves split: list.splits lane.splits if_splits)

subsection \<open>Lemmas: every connection is in one place\<close>

fun held_ingress :: "ingress \<Rightarrow> nat list" where
  "held_ingress (IPopped c) = [c]"
| "held_ingress (IReading c) = [c]"
| "held_ingress (IParsed c pq) = [c]"
| "held_ingress (IQueue c pq) = [c]"
| "held_ingress _ = []"

fun held_worker :: "worker \<Rightarrow> nat list" where
  "held_worker (WPopped c pq) = [c]"
| "held_worker (WExecuted c r) = [c]"
| "held_worker (WPush c r) = [c]"
| "held_worker _ = []"

fun held_writer :: "writer \<Rightarrow> nat list" where
  "held_writer (XWriting c) = [c]"
| "held_writer _ = []"

fun held_acceptor :: "acceptor \<Rightarrow> nat list" where
  "held_acceptor (Checked c) = [c]"
| "held_acceptor _ = []"

definition held :: "('t \<Rightarrow> nat list) \<Rightarrow> 't list \<Rightarrow> nat multiset" where
  "held h ts = mset (concat (map h ts))"

text \<open>All connections, wherever they are.\<close>

definition connections :: "listener \<Rightarrow> nat multiset" where
  "connections l =
     mset (held_acceptor (l_accept l)) + mset (l_pending l) + held held_ingress (l_ingress l) +
     mset (map fst (l_save l)) + mset (map fst (l_foreground l)) + mset (map fst (l_background l)) +
     held held_worker (l_savers l) + held held_worker (l_generals l) +
     mset (map fst (l_responses l)) + held held_writer (l_writers l) + mset (map fst (l_fates l))"

lemma held_update:
  assumes "i < length ts"
  shows "held h (ts[i := t]) + mset (h (ts ! i)) = held h ts + mset (h t)"
proof -
  have "ts = take i ts @ ts ! i # drop (Suc i) ts" using assms by (rule id_take_nth_drop)
  then have "held h ts = held h (take i ts) + mset (h (ts ! i)) + held h (drop (Suc i) ts)"
    unfolding held_def by (metis concat.simps(2) concat_append list.simps(9) map_append mset_append union_assoc)
  then show ?thesis using assms by (simp add: upd_conv_take_nth_drop held_def ac_simps)
qed

lemma held_take: "i < length ts \<Longrightarrow> h (ts ! i) = [] \<Longrightarrow> held h (ts[i := t]) = held h ts + mset (h t)"
  using held_update [of i ts h t] by simp

lemma held_keep: "i < length ts \<Longrightarrow> h t = h (ts ! i) \<Longrightarrow> held h (ts[i := t]) = held h ts"
  using held_update [of i ts h t] by simp

lemma held_give: "i < length ts \<Longrightarrow> h (ts ! i) = [c] \<Longrightarrow> h t = [] \<Longrightarrow> add_mset c (held h (ts[i := t])) = held h ts"
  using held_update [of i ts h t] by simp

lemma distinct_if_count: "(\<And>x. count (mset xs) x \<le> 1) \<Longrightarrow> distinct xs"
proof (induction xs)
  case (Cons y xs)
  have "count (mset xs) y = 0" using Cons.prems [of y] by simp
  moreover have "count (mset xs) x \<le> 1" for x by (rule order_trans [OF _ Cons.prems [of x]]) simp
  ultimately show ?case using Cons.IH by (simp add: count_eq_zero_iff)
qed simp

definition all_accounted :: "listener \<Rightarrow> bool" where
  "all_accounted l \<longleftrightarrow> connections l = mset [0..<l_next l]"

lemma connections_step:
  "lstep l l' \<Longrightarrow> connections l' + mset [0..<l_next l] = connections l + mset [0..<l_next l']"
proof (induction rule: lstep.induct)
  case (saver_pop i l c pq l')
  then show ?case by (auto simp: connections_def listener_moves held_take split: list.splits)
next
  case (general_pop i l c pq l')
  then show ?case by (auto simp: connections_def listener_moves held_take split: list.splits)
next
  case (ingress_queue i l c pq)
  then show ?case by (cases "pq_lane pq") (simp_all add: connections_def listener_moves held_give)
qed (simp_all add: connections_def listener_moves held_take held_keep held_give comp_def)

subsection \<open>Lemmas: shutdown\<close>

text \<open>How much a stopped listener can still do: a weight for every place a connection or a thread can be in.\<close>

fun ingress_load :: "ingress \<Rightarrow> nat" where
  "ingress_load IWait = 1"
| "ingress_load (IPopped c) = 11"
| "ingress_load (IReading c) = 10"
| "ingress_load (IParsed c pq) = 9"
| "ingress_load (IQueue c pq) = 8"
| "ingress_load IDone = 0"

fun worker_load :: "worker \<Rightarrow> nat" where
  "worker_load WWait = 1"
| "worker_load (WPopped c pq) = 6"
| "worker_load (WExecuted c r) = 5"
| "worker_load (WPush c r) = 4"
| "worker_load WDone = 0"

fun writer_load :: "writer \<Rightarrow> nat" where
  "writer_load XWait = 1"
| "writer_load (XWriting c) = 2"
| "writer_load XDone = 0"

fun acceptor_load :: "acceptor \<Rightarrow> nat" where
  "acceptor_load Accepting = 1"
| "acceptor_load (Checked c) = 12"
| "acceptor_load AcceptEnded = 0"

definition listener_load :: "listener \<Rightarrow> nat" where
  "listener_load l =
     acceptor_load (l_accept l) + 11 * length (l_pending l) + load_of ingress_load (l_ingress l) +
     6 * (length (l_save l) + length (l_foreground l) + length (l_background l)) +
     load_of worker_load (l_savers l) + load_of worker_load (l_generals l) +
     2 * length (l_responses l) + load_of writer_load (l_writers l) + (3 - l_shutdown l)"

text \<open>Once the stop flag is set, every step lowers the load.\<close>

lemma stopped_step_lowers:
  assumes "lstep l l'" and "l_stop l"
  shows "l_stop l' \<and> listener_load l' < listener_load l"
  using assms
proof (cases rule: lstep.cases)
  case (ingress_queue i c pq)
  then show ?thesis
    using load_of_less [of i "l_ingress l" ingress_load IWait] assms(2)
    by (cases "pq_lane pq") (auto simp: listener_load_def listener_moves)
next
  case (saver_pop i c pq l1)
  then show ?thesis
    using load_of_more [of i "l_savers l" worker_load "WPopped c pq"] assms(2)
    by (auto simp: listener_load_def listener_moves split: list.splits)
next
  case (general_pop i c pq l1)
  then show ?thesis
    using load_of_more [of i "l_generals l" worker_load "WPopped c pq"] assms(2)
    by (auto simp: listener_load_def listener_moves split: list.splits)
next
  case (ingress_pop i c cs)
  then show ?thesis
    using load_of_more [of i "l_ingress l" ingress_load "IPopped c"] assms(2) by (simp add: listener_load_def listener_moves)
next
  case (writer_pop i c r rs)
  then show ?thesis
    using load_of_more [of i "l_writers l" writer_load "XWriting c"] assms(2) by (simp add: listener_load_def listener_moves)
next
  case (saver_push i c r)
  then show ?thesis
    using load_of_less [of i "l_savers l" worker_load WWait] assms(2) by (simp add: listener_load_def listener_moves)
next
  case (general_push i c r)
  then show ?thesis
    using load_of_less [of i "l_generals l" worker_load WWait] assms(2) by (simp add: listener_load_def listener_moves)
qed (auto simp: listener_load_def listener_moves load_of_lowers)


text \<open>Shutdown is over when the queues were swept and every thread has returned.\<close>

definition listener_finished :: "listener \<Rightarrow> bool" where
  "listener_finished l \<longleftrightarrow>
     l_stop l \<and> l_shutdown l = 3 \<and> l_accept l = AcceptEnded \<and> list_all (\<lambda>t. t = IDone) (l_ingress l) \<and>
     list_all (\<lambda>t. t = WDone) (l_savers l) \<and> list_all (\<lambda>t. t = WDone) (l_generals l) \<and>
     list_all (\<lambda>t. t = XDone) (l_writers l)"

lemma not_all_nth: "\<not> list_all P ts \<Longrightarrow> \<exists>i < length ts. \<not> P (ts ! i)"
  by (auto simp: list_all_length)

lemma ingress_can_move:
  assumes "l_stop l" and i: "i < length (l_ingress l)" and "l_ingress l ! i \<noteq> IDone"
  shows "\<exists>l'. lstep l l'"
proof (cases "l_ingress l ! i")
  case IWait
  then show ?thesis
    using lstep.ingress_pop [OF i IWait] lstep.ingress_exit [OF i IWait] assms(1) by (cases "l_pending l") blast+
next
  case (IPopped c)
  then show ?thesis using lstep.ingress_stopped [OF i IPopped] assms(1) by blast
next
  case (IReading c)
  then show ?thesis using lstep.ingress_failed [OF i IReading] by blast
next
  case (IParsed c pq)
  then show ?thesis using lstep.ingress_parsed_stopped [OF i IParsed] assms(1) by blast
next
  case (IQueue c pq)
  then show ?thesis using lstep.ingress_queue [OF i IQueue] by blast
qed (use assms in simp)

lemma saver_can_move:
  assumes "l_stop l" and i: "i < length (l_savers l)" and "l_savers l ! i \<noteq> WDone"
  shows "\<exists>l'. lstep l l'"
proof (cases "l_savers l ! i")
  case WWait
  show ?thesis
  proof (cases "take_save l")
    case None
    then show ?thesis using lstep.saver_exit [OF i WWait] assms(1) by blast
  next
    case (Some x)
    then show ?thesis using lstep.saver_pop [OF i WWait] by (metis surj_pair)
  qed
next
  case (WPopped c pq)
  then show ?thesis using lstep.saver_streamed [OF i WPopped] by blast
next
  case (WExecuted c r)
  then show ?thesis using lstep.saver_stopped [OF i WExecuted] assms(1) by blast
next
  case (WPush c r)
  then show ?thesis using lstep.saver_push [OF i WPush] by blast
qed (use assms in simp)

lemma general_can_move:
  assumes "l_stop l" and i: "i < length (l_generals l)" and "l_generals l ! i \<noteq> WDone"
  shows "\<exists>l'. lstep l l'"
proof (cases "l_generals l ! i")
  case WWait
  show ?thesis
  proof (cases "take_general l")
    case None
    then show ?thesis using lstep.general_exit [OF i WWait] assms(1) by blast
  next
    case (Some x)
    then show ?thesis using lstep.general_pop [OF i WWait] by (metis surj_pair)
  qed
next
  case (WPopped c pq)
  then show ?thesis using lstep.general_streamed [OF i WPopped] by blast
next
  case (WExecuted c r)
  then show ?thesis using lstep.general_stopped [OF i WExecuted] assms(1) by blast
next
  case (WPush c r)
  then show ?thesis using lstep.general_push [OF i WPush] by blast
qed (use assms in simp)

lemma writer_can_move:
  assumes "l_stop l" and i: "i < length (l_writers l)" and "l_writers l ! i \<noteq> XDone"
  shows "\<exists>l'. lstep l l'"
proof (cases "l_writers l ! i")
  case XWait
  show ?thesis
  proof (cases "l_responses l")
    case Nil
    then show ?thesis using lstep.writer_exit [OF i XWait] assms(1) by blast
  next
    case (Cons x xs)
    then show ?thesis using lstep.writer_pop [OF i XWait] by (metis surj_pair)
  qed
next
  case (XWriting c)
  then show ?thesis using lstep.writer_wrote [OF i XWriting] by blast
qed (use assms in simp)

lemma stopped_not_stuck:
  assumes "l_stop l" and "l_shutdown l \<le> 3" and "\<not> listener_finished l"
  shows "\<exists>l'. lstep l l'"
proof -
  consider "l_shutdown l < 3" | "l_accept l \<noteq> AcceptEnded" | "\<not> list_all (\<lambda>t. t = IDone) (l_ingress l)"
    | "\<not> list_all (\<lambda>t. t = WDone) (l_savers l)" | "\<not> list_all (\<lambda>t. t = WDone) (l_generals l)"
    | "\<not> list_all (\<lambda>t. t = XDone) (l_writers l)"
    using assms by (auto simp: listener_finished_def)
  then show ?thesis
  proof cases
    case 1
    then have "l_shutdown l = 0 \<or> l_shutdown l = 1 \<or> l_shutdown l = 2" by auto
    then show ?thesis using assms(1) lstep.stop_pending lstep.stop_lanes lstep.stop_responses by blast
  next
    case 2
    then show ?thesis using assms(1) lstep.accept_aborted lstep.accept_queue by (cases "l_accept l") blast+
  qed (use not_all_nth ingress_can_move saver_can_move general_can_move writer_can_move assms(1) in blast)+
qed

lemma shutdown_count_step: "lstep l l' \<Longrightarrow> l_shutdown l \<le> 3 \<Longrightarrow> l_shutdown l' \<le> 3"
  by (induction rule: lstep.induct) (auto simp: listener_moves split: list.splits lane.splits)

text \<open>Every run keeps the invariant, and a stopped listener drains.\<close>

definition listener_inv :: "listener \<Rightarrow> bool" where
  "listener_inv l \<longleftrightarrow> queues_bounded l \<and> lanes_kept l \<and> all_accounted l \<and> l_shutdown l \<le> 3"

definition listener_stopped :: "listener \<Rightarrow> bool" where
  "listener_stopped l \<longleftrightarrow> l_stop l \<and> l_shutdown l \<le> 3"

interpretation ls: step_system lstep listener_inv
  by unfold_locales
    (simp add: listener_inv_def all_accounted_def queues_bounded_step lanes_kept_step shutdown_count_step,
     use connections_step in fastforce)

interpretation ld: draining_system lstep listener_stopped listener_load listener_finished
  by unfold_locales
    (use stopped_step_lowers stopped_not_stuck shutdown_count_step in \<open>auto simp: listener_stopped_def\<close>)

lemma listener_reachable_inv:
  assumes "lreachable cp l"
  shows "queues_bounded l \<and> lanes_kept l \<and> all_accounted l \<and> l_shutdown l \<le> 3"
proof -
  have "held h (replicate n t) = {#}" if "h t = []" for h :: "'t \<Rightarrow> nat list" and n t
    using that by (simp add: held_def)
  then have "listener_inv (listener_start cp)"
    by (simp add: listener_inv_def listener_start_def queues_bounded_def lanes_kept_def all_accounted_def connections_def
        held_def list_all_iff)
  then have "listener_inv l" using assms unfolding lreachable_def by (simp add: ls.run_keeps)
  then show ?thesis by (simp add: listener_inv_def)
qed

subsection \<open>Properties\<close>

text \<open>
  C16 No connection is lost, duplicated or answered twice. In every reachable state of the listener
  the connections accepted so far are exactly those that some queue, some thread or the record of
  fates holds, each exactly once; so no connection has two fates, and one without a fate is still
  in a queue or in a thread's hands.
\<close>

theorem connections_conserved:
  assumes "lreachable cp l"
  shows "connections l = mset [0..<l_next l] \<and> distinct (map fst (l_fates l)) \<and>
    (\<forall>c \<in> fst ` set (l_fates l). c \<notin> set (l_pending l) \<and>
       c \<notin> fst ` set (l_save l @ l_foreground l @ l_background l) \<and> c \<notin> fst ` set (l_responses l))"
proof -
  have c: "connections l = mset [0..<l_next l]"
    using listener_reachable_inv [OF assms] by (simp add: all_accounted_def)
  have count: "count (connections l) x \<le> 1" for x
    unfolding c by (simp add: count_mset_set')
  have once: "count (mset (map fst (l_fates l))) x + count (mset (l_pending l)) x +
      count (mset (map fst (l_save l @ l_foreground l @ l_background l))) x + count (mset (map fst (l_responses l))) x \<le> 1" for x
    using count [of x] by (simp add: connections_def)
  have "count (mset (map fst (l_fates l))) x \<le> 1" for x using once [of x] by linarith
  then have "distinct (map fst (l_fates l))" by (rule distinct_if_count)
  moreover have "x \<notin> set (l_pending l) \<and> x \<notin> fst ` set (l_save l @ l_foreground l @ l_background l) \<and>
      x \<notin> fst ` set (l_responses l)" if "x \<in> fst ` set (l_fates l)" for x
  proof -
    have "0 < count (mset (map fst (l_fates l))) x" using that by (simp add: count_greater_zero_iff del: mset_map)
    then have "count (mset (l_pending l)) x = 0"
      "count (mset (map fst (l_save l @ l_foreground l @ l_background l))) x = 0" "count (mset (map fst (l_responses l))) x = 0"
      using once [of x] by linarith+
    then show ?thesis by (simp add: count_eq_zero_iff image_Un del: mset_map)
  qed
  ultimately show ?thesis using c by blast
qed

text \<open>A run with one connection: a card write is read, queued, executed and written.\<close>

definition one_each :: concurrency_profile where
  "one_each = \<lparr>cp_io_threads = 1, cp_ingress_workers = 1, cp_save_workers = 1, cp_general_workers = 1, cp_writer_workers = 1\<rparr>"

definition put_card :: request where
  "put_card = \<lparr>rq_method = VPut, rq_target = ''/cards/1'', rq_headers = [], rq_body = []\<rparr>"

definition put_card_prepared :: prepared_request where
  "put_card_prepared = \<lparr>pq_req = put_card, pq_path = ''/cards/1'', pq_query_string = [], pq_lane = Save\<rparr>"

lemma put_card_lane: "prepare_request (Some put_card) = Some put_card_prepared"
  by code_simp

definition at_queue :: listener where
  "at_queue = (listener_start one_each)\<lparr>l_next := 1, l_ingress := [IQueue 0 put_card_prepared]\<rparr>"

lemma lsteps_then: "lstep\<^sup>*\<^sup>* a b \<Longrightarrow> lstep b c \<Longrightarrow> c = d \<Longrightarrow> lstep\<^sup>*\<^sup>* a d"
  by simp

lemma at_queue_reachable: "lstep\<^sup>*\<^sup>* (listener_start one_each) at_queue"
proof -
  let ?l0 = "listener_start one_each"
  note defs = listener_start_def one_each_def listener_moves
  have "lstep\<^sup>*\<^sup>* ?l0 (?l0\<lparr>l_accept := Checked 0, l_next := 1\<rparr>)"
    by (rule lsteps_then [OF rtranclp.rtrancl_refl lstep.accept_check]) (simp_all add: defs)
  then have "lstep\<^sup>*\<^sup>* ?l0 (?l0\<lparr>l_next := 1, l_pending := [0]\<rparr>)"
    by (rule lsteps_then [OF _ lstep.accept_queue]) (simp_all add: defs)
  then have "lstep\<^sup>*\<^sup>* ?l0 (?l0\<lparr>l_next := 1, l_ingress := [IPopped 0]\<rparr>)"
    by (rule lsteps_then [OF _ lstep.ingress_pop [where i = 0]]) (simp_all add: defs)
  then have "lstep\<^sup>*\<^sup>* ?l0 (?l0\<lparr>l_next := 1, l_ingress := [IReading 0]\<rparr>)"
    by (rule lsteps_then [OF _ lstep.ingress_read [where i = 0]]) (simp_all add: defs)
  then have "lstep\<^sup>*\<^sup>* ?l0 (?l0\<lparr>l_next := 1, l_ingress := [IParsed 0 put_card_prepared]\<rparr>)"
    by (rule lsteps_then [OF _ lstep.ingress_parsed [where i = 0, OF _ _ put_card_lane]]) (simp_all add: defs)
  then show ?thesis
    by (rule lsteps_then [OF _ lstep.ingress_continue [where i = 0]]) (simp_all add: defs at_queue_def)
qed

theorem connections_conserved_witness:
  "lreachable one_each at_queue \<and> connections at_queue = {#0#}"
proof -
  have r: "lreachable one_each at_queue" using at_queue_reachable by (simp add: lreachable_def)
  then show ?thesis using connections_conserved [OF r] by (simp add: at_queue_def)
qed

text \<open>
  C17 Admission. In every reachable state the ingress queue and each lane queue hold at most 64
  entries, the lane queues hold only requests of their lane, a reserved save worker only ever
  holds card writes of the save lane, and a general worker never holds one. A request whose lane
  is full is rejected and joins no queue, and a general worker takes background work only when no
  foreground work waits.
\<close>

theorem listener_admission:
  assumes "lreachable cp l"
  shows "queues_bounded l \<and> lanes_kept l \<and>
    (length (lane_queue (pq_lane pq) l) = 64 \<longrightarrow> enqueue_prepared c pq l = ends c Rejected l) \<and>
    (\<forall>j l'. take_general l = Some (j, l') \<and> pq_lane (snd j) = Background \<longrightarrow> l_foreground l = [])"
proof -
  have inv: "queues_bounded l" "lanes_kept l" using listener_reachable_inv [OF assms] by auto
  have "l_foreground l = []" if "take_general l = Some (j, l')" "pq_lane (snd j) = Background" for j l'
    using that inv(2) by (auto simp: take_general_def lanes_kept_def split: list.splits)
  then show ?thesis using inv by (auto simp: enqueue_prepared_def kMaxPreparedRequestsPerLane_def)
qed

theorem listener_admission_witness: "queues_bounded at_queue \<and> lanes_kept at_queue"
proof -
  have r: "lreachable one_each at_queue" using at_queue_reachable by (simp add: lreachable_def)
  show ?thesis using listener_admission [OF r] by blast
qed



text \<open>
  C40 Shutdown can strand a request. A run exists that ends with every thread returned and the
  queues swept, in which a card write that was accepted and parsed before the stop lies in the
  save queue: it was never executed, rejected or closed. The ingress worker had passed its last
  check of the stop flag, and queued the request after the sweep and after the save worker
  returned.
\<close>

theorem shutdown_can_strand:
  "\<exists>l. lreachable one_each l \<and> listener_finished l \<and> l_save l = [(0, put_card_prepared)] \<and> l_fates l = []"
proof -
  note defs = at_queue_def listener_start_def one_each_def listener_moves
  have lane: "pq_lane put_card_prepared = Save" by (simp add: put_card_prepared_def)
  have "lstep\<^sup>*\<^sup>* (listener_start one_each) (at_queue\<lparr>l_stop := True\<rparr>)"
    by (rule lsteps_then [OF at_queue_reachable lstep.stop_request]) (simp_all add: defs)
  then have "lstep\<^sup>*\<^sup>* (listener_start one_each) (at_queue\<lparr>l_stop := True, l_shutdown := 1\<rparr>)"
    by (rule lsteps_then [OF _ lstep.stop_pending]) (simp_all add: defs)
  then have "lstep\<^sup>*\<^sup>* (listener_start one_each) (at_queue\<lparr>l_stop := True, l_shutdown := 2\<rparr>)"
    by (rule lsteps_then [OF _ lstep.stop_lanes]) (simp_all add: defs)
  then have "lstep\<^sup>*\<^sup>* (listener_start one_each) (at_queue\<lparr>l_stop := True, l_shutdown := 3\<rparr>)"
    by (rule lsteps_then [OF _ lstep.stop_responses]) (simp_all add: defs)
  then have "lstep\<^sup>*\<^sup>* (listener_start one_each) (at_queue\<lparr>l_stop := True, l_shutdown := 3, l_savers := [WDone]\<rparr>)"
    by (rule lsteps_then [OF _ lstep.saver_exit [where i = 0]]) (simp_all add: defs)
  then have "lstep\<^sup>*\<^sup>* (listener_start one_each)
      (at_queue\<lparr>l_stop := True, l_shutdown := 3, l_savers := [WDone], l_generals := [WDone]\<rparr>)"
    by (rule lsteps_then [OF _ lstep.general_exit [where i = 0]]) (simp_all add: defs)
  then have "lstep\<^sup>*\<^sup>* (listener_start one_each)
      (at_queue\<lparr>l_stop := True, l_shutdown := 3, l_savers := [WDone], l_generals := [WDone], l_writers := [XDone]\<rparr>)"
    by (rule lsteps_then [OF _ lstep.writer_exit [where i = 0]]) (simp_all add: defs)
  then have "lstep\<^sup>*\<^sup>* (listener_start one_each)
      (at_queue\<lparr>l_stop := True, l_shutdown := 3, l_savers := [WDone], l_generals := [WDone], l_writers := [XDone],
         l_accept := AcceptEnded\<rparr>)"
    by (rule lsteps_then [OF _ lstep.accept_aborted]) (simp_all add: defs)
  then have "lstep\<^sup>*\<^sup>* (listener_start one_each)
      (at_queue\<lparr>l_stop := True, l_shutdown := 3, l_savers := [WDone], l_generals := [WDone], l_writers := [XDone],
         l_accept := AcceptEnded, l_ingress := [IWait], l_save := [(0, put_card_prepared)]\<rparr>)"
    by (rule lsteps_then [OF _ lstep.ingress_queue [where i = 0 and c = 0 and pq = put_card_prepared]]) (simp_all add: defs lane)
  then have "lstep\<^sup>*\<^sup>* (listener_start one_each)
      (at_queue\<lparr>l_stop := True, l_shutdown := 3, l_savers := [WDone], l_generals := [WDone], l_writers := [XDone],
         l_accept := AcceptEnded, l_ingress := [IDone], l_save := [(0, put_card_prepared)]\<rparr>)"
    by (rule lsteps_then [OF _ lstep.ingress_exit [where i = 0]]) (simp_all add: defs)
  then show ?thesis
    by (intro exI conjI) (unfold lreachable_def, assumption, simp_all add: listener_finished_def at_queue_def listener_start_def)
qed

end
