(* ===== verification/Executor.thy ===== *)
theory Executor
  imports System Listener
begin

text \<open>
  \<open>src/src/core/SerialExecutor.{h,cpp}\<close>, a worker thread with a bounded queue, and the
  adapters that run every method of an object on it (\<open>git/ExecutorGitOps.cpp\<close>,
  \<open>llm/ExecutorRunnerClient.cpp\<close>). One step is one critical section of \<open>submit\<close>,
  \<open>run\<close> or \<open>stop\<close>, one task, or the return of a future; \<open>submit\<close> tests its
  condition and appends under one lock.

  A task is a method call on the wrapped object, whose behaviour is the parameter \<open>perform\<close>;
  a thread that called \<open>call\<close> waits for the result, one that called \<open>submit\<close> does not. A
  thrown exception is a result: the packaged task of \<open>call\<close> keeps it for the caller, a plain
  task lets it escape and the process terminates.
\<close>

subsection \<open>State\<close>

datatype 'r exec_phase = Submitting | Waiting | Returned 'r | BrokenPromise | Submitted

record ('op, 'r) exec_thread =
  et_op :: 'op
  et_call :: bool
  et_phase :: "'r exec_phase"

datatype exec_worker = TaskWait | Running nat | WorkerExited | Terminated

text \<open>
  Tasks are the numbers of their threads. The last two fields record history: the tasks accepted,
  and the results in the order the tasks were run.
\<close>

record ('op, 'r, 's) executor =
  ex_max :: nat
  ex_tasks :: "nat list"
  ex_stop :: bool
  ex_worker :: exec_worker
  ex_threads :: "('op, 'r) exec_thread list"
  ex_object :: 's
  ex_accepted :: "nat list"
  ex_results :: "(nat \<times> 'r) list"

definition executor_new :: "nat \<Rightarrow> 's \<Rightarrow> ('op, 'r, 's) executor" where
  "executor_new max_pending_tasks s =
     \<lparr>ex_max = max_pending_tasks, ex_tasks = [], ex_stop = False, ex_worker = TaskWait, ex_threads = [],
      ex_object = s, ex_accepted = [], ex_results = []\<rparr>"

subsection \<open>The critical sections\<close>

definition set_phase :: "nat \<Rightarrow> 'r exec_phase \<Rightarrow> ('op, 'r, 's) executor \<Rightarrow> ('op, 'r, 's) executor" where
  "set_phase i p x = x\<lparr>ex_threads := (ex_threads x)[i := (ex_threads x ! i)\<lparr>et_phase := p\<rparr>]\<rparr>"

definition has_space :: "('op, 'r, 's) executor \<Rightarrow> bool" where
  "has_space x \<longleftrightarrow> ex_max x = 0 \<or> ex_stop x \<or> length (ex_tasks x) < ex_max x"

text \<open>
  A stopped executor drops the task: the caller's promise is broken, and a plain submission is
  lost silently.
\<close>

definition executor_submit :: "nat \<Rightarrow> ('op, 'r, 's) executor \<Rightarrow> ('op, 'r, 's) executor" where
  "executor_submit i x =
     (if ex_stop x then set_phase i (if et_call (ex_threads x ! i) then BrokenPromise else Submitted) x
      else set_phase i (if et_call (ex_threads x ! i) then Waiting else Submitted)
             (x\<lparr>ex_tasks := ex_tasks x @ [i], ex_accepted := ex_accepted x @ [i]\<rparr>))"

definition executor_take :: "('op, 'r, 's) executor \<Rightarrow> ('op, 'r, 's) executor" where
  "executor_take x =
     (case ex_tasks x of
        [] \<Rightarrow> (if ex_stop x then x\<lparr>ex_worker := WorkerExited\<rparr> else x)
      | i # is \<Rightarrow> x\<lparr>ex_tasks := is, ex_worker := Running i\<rparr>)"

definition run_task ::
  "('op \<Rightarrow> 's \<Rightarrow> 'r \<times> 's) \<Rightarrow> ('r \<Rightarrow> bool) \<Rightarrow> nat \<Rightarrow> ('op, 'r, 's) executor \<Rightarrow> ('op, 'r, 's) executor" where
  "run_task perform throws i x =
     (let (r, s) = perform (et_op (ex_threads x ! i)) (ex_object x)
      in x\<lparr>ex_object := s, ex_results := ex_results x @ [(i, r)],
           ex_worker := (if throws r \<and> \<not> et_call (ex_threads x ! i) then Terminated else TaskWait)\<rparr>)"

text \<open>The moves of the threads that exist.\<close>

inductive etick ::
  "('op \<Rightarrow> 's \<Rightarrow> 'r \<times> 's) \<Rightarrow> ('r \<Rightarrow> bool) \<Rightarrow> ('op, 'r, 's) executor \<Rightarrow> ('op, 'r, 's) executor \<Rightarrow> bool"
  for perform throws where
  submits: "i < length (ex_threads x) \<Longrightarrow> et_phase (ex_threads x ! i) = Submitting \<Longrightarrow> has_space x \<Longrightarrow>
    ex_worker x \<noteq> Terminated \<Longrightarrow> etick perform throws x (executor_submit i x)"
| takes: "ex_worker x = TaskWait \<Longrightarrow> ex_tasks x \<noteq> [] \<or> ex_stop x \<Longrightarrow> etick perform throws x (executor_take x)"
| runs: "ex_worker x = Running i \<Longrightarrow> etick perform throws x (run_task perform throws i x)"
| returns: "i < length (ex_threads x) \<Longrightarrow> et_phase (ex_threads x ! i) = Waiting \<Longrightarrow> map_of (ex_results x) i = Some r \<Longrightarrow>
    ex_worker x \<noteq> Terminated \<Longrightarrow> etick perform throws x (set_phase i (Returned r) x)"

text \<open>New calls and the stop come at any time.\<close>

inductive estep ::
  "('op \<Rightarrow> 's \<Rightarrow> 'r \<times> 's) \<Rightarrow> ('r \<Rightarrow> bool) \<Rightarrow> ('op, 'r, 's) executor \<Rightarrow> ('op, 'r, 's) executor \<Rightarrow> bool"
  for perform throws where
  ticks: "etick perform throws x x' \<Longrightarrow> estep perform throws x x'"
| begins: "estep perform throws x
    (x\<lparr>ex_threads := ex_threads x @ [\<lparr>et_op = op, et_call = c, et_phase = Submitting\<rparr>]\<rparr>)"
| stops: "estep perform throws x (x\<lparr>ex_stop := True\<rparr>)"

subsection \<open>The adapters\<close>

text \<open>One constructor per method of the wrapped objects.\<close>

datatype git_op = OpenOrInit string | WriteFile string string | StagePath string | RemovePath string | Commit string
  | SetRemote string string | RemoveRemote string | PullRemoteFfOnly string | ProbeRemote string | ProbeRemoteUrl string
  | PushBranch string string bool | RepoDir

datatype runner_op = StartBackgroundProbe | RunnerStatus | RunnerRetry | StartPull string | GetPull string | ListPulls
  | StreamGenerate string string string

definition git_thread :: "git_op \<Rightarrow> (git_op, 'r) exec_thread" where
  "git_thread op = \<lparr>et_op = op, et_call = True, et_phase = Submitting\<rparr>"

text \<open>Without a runner the methods answer at once, with the default value of their type.\<close>

definition runner_thread :: "bool \<Rightarrow> runner_op \<Rightarrow> (runner_op, 'r) exec_thread option" where
  "runner_thread has_inner op =
     (if \<not> has_inner then None
      else Some \<lparr>et_op = op, et_call = (op \<noteq> StartBackgroundProbe), et_phase = Submitting\<rparr>)"

subsection \<open>The profile of the machine\<close>

text \<open>The castes come from another library; they are a type with the two named ones and the set the code tests.\<close>

definition concurrency_profile_for_caste :: "'c \<Rightarrow> 'c \<Rightarrow> ('c \<Rightarrow> bool) \<Rightarrow> 'c \<Rightarrow> concurrency_profile" where
  "concurrency_profile_for_caste mini user dev_or_above caste =
     (if caste = mini then default_profile\<lparr>cp_io_threads := 1, cp_general_workers := 2\<rparr>
      else if caste = user then default_profile\<lparr>cp_io_threads := 1, cp_general_workers := 3\<rparr>
      else if dev_or_above caste then default_profile\<lparr>cp_io_threads := 2, cp_general_workers := 4\<rparr>
      else default_profile)"

lemma profile_has_workers:
  "0 < cp_ingress_workers (concurrency_profile_for_caste mini user dev c) \<and> 0 < cp_save_workers (concurrency_profile_for_caste mini user dev c) \<and>
   0 < cp_general_workers (concurrency_profile_for_caste mini user dev c) \<and> 0 < cp_writer_workers (concurrency_profile_for_caste mini user dev c)"
  by (simp add: concurrency_profile_for_caste_def default_profile_def)

subsection \<open>Lemmas\<close>

definition running :: "exec_worker \<Rightarrow> nat list" where
  "running w = (case w of Running i \<Rightarrow> [i] | _ \<Rightarrow> [])"

text \<open>The tasks one after the other on the object.\<close>

fun sequential :: "('op \<Rightarrow> 's \<Rightarrow> 'r \<times> 's) \<Rightarrow> 'op list \<Rightarrow> 's \<Rightarrow> 'r list \<times> 's" where
  "sequential perform [] s = ([], s)"
| "sequential perform (op # ops) s =
     (let (r, s') = perform op s; (rs, s'') = sequential perform ops s' in (r # rs, s''))"

lemma sequential_append:
  "sequential perform (xs @ ys) s =
     (fst (sequential perform xs s) @ fst (sequential perform ys (snd (sequential perform xs s))),
      snd (sequential perform ys (snd (sequential perform xs s))))"
  by (induction xs arbitrary: s) (auto simp: Let_def case_prod_unfold)

definition ops_of :: "('op, 'r, 's) executor \<Rightarrow> nat list \<Rightarrow> 'op list" where
  "ops_of x is = map (\<lambda>i. et_op (ex_threads x ! i)) is"

fun settled :: "'r exec_phase \<Rightarrow> bool" where
  "settled Submitting = False"
| "settled Waiting = False"
| "settled _ = True"

text \<open>What a thread's phase says of its task.\<close>

fun phase_ok :: "('op, 'r, 's) executor \<Rightarrow> nat \<Rightarrow> bool \<Rightarrow> 'r exec_phase \<Rightarrow> bool" where
  "phase_ok x i c Submitting = (i \<notin> set (ex_accepted x))"
| "phase_ok x i c Waiting = (c \<and> i \<in> set (ex_accepted x))"
| "phase_ok x i c (Returned r) = (c \<and> map_of (ex_results x) i = Some r)"
| "phase_ok x i c BrokenPromise = (c \<and> ex_stop x \<and> i \<notin> set (ex_accepted x))"
| "phase_ok x i c Submitted = (\<not> c \<and> (i \<in> set (ex_accepted x) \<or> ex_stop x))"

definition task_order :: "('op, 'r, 's) executor \<Rightarrow> nat list" where
  "task_order x = map fst (ex_results x) @ running (ex_worker x) @ ex_tasks x"

definition executor_ok :: "('op \<Rightarrow> 's \<Rightarrow> 'r \<times> 's) \<Rightarrow> 's \<Rightarrow> ('op, 'r, 's) executor \<Rightarrow> bool" where
  "executor_ok perform s0 x \<longleftrightarrow>
     ex_accepted x = task_order x \<and> distinct (task_order x) \<and>
     (\<forall>i \<in> set (task_order x). i < length (ex_threads x)) \<and>
     sequential perform (ops_of x (map fst (ex_results x))) s0 = (map snd (ex_results x), ex_object x) \<and>
     (\<forall>i < length (ex_threads x). phase_ok x i (et_call (ex_threads x ! i)) (et_phase (ex_threads x ! i))) \<and>
     (ex_max x \<noteq> 0 \<longrightarrow> length (ex_tasks x) \<le> ex_max x) \<and>
     (ex_worker x = WorkerExited \<longrightarrow> ex_stop x \<and> ex_tasks x = [])"

lemma set_phase_fields [simp]:
  "ex_max (set_phase i p x) = ex_max x" "ex_tasks (set_phase i p x) = ex_tasks x" "ex_stop (set_phase i p x) = ex_stop x"
  "ex_worker (set_phase i p x) = ex_worker x" "ex_object (set_phase i p x) = ex_object x"
  "ex_accepted (set_phase i p x) = ex_accepted x" "ex_results (set_phase i p x) = ex_results x"
  "length (ex_threads (set_phase i p x)) = length (ex_threads x)"
  by (simp_all add: set_phase_def)

lemma set_phase_thread:
  "i < length (ex_threads x) \<Longrightarrow> ex_threads (set_phase i p x) ! j = (if j = i then (ex_threads x ! i)\<lparr>et_phase := p\<rparr> else ex_threads x ! j)"
  by (simp add: set_phase_def nth_list_update)

lemma task_order_moves [simp]:
  "task_order (set_phase i p x) = task_order x"
  "task_order (x\<lparr>ex_tasks := ex_tasks x @ [i], ex_accepted := as\<rparr>) = task_order x @ [i]"
  "task_order (x\<lparr>ex_threads := ts\<rparr>) = task_order x" "task_order (x\<lparr>ex_stop := b\<rparr>) = task_order x"
  by (simp_all add: task_order_def)

lemma task_order_take: "ex_worker x = TaskWait \<Longrightarrow> task_order (executor_take x) = task_order x"
  by (simp add: task_order_def executor_take_def running_def split: list.splits)

lemma task_order_run: "ex_worker x = Running i \<Longrightarrow> task_order (run_task perform throws i x) = task_order x"
  by (simp add: task_order_def run_task_def running_def case_prod_unfold Let_def)

lemma ops_of_phase [simp]: "i < length (ex_threads x) \<Longrightarrow> ops_of (set_phase i p x) is = ops_of x is"
  by (simp add: ops_of_def set_phase_thread)

lemma ops_of_submit [simp]: "ops_of (x\<lparr>ex_tasks := ts, ex_accepted := as\<rparr>) is = ops_of x is"
  by (simp add: ops_of_def)

lemma phase_ok_mono:
  assumes "phase_ok x j c p" and "set (ex_accepted x) - {i} = set (ex_accepted y) - {i}" and "j \<noteq> i" and "ex_stop x \<longrightarrow> ex_stop y"
    and "\<And>r. map_of (ex_results x) j = Some r \<Longrightarrow> map_of (ex_results y) j = Some r"
  shows "phase_ok y j c p"
  using assms by (cases p) auto

lemma submit_ok:
  assumes ok: "executor_ok perform s0 x" and i: "i < length (ex_threads x)" "et_phase (ex_threads x ! i) = Submitting" and sp: "has_space x"
  shows "executor_ok perform s0 (executor_submit i x)"
proof -
  have ph: "phase_ok x j (et_call (ex_threads x ! j)) (et_phase (ex_threads x ! j))" if "j < length (ex_threads x)" for j
    using ok that by (simp add: executor_ok_def)
  then have new: "i \<notin> set (ex_accepted x)" using i by fastforce
  show ?thesis
  proof (cases "ex_stop x")
    case True
    have "phase_ok (executor_submit i x) j (et_call (ex_threads (executor_submit i x) ! j)) (et_phase (ex_threads (executor_submit i x) ! j))"
      if "j < length (ex_threads x)" for j
      using phase_ok_mono [OF ph [OF that], of i "executor_submit i x"] True new i
      by (auto simp: executor_submit_def set_phase_thread)
    then show ?thesis using ok i True by (auto simp: executor_ok_def executor_submit_def)
  next
    case False
    have p: "phase_ok (executor_submit i x) j (et_call (ex_threads (executor_submit i x) ! j)) (et_phase (ex_threads (executor_submit i x) ! j))"
      if "j < length (ex_threads x)" for j
      using phase_ok_mono [OF ph [OF that], of i "executor_submit i x"] False new i
      by (auto simp: executor_submit_def set_phase_thread)
    have w: "ex_worker x \<noteq> WorkerExited" using ok False by (auto simp: executor_ok_def)
    show ?thesis using ok i False p new sp w
      by (auto simp: executor_ok_def executor_submit_def has_space_def)
  qed
qed

lemma take_ok:
  assumes ok: "executor_ok perform s0 x" and w: "ex_worker x = TaskWait"
  shows "executor_ok perform s0 (executor_take x)"
proof -
  have "phase_ok (executor_take x) j c p = phase_ok x j c p" for j c p
    by (cases p) (simp_all add: executor_take_def split: list.splits)
  moreover have "ops_of (executor_take x) is = ops_of x is" for "is"
    by (simp add: ops_of_def executor_take_def split: list.splits)
  moreover have "ex_accepted (executor_take x) = ex_accepted x" "ex_threads (executor_take x) = ex_threads x"
    "ex_results (executor_take x) = ex_results x" "ex_object (executor_take x) = ex_object x" "ex_max (executor_take x) = ex_max x"
    "length (ex_tasks (executor_take x)) \<le> length (ex_tasks x)"
    "ex_worker (executor_take x) = WorkerExited \<longrightarrow> ex_stop (executor_take x) \<and> ex_tasks (executor_take x) = []"
    using w by (simp_all add: executor_take_def split: list.splits)
  ultimately show ?thesis using ok task_order_take [OF w] by (auto simp: executor_ok_def)
qed

lemma run_ok:
  assumes ok: "executor_ok perform s0 x" and w: "ex_worker x = Running i"
  shows "executor_ok perform s0 (run_task perform throws i x)"
proof -
  obtain r s where rs: "perform (et_op (ex_threads x ! i)) (ex_object x) = (r, s)" by (rule prod.exhaust)
  let ?y = "run_task perform throws i x"
  have y: "ex_results ?y = ex_results x @ [(i, r)]" "ex_object ?y = s" "ex_threads ?y = ex_threads x" "ex_accepted ?y = ex_accepted x"
    "ex_tasks ?y = ex_tasks x" "ex_stop ?y = ex_stop x" "ex_max ?y = ex_max x" "ex_worker ?y \<noteq> WorkerExited"
    using rs by (simp_all add: run_task_def)
  have more: "map_of (ex_results x @ [(i, r)]) j = Some q" if "map_of (ex_results x) j = Some q" for j q
    using that by (simp add: map_add_def)
  have p: "phase_ok ?y j c p" if "phase_ok x j c p" for j c p
    using that more y by (cases p) auto
  have "sequential perform (ops_of x (map fst (ex_results x)) @ [et_op (ex_threads x ! i)]) s0 = (map snd (ex_results x) @ [r], s)"
    using ok rs by (simp add: executor_ok_def sequential_append)
  then show ?thesis using ok y p task_order_run [OF w, of perform throws] by (simp add: executor_ok_def ops_of_def)
qed

lemma return_ok:
  assumes ok: "executor_ok perform s0 x" and i: "i < length (ex_threads x)" "et_phase (ex_threads x ! i) = Waiting"
    and r: "map_of (ex_results x) i = Some r"
  shows "executor_ok perform s0 (set_phase i (Returned r) x)"
proof -
  have ph: "phase_ok x j (et_call (ex_threads x ! j)) (et_phase (ex_threads x ! j))" if "j < length (ex_threads x)" for j
    using ok that by (simp add: executor_ok_def)
  have "et_call (ex_threads x ! i)" using ph [OF i(1)] i(2) by simp
  then have "phase_ok (set_phase i (Returned r) x) j (et_call (ex_threads (set_phase i (Returned r) x) ! j)) (et_phase (ex_threads (set_phase i (Returned r) x) ! j))"
    if "j < length (ex_threads x)" for j
    using phase_ok_mono [OF ph [OF that], of i "set_phase i (Returned r) x"] r i by (auto simp: set_phase_thread)
  then show ?thesis using ok i by (auto simp: executor_ok_def)
qed

lemma tick_ok: "etick perform throws x x' \<Longrightarrow> executor_ok perform s0 x \<Longrightarrow> executor_ok perform s0 x'"
  by (induction rule: etick.induct) (simp_all add: submit_ok take_ok run_ok return_ok)

lemma step_ok: "estep perform throws x x' \<Longrightarrow> executor_ok perform s0 x \<Longrightarrow> executor_ok perform s0 x'"
proof (induction rule: estep.induct)
  case (begins x op c)
  let ?t = "\<lparr>et_op = op, et_call = c, et_phase = Submitting\<rparr>"
  let ?y = "x\<lparr>ex_threads := ex_threads x @ [?t]\<rparr>"
  have b: "\<forall>i \<in> set (task_order x). i < length (ex_threads x)" using begins by (simp add: executor_ok_def)
  have p: "phase_ok ?y j c p = phase_ok x j c p" for j c p by (cases p) simp_all
  have o: "ops_of ?y (map fst (ex_results x)) = ops_of x (map fst (ex_results x))"
    using b by (auto simp: ops_of_def nth_append task_order_def)
  show ?case using begins b p o by (auto simp: executor_ok_def nth_append less_Suc_eq)
next
  case (stops x)
  have p: "phase_ok x j c p \<Longrightarrow> phase_ok (x\<lparr>ex_stop := True\<rparr>) j c p" for j c p by (cases p) auto
  then show ?case using stops by (auto simp: executor_ok_def ops_of_def)
qed (simp add: tick_ok)

text \<open>The work that is left: a waiting thread, a queued task, the worker.\<close>

fun phase_load :: "'r exec_phase \<Rightarrow> nat" where
  "phase_load Submitting = 5"
| "phase_load Waiting = 1"
| "phase_load _ = 0"

fun exec_worker_load :: "exec_worker \<Rightarrow> nat" where
  "exec_worker_load TaskWait = 1"
| "exec_worker_load (Running i) = 2"
| "exec_worker_load _ = 0"

definition executor_load :: "('op, 'r, 's) executor \<Rightarrow> nat" where
  "executor_load x = load_of (\<lambda>t. phase_load (et_phase t)) (ex_threads x) + 3 * length (ex_tasks x) + exec_worker_load (ex_worker x)"

text \<open>Nobody waits any more; a stopped worker has returned. The process may also have terminated.\<close>

definition executor_idle :: "('op, 'r, 's) executor \<Rightarrow> bool" where
  "executor_idle x \<longleftrightarrow> ex_worker x = Terminated \<or>
     (\<forall>t \<in> set (ex_threads x). settled (et_phase t)) \<and> ex_tasks x = [] \<and> ex_worker x = (if ex_stop x then WorkerExited else TaskWait)"

lemma set_phase_load:
  "i < length (ex_threads x) \<Longrightarrow> executor_load (set_phase i p x) + phase_load (et_phase (ex_threads x ! i)) = executor_load x + phase_load p"
  using load_of_update [of i "ex_threads x" "\<lambda>t. phase_load (et_phase t)" "(ex_threads x ! i)\<lparr>et_phase := p\<rparr>"]
  by (simp add: executor_load_def set_phase_def)

lemma tick_lowers: "etick perform throws x x' \<Longrightarrow> executor_load x' < executor_load x"
proof (induction rule: etick.induct)
  case (submits i x)
  let ?y = "x\<lparr>ex_tasks := ex_tasks x @ [i], ex_accepted := ex_accepted x @ [i]\<rparr>"
  have "executor_load ?y = executor_load x + 3" by (simp add: executor_load_def)
  then show ?case
    using submits set_phase_load [of i x "if et_call (ex_threads x ! i) then BrokenPromise else Submitted"]
      set_phase_load [of i ?y "if et_call (ex_threads x ! i) then Waiting else Submitted"]
    by (auto simp: executor_submit_def split: if_splits)
next
  case (takes x)
  then show ?case by (auto simp: executor_take_def executor_load_def split: list.splits)
next
  case (runs x i)
  then show ?case by (simp add: run_task_def executor_load_def case_prod_unfold Let_def)
next
  case (returns i x r)
  then show ?case using set_phase_load [of i x "Returned r"] by simp
qed

lemma tick_possible:
  assumes ok: "executor_ok perform s0 x" and busy: "\<not> executor_idle x"
  shows "\<exists>x'. etick perform throws x x'"
proof -
  have nt: "ex_worker x \<noteq> Terminated" using busy by (simp add: executor_idle_def)
  have ph: "phase_ok x j (et_call (ex_threads x ! j)) (et_phase (ex_threads x ! j))" if "j < length (ex_threads x)" for j
    using ok that by (simp add: executor_ok_def)
  show ?thesis
  proof (cases "\<exists>i. ex_worker x = Running i \<or> ex_worker x = TaskWait \<and> (ex_tasks x \<noteq> [] \<or> ex_stop x)")
    case True
    then show ?thesis using etick.runs etick.takes by blast
  next
    case False
    then have rest: "ex_tasks x = []" "ex_worker x = (if ex_stop x then WorkerExited else TaskWait)" "running (ex_worker x) = []"
      using ok nt by (cases "ex_worker x"; auto simp: executor_ok_def running_def)+
    then obtain i where i: "i < length (ex_threads x)" "\<not> settled (et_phase (ex_threads x ! i))"
      using busy by (auto simp: executor_idle_def in_set_conv_nth)
    show ?thesis
    proof (cases "et_phase (ex_threads x ! i)")
      case Submitting
      have "has_space x" using rest by (auto simp: has_space_def)
      then show ?thesis using etick.submits [OF i(1) Submitting _ nt] by blast
    next
      case Waiting
      then have "i \<in> set (map fst (ex_results x))" using ph [OF i(1)] rest ok by (simp add: executor_ok_def task_order_def)
      then obtain r where "map_of (ex_results x) i = Some r" by (metis list.set_map map_of_eq_None_iff not_None_eq)
      then show ?thesis using etick.returns [OF i(1) Waiting _ nt] by blast
    qed (use i in simp_all)
  qed
qed

interpretation xs: step_system "estep perform throws" "executor_ok perform s0" for perform throws s0
  by unfold_locales (rule step_ok)

interpretation xd: draining_system "etick perform throws" "executor_ok perform s0" executor_load executor_idle for perform throws s0
  by unfold_locales (simp_all add: tick_ok tick_lowers tick_possible)

lemma executor_new_ok: "executor_ok perform s (executor_new n s)"
  by (simp add: executor_ok_def executor_new_def task_order_def running_def ops_of_def)

subsection \<open>Properties\<close>

text \<open>
  C10 Calls are serial. However many threads call and submit, whenever the executor is stopped and
  however the steps interleave: the tasks accepted are those run, the one running and those queued,
  in the order they were accepted, none twice; the results and the state of the wrapped object are
  those of running the tasks one after the other; a bounded queue never exceeds its bound; a call
  that returned got the result of its own task; and a call fails with a broken promise only when the
  executor was stopped, and then its task was not accepted.
\<close>

theorem executor_serial:
  assumes "(estep perform throws)\<^sup>*\<^sup>* (executor_new n s0) x"
  shows "ex_accepted x = map fst (ex_results x) @ running (ex_worker x) @ ex_tasks x \<and> distinct (ex_accepted x) \<and>
    sequential perform (ops_of x (map fst (ex_results x))) s0 = (map snd (ex_results x), ex_object x) \<and>
    (ex_max x \<noteq> 0 \<longrightarrow> length (ex_tasks x) \<le> ex_max x) \<and>
    (\<forall>i < length (ex_threads x).
       (\<forall>r. et_phase (ex_threads x ! i) = Returned r \<longrightarrow> map_of (ex_results x) i = Some r) \<and>
       (et_phase (ex_threads x ! i) = BrokenPromise \<longrightarrow> ex_stop x \<and> i \<notin> set (ex_accepted x)))"
proof -
  have ok: "executor_ok perform s0 x" by (rule xs.run_keeps [OF assms executor_new_ok])
  have "(\<forall>r. et_phase (ex_threads x ! i) = Returned r \<longrightarrow> map_of (ex_results x) i = Some r) \<and>
      (et_phase (ex_threads x ! i) = BrokenPromise \<longrightarrow> ex_stop x \<and> i \<notin> set (ex_accepted x))" if "i < length (ex_threads x)" for i
  proof -
    have "phase_ok x i (et_call (ex_threads x ! i)) (et_phase (ex_threads x ! i))" using ok that by (simp add: executor_ok_def)
    then show ?thesis by (cases "et_phase (ex_threads x ! i)") auto
  qed
  then show ?thesis using ok unfolding executor_ok_def task_order_def by metis
qed

text \<open>
  C11 Every call returns. From any state the executor can be in, if no further calls arrive: every
  schedule of its threads ends after finitely many steps, and it ends only where every caller has
  its answer, the queue is empty and all accepted tasks were run, and the worker waits for new tasks
  or, after a stop, has returned; unless a submitted task threw, which terminates the process. So a
  stop neither loses accepted tasks nor leaves a caller behind.
\<close>

theorem executor_calls_return:
  assumes "(estep perform throws)\<^sup>*\<^sup>* (executor_new n s0) x"
  shows "(\<forall>k x'. (etick perform throws ^^ k) x x' \<longrightarrow> k \<le> executor_load x) \<and>
    (\<exists>x'. (etick perform throws)\<^sup>*\<^sup>* x x' \<and> executor_idle x') \<and>
    (\<forall>x'. (etick perform throws)\<^sup>*\<^sup>* x x' \<and> (\<nexists>y. etick perform throws x' y) \<and> ex_worker x' \<noteq> Terminated \<longrightarrow>
       (\<forall>t \<in> set (ex_threads x'). settled (et_phase t)) \<and> map fst (ex_results x') = ex_accepted x' \<and>
       ex_worker x' = (if ex_stop x' then WorkerExited else TaskWait))"
proof (intro conjI allI impI)
  have ok: "executor_ok perform s0 x" by (rule xs.run_keeps [OF assms executor_new_ok])
  show "\<exists>x'. (etick perform throws)\<^sup>*\<^sup>* x x' \<and> executor_idle x'" by (rule xd.finishes [OF ok])
  show "k \<le> executor_load x" if "(etick perform throws ^^ k) x x'" for k x' using xd.run_length [OF that ok] by simp
  show "\<forall>t \<in> set (ex_threads x'). settled (et_phase t)" "map fst (ex_results x') = ex_accepted x'"
    "ex_worker x' = (if ex_stop x' then WorkerExited else TaskWait)"
    if "(etick perform throws)\<^sup>*\<^sup>* x x' \<and> (\<nexists>y. etick perform throws x' y) \<and> ex_worker x' \<noteq> Terminated" for x'
  proof -
    have ok': "executor_ok perform s0 x'" using that xd.run_keeps [OF _ ok] by blast
    then have idle: "executor_idle x'" by (rule xd.stuck_final) (use that in blast)
    then show "\<forall>t \<in> set (ex_threads x'). settled (et_phase t)" "ex_worker x' = (if ex_stop x' then WorkerExited else TaskWait)"
      using that by (auto simp: executor_idle_def)
    then show "map fst (ex_results x') = ex_accepted x'"
      using idle ok' that by (auto simp: executor_idle_def executor_ok_def task_order_def running_def)
  qed
qed

text \<open>An accumulator behind the executor: one call of it is under way when the executor is stopped.\<close>

definition add_op :: "int \<Rightarrow> int \<Rightarrow> int \<times> int" where
  "add_op op s = (s + op, s + op)"

definition sample_executor :: "(int, int, int) executor" where
  "sample_executor = (executor_new 1 10)\<lparr>ex_threads := [\<lparr>et_op = 5, et_call = True, et_phase = Waiting\<rparr>], ex_accepted := [0],
     ex_results := [(0, 15)], ex_object := 15, ex_stop := True\<rparr>"

lemma sample_executor_reached: "(estep add_op (\<lambda>r. r < 0))\<^sup>*\<^sup>* (executor_new 1 10) sample_executor"
proof -
  let ?E = "estep add_op (\<lambda>r. r < 0)" and ?x0 = "executor_new 1 10 :: (int, int, int) executor"
  let ?t = "\<lambda>p. \<lparr>et_op = 5, et_call = True, et_phase = p\<rparr> :: (int, int) exec_thread"
  let ?x1 = "?x0\<lparr>ex_threads := [?t Submitting]\<rparr>"
  let ?x2 = "?x0\<lparr>ex_threads := [?t Waiting], ex_tasks := [0], ex_accepted := [0]\<rparr>"
  let ?x3 = "?x0\<lparr>ex_threads := [?t Waiting], ex_worker := Running 0, ex_accepted := [0]\<rparr>"
  let ?x4 = "?x0\<lparr>ex_threads := [?t Waiting], ex_accepted := [0], ex_results := [(0, 15)], ex_object := 15\<rparr>"
  have 1: "?E ?x0 ?x1" using estep.begins [of add_op "\<lambda>r. r < 0" ?x0 5 True] by (simp add: executor_new_def)
  have "etick add_op (\<lambda>r. r < 0) ?x1 (executor_submit 0 ?x1)"
    by (rule etick.submits) (simp_all add: executor_new_def has_space_def)
  then have 2: "?E ?x1 ?x2" by (simp add: estep.ticks executor_submit_def set_phase_def executor_new_def)
  have "etick add_op (\<lambda>r. r < 0) ?x2 (executor_take ?x2)" by (rule etick.takes) (simp_all add: executor_new_def)
  then have 3: "?E ?x2 ?x3" by (simp add: estep.ticks executor_take_def executor_new_def)
  have "etick add_op (\<lambda>r. r < 0) ?x3 (run_task add_op (\<lambda>r. r < 0) 0 ?x3)" by (rule etick.runs) (simp add: executor_new_def)
  then have 4: "?E ?x3 ?x4" by (simp add: estep.ticks run_task_def executor_new_def add_op_def)
  have 5: "?E ?x4 sample_executor" using estep.stops [of add_op "\<lambda>r. r < 0" ?x4] by (simp add: sample_executor_def executor_new_def)
  show ?thesis using 1 2 3 4 5 by (meson converse_rtranclp_into_rtranclp rtranclp.rtrancl_refl)
qed

theorem executor_serial_witness: "distinct (ex_accepted sample_executor) \<and> sequential add_op [5] 10 = ([15], 15)"
  using executor_serial [OF sample_executor_reached] by (simp add: sample_executor_def ops_of_def)

theorem executor_calls_return_witness: "\<exists>x'. (etick add_op (\<lambda>r. r < 0))\<^sup>*\<^sup>* sample_executor x' \<and> executor_idle x'"
  using executor_calls_return [OF sample_executor_reached] by blast

end
