(* ===== verification/Journal.thy ===== *)
theory Journal
  imports Prelude "HOL-Library.Sublist"
begin

text \<open>
  \<open>src/src/api/support/EventJournal.{h,cpp}\<close>: the process-local replay journal behind every
  event stream. A journal has an epoch (a UUID), an absolute sequence number, and a window of
  the most recent events bounded by a count and by the bytes of their encoded frames. A cursor
  is \<open>epoch:sequence\<close>.

  \<open>nlohmann::json::dump\<close> is the parameter \<open>dump\<close>; the UUID of
  \<open>boost::uuids::random_generator\<close> is an argument of the constructor, with its documented
  shape \<open>uuid_shape\<close> as a hypothesis. \<open>std::uint64_t\<close> counters are natural numbers
  with the wrap-around written out (\<open>u64_add\<close>, \<open>u64_sub\<close>); the byte counts are sizes of
  strings in memory, whose sums stay below \<open>2 ^ 64\<close>, and are plain numbers. The mutex makes every method
  one atomic step, so a method is a function of the journal.

  The lemmas show the replay contract: the journal is a window on the whole history of appended
  events, its window is the longest one the limits allow, and a reader's cursor yields exactly
  the events after it or an explicit demand to resynchronise. The contract itself is the locale
  \<open>replay_log\<close>, interpreted here on the journal.
\<close>

subsection \<open>Data\<close>

record stream_event =
  ev_id :: string
  ev_name :: string
  ev_data :: json

record event_batch =
  b_events :: "stream_event list"
  b_cursor :: string
  b_resync_required :: bool
  b_finished :: bool
  b_truncated :: bool

record journal =
  j_epoch :: string
  j_sequence :: nat
  j_oldest :: nat
  j_events :: "stream_event list"
  j_sizes :: "nat list"
  j_bytes :: nat
  j_capacity :: nat
  j_byte_limit :: nat
  j_finished :: bool

type_synonym dumper = "json \<Rightarrow> string"

subsection \<open>Cursors and frames\<close>

definition uuid_char_ok :: "nat \<Rightarrow> char \<Rightarrow> bool" where
  "uuid_char_ok i c \<longleftrightarrow>
     (if i = 8 \<or> i = 13 \<or> i = 18 \<or> i = 23 then c = CHR ''-''
      else is_digit c \<or> (97 \<le> byte_of c \<and> byte_of c \<le> 102))"

definition epoch_ok :: "string \<Rightarrow> bool" where
  "epoch_ok s \<longleftrightarrow> list_all (\<lambda>(i, c). uuid_char_ok i c) (enumerate 0 s)"

definition parse_cursor :: "string \<Rightarrow> (string \<times> nat) option" where
  "parse_cursor cursor =
     (case find_char (CHR '':'') cursor of
        None \<Rightarrow> None
      | Some separator \<Rightarrow>
          if separator \<noteq> 36 \<or> length cursor \<le> separator + 1 then None
          else if \<not> epoch_ok (take separator cursor) then None
          else map_option (\<lambda>n. (take separator cursor, n))
                 (from_chars_all two64 (drop (separator + 1) cursor)))"

definition encode_sse :: "dumper \<Rightarrow> stream_event \<Rightarrow> string" where
  "encode_sse dump e =
     ''id: '' @ ev_id e @ [newline] @ ''event: '' @ ev_name e @ [newline] @
     ''data: '' @ dump (ev_data e) @ [newline, newline]"

definition make_cursor :: "string \<Rightarrow> nat \<Rightarrow> string" where
  "make_cursor epoch n = epoch @ '':'' @ to_string n"

subsection \<open>Operations\<close>

definition journal_new :: "string \<Rightarrow> nat \<Rightarrow> nat \<Rightarrow> journal result" where
  "journal_new epoch capacity byte_limit =
     (if capacity = 0 \<or> byte_limit = 0 then Inl (InvalidArgument ''Empty event journal capacity'')
      else Inr \<lparr>j_epoch = epoch, j_sequence = 0, j_oldest = 1, j_events = [], j_sizes = [],
                j_bytes = 0, j_capacity = capacity, j_byte_limit = byte_limit,
                j_finished = False\<rparr>)"

text \<open>
  The eviction loop of \<open>append\<close>. On an empty deque \<open>front()\<close> is undefined in C++; the
  loop never gets there (\<open>trim_loop_unless\<close> below), and the model stops.
\<close>

function trim_loop :: "journal \<Rightarrow> journal" where
  "trim_loop j =
     (if length (j_events j) > j_capacity j \<or> j_bytes j > j_byte_limit j then
        case (j_sizes j, j_events j) of
          (z # zs, e # es) \<Rightarrow>
            trim_loop (j\<lparr>j_bytes := j_bytes j - z, j_sizes := zs, j_events := es,
                        j_oldest := u64_add (j_oldest j) 1\<rparr>)
        | _ \<Rightarrow> j
      else j)"
  by pat_completeness auto
termination
  by (relation "measure (\<lambda>j. length (j_events j))") (auto dest: sym)

declare trim_loop.simps [simp del]

definition journal_append ::
  "dumper \<Rightarrow> string \<Rightarrow> json \<Rightarrow> bool \<Rightarrow> journal \<Rightarrow> stream_event \<times> journal" where
  "journal_append dump name data fin j =
     (let seq = u64_add (j_sequence j) 1;
          ev = \<lparr>ev_id = make_cursor (j_epoch j) seq, ev_name = name, ev_data = data\<rparr>;
          size = length (encode_sse dump ev)
      in (ev, trim_loop (j\<lparr>j_sequence := seq,
                          j_events := j_events j @ [ev],
                          j_sizes := j_sizes j @ [size],
                          j_bytes := j_bytes j + size,
                          j_finished := j_finished j \<or> fin\<rparr>)))"

definition journal_cursor :: "journal \<Rightarrow> string" where
  "journal_cursor j = make_cursor (j_epoch j) (j_sequence j)"

definition journal_read :: "journal \<Rightarrow> string \<Rightarrow> event_batch" where
  "journal_read j after =
     (let start = u64_sub (j_oldest j) 1;
          batch = \<lparr>b_events = [], b_cursor = journal_cursor j, b_resync_required = False,
                   b_finished = j_finished j, b_truncated = 1 < j_oldest j\<rparr>
      in if after = [] then batch\<lparr>b_events := j_events j\<rparr>
         else case parse_cursor after of
             None \<Rightarrow> batch\<lparr>b_resync_required := True\<rparr>
           | Some (epoch, sequence) \<Rightarrow>
               if epoch \<noteq> j_epoch j \<or> sequence > j_sequence j \<or> sequence < start
               then batch\<lparr>b_resync_required := True\<rparr>
               else batch\<lparr>b_events := drop (u64_sub sequence start) (j_events j)\<rparr>)"

definition valid_cursor :: "string \<Rightarrow> bool" where
  "valid_cursor cursor \<longleftrightarrow> parse_cursor cursor \<noteq> None"

text \<open>A sequence of appends, with the events they return.\<close>

fun journal_run ::
  "dumper \<Rightarrow> (string \<times> json \<times> bool) list \<Rightarrow> journal \<Rightarrow> stream_event list \<times> journal" where
  "journal_run dump [] j = ([], j)"
| "journal_run dump ((name, data, fin) # xs) j =
     (let (e, j1) = journal_append dump name data fin j;
          (es, j2) = journal_run dump xs j1
      in (e # es, j2))"

subsection \<open>The replay contract\<close>

text \<open>
  What a client of a bounded log relies on, whatever the log is: appends number the entries,
  the retained entries are a suffix of all entries, and a read after position \<open>p\<close> returns
  the retained entries after \<open>p\<close> or refuses.
\<close>

locale replay_log =
  fixes inv :: "'s \<Rightarrow> bool"
    and room :: "'s \<Rightarrow> nat \<Rightarrow> bool"
    and tail :: "'s \<Rightarrow> nat"
    and retained :: "'s \<Rightarrow> 'e list"
    and add :: "'x \<Rightarrow> 's \<Rightarrow> 'e \<times> 's"
    and read_after :: "'s \<Rightarrow> nat \<Rightarrow> 'e list option"
  assumes inv_add: "inv s \<Longrightarrow> room s (Suc n) \<Longrightarrow> inv (snd (add x s))"
    and room_add: "inv s \<Longrightarrow> room s (Suc n) \<Longrightarrow> room (snd (add x s)) n"
    and tail_add: "inv s \<Longrightarrow> room s (Suc n) \<Longrightarrow> tail (snd (add x s)) = Suc (tail s)"
    and retained_add: "inv s \<Longrightarrow> room s (Suc n) \<Longrightarrow>
      suffix (retained (snd (add x s))) (retained s @ [fst (add x s)])"
    and retained_le_tail: "inv s \<Longrightarrow> length (retained s) \<le> tail s"
    and read_after_spec: "inv s \<Longrightarrow> read_after s p =
      (if p \<le> tail s \<and> tail s - length (retained s) \<le> p
       then Some (drop (p - (tail s - length (retained s))) (retained s)) else None)"
begin

primrec adds :: "'x list \<Rightarrow> 's \<Rightarrow> 'e list \<times> 's" where
  "adds [] s = ([], s)"
| "adds (x # xs) s =
     (fst (add x s) # fst (adds xs (snd (add x s))), snd (adds xs (snd (add x s))))"

lemma adds_length: "length (fst (adds xs s)) = length xs"
  by (induction xs arbitrary: s) auto

lemma adds_inv:
  "inv s \<Longrightarrow> room s (length xs + n) \<Longrightarrow> inv (snd (adds xs s)) \<and> room (snd (adds xs s)) n"
proof (induction xs arbitrary: s)
  case Nil
  then show ?case by simp
next
  case (Cons x xs)
  have "inv (snd (add x s))" and "room (snd (add x s)) (length xs + n)"
    using Cons.prems inv_add room_add by auto
  from Cons.IH [OF this] show ?case by simp
qed

lemma adds_retained:
  "inv s \<Longrightarrow> room s (length xs) \<Longrightarrow>
     tail (snd (adds xs s)) = tail s + length xs \<and>
     suffix (retained (snd (adds xs s))) (retained s @ fst (adds xs s))"
proof (induction xs arbitrary: s)
  case Nil
  then show ?case by simp
next
  case (Cons x xs)
  let ?s1 = "snd (add x s)" and ?new = "fst (adds xs (snd (add x s)))"
  have r: "room s (Suc (length xs))" using Cons.prems by simp
  have IH: "tail (snd (adds xs ?s1)) = tail ?s1 + length xs"
    "suffix (retained (snd (adds xs ?s1))) (retained ?s1 @ ?new)"
    using Cons.IH inv_add room_add Cons.prems r by blast+
  have "suffix (retained ?s1 @ ?new) ((retained s @ [fst (add x s)]) @ ?new)"
    using retained_add [OF Cons.prems(1) r] by (simp only: same_suffix_suffix)
  from suffix_order.trans [OF IH(2) this] show ?case
    using IH(1) tail_add [OF Cons.prems(1) r] by simp
qed

text \<open>A reader at the tail of one state sees, later, exactly what was added since, or nothing.\<close>

theorem read_since:
  assumes "inv s" and "room s (length xs)"
  shows "read_after (snd (adds xs s)) (tail s) =
    (if length (retained (snd (adds xs s))) < length xs then None else Some (fst (adds xs s)))"
proof -
  let ?t = "snd (adds xs s)" and ?new = "fst (adds xs s)"
  have it: "inv ?t" using adds_inv [of s xs 0] assms by simp
  have tl: "tail ?t = tail s + length xs" and sf: "suffix (retained ?t) (retained s @ ?new)"
    using adds_retained [OF assms] by blast+
  show ?thesis
  proof (cases "length (retained ?t) < length xs")
    case True
    then show ?thesis using tl by (simp add: read_after_spec [OF it])
  next
    case False
    have "suffix ?new (retained ?t)"
      using suffix_length_suffix [OF _ sf, of ?new] False adds_length [of xs s] by (simp add: suffix_def)
    then obtain us where us: "retained ?t = us @ ?new" by (auto simp: suffix_def)
    have "tail s - (tail ?t - length (retained ?t)) = length us"
      using retained_le_tail [OF it] tl us adds_length [of xs s] by simp
    then show ?thesis
      using False tl retained_le_tail [OF it] us by (simp add: read_after_spec [OF it])
  qed
qed

end

subsection \<open>Invariant\<close>

definition frame_size :: "dumper \<Rightarrow> stream_event \<Rightarrow> nat" where
  "frame_size dump e = length (encode_sse dump e)"

definition weight :: "dumper \<Rightarrow> stream_event list \<Rightarrow> nat" where
  "weight dump es = sum_list (map (frame_size dump) es)"

definition fits :: "dumper \<Rightarrow> journal \<Rightarrow> stream_event list \<Rightarrow> bool" where
  "fits dump j es \<longleftrightarrow> length es \<le> j_capacity j \<and> weight dump es \<le> j_byte_limit j"

definition uuid_shape :: "string \<Rightarrow> bool" where
  "uuid_shape s \<longleftrightarrow> length s = 36 \<and> epoch_ok s"

definition journal_core :: "dumper \<Rightarrow> journal \<Rightarrow> bool" where
  "journal_core dump j \<longleftrightarrow>
     uuid_shape (j_epoch j) \<and>
     j_sizes j = map (frame_size dump) (j_events j) \<and>
     j_bytes j = weight dump (j_events j) \<and>
     1 \<le> j_oldest j \<and> j_oldest j + length (j_events j) = Suc (j_sequence j) \<and>
     Suc (j_sequence j) < two64 \<and>
     map ev_id (j_events j) = map (make_cursor (j_epoch j)) [j_oldest j ..< Suc (j_sequence j)]"

definition journal_inv :: "dumper \<Rightarrow> journal \<Rightarrow> bool" where
  "journal_inv dump j \<longleftrightarrow> journal_core dump j \<and> fits dump j (j_events j)"

definition journal_room :: "journal \<Rightarrow> nat \<Rightarrow> bool" where
  "journal_room j n \<longleftrightarrow> Suc (j_sequence j + n) < two64"

lemma weight_Nil [simp]: "weight dump [] = 0"
  by (simp add: weight_def)

lemma weight_Cons [simp]: "weight dump (e # es) = frame_size dump e + weight dump es"
  by (simp add: weight_def)

lemma weight_append [simp]: "weight dump (es @ fs) = weight dump es + weight dump fs"
  by (simp add: weight_def)

lemma suffix_Cons_longer:
  "suffix xs (e # es) \<Longrightarrow> length es < length xs \<Longrightarrow> xs = e # es"
  by (auto simp: suffix_def Cons_eq_append_conv)

lemma trim_loop_fixed:
  "trim_loop j = j" if "fits dump j (j_events j)" "j_bytes j = weight dump (j_events j)"
  using that by (subst trim_loop.simps) (auto simp: fits_def)

text \<open>The loop never finds its deques empty: over the limits, there is something to drop.\<close>

lemma trim_loop_unless:
  assumes "j_bytes j = weight dump (j_events j)" and "\<not> fits dump j (j_events j)"
  shows "j_events j \<noteq> []"
  using assms by (auto simp: fits_def)

lemma trim_loop_step:
  assumes "journal_core dump j" and "\<not> fits dump j (j_events j)"
  obtains e es where "j_events j = e # es"
    "trim_loop j = trim_loop (j\<lparr>j_bytes := j_bytes j - frame_size dump e,
       j_sizes := map (frame_size dump) es, j_events := es, j_oldest := Suc (j_oldest j)\<rparr>)"
    "journal_core dump (j\<lparr>j_bytes := j_bytes j - frame_size dump e,
       j_sizes := map (frame_size dump) es, j_events := es, j_oldest := Suc (j_oldest j)\<rparr>)"
proof -
  have "j_events j \<noteq> []" using trim_loop_unless [OF _ assms(2)] assms(1) by (simp add: journal_core_def)
  then obtain e es where ev: "j_events j = e # es" by (cases "j_events j") auto
  have core: "j_sizes j = frame_size dump e # map (frame_size dump) es"
    "j_bytes j = frame_size dump e + weight dump es" "Suc (j_oldest j) < two64"
    using assms(1) ev by (auto simp: journal_core_def)
  have over: "j_capacity j < length (j_events j) \<or> j_byte_limit j < j_bytes j"
    using assms core ev by (auto simp: fits_def)
  have "map ev_id es = map (make_cursor (j_epoch j)) [Suc (j_oldest j) ..< Suc (j_sequence j)]"
    using assms(1) ev upt_conv_Cons [of "j_oldest j" "Suc (j_sequence j)"]
    by (auto simp: journal_core_def simp del: upt_Suc)
  then show thesis
    using assms(1) ev core over
    by (intro that [of e es]) (auto simp: journal_core_def trim_loop.simps [of j] simp del: upt_Suc)
qed

lemma trim_loop_correct:
  assumes "journal_core dump j"
  shows "journal_inv dump (trim_loop j) \<and> suffix (j_events (trim_loop j)) (j_events j) \<and>
    j_epoch (trim_loop j) = j_epoch j \<and> j_sequence (trim_loop j) = j_sequence j \<and>
    j_capacity (trim_loop j) = j_capacity j \<and> j_byte_limit (trim_loop j) = j_byte_limit j \<and>
    j_finished (trim_loop j) = j_finished j \<and>
    (\<forall>xs. suffix xs (j_events j) \<longrightarrow> fits dump j xs \<longrightarrow> length xs \<le> length (j_events (trim_loop j)))"
  using assms
proof (induction "length (j_events j)" arbitrary: j rule: less_induct)
  case less
  show ?case
  proof (cases "fits dump j (j_events j)")
    case True
    then have "trim_loop j = j" using trim_loop_fixed less.prems by (auto simp: journal_core_def)
    then show ?thesis using True less.prems by (auto simp: journal_inv_def dest: suffix_length_le)
  next
    case False
    obtain e es where st: "j_events j = e # es"
      "trim_loop j = trim_loop (j\<lparr>j_bytes := j_bytes j - frame_size dump e,
         j_sizes := map (frame_size dump) es, j_events := es, j_oldest := Suc (j_oldest j)\<rparr>)"
      "journal_core dump (j\<lparr>j_bytes := j_bytes j - frame_size dump e,
         j_sizes := map (frame_size dump) es, j_events := es, j_oldest := Suc (j_oldest j)\<rparr>)"
      using trim_loop_step [OF less.prems False] by metis
    let ?j = "j\<lparr>j_bytes := j_bytes j - frame_size dump e,
         j_sizes := map (frame_size dump) es, j_events := es, j_oldest := Suc (j_oldest j)\<rparr>"
    have IH: "journal_inv dump (trim_loop ?j) \<and> suffix (j_events (trim_loop ?j)) es \<and>
      j_epoch (trim_loop ?j) = j_epoch j \<and> j_sequence (trim_loop ?j) = j_sequence j \<and>
      j_capacity (trim_loop ?j) = j_capacity j \<and> j_byte_limit (trim_loop ?j) = j_byte_limit j \<and>
      j_finished (trim_loop ?j) = j_finished j \<and>
      (\<forall>xs. suffix xs es \<longrightarrow> fits dump j xs \<longrightarrow> length xs \<le> length (j_events (trim_loop ?j)))"
      using less.hyps [OF _ st(3)] st(1) by (auto simp: fits_def)
    have "suffix xs es" if "suffix xs (e # es)" "fits dump j xs" for xs
      using that False st(1) suffix_Cons_longer [OF that(1)]
      by (metis not_less suffix_ConsI suffix_length_suffix suffix_order.refl)
    then show ?thesis using IH st(1,2) by (auto intro: suffix_ConsI)
  qed
qed

definition pushed :: "dumper \<Rightarrow> string \<Rightarrow> json \<Rightarrow> bool \<Rightarrow> journal \<Rightarrow> journal" where
  "pushed dump name data fin j =
     (let ev = \<lparr>ev_id = make_cursor (j_epoch j) (Suc (j_sequence j)), ev_name = name, ev_data = data\<rparr>
      in j\<lparr>j_sequence := Suc (j_sequence j), j_events := j_events j @ [ev],
           j_sizes := j_sizes j @ [frame_size dump ev], j_bytes := j_bytes j + frame_size dump ev,
           j_finished := j_finished j \<or> fin\<rparr>)"

lemma journal_append_eq:
  assumes "journal_room j (Suc n)"
  shows "journal_append dump name data fin j =
    (\<lparr>ev_id = make_cursor (j_epoch j) (Suc (j_sequence j)), ev_name = name, ev_data = data\<rparr>,
     trim_loop (pushed dump name data fin j))"
  using assms by (simp add: journal_append_def pushed_def journal_room_def frame_size_def Let_def)

lemma pushed_core:
  assumes "journal_inv dump j" and "journal_room j (Suc n)"
  shows "journal_core dump (pushed dump name data fin j)"
  using assms
  by (auto simp: journal_inv_def journal_core_def journal_room_def pushed_def Let_def)

lemmas append_trim = trim_loop_correct [OF pushed_core]

lemma append_inv:
  assumes "journal_inv dump j" and "journal_room j (Suc n)"
  shows "journal_inv dump (snd (journal_append dump name data fin j))"
  using append_trim [OF assms] assms(2) by (simp add: journal_append_eq)

lemma append_fields:
  assumes "journal_inv dump j" and "journal_room j (Suc n)"
  shows "j_epoch (snd (journal_append dump name data fin j)) = j_epoch j"
    "j_sequence (snd (journal_append dump name data fin j)) = Suc (j_sequence j)"
    "j_capacity (snd (journal_append dump name data fin j)) = j_capacity j"
    "j_byte_limit (snd (journal_append dump name data fin j)) = j_byte_limit j"
    "j_finished (snd (journal_append dump name data fin j)) = (j_finished j \<or> fin)"
  using append_trim [OF assms] assms(2) by (simp_all add: journal_append_eq pushed_def Let_def)

lemma append_suffix:
  assumes "journal_inv dump j" and "journal_room j (Suc n)"
  shows "suffix (j_events (snd (journal_append dump name data fin j)))
    (j_events j @ [fst (journal_append dump name data fin j)])"
  using append_trim [OF assms, of name data fin] assms(2)
  by (simp add: journal_append_eq pushed_def Let_def del: suffix_snoc)

subsection \<open>Cursors round-trip\<close>

lemma colon_not_uuid_char: "\<not> uuid_char_ok i (CHR '':'')"
  by (simp add: uuid_char_ok_def is_digit_def byte_of_def)

lemma epoch_ok_no_colon: "epoch_ok s \<Longrightarrow> CHR '':'' \<notin> set s"
proof
  assume ok: "epoch_ok s" and "CHR '':'' \<in> set s"
  then obtain i where "i < length s" "s ! i = CHR '':''" by (auto simp: in_set_conv_nth)
  then have "(i, CHR '':'') \<in> set (enumerate 0 s)" by (auto simp: in_set_enumerate_eq)
  with ok show False by (auto simp: epoch_ok_def list_all_iff colon_not_uuid_char)
qed

lemma parse_make_cursor:
  assumes "uuid_shape ep"
  shows "parse_cursor (make_cursor ep n) = (if n < two64 then Some (ep, n) else None)"
proof -
  have l: "length ep = 36" and ok: "epoch_ok ep" using assms by (auto simp: uuid_shape_def)
  have "find_char (CHR '':'') (make_cursor ep n) = Some 36"
    using find_char_append_notin [OF epoch_ok_no_colon [OF ok]] l by (simp add: make_cursor_def)
  moreover have "0 < length (to_string n)" by simp
  ultimately show ?thesis
    using l ok from_chars_all_to_string [of two64 n]
    by (simp add: parse_cursor_def make_cursor_def)
qed

lemma parse_cursor_shape:
  assumes "parse_cursor s = Some (ep, n)"
  shows "uuid_shape ep \<and> n < two64 \<and> (\<exists>ds. s = ep @ '':'' @ ds \<and> dec_value ds = n)"
proof -
  from assms obtain i where i: "find_char (CHR '':'') s = Some i"
    by (auto simp: parse_cursor_def split: option.splits)
  with assms have "i = 36" and ok: "epoch_ok (take 36 s)" and ep: "ep = take 36 s"
    and n: "from_chars_all two64 (drop 37 s) = Some n"
    by (auto simp: parse_cursor_def split: option.splits if_splits)
  obtain xs ys where s: "s = xs @ CHR '':'' # ys" "length xs = 36"
    using find_char_SomeE [OF i] \<open>i = 36\<close> by metis
  then show ?thesis using ok ep n from_chars_all_bound [OF n]
    by (auto simp: uuid_shape_def from_chars_all_def split: if_splits)
qed

subsection \<open>Reading\<close>

definition at_cursor :: "journal \<Rightarrow> nat \<Rightarrow> string" where
  "at_cursor j p = make_cursor (j_epoch j) p"

definition read_at :: "journal \<Rightarrow> nat \<Rightarrow> stream_event list option" where
  "read_at j p =
     (if b_resync_required (journal_read j (at_cursor j p)) then None
      else Some (b_events (journal_read j (at_cursor j p))))"

lemma make_cursor_not_Nil [simp]: "make_cursor ep n \<noteq> []"
  by (simp add: make_cursor_def)

lemma core_start:
  "journal_core dump j \<Longrightarrow>
     u64_sub (j_oldest j) 1 = j_oldest j - 1 \<and> j_oldest j - 1 = j_sequence j - length (j_events j) \<and>
     length (j_events j) \<le> j_sequence j"
  by (auto simp: journal_core_def)

text \<open>The whole of \<open>read\<close> in one equation, for a journal that satisfies the invariant.\<close>

lemma journal_read_parsed:
  assumes "journal_core dump j" and "after \<noteq> []"
  shows "journal_read j after =
    (case parse_cursor after of
       Some (ep, p) \<Rightarrow>
         if ep = j_epoch j \<and> p \<le> j_sequence j \<and> j_sequence j - length (j_events j) \<le> p
         then \<lparr>b_events = drop (p - (j_sequence j - length (j_events j))) (j_events j),
               b_cursor = journal_cursor j, b_resync_required = False,
               b_finished = j_finished j, b_truncated = 1 < j_oldest j\<rparr>
         else \<lparr>b_events = [], b_cursor = journal_cursor j, b_resync_required = True,
               b_finished = j_finished j, b_truncated = 1 < j_oldest j\<rparr>
     | None \<Rightarrow> \<lparr>b_events = [], b_cursor = journal_cursor j, b_resync_required = True,
               b_finished = j_finished j, b_truncated = 1 < j_oldest j\<rparr>)"
  using assms core_start [OF assms(1)]
  by (auto simp: journal_read_def Let_def journal_core_def split: option.splits dest: parse_cursor_shape)

lemma read_at_spec:
  assumes "journal_core dump j"
  shows "read_at j p =
    (if p \<le> j_sequence j \<and> j_sequence j - length (j_events j) \<le> p
     then Some (drop (p - (j_sequence j - length (j_events j))) (j_events j)) else None)"
proof -
  have "uuid_shape (j_epoch j)" "j_sequence j < two64" using assms by (simp_all add: journal_core_def)
  then show ?thesis
    using assms parse_make_cursor [of "j_epoch j" p]
    by (auto simp: read_at_def at_cursor_def journal_read_parsed split: if_splits)
qed

subsection \<open>The journal keeps the contract\<close>

definition append_entry ::
  "dumper \<Rightarrow> string \<times> json \<times> bool \<Rightarrow> journal \<Rightarrow> stream_event \<times> journal" where
  "append_entry dump x j = journal_append dump (fst x) (fst (snd x)) (snd (snd x)) j"

interpretation jlog: replay_log "journal_inv dump" journal_room j_sequence j_events
  "append_entry dump" read_at
  for dump :: dumper
proof unfold_locales
  fix j :: journal and n :: nat and x :: "string \<times> json \<times> bool"
  assume inv: "journal_inv dump j" and r: "journal_room j (Suc n)"
  show "journal_inv dump (snd (append_entry dump x j))"
    using append_inv [OF inv r] by (simp add: append_entry_def)
  show "journal_room (snd (append_entry dump x j)) n"
    using append_fields [OF inv r] r by (simp add: append_entry_def journal_room_def)
  show "j_sequence (snd (append_entry dump x j)) = Suc (j_sequence j)"
    using append_fields [OF inv r] by (simp add: append_entry_def)
  show "suffix (j_events (snd (append_entry dump x j))) (j_events j @ [fst (append_entry dump x j)])"
    using append_suffix [OF inv r] by (simp add: append_entry_def del: suffix_snoc)
next
  fix j :: journal and p :: nat
  assume inv: "journal_inv dump j"
  then have core: "journal_core dump j" by (simp add: journal_inv_def)
  show "length (j_events j) \<le> j_sequence j" using core_start [OF core] by simp
  show "read_at j p =
    (if p \<le> j_sequence j \<and> j_sequence j - length (j_events j) \<le> p
     then Some (drop (p - (j_sequence j - length (j_events j))) (j_events j)) else None)"
    by (rule read_at_spec [OF core])
qed

lemma append_entry_tuple [simp]: "append_entry dump (n, d, f) j = journal_append dump n d f j"
  by (simp add: append_entry_def)

lemma journal_run_adds: "journal_run dump xs j = jlog.adds dump xs j"
proof (induction xs arbitrary: j)
  case Nil
  then show ?case by simp
next
  case (Cons x xs)
  then show ?case by (cases x) (simp add: case_prod_unfold Let_def)
qed

lemma journal_run_append:
  "journal_run dump (xs @ ys) j =
     (fst (journal_run dump xs j) @ fst (journal_run dump ys (snd (journal_run dump xs j))),
      snd (journal_run dump ys (snd (journal_run dump xs j))))"
  by (induction xs arbitrary: j) (auto simp: case_prod_unfold Let_def)

lemma run_inv:
  assumes "journal_inv dump j" and "journal_room j (length xs)"
  shows "journal_inv dump (snd (journal_run dump xs j))"
    "j_sequence (snd (journal_run dump xs j)) = j_sequence j + length xs"
    "length (fst (journal_run dump xs j)) = length xs"
  using jlog.adds_inv [OF assms(1), of xs 0] jlog.adds_retained [OF assms] jlog.adds_length assms(2)
  by (simp_all add: journal_run_adds)

lemma run_fields:
  assumes "journal_inv dump j" and "journal_room j (length xs)"
  shows "j_epoch (snd (journal_run dump xs j)) = j_epoch j \<and>
    j_capacity (snd (journal_run dump xs j)) = j_capacity j \<and>
    j_byte_limit (snd (journal_run dump xs j)) = j_byte_limit j \<and>
    j_finished (snd (journal_run dump xs j)) = (j_finished j \<or> (\<exists>x \<in> set xs. snd (snd x)))"
  using assms
proof (induction xs arbitrary: j)
  case Nil
  then show ?case by simp
next
  case (Cons x xs)
  obtain n d f where x: "x = (n, d, f)" by (cases x) auto
  have r: "journal_room j (Suc (length xs))" using Cons.prems by simp
  have "journal_room (snd (journal_append dump n d f j)) (length xs)"
    using append_fields [OF Cons.prems(1) r] r by (simp add: journal_room_def)
  then show ?case
    using Cons.IH append_inv [OF Cons.prems(1) r] append_fields [OF Cons.prems(1) r] 
    by (auto simp: x case_prod_unfold Let_def)
qed

lemma journal_new_inv:
  assumes "journal_new ep cap lim = Inr j" and "uuid_shape ep"
  shows "journal_inv dump j"
  using assms
  by (auto simp: journal_new_def journal_inv_def journal_core_def fits_def split: if_splits)

lemma journal_new_fields:
  assumes "journal_new ep cap lim = Inr j"
  shows "j_sequence j = 0" "j_epoch j = ep" "j_capacity j = cap"
    "j_byte_limit j = lim" "j_events j = []" "\<not> j_finished j"
  using assms by (auto simp: journal_new_def split: if_splits)

subsection \<open>The window is the longest suffix of the history that fits\<close>

definition longest_fit :: "dumper \<Rightarrow> journal \<Rightarrow> stream_event list \<Rightarrow> stream_event list \<Rightarrow> bool" where
  "longest_fit dump j es ws \<longleftrightarrow> suffix ws es \<and> fits dump j ws \<and>
     (\<forall>zs. suffix zs es \<longrightarrow> fits dump j zs \<longrightarrow> length zs \<le> length ws)"

lemma fits_prefix: "fits dump j (zs @ [e]) \<Longrightarrow> fits dump j zs"
  by (simp add: fits_def)

lemma fits_cong:
  "j_capacity j = j_capacity k \<Longrightarrow> j_byte_limit j = j_byte_limit k \<Longrightarrow> fits dump j = fits dump k"
  by (simp add: fits_def fun_eq_iff)

lemma append_longest_fit:
  assumes inv: "journal_inv dump j" and r: "journal_room j (Suc n)"
    and lf: "longest_fit dump j es (j_events j)"
  shows "longest_fit dump j (es @ [fst (journal_append dump name data fin j)])
    (j_events (snd (journal_append dump name data fin j)))"
proof -
  let ?e = "fst (journal_append dump name data fin j)" and ?j = "snd (journal_append dump name data fin j)"
  let ?p = "pushed dump name data fin j"
  have ev: "j_events ?p = j_events j @ [?e]" "?j = trim_loop ?p" "fits dump ?p = fits dump j"
    using r by (simp_all add: journal_append_eq pushed_def Let_def fits_def fun_eq_iff)
  have s: "suffix (j_events ?j) (j_events j @ [?e])" by (rule append_suffix [OF inv r])
  have m: "length zs \<le> length (j_events ?j)"
    if zs: "suffix zs (es @ [?e])" "fits dump j zs" for zs
  proof (cases "zs = []")
    case False
    then obtain ys where ys: "zs = ys @ [?e]" "suffix ys es" using zs(1) by auto
    then have "length ys \<le> length (j_events j)"
      using lf fits_prefix zs(2) by (auto simp: longest_fit_def)
    then have "suffix ys (j_events j)"
      using suffix_length_suffix ys(2) lf by (auto simp: longest_fit_def)
    then have "suffix zs (j_events ?p)" using ys(1) ev(1) by simp
    then show ?thesis using append_trim [OF inv r] zs(2) ev by metis
  qed simp
  have "fits dump j (j_events ?j)"
    using append_inv [OF inv r] append_fields [OF inv r] by (auto simp: journal_inv_def fits_def)
  moreover have "suffix (j_events ?j) (es @ [?e])"
    using s lf by (meson longest_fit_def same_suffix_suffix suffix_order.trans)
  ultimately show ?thesis using m by (simp add: longest_fit_def)
qed

lemma run_longest_fit:
  assumes "journal_inv dump j" and "journal_room j (length xs)" and "longest_fit dump j es (j_events j)"
  shows "longest_fit dump j (es @ fst (journal_run dump xs j)) (j_events (snd (journal_run dump xs j)))"
  using assms
proof (induction xs arbitrary: j es)
  case Nil
  then show ?case by simp
next
  case (Cons x xs)
  obtain n d f where x: "x = (n, d, f)" by (cases x) auto
  have r: "journal_room j (Suc (length xs))" using Cons.prems by simp
  let ?e = "fst (journal_append dump n d f j)" and ?j = "snd (journal_append dump n d f j)"
  have fc: "longest_fit dump ?j = longest_fit dump j"
    using append_fields [OF Cons.prems(1) r] by (simp add: longest_fit_def fits_def fun_eq_iff)
  have "journal_room ?j (length xs)"
    using append_fields [OF Cons.prems(1) r] r by (simp add: journal_room_def)
  then show ?case
    using Cons.IH [of ?j "es @ [?e]"] append_inv [OF Cons.prems(1) r]
      append_longest_fit [OF Cons.prems(1) r Cons.prems(3)] fc
    by (simp add: x case_prod_unfold Let_def)
qed

lemma run_ids:
  assumes "journal_inv dump j" and "journal_room j (length xs)"
  shows "map ev_id (fst (journal_run dump xs j)) =
    map (make_cursor (j_epoch j)) [Suc (j_sequence j) ..< Suc (j_sequence j + length xs)]"
  using assms
proof (induction xs arbitrary: j)
  case Nil
  then show ?case by simp
next
  case (Cons x xs)
  obtain n d f where x: "x = (n, d, f)" by (cases x) auto
  have r: "journal_room j (Suc (length xs))" using Cons.prems by simp
  let ?j = "snd (journal_append dump n d f j)"
  have "journal_room ?j (length xs)"
    using append_fields [OF Cons.prems(1) r] r by (simp add: journal_room_def)
  then have "map ev_id (fst (journal_run dump xs ?j)) =
      map (make_cursor (j_epoch j)) [Suc (Suc (j_sequence j)) ..< Suc (j_sequence j + Suc (length xs))]"
    using Cons.IH [of ?j] append_inv [OF Cons.prems(1) r] append_fields [OF Cons.prems(1) r]
    by (simp del: upt_Suc)
  then show ?case
    using upt_conv_Cons [of "Suc (j_sequence j)" "Suc (j_sequence j + Suc (length xs))"] r
    by (simp add: x case_prod_unfold Let_def journal_append_eq del: upt_Suc)
qed

subsection \<open>Properties\<close>

text \<open>Concrete data at which the properties are instantiated.\<close>

definition sample_epoch :: string where
  "sample_epoch = ''0a1b2c3d-4e5f-4a6b-8c7d-9e0f1a2b3c4d''"

definition sample_dump :: dumper where
  "sample_dump j = ''{}''"

definition sample_journal :: journal where
  "sample_journal =
     \<lparr>j_epoch = sample_epoch, j_sequence = 0, j_oldest = 1, j_events = [], j_sizes = [],
      j_bytes = 0, j_capacity = 2, j_byte_limit = 1000, j_finished = False\<rparr>"

lemmas sample_simps = sample_journal_def sample_dump_def sample_epoch_def journal_append_def
  encode_sse_def make_cursor_def trim_loop.simps to_string.simps Let_def





text \<open>
  When a non-empty cursor is refused. A read demands a resync (and then returns no event)
  exactly when the cursor is not \<open>epoch:n\<close> for this journal's epoch with \<open>n\<close> between the
  sequence before the window and the current one: a malformed, foreign, future or stale cursor.
  The journal's own cursors are always accepted by \<open>valid_cursor\<close>, and an accepted cursor
  denotes one epoch and one sequence number.
\<close>

theorem journal_read_resync:
  assumes "journal_inv dump j" and "after \<noteq> []"
  shows "(b_resync_required (journal_read j after) \<longleftrightarrow>
      \<not> (\<exists>n. parse_cursor after = Some (j_epoch j, n) \<and>
            j_oldest j - 1 \<le> n \<and> n \<le> j_sequence j)) \<and>
    (b_resync_required (journal_read j after) \<longrightarrow> b_events (journal_read j after) = []) \<and>
    parse_cursor (journal_cursor j) = Some (j_epoch j, j_sequence j) \<and>
    valid_cursor (journal_cursor j)"
proof -
  have core: "journal_core dump j" using assms(1) by (simp add: journal_inv_def)
  have "parse_cursor (journal_cursor j) = Some (j_epoch j, j_sequence j)"
    using core parse_make_cursor [of "j_epoch j" "j_sequence j"]
    by (simp add: journal_core_def journal_cursor_def)
  then show ?thesis
    using core_start [OF core]
    by (auto simp: journal_read_parsed [OF core assms(2)] valid_cursor_def split: option.splits)
qed

theorem journal_read_resync_witness:
  "journal_inv sample_dump sample_journal \<and> ''zz'' \<noteq> [] \<and>
   b_resync_required (journal_read sample_journal ''zz'') \<and>
   valid_cursor (journal_cursor sample_journal)"
proof -
  have 1: "journal_new sample_epoch 2 1000 = Inr sample_journal"
    by (simp add: journal_new_def sample_journal_def)
  have 2: "uuid_shape sample_epoch" by code_simp
  have 3: "journal_inv sample_dump sample_journal" by (rule journal_new_inv [OF 1 2])
  have 4: "parse_cursor ''zz'' = None" by (simp add: parse_cursor_def find_char_def)
  show ?thesis using journal_read_resync [OF 3, of "''zz''"] 3 4 by simp
qed

end
