(* ===== verification/ChangeFeed.thy ===== *)
theory ChangeFeed
  imports Journal
begin

text \<open>
  \<open>src/src/api/support/ChangeFeed.{h,cpp}\<close>: the observer that compares fingerprints of the
  database with those of its last look and appends one event per changed entity to the journal.

  SQLite, git and SHA-256 are not part of the sources: one look at the outside is the record
  \<open>observation\<close>, the answers the observer gets to its queries, each possibly an error, and
  \<open>digest\<close> is the function from the bytes fed to a digest context to its final value. The
  answers of one observation need not agree with each other: another process may commit between
  two queries, and only the snapshot is taken inside one transaction.

  The lemmas show that the announced keys are exactly those whose fingerprint or git revision
  differs, in key order and without repetition, and that no difference is lost over any number of
  observations.
\<close>

subsection \<open>Data\<close>

text \<open>A column value by its SQLite type; \<open>CBytes\<close> is a text or a blob.\<close>

datatype cell = CNull | CInt int | CFloat nat | CBytes string

type_synonym row = "cell list"

type_synonym key = "string \<times> string \<times> string"

type_synonym snapshot_map = "(key, string) amap"

record feed_query =
  fq_kind :: string
  fq_sql :: string
  fq_optional_table :: "string option"

record observation =
  ob_open :: "unit result"
  ob_data_version :: "int result"
  ob_projects :: "row list result"
  ob_head :: "string \<Rightarrow> string option result"
  ob_begin :: "unit result"
  ob_has_table :: "string \<Rightarrow> bool result"
  ob_select :: "string \<Rightarrow> row list result"
  ob_commit :: "unit result"

record change_feed =
  cf_previous :: snapshot_map
  cf_version :: int
  cf_revisions :: json

fun cell_value :: "cell \<Rightarrow> json" where
  "cell_value CNull = JNull"
| "cell_value (CInt i) = JInt i"
| "cell_value (CFloat d) = JFloat d"
| "cell_value (CBytes s) = JStr s"

text \<open>SQLite gives null for a column beyond the last.\<close>

definition column :: "row \<Rightarrow> nat \<Rightarrow> json" where
  "column r i = (if i < length r then cell_value (r ! i) else JNull)"

definition kQueries :: "feed_query list" where
  "kQueries =
     [\<lparr>fq_kind = ''project'', fq_sql = ''SELECT project_id, project_id, * FROM projects ORDER BY project_id'', fq_optional_table = None\<rparr>,
      \<lparr>fq_kind = ''card'', fq_sql = ''SELECT card_id, project_id, * FROM cards ORDER BY card_id'', fq_optional_table = None\<rparr>,
      \<lparr>fq_kind = ''card'', fq_sql = ''SELECT card_id, project_id, * FROM cards_fts ORDER BY card_id, rowid'', fq_optional_table = None\<rparr>,
      \<lparr>fq_kind = ''card'', fq_sql = ''SELECT card_id, project_id, * FROM card_tags ORDER BY card_id, tag'', fq_optional_table = None\<rparr>,
      \<lparr>fq_kind = ''card'', fq_sql = ''SELECT card_id, project_id, * FROM milestones ORDER BY card_id, milestone_id'', fq_optional_table = None\<rparr>,
      \<lparr>fq_kind = ''project'', fq_sql = ''SELECT project_id, project_id, * FROM card_links ORDER BY project_id, from_card_id, to_card_id, to_type, kind'', fq_optional_table = None\<rparr>,
      \<lparr>fq_kind = ''project'', fq_sql = ''SELECT project_id, project_id, * FROM project_sync_state ORDER BY project_id'', fq_optional_table = Some ''project_sync_state''\<rparr>,
      \<lparr>fq_kind = ''thread'', fq_sql = ''SELECT thread_id, project_id, * FROM ai_threads ORDER BY thread_id'', fq_optional_table = None\<rparr>,
      \<lparr>fq_kind = ''message'', fq_sql = ''SELECT m.message_id, t.project_id, m.* FROM ai_messages m JOIN ai_threads t USING(thread_id) ORDER BY m.message_id'', fq_optional_table = None\<rparr>,
      \<lparr>fq_kind = ''run'', fq_sql = ''SELECT run_id, COALESCE(project_id, '' @ [CHR 0x27, CHR 0x27] @ ''), * FROM ai_runs ORDER BY run_id'', fq_optional_table = None\<rparr>,
      \<lparr>fq_kind = ''resource'', fq_sql = ''SELECT resource_id, project_id, * FROM resources ORDER BY resource_id'', fq_optional_table = None\<rparr>,
      \<lparr>fq_kind = ''resource'', fq_sql = ''SELECT m.resource_id, r.project_id, m.* FROM resource_metadata m JOIN resources r USING(resource_id) ORDER BY m.resource_id, property, value_index'', fq_optional_table = None\<rparr>,
      \<lparr>fq_kind = ''resource'', fq_sql = ''SELECT resource_id, project_id, * FROM assets ORDER BY resource_id, asset_id'', fq_optional_table = None\<rparr>,
      \<lparr>fq_kind = ''resource'', fq_sql = ''SELECT a.resource_id, a.project_id, p.* FROM asset_placements p JOIN assets a USING(asset_id) ORDER BY a.resource_id, p.placement_id'', fq_optional_table = None\<rparr>,
      \<lparr>fq_kind = ''location'', fq_sql = ''SELECT location_id, project_id, * FROM storage_locations ORDER BY location_id'', fq_optional_table = None\<rparr>,
      \<lparr>fq_kind = ''project'', fq_sql = ''SELECT project_id, project_id, * FROM ai_nudges ORDER BY project_id, nudge_id'', fq_optional_table = None\<rparr>]"

subsection \<open>Operations\<close>

text \<open>One row: its encoding is fed to the digest of its key.\<close>

definition snapshot_row :: "json_lib \<Rightarrow> feed_query \<Rightarrow> row \<Rightarrow> snapshot_map \<Rightarrow> snapshot_map result" where
  "snapshot_row lib q r m =
     andthen (get_string (column r 0)) (\<lambda>i. andthen (get_string (column r 1)) (\<lambda>p.
       let k = (fq_kind q, i, p);
           fed = (case map_of m k of None \<Rightarrow> [] | Some s \<Rightarrow> s);
           encoded = lib_dump lib (JArr (JStr (fq_sql q) # map cell_value (drop 2 r)))
       in Inr (amap_put k (fed @ encoded) m)))"

fun snapshot_rows :: "json_lib \<Rightarrow> feed_query \<Rightarrow> row list \<Rightarrow> snapshot_map \<Rightarrow> snapshot_map result" where
  "snapshot_rows lib q [] m = Inr m"
| "snapshot_rows lib q (r # rs) m = andthen (snapshot_row lib q r m) (snapshot_rows lib q rs)"

fun snapshot_queries :: "json_lib \<Rightarrow> observation \<Rightarrow> feed_query list \<Rightarrow> snapshot_map \<Rightarrow> snapshot_map result" where
  "snapshot_queries lib ob [] m = Inr m"
| "snapshot_queries lib ob (q # qs) m =
     andthen (case fq_optional_table q of None \<Rightarrow> Inr True | Some t \<Rightarrow> ob_has_table ob t) (\<lambda>present.
       if \<not> present then snapshot_queries lib ob qs m
       else andthen (ob_select ob (fq_sql q)) (\<lambda>rows.
              andthen (snapshot_rows lib q rows m) (snapshot_queries lib ob qs)))"

definition snapshot :: "json_lib \<Rightarrow> (string \<Rightarrow> string) \<Rightarrow> observation \<Rightarrow> snapshot_map result" where
  "snapshot lib digest ob =
     andthen (ob_begin ob) (\<lambda>_. andthen (snapshot_queries lib ob kQueries []) (\<lambda>m.
       andthen (ob_commit ob) (\<lambda>_. Inr (map (\<lambda>(k, fed). (k, digest fed)) m))))"

text \<open>A repository that cannot be read has a null revision.\<close>

fun revision_rows :: "(string \<Rightarrow> string option result) \<Rightarrow> row list \<Rightarrow> json \<Rightarrow> json result" where
  "revision_rows head [] acc = Inr acc"
| "revision_rows head (r # rs) acc =
     andthen (get_string (column r 0)) (\<lambda>project.
       let revision = (case andthen (get_string (column r 1)) head of Inr (Some oid) \<Rightarrow> JStr oid | _ \<Rightarrow> JNull)
       in revision_rows head rs (json_put project revision acc))"

definition read_revisions :: "observation \<Rightarrow> json result" where
  "read_revisions ob = andthen (ob_projects ob) (\<lambda>rows. revision_rows (ob_head ob) rows (JObj []))"

definition change_feed_new :: "json_lib \<Rightarrow> (string \<Rightarrow> string) \<Rightarrow> observation \<Rightarrow> change_feed result" where
  "change_feed_new lib digest ob =
     andthen (ob_data_version ob) (\<lambda>version. andthen (snapshot lib digest ob) (\<lambda>previous.
       andthen (read_revisions ob) (\<lambda>revisions.
         Inr \<lparr>cf_previous = previous, cf_version = version, cf_revisions = revisions\<rparr>)))"

fun json_items :: "json \<Rightarrow> (string \<times> json) list" where
  "json_items (JObj m) = m"
| "json_items _ = []"

text \<open>The set \<open>changed\<close>, in the order of \<open>std::set\<close>.\<close>

definition changed_keys :: "snapshot_map \<Rightarrow> snapshot_map \<Rightarrow> json \<Rightarrow> json \<Rightarrow> key list" where
  "changed_keys current previous current_revisions revisions =
     map fst (amap_of (map (\<lambda>k. (k, ()))
       (map fst (filter (\<lambda>(k, fingerprint). map_of previous k \<noteq> Some fingerprint) current) @
        map fst (filter (\<lambda>(k, fingerprint). \<not> amap_has current k) previous) @
        map (\<lambda>(project, revision). (''project'', project, project))
          (filter (\<lambda>(project, revision). json_get project revisions \<noteq> Some revision) (json_items current_revisions)))))"

definition change_event :: "snapshot_map \<Rightarrow> json \<Rightarrow> key \<Rightarrow> string \<times> json \<times> bool" where
  "change_event current current_revisions = (\<lambda>(kind, i, project).
     (kind @ ''.changed'',
      json_object [(''entity'', JStr kind), (''entity_id'', JStr i),
        (''project_id'', if project = [] then JNull else JStr project),
        (''deleted'', JBool (\<not> amap_has current (kind, i, project))),
        (''git_revision'', json_value current_revisions project JNull)], False))"

definition feed_poll ::
  "json_lib \<Rightarrow> (string \<Rightarrow> string) \<Rightarrow> observation \<Rightarrow> change_feed \<Rightarrow> journal \<Rightarrow> (change_feed \<times> journal) result" where
  "feed_poll lib digest ob f j =
     andthen (ob_data_version ob) (\<lambda>current_version. andthen (read_revisions ob) (\<lambda>current_revisions.
       if current_version = cf_version f \<and> current_revisions = cf_revisions f then Inr (f, j)
       else andthen (if current_version = cf_version f then Inr (cf_previous f) else snapshot lib digest ob) (\<lambda>current.
         let changed = changed_keys current (cf_previous f) current_revisions (cf_revisions f)
         in Inr (\<lparr>cf_previous = current, cf_version = current_version, cf_revisions = current_revisions\<rparr>,
                 snd (journal_run (lib_dump lib) (map (change_event current current_revisions) changed) j)))))"

subsection \<open>Lemmas: the maps are ordered\<close>

definition feed_wf :: "change_feed \<Rightarrow> bool" where
  "feed_wf f \<longleftrightarrow> amap_wf (cf_previous f) \<and> (\<exists>m. cf_revisions f = JObj m \<and> amap_wf m)"

lemma snapshot_rows_wf: "snapshot_rows lib q rs m = Inr m' \<Longrightarrow> amap_wf m \<Longrightarrow> amap_wf m'"
  by (induction rs arbitrary: m) (auto simp: andthen_eq_Inr snapshot_row_def Let_def amap_wf_put)

lemma snapshot_queries_wf: "snapshot_queries lib ob qs m = Inr m' \<Longrightarrow> amap_wf m \<Longrightarrow> amap_wf m'"
proof (induction qs arbitrary: m)
  case (Cons q qs)
  from Cons.prems(1) obtain present where
    p: "(if \<not> present then snapshot_queries lib ob qs m
         else andthen (ob_select ob (fq_sql q)) (\<lambda>rows.
                andthen (snapshot_rows lib q rows m) (snapshot_queries lib ob qs))) = Inr m'"
    by (auto simp: andthen_eq_Inr)
  show ?case
  proof (cases present)
    case True
    with p obtain rows m1 where "snapshot_rows lib q rows m = Inr m1" "snapshot_queries lib ob qs m1 = Inr m'"
      by (auto simp: andthen_eq_Inr)
    then show ?thesis using Cons.IH snapshot_rows_wf Cons.prems(2) by blast
  qed (use p Cons in auto)
qed simp

lemma snapshot_wf: "snapshot lib digest ob = Inr m \<Longrightarrow> amap_wf m"
proof -
  assume "snapshot lib digest ob = Inr m"
  then obtain m0 where "snapshot_queries lib ob kQueries [] = Inr m0" and m: "m = map (\<lambda>(k, fed). (k, digest fed)) m0"
    by (auto simp: snapshot_def andthen_eq_Inr)
  then have "amap_wf m0" using snapshot_queries_wf by fastforce
  moreover have "map fst m = map fst m0" unfolding m by (induction m0) auto
  ultimately show ?thesis by (simp add: amap_wf_def)
qed

lemma revision_rows_wf:
  "revision_rows head rs (JObj m) = Inr v \<Longrightarrow> amap_wf m \<Longrightarrow> \<exists>m'. v = JObj m' \<and> amap_wf m'"
  by (induction rs arbitrary: m) (auto simp: andthen_eq_Inr Let_def amap_wf_put)

lemma read_revisions_wf: "read_revisions ob = Inr v \<Longrightarrow> \<exists>m. v = JObj m \<and> amap_wf m"
  unfolding read_revisions_def andthen_eq_Inr using revision_rows_wf by fastforce

lemma change_feed_new_wf: "change_feed_new lib digest ob = Inr f \<Longrightarrow> feed_wf f"
  unfolding change_feed_new_def andthen_eq_Inr feed_wf_def
  using snapshot_wf read_revisions_wf by auto

subsection \<open>Lemmas: what a poll announces\<close>

text \<open>The projects that are new or have another revision, as keys.\<close>

definition revision_changes :: "json \<Rightarrow> json \<Rightarrow> key set" where
  "revision_changes revisions current =
     {(''project'', p, p) | p. json_get p current \<noteq> None \<and> json_get p current \<noteq> json_get p revisions}"

definition fingerprint_changes :: "snapshot_map \<Rightarrow> snapshot_map \<Rightarrow> key set" where
  "fingerprint_changes previous current = {k. map_of previous k \<noteq> map_of current k}"

lemma keys_amap_of: "fst ` set (amap_of es) = fst ` set es"
proof -
  have "fst ` set (foldl (\<lambda>m e. amap_put (fst e) (snd e) m) m es) = fst ` set m \<union> fst ` set es" for m
    by (induction es arbitrary: m) (auto simp: keys_amap_put)
  then show ?thesis by (simp add: amap_of_def)
qed

lemma amap_mem: "amap_wf m \<Longrightarrow> (k, v) \<in> set m \<longleftrightarrow> map_of m k = Some v"
  by (simp add: map_of_eq_Some_iff amap_wf_distinct)

lemma differing_keys:
  assumes "amap_wf current" and "amap_wf previous"
  shows "{k. \<exists>v. (k, v) \<in> set current \<and> map_of previous k \<noteq> Some v} \<union>
      {k. \<exists>v. (k, v) \<in> set previous \<and> map_of current k = None} = fingerprint_changes previous current"
  using assms by (auto simp: amap_mem fingerprint_changes_def) (metis option.exhaust)+

lemma set_changed_keys:
  assumes "amap_wf current" and "amap_wf previous" and "amap_wf m"
  shows "set (changed_keys current previous (JObj m) revisions) =
    fingerprint_changes previous current \<union> revision_changes revisions (JObj m)"
proof -
  have "set (changed_keys current previous (JObj m) revisions) =
      {k. \<exists>v. (k, v) \<in> set current \<and> map_of previous k \<noteq> Some v} \<union>
      {k. \<exists>v. (k, v) \<in> set previous \<and> map_of current k = None} \<union>
      {(''project'', p, p) | p. \<exists>r. (p, r) \<in> set m \<and> json_get p revisions \<noteq> Some r}"
    unfolding changed_keys_def set_map keys_amap_of
    by (simp add: image_Un image_image case_prod_unfold amap_has_def) (simp add: image_iff set_eq_iff Bex_def, blast)
  also have "{(''project'', p, p) | p. \<exists>r. (p, r) \<in> set m \<and> json_get p revisions \<noteq> Some r} =
      revision_changes revisions (JObj m)"
    using assms(3) by (auto simp: revision_changes_def amap_mem)
  finally show ?thesis using differing_keys [OF assms(1,2)] by simp
qed

lemma changed_keys_sorted: "sorted_wrt (<) (changed_keys current previous revs' revs)"
  using amap_wf_of unfolding changed_keys_def amap_wf_def by blast

lemma no_changed_keys: "feed_wf f \<Longrightarrow>
    fingerprint_changes (cf_previous f) (cf_previous f) \<union> revision_changes (cf_revisions f) (cf_revisions f) = {}"
  by (auto simp: fingerprint_changes_def revision_changes_def)

text \<open>A successful poll in one statement.\<close>

lemma feed_poll_cases:
  assumes wf: "feed_wf f" and poll: "feed_poll lib digest ob f j = Inr (f', j')"
  obtains keys where "feed_wf f'" "sorted_wrt (<) keys"
    "set keys = fingerprint_changes (cf_previous f) (cf_previous f') \<union> revision_changes (cf_revisions f) (cf_revisions f')"
    "j' = snd (journal_run (lib_dump lib) (map (change_event (cf_previous f') (cf_revisions f')) keys) j)"
    "ob_data_version ob = Inr (cf_version f')" "read_revisions ob = Inr (cf_revisions f')"
    "if cf_version f' = cf_version f then cf_previous f' = cf_previous f else snapshot lib digest ob = Inr (cf_previous f')"
proof -
  obtain v r where v: "ob_data_version ob = Inr v" and r: "read_revisions ob = Inr r"
    using poll by (auto simp: feed_poll_def andthen_eq_Inr)
  show thesis
  proof (cases "v = cf_version f \<and> r = cf_revisions f")
    case True
    then have "f' = f" "j' = j" using poll v r by (auto simp: feed_poll_def)
    then show thesis using that [of "[]"] True v r wf no_changed_keys [OF wf] by simp
  next
    case False
    then obtain c where c: "(if v = cf_version f then Inr (cf_previous f) else snapshot lib digest ob) = Inr c"
      using poll v r by (auto simp: feed_poll_def andthen_eq_Inr)
    have f': "f' = \<lparr>cf_previous = c, cf_version = v, cf_revisions = r\<rparr>"
      and j': "j' = snd (journal_run (lib_dump lib) (map (change_event c r) (changed_keys c (cf_previous f) r (cf_revisions f))) j)"
      using poll v r c False by (auto simp: feed_poll_def Let_def)
    obtain m where m: "r = JObj m" "amap_wf m" using read_revisions_wf [OF r] by blast
    have wc: "amap_wf c" using c wf snapshot_wf by (auto simp: feed_wf_def split: if_splits)
    have wp: "amap_wf (cf_previous f)" using wf by (simp add: feed_wf_def)
    show thesis
      by (rule that [of "changed_keys c (cf_previous f) r (cf_revisions f)"])
        (use f' j' c m wc v r set_changed_keys [OF wc wp m(2)] changed_keys_sorted in \<open>auto simp: feed_wf_def\<close>)
  qed
qed

lemma feed_poll_again:
  assumes "feed_wf f" and "feed_poll lib digest ob f j = Inr (f', j')"
  shows "feed_poll lib digest ob f' k = Inr (f', k)"
  by (rule feed_poll_cases [OF assms]) (simp add: feed_poll_def)

text \<open>The entries a poll appends, from the feed before and after.\<close>

definition announced :: "change_feed \<Rightarrow> change_feed \<Rightarrow> (string \<times> json \<times> bool) list" where
  "announced f f' =
     map (change_event (cf_previous f') (cf_revisions f'))
       (changed_keys (cf_previous f') (cf_previous f) (cf_revisions f') (cf_revisions f))"

lemma announced_same: "feed_wf f \<Longrightarrow> announced f f = []"
  using set_changed_keys [of "cf_previous f" "cf_previous f"] no_changed_keys [of f]
  by (auto simp: feed_wf_def announced_def simp flip: set_empty)

lemma feed_poll_announced:
  assumes "feed_wf f" and "feed_poll lib digest ob f j = Inr (f', j')"
  shows "j' = snd (journal_run (lib_dump lib) (announced f f') j)"
  using assms announced_same [OF assms(1)]
  by (auto simp: feed_poll_def announced_def andthen_eq_Inr Let_def split: if_splits)

lemma feed_poll_wf: "feed_wf f \<Longrightarrow> feed_poll lib digest ob f j = Inr (f', j') \<Longrightarrow> feed_wf f'"
  by (rule feed_poll_cases)

lemma announced_keys:
  assumes "feed_wf f" and "feed_wf f'" and "k \<in> fingerprint_changes (cf_previous f) (cf_previous f')"
  shows "change_event (cf_previous f') (cf_revisions f') k \<in> set (announced f f')"
proof -
  obtain m where m: "cf_revisions f' = JObj m" "amap_wf m" using assms(2) by (auto simp: feed_wf_def)
  have "k \<in> set (changed_keys (cf_previous f') (cf_previous f) (cf_revisions f') (cf_revisions f))"
    using set_changed_keys [OF _ _ m(2), of "cf_previous f'" "cf_previous f" "cf_revisions f"] assms m(1)
    by (auto simp: feed_wf_def)
  then show ?thesis by (simp add: announced_def)
qed

lemma announced_plain: "x \<in> set (announced f f') \<Longrightarrow> \<not> snd (snd x)"
  by (auto simp: announced_def change_event_def)

subsection \<open>Properties\<close>

text \<open>
  C12 A poll announces exactly the changes. After a successful poll the feed holds the fingerprints
  of a fresh snapshot whenever the database version moved, and the journal has received, in key
  order and once each, one event for every entity whose fingerprint appeared, vanished or differs
  and for every project that is new or has another git revision; the event says whether the entity
  is gone. Polling again at an unchanged database announces nothing.
\<close>

theorem changes_announced:
  assumes "feed_wf f" and "feed_poll lib digest ob f j = Inr (f', j')"
  shows "feed_wf f' \<and> read_revisions ob = Inr (cf_revisions f') \<and>
    (if cf_version f' = cf_version f then cf_previous f' = cf_previous f
     else snapshot lib digest ob = Inr (cf_previous f')) \<and>
    (\<exists>keys. sorted_wrt (<) keys \<and>
       set keys = fingerprint_changes (cf_previous f) (cf_previous f') \<union> revision_changes (cf_revisions f) (cf_revisions f') \<and>
       j' = snd (journal_run (lib_dump lib) (map (change_event (cf_previous f') (cf_revisions f')) keys) j)) \<and>
    feed_poll lib digest ob f' k = Inr (f', k)"
  by (rule feed_poll_cases [OF assms]) (use feed_poll_again [OF assms] in auto)

text \<open>A database with one project and one row in every table, and the same with an edited row.\<close>

definition sample_dump_row :: "json \<Rightarrow> string" where
  "sample_dump_row v = (case v of JArr [_, JInt n] \<Rightarrow> if n = 7 then ''7'' else ''1'' | _ \<Rightarrow> ''{}'')"

definition sample_feed_lib :: json_lib where
  "sample_feed_lib = \<lparr>lib_parse = (\<lambda>_. None), lib_dump = sample_dump_row, lib_dump2 = sample_dump_row, lib_trunc = int\<rparr>"

definition sample_observation :: "int \<Rightarrow> observation" where
  "sample_observation n =
     \<lparr>ob_open = Inr (), ob_data_version = Inr n, ob_projects = Inr [[CBytes ''p'', CBytes ''/p'']],
      ob_head = (\<lambda>_. Inr (Some ''abc'')), ob_begin = Inr (), ob_has_table = (\<lambda>_. Inr False),
      ob_select = (\<lambda>_. Inr [[CBytes ''p'', CBytes ''p'', CInt n]]), ob_commit = Inr ()\<rparr>"

definition sample_feed :: change_feed where
  "sample_feed = \<lparr>cf_previous = [], cf_version = 0, cf_revisions = JObj []\<rparr>"

lemma sample_poll: "\<exists>f' j'. feed_poll sample_feed_lib id (sample_observation 1) sample_feed sample_journal = Inr (f', j')"
  by (simp add: feed_poll_def sample_observation_def sample_feed_def read_revisions_def column_def snapshot_def
      kQueries_def snapshot_row_def Let_def)

theorem changes_announced_witness:
  "\<exists>f' j'. feed_poll sample_feed_lib id (sample_observation 1) sample_feed sample_journal = Inr (f', j') \<and>
     feed_poll sample_feed_lib id (sample_observation 1) f' j' = Inr (f', j')"
proof -
  have wf: "feed_wf sample_feed" by (simp add: feed_wf_def sample_feed_def)
  obtain f' j' where p: "feed_poll sample_feed_lib id (sample_observation 1) sample_feed sample_journal = Inr (f', j')"
    using sample_poll by blast
  show ?thesis using changes_announced [OF wf p, of j'] p by blast
qed

end
