(* ===== verification/OAuth.thy ===== *)
theory OAuth
  imports Http
begin

text \<open>
  Connecting a Google Drive location: \<open>src/src/storage/google/GoogleOAuth.cpp\<close> (URL encoding,
  PKCE, the authorization URL, the token requests) and
  \<open>src/src/api/routes/GoogleDriveOAuthRoutes.cpp\<close> (the authorize route, and the callback that
  the browser reaches without the daemon's token).

  OpenSSL (\<open>RAND_bytes\<close>, SHA-256, base64), the HTTPS exchange, the Drive folder lookup and the
  location and binding stores are fields of \<open>oauth_env\<close>; what the stores hold is part of the
  state \<open>oauth_world\<close>, next to the table of pending attempts. Random bytes are arguments.
\<close>

subsection \<open>Encoding\<close>

definition is_unreserved :: "char \<Rightarrow> bool" where
  "is_unreserved c \<longleftrightarrow> is_alnum c \<or> c = CHR ''-'' \<or> c = CHR ''_'' \<or> c = CHR ''.'' \<or> c = CHR ''~''"

definition hex_digit :: "nat \<Rightarrow> char" where
  "hex_digit n = ''0123456789ABCDEF'' ! n"

definition url_encode_char :: "char \<Rightarrow> string" where
  "url_encode_char c =
     (if is_unreserved c then [c]
      else [CHR ''%'', hex_digit (byte_of c div 16 mod 16), hex_digit (byte_of c mod 16)])"

definition url_encode :: "string \<Rightarrow> string" where
  "url_encode val = concat (map url_encode_char val)"

definition form_step :: "string \<Rightarrow> string \<times> string \<Rightarrow> string" where
  "form_step out field =
     (if out = [] then [] else out @ ''&'') @ url_encode (fst field) @ ''='' @ url_encode (snd field)"

definition form_encode :: "(string \<times> string) list \<Rightarrow> string" where
  "form_encode kvs = foldl form_step [] kvs"

definition is_xdigit :: "char \<Rightarrow> bool" where
  "is_xdigit c \<longleftrightarrow> is_digit c \<or> (65 \<le> byte_of c \<and> byte_of c \<le> 70) \<or> (97 \<le> byte_of c \<and> byte_of c \<le> 102)"

definition hex_value :: "char \<Rightarrow> nat" where
  "hex_value c =
     (if is_digit c then byte_of c - 48 else if byte_of c \<le> 70 then byte_of c - 55 else byte_of c - 87)"

definition decode_plus :: "char \<Rightarrow> char" where
  "decode_plus c = (if c = CHR ''+'' then CHR '' '' else c)"

fun percent_decode :: "string \<Rightarrow> string" where
  "percent_decode [] = []"
| "percent_decode [c] = [decode_plus c]"
| "percent_decode [c, d] = [decode_plus c, decode_plus d]"
| "percent_decode (c # d # e # rest) =
     (if c = CHR ''%'' \<and> is_xdigit d \<and> is_xdigit e
      then char_of (hex_value d * 16 + hex_value e) # percent_decode rest
      else decode_plus c # percent_decode (d # e # rest))"

text \<open>From the padded standard alphabet to the URL-safe one; it stops at the padding.\<close>

definition base64url_no_pad :: "(string \<Rightarrow> string) \<Rightarrow> string \<Rightarrow> string" where
  "base64url_no_pad b64 bytes =
     map (\<lambda>c. if c = CHR ''+'' then CHR ''-'' else if c = CHR ''/'' then CHR ''_'' else c)
       (takeWhile (\<lambda>c. c \<noteq> CHR ''='') (b64 bytes))"

subsection \<open>The token endpoint\<close>

record google_token =
  gt_access_token :: string
  gt_refresh_token :: string
  gt_expires_in :: int
  gt_scope :: string
  gt_token_type :: string

record oauth_client =
  oc_client_id :: string
  oc_client_secret :: string

record pkce =
  pk_code_verifier :: string
  pk_code_challenge :: string

record location =
  lo_id :: string
  lo_project_id :: string
  lo_provider :: string
  lo_configuration :: json
  lo_updated_at :: int

record oauth_env =
  oe_getenv :: "string \<Rightarrow> string option"
  oe_sha256 :: "string \<Rightarrow> string"
  oe_base64 :: "string \<Rightarrow> string"
  oe_post_form :: "string \<Rightarrow> string \<Rightarrow> string \<Rightarrow> string + (nat \<times> string)"
  oe_folder :: "string \<Rightarrow> string result"
  oe_put_location :: "bool \<Rightarrow> location \<Rightarrow> unit result"
  oe_bind :: "string \<Rightarrow> string \<Rightarrow> string \<Rightarrow> unit result"
  oe_json_what :: "exn \<Rightarrow> string"

text \<open>\<open>json.value(name, default)\<close> at a string and at an integer; on a value that is not an object it throws.\<close>

definition string_or :: "json \<Rightarrow> string \<Rightarrow> string result" where
  "string_or j name =
     (if \<not> is_object j then Inl JsonTypeError
      else case json_get name j of None \<Rightarrow> Inr [] | Some v \<Rightarrow> get_string v)"

definition int_or_zero :: "json_lib \<Rightarrow> json \<Rightarrow> string \<Rightarrow> int result" where
  "int_or_zero lib j name =
     (if \<not> is_object j then Inl JsonTypeError
      else case json_get name j of None \<Rightarrow> Inr 0 | Some v \<Rightarrow> get_int lib v)"

definition parse_token_response :: "json_lib \<Rightarrow> string \<Rightarrow> google_token result" where
  "parse_token_response lib body =
     (case lib_parse lib body of
        None \<Rightarrow> Inl JsonParseError
      | Some j \<Rightarrow>
          andthen (string_or j ''access_token'') (\<lambda>access.
            if access = [] then Inl (RuntimeError ''access token is missing or empty'')
            else andthen (string_or j ''refresh_token'') (\<lambda>refresh.
                 andthen (int_or_zero lib j ''expires_in'') (\<lambda>expires.
                 andthen (string_or j ''scope'') (\<lambda>scope.
                 andthen (string_or j ''token_type'') (\<lambda>tt.
                   Inr \<lparr>gt_access_token = access, gt_refresh_token = refresh, gt_expires_in = expires,
                        gt_scope = scope, gt_token_type = tt\<rparr>))))))"

definition token_request ::
  "json_lib \<Rightarrow> oauth_env \<Rightarrow> (string \<times> string) list \<Rightarrow> google_token result" where
  "token_request lib env kvs =
     (case oe_post_form env ''oauth2.googleapis.com'' ''/token'' (form_encode kvs) of
        Inl err \<Rightarrow> Inl (StorageError ''Unavailable'' (''Google token endpoint unreachable: '' @ err))
      | Inr (status, body) \<Rightarrow>
          if status = 400 \<or> status = 401 then
            Inl (StorageError ''Authentication'' ''Google token request rejected'')
          else if status \<noteq> 200 then
            Inl (StorageError ''Transient'' (''Google token request failed: HTTP '' @ to_string status))
          else case parse_token_response lib body of
              Inl _ \<Rightarrow> Inl (StorageError ''Unavailable'' ''Google token response is invalid'')
            | Inr t \<Rightarrow> Inr t)"

definition google_oauth_client_from_env :: "oauth_env \<Rightarrow> oauth_client result" where
  "google_oauth_client_from_env env =
     (case (oe_getenv env ''HOLDER_GOOGLE_OAUTH_CLIENT_ID'', oe_getenv env ''HOLDER_GOOGLE_OAUTH_CLIENT_SECRET'') of
        (Some i, Some s) \<Rightarrow> Inr \<lparr>oc_client_id = i, oc_client_secret = s\<rparr>
      | _ \<Rightarrow> Inl (RuntimeError
          ''Google Drive is not configured on this daemon (HOLDER_GOOGLE_OAUTH_CLIENT_ID/HOLDER_GOOGLE_OAUTH_CLIENT_SECRET are not set)''))"

definition generate_pkce_challenge :: "oauth_env \<Rightarrow> string \<Rightarrow> pkce" where
  "generate_pkce_challenge env random32 =
     (let verifier = base64url_no_pad (oe_base64 env) random32
      in \<lparr>pk_code_verifier = verifier,
          pk_code_challenge = base64url_no_pad (oe_base64 env) (oe_sha256 env verifier)\<rparr>)"

definition generate_state :: "oauth_env \<Rightarrow> string \<Rightarrow> string" where
  "generate_state env random24 = base64url_no_pad (oe_base64 env) random24"

definition authorization_fields ::
  "oauth_client \<Rightarrow> string \<Rightarrow> string \<Rightarrow> string \<Rightarrow> string \<Rightarrow> (string \<times> string) list" where
  "authorization_fields client redirect_uri scope code_challenge state =
     [(''client_id'', oc_client_id client), (''redirect_uri'', redirect_uri), (''response_type'', ''code''),
      (''scope'', scope), (''code_challenge'', code_challenge), (''code_challenge_method'', ''S256''),
      (''state'', state), (''access_type'', ''offline''), (''prompt'', ''consent'')]"

definition build_authorization_url ::
  "oauth_client \<Rightarrow> string \<Rightarrow> string \<Rightarrow> string \<Rightarrow> string \<Rightarrow> string" where
  "build_authorization_url client redirect_uri scope code_challenge state =
     ''https://accounts.google.com/o/oauth2/v2/auth?'' @
     form_encode (authorization_fields client redirect_uri scope code_challenge state)"

definition exchange_authorization_code ::
  "json_lib \<Rightarrow> oauth_env \<Rightarrow> oauth_client \<Rightarrow> string \<Rightarrow> string \<Rightarrow> string \<Rightarrow> google_token result" where
  "exchange_authorization_code lib env client redirect_uri code code_verifier =
     token_request lib env
       [(''client_id'', oc_client_id client), (''client_secret'', oc_client_secret client), (''code'', code),
        (''code_verifier'', code_verifier), (''grant_type'', ''authorization_code''), (''redirect_uri'', redirect_uri)]"

definition refresh_access_token :: "json_lib \<Rightarrow> oauth_env \<Rightarrow> oauth_client \<Rightarrow> string \<Rightarrow> google_token result" where
  "refresh_access_token lib env client refresh_token =
     token_request lib env
       [(''client_id'', oc_client_id client), (''client_secret'', oc_client_secret client),
        (''refresh_token'', refresh_token), (''grant_type'', ''refresh_token'')]"

subsection \<open>The routes\<close>

record pending_attempt =
  pa_code_verifier :: string
  pa_state :: string
  pa_project_id :: string
  pa_created_at :: int

text \<open>The bindings hold the refresh token of a project's location.\<close>

record oauth_world =
  ow_pending :: "(string \<times> pending_attempt) list"
  ow_locations :: "string \<Rightarrow> location option"
  ow_bindings :: "string \<times> string \<Rightarrow> string option"

definition oauth_redirect_uri :: "request \<Rightarrow> string \<Rightarrow> string" where
  "oauth_redirect_uri req location_id =
     (let h = (case map_of (rq_headers req) ''Host'' of None \<Rightarrow> ''127.0.0.1'' | Some h \<Rightarrow> h)
      in ''http://'' @ h @ ''/locations/'' @ location_id @ ''/oauth/google-drive/callback'')"

definition kPendingOAuthTtlSeconds :: int where
  "kPendingOAuthTtlSeconds = 600"

definition kDriveFileScope :: string where
  "kDriveFileScope = ''https://www.googleapis.com/auth/drive.file''"

definition callback_prefix :: string where
  "callback_prefix = ''/locations/''"

definition callback_suffix :: string where
  "callback_suffix = ''/oauth/google-drive/callback''"

definition parse_callback_location_id :: "string \<Rightarrow> string option" where
  "parse_callback_location_id path =
     (if \<not> starts_with path callback_prefix then None
      else if length path \<le> length callback_prefix + length callback_suffix then None
      else if drop (length path - length callback_suffix) path \<noteq> callback_suffix then None
      else Some (substr path (length callback_prefix)
                   (length path - length callback_prefix - length callback_suffix)))"

definition html_response :: "nat \<Rightarrow> string \<Rightarrow> string \<Rightarrow> response" where
  "html_response status title message =
     \<lparr>rs_status = status, rs_content_type = ''text/html; charset=utf-8'',
      rs_body = ''<!doctype html><html><head><meta charset=\"utf-8\"><title>'' @ title @
        ''</title></head><body style=\"font-family: sans-serif; max-width: 32rem; margin: 3rem auto; padding: 0 1rem;\"><h1>'' @
        title @ ''</h1><p>'' @ message @ ''</p></body></html>''\<rparr>"

definition handle_google_drive_oauth_authorize_route ::
  "json_lib \<Rightarrow> oauth_env \<Rightarrow> int \<Rightarrow> string \<Rightarrow> string \<Rightarrow> string \<Rightarrow> request \<Rightarrow> oauth_world \<Rightarrow> response \<times> oauth_world" where
  "handle_google_drive_oauth_authorize_route lib env now random32 random24 location_id req w =
     (let fail = (\<lambda>e. (error_response lib 400 ''bad_request'' (what (oe_json_what env) e), w))
      in case ow_locations w location_id of
           None \<Rightarrow> fail (RuntimeError ''location not found'')
         | Some loc \<Rightarrow>
             if lo_provider loc \<noteq> ''google-drive'' then
               fail (InvalidArgument ''location is not a google-drive location'')
             else case google_oauth_client_from_env env of
                 Inl e \<Rightarrow> fail e
               | Inr client \<Rightarrow>
                   let pk = generate_pkce_challenge env random32;
                       state = generate_state env random24;
                       uri = oauth_redirect_uri req location_id;
                       attempt = \<lparr>pa_code_verifier = pk_code_verifier pk, pa_state = state,
                                  pa_project_id = lo_project_id loc, pa_created_at = now\<rparr>;
                       url = build_authorization_url client uri kDriveFileScope (pk_code_challenge pk) state
                   in (json_response lib 200
                         (json_object [(''ok'', JBool True),
                                       (''data'', json_object [(''authorization_url'', JStr url)])]),
                       w\<lparr>ow_pending := AList.update location_id attempt (ow_pending w)\<rparr>))"

definition expired_message :: string where
  "expired_message = ''This Google Drive connection attempt is no longer valid. Return to Holder and try connecting again.''"

text \<open>The \<open>try\<close> block: exchange the code, then store the folder and the refresh token.\<close>

definition connect_location ::
  "json_lib \<Rightarrow> oauth_env \<Rightarrow> bool \<Rightarrow> bool \<Rightarrow> int \<Rightarrow> request \<Rightarrow> string \<Rightarrow> string \<Rightarrow> pending_attempt \<Rightarrow>
     oauth_world \<Rightarrow> unit result \<times> oauth_world" where
  "connect_location lib env has_secrets has_git clock req location_id code attempt w =
     (if \<not> has_secrets then (Inl (RuntimeError ''secret store unavailable''), w)
      else case andthen (google_oauth_client_from_env env) (\<lambda>client.
             exchange_authorization_code lib env client (oauth_redirect_uri req location_id) code
               (pa_code_verifier attempt)) of
        Inl e \<Rightarrow> (Inl e, w)
      | Inr token \<Rightarrow>
          if gt_refresh_token token = [] then
            (Inl (RuntimeError
               ''Google did not return a refresh token -- disconnect Holder's access in your Google Account settings and try connecting again''), w)
          else case oe_folder env (gt_access_token token) of
            Inl e \<Rightarrow> (Inl e, w)
          | Inr folder_id \<Rightarrow>
              (case ow_locations w location_id of
                 None \<Rightarrow> (Inl (RuntimeError ''location no longer exists''), w)
               | Some loc \<Rightarrow>
                   (case json_index_put ''folder_id'' (JStr folder_id) (lo_configuration loc) of
                      Inl e \<Rightarrow> (Inl e, w)
                    | Inr configuration \<Rightarrow>
                        let loc' = loc\<lparr>lo_configuration := configuration, lo_updated_at := clock\<rparr>
                        in case oe_put_location env has_git loc' of
                             Inl e \<Rightarrow> (Inl e, w)
                           | Inr _ \<Rightarrow>
                               let w' = w\<lparr>ow_locations := (ow_locations w)(location_id \<mapsto> loc')\<rparr>
                               in case oe_bind env (pa_project_id attempt) location_id (gt_refresh_token token) of
                                    Inl e \<Rightarrow> (Inl e, w')
                                  | Inr _ \<Rightarrow>
                                      (Inr (), w'\<lparr>ow_bindings := (ow_bindings w')
                                         ((pa_project_id attempt, location_id) \<mapsto> gt_refresh_token token)\<rparr>))))"

definition handle_google_drive_oauth_callback_route ::
  "json_lib \<Rightarrow> oauth_env \<Rightarrow> bool \<Rightarrow> bool \<Rightarrow> int \<Rightarrow> int \<Rightarrow> string \<Rightarrow> string \<Rightarrow> request \<Rightarrow> oauth_world \<Rightarrow>
     response option \<times> oauth_world" where
  "handle_google_drive_oauth_callback_route lib env has_secrets has_git now clock path query_string req w =
     (case parse_callback_location_id path of
        None \<Rightarrow> (None, w)
      | Some location_id \<Rightarrow>
          if rq_method req \<noteq> VGet then (None, w)
          else
            let param = (\<lambda>key. percent_decode (query_param_value query_string key));
                code = param ''code''; state = param ''state''; oauth_error = param ''error''
            in case map_of (ow_pending w) location_id of
                 None \<Rightarrow> (Some (html_response 400 ''Connection expired'' expired_message), w)
               | Some attempt \<Rightarrow>
                   let w1 = w\<lparr>ow_pending := AList.delete location_id (ow_pending w)\<rparr>
                   in if kPendingOAuthTtlSeconds < now - pa_created_at attempt then
                        (Some (html_response 400 ''Connection expired''
                           ''This Google Drive connection attempt took too long. Return to Holder and try connecting again.''), w1)
                      else if state = [] \<or> state \<noteq> pa_state attempt then
                        (Some (html_response 400 ''Connection failed''
                           ''This request could not be verified. Return to Holder and try connecting again.''), w1)
                      else if oauth_error \<noteq> [] then
                        (Some (html_response 200 ''Connection cancelled''
                           ''Google Drive was not connected. You can close this window and return to Holder.''), w1)
                      else if code = [] then
                        (Some (html_response 400 ''Connection failed''
                           ''Google did not return an authorization code. Return to Holder and try connecting again.''), w1)
                      else case connect_location lib env has_secrets has_git clock req location_id code attempt w1 of
                          (Inr _, w2) \<Rightarrow>
                            (Some (html_response 200 ''Google Drive connected''
                               ''You can close this window and return to Holder.''), w2)
                        | (Inl e, w2) \<Rightarrow>
                            (Some (html_response 500 ''Connection failed''
                               (''Something went wrong: '' @ what (oe_json_what env) e @
                                ''. Return to Holder and try connecting again.'')), w2))"

subsection \<open>Lemmas: encoding\<close>

lemma percent_decode_plain: "c \<noteq> CHR ''%'' \<Longrightarrow> percent_decode (c # rest) = decode_plus c # percent_decode rest"
  by (cases rest; cases "tl rest") auto

lemma percent_decode_hex:
  "is_xdigit d \<Longrightarrow> is_xdigit e \<Longrightarrow>
   percent_decode (CHR ''%'' # d # e # rest) = char_of (hex_value d * 16 + hex_value e) # percent_decode rest"
  by simp

lemma hex_digit_props: "n < 16 \<Longrightarrow> is_xdigit (hex_digit n) \<and> hex_value (hex_digit n) = n \<and> hex_digit n \<notin> {CHR ''&'', CHR ''='', CHR ''%''}"
proof -
  assume "n < 16"
  then have "n \<in> {0,1,2,3,4,5,6,7,8,9,10,11,12,13,14,15}" by (simp, arith)
  then show ?thesis
    by (auto simp: hex_digit_def is_xdigit_def hex_value_def is_digit_def byte_of_def)
qed

lemma is_unreserved_not: "is_unreserved c \<Longrightarrow> c \<notin> {CHR ''&'', CHR ''='', CHR ''%'', CHR ''+''}"
  by (auto simp: is_unreserved_def is_alnum_def is_digit_def is_upper_def is_lower_def byte_of_def)

lemma byte_of_less: "byte_of c < 256"
  by (simp add: byte_of_def)

lemma percent_decode_encode_char: "percent_decode (url_encode_char c @ rest) = c # percent_decode rest"
proof (cases "is_unreserved c")
  case True
  then show ?thesis
    using is_unreserved_not [OF True] by (simp add: url_encode_char_def percent_decode_plain decode_plus_def)
next
  case False
  have "byte_of c div 16 mod 16 = byte_of c div 16" using byte_of_less [of c] by simp
  moreover have "byte_of c div 16 < 16" using byte_of_less [of c] by simp
  ultimately show ?thesis
    using False hex_digit_props [of "byte_of c div 16"] hex_digit_props [of "byte_of c mod 16"]
    by (simp add: url_encode_char_def byte_of_def)
qed

lemma percent_decode_url_encode: "percent_decode (url_encode s) = s"
  by (induction s) (simp_all add: url_encode_def percent_decode_encode_char)

lemma url_encode_clean: "CHR ''&'' \<notin> set (url_encode s) \<and> CHR ''='' \<notin> set (url_encode s)"
proof -
  have "CHR ''&'' \<notin> set (url_encode_char c) \<and> CHR ''='' \<notin> set (url_encode_char c)" for c
    using is_unreserved_not [of c] hex_digit_props [of "byte_of c div 16 mod 16"] hex_digit_props [of "byte_of c mod 16"]
    by (auto simp: url_encode_char_def)
  then show ?thesis by (auto simp: url_encode_def)
qed

definition enc_pair :: "string \<times> string \<Rightarrow> string \<times> string" where
  "enc_pair kv = (url_encode (fst kv), url_encode (snd kv))"

lemma form_encode_snoc: "form_encode (kvs @ [kv]) = form_step (form_encode kvs) kv"
  by (simp add: form_encode_def)

lemma form_encode_ne: "kvs \<noteq> [] \<Longrightarrow> form_encode kvs \<noteq> []"
  by (cases kvs rule: rev_cases) (simp_all add: form_encode_snoc form_step_def)

lemma form_encode_join:
  "form_encode (kvs @ [kv]) = join_query (map enc_pair kvs) @ url_encode (fst kv) @ ''='' @ url_encode (snd kv)"
proof (induction kvs arbitrary: kv rule: rev_induct)
  case Nil
  then show ?case by (simp add: form_encode_def form_step_def join_query_def)
next
  case (snoc x kvs)
  have "form_encode ((kvs @ [x]) @ [kv]) = form_step (form_encode (kvs @ [x])) kv" by (rule form_encode_snoc)
  also have "\<dots> = form_encode (kvs @ [x]) @ ''&'' @ url_encode (fst kv) @ ''='' @ url_encode (snd kv)"
    using form_encode_ne [of "kvs @ [x]"] by (simp add: form_step_def)
  finally show ?case using snoc.IH [of x] by (simp add: join_query_def enc_pair_def)
qed

lemma form_encode_app:
  "form_encode (before @ kv # after) =
     join_query (map enc_pair before) @ url_encode (fst kv) @ ''='' @ url_encode (snd kv) @
     (if after = [] then [] else ''&'' @ form_encode after)"
proof (induction after rule: rev_induct)
  case Nil
  then show ?case using form_encode_join [of before kv] by simp
next
  case (snoc x after)
  have ne: "form_encode (before @ kv # after) \<noteq> []" using form_encode_ne [of "before @ kv # after"] by simp
  have "form_encode (before @ kv # after @ [x]) = form_step (form_encode (before @ kv # after)) x"
    using form_encode_snoc [of "before @ kv # after" x] by simp
  then show ?case
    using ne snoc form_encode_snoc [of after x] form_encode_ne [of after]
    by (cases "after = []") (simp_all add: form_step_def form_encode_def)
qed

text \<open>A pair without inner equal signs contains \<open>key=\<close> only when its name ends in the key.\<close>

lemma find_key_None:
  assumes "CHR ''='' \<notin> set k" and "CHR ''='' \<notin> set v" and "CHR ''='' \<notin> set key" and "\<not> ends_with k key"
  shows "find_str (key @ ''='') (k @ ''='' @ v) = None"
proof -
  have False if e: "k @ ''='' @ v = a @ (key @ ''='') @ b" for a b
  proof -
    have "k @ CHR ''='' # v = (a @ key) @ CHR ''='' # b" using e by simp
    moreover have "CHR ''='' \<notin> set b"
    proof
      assume "CHR ''='' \<in> set b"
      then have "0 < count_list b CHR ''=''" by (simp add: count_list_0_iff zero_less_iff_neq_zero)
      then have "2 \<le> count_list (a @ (key @ ''='') @ b) CHR ''=''" by simp
      moreover have "count_list (a @ (key @ ''='') @ b) CHR ''='' = 1"
        unfolding e [symmetric] using assms(1,2) by (simp add: count_list_0_iff)
      ultimately show False by linarith
    qed
    ultimately have "k = a @ key" using assms(1,2) by (metis append_Cons_eq_iff)
    then show False using assms(4) by (auto simp: ends_with_iff)
  qed
  then show ?thesis by (auto simp: find_str_None_iff)
qed

lemma form_param:
  assumes "url_encode key = key" and "\<forall>kv \<in> set before. \<not> ends_with (url_encode (fst kv)) key"
  shows "percent_decode (query_param_value (form_encode (before @ (key, val) # after)) key) = val"
proof -
  have key: "CHR ''&'' \<notin> set key" "CHR ''='' \<notin> set key" using url_encode_clean [of key] assms(1) by auto
  have "\<forall>kv \<in> set (map enc_pair before). CHR ''&'' \<notin> set (snd kv) \<and>
      find_str (key @ ''='') (fst kv @ ''='' @ snd kv) = None"
    using assms(2) url_encode_clean key find_key_None by (auto simp: enc_pair_def)
  note q = query_found [OF key(1) this]
  let ?tail = "if after = [] then [] else ''&'' @ form_encode after"
  have "query_param_value (form_encode (before @ (key, val) # after)) key = url_encode val"
    using q [of "url_encode val @ ?tail"] url_encode_clean [of val] assms(1)
      find_char_append_notin [of "CHR ''&''" "url_encode val" "form_encode after"]
    by (simp add: form_encode_app query_param_value_def find_char_None_iff [THEN iffD2])
  then show ?thesis by (simp add: percent_decode_url_encode)
qed

subsection \<open>Lemmas: the callback\<close>

lemma parse_callback_iff:
  "parse_callback_location_id path = Some i \<longleftrightarrow> i \<noteq> [] \<and> path = callback_prefix @ i @ callback_suffix"
proof
  assume p: "parse_callback_location_id path = Some i"
  then have l: "length callback_prefix + length callback_suffix < length path"
    and pre: "starts_with path callback_prefix"
    and suf: "drop (length path - length callback_suffix) path = callback_suffix"
    and i: "i = take (length path - length callback_prefix - length callback_suffix) (drop (length callback_prefix) path)"
    by (auto simp: parse_callback_location_id_def substr_def split: if_splits)
  obtain r where r: "path = callback_prefix @ r" using pre by (auto simp: starts_with_iff)
  have "drop (length r - length callback_suffix) r = callback_suffix" using suf l r by (simp add: drop_append)
  then have "r = i @ callback_suffix" using i r append_take_drop_id [of "length r - length callback_suffix" r] by simp
  then show "i \<noteq> [] \<and> path = callback_prefix @ i @ callback_suffix" using r l by auto
next
  assume "i \<noteq> [] \<and> path = callback_prefix @ i @ callback_suffix"
  then show "parse_callback_location_id path = Some i"
    by (auto simp: parse_callback_location_id_def substr_def starts_with_def)
qed

lemma connect_keeps_pending:
  "ow_pending (snd (connect_location lib env s g clock req i code a w)) = ow_pending w"
  by (auto simp: connect_location_def Let_def split: if_splits sum.splits option.splits)

lemma connect_others:
  "j \<noteq> i \<Longrightarrow> ow_locations (snd (connect_location lib env s g clock req i code a w)) j = ow_locations w j \<and>
    ow_bindings (snd (connect_location lib env s g clock req i code a w)) (q, j) = ow_bindings w (q, j)"
  by (auto simp: connect_location_def Let_def split: if_splits sum.splits option.splits)

text \<open>What the callback must present before the daemon talks to Google.\<close>

definition callback_verified :: "int \<Rightarrow> string \<Rightarrow> pending_attempt \<Rightarrow> bool" where
  "callback_verified now query a \<longleftrightarrow>
     now - pa_created_at a \<le> 600 \<and> pa_state a \<noteq> [] \<and>
     percent_decode (query_param_value query ''state'') = pa_state a \<and>
     percent_decode (query_param_value query ''error'') = [] \<and>
     percent_decode (query_param_value query ''code'') \<noteq> []"

lemma callback_cases:
  assumes "parse_callback_location_id path = Some i" and "rq_method req = VGet"
    and "map_of (ow_pending w) i = Some a"
  obtains (refused) res where
      "handle_google_drive_oauth_callback_route lib env s g now clock path query req w =
         (Some res, w\<lparr>ow_pending := AList.delete i (ow_pending w)\<rparr>)" "\<not> callback_verified now query a"
  | (connected) res r w2 where
      "handle_google_drive_oauth_callback_route lib env s g now clock path query req w = (Some res, w2)"
      "connect_location lib env s g clock req i (percent_decode (query_param_value query ''code'')) a
         (w\<lparr>ow_pending := AList.delete i (ow_pending w)\<rparr>) = (r, w2)" "callback_verified now query a"
proof (cases "callback_verified now query a")
  case True
  then show ?thesis
    using assms connected
    by (cases "connect_location lib env s g clock req i (percent_decode (query_param_value query ''code'')) a
         (w\<lparr>ow_pending := AList.delete i (ow_pending w)\<rparr>)")
      (fastforce simp: handle_google_drive_oauth_callback_route_def callback_verified_def kPendingOAuthTtlSeconds_def
        Let_def split: sum.splits)
next
  case False
  consider "600 < now - pa_created_at a" | "percent_decode (query_param_value query ''state'') = [] \<or>
      percent_decode (query_param_value query ''state'') \<noteq> pa_state a"
    | "percent_decode (query_param_value query ''error'') \<noteq> []" | "percent_decode (query_param_value query ''code'') = []"
    using False by (auto simp: callback_verified_def)
  then have "\<exists>res. handle_google_drive_oauth_callback_route lib env s g now clock path query req w =
      (Some res, w\<lparr>ow_pending := AList.delete i (ow_pending w)\<rparr>)"
    using assms
    by cases (simp_all add: handle_google_drive_oauth_callback_route_def kPendingOAuthTtlSeconds_def Let_def)
  then show ?thesis using False refused by blast
qed

subsection \<open>Properties\<close>

text \<open>
  C24 What an unauthenticated browser can do through the OAuth callback. The route claims a request
  exactly when it is a GET of \<open>/locations/<id>/oauth/google-drive/callback\<close> with a non-empty id,
  and otherwise leaves everything alone. A claimed request changes no other location, binding or
  pending attempt; it spends the attempt of its own location, so the same request a second time
  changes nothing and is answered with 400; and it changes the location or a binding only when
  an attempt was pending for at most 600 seconds, the \<open>state\<close> it presents is the non-empty one
  that the authorize route generated, no error is reported and a code is present.
\<close>

theorem oauth_callback_guarded:
  assumes r: "handle_google_drive_oauth_callback_route lib env s g now clock path query req w = (res, w')"
  shows "(res \<noteq> None \<longleftrightarrow> rq_method req = VGet \<and> (\<exists>i. i \<noteq> [] \<and> path = callback_prefix @ i @ callback_suffix)) \<and>
    (res = None \<longrightarrow> w' = w) \<and>
    (\<forall>i. parse_callback_location_id path = Some i \<and> res \<noteq> None \<longrightarrow>
       ow_pending w' = AList.delete i (ow_pending w) \<and>
       (\<forall>j p. j \<noteq> i \<longrightarrow> ow_locations w' j = ow_locations w j \<and> ow_bindings w' (p, j) = ow_bindings w (p, j)) \<and>
       (ow_locations w' \<noteq> ow_locations w \<or> ow_bindings w' \<noteq> ow_bindings w \<longrightarrow>
          (\<exists>a. map_of (ow_pending w) i = Some a \<and> callback_verified now query a)) \<and>
       handle_google_drive_oauth_callback_route lib env s g now2 clock2 path query2 req w' =
         (Some (html_response 400 ''Connection expired'' expired_message), w'))"
proof (cases "\<exists>i. parse_callback_location_id path = Some i \<and> rq_method req = VGet")
  case False
  then show ?thesis
    using r by (auto simp: handle_google_drive_oauth_callback_route_def parse_callback_iff [symmetric] split: option.splits)
next
  case True
  then obtain i where i: "parse_callback_location_id path = Some i" and get: "rq_method req = VGet" by blast
  have again: "handle_google_drive_oauth_callback_route lib env s g now2 clock2 path query2 req v =
      (Some (html_response 400 ''Connection expired'' expired_message), v)" if "map_of (ow_pending v) i = None" for v
    using that i get by (simp add: handle_google_drive_oauth_callback_route_def Let_def)
  have path: "i \<noteq> [] \<and> path = callback_prefix @ i @ callback_suffix" using i by (simp add: parse_callback_iff)
  show ?thesis
  proof (cases "map_of (ow_pending w) i")
    case None
    then have "w' = w" "res \<noteq> None" using r i get
      by (auto simp: handle_google_drive_oauth_callback_route_def Let_def)
    moreover have "AList.delete i (ow_pending w) = ow_pending w"
      using None by (auto simp: delete_id map_of_eq_None_iff)
    ultimately show ?thesis using again [OF None] i get path by auto
  next
    case (Some a)
    let ?w1 = "w\<lparr>ow_pending := AList.delete i (ow_pending w)\<rparr>"
    have none: "map_of (AList.delete i (ow_pending w)) i = None" by (simp add: delete_conv')
    from i get Some show ?thesis
    proof (cases rule: callback_cases [where lib = lib and env = env and s = s and g = g and now = now and clock = clock
          and query = query])
      case (refused rs)
      then have "w' = ?w1" "res = Some rs" using r by auto
      then show ?thesis using again [of ?w1] none i get path by auto
    next
      case (connected rs cr w2)
      then have w': "w' = w2" "res = Some rs" using r by auto
      have pend: "ow_pending w2 = AList.delete i (ow_pending w)"
        using connected(2) connect_keeps_pending [of lib env s g clock req i _ a ?w1] by (metis oauth_world.select_convs(1)
          oauth_world.surjective oauth_world.update_convs(1) snd_conv)
      have oth: "ow_locations w2 j = ow_locations w j \<and> ow_bindings w2 (p, j) = ow_bindings w (p, j)" if "j \<noteq> i" for j p
        using connected(2) connect_others [OF that, of lib env s g clock req _ a ?w1 p] by (auto dest!: arg_cong [of _ _ snd])
      show ?thesis using w' pend oth again [of w2] none i get path Some connected(3) by auto
    qed
  qed
qed

definition sample_oauth_env :: oauth_env where
  "sample_oauth_env =
     \<lparr>oe_getenv = (\<lambda>_. Some ''x''), oe_sha256 = id, oe_base64 = id,
      oe_post_form = (\<lambda>_ _ _. Inr (200, ''{}'')), oe_folder = (\<lambda>_. Inr ''folder''),
      oe_put_location = (\<lambda>_ _. Inr ()), oe_bind = (\<lambda>_ _ _. Inr ()), oe_json_what = (\<lambda>_. [])\<rparr>"

definition sample_token_lib :: json_lib where
  "sample_token_lib =
     \<lparr>lib_parse = (\<lambda>_. Some (json_object [(''access_token'', JStr ''a''), (''refresh_token'', JStr ''r'')])),
      lib_dump = (\<lambda>_. ''{}''), lib_dump2 = (\<lambda>_. ''{}''), lib_trunc = (\<lambda>_. 0)\<rparr>"

definition sample_oauth_world :: oauth_world where
  "sample_oauth_world =
     \<lparr>ow_pending = [(''l1'', \<lparr>pa_code_verifier = ''v'', pa_state = ''s1'', pa_project_id = ''p'', pa_created_at = 0\<rparr>)],
      ow_locations = [''l1'' \<mapsto> \<lparr>lo_id = ''l1'', lo_project_id = ''p'', lo_provider = ''google-drive'',
                                 lo_configuration = JObj [], lo_updated_at = 0\<rparr>],
      ow_bindings = Map.empty\<rparr>"

definition sample_callback :: "string \<Rightarrow> response option \<times> oauth_world" where
  "sample_callback query =
     handle_google_drive_oauth_callback_route sample_token_lib sample_oauth_env True True 5 7
       ''/locations/l1/oauth/google-drive/callback'' query
       \<lparr>rq_method = VGet, rq_target = [], rq_headers = [], rq_body = []\<rparr> sample_oauth_world"

theorem oauth_callback_guarded_witness:
  "ow_bindings (snd (sample_callback ''state=s1&code=c'')) (''p'', ''l1'') = Some ''r'' \<and>
   ow_pending (snd (sample_callback ''state=s1&code=c'')) = []"
proof -
  let ?p = "''/locations/l1/oauth/google-drive/callback''"
  have p: "parse_callback_location_id ?p = Some ''l1''"
    by (simp add: parse_callback_iff callback_prefix_def callback_suffix_def)
  have q: "query_param_value ''state=s1&code=c'' ''state'' = ''s1''" "query_param_value ''state=s1&code=c'' ''code'' = ''c''"
    "query_param_value ''state=s1&code=c'' ''error'' = []" by code_simp+
  have c: "fst (sample_callback ''state=s1&code=c'') \<noteq> None \<and>
      ow_bindings (snd (sample_callback ''state=s1&code=c'')) (''p'', ''l1'') = Some ''r''"
    by (simp add: sample_callback_def handle_google_drive_oauth_callback_route_def p q decode_plus_def Let_def
        sample_oauth_world_def kPendingOAuthTtlSeconds_def connect_location_def google_oauth_client_from_env_def
        sample_oauth_env_def exchange_authorization_code_def token_request_def parse_token_response_def string_or_def
        int_or_zero_def sample_token_lib_def json_get_object)
  have "ow_pending (snd (sample_callback ''state=s1&code=c'')) = AList.delete ''l1'' (ow_pending sample_oauth_world)"
    using oauth_callback_guarded [OF surjective_pairing, of sample_token_lib sample_oauth_env True True 5 7 ?p
        "''state=s1&code=c''" "\<lparr>rq_method = VGet, rq_target = [], rq_headers = [], rq_body = []\<rparr>" sample_oauth_world]
      p c by (simp add: sample_callback_def)
  then show ?thesis using c by (simp add: sample_oauth_world_def)
qed

text \<open>
  The parameters survive the URL. Percent decoding undoes URL encoding on every byte string, and
  a field of a form that \<open>form_encode\<close> wrote is read back exactly by the query lookup and
  percent decoding of the callback, provided no earlier field's name ends in its name; so the
  \<open>state\<close> and the challenge that the authorization URL carries are those that were generated.
\<close>

theorem oauth_form_round_trip:
  assumes "url_encode key = key" and "\<forall>kv \<in> set before. \<not> ends_with (url_encode (fst kv)) key"
  shows "percent_decode (query_param_value (form_encode (before @ (key, val) # after)) key) = val \<and>
    percent_decode (url_encode bytes) = bytes \<and>
    percent_decode (query_param_value (form_encode (authorization_fields client uri scope challenge state)) ''state'') = state \<and>
    percent_decode (query_param_value (form_encode (authorization_fields client uri scope challenge state))
      ''code_challenge'') = challenge"
proof (intro conjI)
  show "percent_decode (query_param_value (form_encode (before @ (key, val) # after)) key) = val"
    by (rule form_param [OF assms])
  show "percent_decode (url_encode bytes) = bytes" by (rule percent_decode_url_encode)
  have enc: "is_unreserved c \<Longrightarrow> url_encode_char c = [c]" for c by (simp add: url_encode_char_def)
  have u: "url_encode k = k" if "list_all is_unreserved k" for k
    using that enc by (induction k) (simp_all add: url_encode_def)
  have names: "list_all (list_all is_unreserved) [''client_id'', ''redirect_uri'', ''response_type'', ''scope'',
      ''code_challenge'', ''code_challenge_method'', ''state'']"
    by (simp add: is_unreserved_def is_alnum_def is_digit_def is_upper_def is_lower_def byte_of_def)
  show "percent_decode (query_param_value (form_encode (authorization_fields client uri scope challenge state)) ''state'') = state"
    using form_param [of "''state''" "[(''client_id'', oc_client_id client), (''redirect_uri'', uri), (''response_type'', ''code''),
      (''scope'', scope), (''code_challenge'', challenge), (''code_challenge_method'', ''S256'')]" state
      "[(''access_type'', ''offline''), (''prompt'', ''consent'')]"] names u
    by (simp add: authorization_fields_def ends_with_def starts_with_def)
  show "percent_decode (query_param_value (form_encode (authorization_fields client uri scope challenge state))
      ''code_challenge'') = challenge"
    using form_param [of "''code_challenge''" "[(''client_id'', oc_client_id client), (''redirect_uri'', uri),
      (''response_type'', ''code''), (''scope'', scope)]" challenge
      "[(''code_challenge_method'', ''S256''), (''state'', state), (''access_type'', ''offline''), (''prompt'', ''consent'')]"] names u
    by (simp add: authorization_fields_def ends_with_def starts_with_def)
qed

theorem oauth_form_round_trip_witness:
  "percent_decode (query_param_value (form_encode [(''code'', ''4/0A&=''), (''q'', ''a b%'')]) ''q'') = ''a b%''"
proof -
  have "url_encode ''q'' = ''q''"
    by (simp add: url_encode_def url_encode_char_def is_unreserved_def is_alnum_def is_lower_def byte_of_def)
  moreover have "\<forall>kv \<in> set [(''code'', ''4/0A&='')]. \<not> ends_with (url_encode (fst kv)) ''q''"
    by (simp add: url_encode_def url_encode_char_def is_unreserved_def is_alnum_def is_lower_def byte_of_def
        ends_with_def starts_with_def)
  ultimately show ?thesis using oauth_form_round_trip [of "''q''" "[(''code'', ''4/0A&='')]" "''a b%''" "[]"] by simp
qed

text \<open>
  Failures of the token endpoint are told apart. An unreachable endpoint or an answer that does
  not hold an access token is \<open>Unavailable\<close>, status 400 or 401 is \<open>Authentication\<close>, any
  other status but 200 is \<open>Transient\<close>; every failure is one of these, a success always carries a
  non-empty access token, and both grants send the client's credentials.
\<close>

theorem token_request_outcomes:
  assumes "post = oe_post_form env ''oauth2.googleapis.com'' ''/token'' (form_encode kvs)"
  shows "(case token_request lib env kvs of
      Inr t \<Rightarrow> gt_access_token t \<noteq> [] \<and> (\<exists>body. post = Inr (200, body) \<and> parse_token_response lib body = Inr t)
    | Inl e \<Rightarrow>
        (\<exists>m. e = StorageError ''Unavailable'' m \<and>
             ((\<exists>err. post = Inl err) \<or> (\<exists>body x. post = Inr (200, body) \<and> parse_token_response lib body = Inl x))) \<or>
        (\<exists>m st body. e = StorageError ''Authentication'' m \<and> post = Inr (st, body) \<and> st \<in> {400, 401}) \<or>
        (\<exists>m st body. e = StorageError ''Transient'' m \<and> post = Inr (st, body) \<and> st \<notin> {200, 400, 401}))"
proof -
  have ne: "gt_access_token t \<noteq> []" if "parse_token_response lib body = Inr t" for body t
    using that by (auto simp: parse_token_response_def andthen_eq_Inr split: option.splits if_splits)
  show ?thesis
  proof (cases post)
    case (Inl err)
    then show ?thesis using assms by (simp add: token_request_def)
  next
    case (Inr sb)
    obtain st body where sb: "sb = (st, body)" by (cases sb)
    consider "st \<in> {400, 401}" | "st \<notin> {200, 400, 401}" | "st = 200" by blast
    then show ?thesis
      using assms Inr sb ne [of body] by cases (auto simp: token_request_def split: sum.splits)
  qed
qed

theorem token_request_outcomes_witness:
  "\<exists>t. token_request sample_token_lib sample_oauth_env [] = Inr t \<and> gt_access_token t \<noteq> []"
proof -
  have "\<exists>t. token_request sample_token_lib sample_oauth_env [] = Inr t"
    by (simp add: token_request_def sample_oauth_env_def parse_token_response_def string_or_def
        int_or_zero_def sample_token_lib_def json_get_object)
  then show ?thesis using token_request_outcomes [OF refl, where lib = sample_token_lib and env = sample_oauth_env and kvs = "[]"] by auto
qed

end
