(* ===== verification/EventService.thy ===== *)
theory EventService
  imports ChangeFeed OAuth
begin

text \<open>
  \<open>src/src/api/support/EventService.{h,cpp}\<close> with the admission of \<open>SseRegistry\<close> in
  \<open>SseStream.cpp\<close>: the observer thread that keeps a change feed and marks itself unavailable
  when it cannot read the database, the routes \<open>/events\<close> and \<open>/events/cursor\<close>, and the
  source a stream polls.

  The observer and every source lock the service's mutex for a whole step, so a step is a function
  of the state. \<open>dispatch\<close> locks twice; it takes the state it sees each time. A source is the
  closure of \<open>dispatch\<close>: its captured variables are the record \<open>event_source\<close>, and a
  call returns the batch and the closure's new state. \<open>SseStream\<close> stops calling a source after
  a finished batch.

  The lemmas show that the stream delivers every event of the journal once and in order, filtered
  by project, or ends with a demand to resynchronise, and with the change feed that no change of
  the database is lost to a subscriber who was not told to resynchronise.
\<close>

subsection \<open>State\<close>

record event_state =
  st_changes :: journal
  st_revisions :: json
  st_stopped :: bool
  st_available :: bool

record event_source =
  src_project :: string
  src_revision :: string
  src_cursor :: string
  src_first :: bool

text \<open>The answer of the database to the question whether a project exists.\<close>

datatype project_lookup = LookupRow | LookupDone | LookupFails

record sse_registry =
  sr_streams :: "nat list"
  sr_stopped :: bool
  sr_limit :: nat

subsection \<open>Queries\<close>

fun query_decode :: "string \<Rightarrow> string result" where
  "query_decode [] = Inr []"
| "query_decode (c # rest) =
     (if c = CHR ''%'' then
        case rest of
          d # e # rest' \<Rightarrow>
            let byte = hex_value d * 16 + hex_value e
            in if \<not> is_xdigit d \<or> \<not> is_xdigit e \<or> byte = 0 then Inl (InvalidArgument ''Invalid query encoding.'')
               else andthen (query_decode rest') (\<lambda>s. Inr (char_of byte # s))
        | _ \<Rightarrow> Inl (InvalidArgument ''Invalid query encoding.'')
      else andthen (query_decode rest) (\<lambda>s. Inr ((if c = CHR ''+'' then CHR '' '' else c) # s)))"

text \<open>One field between ampersands.\<close>

definition query_field :: "string \<Rightarrow> (string, string) amap \<Rightarrow> (string, string) amap result" where
  "query_field field params =
     (let equal = find_char CHR ''='' field
      in andthen (query_decode (case equal of None \<Rightarrow> field | Some n \<Rightarrow> take n field)) (\<lambda>k.
         andthen (case equal of None \<Rightarrow> Inr [] | Some n \<Rightarrow> query_decode (drop (Suc n) field)) (\<lambda>v.
           if (k \<noteq> ''project_id'' \<and> k \<noteq> ''last_revision'') \<or> amap_has params k
           then Inl (InvalidArgument ''Unsupported or repeated event query parameter.'')
           else Inr (amap_put k v params))))"

function query_parameters :: "string \<Rightarrow> (string, string) amap \<Rightarrow> (string, string) amap result" where
  "query_parameters query params =
     (if query = [] then Inr params
      else case find_char CHR ''&'' query of
             None \<Rightarrow> query_field query params
           | Some n \<Rightarrow> andthen (query_field (take n query) params) (query_parameters (drop (Suc n) query)))"
  by pat_completeness auto
termination
  by (relation "measure (\<lambda>(query, params). length query)") (auto simp: find_char_def)

declare query_parameters.simps [simp del]

definition history_url :: "string \<Rightarrow> string" where
  "history_url project =
     ''/projects/'' @
     concat (map (\<lambda>c. if is_alnum c \<or> c = CHR ''-'' \<or> c = CHR ''_'' \<or> c = CHR ''.'' then [c]
                     else [CHR ''%'', hex_digit (byte_of c div 16), hex_digit (byte_of c mod 16)]) project) @
     ''/history''"

definition checkpoint :: "string \<Rightarrow> json \<Rightarrow> string \<Rightarrow> json" where
  "checkpoint cursor revisions project =
     (let selected = (if project \<noteq> [] then json_object [(project, json_value revisions project JNull)] else revisions);
          history = json_object (map (\<lambda>(i, revision). (i, JStr (history_url i))) (json_items selected))
      in json_object [(''cursor'', JStr cursor), (''git_revisions'', selected), (''history_urls'', history)])"

subsection \<open>The observer\<close>

definition event_service_new :: "string \<Rightarrow> event_state result" where
  "event_service_new epoch =
     andthen (journal_new epoch 4096 (1024 * 1024)) (\<lambda>j.
       Inr \<lparr>st_changes = j, st_revisions = JObj [], st_stopped = False, st_available = True\<rparr>)"

definition observe ::
  "json_lib \<Rightarrow> (string \<Rightarrow> string) \<Rightarrow> string \<Rightarrow> observation \<Rightarrow> change_feed option \<Rightarrow> event_state \<Rightarrow>
     change_feed option \<times> event_state" where
  "observe lib digest database ob feed st =
     (case (case feed of
              None \<Rightarrow>
                if database = [] then Inl (RuntimeError ''No database available for change feed'')
                else andthen (ob_open ob) (\<lambda>_. andthen (change_feed_new lib digest ob) (\<lambda>f. Inr (f, st_changes st)))
            | Some f \<Rightarrow> feed_poll lib digest ob f (st_changes st)) of
        Inr (f, j) \<Rightarrow> (Some f, st\<lparr>st_changes := j, st_revisions := cf_revisions f, st_available := True\<rparr>)
      | Inl e \<Rightarrow>
          (feed,
           if st_available st
           then st\<lparr>st_changes := snd (journal_append (lib_dump lib) ''resync_required''
                                   (json_object [(''reason'', JStr ''observer_unavailable'')]) False (st_changes st)),
                   st_available := False\<rparr>
           else st))"

text \<open>The loop of the observer thread runs until the service is stopped.\<close>

definition observer_step ::
  "json_lib \<Rightarrow> (string \<Rightarrow> string) \<Rightarrow> string \<Rightarrow> observation \<Rightarrow> change_feed option \<Rightarrow> event_state \<Rightarrow>
     change_feed option \<times> event_state" where
  "observer_step lib digest database ob feed st =
     (if st_stopped st then (feed, st) else observe lib digest database ob feed st)"

definition event_service_stop :: "event_state \<Rightarrow> event_state" where
  "event_service_stop st = st\<lparr>st_stopped := True\<rparr>"

subsection \<open>The source of a stream\<close>

definition resync_data :: "string \<Rightarrow> event_state \<Rightarrow> event_source \<Rightarrow> json \<Rightarrow> json" where
  "resync_data cursor st src reason =
     json_put ''last_revision'' (if src_revision src = [] then JNull else JStr (src_revision src))
       (json_put ''reason'' reason (checkpoint cursor (st_revisions st) (src_project src)))"

text \<open>What \<open>std::erase_if\<close> keeps.\<close>

definition source_keeps :: "string \<Rightarrow> stream_event \<Rightarrow> bool" where
  "source_keeps project e \<longleftrightarrow>
     \<not> (project \<noteq> [] \<and> json_value (ev_data e) ''project_id'' JNull \<noteq> JStr project \<and> ev_name e \<noteq> ''resync_required'')"

definition source_rewrite :: "string \<Rightarrow> event_state \<Rightarrow> event_source \<Rightarrow> stream_event \<Rightarrow> stream_event" where
  "source_rewrite cursor st src e =
     (if ev_name e = ''resync_required''
      then e\<lparr>ev_data := resync_data cursor st src (json_value (ev_data e) ''reason'' (JStr ''observer_unavailable''))\<rparr>
      else e)"

definition source_read :: "event_state \<Rightarrow> event_source \<Rightarrow> event_batch \<times> event_source" where
  "source_read st src =
     (let batch = journal_read (st_changes st) (src_cursor src);
          cursor = b_cursor batch
      in if b_resync_required batch \<or> \<not> st_available st \<or> (src_revision src \<noteq> [] \<and> src_cursor src = []) then
           (batch\<lparr>b_events := [\<lparr>ev_id = cursor, ev_name = ''resync_required'',
                    ev_data = resync_data cursor st src
                      (JStr (if st_available st then ''history_unavailable'' else ''observer_unavailable''))\<rparr>],
                  b_resync_required := False, b_finished := True\<rparr>, src)
         else
           let kept = filter (source_keeps (src_project src)) (b_events batch);
               events = (if src_first src
                         then \<lparr>ev_id = src_cursor src, ev_name = ''ready'',
                                ev_data = checkpoint cursor (st_revisions st) (src_project src)\<rparr> # kept
                         else kept)
           in (batch\<lparr>b_events := map (source_rewrite cursor st src) events,
                    b_finished := b_finished batch \<or> (\<exists>e \<in> set events. ev_name e = ''resync_required'')\<rparr>,
               src\<lparr>src_first := False, src_cursor := cursor\<rparr>))"

subsection \<open>The routes\<close>

definition registry_add :: "(nat \<Rightarrow> bool) \<Rightarrow> nat \<Rightarrow> sse_registry \<Rightarrow> bool \<times> sse_registry" where
  "registry_add is_open s r =
     (let live = filter is_open (sr_streams r)
      in if sr_stopped r \<or> sr_limit r \<le> length live then (False, r\<lparr>sr_streams := live\<rparr>)
         else (True, r\<lparr>sr_streams := live @ [s]\<rparr>))"

definition header_or_empty :: "request \<Rightarrow> string \<Rightarrow> string" where
  "header_or_empty req name = (case map_of (rq_headers req) name of None \<Rightarrow> [] | Some v \<Rightarrow> v)"

definition is_git_sha :: "string \<Rightarrow> bool" where
  "is_git_sha s \<longleftrightarrow> length s = 40 \<and> list_all (\<lambda>c. is_digit c \<or> (97 \<le> byte_of c \<and> byte_of c \<le> 102)) s"

definition event_project :: "(string, string) amap \<Rightarrow> string result" where
  "event_project params =
     (case map_of params ''project_id'' of
        None \<Rightarrow> Inr []
      | Some p \<Rightarrow> if p = [] then Inl (InvalidArgument ''project_id must not be empty.'') else Inr p)"

definition event_revision :: "string \<Rightarrow> (string, string) amap \<Rightarrow> string \<Rightarrow> string result" where
  "event_revision path params project =
     (case map_of params ''last_revision'' of
        None \<Rightarrow> Inr []
      | Some r \<Rightarrow>
          if path = ''/events/cursor'' then Inl (InvalidArgument ''last_revision is only supported on /events.'')
          else if project = [] \<or> \<not> is_git_sha r
          then Inl (InvalidArgument ''last_revision requires project_id and a full lowercase Git SHA.'')
          else Inr r)"

text \<open>The block that reads the project and the revision.\<close>

definition event_arguments :: "string \<Rightarrow> string \<Rightarrow> request \<Rightarrow> (string \<times> string) result" where
  "event_arguments path query req =
     andthen (query_parameters query []) (\<lambda>params.
     andthen (event_project params) (\<lambda>project.
     andthen (event_revision path params project) (\<lambda>revision.
     let last_id = header_or_empty req ''Last-Event-ID''
     in if last_id \<noteq> [] \<and> \<not> valid_cursor last_id then Inl (InvalidArgument ''Invalid Last-Event-ID.'')
        else Inr (project, revision))))"

datatype event_answer = EventNot | EventResponse response | EventStream event_source

definition event_unavailable :: "json_lib \<Rightarrow> event_answer" where
  "event_unavailable lib = EventResponse (error_response lib 503 ''unavailable'' ''Change feed unavailable.'')"

text \<open>
  From the first lock to the start of the stream; \<open>st1\<close> and \<open>st2\<close> are the states under the
  first and the second lock.
\<close>

definition event_open ::
  "json_lib \<Rightarrow> event_state \<Rightarrow> (string \<Rightarrow> project_lookup) \<Rightarrow> event_state \<Rightarrow> bool \<Rightarrow>
     string \<Rightarrow> string \<Rightarrow> string \<Rightarrow> request \<Rightarrow> event_answer" where
  "event_open lib st1 lookup st2 admitted path project revision req =
     (if \<not> st_available st1 \<or> st_stopped st1 then event_unavailable lib
      else if project \<noteq> [] \<and> lookup project = LookupDone
      then EventResponse (error_response lib 404 ''not_found'' ''Project unavailable.'')
      else if project \<noteq> [] \<and> lookup project = LookupFails
      then EventResponse (error_response lib 503 ''unavailable'' ''Project unavailable.'')
      else if \<not> st_available st2 \<or> st_stopped st2 then event_unavailable lib
      else if path = ''/events/cursor''
      then EventResponse (json_response lib 200
             (json_object [(''ok'', JBool True),
                (''data'', checkpoint (journal_cursor (st_changes st2)) (st_revisions st2) project)]))
      else let last_id = header_or_empty req ''Last-Event-ID'';
               cursor = (if last_id = [] \<and> revision = [] then journal_cursor (st_changes st2) else last_id)
           in if \<not> admitted
              then EventResponse (error_response lib 503 ''server_busy'' ''Too many event streams.'')
              else EventStream \<lparr>src_project = project, src_revision = revision, src_cursor = cursor, src_first = True\<rparr>)"

definition event_dispatch ::
  "json_lib \<Rightarrow> event_state \<Rightarrow> (string \<Rightarrow> project_lookup) \<Rightarrow> event_state \<Rightarrow> bool \<Rightarrow>
     string \<Rightarrow> string \<Rightarrow> request \<Rightarrow> event_answer" where
  "event_dispatch lib st1 lookup st2 admitted path query req =
     (if path \<noteq> ''/events'' \<and> path \<noteq> ''/events/cursor'' then EventNot
      else if rq_method req \<noteq> VGet
      then EventResponse (error_response lib 405 ''method_not_allowed'' ''Use GET for events.'')
      else case event_arguments path query req of
        Inl e \<Rightarrow> EventResponse (error_response lib 400 ''bad_request'' (what (\<lambda>_. []) e))
      | Inr (project, revision) \<Rightarrow> event_open lib st1 lookup st2 admitted path project revision req)"

subsection \<open>A service with one subscriber\<close>

datatype action = Observe observation | Read | Stop

record service =
  sv_feed :: "change_feed option"
  sv_state :: event_state
  sv_source :: event_source
  sv_batches :: "event_batch list"
  sv_done :: bool

definition service_act :: "json_lib \<Rightarrow> (string \<Rightarrow> string) \<Rightarrow> string \<Rightarrow> action \<Rightarrow> service \<Rightarrow> service" where
  "service_act lib digest database a sv =
     (case a of
        Observe ob \<Rightarrow>
          (let (fd, st) = observer_step lib digest database ob (sv_feed sv) (sv_state sv)
           in sv\<lparr>sv_feed := fd, sv_state := st\<rparr>)
      | Read \<Rightarrow>
          if sv_done sv then sv
          else let (b, src) = source_read (sv_state sv) (sv_source sv)
               in sv\<lparr>sv_source := src, sv_batches := sv_batches sv @ [b], sv_done := b_finished b\<rparr>
      | Stop \<Rightarrow> sv\<lparr>sv_state := event_service_stop (sv_state sv)\<rparr>)"

primrec service_run :: "json_lib \<Rightarrow> (string \<Rightarrow> string) \<Rightarrow> string \<Rightarrow> action list \<Rightarrow> service \<Rightarrow> service" where
  "service_run lib digest database [] sv = sv"
| "service_run lib digest database (a # as) sv =
     service_run lib digest database as (service_act lib digest database a sv)"

subsection \<open>Lemmas: what the observer appends\<close>

definition resync_entry :: "string \<times> json \<times> bool" where
  "resync_entry = (''resync_required'', json_object [(''reason'', JStr ''observer_unavailable'')], False)"

definition step_entries ::
  "json_lib \<Rightarrow> (string \<Rightarrow> string) \<Rightarrow> string \<Rightarrow> observation \<Rightarrow> change_feed option \<Rightarrow> event_state \<Rightarrow>
     (string \<times> json \<times> bool) list" where
  "step_entries lib digest database ob feed st =
     (let (feed', st') = observer_step lib digest database ob feed st
      in if st_stopped st then []
         else if \<not> st_available st' then (if st_available st then [resync_entry] else [])
         else case (feed, feed') of (Some f, Some f') \<Rightarrow> announced f f' | _ \<Rightarrow> [])"

primrec run_entries :: "json_lib \<Rightarrow> (string \<Rightarrow> string) \<Rightarrow> string \<Rightarrow> action list \<Rightarrow> service \<Rightarrow> (string \<times> json \<times> bool) list" where
  "run_entries lib digest database [] sv = []"
| "run_entries lib digest database (a # as) sv =
     (case a of Observe ob \<Rightarrow> step_entries lib digest database ob (sv_feed sv) (sv_state sv) | _ \<Rightarrow> []) @
     run_entries lib digest database as (service_act lib digest database a sv)"

definition feed_ok :: "change_feed option \<Rightarrow> bool" where
  "feed_ok fd \<longleftrightarrow> (\<forall>f. fd = Some f \<longrightarrow> feed_wf f)"

lemma observer_step_cases:
  assumes "observer_step lib digest database ob fd st = (fd', st')" and "feed_ok fd"
  shows "(st_stopped st \<and> fd' = fd \<and> st' = st) \<or>
    (\<not> st_stopped st \<and> \<not> st_available st' \<and> fd' = fd \<and>
       st_changes st' = (if st_available st then snd (journal_run (lib_dump lib) [resync_entry] (st_changes st)) else st_changes st)) \<or>
    (\<not> st_stopped st \<and> st_available st' \<and> fd = None \<and> st_changes st' = st_changes st \<and> (\<exists>f. fd' = Some f \<and> feed_wf f)) \<or>
    (\<not> st_stopped st \<and> st_available st' \<and> (\<exists>f f'. fd = Some f \<and> fd' = Some f' \<and> feed_wf f' \<and>
       st_changes st' = snd (journal_run (lib_dump lib) (announced f f') (st_changes st))))"
proof (cases "st_stopped st")
  case True
  then show ?thesis using assms by (simp add: observer_step_def)
next
  case False
  then have ob: "observe lib digest database ob fd st = (fd', st')" using assms by (simp add: observer_step_def)
  show ?thesis
  proof (cases fd)
    case None
    then show ?thesis using ob False change_feed_new_wf
      by (auto simp: observe_def resync_entry_def Let_def case_prod_unfold andthen_def split: sum.splits if_splits)
  next
    case (Some f)
    have wf: "feed_wf f" using assms(2) Some by (simp add: feed_ok_def)
    show ?thesis
    proof (cases "feed_poll lib digest ob f (st_changes st)")
      case (Inl e)
      then show ?thesis using ob False Some by (auto simp: observe_def resync_entry_def Let_def case_prod_unfold)
    next
      case (Inr r)
      obtain f' j' where r: "r = (f', j')" by (rule prod.exhaust)
      then show ?thesis
        using ob False Some Inr feed_poll_announced [OF wf, of lib digest ob "st_changes st" f' j']
          feed_poll_wf [OF wf, of lib digest ob "st_changes st" f' j']
        by (auto simp: observe_def)
    qed
  qed
qed

lemma observer_step_changes:
  assumes "observer_step lib digest database ob fd st = (fd', st')" and "feed_ok fd"
  shows "st_changes st' = snd (journal_run (lib_dump lib) (step_entries lib digest database ob fd st) (st_changes st))"
  using observer_step_cases [OF assms] assms(1) by (auto simp: step_entries_def)

lemma observer_step_ok:
  assumes "observer_step lib digest database ob fd st = (fd', st')" and "feed_ok fd"
  shows "feed_ok fd'"
  using observer_step_cases [OF assms] assms(2) by (auto simp: feed_ok_def)

lemma step_entries_plain: "x \<in> set (step_entries lib digest database ob fd st) \<Longrightarrow> \<not> snd (snd x)"
  by (auto simp: step_entries_def resync_entry_def announced_plain Let_def case_prod_unfold split: if_splits option.splits)

subsection \<open>Lemmas: events that announce a change\<close>

definition announces :: "key \<Rightarrow> stream_event \<Rightarrow> bool" where
  "announces = (\<lambda>(kind, i, p) e.
     ev_name e = kind @ ''.changed'' \<and> json_get ''entity_id'' (ev_data e) = Some (JStr i) \<and>
     json_get ''project_id'' (ev_data e) = Some (if p = [] then JNull else JStr p))"

definition is_resync :: "stream_event \<Rightarrow> bool" where
  "is_resync e \<longleftrightarrow> ev_name e = ''resync_required''"

lemma run_names:
  "map (\<lambda>e. (ev_name e, ev_data e)) (fst (journal_run dump xs j)) = map (\<lambda>x. (fst x, fst (snd x))) xs"
  by (induction dump xs j rule: journal_run.induct)
    (auto simp: case_prod_unfold Let_def journal_append_def)

lemma run_has:
  assumes "(n, d, b) \<in> set xs"
  shows "\<exists>e \<in> set (fst (journal_run dump xs j)). ev_name e = n \<and> ev_data e = d"
proof -
  have "(n, d) \<in> set (map (\<lambda>e. (ev_name e, ev_data e)) (fst (journal_run dump xs j)))"
    unfolding run_names using assms by force
  then show ?thesis by auto
qed

lemma change_event_announces:
  assumes "change_event c r k \<in> set xs"
  shows "\<exists>e \<in> set (fst (journal_run dump xs j)). announces k e"
proof -
  obtain kind i p where k: "k = (kind, i, p)" by (cases k)
  have "\<exists>e \<in> set (fst (journal_run dump xs j)). ev_name e = fst (change_event c r k) \<and> ev_data e = fst (snd (change_event c r k))"
    by (rule run_has [of _ _ "snd (snd (change_event c r k))"]) (use assms in simp)
  then show ?thesis by (fastforce simp: announces_def k change_event_def json_get_object)
qed

text \<open>Every difference since the feed \<open>f0\<close> is announced in \<open>es\<close>, or a resync is.\<close>

definition covered :: "change_feed \<Rightarrow> stream_event list \<Rightarrow> change_feed option \<Rightarrow> event_state \<Rightarrow> bool" where
  "covered f0 es fd st \<longleftrightarrow>
     (\<exists>e \<in> set es. is_resync e) \<or>
     (st_available st \<and> (\<exists>f. fd = Some f \<and> (\<forall>k \<in> fingerprint_changes (cf_previous f0) (cf_previous f). \<exists>e \<in> set es. announces k e)))"

lemma covered_append: "covered f0 es fd st \<Longrightarrow> covered f0 (es @ new) fd st"
  unfolding covered_def set_append by blast

lemma covered_step:
  assumes step: "observer_step lib digest database ob fd st = (fd', st')" and ok: "feed_ok fd" and c: "covered f0 es fd st"
  shows "covered f0 (es @ fst (journal_run (lib_dump lib) (step_entries lib digest database ob fd st) (st_changes st))) fd' st'"
proof (cases "\<exists>e \<in> set es. is_resync e")
  case True
  then show ?thesis by (auto simp: covered_def)
next
  case False
  then obtain f where av: "st_available st" and f: "fd = Some f"
    and cov: "\<forall>k \<in> fingerprint_changes (cf_previous f0) (cf_previous f). \<exists>e \<in> set es. announces k e"
    using c by (auto simp: covered_def)
  let ?new = "fst (journal_run (lib_dump lib) (step_entries lib digest database ob fd st) (st_changes st))"
  consider (stopped) "st_stopped st" "fd' = fd" "st' = st"
    | (down) "\<not> st_stopped st" "\<not> st_available st'"
    | (up) f' where "\<not> st_stopped st" "st_available st'" "fd' = Some f'" "feed_wf f'"
    using observer_step_cases [OF step ok] f by auto
  then show ?thesis
  proof cases
    case stopped
    then show ?thesis using covered_append [OF c] by simp
  next
    case down
    then have "step_entries lib digest database ob fd st = [resync_entry]"
      using step av by (simp add: step_entries_def)
    then have "\<exists>e \<in> set ?new. is_resync e"
      using run_has [of "fst resync_entry" "fst (snd resync_entry)" "snd (snd resync_entry)"]
      by (simp add: is_resync_def resync_entry_def journal_append_def Let_def)
    then show ?thesis by (auto simp: covered_def)
  next
    case up
    have wf: "feed_wf f" using ok f by (simp add: feed_ok_def)
    have en: "step_entries lib digest database ob fd st = announced f f'"
      using up f step by (simp add: step_entries_def)
    have "\<exists>e \<in> set (es @ ?new). announces k e"
      if k: "k \<in> fingerprint_changes (cf_previous f0) (cf_previous f')" for k
    proof (cases "k \<in> fingerprint_changes (cf_previous f0) (cf_previous f)")
      case True
      then show ?thesis using cov by auto
    next
      case False
      then have "k \<in> fingerprint_changes (cf_previous f) (cf_previous f')" using k by (simp add: fingerprint_changes_def)
      from change_event_announces [OF announced_keys [OF wf up(4) this]] show ?thesis unfolding en by auto
    qed
    then show ?thesis using up by (auto simp: covered_def)
  qed
qed

subsection \<open>Lemmas: the subscriber\<close>

text \<open>All entries after \<open>p\<close> of a window on \<open>old @ new\<close> are those of \<open>new\<close>.\<close>

lemma window_drop:
  assumes "suffix ws (old @ new)" and "p \<le> length new" and "length new - p \<le> length ws"
  shows "drop (length ws - (length new - p)) ws = drop p new"
proof -
  have "suffix (drop (length ws - (length new - p)) ws) (old @ new)"
    using assms(1) suffix_drop suffix_order.trans by blast
  moreover have "suffix (drop p new) (old @ new)" by (simp add: suffix_appendI suffix_drop)
  moreover have "length (drop (length ws - (length new - p)) ws) = length (drop p new)" using assms(2,3) by simp
  ultimately show ?thesis by (metis suffix_length_suffix suffix_order.order_iff_strict suffix_length_less nat_less_le order_refl)
qed

definition journal_extends :: "dumper \<Rightarrow> journal \<Rightarrow> stream_event list \<Rightarrow> journal \<Rightarrow> bool" where
  "journal_extends dump j0 new j \<longleftrightarrow>
     journal_inv dump j \<and> j_epoch j = j_epoch j0 \<and> j_sequence j = j_sequence j0 + length new \<and>
     suffix (j_events j) (j_events j0 @ new) \<and> \<not> j_finished j"

lemma journal_extends_run:
  assumes e: "journal_extends dump j0 new j" and r: "journal_room j (length xs)" and p: "\<forall>x \<in> set xs. \<not> snd (snd x)"
  shows "journal_extends dump j0 (new @ fst (journal_run dump xs j)) (snd (journal_run dump xs j))"
proof -
  have inv: "journal_inv dump j" using e by (simp add: journal_extends_def)
  have "suffix (j_events (snd (journal_run dump xs j))) (j_events j @ fst (journal_run dump xs j))"
    using jlog.adds_retained [OF inv r] by (simp add: journal_run_adds)
  moreover have "suffix (j_events j @ fst (journal_run dump xs j)) ((j_events j0 @ new) @ fst (journal_run dump xs j))"
    using e by (simp add: journal_extends_def del: append_assoc)
  ultimately show ?thesis
    using e run_inv [OF inv r] run_fields [OF inv r] p suffix_order.trans by (fastforce simp: journal_extends_def)
qed

text \<open>A read at position \<open>p\<close> after the start is refused or gives what came after it.\<close>

lemma journal_extends_read:
  assumes e: "journal_extends dump j0 new j" and p: "p \<le> length new"
    and c: "cursor = make_cursor (j_epoch j0) (j_sequence j0 + p)"
  shows "b_resync_required (journal_read j cursor) \<or>
    journal_read j cursor = \<lparr>b_events = drop p new, b_cursor = make_cursor (j_epoch j0) (j_sequence j0 + length new),
      b_resync_required = False, b_finished = False, b_truncated = 1 < j_oldest j\<rparr>"
proof -
  have core: "journal_core dump j" and ep: "j_epoch j = j_epoch j0" and sq: "j_sequence j = j_sequence j0 + length new"
    and sf: "suffix (j_events j) (j_events j0 @ new)" and nf: "\<not> j_finished j"
    using e by (simp_all add: journal_extends_def journal_inv_def)
  have b: "uuid_shape (j_epoch j0)" "j_sequence j0 + p < two64"
    using core p ep sq by (simp_all add: journal_core_def)
  have parse: "parse_cursor cursor = Some (j_epoch j, j_sequence j0 + p)"
    using parse_make_cursor [OF b(1), of "j_sequence j0 + p"] b(2) by (simp add: c ep)
  have le: "length (j_events j) \<le> j_sequence j" using core_start [OF core] by simp
  show ?thesis
  proof (cases "j_sequence j - length (j_events j) \<le> j_sequence j0 + p")
    case False
    then show ?thesis using parse by (simp add: journal_read_parsed [OF core] c)
  next
    case True
    have "j_sequence j0 + p - (j_sequence j - length (j_events j)) = length (j_events j) - (length new - p)"
      using True le sq p by simp
    moreover have "length new - p \<le> length (j_events j)" using True le sq by simp
    ultimately have "drop (j_sequence j0 + p - (j_sequence j - length (j_events j))) (j_events j) = drop p new"
      using window_drop [OF sf p] by simp
    moreover have "cursor \<noteq> []" by (simp add: c)
    ultimately show ?thesis
      using parse True p sq nf by (simp add: journal_read_parsed [OF core] journal_cursor_def ep)
  qed
qed

text \<open>What a subscriber got after the handshake.\<close>

definition delivered :: "service \<Rightarrow> stream_event list" where
  "delivered sv = tl (concat (map b_events (sv_batches sv)))"

definition subscriber_ok :: "journal \<Rightarrow> string \<Rightarrow> stream_event list \<Rightarrow> service \<Rightarrow> bool" where
  "subscriber_ok j0 project new sv \<longleftrightarrow>
     (if sv_done sv then sv_batches sv \<noteq> [] \<and> (\<exists>e \<in> set (b_events (last (sv_batches sv))). is_resync e)
      else src_project (sv_source sv) = project \<and>
        (src_first (sv_source sv) \<longleftrightarrow> concat (map b_events (sv_batches sv)) = []) \<and>
        (\<exists>p \<le> length new. src_cursor (sv_source sv) = make_cursor (j_epoch j0) (j_sequence j0 + p) \<and>
           (src_first (sv_source sv) \<longrightarrow> p = 0) \<and>
           delivered sv = filter (source_keeps project) (take p new) \<and> (\<forall>e \<in> set (take p new). \<not> is_resync e)))"

lemma subscriber_fields [simp]:
  "subscriber_ok j0 project new (sv\<lparr>sv_state := st\<rparr>) = subscriber_ok j0 project new sv"
  "subscriber_ok j0 project new (sv\<lparr>sv_feed := fd\<rparr>) = subscriber_ok j0 project new sv"
  by (simp_all add: subscriber_ok_def delivered_def)

lemma subscriber_append:
  assumes "subscriber_ok j0 project new sv"
  shows "subscriber_ok j0 project (new @ further) sv"
proof (cases "sv_done sv")
  case False
  then obtain p where "p \<le> length new" "take p (new @ further) = take p new"
    "src_cursor (sv_source sv) = make_cursor (j_epoch j0) (j_sequence j0 + p)" "src_first (sv_source sv) \<longrightarrow> p = 0"
    "delivered sv = filter (source_keeps project) (take p new)" "\<forall>e \<in> set (take p new). \<not> is_resync e"
    using assms by (auto simp: subscriber_ok_def)
  then have "\<exists>p \<le> length (new @ further). src_cursor (sv_source sv) = make_cursor (j_epoch j0) (j_sequence j0 + p) \<and>
      (src_first (sv_source sv) \<longrightarrow> p = 0) \<and> delivered sv = filter (source_keeps project) (take p (new @ further)) \<and>
      (\<forall>e \<in> set (take p (new @ further)). \<not> is_resync e)"
    by (intro exI [of _ p]) simp
  then show ?thesis using assms False by (simp add: subscriber_ok_def)
qed (use assms in \<open>simp add: subscriber_ok_def\<close>)

lemma keeps_resync: "is_resync e \<Longrightarrow> source_keeps project e"
  by (simp add: is_resync_def source_keeps_def)

lemma rewrite_plain: "\<not> is_resync e \<Longrightarrow> source_rewrite cursor st src e = e"
  by (simp add: is_resync_def source_rewrite_def)

lemma rewrite_name [simp]: "ev_name (source_rewrite cursor st src e) = ev_name e"
  by (simp add: source_rewrite_def)

text \<open>One call of the source.\<close>

lemma source_read_refused:
  assumes "b_resync_required (journal_read (st_changes st) (src_cursor src)) \<or> \<not> st_available st"
  shows "b_finished (fst (source_read st src)) \<and> (\<exists>e \<in> set (b_events (fst (source_read st src))). is_resync e)"
  using assms by (auto simp: source_read_def Let_def is_resync_def)

lemma source_read_given:
  assumes r: "journal_read (st_changes st) (src_cursor src) =
      \<lparr>b_events = es, b_cursor = cursor, b_resync_required = False, b_finished = False, b_truncated = t\<rparr>"
    and "st_available st" and "src_cursor src \<noteq> []"
  shows "if \<exists>e \<in> set es. is_resync e
    then b_finished (fst (source_read st src)) \<and> (\<exists>e \<in> set (b_events (fst (source_read st src))). is_resync e)
    else \<not> b_finished (fst (source_read st src)) \<and> snd (source_read st src) = src\<lparr>src_first := False, src_cursor := cursor\<rparr> \<and>
      (\<exists>ready. b_events (fst (source_read st src)) =
         (if src_first src then [ready] else []) @ filter (source_keeps (src_project src)) es)"
proof (cases "\<exists>e \<in> set es. is_resync e")
  case True
  then show ?thesis using assms
    by (auto simp: source_read_def Let_def is_resync_def keeps_resync [unfolded is_resync_def]
        intro!: rev_bexI [where A = "set (filter p xs)" for p xs])
next
  case False
  then have "map (source_rewrite cursor st src) (filter (source_keeps (src_project src)) es) = filter (source_keeps (src_project src)) es"
    by (auto intro!: map_idI rewrite_plain)
  then show ?thesis using False assms by (auto simp: source_read_def Let_def is_resync_def)
qed

lemma subscriber_read:
  assumes ext: "journal_extends dump j0 new (st_changes (sv_state sv))" and ok: "subscriber_ok j0 project new sv"
    and sv'_def: "sv' = service_act lib digest database Read sv"
  shows "subscriber_ok j0 project new sv' \<and>
    (\<not> sv_done sv' \<longrightarrow> delivered sv' = filter (source_keeps project) new \<and> (\<forall>e \<in> set new. \<not> is_resync e) \<and> st_available (sv_state sv))"
proof (cases "sv_done sv")
  case True
  then show ?thesis using ok by (simp add: sv'_def service_act_def)
next
  case False
  let ?src = "sv_source sv" and ?st = "sv_state sv"
  from ok False obtain p where p: "p \<le> length new" and c: "src_cursor ?src = make_cursor (j_epoch j0) (j_sequence j0 + p)"
    and first: "src_first ?src \<longleftrightarrow> concat (map b_events (sv_batches sv)) = []" "src_first ?src \<longrightarrow> p = 0"
    and d: "delivered sv = filter (source_keeps project) (take p new)" "\<forall>e \<in> set (take p new). \<not> is_resync e"
    and pr: "src_project ?src = project"
    by (auto simp: subscriber_ok_def)
  obtain b src where bs: "source_read ?st ?src = (b, src)" by (rule prod.exhaust)
  have sv': "sv' = sv\<lparr>sv_source := src, sv_batches := sv_batches sv @ [b], sv_done := b_finished b\<rparr>"
    using False bs by (simp add: sv'_def service_act_def)
  have ends: "?thesis" if "b_finished b" "\<exists>e \<in> set (b_events b). is_resync e"
    using that by (simp add: sv' subscriber_ok_def)
  show ?thesis
  proof (cases "b_resync_required (journal_read (st_changes ?st) (src_cursor ?src)) \<or> \<not> st_available ?st")
    case True
    then show ?thesis using ends source_read_refused [of ?st ?src] bs by simp
  next
    case nr: False
    then obtain t where r: "journal_read (st_changes ?st) (src_cursor ?src) =
        \<lparr>b_events = drop p new, b_cursor = make_cursor (j_epoch j0) (j_sequence j0 + length new),
          b_resync_required = False, b_finished = False, b_truncated = t\<rparr>"
      using journal_extends_read [OF ext p c] by blast
    have av: "st_available ?st" and ne: "src_cursor ?src \<noteq> []" using nr by (simp_all add: c)
    have g: "if \<exists>e \<in> set (drop p new). is_resync e then b_finished b \<and> (\<exists>e \<in> set (b_events b). is_resync e)
      else \<not> b_finished b \<and> src = ?src\<lparr>src_first := False, src_cursor := make_cursor (j_epoch j0) (j_sequence j0 + length new)\<rparr> \<and>
        (\<exists>ready. b_events b = (if src_first ?src then [ready] else []) @ filter (source_keeps project) (drop p new))"
      using source_read_given [OF r av ne] unfolding bs fst_conv snd_conv pr .
    show ?thesis
    proof (cases "\<exists>e \<in> set (drop p new). is_resync e")
      case True
      then have "b_finished b" "\<exists>e \<in> set (b_events b). is_resync e" using g by (simp_all only: if_True simp_thms)
      then show ?thesis by (rule ends)
    next
      case nd: False
      then obtain ready where nf: "\<not> b_finished b"
        and src: "src = ?src\<lparr>src_first := False, src_cursor := make_cursor (j_epoch j0) (j_sequence j0 + length new)\<rparr>"
        and ev: "b_events b = (if src_first ?src then [ready] else []) @ filter (source_keeps project) (drop p new)"
        using g by (simp only: if_False simp_thms) blast
      have all: "\<forall>e \<in> set new. \<not> is_resync e"
        using nd d(2) by (metis Un_iff append_take_drop_id set_append)
      have del: "delivered sv' = filter (source_keeps project) new"
      proof (cases "src_first ?src")
        case True
        then have n: "concat (map b_events (sv_batches sv)) = []" using first(1) by blast
        have "delivered sv' = tl (concat (map b_events (sv_batches sv)) @ b_events b)" by (simp add: delivered_def sv')
        then show ?thesis using ev True first(2) unfolding n by simp
      next
        case fls: False
        then have "delivered sv' = delivered sv @ b_events b" using first(1) by (simp add: delivered_def sv')
        then show ?thesis using ev fls d(1) by (metis append_Nil append_take_drop_id filter_append)
      qed
      have "concat (map b_events (sv_batches sv')) \<noteq> []" using ev first(1) by (simp add: sv')
      then show ?thesis using del all nf src nr pr by (auto simp: subscriber_ok_def sv')
    qed
  qed
qed

text \<open>The invariant of a service and its subscriber.\<close>

definition service_ok ::
  "dumper \<Rightarrow> change_feed \<Rightarrow> journal \<Rightarrow> string \<Rightarrow> stream_event list \<Rightarrow> service \<Rightarrow> bool" where
  "service_ok dump f0 j0 project new sv \<longleftrightarrow>
     journal_extends dump j0 new (st_changes (sv_state sv)) \<and> feed_ok (sv_feed sv) \<and>
     covered f0 new (sv_feed sv) (sv_state sv) \<and> subscriber_ok j0 project new sv"

lemma service_ok_act:
  assumes ok: "service_ok (lib_dump lib) f0 j0 project new sv"
    and r: "journal_room (st_changes (sv_state sv)) (case a of Observe ob \<Rightarrow> length (step_entries lib digest database ob (sv_feed sv) (sv_state sv)) | _ \<Rightarrow> 0)"
  shows "service_ok (lib_dump lib) f0 j0 project
    (new @ fst (journal_run (lib_dump lib) (case a of Observe ob \<Rightarrow> step_entries lib digest database ob (sv_feed sv) (sv_state sv) | _ \<Rightarrow> []) (st_changes (sv_state sv))))
    (service_act lib digest database a sv)"
proof (cases a)
  case Read
  then show ?thesis using ok subscriber_read [of "lib_dump lib" j0 new sv project _ lib digest database, OF _ _ refl]
    by (auto simp: service_ok_def service_act_def case_prod_unfold Let_def)
next
  case Stop
  then show ?thesis using ok
    by (simp add: service_ok_def service_act_def event_service_stop_def covered_def)
next
  case (Observe ob)
  obtain fd st where s: "observer_step lib digest database ob (sv_feed sv) (sv_state sv) = (fd, st)" by (rule prod.exhaust)
  have f: "feed_ok (sv_feed sv)" using ok by (simp add: service_ok_def)
  let ?es = "step_entries lib digest database ob (sv_feed sv) (sv_state sv)"
  have "journal_extends (lib_dump lib) j0 (new @ fst (journal_run (lib_dump lib) ?es (st_changes (sv_state sv)))) (st_changes st)"
    unfolding observer_step_changes [OF s f]
    by (rule journal_extends_run) (use ok r Observe step_entries_plain in \<open>auto simp: service_ok_def\<close>)
  moreover have "subscriber_ok j0 project (new @ fst (journal_run (lib_dump lib) ?es (st_changes (sv_state sv)))) (sv\<lparr>sv_feed := fd, sv_state := st\<rparr>)"
    using subscriber_append [of j0 project new sv] ok by (simp add: service_ok_def)
  ultimately show ?thesis
    using Observe s observer_step_ok [OF s f] covered_step [OF s f] ok by (simp add: service_ok_def service_act_def)
qed

lemma service_changes:
  assumes "feed_ok (sv_feed sv)"
  shows "st_changes (sv_state (service_act lib digest database a sv)) =
    snd (journal_run (lib_dump lib) (case a of Observe ob \<Rightarrow> step_entries lib digest database ob (sv_feed sv) (sv_state sv) | _ \<Rightarrow> []) (st_changes (sv_state sv)))"
proof (cases a)
  case (Observe ob)
  obtain fd st where s: "observer_step lib digest database ob (sv_feed sv) (sv_state sv) = (fd, st)" by (rule prod.exhaust)
  then show ?thesis using Observe observer_step_changes [OF s assms] by (simp add: service_act_def)
qed (simp_all add: service_act_def event_service_stop_def case_prod_unfold Let_def)

lemma service_ok_run:
  assumes "service_ok (lib_dump lib) f0 j0 project new sv"
    and "journal_room (st_changes (sv_state sv)) (length (run_entries lib digest database as sv))"
  shows "service_ok (lib_dump lib) f0 j0 project
    (new @ fst (journal_run (lib_dump lib) (run_entries lib digest database as sv) (st_changes (sv_state sv))))
    (service_run lib digest database as sv)"
  using assms
proof (induction as arbitrary: new sv)
  case (Cons a as)
  let ?es = "case a of Observe ob \<Rightarrow> step_entries lib digest database ob (sv_feed sv) (sv_state sv) | _ \<Rightarrow> []"
  let ?j = "st_changes (sv_state sv)" and ?sv = "service_act lib digest database a sv"
  have f: "feed_ok (sv_feed sv)" and inv: "journal_inv (lib_dump lib) ?j"
    using Cons.prems(1) by (simp_all add: service_ok_def journal_extends_def)
  have r: "journal_room ?j (length ?es)" and r': "journal_room ?j (length ?es + length (run_entries lib digest database as ?sv))"
    using Cons.prems(2) by (simp_all add: journal_room_def)
  have ok: "service_ok (lib_dump lib) f0 j0 project (new @ fst (journal_run (lib_dump lib) ?es ?j)) ?sv"
    by (rule service_ok_act [OF Cons.prems(1)]) (use r in \<open>auto simp: journal_room_def split: action.splits\<close>)
  have j: "st_changes (sv_state ?sv) = snd (journal_run (lib_dump lib) ?es ?j)" by (rule service_changes [OF f])
  have "journal_room (st_changes (sv_state ?sv)) (length (run_entries lib digest database as ?sv))"
    unfolding j using r' run_inv [OF inv r] by (simp add: journal_room_def)
  from Cons.IH [OF ok this] show ?case unfolding j by (simp add: journal_run_append)
qed simp

subsection \<open>Properties\<close>

lemma service_ok_start:
  assumes "journal_inv dump (st_changes (sv_state sv))" and "\<not> j_finished (st_changes (sv_state sv))"
    and "st_available (sv_state sv)" and "sv_feed sv = Some f" and "feed_wf f"
    and "src_cursor (sv_source sv) = journal_cursor (st_changes (sv_state sv))" and "src_first (sv_source sv)"
    and "sv_batches sv = []" and "\<not> sv_done sv"
  shows "service_ok dump f (st_changes (sv_state sv)) (src_project (sv_source sv)) [] sv"
  using assms
  by (auto simp: service_ok_def journal_extends_def feed_ok_def covered_def fingerprint_changes_def subscriber_ok_def
      delivered_def journal_cursor_def)

lemma service_run_append:
  "service_run lib digest database (as @ bs) sv = service_run lib digest database bs (service_run lib digest database as sv)"
  by (induction as arbitrary: sv) auto

lemma run_entries_append:
  "run_entries lib digest database (as @ bs) sv =
     run_entries lib digest database as sv @ run_entries lib digest database bs (service_run lib digest database as sv)"
  by (induction as arbitrary: sv) auto

text \<open>After a run that ends with a read.\<close>

lemma service_after_read:
  assumes start: "service_ok (lib_dump lib) f (st_changes (sv_state sv)) project [] sv"
    and room: "journal_room (st_changes (sv_state sv)) (length (run_entries lib digest database as sv))"
    and run: "sv' = service_run lib digest database (as @ [Read]) sv"
    and new: "new = fst (journal_run (lib_dump lib) (run_entries lib digest database as sv) (st_changes (sv_state sv)))"
  shows "if sv_done sv' then sv_batches sv' \<noteq> [] \<and> (\<exists>e \<in> set (b_events (last (sv_batches sv'))). is_resync e)
    else delivered sv' = filter (source_keeps project) new \<and> (\<forall>e \<in> set new. \<not> is_resync e) \<and>
      covered f new (sv_feed sv') (sv_state sv')"
proof -
  let ?sv = "service_run lib digest database as sv"
  have ok: "service_ok (lib_dump lib) f (st_changes (sv_state sv)) project new ?sv"
    using service_ok_run [OF start room] by (simp add: new)
  have sv': "sv' = service_act lib digest database Read ?sv" by (simp add: run service_run_append)
  have same: "sv_feed sv' = sv_feed ?sv" "sv_state sv' = sv_state ?sv"
    by (auto simp: sv' service_act_def case_prod_unfold Let_def)
  from ok have e: "journal_extends (lib_dump lib) (st_changes (sv_state sv)) new (st_changes (sv_state ?sv))"
    and c: "covered f new (sv_feed ?sv) (sv_state ?sv)"
    and s: "subscriber_ok (st_changes (sv_state sv)) project new ?sv"
    by (simp_all add: service_ok_def)
  from subscriber_read [OF e s sv'] show ?thesis using c by (simp add: same subscriber_ok_def)
qed

text \<open>
  The stream is exact. A subscriber holds the cursor of an available service; then the observer
  runs any number of times, whatever it finds or fails to find, interleaved with reads of the
  stream and a stop, and finally the stream is read once more. Either the subscription has ended,
  and its last batch demands a resync; or what was delivered after the handshake is exactly what
  the observer appended since the cursor, in order and without repetition, less the events of
  other projects when the subscription names a project.
\<close>

theorem event_stream_exact:
  assumes "journal_inv (lib_dump lib) (st_changes (sv_state sv))" and "\<not> j_finished (st_changes (sv_state sv))"
    and "st_available (sv_state sv)" and "sv_feed sv = Some f" and "feed_wf f"
    and "src_cursor (sv_source sv) = journal_cursor (st_changes (sv_state sv))" and "src_first (sv_source sv)"
    and "sv_batches sv = []" and "\<not> sv_done sv"
    and room: "journal_room (st_changes (sv_state sv)) (length (run_entries lib digest database as sv))"
    and run: "sv' = service_run lib digest database (as @ [Read]) sv"
  shows "if sv_done sv' then \<exists>e \<in> set (b_events (last (sv_batches sv'))). ev_name e = ''resync_required''
    else delivered sv' = filter (source_keeps (src_project (sv_source sv)))
      (fst (journal_run (lib_dump lib) (run_entries lib digest database as sv) (st_changes (sv_state sv))))"
  using service_after_read [OF service_ok_start [OF assms(1-9)] room run refl] by (auto simp: is_resync_def)

text \<open>
  C6 No change is lost. Under the same conditions, if the subscription has not ended with a
  resync, then the observer has a snapshot, and every entity of the subscribed project (of any
  project without a filter) whose fingerprint in it differs from the one when the cursor was taken
  has been announced to the subscriber, although observations may have failed, other processes may
  have committed between the observer's queries, and the journal forgets old events.
\<close>

theorem no_lost_invalidation:
  assumes "journal_inv (lib_dump lib) (st_changes (sv_state sv))" and "\<not> j_finished (st_changes (sv_state sv))"
    and "st_available (sv_state sv)" and "sv_feed sv = Some f" and "feed_wf f"
    and "src_cursor (sv_source sv) = journal_cursor (st_changes (sv_state sv))" and "src_first (sv_source sv)"
    and "sv_batches sv = []" and "\<not> sv_done sv"
    and room: "journal_room (st_changes (sv_state sv)) (length (run_entries lib digest database as sv))"
    and run: "sv' = service_run lib digest database (as @ [Read]) sv"
    and open_stream: "\<not> sv_done sv'"
  shows "\<exists>f'. sv_feed sv' = Some f' \<and>
    (\<forall>kind i p. map_of (cf_previous f) (kind, i, p) \<noteq> map_of (cf_previous f') (kind, i, p) \<longrightarrow>
       src_project (sv_source sv) = [] \<or> src_project (sv_source sv) = p \<longrightarrow>
       (\<exists>e \<in> set (delivered sv'). announces (kind, i, p) e))"
proof -
  define new where "new = fst (journal_run (lib_dump lib) (run_entries lib digest database as sv) (st_changes (sv_state sv)))"
  have r: "delivered sv' = filter (source_keeps (src_project (sv_source sv))) new" "\<forall>e \<in> set new. \<not> is_resync e"
    "covered f new (sv_feed sv') (sv_state sv')"
    using service_after_read [OF service_ok_start [OF assms(1-9)] room run new_def] open_stream by auto
  then obtain f' where f': "sv_feed sv' = Some f'"
    and c: "\<forall>k \<in> fingerprint_changes (cf_previous f) (cf_previous f'). \<exists>e \<in> set new. announces k e"
    by (auto simp: covered_def)
  have keep: "source_keeps p' e" if "announces (kind, i, p) e" "p' = [] \<or> p' = p" for kind i p p' e
    using that by (auto simp: announces_def source_keeps_def json_value_def)
  have "\<exists>e \<in> set (delivered sv'). announces (kind, i, p) e"
    if "map_of (cf_previous f) (kind, i, p) \<noteq> map_of (cf_previous f') (kind, i, p)"
      "src_project (sv_source sv) = [] \<or> src_project (sv_source sv) = p" for kind i p
    using c that keep by (fastforce simp: fingerprint_changes_def r(1))
  then show ?thesis using f' by blast
qed

text \<open>A service whose observer finds a new storage location.\<close>

definition sample_location :: observation where
  "sample_location =
     \<lparr>ob_open = Inr (), ob_data_version = Inr 1, ob_projects = Inr [],
      ob_head = (\<lambda>_. Inr None), ob_begin = Inr (), ob_has_table = (\<lambda>_. Inr False),
      ob_select = (\<lambda>sql. if take 15 sql = ''SELECT location'' then Inr [[CBytes ''l'', CBytes ''p'', CInt 7]] else Inr []),
      ob_commit = Inr ()\<rparr>"

definition sample_service :: service where
  "sample_service =
     \<lparr>sv_feed = Some sample_feed,
      sv_state = \<lparr>st_changes = sample_journal, st_revisions = JObj [], st_stopped = False, st_available = True\<rparr>,
      sv_source = \<lparr>src_project = ''p'', src_revision = [], src_cursor = journal_cursor sample_journal, src_first = True\<rparr>,
      sv_batches = [], sv_done = False\<rparr>"

definition sample_feed_after :: change_feed where
  "sample_feed_after =
     \<lparr>cf_previous = [((''location'', ''l'', ''p''), ''7'')], cf_version = 1, cf_revisions = JObj []\<rparr>"

lemma sample_snapshot: "snapshot sample_feed_lib id sample_location = Inr [((''location'', ''l'', ''p''), ''7'')]"
  by (simp add: snapshot_def kQueries_def sample_location_def snapshot_row_def column_def Let_def sample_feed_lib_def
      sample_dump_row_def)

lemma sample_location_poll:
  "feed_poll sample_feed_lib id sample_location sample_feed j =
     Inr (sample_feed_after, snd (journal_run (lib_dump sample_feed_lib) (announced sample_feed sample_feed_after) j))"
proof -
  have "ob_data_version sample_location = Inr 1" "read_revisions sample_location = Inr (JObj [])"
    by (simp_all add: sample_location_def read_revisions_def)
  then show ?thesis
    by (simp add: feed_poll_def sample_snapshot sample_feed_def sample_feed_after_def announced_def Let_def)
qed

lemma sample_announced: "announced sample_feed sample_feed_after =
  [change_event (cf_previous sample_feed_after) (JObj []) (''location'', ''l'', ''p'')]"
  by (simp add: announced_def sample_feed_def sample_feed_after_def changed_keys_def amap_of_def amap_has_def)

lemma sample_service_start:
  "journal_inv (lib_dump sample_feed_lib) (st_changes (sv_state sample_service))"
  "\<not> j_finished (st_changes (sv_state sample_service))" "st_available (sv_state sample_service)"
  "sv_feed sample_service = Some sample_feed" "feed_wf sample_feed"
  "src_cursor (sv_source sample_service) = journal_cursor (st_changes (sv_state sample_service))"
  "src_first (sv_source sample_service)" "sv_batches sample_service = []" "\<not> sv_done sample_service"
proof -
  have n: "journal_new sample_epoch 2 1000 = Inr sample_journal" by (simp add: journal_new_def sample_journal_def)
  have u: "uuid_shape sample_epoch" by code_simp
  show "journal_inv (lib_dump sample_feed_lib) (st_changes (sv_state sample_service))"
    using journal_new_inv [OF n u] by (simp add: sample_service_def)
qed (simp_all add: sample_service_def sample_journal_def sample_feed_def feed_wf_def)

lemma sample_observed:
  "observer_step sample_feed_lib id ''db'' sample_location (sv_feed sample_service) (sv_state sample_service) =
     (Some sample_feed_after, (sv_state sample_service)\<lparr>st_changes :=
        snd (journal_run (lib_dump sample_feed_lib) (announced sample_feed sample_feed_after) sample_journal)\<rparr>)"
  by (simp add: observer_step_def observe_def sample_location_poll sample_service_def) (simp add: sample_feed_after_def)

lemma sample_entries:
  "run_entries sample_feed_lib id ''db'' [Observe sample_location] sample_service = announced sample_feed sample_feed_after"
  by (simp add: step_entries_def sample_observed) (simp add: sample_service_def)

lemma sample_room:
  "journal_room (st_changes (sv_state sample_service))
     (length (run_entries sample_feed_lib id ''db'' [Observe sample_location] sample_service))"
  by (simp only: sample_entries sample_announced) (simp add: sample_service_def sample_journal_def journal_room_def)

text \<open>The event of the new location and the stream's answer.\<close>

definition sample_change :: stream_event where
  "sample_change = \<lparr>ev_id = make_cursor sample_epoch 1, ev_name = ''location.changed'',
     ev_data = fst (snd (change_event (cf_previous sample_feed_after) (JObj []) (''location'', ''l'', ''p'')))\<rparr>"

lemma sample_append:
  assumes "length (encode_sse dump \<lparr>ev_id = make_cursor sample_epoch 1, ev_name = name, ev_data = d\<rparr>) \<le> 1000"
  shows "journal_append dump name d False sample_journal =
    (\<lparr>ev_id = make_cursor sample_epoch 1, ev_name = name, ev_data = d\<rparr>,
     sample_journal\<lparr>j_sequence := 1, j_events := [\<lparr>ev_id = make_cursor sample_epoch 1, ev_name = name, ev_data = d\<rparr>],
       j_sizes := [length (encode_sse dump \<lparr>ev_id = make_cursor sample_epoch 1, ev_name = name, ev_data = d\<rparr>)],
       j_bytes := length (encode_sse dump \<lparr>ev_id = make_cursor sample_epoch 1, ev_name = name, ev_data = d\<rparr>)\<rparr>)"
  using assms by (simp add: journal_append_def Let_def sample_journal_def trim_loop.simps)

lemma sample_journal_after:
  "journal_run (lib_dump sample_feed_lib) (announced sample_feed sample_feed_after) sample_journal =
     ([sample_change], sample_journal\<lparr>j_sequence := 1, j_events := [sample_change],
        j_sizes := [length (encode_sse (lib_dump sample_feed_lib) sample_change)],
        j_bytes := length (encode_sse (lib_dump sample_feed_lib) sample_change)\<rparr>)"
proof -
  obtain d where d: "change_event (cf_previous sample_feed_after) (JObj []) (''location'', ''l'', ''p'') = (''location.changed'', d, False)"
    and o: "\<exists>m. d = JObj m"
    by (simp add: change_event_def json_object_def)
  then have "lib_dump sample_feed_lib d = ''{}''" by (auto simp: sample_feed_lib_def sample_dump_row_def)
  then have "length (encode_sse (lib_dump sample_feed_lib) \<lparr>ev_id = make_cursor sample_epoch 1, ev_name = ''location.changed'', ev_data = d\<rparr>) \<le> 1000"
    by (simp add: encode_sse_def make_cursor_def sample_epoch_def to_string.simps)
  from sample_append [OF this] show ?thesis by (simp add: sample_announced d sample_change_def)
qed

lemma sample_not_resync: "\<not> is_resync sample_change" "source_keeps ''p'' sample_change"
  by (simp_all add: is_resync_def source_keeps_def sample_change_def change_event_def json_value_def json_get_object)

definition sample_journal_next :: journal where
  "sample_journal_next = snd (journal_run (lib_dump sample_feed_lib) (announced sample_feed sample_feed_after) sample_journal)"

lemma sample_journal_read:
  "journal_read sample_journal_next (journal_cursor sample_journal) =
     \<lparr>b_events = [sample_change], b_cursor = journal_cursor sample_journal_next, b_resync_required = False, b_finished = False,
      b_truncated = False\<rparr>"
proof -
  have u: "uuid_shape sample_epoch" by code_simp
  have "parse_cursor (journal_cursor sample_journal) = Some (sample_epoch, 0)"
    using parse_make_cursor [OF u, of 0] by (simp add: journal_cursor_def sample_journal_def)
  then show ?thesis
    unfolding sample_journal_next_def sample_journal_after
    by (simp add: journal_read_def journal_cursor_def Let_def) (simp add: sample_journal_def u64_sub_def)
qed

lemma sample_open: "\<not> sv_done (service_run sample_feed_lib id ''db'' ([Observe sample_location] @ [Read]) sample_service)"
proof -
  let ?st = "(sv_state sample_service)\<lparr>st_changes := sample_journal_next\<rparr>"
  have "\<not> b_finished (fst (source_read ?st (sv_source sample_service)))"
    using source_read_given [of ?st "sv_source sample_service"] sample_not_resync sample_journal_read
    by (simp add: sample_service_def journal_cursor_def)
  then show ?thesis
    using sample_observed unfolding sample_journal_next_def
    by (simp add: service_act_def case_prod_unfold Let_def) (simp add: sample_service_def)
qed

theorem event_stream_exact_witness:
  "delivered (service_run sample_feed_lib id ''db'' ([Observe sample_location] @ [Read]) sample_service) = [sample_change]"
  using event_stream_exact [OF sample_service_start sample_room refl] sample_open sample_not_resync
  by (simp only: sample_entries if_False) (simp add: sample_journal_after sample_service_def)

theorem no_lost_invalidation_witness:
  "\<exists>f'. sv_feed (service_run sample_feed_lib id ''db'' ([Observe sample_location] @ [Read]) sample_service) = Some f' \<and>
    (\<forall>kind i p. map_of (cf_previous sample_feed) (kind, i, p) \<noteq> map_of (cf_previous f') (kind, i, p) \<longrightarrow>
       src_project (sv_source sample_service) = [] \<or> src_project (sv_source sample_service) = p \<longrightarrow>
       (\<exists>e \<in> set (delivered (service_run sample_feed_lib id ''db'' ([Observe sample_location] @ [Read]) sample_service)).
          announces (kind, i, p) e))"
  by (rule no_lost_invalidation [OF sample_service_start sample_room refl sample_open])

subsection \<open>Properties of the routes\<close>

lemma query_decode_encode_char:
  assumes "c \<noteq> CHR 0x00"
  shows "query_decode (url_encode_char c @ rest) = andthen (query_decode rest) (\<lambda>s. Inr (c # s))"
proof (cases "is_unreserved c")
  case True
  then show ?thesis using is_unreserved_not [OF True] by (simp add: url_encode_char_def)
next
  case False
  have b: "byte_of c div 16 mod 16 = byte_of c div 16" "byte_of c div 16 < 16" using byte_of_less [of c] by simp_all
  have "byte_of c \<noteq> 0"
  proof
    assume "byte_of c = 0"
    then have "char_of (byte_of c) = (char_of (0::nat) :: char)" by simp
    then show False using assms by (simp add: byte_of_def) (simp add: char_of_def)
  qed
  then have nz: "\<not> (byte_of c div 16 = 0 \<and> byte_of c mod 16 = 0)" by presburger
  show ?thesis
    using False b nz hex_digit_props [of "byte_of c div 16"] hex_digit_props [of "byte_of c mod 16"]
    by (auto simp: url_encode_char_def Let_def byte_of_def simp del: div_eq_0_iff)
qed

lemma query_decode_url_encode: "CHR 0x00 \<notin> set s \<Longrightarrow> query_decode (url_encode s) = Inr s"
  by (induction s) (auto simp: url_encode_def query_decode_encode_char)

lemma query_decode_plain: "CHR ''%'' \<notin> set s \<Longrightarrow> CHR ''+'' \<notin> set s \<Longrightarrow> query_decode s = Inr s"
  by (induction s) auto

lemma is_git_sha_plain: "is_git_sha r \<Longrightarrow> c \<in> {CHR ''%'', CHR ''+'', CHR ''&''} \<Longrightarrow> c \<notin> set r"
  by (auto simp: is_git_sha_def list_all_iff is_digit_def byte_of_def)

lemma query_field_pair:
  assumes "CHR ''='' \<notin> set k" and "query_decode k = Inr k" and "query_decode v = Inr w"
    and "k = ''project_id'' \<or> k = ''last_revision''" and "\<not> amap_has params k"
  shows "query_field (k @ CHR ''='' # v) params = Inr (amap_put k w params)"
  using assms find_char_append_notin [OF assms(1)] by (auto simp: query_field_def)

lemma query_parameters_last: "CHR ''&'' \<notin> set q \<Longrightarrow> q \<noteq> [] \<Longrightarrow> query_parameters q params = query_field q params"
  using find_char_None_iff [of "CHR ''&''" q] by (simp add: query_parameters.simps [of q])

lemma query_parameters_more:
  assumes "CHR ''&'' \<notin> set q"
  shows "query_parameters (q @ CHR ''&'' # r) params = andthen (query_field q params) (query_parameters r)"
  using find_char_append_notin [OF assms, of r] by (simp add: query_parameters.simps [of "q @ CHR ''&'' # r"])

text \<open>
  The event query is read back. For a project id without a null byte, encoded with the daemon's
  own URL encoding, and optionally a full lowercase commit id, the route recovers exactly the
  project and the revision.
\<close>

theorem event_query_round_trip:
  assumes "project \<noteq> []" and "CHR 0x00 \<notin> set project" and "is_git_sha revision"
    and "header_or_empty req ''Last-Event-ID'' = [] \<or> valid_cursor (header_or_empty req ''Last-Event-ID'')"
  shows "event_arguments path (''project_id='' @ url_encode project) req = Inr (project, []) \<and>
    event_arguments ''/events'' (''project_id='' @ url_encode project @ ''&last_revision='' @ revision) req = Inr (project, revision)"
proof -
  have p: "query_field (''project_id'' @ CHR ''='' # url_encode project) [] = Inr (amap_put ''project_id'' project [])"
    by (rule query_field_pair) (use query_decode_url_encode [OF assms(2)] in \<open>auto simp: amap_has_def query_decode_plain\<close>)
  have r: "query_field (''last_revision'' @ CHR ''='' # revision) (amap_put ''project_id'' project []) =
      Inr (amap_put ''last_revision'' revision (amap_put ''project_id'' project []))"
    by (rule query_field_pair) (use is_git_sha_plain [OF assms(3)] in \<open>auto simp: amap_has_def query_decode_plain\<close>)
  have c: "CHR ''&'' \<notin> set (''project_id'' @ CHR ''='' # url_encode project)" using url_encode_clean by simp
  have "query_parameters (''project_id='' @ url_encode project) [] = Inr (amap_put ''project_id'' project [])"
    using query_parameters_last [OF c] p by simp
  moreover have "query_parameters (''project_id='' @ url_encode project @ ''&last_revision='' @ revision) [] =
      Inr (amap_put ''last_revision'' revision (amap_put ''project_id'' project []))"
    using query_parameters_more [OF c, of "''last_revision'' @ CHR ''='' # revision"] p r
      query_parameters_last [of "''last_revision'' @ CHR ''='' # revision"] is_git_sha_plain [OF assms(3)] by simp
  ultimately show ?thesis using assms by (auto simp: event_arguments_def event_project_def event_revision_def Let_def)
qed

theorem event_query_round_trip_witness:
  "event_arguments ''/events'' (''project_id='' @ url_encode ''a b'' @ ''&last_revision='' @ replicate 40 (CHR ''a''))
     \<lparr>rq_method = VGet, rq_target = [], rq_headers = [], rq_body = []\<rparr> = Inr (''a b'', replicate 40 (CHR ''a''))"
proof -
  have sha: "is_git_sha (replicate 40 (CHR ''a''))" by (simp add: is_git_sha_def list_all_iff is_digit_def byte_of_def)
  have h: "header_or_empty \<lparr>rq_method = VGet, rq_target = [], rq_headers = [], rq_body = []\<rparr> ''Last-Event-ID'' = []"
    by (simp add: header_or_empty_def)
  show ?thesis using event_query_round_trip [of "''a b''" "replicate 40 (CHR ''a'')"
      "\<lparr>rq_method = VGet, rq_target = [], rq_headers = [], rq_body = []\<rparr>" "[]", OF _ _ sha] h by simp
qed

lemma event_revision_ok:
  "event_revision path params project = Inr r \<Longrightarrow> r \<noteq> [] \<Longrightarrow> project \<noteq> [] \<and> is_git_sha r \<and> path \<noteq> ''/events/cursor''"
  by (auto simp: event_revision_def split: option.splits if_splits)

lemma event_arguments_ok:
  assumes "event_arguments path query req = Inr (project, revision)"
  shows "(revision \<noteq> [] \<longrightarrow> project \<noteq> [] \<and> is_git_sha revision \<and> path \<noteq> ''/events/cursor'') \<and>
    (header_or_empty req ''Last-Event-ID'' \<noteq> [] \<longrightarrow> valid_cursor (header_or_empty req ''Last-Event-ID''))"
proof -
  obtain params where "event_revision path params project = Inr revision"
    "header_or_empty req ''Last-Event-ID'' = [] \<or> valid_cursor (header_or_empty req ''Last-Event-ID'')"
    using assms by (auto simp: event_arguments_def andthen_eq_Inr Let_def split: if_splits)
  then show ?thesis using event_revision_ok by blast
qed

lemma event_open_answers:
  "event_open lib st1 lookup st2 admitted path project revision req \<noteq> EventNot"
  "event_open lib st1 lookup st2 admitted path project revision req = EventResponse res \<Longrightarrow>
     rs_status res \<in> {200, 404, 503} \<and> (rs_status res = 200 \<longrightarrow> path = ''/events/cursor'')"
  "event_open lib st1 lookup st2 admitted path project revision req = EventStream src \<Longrightarrow>
     path \<noteq> ''/events/cursor'' \<and> st_available st2 \<and> \<not> st_stopped st2 \<and> admitted \<and>
     (project \<noteq> [] \<longrightarrow> lookup project = LookupRow) \<and>
     src = \<lparr>src_project = project, src_revision = revision,
            src_cursor = (if header_or_empty req ''Last-Event-ID'' = [] \<and> revision = [] then journal_cursor (st_changes st2)
                          else header_or_empty req ''Last-Event-ID''), src_first = True\<rparr>"
  by (auto simp: event_open_def event_unavailable_def error_response_def json_response_def Let_def split: if_splits)
    (use project_lookup.exhaust in blast)+

text \<open>
  What the event routes answer. Other paths are left to the next handler. A stream is opened
  only for a GET of \<open>/events\<close> by an available service that is not stopping, for an existing
  project if one is named, and with room in the registry. Its source then starts with a handshake,
  and either holds a cursor of the right shape, which is the service's own when the client sent
  none, or holds none because the client named a revision instead, and then its first batch demands
  a resync and ends the stream. Every other answer has status 200, 400, 404, 405 or 503, and 200
  belongs to \<open>/events/cursor\<close>.
\<close>

theorem event_dispatch_outcomes:
  assumes "journal_inv dump (st_changes st2)"
  shows "case event_dispatch lib st1 lookup st2 admitted path query req of
      EventNot \<Rightarrow> path \<noteq> ''/events'' \<and> path \<noteq> ''/events/cursor''
    | EventResponse res \<Rightarrow> rs_status res \<in> {200, 400, 404, 405, 503} \<and> (rs_status res = 200 \<longrightarrow> path = ''/events/cursor'')
    | EventStream src \<Rightarrow>
        path = ''/events'' \<and> rq_method req = VGet \<and> st_available st2 \<and> \<not> st_stopped st2 \<and> admitted \<and>
        (src_project src \<noteq> [] \<longrightarrow> lookup (src_project src) = LookupRow) \<and> src_first src \<and>
        (if src_cursor src = [] then is_git_sha (src_revision src) \<and> (\<forall>st. b_finished (fst (source_read st src)))
         else valid_cursor (src_cursor src) \<and>
           (header_or_empty req ''Last-Event-ID'' = [] \<longrightarrow> src_cursor src = journal_cursor (st_changes st2)))"
proof -
  have own: "valid_cursor (journal_cursor (st_changes st2))" "journal_cursor (st_changes st2) \<noteq> []"
    using assms parse_make_cursor [of "j_epoch (st_changes st2)" "j_sequence (st_changes st2)"]
    by (auto simp: journal_inv_def journal_core_def journal_cursor_def valid_cursor_def)
  have early: "b_finished (fst (source_read st src))" if "src_cursor src = []" "src_revision src \<noteq> []" for st src
    using that by (simp add: source_read_def Let_def)
  have err: "rs_status (error_response lib n c m) = n" for n c m
    by (simp add: error_response_def json_response_def)
  consider (other) "path \<noteq> ''/events'' \<and> path \<noteq> ''/events/cursor''"
    | (verb) "path = ''/events'' \<or> path = ''/events/cursor''" "rq_method req \<noteq> VGet"
    | (arguments) e where "path = ''/events'' \<or> path = ''/events/cursor''" "rq_method req = VGet" "event_arguments path query req = Inl e"
    | (opens) project revision where "path = ''/events'' \<or> path = ''/events/cursor''" "rq_method req = VGet"
      "event_arguments path query req = Inr (project, revision)"
    by (cases "event_arguments path query req") auto
  then show ?thesis
  proof cases
    case other
    then show ?thesis by (simp add: event_dispatch_def)
  next
    case verb
    then show ?thesis by (auto simp: event_dispatch_def err)
  next
    case arguments
    then have "event_dispatch lib st1 lookup st2 admitted path query req =
        EventResponse (error_response lib 400 ''bad_request'' (what (\<lambda>_. []) e))" by (auto simp: event_dispatch_def)
    then show ?thesis by (simp add: err)
  next
    case opens
    then have d: "event_dispatch lib st1 lookup st2 admitted path query req =
        event_open lib st1 lookup st2 admitted path project revision req" by (auto simp: event_dispatch_def)
    note ok = event_arguments_ok [OF opens(3)]
    show ?thesis
    proof (cases "event_open lib st1 lookup st2 admitted path project revision req")
      case EventNot
      then show ?thesis using event_open_answers(1) by blast
    next
      case (EventResponse res)
      then show ?thesis unfolding d EventResponse using event_open_answers(2) [OF EventResponse] by auto
    next
      case (EventStream src)
      note a = event_open_answers(3) [OF EventStream]
      have src: "src_first src" "src_project src = project" using a by simp_all
      have p: "path = ''/events''" using a opens(1) by blast
      have none: "is_git_sha (src_revision src) \<and> (\<forall>st. b_finished (fst (source_read st src)))" if "src_cursor src = []"
        using a ok own(2) that early [OF that] by (auto split: if_splits)
      have some: "valid_cursor (src_cursor src) \<and>
          (header_or_empty req ''Last-Event-ID'' = [] \<longrightarrow> src_cursor src = journal_cursor (st_changes st2))" if "src_cursor src \<noteq> []"
        using a ok own(1) that by (auto split: if_splits)
      have up: "st_available st2" "\<not> st_stopped st2" "admitted" "project \<noteq> [] \<longrightarrow> lookup project = LookupRow" using a by blast+
      show ?thesis
        unfolding d EventStream event_answer.case using none some src up p opens(2) by auto
    qed
  qed
qed

theorem event_dispatch_outcomes_witness:
  "\<exists>src. event_dispatch sample_feed_lib (sv_state sample_service) (\<lambda>_. LookupRow) (sv_state sample_service) True ''/events'' []
     \<lparr>rq_method = VGet, rq_target = [], rq_headers = [], rq_body = []\<rparr> = EventStream src \<and>
   src_first src \<and> valid_cursor (src_cursor src)"
proof -
  let ?req = "\<lparr>rq_method = VGet, rq_target = [], rq_headers = [], rq_body = []\<rparr>" and ?st = "sv_state sample_service"
  have a: "event_arguments ''/events'' [] ?req = Inr ([], [])"
    by (simp add: event_arguments_def event_project_def event_revision_def query_parameters.simps header_or_empty_def)
  have h: "header_or_empty ?req ''Last-Event-ID'' = []" by (simp add: header_or_empty_def)
  obtain src where d: "event_dispatch sample_feed_lib ?st (\<lambda>_. LookupRow) ?st True ''/events'' [] ?req = EventStream src"
    by (simp add: event_dispatch_def event_open_def a) (simp add: sample_service_def Let_def h)
  have "src_cursor src \<noteq> []"
    using d by (auto simp: event_dispatch_def event_open_def event_unavailable_def a Let_def header_or_empty_def journal_cursor_def split: if_splits)
  then show ?thesis
    using event_dispatch_outcomes [OF sample_service_start(1), where lib = sample_feed_lib and ?st1.0 = ?st
        and lookup = "\<lambda>_. LookupRow" and admitted = True and path = "''/events''" and query = "[]" and req = ?req] d
    by simp
qed

end
