(* ===== verification/Sse.thy ===== *)
theory Sse
  imports EventService System "HOL-Library.Sublist"
begin

text \<open>
  The event stream of \<open>src/src/api/support/SseStream.cpp\<close>: callers, poll workers and the
  handlers of one strand that share the atomics \<open>open_\<close> and \<open>pending_bytes_\<close>. A thread is
  the list of the accesses it still has to make; one step is one access of an atomic, one post, or one
  stretch of work on the strand's own fields, so every interleaving of the source is a run.

  A strand runs its handlers one at a time: posted ones in the order they were posted, completions of
  socket operations and timers at any time in between. What the peer, the clock and the source of
  events do is chosen by the environment.

  Frames carry who sent them. Seven more fields only record history: the frames posted
  (\<open>ss_accepted\<close>), written (\<open>ss_sent\<close>), failed (\<open>ss_lost\<close>) and discarded after
  the stream closed (\<open>ss_dropped\<close>), the batches the source gave (\<open>ss_batches\<close>), how many
  frames had been posted before a request to finish that was handled (\<open>ss_mark\<close>), and that number
  when the stream closed because it was finished and empty (\<open>ss_drained\<close>).
\<close>

subsection \<open>State\<close>

datatype origin = FromSource | FromCaller | FromTimer

datatype frame = Frame (frame_origin: origin) (frame_text: string)

definition frame_bytes :: "frame \<Rightarrow> nat" where
  "frame_bytes f = length (frame_text f)"

definition kMaxPendingBytes :: nat where
  "kMaxPendingBytes = 2 * 1024 * 1024"

text \<open>
  What any thread can do. \<open>MTest\<close> to \<open>MPost\<close> are the accesses of \<open>enqueue\<close>; the flag
  says that the caller returns when the call fails. \<open>MStore\<close> and \<open>MPostClose\<close> are
  \<open>cancel\<close>, \<open>MSource\<close> and \<open>MPostBatch\<close> the task of a poll worker.
\<close>

datatype call = MTest bool frame | MAdd bool frame | MUndo frame | MPost frame | MStore | MPostClose | MPostFinish
  | MSource | MPostBatch event_batch

text \<open>Work of the strand.\<close>

datatype micro = Call call | Begin | HeaderDone bool | Push frame | SetFinished nat | Close | WriteNext | Written bool
  | SchedulePoll | Batch event_batch | ArmPoll | Beat | Heartbeat

text \<open>Posted handlers; the number in \<open>HFinish\<close> records how many frames had been posted before it.\<close>

datatype posted = HBegin | HEnqueue frame | HFinish nat | HClose | HBatch event_batch

datatype header = HNotSent | HWriting | HReturned | HDone

datatype phase = Reserved | Active | Released

record sse_stream =
  ss_phase :: phase
  ss_open :: bool
  ss_pending :: nat
  ss_header :: header
  ss_queue :: "frame list"
  ss_writing :: bool
  ss_finished :: bool
  ss_closed :: bool
  ss_polling :: bool
  ss_beating :: bool
  ss_posted :: "posted list"
  ss_strand :: "micro list"
  ss_threads :: "call list list"
  ss_accepted :: "frame list"
  ss_sent :: "frame list"
  ss_lost :: "frame list"
  ss_dropped :: "frame list"
  ss_batches :: "event_batch list"
  ss_mark :: nat
  ss_drained :: "nat option"

definition stream_new :: sse_stream where
  "stream_new =
     \<lparr>ss_phase = Reserved, ss_open = True, ss_pending = 0, ss_header = HNotSent, ss_queue = [], ss_writing = False,
      ss_finished = False, ss_closed = False, ss_polling = False, ss_beating = False, ss_posted = [], ss_strand = [],
      ss_threads = [], ss_accepted = [], ss_sent = [], ss_lost = [], ss_dropped = [], ss_batches = [], ss_mark = 0,
      ss_drained = None\<rparr>"

text \<open>\<open>SseStream::reserve\<close>: a stream the registry does not admit is not made, and the socket goes back.\<close>

definition stream_reserve :: "(nat \<Rightarrow> bool) \<Rightarrow> nat \<Rightarrow> sse_registry \<Rightarrow> sse_stream option \<times> sse_registry" where
  "stream_reserve is_open i reg =
     (let (admitted, reg') = registry_add is_open i reg in (if admitted then Some stream_new else None, reg'))"

text \<open>\<open>SseRegistry::stop\<close>: the streams it cancels, and no admission any more.\<close>

definition registry_stop :: "sse_registry \<Rightarrow> nat list \<times> sse_registry" where
  "registry_stop reg = (sr_streams reg, reg\<lparr>sr_stopped := True\<rparr>)"

subsection \<open>Accesses of a thread\<close>

definition post :: "posted \<Rightarrow> sse_stream \<Rightarrow> sse_stream" where
  "post h s = s\<lparr>ss_posted := ss_posted s @ [h]\<rparr>"

definition keepalive :: frame where
  "keepalive = Frame FromTimer ('': keepalive'' @ [newline, newline])"

text \<open>The frames of a batch: the events, or the one that asks the client to start over.\<close>

definition batch_frames :: "dumper \<Rightarrow> event_batch \<Rightarrow> frame list" where
  "batch_frames dump b =
     (if b_resync_required b
      then [Frame FromSource (encode_sse dump \<lparr>ev_id = b_cursor b, ev_name = ''resync_required'',
              ev_data = JObj [(''reason'', JStr ''history_unavailable'')]\<rparr>)]
      else map (\<lambda>e. Frame FromSource (encode_sse dump e)) (b_events b))"

text \<open>
  One access: what replaces it, whether the caller goes on with the rest, and the new state. The
  argument \<open>r\<close> is what the source returns, \<open>None\<close> when it throws.
\<close>

fun exec_call :: "dumper \<Rightarrow> event_batch option \<Rightarrow> call \<Rightarrow> sse_stream \<Rightarrow> call list \<times> bool \<times> sse_stream" where
  "exec_call dump r (MTest must f) s = (if ss_open s then ([MAdd must f], True, s) else ([], \<not> must, s))"
| "exec_call dump r (MAdd must f) s =
     (let n = ss_pending s + frame_bytes f; s' = s\<lparr>ss_pending := n\<rparr>
      in if kMaxPendingBytes < n then ([MUndo f, MStore, MPostClose], \<not> must, s') else ([MPost f], True, s'))"
| "exec_call dump r (MUndo f) s = ([], True, s\<lparr>ss_pending := ss_pending s - frame_bytes f\<rparr>)"
| "exec_call dump r (MPost f) s = ([], True, (post (HEnqueue f) s)\<lparr>ss_accepted := ss_accepted s @ [f]\<rparr>)"
| "exec_call dump r MStore s = ([], True, s\<lparr>ss_open := False\<rparr>)"
| "exec_call dump r MPostClose s = ([], True, post HClose s)"
| "exec_call dump r MPostFinish s = ([], True, post (HFinish (length (ss_accepted s))) s)"
| "exec_call dump r MSource s =
     (if \<not> ss_open s then ([], True, s)
      else case r of
        None \<Rightarrow> ([MStore, MPostClose], True, s)
      | Some b \<Rightarrow> ([MPostBatch b], True, s\<lparr>ss_batches := ss_batches s @ [b]\<rparr>))"
| "exec_call dump r (MPostBatch b) s = ([], True, post (HBatch b) s)"

subsection \<open>Handlers of the strand\<close>

fun handler_start :: "posted \<Rightarrow> micro" where
  "handler_start HBegin = Begin"
| "handler_start (HEnqueue f) = Push f"
| "handler_start (HFinish n) = SetFinished n"
| "handler_start HClose = Close"
| "handler_start (HBatch b) = Batch b"

definition written :: "bool \<Rightarrow> sse_stream \<Rightarrow> sse_stream" where
  "written ok s =
     (case ss_queue s of
        [] \<Rightarrow> s
      | f # fs \<Rightarrow> s\<lparr>ss_writing := False, ss_pending := ss_pending s - frame_bytes f, ss_queue := fs,
                   ss_sent := (if ok then ss_sent s @ [f] else ss_sent s),
                   ss_lost := (if ok then ss_lost s else ss_lost s @ [f])\<rparr>)"

definition batch_work :: "dumper \<Rightarrow> event_batch \<Rightarrow> micro list" where
  "batch_work dump b =
     (if b_resync_required b then map (\<lambda>f. Call (MTest False f)) (batch_frames dump b) @ [Call MPostFinish]
      else map (\<lambda>f. Call (MTest True f)) (batch_frames dump b) @ [if b_finished b then Call MPostFinish else ArmPoll])"

text \<open>One piece of a handler: what it continues with, and the new state.\<close>

fun exec_micro :: "dumper \<Rightarrow> bool \<Rightarrow> micro \<Rightarrow> sse_stream \<Rightarrow> micro list \<times> sse_stream" where
  "exec_micro dump src Begin s = (if \<not> ss_open s then ([Close], s) else ([], s\<lparr>ss_header := HWriting\<rparr>))"
| "exec_micro dump src (HeaderDone ok) s =
     (if \<not> ok \<or> \<not> ss_open s then ([Close], s) else ([WriteNext, SchedulePoll, Heartbeat], s\<lparr>ss_header := HDone\<rparr>))"
| "exec_micro dump src (Push f) s =
     (if \<not> ss_open s then ([Call (MUndo f)], s\<lparr>ss_dropped := ss_dropped s @ [f]\<rparr>)
      else ([WriteNext], s\<lparr>ss_queue := ss_queue s @ [f]\<rparr>))"
| "exec_micro dump src (SetFinished n) s = ([WriteNext], s\<lparr>ss_finished := True, ss_mark := max n (ss_mark s)\<rparr>)"
| "exec_micro dump src Close s = ([], s\<lparr>ss_open := False, ss_closed := True\<rparr>)"
| "exec_micro dump src WriteNext s =
     (if \<not> ss_open s \<or> ss_header s \<noteq> HDone \<or> ss_writing s then ([], s)
      else if ss_queue s = [] then (if ss_finished s then ([Close], s\<lparr>ss_drained := Some (ss_mark s)\<rparr>) else ([], s))
      else ([], s\<lparr>ss_writing := True\<rparr>))"
| "exec_micro dump src (Written ok) s = ((if ok then [WriteNext] else [Close]), written ok s)"
| "exec_micro dump src SchedulePoll s =
     (if \<not> src \<or> \<not> ss_open s \<or> ss_finished s then ([], s) else ([], s\<lparr>ss_threads := ss_threads s @ [[MSource]]\<rparr>))"
| "exec_micro dump src (Batch b) s = (if \<not> ss_open s then ([], s) else (batch_work dump b, s))"
| "exec_micro dump src ArmPoll s = ([], s\<lparr>ss_polling := True\<rparr>)"
| "exec_micro dump src Beat s = (if \<not> ss_open s then ([], s) else ([Call (MTest False keepalive), Heartbeat], s))"
| "exec_micro dump src Heartbeat s = (if \<not> ss_open s \<or> ss_finished s then ([], s) else ([], s\<lparr>ss_beating := True\<rparr>))"
| "exec_micro dump src (Call c) s = ([Call c], s)"

subsection \<open>Steps\<close>

text \<open>
  \<open>lost_peer\<close> is the completion of the read that watches the peer, or a write deadline that
  passed; both only close. A cancelled timer still runs its handler at most to its test of
  \<open>open_\<close>.
\<close>

inductive sstep :: "dumper \<Rightarrow> bool \<Rightarrow> sse_stream \<Rightarrow> sse_stream \<Rightarrow> bool" for dump src where
  activate: "ss_phase s = Reserved \<Longrightarrow> sstep dump src s (post HBegin (s\<lparr>ss_phase := Active\<rparr>))"
| release: "ss_phase s = Reserved \<Longrightarrow> sstep dump src s (s\<lparr>ss_phase := Released, ss_open := False\<rparr>)"
| send: "sstep dump src s (s\<lparr>ss_threads := ss_threads s @ [[MTest False (Frame FromCaller text)]]\<rparr>)"
| finish: "sstep dump src s (s\<lparr>ss_threads := ss_threads s @ [[MPostFinish]]\<rparr>)"
| cancel: "sstep dump src s (s\<lparr>ss_threads := ss_threads s @ [[MStore, MPostClose]]\<rparr>)"
| thread: "i < length (ss_threads s) \<Longrightarrow> ss_threads s ! i = c # cs \<Longrightarrow> exec_call dump r c s = (new, goes_on, s') \<Longrightarrow>
    sstep dump src s (s'\<lparr>ss_threads := (ss_threads s')[i := new @ (if goes_on then cs else [])]\<rparr>)"
| strand_call: "ss_strand s = Call c # ms \<Longrightarrow> exec_call dump r c s = (new, goes_on, s') \<Longrightarrow>
    sstep dump src s (s'\<lparr>ss_strand := map Call new @ (if goes_on then ms else [])\<rparr>)"
| strand_work: "ss_strand s = m # ms \<Longrightarrow> \<forall>c. m \<noteq> Call c \<Longrightarrow> exec_micro dump src m s = (new, s') \<Longrightarrow>
    sstep dump src s (s'\<lparr>ss_strand := new @ ms\<rparr>)"
| dispatch: "ss_strand s = [] \<Longrightarrow> ss_posted s = h # hs \<Longrightarrow>
    sstep dump src s (s\<lparr>ss_posted := hs, ss_strand := [handler_start h]\<rparr>)"
| header_returned: "ss_strand s = [] \<Longrightarrow> ss_header s = HWriting \<Longrightarrow>
    sstep dump src s (s\<lparr>ss_header := HReturned, ss_strand := [HeaderDone ok]\<rparr>)"
| write_returned: "ss_strand s = [] \<Longrightarrow> ss_writing s \<Longrightarrow> sstep dump src s (s\<lparr>ss_strand := [Written ok]\<rparr>)"
| lost_peer: "ss_strand s = [] \<Longrightarrow> ss_header s \<noteq> HNotSent \<Longrightarrow> sstep dump src s (s\<lparr>ss_strand := [Close]\<rparr>)"
| poll_timer: "ss_strand s = [] \<Longrightarrow> ss_polling s \<Longrightarrow>
    sstep dump src s (s\<lparr>ss_polling := False, ss_strand := [SchedulePoll]\<rparr>)"
| beat_timer: "ss_strand s = [] \<Longrightarrow> ss_beating s \<Longrightarrow> sstep dump src s (s\<lparr>ss_beating := False, ss_strand := [Beat]\<rparr>)"

inductive_cases sstep_cases: "sstep dump src s s'"

subsection \<open>Lemmas: bytes held for the peer\<close>

text \<open>The bytes that the accesses ahead of a thread, a handler or a posted handler will give back or pass on.\<close>

fun hold_call :: "call \<Rightarrow> nat" where
  "hold_call (MUndo f) = frame_bytes f"
| "hold_call (MPost f) = frame_bytes f"
| "hold_call _ = 0"

fun hold_micro :: "micro \<Rightarrow> nat" where
  "hold_micro (Call c) = hold_call c"
| "hold_micro (Push f) = frame_bytes f"
| "hold_micro _ = 0"

fun hold_posted :: "posted \<Rightarrow> nat" where
  "hold_posted (HEnqueue f) = frame_bytes f"
| "hold_posted _ = 0"

text \<open>The same without what a refused frame gives back at once.\<close>

fun keep_call :: "call \<Rightarrow> nat" where
  "keep_call (MPost f) = frame_bytes f"
| "keep_call _ = 0"

fun keep_micro :: "micro \<Rightarrow> nat" where
  "keep_micro (Call c) = keep_call c"
| "keep_micro (Push f) = frame_bytes f"
| "keep_micro _ = 0"

definition held_bytes :: "sse_stream \<Rightarrow> nat" where
  "held_bytes s = load_of frame_bytes (ss_queue s) + load_of hold_posted (ss_posted s) +
     load_of hold_micro (ss_strand s) + load_of (load_of hold_call) (ss_threads s)"

definition buffered_bytes :: "sse_stream \<Rightarrow> nat" where
  "buffered_bytes s = load_of frame_bytes (ss_queue s) + load_of hold_posted (ss_posted s) +
     load_of keep_micro (ss_strand s) + load_of (load_of keep_call) (ss_threads s)"

definition bytes_ok :: "sse_stream \<Rightarrow> bool" where
  "bytes_ok s \<longleftrightarrow> ss_pending s = held_bytes s \<and> buffered_bytes s \<le> kMaxPendingBytes \<and>
     load_of hold_micro (tl (ss_strand s)) = 0 \<and> (\<forall>t \<in> set (ss_threads s). load_of hold_call (tl t) = 0) \<and>
     (ss_writing s \<longrightarrow> ss_queue s \<noteq> []) \<and> (\<forall>ok. Written ok \<in> set (ss_strand s) \<longrightarrow> ss_writing s) \<and>
     (\<forall>ok. Written ok \<notin> set (tl (ss_strand s)))"

lemma exec_call_keeps:
  assumes "exec_call dump r c s = (new, k, s')"
  shows "ss_threads s' = ss_threads s" "ss_strand s' = ss_strand s" "ss_queue s' = ss_queue s"
    "ss_writing s' = ss_writing s" "ss_header s' = ss_header s" "ss_finished s' = ss_finished s"
    "ss_sent s' = ss_sent s" "ss_lost s' = ss_lost s" "ss_dropped s' = ss_dropped s" "ss_mark s' = ss_mark s"
    "ss_drained s' = ss_drained s" "ss_phase s' = ss_phase s" "ss_polling s' = ss_polling s"
    "ss_closed s' = ss_closed s" "ss_beating s' = ss_beating s"
  using assms by (cases c; auto simp: post_def Let_def split: if_splits option.splits)+

lemma keep_le_hold: "keep_call c \<le> hold_call c" "keep_micro m \<le> hold_micro m"
proof -
  show 1: "keep_call c \<le> hold_call c" for c by (cases c) simp_all
  show "keep_micro m \<le> hold_micro m" using 1 by (cases m) simp_all
qed

lemma load_of_mono: "(\<And>x. f x \<le> g x) \<Longrightarrow> load_of f xs \<le> load_of g xs"
  by (simp add: load_of_def sum_list_mono)

lemma keep_le_holds: "load_of keep_call cs \<le> load_of hold_call cs" "load_of keep_micro ms \<le> load_of hold_micro ms"
  by (simp_all add: load_of_mono keep_le_hold)

lemma buffered_le_held: "buffered_bytes s \<le> held_bytes s"
  unfolding buffered_bytes_def held_bytes_def by (intro add_mono load_of_mono keep_le_hold order_refl)

text \<open>What one access does to the count and to the bytes ahead.\<close>

lemma call_bytes:
  assumes "exec_call dump r c s = (new, k, s')" and "hold_call c \<le> ss_pending s"
  shows "ss_pending s' + hold_call c + load_of hold_posted (ss_posted s) =
      ss_pending s + load_of hold_call new + load_of hold_posted (ss_posted s')"
    and "load_of hold_call (tl new) = 0" and "new \<noteq> [] \<longrightarrow> hold_call c = 0"
    and "ss_pending s' \<le> kMaxPendingBytes \<or>
      load_of keep_call new + load_of hold_posted (ss_posted s') \<le> keep_call c + load_of hold_posted (ss_posted s)"
  using assms by (cases c; auto simp: post_def Let_def split: if_splits option.splits)+

lemma micro_bytes:
  assumes "exec_micro dump src m s = (new, s')" and "hold_micro m \<le> ss_pending s" and "\<forall>c. m \<noteq> Call c"
    and "\<forall>ok. m = Written ok \<longrightarrow> ss_queue s \<noteq> [] \<and> frame_bytes (hd (ss_queue s)) \<le> ss_pending s"
  shows "ss_pending s' + hold_micro m + load_of frame_bytes (ss_queue s) =
      ss_pending s + load_of hold_micro new + load_of frame_bytes (ss_queue s')"
    and "load_of keep_micro new + load_of frame_bytes (ss_queue s') \<le> keep_micro m + load_of frame_bytes (ss_queue s)"
    and "load_of hold_micro (tl new) = 0" and "ss_posted s' = ss_posted s"
    and "load_of (load_of hold_call) (ss_threads s') = load_of (load_of hold_call) (ss_threads s)"
    and "load_of (load_of keep_call) (ss_threads s') = load_of (load_of keep_call) (ss_threads s)"
    and "\<forall>t \<in> set (ss_threads s') - set (ss_threads s). load_of hold_call (tl t) = 0"
    and "\<forall>ok. Written ok \<notin> set new"
proof -
  have w: "load_of hold_micro (map (\<lambda>f. Call (MTest b f)) fs) = 0" "load_of keep_micro (map (\<lambda>f. Call (MTest b f)) fs) = 0" for b fs
    by (induction fs) simp_all
  have b: "load_of hold_micro (batch_work dump q) = 0" "load_of keep_micro (batch_work dump q) = 0" "Written ok \<notin> set (batch_work dump q)"
    "load_of hold_micro (tl (batch_work dump q)) = 0" for q ok
    by (auto simp: batch_work_def w map_tl [symmetric] tl_append split: list.split)
  show "ss_pending s' + hold_micro m + load_of frame_bytes (ss_queue s) =
      ss_pending s + load_of hold_micro new + load_of frame_bytes (ss_queue s')"
    "load_of keep_micro new + load_of frame_bytes (ss_queue s') \<le> keep_micro m + load_of frame_bytes (ss_queue s)"
    "load_of hold_micro (tl new) = 0" "ss_posted s' = ss_posted s"
    "load_of (load_of hold_call) (ss_threads s') = load_of (load_of hold_call) (ss_threads s)"
    "load_of (load_of keep_call) (ss_threads s') = load_of (load_of keep_call) (ss_threads s)"
    "\<forall>t \<in> set (ss_threads s') - set (ss_threads s). load_of hold_call (tl t) = 0" "\<forall>ok. Written ok \<notin> set new"
    using assms by (cases m; auto simp: written_def b split: if_splits list.splits)+
qed

lemma in_tl: "x \<in> set (tl xs) \<Longrightarrow> x \<in> set xs"
  by (cases xs) simp_all

lemma tails_light:
  "load_of hold_call (tl new) = 0 \<Longrightarrow> load_of hold_call cs = 0 \<Longrightarrow> load_of hold_call (tl (new @ cs)) = 0"
  "load_of hold_micro (tl ns) = 0 \<Longrightarrow> load_of hold_micro ms = 0 \<Longrightarrow> load_of hold_micro (tl (ns @ ms)) = 0"
  by (cases new; cases cs; simp) (cases ns; cases ms; simp)

lemma load_of_Calls [simp]:
  "load_of hold_micro (map Call cs) = load_of hold_call cs" "load_of keep_micro (map Call cs) = load_of keep_call cs"
  by (simp_all add: load_of_def comp_def)

lemma thread_bytes:
  assumes ok: "bytes_ok s" and i: "i < length (ss_threads s)" "ss_threads s ! i = c # cs"
    and e: "exec_call dump r c s = (new, k, s')"
  shows "bytes_ok (s'\<lparr>ss_threads := (ss_threads s')[i := new @ (if k then cs else [])]\<rparr>)"
proof -
  let ?t = "new @ (if k then cs else [])"
  note keeps = exec_call_keeps [OF e]
  have light: "load_of hold_call cs = 0" using ok i nth_mem [OF i(1)] by (force simp: bytes_ok_def)
  then have k0: "load_of keep_call cs = 0" using keep_le_holds(1) [of cs] by simp
  have h: "load_of (load_of hold_call) ((ss_threads s)[i := ?t]) + hold_call c =
      load_of (load_of hold_call) (ss_threads s) + load_of hold_call new"
    using load_of_update [OF i(1), of "load_of hold_call" ?t] i(2) light by (simp split: if_splits)
  have kp: "load_of (load_of keep_call) ((ss_threads s)[i := ?t]) + keep_call c =
      load_of (load_of keep_call) (ss_threads s) + load_of keep_call new"
    using load_of_update [OF i(1), of "load_of keep_call" ?t] i(2) k0 by (simp split: if_splits)
  have "hold_call c \<le> load_of (load_of hold_call) (ss_threads s)"
    using member_le_load_of [OF i(1), of "load_of hold_call"] i(2) by simp
  then have le: "hold_call c \<le> ss_pending s" using ok by (simp add: bytes_ok_def held_bytes_def)
  note cb = call_bytes [OF e le]
  let ?s = "s'\<lparr>ss_threads := (ss_threads s')[i := ?t]\<rparr>"
  have 1: "ss_pending ?s = held_bytes ?s" using cb(1) h ok by (simp add: bytes_ok_def held_bytes_def keeps)
  have 2: "buffered_bytes ?s \<le> kMaxPendingBytes"
    using cb(4)
  proof
    assume "ss_pending s' \<le> kMaxPendingBytes"
    then show ?thesis using buffered_le_held [of ?s] 1 by simp
  next
    assume "load_of keep_call new + load_of hold_posted (ss_posted s') \<le> keep_call c + load_of hold_posted (ss_posted s)"
    then show ?thesis using kp ok by (simp add: bytes_ok_def buffered_bytes_def keeps)
  qed
  have "\<forall>t \<in> set ((ss_threads s)[i := ?t]). load_of hold_call (tl t) = 0"
    using ok tails_light(1) [OF cb(2) light] cb(2) by (auto simp: bytes_ok_def dest!: subsetD [OF set_update_subset_insert])
  then show ?thesis using 1 2 ok by (simp add: bytes_ok_def keeps)
qed

lemma strand_call_bytes:
  assumes ok: "bytes_ok s" and st: "ss_strand s = Call c # ms" and e: "exec_call dump r c s = (new, k, s')"
  shows "bytes_ok (s'\<lparr>ss_strand := map Call new @ (if k then ms else [])\<rparr>)"
proof -
  let ?s = "s'\<lparr>ss_strand := map Call new @ (if k then ms else [])\<rparr>"
  note keeps = exec_call_keeps [OF e]
  have light: "load_of hold_micro ms = 0" using ok st by (simp add: bytes_ok_def)
  then have k0: "load_of keep_micro ms = 0" using keep_le_holds(2) [of ms] by simp
  have le: "hold_call c \<le> ss_pending s" using ok st by (simp add: bytes_ok_def held_bytes_def)
  note cb = call_bytes [OF e le]
  have 1: "ss_pending ?s = held_bytes ?s" using cb(1) ok st light by (simp add: bytes_ok_def held_bytes_def keeps)
  have 2: "buffered_bytes ?s \<le> kMaxPendingBytes"
    using cb(4)
  proof
    assume "ss_pending s' \<le> kMaxPendingBytes"
    then show ?thesis using buffered_le_held [of ?s] 1 by simp
  next
    assume "load_of keep_call new + load_of hold_posted (ss_posted s') \<le> keep_call c + load_of hold_posted (ss_posted s)"
    then show ?thesis using k0 ok st by (simp add: bytes_ok_def buffered_bytes_def keeps)
  qed
  have "load_of hold_micro (tl (map Call new)) = 0" using cb(2) by (simp add: map_tl [symmetric])
  then have "load_of hold_micro (tl (ss_strand ?s)) = 0" using tails_light(2) [OF _ light] by simp
  then show ?thesis using 1 2 ok st by (auto simp: bytes_ok_def keeps map_tl [symmetric] tl_append dest: in_tl split: if_splits list.splits)
qed

lemma strand_work_bytes:
  assumes ok: "bytes_ok s" and st: "ss_strand s = m # ms" and m: "\<forall>c. m \<noteq> Call c"
    and e: "exec_micro dump src m s = (new, s')"
  shows "bytes_ok (s'\<lparr>ss_strand := new @ ms\<rparr>)"
proof -
  have light: "load_of hold_micro ms = 0" using ok st by (simp add: bytes_ok_def)
  then have k0: "load_of keep_micro ms = 0" using keep_le_holds(2) [of ms] by simp
  have le: "hold_micro m \<le> ss_pending s" using ok st by (simp add: bytes_ok_def held_bytes_def)
  have "\<forall>ok. m = Written ok \<longrightarrow> ss_queue s \<noteq> [] \<and> frame_bytes (hd (ss_queue s)) \<le> ss_pending s"
    using ok st by (cases "ss_queue s") (auto simp: bytes_ok_def held_bytes_def)
  note mb = micro_bytes [OF e le m this]
  have 1: "(\<forall>t \<in> set (ss_threads s'). load_of hold_call (tl t) = 0)" using mb(7) ok by (auto simp: bytes_ok_def)
  have 2: "ss_writing s' \<longrightarrow> ss_queue s' \<noteq> []"
    using e m ok by (cases m) (auto simp: bytes_ok_def written_def split: if_splits list.splits)
  have 3: "Written b \<notin> set ms" for b using ok st by (simp add: bytes_ok_def)
  show ?thesis using mb tails_light(2) [OF mb(3) light] light k0 ok st 1 2 3
    by (auto simp: bytes_ok_def held_bytes_def buffered_bytes_def dest: in_tl)
qed

lemma bytes_ok_step: "sstep dump src s s' \<Longrightarrow> bytes_ok s \<Longrightarrow> bytes_ok s'"
proof (induction rule: sstep.induct)
  case (dispatch s h hs)
  have "hold_micro (handler_start h) = hold_posted h" "keep_micro (handler_start h) = hold_posted h"
    "Written ok \<noteq> handler_start h" for ok by (cases h; simp)+
  then show ?case using dispatch by (auto simp: bytes_ok_def held_bytes_def buffered_bytes_def)
qed (simp_all add: thread_bytes strand_call_bytes strand_work_bytes, auto simp: bytes_ok_def held_bytes_def buffered_bytes_def post_def)

subsection \<open>Lemmas: the order of frames\<close>

text \<open>Where an accepted frame is: written, failed, queued, discarded, being pushed, or posted.\<close>

fun pushed :: "micro \<Rightarrow> frame list" where
  "pushed (Push f) = [f]"
| "pushed _ = []"

fun posted_frame :: "posted \<Rightarrow> frame list" where
  "posted_frame (HEnqueue f) = [f]"
| "posted_frame _ = []"

definition handled :: "sse_stream \<Rightarrow> frame list" where
  "handled s = ss_sent s @ ss_lost s @ ss_queue s @ ss_dropped s @ concat (map pushed (ss_strand s))"

text \<open>A posted request to finish has behind it all the frames posted before it.\<close>

fun marks_ok :: "nat \<Rightarrow> posted list \<Rightarrow> bool" where
  "marks_ok n [] = True"
| "marks_ok n (h # hs) = ((case h of HFinish k \<Rightarrow> k \<le> n | _ \<Rightarrow> True) \<and> marks_ok (n + length (posted_frame h)) hs)"

fun strand_mark :: "nat \<Rightarrow> micro \<Rightarrow> bool" where
  "strand_mark n (SetFinished k) = (k \<le> n)"
| "strand_mark n _ = True"

definition order_ok :: "sse_stream \<Rightarrow> bool" where
  "order_ok s \<longleftrightarrow>
     ss_accepted s = handled s @ concat (map posted_frame (ss_posted s)) \<and>
     (ss_lost s \<noteq> [] \<longrightarrow> \<not> ss_writing s \<and> (\<not> ss_open s \<or> (\<exists>ms. ss_strand s = Close # ms))) \<and>
     (ss_dropped s \<noteq> [] \<longrightarrow> \<not> ss_open s) \<and> concat (map pushed (tl (ss_strand s))) = []"

definition marks_kept :: "sse_stream \<Rightarrow> bool" where
  "marks_kept s \<longleftrightarrow>
     marks_ok (length (handled s)) (ss_posted s) \<and> list_all (strand_mark (length (handled s))) (ss_strand s) \<and>
     ss_mark s \<le> length (handled s) \<and> (\<forall>n. ss_drained s = Some n \<longrightarrow> n \<le> length (ss_sent s))"

lemma pushed_Calls [simp]: "concat (map (pushed \<circ> Call) cs) = []"
  by (induction cs) simp_all

lemma pushed_batch [simp]: "concat (map pushed (batch_work dump b)) = []"
  by (auto simp: batch_work_def)

lemma pushed_tail: "concat (map pushed ns) = [] \<Longrightarrow> concat (map pushed ms) = [] \<Longrightarrow> concat (map pushed (tl (ns @ ms))) = []"
  by (cases ns) (auto dest: in_tl)

lemma call_accepts:
  assumes "exec_call dump r c s = (new, k, s')"
  shows "\<exists>fs. ss_accepted s' = ss_accepted s @ fs \<and>
      concat (map posted_frame (ss_posted s')) = concat (map posted_frame (ss_posted s)) @ fs"
    and "ss_open s' \<longrightarrow> ss_open s"
  using assms by (cases c; auto simp: post_def Let_def split: if_splits option.splits)+

lemma strand_facts:
  assumes "order_ok s" and "bytes_ok s" and "ss_strand s = m # ms"
  shows "concat (map pushed ms) = []" and "ss_open s \<longrightarrow> ss_dropped s = []"
    and "ss_open s \<and> m \<noteq> Close \<longrightarrow> ss_lost s = []"
    and "m = Written ok \<longrightarrow> ss_writing s \<and> ss_lost s = [] \<and> ss_queue s \<noteq> []"
  using assms by (auto simp: order_ok_def bytes_ok_def simp del: concat_eq_Nil_conv)

lemma micro_keeps:
  assumes "exec_micro dump src m s = (new, s')"
  shows "ss_accepted s' = ss_accepted s" "ss_posted s' = ss_posted s" "concat (map pushed new) = []"
    "ss_open s' \<longrightarrow> ss_open s" "m = Close \<longrightarrow> \<not> ss_open s'"
    "m \<noteq> WriteNext \<longrightarrow> ss_drained s' = ss_drained s" "(\<forall>k. m \<noteq> SetFinished k) \<longrightarrow> ss_mark s' = ss_mark s"
    "(\<forall>ok. m \<noteq> Written ok) \<longrightarrow> ss_lost s' = ss_lost s \<and> ss_sent s' = ss_sent s"
    "\<exists>gs. ss_sent s' = ss_sent s @ gs"
    "(\<forall>f. m \<noteq> Push f) \<longrightarrow> ss_dropped s' = ss_dropped s"
    "m \<noteq> WriteNext \<and> (\<forall>ok. m \<noteq> Written ok) \<longrightarrow> ss_writing s' = ss_writing s"
    "(\<forall>f. m \<noteq> Push f) \<and> (\<forall>ok. m \<noteq> Written ok) \<longrightarrow> ss_queue s' = ss_queue s"
    "\<forall>k. SetFinished k \<notin> set new"
proof -
  have "SetFinished k \<notin> set (batch_work dump b)" for k b by (auto simp: batch_work_def)
  then show "ss_accepted s' = ss_accepted s" "ss_posted s' = ss_posted s" "concat (map pushed new) = []"
    "ss_open s' \<longrightarrow> ss_open s" "m = Close \<longrightarrow> \<not> ss_open s'"
    "m \<noteq> WriteNext \<longrightarrow> ss_drained s' = ss_drained s" "(\<forall>k. m \<noteq> SetFinished k) \<longrightarrow> ss_mark s' = ss_mark s"
    "(\<forall>ok. m \<noteq> Written ok) \<longrightarrow> ss_lost s' = ss_lost s \<and> ss_sent s' = ss_sent s"
    "\<exists>gs. ss_sent s' = ss_sent s @ gs"
    "(\<forall>f. m \<noteq> Push f) \<longrightarrow> ss_dropped s' = ss_dropped s"
    "m \<noteq> WriteNext \<and> (\<forall>ok. m \<noteq> Written ok) \<longrightarrow> ss_writing s' = ss_writing s"
    "(\<forall>f. m \<noteq> Push f) \<and> (\<forall>ok. m \<noteq> Written ok) \<longrightarrow> ss_queue s' = ss_queue s"
    "\<forall>k. SetFinished k \<notin> set new"
    using assms by (cases m; simp add: written_def del: concat_eq_Nil_conv split: if_splits list.splits; force)+
qed

lemma micro_handled:
  assumes e: "exec_micro dump src m s = (new, s')" and st: "ss_strand s = m # ms" and m: "\<forall>c. m \<noteq> Call c"
    and ok: "order_ok s" "bytes_ok s"
  shows "handled (s'\<lparr>ss_strand := new @ ms\<rparr>) = handled s"
proof -
  note k = micro_keeps [OF e] and f = strand_facts [OF ok st]
  show ?thesis
  proof (cases "(\<exists>f. m = Push f) \<or> (\<exists>ok. m = Written ok)")
    case True
    then show ?thesis
    proof
      assume "\<exists>f. m = Push f"
      then show ?thesis using e f(1-3) st by (cases "ss_open s") (auto simp: handled_def simp del: concat_eq_Nil_conv)
    next
      assume "\<exists>ok. m = Written ok"
      then obtain b where b: "m = Written b" by blast
      then obtain q qs where "ss_queue s = q # qs" "ss_lost s = []" using f(4) [of b] by (cases "ss_queue s") auto
      then show ?thesis using e f(1) st b by (cases b) (auto simp: handled_def written_def simp del: concat_eq_Nil_conv)
    qed
  next
    case False
    then have "pushed m = []" by (cases m) simp_all
    then show ?thesis using False st k(3,8,10,12) f(1) by (simp add: handled_def del: concat_eq_Nil_conv)
  qed
qed

lemma micro_order:
  assumes e: "exec_micro dump src m s = (new, s')" and st: "ss_strand s = m # ms" and m: "\<forall>c. m \<noteq> Call c"
    and ok: "order_ok s" "bytes_ok s"
  shows "order_ok (s'\<lparr>ss_strand := new @ ms\<rparr>)"
proof -
  note k = micro_keeps [OF e] and f = strand_facts [OF ok st] and h = micro_handled [OF e st m ok]
  have lost: "ss_lost s' \<noteq> [] \<longrightarrow> \<not> ss_writing s' \<and> (\<not> ss_open s' \<or> (\<exists>ns. new @ ms = Close # ns))"
  proof (cases "\<exists>b. m = Written b")
    case True
    then obtain b where b: "m = Written b" by blast
    then obtain q qs where "ss_queue s = q # qs" "ss_lost s = []" using f(4) [of b] by (cases "ss_queue s") auto
    then show ?thesis using e b by (cases b) (auto simp: written_def)
  next
    case False
    then have same: "ss_lost s' = ss_lost s" using k(8) by blast
    show ?thesis
    proof (cases "ss_open s \<and> m \<noteq> Close")
      case True
      then show ?thesis using same f(3) by simp
    next
      case closed: False
      have "ss_lost s \<noteq> [] \<longrightarrow> \<not> ss_writing s" using ok(1) by (simp add: order_ok_def)
      moreover have "ss_writing s' = ss_writing s" using e False closed by (cases m) (auto split: if_splits)
      ultimately show ?thesis using same closed k(4,5) by auto
    qed
  qed
  have dropped: "ss_dropped s' \<noteq> [] \<longrightarrow> \<not> ss_open s'"
    using e k(4,10) f(2) by (cases "\<exists>q. m = Push q") (auto split: if_splits)
  show ?thesis
    using h ok(1) lost dropped k(1,2) pushed_tail [OF k(3) f(1)]
    by (auto simp: order_ok_def simp del: concat_eq_Nil_conv)
qed

text \<open>Accesses of any thread only append to what is posted.\<close>

lemma call_order:
  assumes e: "exec_call dump r c s = (new, k, s')" and ok: "order_ok s"
    and same: "handled t = handled s" "ss_posted t = ss_posted s'" "ss_accepted t = ss_accepted s'" "ss_lost t = ss_lost s"
      "ss_writing t = ss_writing s" "ss_open t = ss_open s'" "ss_dropped t = ss_dropped s"
      "\<forall>ms. ss_strand s = Close # ms \<longrightarrow> ss_strand t = ss_strand s" "concat (map pushed (tl (ss_strand t))) = []"
  shows "order_ok t"
  using call_accepts [OF e] ok same by (auto simp: order_ok_def simp del: concat_eq_Nil_conv)

lemma order_ok_step: "sstep dump src s s' \<Longrightarrow> bytes_ok s \<Longrightarrow> order_ok s \<Longrightarrow> order_ok s'"
proof (induction rule: sstep.induct)
  case (thread i s c cs r new k s')
  show ?case
    by (rule call_order [OF thread.hyps(3) thread.prems(2)])
      (use thread.prems in \<open>simp_all add: handled_def exec_call_keeps [OF thread.hyps(3)] order_ok_def del: concat_eq_Nil_conv\<close>)
next
  case (strand_call s c ms r new k s')
  have p: "concat (map pushed ms) = []" using strand_call by (simp add: order_ok_def del: concat_eq_Nil_conv)
  have "concat (map pushed (tl (map Call new @ ms))) = []" "concat (map pushed (tl (map Call new))) = []"
    using pushed_tail [of "map Call new" ms] pushed_tail [of "map Call new" "[]"] p by simp_all
  then show ?case
    by (intro call_order [OF strand_call.hyps(2) strand_call.prems(2)])
      (use strand_call.hyps(1) p in \<open>simp_all add: handled_def exec_call_keeps [OF strand_call.hyps(2)] del: concat_eq_Nil_conv\<close>)
next
  case (strand_work s m ms new s')
  then show ?case using micro_order by blast
next
  case (dispatch s h hs)
  have "pushed (handler_start h) = posted_frame h" by (cases h) simp_all
  then show ?case using dispatch by (auto simp: order_ok_def handled_def)
qed (auto simp: order_ok_def handled_def post_def)

lemma marks_ok_append: "marks_ok n (hs @ gs) \<longleftrightarrow> marks_ok n hs \<and> marks_ok (n + length (concat (map posted_frame hs))) gs"
  by (induction hs arbitrary: n) (simp_all add: add.assoc)

lemma call_marks:
  assumes "exec_call dump r c s = (new, k, s')" and "order_ok s" and "marks_ok (length (handled s)) (ss_posted s)"
  shows "marks_ok (length (handled s)) (ss_posted s')"
  using assms by (cases c) (auto simp: post_def marks_ok_append order_ok_def Let_def split: if_splits option.splits)

lemma strand_mark_plain: "\<forall>k. m \<noteq> SetFinished k \<Longrightarrow> strand_mark n m"
  by (cases m) simp_all

lemma micro_marks:
  assumes e: "exec_micro dump src m s = (new, s')" and st: "ss_strand s = m # ms" and m: "\<forall>c. m \<noteq> Call c"
    and ok: "order_ok s" "bytes_ok s" and mk: "marks_kept s"
  shows "marks_kept (s'\<lparr>ss_strand := new @ ms\<rparr>)"
proof -
  note k = micro_keeps [OF e] and f = strand_facts [OF ok st] and h = micro_handled [OF e st m ok]
  have 1: "list_all (strand_mark (length (handled s))) (new @ ms)"
    using mk st k(13) by (auto simp: marks_kept_def list_all_iff intro: strand_mark_plain)
  have 2: "ss_mark s' \<le> length (handled s)"
    using mk st e k(7) by (cases "\<exists>n. m = SetFinished n") (auto simp: marks_kept_def)
  have 3: "n \<le> length (ss_sent s')" if "ss_drained s' = Some n" for n
  proof (cases "ss_drained s' = ss_drained s")
    case True
    then have "n \<le> length (ss_sent s)" using mk that by (simp add: marks_kept_def)
    then show ?thesis using k(9) by auto
  next
    case False
    then have "m = WriteNext" using k(6) by blast
    with False e that have "n = ss_mark s \<and> ss_open s \<and> ss_queue s = [] \<and> ss_sent s' = ss_sent s"
      by (auto split: if_splits)
    then show ?thesis using mk f(1-3) st \<open>m = WriteNext\<close> by (auto simp: marks_kept_def handled_def simp del: concat_eq_Nil_conv)
  qed
  show ?thesis using 1 2 3 mk h k(2) by (simp add: marks_kept_def)
qed

lemma marks_step: "sstep dump src s s' \<Longrightarrow> bytes_ok s \<Longrightarrow> order_ok s \<Longrightarrow> marks_kept s \<Longrightarrow> marks_kept s'"
proof (induction rule: sstep.induct)
  case (thread i s c cs r new k s')
  then show ?case using call_marks [OF thread.hyps(3) thread.prems(2)]
    by (simp add: marks_kept_def handled_def exec_call_keeps [OF thread.hyps(3)])
next
  case (strand_call s c ms r new k s')
  have "handled (s'\<lparr>ss_strand := map Call new @ (if k then ms else [])\<rparr>) = handled s"
    using strand_call by (auto simp: handled_def order_ok_def exec_call_keeps [OF strand_call.hyps(2)])
  moreover have "list_all (strand_mark n) (map Call new)" for n by (simp add: list_all_iff)
  ultimately show ?case using strand_call call_marks [OF strand_call.hyps(2) strand_call.prems(2)]
    by (simp add: marks_kept_def exec_call_keeps [OF strand_call.hyps(2)])
next
  case (strand_work s m ms new s')
  then show ?case using micro_marks by blast
next
  case (dispatch s h hs)
  have "length (handled (s\<lparr>ss_posted := hs, ss_strand := [handler_start h]\<rparr>)) = length (handled s) + length (posted_frame h)"
    using dispatch by (cases h) (simp_all add: handled_def)
  then show ?case using dispatch by (cases h) (auto simp: marks_kept_def)
qed (auto simp: marks_kept_def handled_def post_def marks_ok_append)

subsection \<open>Lemmas: one poll at a time\<close>

text \<open>
  At most one place carries the next poll of the source: the stream before it begins, the header
  under way, a posted or running handler, a poll worker or the timer. The source's frames that are
  not yet accepted are all there.
\<close>

definition offered :: "dumper \<Rightarrow> sse_stream \<Rightarrow> frame list" where
  "offered dump s = concat (map (batch_frames dump) (ss_batches s))"

definition from_source :: "frame \<Rightarrow> bool" where
  "from_source f \<longleftrightarrow> frame_origin f = FromSource"

fun call_chain :: "dumper \<Rightarrow> call \<Rightarrow> frame list" where
  "call_chain dump (MTest must f) = filter from_source [f]"
| "call_chain dump (MAdd must f) = filter from_source [f]"
| "call_chain dump (MPost f) = filter from_source [f]"
| "call_chain dump (MPostBatch b) = batch_frames dump b"
| "call_chain dump _ = []"

fun call_polls :: "call \<Rightarrow> bool" where
  "call_polls (MTest must f) = from_source f"
| "call_polls (MAdd must f) = from_source f"
| "call_polls (MPost f) = from_source f"
| "call_polls (MPostBatch b) = True"
| "call_polls MSource = True"
| "call_polls _ = False"

fun micro_chain :: "dumper \<Rightarrow> micro \<Rightarrow> frame list" where
  "micro_chain dump (Call c) = call_chain dump c"
| "micro_chain dump (Batch b) = batch_frames dump b"
| "micro_chain dump _ = []"

fun micro_polls :: "micro \<Rightarrow> bool" where
  "micro_polls (Call c) = call_polls c"
| "micro_polls m = (m \<in> {Begin, SchedulePoll, ArmPoll} \<or> (\<exists>ok. m = HeaderDone ok) \<or> (\<exists>b. m = Batch b))"

fun posted_chain :: "dumper \<Rightarrow> posted \<Rightarrow> frame list" where
  "posted_chain dump (HBatch b) = batch_frames dump b"
| "posted_chain dump _ = []"

fun posted_polls :: "posted \<Rightarrow> nat" where
  "posted_polls HBegin = 1"
| "posted_polls (HBatch b) = 1"
| "posted_polls _ = 0"

definition carries :: "('a \<Rightarrow> bool) \<Rightarrow> 'a list \<Rightarrow> nat" where
  "carries P xs = of_bool (list_ex P xs)"

definition polls :: "sse_stream \<Rightarrow> nat" where
  "polls s = of_bool (ss_phase s = Reserved) + of_bool (ss_header s = HWriting) + of_bool (ss_polling s) +
     load_of posted_polls (ss_posted s) + carries micro_polls (ss_strand s) + load_of (carries call_polls) (ss_threads s)"

definition chain :: "dumper \<Rightarrow> sse_stream \<Rightarrow> frame list" where
  "chain dump s = concat (map (micro_chain dump) (ss_strand s)) @ concat (map (posted_chain dump) (ss_posted s)) @
     concat (map (\<lambda>t. concat (map (call_chain dump) t)) (ss_threads s))"

text \<open>Only a series of frames that must all be sent leaves more of the poll behind it.\<close>

fun solo_call :: "call \<Rightarrow> bool" where
  "solo_call (MTest must f) = (\<not> must \<and> from_source f)"
| "solo_call (MAdd must f) = (\<not> must \<and> from_source f)"
| "solo_call (MPost f) = False"
| "solo_call c = call_polls c"

fun solo :: "micro \<Rightarrow> bool" where
  "solo (Call c) = solo_call c"
| "solo m = micro_polls m"

fun calm :: "('a \<Rightarrow> bool) \<Rightarrow> ('a \<Rightarrow> bool) \<Rightarrow> 'a list \<Rightarrow> bool" where
  "calm P Q [] = True"
| "calm P Q (x # xs) = ((P x \<longrightarrow> \<not> list_ex Q xs) \<and> calm P Q xs)"

definition chain_ok :: "dumper \<Rightarrow> sse_stream \<Rightarrow> bool" where
  "chain_ok dump s \<longleftrightarrow> polls s \<le> 1 \<and> calm solo micro_polls (ss_strand s) \<and>
     (\<forall>t \<in> set (ss_threads s). calm solo_call call_polls t) \<and>
     (offered dump s = filter from_source (ss_accepted s) @ chain dump s \<or>
      polls s = 0 \<and> prefix (filter from_source (ss_accepted s)) (offered dump s))"

lemma offered_fields [simp]:
  "offered dump (s\<lparr>ss_strand := ms\<rparr>) = offered dump s" "offered dump (s\<lparr>ss_threads := ts\<rparr>) = offered dump s"
  "offered dump (s\<lparr>ss_posted := hs\<rparr>) = offered dump s"
  by (simp_all add: offered_def)

lemma calm_append:
  "calm P Q (xs @ ys) \<longleftrightarrow> calm P Q xs \<and> calm P Q ys \<and> (list_ex Q ys \<longrightarrow> \<not> list_ex P xs)"
  by (induction xs) (auto simp: list_ex_iff)

lemma calm_Calls [simp]: "calm solo micro_polls (map Call cs) = calm solo_call call_polls cs"
proof (induction cs)
  case (Cons c cs)
  have "list_ex micro_polls (map Call cs) = list_ex call_polls cs" by (simp add: list_ex_iff)
  then show ?case using Cons by simp
qed simp

lemma carries_simps [simp]:
  "carries P [] = 0" "carries P (xs @ ys) = max (carries P xs) (carries P ys)"
  "carries micro_polls (map Call cs) = carries call_polls cs" "carries P xs = 0 \<longleftrightarrow> \<not> list_ex P xs"
  "carries P xs \<le> 1"
  by (auto simp: carries_def list_ex_iff)

lemma quiet_chain:
  "\<not> list_ex call_polls cs \<Longrightarrow> concat (map (call_chain dump) cs) = []"
  "\<not> list_ex micro_polls ms \<Longrightarrow> concat (map (micro_chain dump) ms) = []"
  "load_of posted_polls hs = 0 \<Longrightarrow> concat (map (posted_chain dump) hs) = []"
proof -
  have c: "call_chain dump c \<noteq> [] \<Longrightarrow> call_polls c" for c by (cases c) (auto split: if_splits)
  have "micro_chain dump m \<noteq> [] \<Longrightarrow> micro_polls m" for m using c by (cases m) auto
  then show "\<not> list_ex micro_polls ms \<Longrightarrow> concat (map (micro_chain dump) ms) = []" by (auto simp: list_ex_iff)
  show "\<not> list_ex call_polls cs \<Longrightarrow> concat (map (call_chain dump) cs) = []" using c by (auto simp: list_ex_iff)
  have "posted_polls h = 0 \<Longrightarrow> posted_chain dump h = []" for h by (cases h) auto
  then show "load_of posted_polls hs = 0 \<Longrightarrow> concat (map (posted_chain dump) hs) = []"
    by (induction hs) auto
qed

lemma batch_work_chain:
  "concat (map (micro_chain dump) (batch_work dump b)) = batch_frames dump b"
  "calm solo micro_polls (batch_work dump b)"
proof -
  have src: "f \<in> set (batch_frames dump b) \<Longrightarrow> from_source f" for f
    by (auto simp: batch_frames_def from_source_def split: if_splits)
  have 1: "\<forall>f \<in> set fs. from_source f \<Longrightarrow> concat (map (micro_chain dump) (map (\<lambda>f. Call (MTest must f)) fs)) = fs" for must fs
    by (induction fs) simp_all
  have 2: "calm solo micro_polls (map (\<lambda>f. Call (MTest True f)) fs)" "\<not> list_ex solo (map (\<lambda>f. Call (MTest True f)) fs)" for fs
    by (induction fs) simp_all
  show "concat (map (micro_chain dump) (batch_work dump b)) = batch_frames dump b"
    using 1 [of "batch_frames dump b"] src by (auto simp: batch_work_def simp del: map_map)
  show "calm solo micro_polls (batch_work dump b)"
    by (auto simp: batch_work_def batch_frames_def calm_append 2 simp del: map_map)
qed

text \<open>An access of a thread that carries no poll, and of one that does.\<close>

lemma call_quiet:
  assumes "exec_call dump r c s = (new, k, s')" and "\<not> call_polls c"
  shows "filter from_source (ss_accepted s') = filter from_source (ss_accepted s)" "offered dump s' = offered dump s"
    "concat (map (posted_chain dump) (ss_posted s')) = concat (map (posted_chain dump) (ss_posted s))"
    "load_of posted_polls (ss_posted s') = load_of posted_polls (ss_posted s)" "\<not> list_ex call_polls new"
  using assms by (cases c; auto simp: offered_def post_def Let_def split: if_splits option.splits)+

lemma call_busy:
  assumes e: "exec_call dump r c s = (new, k, s')" and rest: "solo_call c \<longrightarrow> \<not> R" "\<not> R \<longrightarrow> X = []"
    and alone: "load_of posted_polls (ss_posted s) = 0"
    and eq: "offered dump s = filter from_source (ss_accepted s) @ call_chain dump c @ X"
  defines "P \<equiv> concat (map (posted_chain dump) (ss_posted s'))"
    and "Y \<equiv> concat (map (call_chain dump) new) @ (if k then X else [])"
    and "on \<equiv> list_ex call_polls new \<or> k \<and> R"
  shows "of_bool on + load_of posted_polls (ss_posted s') \<le> (1 :: nat)"
    "calm solo_call call_polls new \<and> (k \<and> R \<longrightarrow> \<not> list_ex solo_call new)" "P @ Y = Y @ P"
    "offered dump s' = filter from_source (ss_accepted s') @ Y @ P \<or>
      \<not> on \<and> load_of posted_polls (ss_posted s') = 0 \<and> prefix (filter from_source (ss_accepted s')) (offered dump s')"
proof -
  note q = quiet_chain(3) [OF alone, of dump]
  show 1: "of_bool on + load_of posted_polls (ss_posted s') \<le> (1 :: nat)"
    "calm solo_call call_polls new \<and> (k \<and> R \<longrightarrow> \<not> list_ex solo_call new)"
    "offered dump s' = filter from_source (ss_accepted s') @ Y @ P \<or>
      \<not> on \<and> load_of posted_polls (ss_posted s') = 0 \<and> prefix (filter from_source (ss_accepted s')) (offered dump s')"
    unfolding P_def Y_def on_def using e alone eq rest q
    by (cases c; auto simp: offered_def post_def Let_def simp del: concat_eq_Nil_conv split: if_splits option.splits)+
  have "\<not> on \<longrightarrow> Y = []" using rest(2) quiet_chain(1) [of new dump] by (auto simp: on_def Y_def simp del: concat_eq_Nil_conv)
  moreover have "load_of posted_polls (ss_posted s') = 0 \<longrightarrow> P = []" using quiet_chain(3) by (simp add: P_def del: concat_eq_Nil_conv)
  ultimately show "P @ Y = Y @ P" using 1(1) by (cases on) auto
qed

lemma threads_quiet:
  "load_of (carries call_polls) ts = 0 \<Longrightarrow> concat (map (\<lambda>t. concat (map (call_chain dump) t)) ts) = []"
  by (induction ts) (auto simp: quiet_chain(1) simp del: concat_eq_Nil_conv)

lemma concat_one:
  "i < length us \<Longrightarrow> concat (map g us) = [] \<Longrightarrow> concat (map g (us[i := t])) = g t"
  by (induction us arbitrary: i) (auto split: nat.splits)

lemma concat_same: "i < length us \<Longrightarrow> g t = g (us ! i) \<Longrightarrow> concat (map g (us[i := t])) = concat (map g us)"
  by (metis list_update_id map_update)

lemma calm_if_quiet: "\<not> list_ex Q xs \<Longrightarrow> calm P Q xs"
  by (induction xs) auto

lemma carries_pos: "list_ex P xs \<Longrightarrow> carries P xs = 1"
  by (simp add: carries_def)

lemma thread_chain:
  assumes ok: "chain_ok dump s" and i: "i < length (ss_threads s)" "ss_threads s ! i = c # cs"
    and e: "exec_call dump r c s = (new, k, s')"
  shows "chain_ok dump (s'\<lparr>ss_threads := (ss_threads s')[i := new @ (if k then cs else [])]\<rparr>)"
proof -
  let ?t = "new @ (if k then cs else [])"
  let ?s = "s'\<lparr>ss_threads := (ss_threads s')[i := ?t]\<rparr>"
  let ?g = "\<lambda>t. concat (map (call_chain dump) t)"
  note keeps = exec_call_keeps [OF e]
  have upd: "load_of (carries call_polls) ((ss_threads s)[i := t]) + carries call_polls (c # cs) =
      load_of (carries call_polls) (ss_threads s) + carries call_polls t" for t
    using load_of_update [OF i(1), of "carries call_polls" t] i(2) by simp
  have calm: "calm solo_call call_polls (c # cs)"
    using ok i(2) nth_mem [OF i(1)] by (simp add: chain_ok_def del: calm.simps)
  have others: "\<forall>t \<in> set ((ss_threads s)[i := t']). calm solo_call call_polls t" if "calm solo_call call_polls t'" for t'
    using ok that by (auto simp: chain_ok_def dest!: subsetD [OF set_update_subset_insert])
  show ?thesis
  proof (cases "list_ex call_polls (c # cs)")
    case True
    note one = carries_pos [OF True]
    have le: "polls s \<le> 1" using ok by (simp add: chain_ok_def)
    have alone: "load_of posted_polls (ss_posted s) = 0" "carries micro_polls (ss_strand s) = 0"
      "load_of (carries call_polls) ((ss_threads s)[i := []]) = 0" "ss_phase s \<noteq> Reserved" "ss_header s \<noteq> HWriting" "\<not> ss_polling s"
      using le upd [of "[]"] one by (auto simp: polls_def simp del: carries_simps(4))
    note tq = threads_quiet [OF alone(3), of dump]
    have sq: "concat (map (micro_chain dump) (ss_strand s)) = []" using alone(2) quiet_chain(2) by (simp del: concat_eq_Nil_conv)
    have one_thread: "concat (map ?g ((ss_threads s)[i := t])) = ?g t" for t
      using concat_one [of i "(ss_threads s)[i := []]" ?g t] i(1) tq by simp
    have "chain dump s = ?g (c # cs)"
      using one_thread [of "c # cs"] list_update_id [of "ss_threads s" i] i(2) quiet_chain(3) [OF alone(1), of dump] sq
      by (simp add: chain_def del: concat_eq_Nil_conv)
    moreover have "polls s \<noteq> 0" using upd [of "[]"] one alone(3) by (simp add: polls_def)
    ultimately have eq: "offered dump s = filter from_source (ss_accepted s) @ call_chain dump c @ ?g cs" using ok by (auto simp: chain_ok_def)
    have "solo_call c \<longrightarrow> \<not> list_ex call_polls cs" "\<not> list_ex call_polls cs \<longrightarrow> ?g cs = []"
      using calm quiet_chain(1) by (simp_all del: concat_eq_Nil_conv)
    note cb = call_busy [OF e this alone(1) eq]
    have p: "polls ?s = carries call_polls ?t + load_of posted_polls (ss_posted s')"
      using alone upd [of ?t] upd [of "[]"] one by (simp add: polls_def keeps del: carries_simps(2,4))
    have c: "chain dump ?s = concat (map (posted_chain dump) (ss_posted s')) @ ?g new @ (if k then ?g cs else [])"
      using one_thread [of ?t] sq by (simp add: chain_def keeps del: concat_eq_Nil_conv)
    have t: "calm solo_call call_polls ?t" using cb(2) calm by (simp add: calm_append)
    have "carries call_polls ?t = of_bool (list_ex call_polls new \<or> k \<and> list_ex call_polls cs)" by (auto simp: carries_def)
    then show ?thesis using cb(1,3,4) p c others [OF t] ok by (auto simp: chain_ok_def keeps)
  next
    case False
    then have "\<not> call_polls c" by simp
    note q = call_quiet [OF e this]
    have nt: "\<not> list_ex call_polls ?t" using False q(5) by (auto simp: list_ex_iff)
    have "concat (map ?g ((ss_threads s)[i := ?t])) = concat (map ?g (ss_threads s))"
      using concat_same [of i "ss_threads s" ?g ?t] i quiet_chain(1) [OF nt, of dump] quiet_chain(1) [OF False, of dump]
      by (simp del: concat_eq_Nil_conv)
    then have "chain dump ?s = chain dump s" using q(3) by (simp add: chain_def keeps)
    moreover have "polls ?s = polls s" using q(4) False nt upd [of ?t] by (simp add: polls_def keeps carries_def)
    ultimately show ?thesis using ok q(1,2) others [OF calm_if_quiet [OF nt]] by (simp add: chain_ok_def keeps)
  qed
qed

lemma strand_call_chain:
  assumes ok: "chain_ok dump s" and st: "ss_strand s = Call c # ms" and e: "exec_call dump r c s = (new, k, s')"
  shows "chain_ok dump (s'\<lparr>ss_strand := map Call new @ (if k then ms else [])\<rparr>)"
proof -
  let ?t = "map Call new @ (if k then ms else [])"
  let ?s = "s'\<lparr>ss_strand := ?t\<rparr>"
  let ?g = "\<lambda>ms. concat (map (micro_chain dump) ms)"
  note keeps = exec_call_keeps [OF e]
  have calm: "solo_call c \<longrightarrow> \<not> list_ex micro_polls ms" "calm solo micro_polls ms" using ok st by (simp_all add: chain_ok_def)
  have polls_new: "list_ex micro_polls (map Call new) = list_ex call_polls new" by (simp add: list_ex_iff)
  have solo_new: "list_ex solo (map Call new) = list_ex solo_call new" by (simp add: list_ex_iff)
  have chain_new: "?g (map Call new) = concat (map (call_chain dump) new)" by (simp add: comp_def)
  show ?thesis
  proof (cases "list_ex micro_polls (ss_strand s)")
    case True
    note one = carries_pos [OF True]
    have le: "polls s \<le> 1" using ok by (simp add: chain_ok_def)
    have alone: "load_of posted_polls (ss_posted s) = 0" "load_of (carries call_polls) (ss_threads s) = 0"
      "ss_phase s \<noteq> Reserved" "ss_header s \<noteq> HWriting" "\<not> ss_polling s"
      using le one by (auto simp: polls_def)
    note tq = threads_quiet [OF alone(2), of dump] and pq = quiet_chain(3) [OF alone(1), of dump]
    have "polls s \<noteq> 0" using one by (simp add: polls_def)
    then have eq: "offered dump s = filter from_source (ss_accepted s) @ call_chain dump c @ ?g ms"
      using ok st tq pq by (auto simp: chain_ok_def chain_def simp del: concat_eq_Nil_conv)
    have "\<not> list_ex micro_polls ms \<longrightarrow> ?g ms = []" using quiet_chain(2) by (simp del: concat_eq_Nil_conv)
    note cb = call_busy [OF e calm(1) this alone(1) eq]
    have p: "polls ?s = carries micro_polls ?t + load_of posted_polls (ss_posted s')" using alone by (simp add: polls_def keeps)
    have c: "chain dump ?s = concat (map (call_chain dump) new) @ (if k then ?g ms else []) @ concat (map (posted_chain dump) (ss_posted s'))"
      using tq chain_new by (simp add: chain_def keeps del: concat_eq_Nil_conv)
    have "carries micro_polls ?t = of_bool (list_ex call_polls new \<or> k \<and> list_ex micro_polls ms)"
      using polls_new by (auto simp: carries_def)
    moreover have "calm solo micro_polls ?t" using cb(2) calm(2) solo_new by (auto simp: calm_append)
    ultimately show ?thesis using cb(1,4) p c ok by (auto simp: chain_ok_def keeps)
  next
    case False
    then have "\<not> call_polls c" "\<not> list_ex micro_polls ms" using st by simp_all
    note q = call_quiet [OF e this(1)]
    have nt: "\<not> list_ex micro_polls ?t" using \<open>\<not> list_ex micro_polls ms\<close> q(5) polls_new by simp
    have "?g ?t = ?g (ss_strand s)" by (rule trans [OF quiet_chain(2) [OF nt] quiet_chain(2) [OF False, symmetric]])
    then have "chain dump ?s = chain dump s" using q(3) by (simp add: chain_def keeps)
    moreover have "polls ?s = polls s" using q(4) False nt by (simp add: polls_def keeps carries_def)
    ultimately show ?thesis using ok q(1,2) calm_if_quiet [OF nt] by (simp add: chain_ok_def keeps)
  qed
qed

lemma solo_polls: "solo m \<Longrightarrow> micro_polls m"
proof -
  have "solo_call c \<Longrightarrow> call_polls c" for c by (cases c) simp_all
  then show "solo m \<Longrightarrow> micro_polls m" by (cases m) simp_all
qed

lemma micro_batches: "exec_micro dump src m s = (new, s') \<Longrightarrow> ss_batches s' = ss_batches s"
  by (cases m) (auto simp: written_def split: if_splits list.splits)

lemma work_quiet:
  assumes "exec_micro dump src m s = (new, s')" and "\<not> micro_polls m" and "\<forall>c. m \<noteq> Call c"
  shows "\<not> list_ex micro_polls new" "ss_threads s' = ss_threads s" "ss_polling s' = ss_polling s" "ss_header s' = ss_header s"
    "ss_phase s' = ss_phase s" "offered dump s' = offered dump s"
  using assms by (cases m; auto simp: written_def keepalive_def from_source_def offered_def split: if_splits list.splits)+

text \<open>The poll moves on: to the header, the worker, the frames or the timer.\<close>

lemma work_busy:
  assumes e: "exec_micro dump src m s = (new, s')" and m: "micro_polls m" "\<forall>c. m \<noteq> Call c"
    and alone: "ss_phase s \<noteq> Reserved" "ss_header s \<noteq> HWriting" "\<not> ss_polling s" "load_of posted_polls (ss_posted s) = 0"
      "load_of (carries call_polls) (ss_threads s) = 0" "\<not> list_ex micro_polls ms"
  shows "polls (s'\<lparr>ss_strand := new @ ms\<rparr>) \<le> 1" "calm solo micro_polls (new @ ms)"
    "\<forall>t \<in> set (ss_threads s') - set (ss_threads s). calm solo_call call_polls t" "offered dump s' = offered dump s"
    "chain dump (s'\<lparr>ss_strand := new @ ms\<rparr>) = micro_chain dump m \<or> polls (s'\<lparr>ss_strand := new @ ms\<rparr>) = 0"
proof -
  note q = threads_quiet [OF alone(5), of dump] quiet_chain(3) [OF alone(4), of dump] quiet_chain(2) [OF alone(6), of dump]
  have ms: "calm solo micro_polls ms" "carries micro_polls ms = 0" using alone(6) by (simp_all add: calm_if_quiet)
  note bw = batch_work_chain [of dump] and c1 = carries_simps(5) [of micro_polls]
  show "polls (s'\<lparr>ss_strand := new @ ms\<rparr>) \<le> 1"
    using e m alone ms(2) c1
    by (cases m) (auto simp: polls_def carries_def split: if_splits)
  show "calm solo micro_polls (new @ ms)"
    using e m alone(6) ms(1) bw by (cases m) (auto simp: calm_append split: if_splits)
  show "\<forall>t \<in> set (ss_threads s') - set (ss_threads s). calm solo_call call_polls t"
    using e by (cases m) (auto simp: written_def split: if_splits list.splits)
  show "offered dump s' = offered dump s" using micro_batches [OF e] by (simp add: offered_def)
  show "chain dump (s'\<lparr>ss_strand := new @ ms\<rparr>) = micro_chain dump m \<or> polls (s'\<lparr>ss_strand := new @ ms\<rparr>) = 0"
    using e m alone ms(2) q bw(1)
    by (cases m) (auto simp: chain_def polls_def carries_def simp del: concat_eq_Nil_conv split: if_splits)
qed

lemma strand_work_chain:
  assumes ok: "chain_ok dump s" and st: "ss_strand s = m # ms" and m: "\<forall>c. m \<noteq> Call c"
    and e: "exec_micro dump src m s = (new, s')"
  shows "chain_ok dump (s'\<lparr>ss_strand := new @ ms\<rparr>)"
proof -
  note k = micro_keeps [OF e]
  have cm: "solo m \<longrightarrow> \<not> list_ex micro_polls ms" "calm solo micro_polls ms" using ok st by (simp_all add: chain_ok_def)
  show ?thesis
  proof (cases "micro_polls m")
    case True
    then have "list_ex micro_polls (ss_strand s)" and rest: "\<not> list_ex micro_polls ms" using st cm(1) m by (simp, cases m) auto
    note one = carries_pos [OF this(1)]
    have le: "polls s \<le> 1" using ok by (simp add: chain_ok_def)
    have alone: "ss_phase s \<noteq> Reserved" "ss_header s \<noteq> HWriting" "\<not> ss_polling s" "load_of posted_polls (ss_posted s) = 0"
      "load_of (carries call_polls) (ss_threads s) = 0"
      using le one by (auto simp: polls_def)
    have "polls s \<noteq> 0" using one by (simp add: polls_def)
    then have eq: "offered dump s = filter from_source (ss_accepted s) @ micro_chain dump m"
      using ok st threads_quiet [OF alone(5), of dump] quiet_chain(3) [OF alone(4), of dump] quiet_chain(2) [OF rest, of dump]
      by (auto simp: chain_ok_def chain_def simp del: concat_eq_Nil_conv)
    note w = work_busy [OF e True m alone rest]
    show ?thesis using w eq ok k(1) by (auto simp: chain_ok_def)
  next
    case False
    note w = work_quiet [OF e False m]
    have "micro_chain dump m = []" using False m by (cases m) auto
    then have "chain dump (s'\<lparr>ss_strand := new @ ms\<rparr>) = chain dump s"
      using st w(2) k(2) quiet_chain(2) [OF w(1), of dump] by (simp add: chain_def del: concat_eq_Nil_conv)
    moreover have "polls (s'\<lparr>ss_strand := new @ ms\<rparr>) = polls s" using w st k(2) False by (simp add: polls_def carries_def)
    moreover have "calm solo micro_polls (new @ ms)"
      using cm(2) calm_if_quiet [OF w(1)] w(1) by (auto simp: calm_append list_ex_iff dest: solo_polls)
    ultimately show ?thesis using ok w k(1) by (simp add: chain_ok_def)
  qed
qed

lemma chain_step: "sstep dump src s s' \<Longrightarrow> chain_ok dump s \<Longrightarrow> chain_ok dump s'"
proof (induction rule: sstep.induct)
  case (dispatch s h hs)
  have "micro_chain dump (handler_start h) = posted_chain dump h" "carries micro_polls [handler_start h] = posted_polls h"
    by (cases h; simp add: carries_def)+
  then show ?case using dispatch by (auto simp: chain_ok_def polls_def chain_def carries_def)
qed (simp_all add: thread_chain strand_call_chain strand_work_chain,
    auto simp: chain_ok_def polls_def chain_def post_def carries_def offered_def from_source_def)

definition stream_inv :: "dumper \<Rightarrow> sse_stream \<Rightarrow> bool" where
  "stream_inv dump s \<longleftrightarrow> bytes_ok s \<and> order_ok s \<and> marks_kept s \<and> chain_ok dump s"

interpretation es: step_system "sstep dump src" "stream_inv dump" for dump src
  by unfold_locales
    (simp add: stream_inv_def bytes_ok_step [of dump src] order_ok_step [of dump src] marks_step [of dump src] chain_step [of dump src])

lemma stream_inv_new: "stream_inv dump stream_new"
  by (simp add: stream_inv_def bytes_ok_def order_ok_def marks_kept_def chain_ok_def stream_new_def held_bytes_def
      buffered_bytes_def handled_def polls_def chain_def offered_def)

lemmas stream_run_inv = es.run_keeps [OF _ stream_inv_new]

text \<open>After the registry stopped, no stream is admitted.\<close>

lemma stopped_registry_refuses: "snd (registry_stop reg) = reg' \<Longrightarrow> fst (stream_reserve is_open i reg') = None"
  by (auto simp: registry_stop_def stream_reserve_def registry_add_def Let_def)

subsection \<open>A scheduler\<close>

text \<open>Chosen steps one after the other, for evaluating runs; what it reaches is reachable.\<close>

datatype choice = Activate | Send string | Finish | Cancel | Thread nat "event_batch option" | Strand "event_batch option" | Dispatch
  | HeaderReturned bool | WriteReturned bool | PollTimer

definition at_rest :: "sse_stream \<Rightarrow> bool" where
  "at_rest s \<longleftrightarrow> ss_strand s = []"

fun stream_do :: "dumper \<Rightarrow> bool \<Rightarrow> choice \<Rightarrow> sse_stream \<Rightarrow> sse_stream option" where
  "stream_do dump src Activate s =
     (if ss_phase s = Reserved then Some (post HBegin (s\<lparr>ss_phase := Active\<rparr>)) else None)"
| "stream_do dump src (Send text) s = Some (s\<lparr>ss_threads := ss_threads s @ [[MTest False (Frame FromCaller text)]]\<rparr>)"
| "stream_do dump src Finish s = Some (s\<lparr>ss_threads := ss_threads s @ [[MPostFinish]]\<rparr>)"
| "stream_do dump src Cancel s = Some (s\<lparr>ss_threads := ss_threads s @ [[MStore, MPostClose]]\<rparr>)"
| "stream_do dump src (Thread i r) s =
     (if i < length (ss_threads s) then
        case ss_threads s ! i of
          [] \<Rightarrow> None
        | c # cs \<Rightarrow>
            let (new, goes_on, s') = exec_call dump r c s
            in Some (s'\<lparr>ss_threads := (ss_threads s')[i := new @ (if goes_on then cs else [])]\<rparr>)
      else None)"
| "stream_do dump src (Strand r) s =
     (case ss_strand s of
        [] \<Rightarrow> None
      | Call c # ms \<Rightarrow>
          let (new, goes_on, s') = exec_call dump r c s
          in Some (s'\<lparr>ss_strand := map Call new @ (if goes_on then ms else [])\<rparr>)
      | m # ms \<Rightarrow> let (new, s') = exec_micro dump src m s in Some (s'\<lparr>ss_strand := new @ ms\<rparr>))"
| "stream_do dump src Dispatch s =
     (if at_rest s then
        case ss_posted s of [] \<Rightarrow> None | h # hs \<Rightarrow> Some (s\<lparr>ss_posted := hs, ss_strand := [handler_start h]\<rparr>)
      else None)"
| "stream_do dump src (HeaderReturned ok) s =
     (if at_rest s \<and> ss_header s = HWriting then Some (s\<lparr>ss_header := HReturned, ss_strand := [HeaderDone ok]\<rparr>) else None)"
| "stream_do dump src (WriteReturned ok) s =
     (if at_rest s \<and> ss_writing s then Some (s\<lparr>ss_strand := [Written ok]\<rparr>) else None)"
| "stream_do dump src PollTimer s =
     (if at_rest s \<and> ss_polling s then Some (s\<lparr>ss_polling := False, ss_strand := [SchedulePoll]\<rparr>) else None)"

lemma stream_do_step: "stream_do dump src x s = Some s' \<Longrightarrow> sstep dump src s s'"
proof (induction dump src x s rule: stream_do.induct)
  case (5 dump src i r s)
  then obtain c cs where i: "i < length (ss_threads s)" "ss_threads s ! i = c # cs" by (auto split: if_splits list.splits)
  obtain new k t where e: "exec_call dump r c s = (new, k, t)" by (rule prod_cases3)
  then show ?case using 5 sstep.thread [OF i e, of src] i by simp
next
  case (6 dump src r s)
  then obtain m ms where st: "ss_strand s = m # ms" by (cases "ss_strand s") auto
  show ?case
  proof (cases "\<exists>c. m = Call c")
    case True
    then obtain c where c: "ss_strand s = Call c # ms" using st by blast
    obtain new k t where e: "exec_call dump r c s = (new, k, t)" by (rule prod_cases3)
    then show ?thesis using 6 sstep.strand_call [OF c e, of src] c by simp
  next
    case False
    then have "s' = snd (exec_micro dump src m s)\<lparr>ss_strand := fst (exec_micro dump src m s) @ ms\<rparr>"
      using 6 st by (cases m) (auto simp: Let_def case_prod_unfold simp del: exec_micro.simps)
    then show ?thesis using sstep.strand_work [OF st _ surjective_pairing] False by blast
  qed
qed (auto simp: at_rest_def Let_def case_prod_unfold split: if_splits list.splits intro: sstep.intros)

primrec drive :: "dumper \<Rightarrow> bool \<Rightarrow> choice list \<Rightarrow> sse_stream \<Rightarrow> sse_stream option" where
  "drive dump src [] s = Some s"
| "drive dump src (x # xs) s = (case stream_do dump src x s of None \<Rightarrow> None | Some s' \<Rightarrow> drive dump src xs s')"

lemma drive_run: "drive dump src xs s = Some s' \<Longrightarrow> (sstep dump src)\<^sup>*\<^sup>* s s'"
  by (induction xs arbitrary: s)
    (auto split: option.splits dest: stream_do_step intro: converse_rtranclp_into_rtranclp)

subsection \<open>Properties\<close>

definition stream_reachable :: "dumper \<Rightarrow> bool \<Rightarrow> sse_stream \<Rightarrow> bool" where
  "stream_reachable dump src s \<longleftrightarrow> (sstep dump src)\<^sup>*\<^sup>* stream_new s"

lemma reachable_inv: "stream_reachable dump src s \<Longrightarrow> stream_inv dump s"
  unfolding stream_reachable_def by (rule stream_run_inv)

lemma sent_prefix: "order_ok s \<Longrightarrow> prefix (ss_sent s) (ss_accepted s)"
  by (simp add: order_ok_def handled_def)

text \<open>
  C8 Frames are delivered in order. Whatever the callers, the poll workers, the peer and the timers
  do, and however they interleave: the frames written to the peer are a prefix of the frames the
  stream accepted, without gaps or repetitions; those of the stream's source are a prefix of the
  frames in the batches the source gave, in the order it gave them, although each batch is read on
  another thread; and when the stream closed because it was finished and had nothing left to write,
  every frame accepted before the request to finish had been written.
\<close>

theorem stream_delivery:
  assumes "stream_reachable dump src s"
  shows "prefix (ss_sent s) (ss_accepted s) \<and> prefix (filter from_source (ss_sent s)) (offered dump s) \<and>
    (\<forall>n. ss_drained s = Some n \<longrightarrow> n \<le> length (ss_sent s) \<and> take n (ss_accepted s) = take n (ss_sent s))"
proof (intro conjI allI impI)
  have inv: "order_ok s" "marks_kept s" "chain_ok dump s" using reachable_inv [OF assms] by (simp_all add: stream_inv_def)
  show 1: "prefix (ss_sent s) (ss_accepted s)" using inv(1) by (rule sent_prefix)
  then show "prefix (filter from_source (ss_sent s)) (offered dump s)"
    using inv(3) filter_mono_prefix [of "ss_sent s" "ss_accepted s" from_source]
    by (auto simp: chain_ok_def intro: prefix_order.trans)
  show "n \<le> length (ss_sent s)" and "take n (ss_accepted s) = take n (ss_sent s)" if "ss_drained s = Some n" for n
    using 1 inv(2) that by (auto simp: marks_kept_def prefix_def)
qed

text \<open>A stream that sends the one event of its source and then closes.\<close>

definition one_event :: event_batch where
  "one_event = \<lparr>b_events = [\<lparr>ev_id = ''e:1'', ev_name = ''x'', ev_data = JNull\<rparr>], b_cursor = ''e:1'',
     b_resync_required = False, b_finished = True, b_truncated = False\<rparr>"

definition one_frame :: frame where
  "one_frame = Frame FromSource (encode_sse (\<lambda>_. ''{}'') \<lparr>ev_id = ''e:1'', ev_name = ''x'', ev_data = JNull\<rparr>)"

definition sample_choices :: "choice list" where
  "sample_choices =
     [Activate, Dispatch, Strand None, HeaderReturned True, Strand None, Strand None, Strand None, Strand None,
      Thread 0 (Some one_event), Thread 0 None, Dispatch, Strand None, Strand None, Strand None, Strand None, Strand None,
      Dispatch, Strand None, Strand None, Dispatch, Strand None, Strand None, WriteReturned True, Strand None, Strand None, Strand None]"

definition sample_end :: sse_stream where
  "sample_end = stream_new\<lparr>ss_phase := Active, ss_open := False, ss_header := HDone, ss_finished := True, ss_closed := True,
     ss_beating := True, ss_threads := [[]], ss_accepted := [one_frame], ss_sent := [one_frame], ss_batches := [one_event],
     ss_mark := 1, ss_drained := Some 1\<rparr>"

lemma sample_drive: "drive (\<lambda>_. ''{}'') True sample_choices stream_new = Some sample_end"
  by (simp add: sample_choices_def sample_end_def one_frame_def one_event_def stream_new_def post_def at_rest_def batch_work_def
      batch_frames_def kMaxPendingBytes_def frame_bytes_def encode_sse_def written_def)

lemma sample_end_reachable: "stream_reachable (\<lambda>_. ''{}'') True sample_end"
  unfolding stream_reachable_def by (rule drive_run [OF sample_drive])

theorem stream_delivery_witness: "take 1 (ss_accepted sample_end) = take 1 (ss_sent sample_end) \<and> ss_sent sample_end = [one_frame]"
  using stream_delivery [OF sample_end_reachable] by (simp add: sample_end_def)

text \<open>
  C9 The memory held for a slow peer is bounded and accounted for. In every reachable state the
  atomic counter equals the bytes of the queued frames, of the frames on their way to the queue
  and of those a thread is about to subtract, so it never wraps below zero and no byte is counted
  for ever; the frames queued or on their way take at most 2 MiB together; a write under way has
  its frame at the head of the queue; and when no thread and no handler is active the counter is
  exactly the bytes of the queue.
\<close>

theorem stream_bytes_bounded:
  assumes "stream_reachable dump src s"
  shows "ss_pending s = held_bytes s \<and> buffered_bytes s \<le> 2097152 \<and> (ss_writing s \<longrightarrow> ss_queue s \<noteq> []) \<and>
    (ss_strand s = [] \<and> ss_posted s = [] \<and> (\<forall>t \<in> set (ss_threads s). t = []) \<longrightarrow>
       ss_pending s = sum_list (map frame_bytes (ss_queue s)))"
proof -
  have inv: "bytes_ok s" using reachable_inv [OF assms] by (simp add: stream_inv_def)
  have "load_of (load_of hold_call) (ss_threads s) = 0" if "\<forall>t \<in> set (ss_threads s). t = []"
    using that by (force simp: load_of_def)
  then show ?thesis using inv by (auto simp: bytes_ok_def held_bytes_def kMaxPendingBytes_def load_of_def)
qed

text \<open>A frame of a caller is on its way while the header is still being written.\<close>

definition sample_held :: sse_stream where
  "sample_held = stream_new\<lparr>ss_phase := Active, ss_header := HWriting, ss_pending := 5, ss_threads := [[MPost (Frame FromCaller ''hello'')]]\<rparr>"

lemma sample_held_drive:
  "drive (\<lambda>_. ''{}'') False [Activate, Dispatch, Strand None, Send ''hello'', Thread 0 None, Thread 0 None] stream_new = Some sample_held"
  by (simp add: sample_held_def stream_new_def post_def at_rest_def kMaxPendingBytes_def frame_bytes_def)

theorem stream_bytes_bounded_witness: "held_bytes sample_held = 5"
proof -
  have "stream_reachable (\<lambda>_. ''{}'') False sample_held"
    unfolding stream_reachable_def by (rule drive_run [OF sample_held_drive])
  then show ?thesis using stream_bytes_bounded [of "\<lambda>_. ''{}''" False sample_held] by (simp add: sample_held_def)
qed

end
