(* ===== verification/EventStream.thy ===== *)
theory EventStream
  imports Sse
begin

text \<open>
  The event service and the stream put together, as \<open>EventService::dispatch\<close> does: the source
  the stream polls reads the service's journal. A joint run interleaves the observer's steps with
  the steps of the stream's threads; a poll worker that calls the source performs one read of the
  service. The lemmas show that the stream never calls its source again after a finished batch, and
  with the two components' invariants what the client receives on its socket.
\<close>

subsection \<open>Runs\<close>

definition source_of :: "json_lib \<Rightarrow> (string \<Rightarrow> string) \<Rightarrow> string \<Rightarrow> service \<Rightarrow> action list \<Rightarrow> event_batch" where
  "source_of lib digest database sv0 as =
     (let sv = service_run lib digest database as sv0 in fst (source_read (sv_state sv) (sv_source sv)))"

text \<open>The state of a joint run is the service's history and the stream.\<close>

inductive jstep ::
  "json_lib \<Rightarrow> (string \<Rightarrow> string) \<Rightarrow> string \<Rightarrow> service \<Rightarrow> action list \<times> sse_stream \<Rightarrow> action list \<times> sse_stream \<Rightarrow> bool"
  for lib digest database sv0 where
  stream: "sstep (lib_dump lib) True s s' \<Longrightarrow> ss_batches s' = ss_batches s \<Longrightarrow>
    jstep lib digest database sv0 (as, s) (as, s')"
| source: "sstep (lib_dump lib) True s s' \<Longrightarrow> ss_batches s' = ss_batches s @ [source_of lib digest database sv0 as] \<Longrightarrow>
    jstep lib digest database sv0 (as, s) (as @ [Read], s')"
| service: "a \<noteq> Read \<Longrightarrow> jstep lib digest database sv0 (as, s) (as @ [a], s)"

subsection \<open>Lemmas: no poll after the last batch\<close>

text \<open>Places from which the source may be called again.\<close>

definition last_batch :: "event_batch \<Rightarrow> bool" where
  "last_batch b \<longleftrightarrow> b_finished b \<or> b_resync_required b"

fun ask_call :: "call \<Rightarrow> bool" where
  "ask_call MSource = True"
| "ask_call (MPostBatch b) = (\<not> last_batch b)"
| "ask_call _ = False"

fun ask_micro :: "micro \<Rightarrow> bool" where
  "ask_micro (Call c) = ask_call c"
| "ask_micro (Batch b) = (\<not> last_batch b)"
| "ask_micro m = (m \<in> {Begin, SchedulePoll, ArmPoll} \<or> (\<exists>ok. m = HeaderDone ok))"

fun ask_posted :: "posted \<Rightarrow> bool" where
  "ask_posted HBegin = True"
| "ask_posted (HBatch b) = (\<not> last_batch b)"
| "ask_posted _ = False"

definition asking :: "sse_stream \<Rightarrow> bool" where
  "asking s \<longleftrightarrow> ss_phase s = Reserved \<or> ss_header s = HWriting \<or> ss_polling s \<or> list_ex ask_posted (ss_posted s) \<or>
     list_ex ask_micro (ss_strand s) \<or> (\<exists>t \<in> set (ss_threads s). list_ex ask_call t)"

lemma call_asks:
  assumes "exec_call dump r c s = (new, k, s')" and "\<not> ask_call c" and "\<not> list_ex ask_posted (ss_posted s)"
  shows "\<not> list_ex ask_call new" "\<not> list_ex ask_posted (ss_posted s')" "ss_batches s' = ss_batches s"
  using assms by (cases c; auto simp: post_def Let_def split: if_splits option.splits)+

lemma batch_work_asks: "last_batch b \<Longrightarrow> \<not> list_ex ask_micro (batch_work dump b)"
  by (auto simp: batch_work_def last_batch_def list_ex_iff)

lemma micro_asks:
  assumes "exec_micro dump src m s = (new, s')" and "\<not> ask_micro m" and "\<forall>c. m \<noteq> Call c"
  shows "\<not> list_ex ask_micro new" "ss_threads s' = ss_threads s" "ss_header s' = ss_header s" "ss_polling s' = ss_polling s"
    "ss_phase s' = ss_phase s"
  using assms batch_work_asks [of _ dump] by (cases m; auto simp: written_def split: if_splits list.splits)+

lemma not_asking_step:
  assumes "sstep dump src s s'" and "\<not> asking s"
  shows "\<not> asking s' \<and> ss_batches s' = ss_batches s"
  using assms
proof (induction rule: sstep.induct)
  case (thread i s c cs r new k s')
  have "c # cs \<in> set (ss_threads s)" using thread.hyps(1,2) nth_mem by force
  then have c: "\<not> ask_call c" "\<not> list_ex ask_call cs" using thread.prems by (auto simp: asking_def)
  have "\<not> list_ex ask_posted (ss_posted s)" using thread.prems by (simp add: asking_def)
  note a = call_asks [OF thread.hyps(3) c(1) this]
  show ?case
    using thread.prems a c(2) exec_call_keeps [OF thread.hyps(3)]
    by (auto simp: asking_def dest!: subsetD [OF set_update_subset_insert] split: if_splits)
next
  case (strand_call s c ms r new k s')
  then have c: "\<not> ask_call c" "\<not> list_ex ask_micro ms" "\<not> list_ex ask_posted (ss_posted s)" by (simp_all add: asking_def)
  note a = call_asks [OF strand_call.hyps(2) c(1,3)]
  have "\<not> list_ex ask_micro (map Call new)" using a(1) by (simp add: list_ex_iff)
  then show ?case using strand_call.prems a c(2) exec_call_keeps [OF strand_call.hyps(2)] by (simp add: asking_def)
next
  case (strand_work s m ms new s')
  then have c: "\<not> ask_micro m" "\<not> list_ex ask_micro ms" by (simp_all add: asking_def)
  note a = micro_asks [OF strand_work.hyps(3) c(1) strand_work.hyps(2)]
  then show ?case
    using strand_work.prems a c(2) micro_keeps(2) [OF strand_work.hyps(3)] micro_batches [OF strand_work.hyps(3)]
    by (simp add: asking_def)
next
  case (dispatch s h hs)
  have "ask_micro (handler_start h) = ask_posted h" by (cases h) simp_all
  then show ?case using dispatch by (simp add: asking_def)
qed (auto simp: asking_def post_def)

text \<open>The poll that a place carries is the only one, so a last batch on its way leaves nobody to ask again.\<close>

lemma asks_polls: "ask_call c \<Longrightarrow> call_polls c" "ask_micro m \<Longrightarrow> micro_polls m" "ask_posted h \<Longrightarrow> posted_polls h = 1"
proof -
  show c: "ask_call c \<Longrightarrow> call_polls c" for c by (cases c) auto
  show "ask_micro m \<Longrightarrow> micro_polls m" using c by (cases m) auto
  show "ask_posted h \<Longrightarrow> posted_polls h = 1" by (cases h) auto
qed

lemma no_polls_no_asks:
  "\<not> list_ex call_polls cs \<Longrightarrow> \<not> list_ex ask_call cs" "\<not> list_ex micro_polls ms \<Longrightarrow> \<not> list_ex ask_micro ms"
  "load_of posted_polls hs = 0 \<Longrightarrow> \<not> list_ex ask_posted hs"
  "load_of (carries call_polls) ts = 0 \<Longrightarrow> t \<in> set ts \<Longrightarrow> \<not> list_ex ask_call t"
proof -
  show c: "\<not> list_ex call_polls cs \<Longrightarrow> \<not> list_ex ask_call cs" for cs using asks_polls(1) by (auto simp: list_ex_iff)
  show "\<not> list_ex micro_polls ms \<Longrightarrow> \<not> list_ex ask_micro ms" using asks_polls(2) by (auto simp: list_ex_iff)
  show "load_of posted_polls hs = 0 \<Longrightarrow> \<not> list_ex ask_posted hs"
    by (induction hs) (auto dest: asks_polls(3))
  show "load_of (carries call_polls) ts = 0 \<Longrightarrow> t \<in> set ts \<Longrightarrow> \<not> list_ex ask_call t"
    using c by (auto simp: load_of_def)
qed

lemma thread_last_batch:
  assumes ok: "chain_ok dump s" and i: "i < length (ss_threads s)" "ss_threads s ! i = MPostBatch b # cs" and b: "last_batch b"
  shows "\<not> asking s"
proof -
  have upd: "load_of (carries call_polls) ((ss_threads s)[i := []]) + 1 = load_of (carries call_polls) (ss_threads s)"
    using load_of_update [OF i(1), of "carries call_polls" "[]"] i(2) by (simp add: carries_def)
  have le: "polls s \<le> 1" and calm: "calm solo_call call_polls (MPostBatch b # cs)"
    using ok i(2) nth_mem [OF i(1)] by (simp_all add: chain_ok_def del: calm.simps)
  have alone: "load_of posted_polls (ss_posted s) = 0" "carries micro_polls (ss_strand s) = 0"
    "load_of (carries call_polls) ((ss_threads s)[i := []]) = 0" "ss_phase s \<noteq> Reserved" "ss_header s \<noteq> HWriting" "\<not> ss_polling s"
    using le upd by (auto simp: polls_def simp del: carries_simps(4))
  have own: "\<not> list_ex ask_call (MPostBatch b # cs)" using calm b no_polls_no_asks(1) [of cs] by simp
  have "\<not> list_ex ask_call t" if t: "t \<in> set (ss_threads s)" for t
  proof -
    obtain j where j: "j < length (ss_threads s)" "t = ss_threads s ! j" using t by (auto simp: in_set_conv_nth)
    show ?thesis
    proof (cases "j = i")
      case False
      then have "t \<in> set ((ss_threads s)[i := []])" using j by (metis length_list_update nth_list_update_neq nth_mem)
      then show ?thesis using no_polls_no_asks(4) [OF alone(3)] by blast
    qed (use own i j in simp)
  qed
  moreover have "\<not> list_ex ask_micro (ss_strand s)" using alone(2) no_polls_no_asks(2) by simp
  ultimately show ?thesis using alone no_polls_no_asks(3) [OF alone(1)] by (simp add: asking_def)
qed

lemma strand_last_batch:
  assumes ok: "chain_ok dump s" and st: "ss_strand s = Call (MPostBatch b) # ms" and b: "last_batch b"
  shows "\<not> asking s"
proof -
  have le: "polls s \<le> 1" and calm: "\<not> list_ex micro_polls ms" using ok st by (simp_all add: chain_ok_def)
  have "carries micro_polls (ss_strand s) = 1" using st by (simp add: carries_def)
  then have alone: "load_of posted_polls (ss_posted s) = 0" "load_of (carries call_polls) (ss_threads s) = 0"
    "ss_phase s \<noteq> Reserved" "ss_header s \<noteq> HWriting" "\<not> ss_polling s"
    using le by (auto simp: polls_def simp del: carries_simps(4))
  then show ?thesis
    using st b no_polls_no_asks(2) [OF calm] no_polls_no_asks(3) [OF alone(1)] no_polls_no_asks(4) [OF alone(2)]
    by (auto simp: asking_def)
qed

lemma batches_step:
  assumes "sstep dump src s s'" and "ss_batches s' \<noteq> ss_batches s"
  shows "\<exists>b. ss_batches s' = ss_batches s @ [b] \<and>
    ((\<exists>i cs. i < length (ss_threads s') \<and> ss_threads s' ! i = MPostBatch b # cs) \<or> (\<exists>ms. ss_strand s' = Call (MPostBatch b) # ms))"
proof -
  have call: "\<exists>b. ss_batches s2 = ss_batches s1 @ [b] \<and> new = [MPostBatch b]"
    if "exec_call dump r c s1 = (new, k, s2)" "ss_batches s2 \<noteq> ss_batches s1" for r c s1 s2 new k
    using that by (cases c) (auto simp: post_def Let_def split: if_splits option.splits)
  show ?thesis using assms
  proof (induction rule: sstep.induct)
    case (thread i s c cs r new k s')
    then obtain b where "ss_batches s' = ss_batches s @ [b]" "new = [MPostBatch b]" using call [OF thread.hyps(3)] by auto
    then show ?case using thread.hyps(1) exec_call_keeps(1) [OF thread.hyps(3)] by (auto intro!: exI [of _ i])
  next
    case (strand_call s c ms r new k s')
    then show ?case using call [OF strand_call.hyps(2)] by auto
  next
    case (strand_work s m ms new s')
    then show ?case using micro_batches by auto
  qed (simp_all add: post_def)
qed

definition polls_end :: "sse_stream \<Rightarrow> bool" where
  "polls_end s \<longleftrightarrow> ((\<exists>b \<in> set (ss_batches s). last_batch b) \<longrightarrow> \<not> asking s)"

lemma polls_end_step:
  assumes "sstep dump src s s'" and "stream_inv dump s" and "polls_end s"
  shows "polls_end s'" and "ss_batches s' \<noteq> ss_batches s \<longrightarrow> (\<forall>b \<in> set (ss_batches s). \<not> last_batch b)"
proof -
  have chain: "chain_ok dump s'" using assms(1,2) es.kept by (simp add: stream_inv_def)
  have asks: "ss_batches s' \<noteq> ss_batches s \<longrightarrow> asking s" using not_asking_step [OF assms(1)] by blast
  then show no: "ss_batches s' \<noteq> ss_batches s \<longrightarrow> (\<forall>b \<in> set (ss_batches s). \<not> last_batch b)"
    using assms(3) by (auto simp: polls_end_def)
  show "polls_end s'"
  proof (cases "ss_batches s' = ss_batches s")
    case True
    then show ?thesis using assms(3) not_asking_step [OF assms(1)] by (auto simp: polls_end_def)
  next
    case False
    then show ?thesis
      using batches_step [OF assms(1) False] no thread_last_batch [OF chain] strand_last_batch [OF chain]
      by (auto simp: polls_end_def)
  qed
qed

subsection \<open>Lemmas: the joint invariant\<close>

definition joint_ok :: "json_lib \<Rightarrow> (string \<Rightarrow> string) \<Rightarrow> string \<Rightarrow> service \<Rightarrow> action list \<times> sse_stream \<Rightarrow> bool" where
  "joint_ok lib digest database sv0 j \<longleftrightarrow>
     (let s = snd j; sv = service_run lib digest database (fst j) sv0
      in stream_inv (lib_dump lib) s \<and> polls_end s \<and> sv_batches sv = ss_batches s \<and>
         (sv_done sv \<longleftrightarrow> (\<exists>b \<in> set (ss_batches s). last_batch b)) \<and> (\<forall>b \<in> set (ss_batches s). \<not> b_resync_required b))"

lemma source_not_resync: "\<not> b_resync_required (fst (source_read st src))"
  by (simp add: source_read_def Let_def)

lemma service_act_other:
  "a \<noteq> Read \<Longrightarrow> sv_batches (service_act lib digest database a sv) = sv_batches sv \<and>
   sv_done (service_act lib digest database a sv) = sv_done sv"
  by (cases a) (auto simp: service_act_def case_prod_unfold Let_def)

lemma service_act_read:
  "\<not> sv_done sv \<Longrightarrow> sv_batches (service_act lib digest database Read sv) =
     sv_batches sv @ [fst (source_read (sv_state sv) (sv_source sv))] \<and>
   sv_done (service_act lib digest database Read sv) = b_finished (fst (source_read (sv_state sv) (sv_source sv)))"
  by (simp add: service_act_def case_prod_unfold Let_def)

lemma joint_ok_step:
  assumes "jstep lib digest database sv0 j j'" and "joint_ok lib digest database sv0 j"
  shows "joint_ok lib digest database sv0 j'"
  using assms
proof (induction rule: jstep.induct)
  case (stream s s' as)
  then show ?case using es.kept [OF stream.hyps(1)] polls_end_step(1) [OF stream.hyps(1)] by (simp add: joint_ok_def Let_def)
next
  case (source s s' as)
  let ?sv = "service_run lib digest database as sv0"
  have inv: "stream_inv (lib_dump lib) s" "polls_end s" using source.prems by (simp_all add: joint_ok_def Let_def)
  have none: "\<forall>b \<in> set (ss_batches s). \<not> last_batch b" using polls_end_step(2) [OF source.hyps(1) inv] source.hyps(2) by simp
  then have "\<not> sv_done ?sv" using source.prems by (simp add: joint_ok_def Let_def)
  note r = service_act_read [OF this, of lib digest database]
  show ?case
    using es.kept [OF source.hyps(1) inv(1)] polls_end_step(1) [OF source.hyps(1) inv] source.hyps(2) source.prems r none
      source_not_resync [of "sv_state ?sv" "sv_source ?sv"]
    by (simp add: joint_ok_def Let_def service_run_append source_of_def last_batch_def)
next
  case (service a as s)
  then show ?case using service_act_other [OF service.hyps] by (simp add: joint_ok_def Let_def service_run_append)
qed

interpretation js: step_system "jstep lib digest database sv0" "joint_ok lib digest database sv0" for lib digest database sv0
  by unfold_locales (rule joint_ok_step)

lemma joint_start:
  "sv_batches sv0 = [] \<Longrightarrow> \<not> sv_done sv0 \<Longrightarrow> joint_ok lib digest database sv0 ([], stream_new)"
  using stream_inv_new by (simp add: joint_ok_def Let_def polls_end_def stream_new_def)

text \<open>An open subscription begins with the checkpoint.\<close>

definition greeted :: "service \<Rightarrow> bool" where
  "greeted sv \<longleftrightarrow> \<not> sv_done sv \<longrightarrow>
     (sv_batches sv = [] \<longrightarrow> src_first (sv_source sv)) \<and>
     (concat (map b_events (sv_batches sv)) \<noteq> [] \<longrightarrow> ev_name (hd (concat (map b_events (sv_batches sv)))) = ''ready'') \<and>
     (sv_batches sv \<noteq> [] \<longrightarrow> concat (map b_events (sv_batches sv)) \<noteq> [])"

lemma greeted_act: "greeted sv \<Longrightarrow> greeted (service_act lib digest database a sv)"
proof (cases a)
  case Read
  assume g: "greeted sv"
  show ?thesis
  proof (cases "sv_done sv")
    case False
    show ?thesis
    proof (cases "sv_batches sv")
      case Nil
      then have "src_first (sv_source sv)" using g False by (simp add: greeted_def)
      then show ?thesis using Nil Read False by (simp add: greeted_def service_act_def source_read_def Let_def)
    next
      case (Cons b bs)
      then have "concat (map b_events (sv_batches sv)) \<noteq> []" using g False by (simp add: greeted_def del: concat_eq_Nil_conv)
      then show ?thesis using g Read False
        by (auto simp: greeted_def service_act_def case_prod_unfold Let_def simp del: concat_eq_Nil_conv)
    qed
  qed (use Read g in \<open>simp add: greeted_def service_act_def\<close>)
qed (auto simp: greeted_def service_act_def case_prod_unfold Let_def)

lemma greeted_run: "greeted sv \<Longrightarrow> greeted (service_run lib digest database as sv)"
  by (induction as arbitrary: sv) (simp_all add: greeted_act)

text \<open>The read that ended a subscription.\<close>

lemma ended_at:
  assumes "sv_done (service_run lib digest database as sv)" and "\<not> sv_done sv"
  shows "\<exists>as1 as2. as = as1 @ Read # as2 \<and> \<not> sv_done (service_run lib digest database as1 sv) \<and>
    sv_batches (service_run lib digest database as sv) = sv_batches (service_run lib digest database as1 sv) @
      [fst (source_read (sv_state (service_run lib digest database as1 sv)) (sv_source (service_run lib digest database as1 sv)))]"
  using assms
proof (induction as rule: rev_induct)
  case (snoc a as)
  let ?sv = "service_run lib digest database as sv"
  show ?case
  proof (cases "sv_done ?sv")
    case True
    then obtain as1 as2 where "as = as1 @ Read # as2" "\<not> sv_done (service_run lib digest database as1 sv)"
      "sv_batches ?sv = sv_batches (service_run lib digest database as1 sv) @
        [fst (source_read (sv_state (service_run lib digest database as1 sv)) (sv_source (service_run lib digest database as1 sv)))]"
      using snoc by blast
    moreover have "sv_batches (service_act lib digest database a ?sv) = sv_batches ?sv"
      using True service_act_other [of a] by (cases "a = Read") (simp_all add: service_act_def)
    ultimately show ?thesis by (intro exI [of _ as1] exI [of _ "as2 @ [a]"]) (simp add: service_run_append)
  next
    case False
    have a: "a = Read" using False snoc.prems service_act_other [of a] by (auto simp: service_run_append)
    show ?thesis
      using a False service_act_read [OF False, of lib digest database]
      by (intro exI [of _ as] exI [of _ "[]"]) (simp add: service_run_append)
  qed
qed simp

text \<open>
  What a subscriber of a run got: the checkpoint, the journal's events with the details of a demand
  to start over filled in, and possibly one such demand at the end. A demand ends the subscription.
\<close>

definition answers :: "stream_event \<Rightarrow> stream_event \<Rightarrow> bool" where
  "answers e e' \<longleftrightarrow> e' = e \<or> is_resync e \<and> is_resync e' \<and> ev_id e' = ev_id e"

definition exact_events :: "string \<Rightarrow> stream_event list \<Rightarrow> bool \<Rightarrow> stream_event list \<Rightarrow> bool" where
  "exact_events project new ended events \<longleftrightarrow>
     (\<exists>hello p mid final. events = hello @ mid @ final \<and>
        length hello \<le> 1 \<and> (\<forall>e \<in> set hello. ev_name e = ''ready'') \<and>
        list_all2 answers (filter (source_keeps project) (take p new)) mid \<and>
        length final \<le> 1 \<and> (\<forall>e \<in> set final. is_resync e) \<and> (ended \<longleftrightarrow> (\<exists>e \<in> set (mid @ final). is_resync e)))"

lemma exact_events_more:
  assumes "exact_events project new ended events"
  shows "exact_events project (new @ further) ended events"
proof -
  obtain hello p mid final where e: "events = hello @ mid @ final" "length hello \<le> 1" "\<forall>e \<in> set hello. ev_name e = ''ready''"
      "list_all2 answers (filter (source_keeps project) (take p new)) mid"
      "length final \<le> 1" "\<forall>e \<in> set final. is_resync e" "ended \<longleftrightarrow> (\<exists>e \<in> set (mid @ final). is_resync e)"
    using assms unfolding exact_events_def by blast
  have "take (min p (length new)) (new @ further) = take p new" by (simp add: min_def)
  then show ?thesis
    using e unfolding exact_events_def
    by (intro exI [of _ hello] exI [of _ "min p (length new)"] exI [of _ mid] exI [of _ final]) simp
qed

lemma answers_refl: "list_all2 answers es es"
  by (simp add: list_all2_refl answers_def)

lemma answers_rewrite: "list_all2 answers es (map (source_rewrite cursor st src) es)"
  by (induction es) (auto simp: answers_def source_rewrite_def is_resync_def)

lemma open_exact:
  assumes ok: "subscriber_ok j0 project new sv" and g: "greeted sv" and active: "\<not> sv_done sv"
  shows "exact_events project new False (concat (map b_events (sv_batches sv)))"
proof -
  let ?es = "concat (map b_events (sv_batches sv))"
  obtain p where p: "src_first (sv_source sv) \<longrightarrow> p = 0" "delivered sv = filter (source_keeps project) (take p new)"
      "\<forall>e \<in> set (take p new). \<not> is_resync e" and first: "src_first (sv_source sv) \<longleftrightarrow> ?es = []"
    using ok active by (auto simp: subscriber_ok_def)
  show ?thesis
  proof (cases ?es)
    case Nil
    then show ?thesis unfolding exact_events_def by (intro exI [of _ "[]"] exI [of _ 0]) simp
  next
    case (Cons e es)
    then have "ev_name e = ''ready''" using g active by (simp add: greeted_def del: concat_eq_Nil_conv)
    moreover have "es = filter (source_keeps project) (take p new)" using Cons p(2) by (simp add: delivered_def)
    ultimately show ?thesis
      using Cons p(3) answers_refl unfolding exact_events_def
      by (intro exI [of _ "[e]"] exI [of _ p] exI [of _ es] exI [of _ "[]"]) auto
  qed
qed

lemma source_read_events:
  assumes "src_cursor src \<noteq> []" and "es = b_events (journal_read (st_changes st) (src_cursor src))"
  shows "(\<exists>r. is_resync r \<and> b_events (fst (source_read st src)) = [r]) \<or>
    \<not> b_resync_required (journal_read (st_changes st) (src_cursor src)) \<and>
    (\<exists>cursor ready. ev_name ready = ''ready'' \<and> b_events (fst (source_read st src)) =
      (if src_first src then [ready] else []) @ map (source_rewrite cursor st src) (filter (source_keeps (src_project src)) es))"
proof -
  have n: "source_rewrite c st src \<lparr>ev_id = i, ev_name = ''ready'', ev_data = d\<rparr> = \<lparr>ev_id = i, ev_name = ''ready'', ev_data = d\<rparr>" for c i d
    by (simp add: source_rewrite_def)
  show ?thesis
  proof (cases "b_resync_required (journal_read (st_changes st) (src_cursor src)) \<or> \<not> st_available st")
    case True
    then show ?thesis by (auto simp: source_read_def Let_def is_resync_def)
  next
    case False
    then show ?thesis using assms n
      by (intro disjI2 conjI exI [of _ "b_cursor (journal_read (st_changes st) (src_cursor src))"]
          exI [of _ "\<lparr>ev_id = src_cursor src, ev_name = ''ready'',
            ev_data = checkpoint (b_cursor (journal_read (st_changes st) (src_cursor src))) (st_revisions st) (src_project src)\<rparr>"])
        (auto simp: source_read_def Let_def)
  qed
qed

text \<open>The read that ends a subscription.\<close>

lemma last_read_exact:
  assumes ext: "journal_extends dump j0 new (st_changes (sv_state sv))" and ok: "subscriber_ok j0 project new sv"
    and g: "greeted sv" and active: "\<not> sv_done sv" and b: "b = fst (source_read (sv_state sv) (sv_source sv))"
    and last: "\<exists>e \<in> set (b_events b). is_resync e"
  shows "exact_events project new True (concat (map b_events (sv_batches sv)) @ b_events b)"
proof -
  let ?src = "sv_source sv" and ?st = "sv_state sv" and ?es = "concat (map b_events (sv_batches sv))"
  from ok active obtain p where p: "p \<le> length new" and c: "src_cursor ?src = make_cursor (j_epoch j0) (j_sequence j0 + p)"
    and first: "src_first ?src \<longleftrightarrow> ?es = []" "src_first ?src \<longrightarrow> p = 0" and pr: "src_project ?src = project"
    and d: "delivered sv = filter (source_keeps project) (take p new)"
    by (auto simp: subscriber_ok_def)
  have ne: "src_cursor ?src \<noteq> []" by (simp add: c)
  let ?hello = "take 1 ?es" and ?mid = "filter (source_keeps project) (take p new)"
  have es: "?es = ?hello @ ?mid"
  proof (cases ?es)
    case (Cons e es)
    then show ?thesis using d by (simp add: delivered_def)
  qed (use first in \<open>simp del: concat_eq_Nil_conv\<close>)
  have hello: "\<forall>e \<in> set ?hello. ev_name e = ''ready''" using g active by (cases ?es) (simp_all add: greeted_def del: concat_eq_Nil_conv)
  from source_read_events [OF ne refl, of ?st] consider
      (refused) r where "is_resync r" "b_events b = [r]"
    | (given) cursor ready where "\<not> b_resync_required (journal_read (st_changes ?st) (src_cursor ?src))" "ev_name ready = ''ready''"
        "b_events b = (if src_first ?src then [ready] else []) @ map (source_rewrite cursor ?st ?src)
          (filter (source_keeps project) (b_events (journal_read (st_changes ?st) (src_cursor ?src))))"
    unfolding b pr by blast
  then show ?thesis
  proof cases
    case refused
    then show ?thesis unfolding exact_events_def
      by (intro exI [of _ ?hello] exI [of _ p] exI [of _ ?mid] exI [of _ "[r]"]) (use es hello answers_refl in simp)
  next
    case given
    let ?new = "map (source_rewrite cursor ?st ?src) (filter (source_keeps project) (drop p new))"
    have ev: "b_events b = (if src_first ?src then [ready] else []) @ ?new"
      using given(1,3) journal_extends_read [OF ext p c] by auto
    have all: "list_all2 answers (filter (source_keeps project) new) (?mid @ ?new)"
      using list_all2_appendI [OF answers_refl [of ?mid] answers_rewrite [of "filter (source_keeps project) (drop p new)" cursor ?st ?src]]
      by (metis append_take_drop_id filter_append)
    show ?thesis
    proof (cases "src_first ?src")
      case True
      then have "?es = []" "p = 0" using first by blast+
      then show ?thesis using all ev True given(2) last unfolding exact_events_def
        by (intro exI [of _ "[ready]"] exI [of _ "length new"] exI [of _ ?new] exI [of _ "[]"]) (auto simp: is_resync_def)
    next
      case False
      then show ?thesis using all ev es hello last unfolding exact_events_def
        by (intro exI [of _ ?hello] exI [of _ "length new"] exI [of _ "?mid @ ?new"] exI [of _ "[]"]) auto
    qed
  qed
qed

lemma service_run_exact:
  assumes start: "service_ok (lib_dump lib) f (st_changes (sv_state sv0)) project [] sv0" and g: "greeted sv0" and active: "\<not> sv_done sv0"
    and room: "journal_room (st_changes (sv_state sv0)) (length (run_entries lib digest database as sv0))"
  defines "sv \<equiv> service_run lib digest database as sv0"
    and "new \<equiv> fst (journal_run (lib_dump lib) (run_entries lib digest database as sv0) (st_changes (sv_state sv0)))"
  shows "exact_events project new (sv_done sv) (concat (map b_events (sv_batches sv)))"
proof -
  let ?j = "st_changes (sv_state sv0)"
  let ?run = "\<lambda>bs. service_run lib digest database bs sv0"
  let ?new = "\<lambda>bs. fst (journal_run (lib_dump lib) (run_entries lib digest database bs sv0) ?j)"
  have sub: "subscriber_ok ?j project (?new bs) (?run bs)" "journal_extends (lib_dump lib) ?j (?new bs) (st_changes (sv_state (?run bs)))"
    if "journal_room ?j (length (run_entries lib digest database bs sv0))" for bs
    using service_ok_run [OF start that] by (simp_all add: service_ok_def)
  show ?thesis
  proof (cases "sv_done sv")
    case False
    then show ?thesis using open_exact [OF sub(1) [OF room] greeted_run [OF g]] by (simp add: sv_def new_def)
  next
    case True
    then obtain as1 as2 where as: "as = as1 @ Read # as2" and o1: "\<not> sv_done (?run as1)"
      and b: "sv_batches sv = sv_batches (?run as1) @ [fst (source_read (sv_state (?run as1)) (sv_source (?run as1)))]"
      using ended_at active unfolding sv_def by blast
    have r1: "journal_room ?j (length (run_entries lib digest database as1 sv0))"
      using room unfolding as run_entries_append by (simp add: journal_room_def)
    have last: "\<exists>e \<in> set (b_events (fst (source_read (sv_state (?run as1)) (sv_source (?run as1))))). is_resync e"
      using sub(1) [OF room] True b by (simp add: subscriber_ok_def sv_def)
    obtain further where "new = ?new as1 @ further"
      unfolding new_def as run_entries_append by (simp add: journal_run_append case_prod_unfold)
    then show ?thesis
      using exact_events_more [OF last_read_exact [OF sub(2,1) [OF r1] greeted_run [OF g] o1 refl last], of further] True b by simp
  qed
qed

subsection \<open>Properties\<close>

definition event_frame :: "dumper \<Rightarrow> stream_event \<Rightarrow> frame" where
  "event_frame dump e = Frame FromSource (encode_sse dump e)"

lemma joint_sent:
  assumes "joint_ok lib digest database sv0 (as, s)"
  shows "prefix (filter from_source (ss_sent s))
    (map (event_frame (lib_dump lib)) (concat (map b_events (sv_batches (service_run lib digest database as sv0)))))"
proof -
  let ?dump = "lib_dump lib"
  have inv: "order_ok s" "chain_ok ?dump s" and nr: "\<forall>b \<in> set (ss_batches s). \<not> b_resync_required b"
    and eq: "sv_batches (service_run lib digest database as sv0) = ss_batches s"
    using assms by (simp_all add: joint_ok_def stream_inv_def Let_def)
  have "prefix (filter from_source (ss_accepted s)) (offered ?dump s)" using inv(2) by (auto simp: chain_ok_def)
  then have 1: "prefix (filter from_source (ss_sent s)) (offered ?dump s)"
    using filter_mono_prefix [OF sent_prefix [OF inv(1)], of from_source] by (rule prefix_order.trans [rotated])
  have "concat (map (batch_frames ?dump) bs) = map (event_frame ?dump) (concat (map b_events bs))"
    if "\<forall>b \<in> set bs. \<not> b_resync_required b" for bs
    using that by (induction bs) (auto simp: batch_frames_def event_frame_def)
  then show ?thesis using 1 nr unfolding eq offered_def by simp
qed


text \<open>A run of both: the observer finds a new location, the stream reads it and writes the checkpoint.\<close>

lemma batches_grow: "sstep dump src s s' \<Longrightarrow> length (ss_batches s) \<le> length (ss_batches s')"
  using batches_step by fastforce

lemma joint_drive:
  assumes "drive (lib_dump lib) True xs s = Some s'" and "ss_batches s' = ss_batches s"
  shows "(jstep lib digest database sv0)\<^sup>*\<^sup>* (as, s) (as, s')"
  using assms
proof (induction xs arbitrary: s)
  case (Cons x xs)
  then obtain t where t: "stream_do (lib_dump lib) True x s = Some t" "drive (lib_dump lib) True xs t = Some s'"
    by (auto split: option.splits)
  have step: "sstep (lib_dump lib) True s t" by (rule stream_do_step [OF t(1)])
  have "length (ss_batches t) \<le> length (ss_batches s')"
    using drive_run [OF t(2)] by (induction rule: rtranclp_induct) (use batches_grow order_trans in blast)+
  then have same: "ss_batches t = ss_batches s" using batches_step [OF step] Cons.prems(2) by (cases "ss_batches t = ss_batches s") auto
  then have "(jstep lib digest database sv0)\<^sup>*\<^sup>* (as, t) (as, s')" using Cons.IH [OF t(2)] Cons.prems(2) by simp
  then show ?case using jstep.stream [OF step same] by (meson converse_rtranclp_into_rtranclp)
qed simp

definition polling_stream :: sse_stream where
  "polling_stream = stream_new\<lparr>ss_phase := Active, ss_header := HDone, ss_beating := True, ss_threads := [[MSource]]\<rparr>"

lemma polling_drive:
  "drive dump True [Activate, Dispatch, Strand None, HeaderReturned True, Strand None, Strand None, Strand None, Strand None] stream_new =
     Some polling_stream"
  by (simp add: polling_stream_def stream_new_def post_def at_rest_def)

definition after_poll :: "event_batch \<Rightarrow> frame \<Rightarrow> frame \<Rightarrow> sse_stream" where
  "after_poll b f g = polling_stream\<lparr>ss_threads := [[]], ss_batches := [b], ss_polling := True, ss_pending := frame_bytes g,
     ss_posted := [HEnqueue g], ss_strand := [WriteNext], ss_accepted := [f, g], ss_sent := [f]\<rparr>"

lemma after_poll_drive:
  assumes "batch_frames dump b = [f, g]" and "\<not> b_resync_required b" and "\<not> b_finished b"
    and "frame_bytes f + frame_bytes g \<le> 1000"
  shows "drive dump True
      [Thread 0 None, Dispatch, Strand None, Strand None, Strand None, Strand None, Strand None, Strand None, Strand None, Strand None,
       Dispatch, Strand None, Strand None, WriteReturned True, Strand None]
      (polling_stream\<lparr>ss_threads := [[MPostBatch b]], ss_batches := [b]\<rparr>) = Some (after_poll b f g)"
  using assms
  by (simp add: polling_stream_def after_poll_def stream_new_def post_def at_rest_def batch_work_def kMaxPendingBytes_def written_def)

lemma sample_frame_bytes:
  "frame_bytes (event_frame sample_dump_row e) \<le> 50 + length (ev_id e) + length (ev_name e)"
proof -
  have "length (sample_dump_row v) \<le> 2" for v
    by (auto simp: sample_dump_row_def split: json.splits list.splits)
  from this [of "ev_data e"] show ?thesis by (simp add: event_frame_def frame_bytes_def encode_sse_def)
qed

lemma sample_batch:
  defines "b \<equiv> source_of sample_feed_lib id ''db'' sample_service [Observe sample_location]"
  shows "\<exists>f g. batch_frames sample_dump_row b = [f, g] \<and> from_source f \<and> frame_bytes f + frame_bytes g \<le> 1000"
    and "\<not> b_resync_required b" and "\<not> b_finished b"
proof -
  let ?st = "(sv_state sample_service)\<lparr>st_changes := sample_journal_next\<rparr>"
  have b: "b = fst (source_read ?st (sv_source sample_service))"
    using sample_observed by (simp add: b_def source_of_def service_act_def sample_journal_next_def)
  show nr: "\<not> b_resync_required b" by (simp add: b source_not_resync)
  show "\<not> b_finished b"
    using source_read_given [of ?st "sv_source sample_service"] sample_not_resync sample_journal_read
    by (simp add: b sample_service_def journal_cursor_def)
  obtain ready where "b_events b = [ready, sample_change]" "ev_id ready = journal_cursor sample_journal" "ev_name ready = ''ready''"
    using sample_journal_read sample_not_resync
    by (simp add: b source_read_def Let_def sample_service_def journal_cursor_def rewrite_plain) (simp add: source_rewrite_def)
  then show "\<exists>f g. batch_frames sample_dump_row b = [f, g] \<and> from_source f \<and> frame_bytes f + frame_bytes g \<le> 1000"
    using nr sample_frame_bytes [of ready] sample_frame_bytes [of sample_change]
    by (simp add: batch_frames_def event_frame_def from_source_def sample_change_def journal_cursor_def sample_journal_def
        make_cursor_def sample_epoch_def to_string.simps)
qed


end
