(* ===== verification/Calendar.thy ===== *)
theory Calendar
  imports Prelude
begin

text \<open>
  \<open>src/src/cli/commands/MilestoneDateTime.{h,cpp}\<close>: parsing, ranges and printing of the dates
  and times the milestone commands take.

  Of \<open>std::chrono\<close> the source uses the proleptic Gregorian calendar: \<open>year_month_day::ok\<close>,
  the conversion of a date to days since 1970-01-01 (\<open>days_of_date\<close>) and back
  (\<open>date_of_days\<close>). A \<open>std::chrono::year\<close> keeps 16 bits. \<open>localtime_r\<close> and
  \<open>mktime\<close> belong to the operating system and its time zone and are the record \<open>zone\<close>.
  A \<open>std::invalid_argument\<close> is the left value of a result.

  The lemmas show that the conversion is a bijection that agrees with the calendar's own successor,
  that printed times are parsed back, and that a range of days holds exactly the instants of those
  days.
\<close>

subsection \<open>Dates\<close>

datatype civil_date = CivilDate (cd_year: int) (cd_month: nat) (cd_day: nat)

instantiation civil_date :: linorder
begin

definition less_eq_civil_date :: "civil_date \<Rightarrow> civil_date \<Rightarrow> bool" where
  "less_eq_civil_date a b \<longleftrightarrow> (cd_year a, cd_month a, cd_day a) \<le> (cd_year b, cd_month b, cd_day b)"

definition less_civil_date :: "civil_date \<Rightarrow> civil_date \<Rightarrow> bool" where
  "less_civil_date a b \<longleftrightarrow> (cd_year a, cd_month a, cd_day a) < (cd_year b, cd_month b, cd_day b)"

instance
  by standard (auto simp: less_eq_civil_date_def less_civil_date_def less_le_not_le intro: civil_date.expand)

end

definition is_leap :: "int \<Rightarrow> bool" where
  "is_leap y \<longleftrightarrow> y mod 4 = 0 \<and> (y mod 100 \<noteq> 0 \<or> y mod 400 = 0)"

definition month_days :: "int \<Rightarrow> nat \<Rightarrow> nat" where
  "month_days y m =
     (if m = 2 then (if is_leap y then 29 else 28) else if m = 4 \<or> m = 6 \<or> m = 9 \<or> m = 11 then 30 else 31)"

text \<open>\<open>year{int}\<close> keeps the low 16 bits.\<close>

definition to_int16 :: "int \<Rightarrow> int" where
  "to_int16 y = (y + 32768) mod 65536 - 32768"

definition date_ok :: "civil_date \<Rightarrow> bool" where
  "date_ok d \<longleftrightarrow> cd_year d \<noteq> - 32768 \<and> 1 \<le> cd_month d \<and> cd_month d \<le> 12 \<and>
     1 \<le> cd_day d \<and> cd_day d \<le> month_days (cd_year d) (cd_month d)"

definition days_before_year :: "int \<Rightarrow> int" where
  "days_before_year y = 365 * (y - 1) + (y - 1) div 4 - (y - 1) div 100 + (y - 1) div 400"

fun days_before_month :: "int \<Rightarrow> nat \<Rightarrow> int" where
  "days_before_month y 0 = 0"
| "days_before_month y (Suc 0) = 0"
| "days_before_month y (Suc (Suc m)) = days_before_month y (Suc m) + int (month_days y (Suc m))"

text \<open>\<open>sys_days{ymd}\<close>: 1970-01-01 is day 0.\<close>

definition days_of_date :: "civil_date \<Rightarrow> int" where
  "days_of_date d = days_before_year (cd_year d) + days_before_month (cd_year d) (cd_month d) + int (cd_day d) - 719163"

definition year_of_ordinal :: "int \<Rightarrow> int" where
  "year_of_ordinal n =
     (let y = 400 * n div 146097 + 1
      in if days_before_year (y + 1) < n then y + 1 else if n \<le> days_before_year y then y - 1 else y)"

function month_walk :: "int \<Rightarrow> nat \<Rightarrow> int \<Rightarrow> nat \<times> nat" where
  "month_walk y m r =
     (if 12 \<le> m \<or> r \<le> int (month_days y m) then (m, nat r) else month_walk y (Suc m) (r - int (month_days y m)))"
  by pat_completeness auto
termination by (relation "measure (\<lambda>(y, m, r). 12 - m)") auto

declare month_walk.simps [simp del]

text \<open>\<open>year_month_day{sys_days}\<close>.\<close>

definition date_of_days :: "int \<Rightarrow> civil_date" where
  "date_of_days days =
     (let n = days + 719163; y = year_of_ordinal n; (m, d) = month_walk y 1 (n - days_before_year y)
      in CivilDate y m d)"

subsection \<open>Parsing digits and dates\<close>

definition digits :: "string \<Rightarrow> nat \<Rightarrow> nat \<Rightarrow> int result" where
  "digits s position cnt =
     (if length s < position + cnt then Inl (InvalidArgument ''date/time is incomplete'')
      else let ds = take cnt (drop position s)
           in if \<not> list_all is_digit ds then Inl (InvalidArgument ''expected a digit'')
              else Inr (int (dec_value ds)))"

definition checked_ymd :: "civil_date \<Rightarrow> civil_date result" where
  "checked_ymd date =
     (let d = CivilDate (to_int16 (cd_year date)) (cd_month date) (cd_day date)
      in if \<not> date_ok d then Inl (InvalidArgument ''calendar date is invalid'') else Inr d)"

definition date_shape :: "string \<Rightarrow> bool" where
  "date_shape s \<longleftrightarrow> length s = 10 \<and> s ! 4 = CHR ''-'' \<and> s ! 7 = CHR ''-''"

definition date_digits :: "string \<Rightarrow> civil_date result" where
  "date_digits s =
     andthen (digits s 0 4) (\<lambda>y. andthen (digits s 5 2) (\<lambda>m. andthen (digits s 8 2) (\<lambda>d.
       Inr (CivilDate y (nat m) (nat d)))))"

definition parse_date :: "string \<Rightarrow> civil_date result" where
  "parse_date s =
     (if \<not> date_shape s then Inl (InvalidArgument ''expected YYYY-MM-DD'')
      else andthen (date_digits s) (\<lambda>date. andthen (checked_ymd date) (\<lambda>_. Inr date)))"

subsection \<open>The time zone\<close>

record tm =
  tm_year :: int
  tm_mon :: int
  tm_mday :: int
  tm_hour :: int
  tm_min :: int
  tm_sec :: int

record zone =
  zn_localtime :: "int \<Rightarrow> tm option"
  zn_mktime :: "tm \<Rightarrow> int"

definition local_time :: "zone \<Rightarrow> int \<Rightarrow> tm result" where
  "local_time zn t =
     (case zn_localtime zn t of
        None \<Rightarrow> Inl (InvalidArgument ''date/time is outside the platform time range'')
      | Some l \<Rightarrow> Inr l)"

definition midnight_of :: "civil_date \<Rightarrow> tm" where
  "midnight_of date =
     \<lparr>tm_year = cd_year date - 1900, tm_mon = int (cd_month date) - 1, tm_mday = int (cd_day date),
      tm_hour = 0, tm_min = 0, tm_sec = 0\<rparr>"

definition local_midnight :: "zone \<Rightarrow> civil_date \<Rightarrow> int result" where
  "local_midnight zn date =
     (let epoch = zn_mktime zn (midnight_of date)
      in if epoch = - 1 then Inl (InvalidArgument ''local calendar date is outside the platform time range'')
         else andthen (local_time zn epoch) (\<lambda>round_trip.
           if round_trip \<noteq> midnight_of date
           then Inl (InvalidArgument ''local calendar date has no representable midnight'')
           else Inr epoch))"

definition next_date :: "civil_date \<Rightarrow> civil_date result" where
  "next_date date = andthen (checked_ymd date) (\<lambda>ymd.
     Inr (let d = date_of_days (days_of_date ymd + 1) in CivilDate (to_int16 (cd_year d)) (cd_month d) (cd_day d)))"

definition date_of_tm :: "tm \<Rightarrow> civil_date" where
  "date_of_tm l = CivilDate (tm_year l + 1900) (nat (tm_mon l + 1)) (nat (tm_mday l))"

definition local_date :: "zone \<Rightarrow> int \<Rightarrow> civil_date result" where
  "local_date zn t = andthen (local_time zn t) (\<lambda>l. Inr (date_of_tm l))"

definition local_day_end :: "zone \<Rightarrow> civil_date \<Rightarrow> int result" where
  "local_day_end zn date =
     andthen (next_date date) (\<lambda>d. andthen (local_midnight zn d) (\<lambda>next_midnight.
       if next_midnight = int64_min
       then Inl (InvalidArgument ''local calendar date is outside the platform time range'')
       else Inr (next_midnight - 1)))"

subsection \<open>Times with an offset\<close>

datatype when_kind = Timed | AllDay

record parsed_when =
  pw_epoch_seconds :: int
  pw_kind :: when_kind

text \<open>What follows the seconds: an optional fraction, then the offset in seconds.\<close>

definition after_fraction :: "string \<Rightarrow> nat \<Rightarrow> nat result" where
  "after_fraction s position =
     (if position < length s \<and> s ! position = CHR ''.'' then
        let ds = takeWhile is_digit (drop (Suc position) s)
        in if ds = [] then Inl (InvalidArgument ''fraction is empty'') else Inr (Suc position + length ds)
      else Inr position)"

definition utc_offset :: "string \<Rightarrow> nat \<Rightarrow> int result" where
  "utc_offset s position =
     (if position < length s \<and> (s ! position = CHR ''Z'' \<or> s ! position = CHR ''z'') then
        if Suc position \<noteq> length s then Inl (InvalidArgument ''trailing characters'') else Inr 0
      else if position + 6 \<noteq> length s \<or> (s ! position \<noteq> CHR ''+'' \<and> s ! position \<noteq> CHR ''-'') \<or> s ! (position + 3) \<noteq> CHR '':''
      then Inl (InvalidArgument ''explicit UTC offset is required'')
      else andthen (digits s (position + 1) 2) (\<lambda>offset_hour. andthen (digits s (position + 4) 2) (\<lambda>offset_minute.
        if 23 < offset_hour \<or> 59 < offset_minute then Inl (InvalidArgument ''UTC offset is invalid'')
        else let offset = (offset_hour * 60 + offset_minute) * 60
             in Inr (if s ! position = CHR ''-'' then - offset else offset))))"

definition rfc3339_shape :: "string \<Rightarrow> bool" where
  "rfc3339_shape s \<longleftrightarrow> 20 \<le> length s \<and> s ! 4 = CHR ''-'' \<and> s ! 7 = CHR ''-'' \<and>
     (s ! 10 = CHR ''T'' \<or> s ! 10 = CHR ''t'') \<and> s ! 13 = CHR '':'' \<and> s ! 16 = CHR '':''"

text \<open>The body of the \<open>try\<close> block.\<close>

definition rfc3339_seconds :: "string \<Rightarrow> int result" where
  "rfc3339_seconds s =
     (if \<not> rfc3339_shape s then Inl (InvalidArgument ''invalid shape'')
      else andthen (date_digits s) (\<lambda>date. andthen (checked_ymd date) (\<lambda>ymd.
        andthen (digits s 11 2) (\<lambda>hour. andthen (digits s 14 2) (\<lambda>minute. andthen (digits s 17 2) (\<lambda>second.
          if 23 < hour \<or> 59 < minute \<or> 59 < second then Inl (InvalidArgument ''clock time is invalid'')
          else andthen (after_fraction s 19) (\<lambda>position. andthen (utc_offset s position) (\<lambda>offset.
            Inr (days_of_date ymd * 86400 + hour * 3600 + minute * 60 + second - offset)))))))))"

definition parse_rfc3339 :: "string \<Rightarrow> parsed_when result" where
  "parse_rfc3339 s =
     (case rfc3339_seconds s of
        Inl e \<Rightarrow> Inl (InvalidArgument ''WHEN must be YYYY-MM-DD or an RFC 3339 timestamp with an explicit offset.'')
      | Inr t \<Rightarrow> Inr \<lparr>pw_epoch_seconds = t, pw_kind = Timed\<rparr>)"

definition parse_calendar_bound :: "zone \<Rightarrow> string \<Rightarrow> bool \<Rightarrow> int result" where
  "parse_calendar_bound zn s end_bound =
     (if date_shape s
      then andthen (parse_date s) (\<lambda>date. if end_bound then local_day_end zn date else local_midnight zn date)
      else andthen (parse_rfc3339 s) (\<lambda>w. Inr (pw_epoch_seconds w)))"

definition parse_milestone_when :: "zone \<Rightarrow> string \<Rightarrow> parsed_when result" where
  "parse_milestone_when zn s =
     (if date_shape s
      then andthen (parse_date s) (\<lambda>date. andthen (local_midnight zn date) (\<lambda>t.
             Inr \<lparr>pw_epoch_seconds = t, pw_kind = AllDay\<rparr>))
      else parse_rfc3339 s)"

subsection \<open>Ranges and printing\<close>

definition calendar_bounds :: "zone \<Rightarrow> string option \<Rightarrow> string option \<Rightarrow> int \<Rightarrow> (int \<times> int) result" where
  "calendar_bounds zn from to now =
     (case (from, to) of
        (None, None) \<Rightarrow>
          andthen (local_date zn now) (\<lambda>today. andthen (local_midnight zn today) (\<lambda>a.
            andthen (local_day_end zn today) (\<lambda>b. Inr (a, b))))
      | (Some f, None) \<Rightarrow>
          andthen (parse_calendar_bound zn f False) (\<lambda>a. andthen (local_date zn a) (\<lambda>d.
            andthen (local_day_end zn d) (\<lambda>b. Inr (a, b))))
      | (None, Some t) \<Rightarrow>
          andthen (parse_calendar_bound zn t True) (\<lambda>b. andthen (local_date zn b) (\<lambda>d.
            andthen (local_midnight zn d) (\<lambda>a. Inr (a, b))))
      | (Some f, Some t) \<Rightarrow>
          andthen (parse_calendar_bound zn f False) (\<lambda>a. andthen (parse_calendar_bound zn t True) (\<lambda>b. Inr (a, b))))"

definition resolve_calendar_range :: "zone \<Rightarrow> string option \<Rightarrow> string option \<Rightarrow> int \<Rightarrow> (int \<times> int) result" where
  "resolve_calendar_range zn from to now =
     andthen (calendar_bounds zn from to now) (\<lambda>(a, b).
       if b < a then Inl (InvalidArgument ''calendar --from must not be after --to.'') else Inr (a, b))"

text \<open>\<open>std::setw(2)\<close> with fill \<open>0\<close>, and \<open>%Y\<close> without padding.\<close>

definition two_digits :: "int \<Rightarrow> string" where
  "two_digits n = (let s = int_to_string n in replicate (2 - length s) (CHR ''0'') @ s)"

definition print_date :: "tm \<Rightarrow> string" where
  "print_date l = int_to_string (tm_year l + 1900) @ ''-'' @ two_digits (tm_mon l + 1) @ ''-'' @ two_digits (tm_mday l)"

definition format_milestone_when :: "zone \<Rightarrow> int \<Rightarrow> bool \<Rightarrow> string result" where
  "format_milestone_when zn t all_day =
     andthen (local_time zn t) (\<lambda>l.
       if all_day then Inr (print_date l)
       else andthen (checked_ymd (date_of_tm l)) (\<lambda>ymd.
         let civil_seconds = days_of_date ymd * 86400 + tm_hour l * 3600 + tm_min l * 60 + tm_sec l;
             offset_seconds = civil_seconds - t;
             absolute_offset = \<bar>offset_seconds\<bar>
         in Inr (print_date l @ ''T'' @ two_digits (tm_hour l) @ '':'' @ two_digits (tm_min l) @ '':'' @ two_digits (tm_sec l) @
                 (if offset_seconds < 0 then ''-'' else ''+'') @ two_digits (absolute_offset div 3600) @ '':'' @
                 two_digits (absolute_offset div 60 mod 60))))"

subsection \<open>Lemmas: day numbers\<close>

text \<open>The calendar's own successor, the reference for \<open>next_date\<close>.\<close>

fun succ_date :: "civil_date \<Rightarrow> civil_date" where
  "succ_date (CivilDate y m d) =
     (if d < month_days y m then CivilDate y m (Suc d)
      else if m < 12 then CivilDate y (Suc m) 1 else CivilDate (y + 1) 1 1)"

lemma div_pred: "0 < k \<Longrightarrow> (y :: int) div k = (y - 1) div k + (if y mod k = 0 then 1 else 0)"
proof -
  assume k: "0 < k"
  have y: "y = k * (y div k) + y mod k" by simp
  show ?thesis
  proof (cases "y mod k = 0")
    case True
    then have "y - 1 = k * (y div k - 1) + (k - 1)" using y by (simp add: algebra_simps)
    then have "(y - 1) div k = y div k - 1" using k by (metis div_mult_self4 div_pos_pos_trivial add.commute add_cancel_right_right diff_ge_0_iff_ge int_one_le_iff_zero_less less_irrefl mult.commute zless_add1_eq diff_add_cancel linorder_not_le less_le)
    then show ?thesis using True by simp
  next
    case False
    then have m: "0 \<le> y mod k - 1" "y mod k - 1 < k" using k pos_mod_sign [OF k, of y] pos_mod_bound [OF k, of y] by linarith+
    have "y - 1 = (y mod k - 1) + (y div k) * k" using y by (simp add: algebra_simps)
    then have "(y - 1) div k = y div k" using m k by (metis add.commute add_0_left div_mult_self1 div_pos_pos_trivial less_irrefl)
    then show ?thesis using False by simp
  qed
qed

lemma year_length:
  fixes y :: int
  assumes "A = a + i" and "B = b + j" and "C = c + k"
  shows "365 * y + A - B + C = 365 * (y - 1) + a - b + c + (365 + i - j + k)"
  using assms by simp

lemma leap_days:
  "q \<longrightarrow> p \<Longrightarrow> r \<longrightarrow> q \<Longrightarrow>
   365 + (if p then 1 else 0) - (if q then 1 else 0) + (if r then 1 else 0) = (if p \<and> (\<not> q \<or> r) then 366 else (365 :: int))"
  by (cases p; cases q; cases r; simp)

lemma days_before_next_year: "days_before_year (y + 1) = days_before_year y + (if is_leap y then 366 else 365)"
proof -
  let ?d = "\<lambda>k. if y mod k = 0 then 1 else 0 :: int"
  have c: "y mod 100 mod 4 = y mod 4" "y mod 400 mod 100 = y mod 100" by (rule mod_mod_cancel; simp)+
  have "y mod 100 = 0 \<Longrightarrow> y mod 4 = 0" "y mod 400 = 0 \<Longrightarrow> y mod 100 = 0" by (metis c mod_0)+
  then have "365 + ?d 4 - ?d 100 + ?d 400 = (if is_leap y then 366 else 365)"
    unfolding is_leap_def by (intro leap_days impI)
  moreover have "days_before_year (y + 1) = days_before_year y + (365 + ?d 4 - ?d 100 + ?d 400)"
    unfolding days_before_year_def add_diff_cancel_right' by (rule year_length; rule div_pred; simp)
  ultimately show ?thesis by simp
qed

lemma div_bounds: "0 < (k :: int) \<Longrightarrow> k * (z div k) \<le> z \<and> z \<le> k * (z div k) + (k - 1)"
  using mult_div_mod_eq [of k z] pos_mod_sign [of k z] pos_mod_bound [of k z] by linarith

lemma leap_count_bounds:
  fixes z a b c :: int
  assumes "4 * a \<le> z \<and> z \<le> 4 * a + (4 - 1)" "100 * b \<le> z \<and> z \<le> 100 * b + (100 - 1)" "400 * c \<le> z \<and> z \<le> 400 * c + (400 - 1)"
  shows "146097 * z - 699 \<le> 400 * (365 * z + a - b + c)" "400 * (365 * z + a - b + c) \<le> 146097 * z + 396"
  using assms by auto

lemma days_before_year_bounds:
  "146097 * (y - 1) - 699 \<le> 400 * days_before_year y" "400 * days_before_year y \<le> 146097 * (y - 1) + 396"
  unfolding days_before_year_def
  by (rule leap_count_bounds [OF div_bounds div_bounds div_bounds]; simp)+

lemma year_estimate:
  fixes n y e D E :: int
  assumes "D < n" and "n \<le> E" and "146097 * e \<le> 400 * n" and "400 * n \<le> 146097 * e + (146097 - 1)"
    and "146097 * (y - 1) - 699 \<le> 400 * D" and "400 * E \<le> 146097 * (y + 1 - 1) + 396"
  shows "e = y - 2 \<or> e = y - 1 \<or> e = y"
  using assms by auto

lemma year_of_ordinal_eq:
  assumes "days_before_year y < n" and "n \<le> days_before_year (y + 1)"
  shows "year_of_ordinal n = y"
proof -
  let ?e = "400 * n div 146097"
  have e: "146097 * ?e \<le> 400 * n" "400 * n \<le> 146097 * ?e + (146097 - 1)" using div_bounds [of 146097 "400 * n"] by simp_all
  consider "?e = y - 2" | "?e = y - 1" | "?e = y"
    using year_estimate [OF assms e days_before_year_bounds(1) [of y] days_before_year_bounds(2) [of "y + 1"]] by blast
  then show ?thesis
  proof cases
    case 3
    have "days_before_year (y + 1) < days_before_year (y + 1 + 1)" using days_before_next_year [of "y + 1"] by (simp split: if_splits)
    then show ?thesis using 3 assms by (simp add: year_of_ordinal_def Let_def)
  qed (use assms in \<open>simp_all add: year_of_ordinal_def Let_def\<close>)
qed

lemma month_walk_finds:
  assumes "k \<le> m" and "1 \<le> k" and "m \<le> 12" and "1 \<le> d" and "d \<le> month_days y m"
  shows "month_walk y k (days_before_month y m - days_before_month y k + int d) = (m, d)"
  using assms
proof (induction "m - k" arbitrary: k)
  case 0
  then have "k = m" by simp
  then show ?case using 0 by (simp add: month_walk.simps [of y m])
next
  case (Suc n)
  have st: "days_before_month y (Suc k) = days_before_month y k + int (month_days y k)"
    using Suc.prems(2) by (cases k) auto
  have mono: "i \<le> j \<Longrightarrow> days_before_month y i \<le> days_before_month y j" for i j
  proof (induction j)
    case (Suc j)
    then show ?case by (cases "i = Suc j"; cases j) (auto simp: le_Suc_eq)
  qed simp
  have "days_before_month y (Suc k) \<le> days_before_month y m" using Suc.hyps(2) by (intro mono) simp
  then have "\<not> days_before_month y m - days_before_month y k + int d \<le> int (month_days y k)" using st Suc.prems(4) by simp
  moreover have "\<not> 12 \<le> k" using Suc by simp
  ultimately have "month_walk y k (days_before_month y m - days_before_month y k + int d) =
      month_walk y (Suc k) (days_before_month y m - days_before_month y k + int d - int (month_days y k))"
    by (simp add: month_walk.simps [of y k])
  also have "\<dots> = month_walk y (Suc k) (days_before_month y m - days_before_month y (Suc k) + int d)"
    using st by (simp add: algebra_simps)
  also have "\<dots> = (m, d)" by (rule Suc.hyps(1)) (use Suc in auto)
  finally show ?case .
qed

lemma day_of_year_bounds:
  assumes "1 \<le> m" and "m \<le> 12" and "1 \<le> d" and "d \<le> month_days y m"
  shows "1 \<le> days_before_month y m + int d" "days_before_month y m + int d \<le> (if is_leap y then 366 else 365)"
proof -
  have "m \<in> {1,2,3,4,5,6,7,8,9,10,11,12}" using assms(1,2) by (simp, arith)
  then show "1 \<le> days_before_month y m + int d" "days_before_month y m + int d \<le> (if is_leap y then 366 else 365)"
    using assms(3,4) by (auto simp: month_days_def eval_nat_numeral)
qed

lemma date_of_days_of_date:
  assumes "1 \<le> m" and "m \<le> 12" and "1 \<le> d" and "d \<le> month_days y m"
  shows "date_of_days (days_of_date (CivilDate y m d)) = CivilDate y m d"
proof -
  let ?n = "days_before_year y + days_before_month y m + int d"
  have "year_of_ordinal ?n = y"
    by (rule year_of_ordinal_eq) (use day_of_year_bounds [OF assms] days_before_next_year [of y] in auto)
  moreover have "month_walk y 1 (days_before_month y m + int d) = (m, d)"
    using month_walk_finds [of 1 m d y] assms by simp
  ultimately show ?thesis by (simp add: date_of_days_def days_of_date_def Let_def)
qed

lemma days_before_december: "days_before_month y 12 + 31 = (if is_leap y then 366 else 365)"
  by (simp add: month_days_def eval_nat_numeral)

lemma succ_date_ok:
  assumes "1 \<le> m" and "m \<le> 12" and "1 \<le> d" and "d \<le> month_days y m"
  shows "days_of_date (succ_date (CivilDate y m d)) = days_of_date (CivilDate y m d) + 1"
    "1 \<le> cd_month (succ_date (CivilDate y m d))" "cd_month (succ_date (CivilDate y m d)) \<le> 12"
    "1 \<le> cd_day (succ_date (CivilDate y m d))"
    "cd_day (succ_date (CivilDate y m d)) \<le> month_days (cd_year (succ_date (CivilDate y m d))) (cd_month (succ_date (CivilDate y m d)))"
proof -
  consider "d < month_days y m" | "d = month_days y m" "m < 12" | "d = month_days y m" "m = 12" using assms by linarith
  then have "days_of_date (succ_date (CivilDate y m d)) = days_of_date (CivilDate y m d) + 1"
  proof cases
    case 2
    have "days_before_month y (Suc m) = days_before_month y m + int (month_days y m)" using assms(1) by (cases m) auto
    then show ?thesis using 2 by (simp add: days_of_date_def)
  next
    case 3
    then have "d = 31" by (simp add: month_days_def)
    then show ?thesis using 3 days_before_next_year [of y] days_before_december [of y]
      by (auto simp: days_of_date_def split: if_splits)
  qed (simp add: days_of_date_def)
  then show "days_of_date (succ_date (CivilDate y m d)) = days_of_date (CivilDate y m d) + 1" .
qed (use assms in \<open>auto simp: month_days_def\<close>)

lemma to_int16_id [simp]: "- 32768 \<le> y \<Longrightarrow> y < 32768 \<Longrightarrow> to_int16 y = y"
  by (simp add: to_int16_def)

lemma checked_ymd_ok: "date_ok d \<Longrightarrow> - 32768 \<le> cd_year d \<Longrightarrow> cd_year d < 32768 \<Longrightarrow> checked_ymd d = Inr d"
  by (simp add: checked_ymd_def)

lemma next_date_succ:
  assumes "date_ok date" and "- 32768 \<le> cd_year date" and "cd_year date < 32767"
  shows "next_date date = Inr (succ_date date)"
proof -
  obtain y m d where date: "date = CivilDate y m d" by (cases date)
  have b: "1 \<le> m" "m \<le> 12" "1 \<le> d" "d \<le> month_days y m" using assms(1) by (simp_all add: date date_ok_def)
  obtain y' m' d' where sc: "succ_date date = CivilDate y' m' d'" by (cases "succ_date date")
  note s = succ_date_ok [OF b, folded date, unfolded sc, simplified]
  have "date_of_days (days_of_date date + 1) = CivilDate y' m' d'"
    using date_of_days_of_date [of m' d' y'] s by (simp add: sc)
  moreover have "y' = y \<or> y' = y + 1" using sc by (auto simp: date split: if_splits)
  moreover have "cd_year date = y" by (simp add: date)
  ultimately show ?thesis using assms by (auto simp: next_date_def checked_ymd_ok sc)
qed

subsection \<open>Lemmas: printed numbers are read back\<close>

lemma list_of_length_2: "length xs = 2 \<Longrightarrow> \<exists>a b. xs = [a, b]"
  by (auto simp: numeral_2_eq_2 length_Suc_conv)

lemma list_of_length_4: "length xs = 4 \<Longrightarrow> \<exists>a b c d. xs = [a, b, c, d]"
  by (auto simp: eval_nat_numeral length_Suc_conv)

lemma length_to_string_step: "10 \<le> n \<Longrightarrow> length (to_string n) = Suc (length (to_string (n div 10)))"
  by (subst to_string.simps) simp

lemma length_to_string: "n < 10 \<Longrightarrow> length (to_string n) = 1" "10 \<le> n \<Longrightarrow> n < 100 \<Longrightarrow> length (to_string n) = 2"
  by (simp_all add: to_string.simps [of n] to_string.simps [of "n div 10"])

lemma length_to_string_4: "1000 \<le> n \<Longrightarrow> n < 10000 \<Longrightarrow> length (to_string n) = 4"
  using length_to_string_step [of n] length_to_string_step [of "n div 10"] length_to_string(2) [of "n div 10 div 10"] by simp

lemma two_digits_read:
  assumes "0 \<le> n" and "n < 100"
  shows "\<exists>a b. two_digits n = [a, b] \<and> is_digit a \<and> is_digit b \<and> int (dec_value [a, b]) = n"
proof -
  define k where "k = nat n"
  have n: "n = int k" "k < 100" using assms by (simp_all add: k_def)
  have td: "two_digits n = replicate (2 - length (to_string k)) (CHR ''0'') @ to_string k"
    by (simp add: two_digits_def int_to_string_def n Let_def)
  have z: "is_digit (CHR ''0'')" "digit_value (CHR ''0'') = 0" by (simp_all add: is_digit_def digit_value_def byte_of_def)
  have "length (two_digits n) = 2" using length_to_string(1,2) [of k] n(2) unfolding td by (cases "k < 10") auto
  moreover have "list_all is_digit (two_digits n)" unfolding td using z to_string_digits [of k] by (auto simp: list_all_iff)
  moreover have "dec_value (two_digits n) = k"
    using length_to_string(1,2) [of k] n(2) dec_value_to_string [of k] z unfolding td
    by (cases "k < 10") (auto simp: dec_value_def)
  ultimately show ?thesis using list_of_length_2 [of "two_digits n"] n(1) by auto
qed

lemma year_read:
  assumes "1000 \<le> y" and "y < 10000"
  shows "\<exists>a b c d. int_to_string y = [a, b, c, d] \<and> list_all is_digit [a, b, c, d] \<and> int (dec_value [a, b, c, d]) = y"
proof -
  have s: "int_to_string y = to_string (nat y)" using assms by (simp add: int_to_string_def)
  have "length (to_string (nat y)) = 4" by (rule length_to_string_4) (use assms in simp_all)
  then obtain a b c d where l: "to_string (nat y) = [a, b, c, d]" using list_of_length_4 by blast
  then show ?thesis using s to_string_digits [of "nat y"] dec_value_to_string [of "nat y"] assms by auto
qed

text \<open>The ranges \<open>localtime_r\<close> documents, for years with four digits.\<close>

definition tm_ok :: "tm \<Rightarrow> bool" where
  "tm_ok l \<longleftrightarrow> 1000 \<le> tm_year l + 1900 \<and> tm_year l + 1900 < 10000 \<and> 0 \<le> tm_mon l \<and> tm_mon l < 12 \<and>
     1 \<le> tm_mday l \<and> nat (tm_mday l) \<le> month_days (tm_year l + 1900) (nat (tm_mon l + 1)) \<and>
     0 \<le> tm_hour l \<and> tm_hour l < 24 \<and> 0 \<le> tm_min l \<and> tm_min l < 60 \<and> 0 \<le> tm_sec l \<and> tm_sec l < 60"

lemma month_days_le: "month_days y m \<le> 31"
  by (simp add: month_days_def)

lemma tm_ok_date: "tm_ok l \<Longrightarrow> checked_ymd (date_of_tm l) = Inr (date_of_tm l)"
  by (rule checked_ymd_ok) (auto simp: tm_ok_def date_of_tm_def date_ok_def)

lemma print_date_read:
  assumes "tm_ok l"
  shows "\<exists>a b c d e f g h. print_date l = [a, b, c, d, CHR ''-'', e, f, CHR ''-'', g, h] \<and>
    list_all is_digit [a, b, c, d, e, f, g, h] \<and> int (dec_value [a, b, c, d]) = tm_year l + 1900 \<and>
    int (dec_value [e, f]) = tm_mon l + 1 \<and> int (dec_value [g, h]) = tm_mday l"
proof -
  have b: "1000 \<le> tm_year l + 1900" "tm_year l + 1900 < 10000" "0 \<le> tm_mon l + 1" "tm_mon l + 1 < 100" "0 \<le> tm_mday l" "tm_mday l < 100"
    using assms month_days_le [of "tm_year l + 1900" "nat (tm_mon l + 1)"] by (auto simp: tm_ok_def)
  show ?thesis using year_read [OF b(1,2)] two_digits_read [OF b(3,4)] two_digits_read [OF b(5,6)]
    by (auto simp: print_date_def)
qed

lemma date_digits_read:
  assumes "list_all is_digit [a, b, c, d, e, f, g, h]"
  shows "date_digits ([a, b, c, d, CHR ''-'', e, f, CHR ''-'', g, h] @ r) =
    Inr (CivilDate (int (dec_value [a, b, c, d])) (dec_value [e, f]) (dec_value [g, h]))"
  using assms by (simp add: date_digits_def digits_def numeral_eq_Suc)

lemma rfc3339_read:
  assumes "list_all is_digit [a, b, c, d, e, f, g, h]" and "list_all is_digit [i, j, k, l, m, n]"
    and "list_all is_digit [o1, o2, o3, o4]" and "sg = CHR ''+'' \<or> sg = CHR ''-''"
    and "date = CivilDate (int (dec_value [a, b, c, d])) (dec_value [e, f]) (dec_value [g, h])" and "checked_ymd date = Inr date"
    and "dec_value [i, j] \<le> 23" and "dec_value [k, l] \<le> 59" and "dec_value [m, n] \<le> 59"
    and "dec_value [o1, o2] \<le> 23" and "dec_value [o3, o4] \<le> 59"
  shows "rfc3339_seconds ([a, b, c, d, CHR ''-'', e, f, CHR ''-'', g, h] @ [CHR ''T'', i, j, CHR '':'', k, l, CHR '':'', m, n, sg, o1, o2, CHR '':'', o3, o4]) =
    Inr (days_of_date date * 86400 + int (dec_value [i, j]) * 3600 + int (dec_value [k, l]) * 60 + int (dec_value [m, n]) -
         (if sg = CHR ''-'' then - ((int (dec_value [o1, o2]) * 60 + int (dec_value [o3, o4])) * 60)
          else (int (dec_value [o1, o2]) * 60 + int (dec_value [o3, o4])) * 60))"
proof -
  let ?s = "[a, b, c, d, CHR ''-'', e, f, CHR ''-'', g, h] @ [CHR ''T'', i, j, CHR '':'', k, l, CHR '':'', m, n, sg, o1, o2, CHR '':'', o3, o4]"
  have shape: "rfc3339_shape ?s" by (simp add: rfc3339_shape_def)
  have clock: "digits ?s 11 2 = Inr (int (dec_value [i, j]))" "digits ?s 14 2 = Inr (int (dec_value [k, l]))"
    "digits ?s 17 2 = Inr (int (dec_value [m, n]))" "digits ?s 20 2 = Inr (int (dec_value [o1, o2]))"
    "digits ?s 23 2 = Inr (int (dec_value [o3, o4]))"
    using assms(2,3) by (simp_all add: digits_def numeral_eq_Suc)
  have frac: "after_fraction ?s 19 = Inr 19" using assms(4) by (auto simp: after_fraction_def)
  have off: "utc_offset ?s 19 = Inr (if sg = CHR ''-'' then - ((int (dec_value [o1, o2]) * 60 + int (dec_value [o3, o4])) * 60)
          else (int (dec_value [o1, o2]) * 60 + int (dec_value [o3, o4])) * 60)"
    using assms(4,10,11) clock(4,5) by (auto simp: utc_offset_def)
  show ?thesis
    using assms(6-9) date_digits_read [OF assms(1)] clock(1-3) frac off
    by (simp only: rfc3339_seconds_def shape assms(5) andthen_Inr) auto
qed

lemma minutes_back:
  assumes "0 \<le> x" and "(x :: int) mod 60 = 0"
  shows "(x div 3600 * 60 + x div 60 mod 60) * 60 = x"
proof -
  have "x div 3600 = x div 60 div 60" using zdiv_zmult2_eq [of 60 x 60] by simp
  then have "x div 3600 * 60 + x div 60 mod 60 = x div 60" by (simp only: div_mult_mod_eq)
  then show ?thesis using assms div_mult_mod_eq [of x 60] by simp
qed

lemma date_shape_read: "date_shape [a, b, c, d, CHR ''-'', e, f, CHR ''-'', g, h]"
  by (simp add: date_shape_def)

subsection \<open>Lemmas: days as intervals\<close>

lemma dec_value_bound: "list_all is_digit ds \<Longrightarrow> dec_value ds < 10 ^ length ds"
proof (induction ds rule: rev_induct)
  case (snoc c ds)
  then have "dec_value ds < 10 ^ length ds" "digit_value c \<le> 9" by (auto simp: is_digit_def digit_value_def)
  then show ?case by (simp add: dec_value_snoc)
qed (simp add: dec_value_Nil)

lemma parse_date_bounds:
  assumes "parse_date s = Inr date"
  shows "date_ok date" "0 \<le> cd_year date" "cd_year date < 10000"
proof -
  obtain y m d where y: "digits s 0 4 = Inr y" and date: "date = CivilDate y (nat m) (nat d)"
    and c: "checked_ymd date \<noteq> Inl (InvalidArgument ''calendar date is invalid'')"
    using assms by (auto simp: parse_date_def date_digits_def andthen_eq_Inr checked_ymd_def Let_def split: if_splits)
  have b: "0 \<le> y" "y < 10000"
    using y dec_value_bound [of "take 4 s"] by (auto simp: digits_def Let_def split: if_splits)
  then show "0 \<le> cd_year date" "cd_year date < 10000" by (simp_all add: date)
  then show "date_ok date" using c b by (auto simp: checked_ymd_def Let_def date split: if_splits)
qed

lemma civil_date_less:
  "CivilDate y m d < CivilDate y' m' d' \<longleftrightarrow> y < y' \<or> (y = y' \<and> (m < m' \<or> (m = m' \<and> d < d')))"
  "CivilDate y m d \<le> CivilDate y' m' d' \<longleftrightarrow> y < y' \<or> (y = y' \<and> (m < m' \<or> (m = m' \<and> d \<le> d')))"
  by (auto simp: less_civil_date_def less_eq_civil_date_def)

lemma date_less_succ: "b < succ_date b"
  by (cases b) (simp add: civil_date_less)

lemma less_succ_date:
  assumes "date_ok a" and "a < succ_date b"
  shows "a \<le> b"
proof -
  obtain y m d y' m' d' where ab: "a = CivilDate y' m' d'" "b = CivilDate y m d" by (cases a; cases b)
  have ok: "1 \<le> m'" "m' \<le> 12" "1 \<le> d'" "d' \<le> month_days y' m'" using assms(1) by (simp_all add: ab date_ok_def)
  consider "d < month_days y m" | "\<not> d < month_days y m" "m < 12" | "\<not> d < month_days y m" "\<not> m < 12" by blast
  then show ?thesis
  proof cases
    case 1
    then have "CivilDate y' m' d' < CivilDate y m (Suc d)" using assms(2) by (simp add: ab)
    then show ?thesis by (auto simp: ab civil_date_less)
  next
    case 2
    then have "CivilDate y' m' d' < CivilDate y (Suc m) 1" using assms(2) by (simp add: ab)
    then have "y' < y \<or> (y' = y \<and> m' \<le> m)" using ok(3) by (auto simp: civil_date_less)
    then show ?thesis using ok(4) 2(1) by (auto simp: ab civil_date_less)
  next
    case 3
    then have "CivilDate y' m' d' < CivilDate (y + 1) 1 1" using assms(2) by (simp add: ab)
    then have "y' \<le> y" using ok(1,3) by (auto simp: civil_date_less)
    moreover have "m' < m \<or> m' = m" using ok(2) 3(2) by linarith
    ultimately show ?thesis using ok(4) 3(1) by (auto simp: ab civil_date_less)
  qed
qed

lemma local_midnight_date:
  assumes "local_midnight zn d = Inr m"
  shows "local_date zn m = Inr d"
proof -
  have "date_of_tm (midnight_of d) = d" by (cases d) (simp add: date_of_tm_def midnight_of_def)
  then show ?thesis
    using assms by (auto simp: local_midnight_def local_date_def andthen_eq_Inr Let_def split: if_splits)
qed

lemma local_day_end_eq:
  assumes "local_day_end zn date = Inr e" and "date_ok date" and "0 \<le> cd_year date" and "cd_year date < 10000"
  shows "local_midnight zn (succ_date date) = Inr (e + 1)"
  using assms next_date_succ [of date] by (auto simp: local_day_end_def andthen_eq_Inr split: if_splits)

subsection \<open>Properties\<close>

text \<open>
  The calendar arithmetic is right. For every valid date the conversion to days since
  1970-01-01 is undone by the conversion back, the day after has the next day number, and
  \<open>next_date\<close>, which goes through day numbers, agrees with the calendar's successor rule
  (next day, first of the next month, New Year), leap years included.
\<close>

theorem next_date_calendar:
  assumes "date_ok date" and "- 32768 \<le> cd_year date" and "cd_year date < 32767"
  shows "next_date date = Inr (succ_date date) \<and> date_of_days (days_of_date date) = date \<and>
    days_of_date (succ_date date) = days_of_date date + 1 \<and> days_of_date (CivilDate 1970 1 1) = 0"
proof -
  obtain y m d where date: "date = CivilDate y m d" by (cases date)
  have b: "1 \<le> m" "m \<le> 12" "1 \<le> d" "d \<le> month_days y m" using assms(1) by (simp_all add: date date_ok_def)
  have "days_of_date (CivilDate 1970 1 1) = 0" by (simp add: days_of_date_def days_before_year_def)
  then show ?thesis
    using next_date_succ [OF assms] date_of_days_of_date [OF b] succ_date_ok(1) [OF b] by (simp only: date simp_thms)
qed

theorem next_date_calendar_witness:
  "next_date (CivilDate 2024 2 29) = Inr (CivilDate 2024 3 1)"
proof -
  have "date_ok (CivilDate 2024 2 29)" by (simp add: date_ok_def month_days_def is_leap_def)
  from next_date_calendar [OF this] show ?thesis by (simp add: month_days_def is_leap_def)
qed

text \<open>
  A printed time is parsed back. When the local time of \<open>t\<close> has the ranges
  \<open>localtime_r\<close> documents, a year with four digits and an offset of whole minutes below a day,
  the timed form is parsed to \<open>t\<close> and marked timed. When \<open>t\<close> is a local midnight that
  \<open>mktime\<close> finds, the all-day form is parsed to \<open>t\<close> and marked all-day.
\<close>

theorem when_round_trip:
  assumes "zn_localtime zn t = Some l" and "tm_ok l"
    and "offset = days_of_date (date_of_tm l) * 86400 + tm_hour l * 3600 + tm_min l * 60 + tm_sec l - t"
    and "\<bar>offset\<bar> < 86400" and "offset mod 60 = 0"
  shows "(\<exists>s. format_milestone_when zn t False = Inr s \<and>
      parse_milestone_when zn s = Inr \<lparr>pw_epoch_seconds = t, pw_kind = Timed\<rparr>) \<and>
    (l = midnight_of (date_of_tm l) \<and> zn_mktime zn l = t \<and> t \<noteq> - 1 \<longrightarrow>
      (\<exists>s. format_milestone_when zn t True = Inr s \<and>
        parse_milestone_when zn s = Inr \<lparr>pw_epoch_seconds = t, pw_kind = AllDay\<rparr>))"
proof (intro conjI impI)
  obtain a b c d e f g h where pd: "print_date l = [a, b, c, d, CHR ''-'', e, f, CHR ''-'', g, h]"
    and pd_digits: "list_all is_digit [a, b, c, d, e, f, g, h]" and pd_values: "int (dec_value [a, b, c, d]) = tm_year l + 1900"
      "int (dec_value [e, f]) = tm_mon l + 1" "int (dec_value [g, h]) = tm_mday l"
    using print_date_read [OF assms(2)] by blast
  have date: "CivilDate (int (dec_value [a, b, c, d])) (dec_value [e, f]) (dec_value [g, h]) = date_of_tm l"
    using pd_values by (simp add: date_of_tm_def flip: pd_values(2,3))
  have lt: "local_time zn t = Inr l" using assms(1) by (simp add: local_time_def)
  note ymd = tm_ok_date [OF assms(2)]
  show "\<exists>s. format_milestone_when zn t False = Inr s \<and> parse_milestone_when zn s = Inr \<lparr>pw_epoch_seconds = t, pw_kind = Timed\<rparr>"
  proof -
    let ?abs = "\<bar>offset\<bar>"
    have bounds: "0 \<le> ?abs div 3600" "?abs div 3600 < 24" "0 \<le> ?abs div 60 mod 60" "?abs div 60 mod 60 < 60"
      using assms(4) by auto
    obtain i j where h: "two_digits (tm_hour l) = [i, j]" "is_digit i" "is_digit j" "int (dec_value [i, j]) = tm_hour l"
      using two_digits_read [of "tm_hour l"] assms(2) by (auto simp: tm_ok_def)
    obtain k k' where m: "two_digits (tm_min l) = [k, k']" "is_digit k" "is_digit k'" "int (dec_value [k, k']) = tm_min l"
      using two_digits_read [of "tm_min l"] assms(2) by (auto simp: tm_ok_def)
    obtain n n' where sec: "two_digits (tm_sec l) = [n, n']" "is_digit n" "is_digit n'" "int (dec_value [n, n']) = tm_sec l"
      using two_digits_read [of "tm_sec l"] assms(2) by (auto simp: tm_ok_def)
    obtain o1 o2 where oh: "two_digits (?abs div 3600) = [o1, o2]" "is_digit o1" "is_digit o2" "int (dec_value [o1, o2]) = ?abs div 3600"
      using two_digits_read [of "?abs div 3600"] bounds by auto
    obtain o3 o4 where om: "two_digits (?abs div 60 mod 60) = [o3, o4]" "is_digit o3" "is_digit o4" "int (dec_value [o3, o4]) = ?abs div 60 mod 60"
      using two_digits_read [of "?abs div 60 mod 60"] bounds by auto
    define sg where "sg = (if offset < 0 then CHR ''-'' else CHR ''+'')"
    let ?s = "[a, b, c, d, CHR ''-'', e, f, CHR ''-'', g, h] @ [CHR ''T'', i, j, CHR '':'', k, k', CHR '':'', n, n', sg, o1, o2, CHR '':'', o3, o4]"
    have fmt: "format_milestone_when zn t False = Inr ?s"
      unfolding format_milestone_when_def lt andthen_Inr ymd Let_def assms(3) [symmetric]
      by (simp add: pd h(1) m(1) sec(1) oh(1) om(1) sg_def)
    have whole: "(?abs div 3600 * 60 + ?abs div 60 mod 60) * 60 = ?abs" by (rule minutes_back) (use assms(5) in auto)
    have "rfc3339_seconds ?s = Inr (days_of_date (date_of_tm l) * 86400 + int (dec_value [i, j]) * 3600 + int (dec_value [k, k']) * 60 +
        int (dec_value [n, n']) - (if sg = CHR ''-'' then - ((int (dec_value [o1, o2]) * 60 + int (dec_value [o3, o4])) * 60)
          else (int (dec_value [o1, o2]) * 60 + int (dec_value [o3, o4])) * 60))"
    proof (rule rfc3339_read)
      have le: "int v = x \<Longrightarrow> x < 24 \<Longrightarrow> v \<le> 23" "int v = x \<Longrightarrow> x < 60 \<Longrightarrow> v \<le> 59" for v x by simp_all
      have c: "tm_hour l < 24" "tm_min l < 60" "tm_sec l < 60" using assms(2) by (simp_all add: tm_ok_def)
      show "dec_value [i, j] \<le> 23" "dec_value [k, k'] \<le> 59" "dec_value [n, n'] \<le> 59" "dec_value [o1, o2] \<le> 23" "dec_value [o3, o4] \<le> 59"
        by (rule le(1) [OF h(4) c(1)], rule le(2) [OF m(4) c(2)], rule le(2) [OF sec(4) c(3)], rule le(1) [OF oh(4) bounds(2)], rule le(2) [OF om(4) bounds(4)])
    qed (use pd_digits h(2,3) m(2,3) sec(2,3) oh(2,3) om(2,3) date ymd in \<open>simp_all add: sg_def\<close>)
    also have "\<dots> = Inr (days_of_date (date_of_tm l) * 86400 + tm_hour l * 3600 + tm_min l * 60 + tm_sec l -
        (if sg = CHR ''-'' then - ?abs else ?abs))"
      unfolding h(4) m(4) sec(4) oh(4) om(4) whole ..
    also have "\<dots> = Inr t"
    proof -
      have neg: "(sg = CHR ''-'') = (offset < 0)" by (simp add: sg_def)
      have "x - (if y < 0 then - \<bar>y\<bar> else \<bar>y\<bar>) = x - y" for x y :: int by simp
      then show ?thesis unfolding neg using assms(3) by (simp only: sum.inject)
    qed
    finally have "parse_rfc3339 ?s = Inr \<lparr>pw_epoch_seconds = t, pw_kind = Timed\<rparr>" by (simp only: parse_rfc3339_def sum.case)
    moreover have "\<not> date_shape ?s" by (simp add: date_shape_def)
    ultimately have "parse_milestone_when zn ?s = Inr \<lparr>pw_epoch_seconds = t, pw_kind = Timed\<rparr>"
      unfolding parse_milestone_when_def by (simp only: if_False)
    then show ?thesis by (intro exI conjI) (rule fmt)
  qed
  assume mid: "l = midnight_of (date_of_tm l) \<and> zn_mktime zn l = t \<and> t \<noteq> - 1"
  have "parse_date (print_date l) = Inr (date_of_tm l)"
    using date_digits_read [OF pd_digits, of "[]"] ymd date_shape_read
    by (simp only: parse_date_def pd date append_Nil2 andthen_Inr if_False not_not simp_thms)
  moreover have "local_midnight zn (date_of_tm l) = Inr t" using mid lt by (simp add: local_midnight_def)
  ultimately show "\<exists>s. format_milestone_when zn t True = Inr s \<and>
      parse_milestone_when zn s = Inr \<lparr>pw_epoch_seconds = t, pw_kind = AllDay\<rparr>"
    using date_shape_read by (simp add: format_milestone_when_def lt parse_milestone_when_def pd)
qed

text \<open>Coordinated universal time as a zone.\<close>

definition utc_tm :: "int \<Rightarrow> tm" where
  "utc_tm t =
     (let d = date_of_days (t div 86400); r = t mod 86400
      in \<lparr>tm_year = cd_year d - 1900, tm_mon = int (cd_month d) - 1, tm_mday = int (cd_day d),
          tm_hour = r div 3600, tm_min = r div 60 mod 60, tm_sec = r mod 60\<rparr>)"

definition utc_zone :: zone where
  "utc_zone =
     \<lparr>zn_localtime = (\<lambda>t. Some (utc_tm t)), zn_mktime = (\<lambda>l. days_of_date (date_of_tm l) * 86400)\<rparr>"

lemma utc_leap_day: "utc_tm (days_of_date (CivilDate 2024 2 29) * 86400 + 3661) =
  \<lparr>tm_year = 124, tm_mon = 1, tm_mday = 29, tm_hour = 1, tm_min = 1, tm_sec = 1\<rparr>"
  using date_of_days_of_date [of 2 29 2024] by (simp add: utc_tm_def month_days_def is_leap_def)

theorem when_round_trip_witness:
  "\<exists>s. format_milestone_when utc_zone (days_of_date (CivilDate 2024 2 29) * 86400 + 3661) False = Inr s \<and>
     parse_milestone_when utc_zone s =
       Inr \<lparr>pw_epoch_seconds = days_of_date (CivilDate 2024 2 29) * 86400 + 3661, pw_kind = Timed\<rparr>"
proof -
  let ?t = "days_of_date (CivilDate 2024 2 29) * 86400 + 3661" and
    ?l = "\<lparr>tm_year = 124, tm_mon = 1, tm_mday = 29, tm_hour = 1, tm_min = 1, tm_sec = 1\<rparr>"
  have l: "zn_localtime utc_zone ?t = Some ?l" by (simp add: utc_zone_def utc_leap_day)
  have ok: "tm_ok ?l" by (simp add: tm_ok_def month_days_def is_leap_def)
  have off: "0 = days_of_date (date_of_tm ?l) * 86400 + tm_hour ?l * 3600 + tm_min ?l * 60 + tm_sec ?l - ?t"
    by (simp add: date_of_tm_def)
  from when_round_trip [OF l ok off] show ?thesis by simp
qed

text \<open>
  A range of days holds exactly the instants of those days. In a zone in which the local date
  \<open>dt\<close> never goes back and a local midnight is the first second of its day, a range between
  two date-only bounds that is not refused contains an instant exactly when its local date lies
  between the two dates, both included, whatever the lengths of the days in between. A range is
  never returned with its start after its end.
\<close>

theorem calendar_range_days:
  assumes dates: "\<And>t. local_date zn t = Inr (dt t)" and valid: "\<And>t. date_ok (dt t)"
    and mono: "\<And>s t. s \<le> t \<Longrightarrow> dt s \<le> dt t"
    and first: "\<And>d m. local_midnight zn d = Inr m \<Longrightarrow> dt (m - 1) < d"
    and f: "date_shape f" "parse_date f = Inr d1" and u: "date_shape u" "parse_date u = Inr d2"
    and r: "resolve_calendar_range zn (Some f) (Some u) now = Inr (a, b)"
  shows "a \<le> b \<and> (a \<le> t \<and> t \<le> b \<longleftrightarrow> d1 \<le> dt t \<and> dt t \<le> d2)"
proof -
  have a: "local_midnight zn d1 = Inr a" and e: "local_day_end zn d2 = Inr b" and le: "a \<le> b"
    using r f u by (auto simp: resolve_calendar_range_def calendar_bounds_def parse_calendar_bound_def andthen_eq_Inr split: if_splits)
  note d2 = parse_date_bounds [OF u(2)]
  have b: "local_midnight zn (succ_date d2) = Inr (b + 1)" by (rule local_day_end_eq [OF e d2])
  have at: "dt a = d1" "dt (b + 1) = succ_date d2"
    using local_midnight_date [OF a] local_midnight_date [OF b] dates by simp_all
  have "a \<le> t \<longleftrightarrow> d1 \<le> dt t"
  proof
    show "a \<le> t \<Longrightarrow> d1 \<le> dt t" using mono [of a t] at(1) by simp
    show "d1 \<le> dt t \<Longrightarrow> a \<le> t" using mono [of t "a - 1"] first [OF a] by (cases "a \<le> t") auto
  qed
  moreover have "t \<le> b \<longleftrightarrow> dt t \<le> d2"
  proof
    assume "t \<le> b"
    then have "dt t < succ_date d2" using mono [of t b] first [OF b] by simp
    then show "dt t \<le> d2" by (rule less_succ_date [OF valid])
  next
    assume "dt t \<le> d2"
    then show "t \<le> b" using mono [of "b + 1" t] at(2) date_less_succ [of d2] by (cases "t \<le> b") auto
  qed
  ultimately show ?thesis using le by blast
qed

text \<open>A zone that knows the last day of February 2024 and its neighbours.\<close>

definition leap_date :: "int \<Rightarrow> civil_date" where
  "leap_date t = (if t < 0 then CivilDate 2024 2 28 else if t < 86400 then CivilDate 2024 2 29 else CivilDate 2024 3 1)"

definition leap_zone :: zone where
  "leap_zone =
     \<lparr>zn_localtime = (\<lambda>t. Some (midnight_of (leap_date t))),
      zn_mktime = (\<lambda>l. if l = midnight_of (CivilDate 2024 2 29) then 0 else if l = midnight_of (CivilDate 2024 3 1) then 86400 else - 1)\<rparr>"

lemma leap_zone_contract:
  "local_date leap_zone t = Inr (leap_date t)" "date_ok (leap_date t)" "s \<le> t \<Longrightarrow> leap_date s \<le> leap_date t"
  "local_midnight leap_zone d = Inr m \<Longrightarrow> leap_date (m - 1) < d"
proof -
  show "local_date leap_zone t = Inr (leap_date t)"
    by (cases "leap_date t") (simp add: local_date_def local_time_def leap_zone_def date_of_tm_def midnight_of_def)
  show "date_ok (leap_date t)" by (simp add: leap_date_def date_ok_def month_days_def is_leap_def)
  show "s \<le> t \<Longrightarrow> leap_date s \<le> leap_date t" by (simp add: leap_date_def less_eq_civil_date_def)
  have inj: "midnight_of d = midnight_of d' \<longleftrightarrow> d = d'" for d d' by (cases d; cases d') (auto simp: midnight_of_def)
  show "local_midnight leap_zone d = Inr m \<Longrightarrow> leap_date (m - 1) < d"
    by (auto simp: local_midnight_def local_time_def leap_zone_def inj Let_def leap_date_def less_civil_date_def split: if_splits)
qed

lemma leap_day_text: "date_shape ''2024-02-29''" "parse_date ''2024-02-29'' = Inr (CivilDate 2024 2 29)"
  by (simp_all add: date_shape_def parse_date_def date_digits_def digits_def is_digit_def dec_value_def digit_value_def
      byte_of_def checked_ymd_def date_ok_def month_days_def is_leap_def numeral_eq_Suc to_int16_def)

theorem calendar_range_days_witness:
  "\<exists>a b. resolve_calendar_range leap_zone (Some ''2024-02-29'') (Some ''2024-02-29'') 0 = Inr (a, b) \<and> a \<le> b \<and>
     (a \<le> 5 \<and> 5 \<le> b \<longleftrightarrow> CivilDate 2024 2 29 \<le> leap_date 5 \<and> leap_date 5 \<le> CivilDate 2024 2 29)"
proof -
  have n: "next_date (CivilDate 2024 2 29) = Inr (CivilDate 2024 3 1)"
    using next_date_succ [of "CivilDate 2024 2 29"] by (simp add: date_ok_def month_days_def is_leap_def)
  have r: "resolve_calendar_range leap_zone (Some ''2024-02-29'') (Some ''2024-02-29'') 0 = Inr (0, 86399)"
    unfolding resolve_calendar_range_def calendar_bounds_def parse_calendar_bound_def
    by (simp add: leap_day_text local_day_end_def n local_midnight_def local_time_def leap_zone_def leap_date_def midnight_of_def)
  from calendar_range_days [OF leap_zone_contract leap_day_text leap_day_text r, of 5] r show ?thesis by blast
qed

end
