(* ===== verification/CloudConfig.thy ===== *)
theory CloudConfig
  imports ModelRouting
begin

text \<open>
  \<open>src/src/api/support/CloudConfig.cpp\<close> and \<open>ProviderUtils.h\<close>: the cloud providers and models
  of \<open>ai_catalog.yaml\<close> and the order in which a run tries them.

  A node of the document is a value of the type \<open>yaml\<close>; a default \<open>YAML::Node()\<close> is null, which
  is defined and has no names. The conversions of a scalar to \<open>long long\<close> and \<open>bool\<close> belong
  to yaml-cpp and are the fields of the argument \<open>conv\<close>. The map from a provider to its index is the
  search for its identifier in the list, where every identifier occurs once.
\<close>

subsection \<open>Data\<close>

record yaml_conv =
  as_ll :: "string \<Rightarrow> int option"
  as_bool :: "string \<Rightarrow> bool option"

record cloud_model =
  cm_id :: string
  cm_endpoint :: string
  cm_role :: string
  cm_cost_tier :: string
  cm_default_for_low_budget :: bool
  cm_rpm :: int
  cm_tpm :: int
  cm_rpd :: int
  cm_cooldown_base_seconds :: int
  cm_cooldown_cap_seconds :: int

record cloud_provider =
  cp_id :: string
  cp_display_name :: string
  cp_setup_url :: string
  cp_docs_url :: string
  cp_api_key_label :: string
  cp_api_key_hint :: string
  cp_enabled :: bool
  cp_cost_tier :: string
  cp_base_url :: string
  cp_kind :: string
  cp_auth_type :: string
  cp_key_param :: string
  cp_header_name :: string
  cp_bearer_prefix :: string
  cp_credential_provider_key :: string
  cp_cooldown_base_seconds :: int
  cp_cooldown_cap_seconds :: int
  cp_models :: "cloud_model list"

record summary_refresh =
  sr_trigger_context_tokens :: int
  sr_source_context_tokens :: int
  sr_response_tokens_budget :: int
  sr_max_summary_chars :: int
  sr_min_interval_seconds :: int
  sr_min_delta_tokens :: int
  sr_force_refresh_tokens :: int

record cooldown_config =
  cd_base_seconds :: int
  cd_cap_seconds :: int

record cloud_config =
  cc_default_provider :: string
  cc_provider_order :: "string list"
  cc_summary_refresh :: summary_refresh
  cc_cooldown :: cooldown_config
  cc_providers :: "cloud_provider list"

definition default_summary_refresh :: summary_refresh where
  "default_summary_refresh = \<lparr>sr_trigger_context_tokens = 1200, sr_source_context_tokens = 2000,
     sr_response_tokens_budget = 256, sr_max_summary_chars = 5000, sr_min_interval_seconds = 120,
     sr_min_delta_tokens = 300, sr_force_refresh_tokens = 4000\<rparr>"

definition default_cooldown_config :: cooldown_config where
  "default_cooldown_config = \<lparr>cd_base_seconds = 30, cd_cap_seconds = 900\<rparr>"

definition empty_provider :: "string \<Rightarrow> cloud_provider" where
  "empty_provider provider_id = \<lparr>cp_id = provider_id, cp_display_name = [], cp_setup_url = [], cp_docs_url = [],
     cp_api_key_label = [], cp_api_key_hint = [], cp_enabled = False, cp_cost_tier = [], cp_base_url = [],
     cp_kind = [], cp_auth_type = [], cp_key_param = [], cp_header_name = [], cp_bearer_prefix = [],
     cp_credential_provider_key = [], cp_cooldown_base_seconds = 0, cp_cooldown_cap_seconds = 0, cp_models = []\<rparr>"

subsection \<open>Names\<close>

definition provider_char :: "char \<Rightarrow> bool" where
  "provider_char c \<longleftrightarrow> is_alnum c \<or> c = CHR ''-'' \<or> c = CHR ''_'' \<or> c = CHR ''.''"

definition normalize_provider_name :: "string \<Rightarrow> string" where
  "normalize_provider_name raw =
     (let key = lowercase_ascii (trim_ascii raw)
      in if key = [] then [] else if list_all provider_char key then key else [])"

definition mask_api_key :: "string \<Rightarrow> string" where
  "mask_api_key api_key =
     (if api_key = [] then []
      else if length api_key \<le> 8 then ''****''
      else take 4 api_key @ ''...'' @ drop (length api_key - 2) api_key)"

definition cost_tier_rank :: "string \<Rightarrow> int" where
  "cost_tier_rank cost_tier =
     (let tier = lowercase_ascii (trim_ascii cost_tier)
      in if tier = ''free'' then 0 else if tier = ''low'' then 1 else if tier = ''paid'' then 2 else 3)"

definition is_supported_provider_kind :: "string \<Rightarrow> bool" where
  "is_supported_provider_kind kind \<longleftrightarrow>
     kind = ''chocolatefactory_generative_language'' \<or> kind = ''generic_chat'' \<or>
     kind = ''generic_responses'' \<or> kind = ''mechatropic_messages''"

subsection \<open>Reading nodes\<close>

text \<open>\<open>node && node[key]\<close>, and \<open>if (node[key]) target = node[key].as<T>()\<close> for the three types.\<close>

definition yaml_sub :: "yaml option \<Rightarrow> string \<Rightarrow> yaml option result" where
  "yaml_sub node k = (case node of None \<Rightarrow> Inr None | Some n \<Rightarrow> yaml_at n k)"

fun yaml_as :: "(string \<Rightarrow> 'a option) \<Rightarrow> yaml \<Rightarrow> 'a result" where
  "yaml_as conv (YScalar s) = (case conv s of None \<Rightarrow> Inl (RuntimeError ''bad conversion'') | Some x \<Rightarrow> Inr x)"
| "yaml_as conv _ = Inl (RuntimeError ''bad conversion'')"

definition read_as :: "(yaml \<Rightarrow> 'a result) \<Rightarrow> yaml \<Rightarrow> string \<Rightarrow> 'a \<Rightarrow> 'a result" where
  "read_as conv node k current =
     andthen (yaml_at node k) (\<lambda>v. case v of None \<Rightarrow> Inr current | Some y \<Rightarrow> conv y)"

definition read_ll :: "yaml_conv \<Rightarrow> yaml \<Rightarrow> string \<Rightarrow> int \<Rightarrow> int result" where
  "read_ll conv = read_as (yaml_as (as_ll conv))"

text \<open>The value of the entry, else the one of the provider's defaults, else the current one.\<close>

definition pick_as :: "(yaml \<Rightarrow> 'a result) \<Rightarrow> yaml \<Rightarrow> yaml \<Rightarrow> string \<Rightarrow> 'a \<Rightarrow> 'a result" where
  "pick_as conv node dflt k current =
     andthen (yaml_at node k) (\<lambda>v. case v of None \<Rightarrow> read_as conv dflt k current | Some y \<Rightarrow> conv y)"

definition pick_text :: "yaml \<Rightarrow> yaml \<Rightarrow> string \<Rightarrow> string \<Rightarrow> string result" where
  "pick_text = pick_as yaml_string"

definition fill_text :: "yaml \<Rightarrow> yaml \<Rightarrow> string \<Rightarrow> string \<Rightarrow> string result" where
  "fill_text node dflt k current = (if current = [] then pick_text node dflt k current else Inr current)"

fun is_map :: "yaml option \<Rightarrow> bool" where
  "is_map (Some (YMap _)) \<longleftrightarrow> True"
| "is_map _ \<longleftrightarrow> False"

definition node_or_null :: "yaml option \<Rightarrow> yaml" where
  "node_or_null v = (case v of None \<Rightarrow> YNull | Some y \<Rightarrow> y)"

text \<open>Statements that each update one field, in the order of the source.\<close>

fun run_steps :: "('a \<Rightarrow> 'a result) list \<Rightarrow> 'a \<Rightarrow> 'a result" where
  "run_steps [] p = Inr p"
| "run_steps (f # fs) p = andthen (f p) (run_steps fs)"

definition assign :: "('a \<Rightarrow> 'b result) \<Rightarrow> ('b \<Rightarrow> 'a \<Rightarrow> 'a) \<Rightarrow> 'a \<Rightarrow> 'a result" where
  "assign rd wr p = andthen (rd p) (\<lambda>v. Inr (wr v p))"

subsection \<open>Settings of the runtime\<close>

fun provider_order_from :: "yaml list \<Rightarrow> string list \<Rightarrow> string list result" where
  "provider_order_from [] out = Inr out"
| "provider_order_from (y # ys) out =
     andthen (yaml_string y) (\<lambda>s.
       let normalized = normalize_provider_name s
       in provider_order_from ys (if normalized = [] then out else out @ [normalized]))"

definition read_default_provider :: "yaml option \<Rightarrow> string result" where
  "read_default_provider runtime_root =
     andthen (yaml_sub runtime_root ''route_policy'') (\<lambda>policy.
     andthen (yaml_sub policy ''default_provider'') (\<lambda>v. case v of
       None \<Rightarrow> Inr []
     | Some y \<Rightarrow> andthen (yaml_string y) (\<lambda>s. Inr (normalize_provider_name s))))"

definition read_provider_order :: "yaml option \<Rightarrow> string list result" where
  "read_provider_order runtime_root =
     andthen (yaml_sub runtime_root ''route_policy'') (\<lambda>policy.
     andthen (yaml_sub policy ''provider_order'') (\<lambda>v. case v of
       Some (YSeq items) \<Rightarrow> provider_order_from items []
     | _ \<Rightarrow> Inr []))"

definition read_summary_refresh :: "yaml_conv \<Rightarrow> yaml option \<Rightarrow> summary_refresh result" where
  "read_summary_refresh conv runtime_root =
     andthen (yaml_sub runtime_root ''compaction'') (\<lambda>compaction.
     andthen (yaml_sub compaction ''summary_refresh'') (\<lambda>v. case v of
       None \<Rightarrow> Inr default_summary_refresh
     | Some node \<Rightarrow>
         run_steps
           [assign (\<lambda>r. read_ll conv node ''trigger_context_tokens'' (sr_trigger_context_tokens r))
              (\<lambda>n r. r\<lparr>sr_trigger_context_tokens := n\<rparr>),
            assign (\<lambda>r. read_ll conv node ''source_context_tokens'' (sr_source_context_tokens r))
              (\<lambda>n r. r\<lparr>sr_source_context_tokens := n\<rparr>),
            assign (\<lambda>r. read_ll conv node ''response_tokens_budget'' (sr_response_tokens_budget r))
              (\<lambda>n r. r\<lparr>sr_response_tokens_budget := n\<rparr>),
            assign (\<lambda>r. read_ll conv node ''max_summary_chars'' (sr_max_summary_chars r))
              (\<lambda>n r. r\<lparr>sr_max_summary_chars := n\<rparr>),
            assign (\<lambda>r. read_ll conv node ''min_interval_seconds'' (sr_min_interval_seconds r))
              (\<lambda>n r. r\<lparr>sr_min_interval_seconds := n\<rparr>),
            assign (\<lambda>r. read_ll conv node ''min_delta_tokens'' (sr_min_delta_tokens r))
              (\<lambda>n r. r\<lparr>sr_min_delta_tokens := n\<rparr>),
            assign (\<lambda>r. read_ll conv node ''force_refresh_tokens'' (sr_force_refresh_tokens r))
              (\<lambda>n r. r\<lparr>sr_force_refresh_tokens := n\<rparr>)]
           default_summary_refresh))"

definition read_cooldown :: "yaml_conv \<Rightarrow> yaml option \<Rightarrow> cooldown_config result" where
  "read_cooldown conv runtime_root =
     andthen (yaml_sub runtime_root ''cooldown'') (\<lambda>v. case v of
       None \<Rightarrow> Inr default_cooldown_config
     | Some node \<Rightarrow>
         run_steps
           [assign (\<lambda>r. read_ll conv node ''base_seconds'' (cd_base_seconds r)) (\<lambda>n r. r\<lparr>cd_base_seconds := n\<rparr>),
            assign (\<lambda>r. read_ll conv node ''cap_seconds'' (cd_cap_seconds r)) (\<lambda>n r. r\<lparr>cd_cap_seconds := n\<rparr>)]
           default_cooldown_config)"

subsection \<open>Providers\<close>

definition unsupported_kind :: "cloud_provider \<Rightarrow> exn" where
  "unsupported_kind p =
     RuntimeError (''ai_catalog.yaml: cloud provider '' @ [CHR 0x27] @ cp_id p @ [CHR 0x27] @
       '' has unsupported api.kind '' @ [CHR 0x27] @ cp_kind p @ [CHR 0x27])"

definition check_kind :: "(cloud_provider \<Rightarrow> bool) \<Rightarrow> cloud_provider \<Rightarrow> cloud_provider result" where
  "check_kind needed p = (if needed p \<and> \<not> is_supported_provider_kind (cp_kind p) then Inl (unsupported_kind p) else Inr p)"

definition pick_kind :: "yaml \<Rightarrow> yaml \<Rightarrow> cloud_provider \<Rightarrow> cloud_provider result" where
  "pick_kind node dflt p =
     andthen (pick_text node dflt ''api_kind'' (cp_kind p)) (\<lambda>s. check_kind (\<lambda>p. cp_kind p \<noteq> []) (p\<lparr>cp_kind := s\<rparr>))"

text \<open>\<open>base_url\<close> falls back to the entry's endpoint.\<close>

definition pick_base_url :: "yaml \<Rightarrow> yaml \<Rightarrow> string \<Rightarrow> string result" where
  "pick_base_url node dflt current =
     andthen (yaml_at node ''base_url'') (\<lambda>v. case v of
       Some y \<Rightarrow> yaml_string y
     | None \<Rightarrow> andthen (yaml_at dflt ''base_url'') (\<lambda>w. case w of
         Some y \<Rightarrow> yaml_string y
       | None \<Rightarrow> read_as yaml_string node ''endpoint'' current))"

definition pick_credential_key :: "yaml \<Rightarrow> yaml \<Rightarrow> string \<Rightarrow> string result" where
  "pick_credential_key node dflt =
     pick_as (\<lambda>y. andthen (yaml_string y) (\<lambda>s. Inr (normalize_provider_name s))) node dflt ''credential_key''"

definition provider_cooldown_node :: "yaml \<Rightarrow> yaml \<Rightarrow> yaml result" where
  "provider_cooldown_node node dflt =
     andthen (yaml_at node ''provider_cooldown'') (\<lambda>v.
       if is_map v then Inr (node_or_null v)
       else andthen (yaml_at dflt ''provider_cooldown'') (\<lambda>w. Inr (if is_map w then node_or_null w else YNull)))"

definition new_cooldown :: "yaml_conv \<Rightarrow> yaml \<Rightarrow> yaml \<Rightarrow> cloud_provider \<Rightarrow> cloud_provider result" where
  "new_cooldown conv node dflt p =
     andthen (provider_cooldown_node node dflt) (\<lambda>cooldown.
     andthen (read_ll conv cooldown ''base_seconds'' (cp_cooldown_base_seconds p)) (\<lambda>b.
     andthen (read_ll conv cooldown ''cap_seconds'' (cp_cooldown_cap_seconds p)) (\<lambda>c.
       Inr (p\<lparr>cp_cooldown_base_seconds := b, cp_cooldown_cap_seconds := c\<rparr>))))"

definition default_credential_key :: "cloud_provider \<Rightarrow> cloud_provider result" where
  "default_credential_key p =
     Inr (if cp_credential_provider_key p = [] then p\<lparr>cp_credential_provider_key := cp_id p\<rparr> else p)"

text \<open>The first entry of a provider creates it \<dots>\<close>

definition new_provider_steps ::
  "yaml_conv \<Rightarrow> yaml \<Rightarrow> yaml \<Rightarrow> string \<Rightarrow> (cloud_provider \<Rightarrow> cloud_provider result) list" where
  "new_provider_steps conv node dflt provider_id =
       [assign (\<lambda>p. pick_text node dflt ''provider'' provider_id) (\<lambda>s p. p\<lparr>cp_display_name := s\<rparr>),
        assign (\<lambda>p. pick_as (yaml_as (as_bool conv)) node dflt ''enabled'' False) (\<lambda>b p. p\<lparr>cp_enabled := b\<rparr>),
        assign (\<lambda>p. pick_text node dflt ''provider_cost_tier'' (cp_cost_tier p)) (\<lambda>s p. p\<lparr>cp_cost_tier := s\<rparr>),
        assign (\<lambda>p. pick_text node dflt ''setup_url'' (cp_setup_url p)) (\<lambda>s p. p\<lparr>cp_setup_url := s\<rparr>),
        assign (\<lambda>p. pick_text node dflt ''docs_url'' (cp_docs_url p)) (\<lambda>s p. p\<lparr>cp_docs_url := s\<rparr>),
        assign (\<lambda>p. pick_text node dflt ''api_key_label'' (cp_api_key_label p)) (\<lambda>s p. p\<lparr>cp_api_key_label := s\<rparr>),
        assign (\<lambda>p. pick_text node dflt ''api_key_hint'' (cp_api_key_hint p)) (\<lambda>s p. p\<lparr>cp_api_key_hint := s\<rparr>),
        assign (\<lambda>p. pick_base_url node dflt (cp_base_url p)) (\<lambda>s p. p\<lparr>cp_base_url := s\<rparr>),
        pick_kind node dflt,
        assign (\<lambda>p. pick_text node dflt ''auth_type'' (cp_auth_type p)) (\<lambda>s p. p\<lparr>cp_auth_type := s\<rparr>),
        assign (\<lambda>p. pick_text node dflt ''key_param'' (cp_key_param p)) (\<lambda>s p. p\<lparr>cp_key_param := s\<rparr>),
        assign (\<lambda>p. pick_text node dflt ''header_name'' (cp_header_name p)) (\<lambda>s p. p\<lparr>cp_header_name := s\<rparr>),
        assign (\<lambda>p. pick_text node dflt ''bearer_prefix'' (cp_bearer_prefix p)) (\<lambda>s p. p\<lparr>cp_bearer_prefix := s\<rparr>),
        assign (\<lambda>p. pick_credential_key node dflt (cp_credential_provider_key p)) (\<lambda>s p. p\<lparr>cp_credential_provider_key := s\<rparr>),
        new_cooldown conv node dflt,
        default_credential_key]"

definition new_provider :: "yaml_conv \<Rightarrow> yaml \<Rightarrow> yaml \<Rightarrow> string \<Rightarrow> cloud_provider result" where
  "new_provider conv node dflt provider_id =
     run_steps (new_provider_steps conv node dflt provider_id) (empty_provider provider_id)"

text \<open>\<dots> and every entry, the first included, fills what is still empty.\<close>

definition fill_enabled :: "yaml_conv \<Rightarrow> yaml \<Rightarrow> yaml \<Rightarrow> cloud_provider \<Rightarrow> cloud_provider result" where
  "fill_enabled conv node dflt p =
     andthen (yaml_at node ''enabled'') (\<lambda>v. case v of
       Some y \<Rightarrow> andthen (yaml_as (as_bool conv) y) (\<lambda>b. Inr (p\<lparr>cp_enabled := b\<rparr>))
     | None \<Rightarrow>
         if cp_enabled p then Inr p
         else andthen (read_as (yaml_as (as_bool conv)) dflt ''enabled'' False) (\<lambda>b. Inr (p\<lparr>cp_enabled := b\<rparr>)))"

definition fill_kind :: "yaml \<Rightarrow> yaml \<Rightarrow> cloud_provider \<Rightarrow> cloud_provider result" where
  "fill_kind node dflt p =
     (if cp_kind p \<noteq> [] then Inr p
      else
        andthen (yaml_at node ''api_kind'') (\<lambda>v. case v of
          Some y \<Rightarrow> andthen (yaml_string y) (\<lambda>s. check_kind (\<lambda>_. True) (p\<lparr>cp_kind := s\<rparr>))
        | None \<Rightarrow> andthen (yaml_at dflt ''api_kind'') (\<lambda>w. case w of
            Some y \<Rightarrow> andthen (yaml_string y) (\<lambda>s. check_kind (\<lambda>_. True) (p\<lparr>cp_kind := s\<rparr>))
          | None \<Rightarrow> Inr p)))"

definition fill_cooldown :: "yaml_conv \<Rightarrow> yaml \<Rightarrow> yaml \<Rightarrow> string \<Rightarrow> int \<Rightarrow> int result" where
  "fill_cooldown conv node dflt k current =
     (if current \<noteq> 0 then Inr current
      else
        andthen (yaml_at node ''provider_cooldown'') (\<lambda>c. andthen (yaml_sub c k) (\<lambda>v. case v of
          Some y \<Rightarrow> yaml_as (as_ll conv) y
        | None \<Rightarrow> andthen (yaml_at dflt ''provider_cooldown'') (\<lambda>d. andthen (yaml_sub d k) (\<lambda>w. case w of
            Some y \<Rightarrow> yaml_as (as_ll conv) y
          | None \<Rightarrow> Inr current)))))"

definition fill_provider_steps ::
  "yaml_conv \<Rightarrow> yaml \<Rightarrow> yaml \<Rightarrow> (cloud_provider \<Rightarrow> cloud_provider result) list" where
  "fill_provider_steps conv node dflt =
       [assign (\<lambda>p. fill_text node dflt ''provider'' (cp_display_name p)) (\<lambda>s p. p\<lparr>cp_display_name := s\<rparr>),
        fill_enabled conv node dflt,
        assign (\<lambda>p. fill_text node dflt ''provider_cost_tier'' (cp_cost_tier p)) (\<lambda>s p. p\<lparr>cp_cost_tier := s\<rparr>),
        assign (\<lambda>p. fill_text node dflt ''setup_url'' (cp_setup_url p)) (\<lambda>s p. p\<lparr>cp_setup_url := s\<rparr>),
        assign (\<lambda>p. fill_text node dflt ''docs_url'' (cp_docs_url p)) (\<lambda>s p. p\<lparr>cp_docs_url := s\<rparr>),
        assign (\<lambda>p. fill_text node dflt ''api_key_label'' (cp_api_key_label p)) (\<lambda>s p. p\<lparr>cp_api_key_label := s\<rparr>),
        assign (\<lambda>p. fill_text node dflt ''api_key_hint'' (cp_api_key_hint p)) (\<lambda>s p. p\<lparr>cp_api_key_hint := s\<rparr>),
        assign (\<lambda>p. if cp_base_url p = [] then pick_base_url node dflt [] else Inr (cp_base_url p)) (\<lambda>s p. p\<lparr>cp_base_url := s\<rparr>),
        fill_kind node dflt,
        assign (\<lambda>p. fill_text node dflt ''auth_type'' (cp_auth_type p)) (\<lambda>s p. p\<lparr>cp_auth_type := s\<rparr>),
        assign (\<lambda>p. fill_text node dflt ''key_param'' (cp_key_param p)) (\<lambda>s p. p\<lparr>cp_key_param := s\<rparr>),
        assign (\<lambda>p. fill_text node dflt ''header_name'' (cp_header_name p)) (\<lambda>s p. p\<lparr>cp_header_name := s\<rparr>),
        assign (\<lambda>p. fill_text node dflt ''bearer_prefix'' (cp_bearer_prefix p)) (\<lambda>s p. p\<lparr>cp_bearer_prefix := s\<rparr>),
        assign (\<lambda>p. if cp_credential_provider_key p = [] then pick_credential_key node dflt [] else Inr (cp_credential_provider_key p))
         (\<lambda>s p. p\<lparr>cp_credential_provider_key := s\<rparr>),
        default_credential_key,
        assign (\<lambda>p. fill_cooldown conv node dflt ''base_seconds'' (cp_cooldown_base_seconds p)) (\<lambda>n p. p\<lparr>cp_cooldown_base_seconds := n\<rparr>),
        assign (\<lambda>p. fill_cooldown conv node dflt ''cap_seconds'' (cp_cooldown_cap_seconds p)) (\<lambda>n p. p\<lparr>cp_cooldown_cap_seconds := n\<rparr>)]"

subsection \<open>Models\<close>

definition read_limits :: "yaml_conv \<Rightarrow> yaml \<Rightarrow> cloud_model \<Rightarrow> cloud_model result" where
  "read_limits conv node m =
     andthen (yaml_at node ''limits'') (\<lambda>v. case v of
       None \<Rightarrow> Inr m
     | Some l \<Rightarrow>
         run_steps
           [assign (\<lambda>m. read_ll conv l ''rpm'' (cm_rpm m)) (\<lambda>n m. m\<lparr>cm_rpm := n\<rparr>),
            assign (\<lambda>m. read_ll conv l ''tpm'' (cm_tpm m)) (\<lambda>n m. m\<lparr>cm_tpm := n\<rparr>),
            assign (\<lambda>m. read_ll conv l ''rpd'' (cm_rpd m)) (\<lambda>n m. m\<lparr>cm_rpd := n\<rparr>)] m)"

definition read_model_cooldown :: "yaml_conv \<Rightarrow> yaml \<Rightarrow> cloud_model \<Rightarrow> cloud_model result" where
  "read_model_cooldown conv node m =
     andthen (yaml_at node ''model_cooldown'') (\<lambda>v.
     andthen (if is_map v then Inr v else yaml_at node ''cooldown'') (\<lambda>w. case w of
       None \<Rightarrow> Inr m
     | Some c \<Rightarrow>
         run_steps
           [assign (\<lambda>m. read_ll conv c ''base_seconds'' (cm_cooldown_base_seconds m)) (\<lambda>n m. m\<lparr>cm_cooldown_base_seconds := n\<rparr>),
            assign (\<lambda>m. read_ll conv c ''cap_seconds'' (cm_cooldown_cap_seconds m)) (\<lambda>n m. m\<lparr>cm_cooldown_cap_seconds := n\<rparr>)] m))"

text \<open>The tier of a model: \<open>model_cost_tier\<close>, else \<open>cost_tier\<close>.\<close>

definition read_model_tier :: "yaml \<Rightarrow> string result" where
  "read_model_tier node =
     andthen (yaml_at node ''model_cost_tier'') (\<lambda>v. case v of
       Some y \<Rightarrow> yaml_string y
     | None \<Rightarrow> read_as yaml_string node ''cost_tier'' [])"

definition read_model :: "yaml_conv \<Rightarrow> yaml \<Rightarrow> cloud_model option result" where
  "read_model conv node =
     andthen (yaml_at node ''model_id'') (\<lambda>i. case i of None \<Rightarrow> Inr None | Some i \<Rightarrow>
     andthen (yaml_at node ''endpoint'') (\<lambda>e. case e of None \<Rightarrow> Inr None | Some e \<Rightarrow>
     andthen (yaml_string i) (\<lambda>i.
     andthen (yaml_string e) (\<lambda>e.
     andthen (read_as yaml_string node ''role'' []) (\<lambda>role.
     andthen (read_model_tier node) (\<lambda>tier.
     andthen (read_as (yaml_as (as_bool conv)) node ''default_for_low_budget'' False) (\<lambda>low.
     andthen (read_limits conv node \<lparr>cm_id = i, cm_endpoint = e, cm_role = role, cm_cost_tier = tier,
         cm_default_for_low_budget = low, cm_rpm = 0, cm_tpm = 0, cm_rpd = 0,
         cm_cooldown_base_seconds = 0, cm_cooldown_cap_seconds = 0\<rparr>) (\<lambda>m.
     andthen (read_model_cooldown conv node m) (\<lambda>m. Inr (Some m))))))))))"

text \<open>A model with a known identifier replaces the old one in its place.\<close>

fun put_model :: "cloud_model \<Rightarrow> cloud_model list \<Rightarrow> cloud_model list" where
  "put_model m [] = [m]"
| "put_model m (x # xs) = (if cm_id x = cm_id m then m # xs else x # put_model m xs)"

subsection \<open>The catalogue\<close>

definition load_cloud_entry ::
  "yaml_conv \<Rightarrow> yaml \<Rightarrow> yaml \<Rightarrow> cloud_provider list \<Rightarrow> cloud_provider list result" where
  "load_cloud_entry conv defaults node providers =
     andthen (read_as yaml_string node ''provider_id'' []) (\<lambda>raw.
       let provider_id = normalize_provider_name raw
       in if provider_id = [] then Inr providers
          else
            andthen (yaml_at defaults provider_id) (\<lambda>d.
              let dflt = node_or_null d
              in andthen
                   (case find_if (\<lambda>p. cp_id p = provider_id) providers of
                      Some i \<Rightarrow> Inr (providers, i)
                    | None \<Rightarrow> andthen (new_provider conv node dflt provider_id) (\<lambda>p. Inr (providers @ [p], length providers)))
                   (\<lambda>(ps, i).
                 andthen (run_steps (fill_provider_steps conv node dflt) (ps ! i)) (\<lambda>p.
                 andthen (read_model conv node) (\<lambda>m.
                   Inr (ps[i := (case m of None \<Rightarrow> p | Some m \<Rightarrow> p\<lparr>cp_models := put_model m (cp_models p)\<rparr>)]))))))"

fun load_cloud_entries ::
  "yaml_conv \<Rightarrow> yaml \<Rightarrow> yaml list \<Rightarrow> cloud_provider list \<Rightarrow> cloud_provider list result" where
  "load_cloud_entries conv defaults [] providers = Inr providers"
| "load_cloud_entries conv defaults (node # nodes) providers =
     andthen (load_cloud_entry conv defaults node providers) (load_cloud_entries conv defaults nodes)"

definition cloud_model_nodes :: "yaml \<Rightarrow> yaml list result" where
  "cloud_model_nodes models_root =
     andthen (yaml_at models_root ''Models'') (\<lambda>v.
     andthen (yaml_sub v ''Cloud'') (\<lambda>w. Inr (case w of Some (YSeq nodes) \<Rightarrow> nodes | _ \<Rightarrow> [])))"

definition provider_defaults_node :: "yaml \<Rightarrow> yaml result" where
  "provider_defaults_node models_root =
     andthen (yaml_at models_root ''provider_defaults'') (\<lambda>v. Inr (if is_map v then node_or_null v else YNull))"

definition cloud_config_of_yaml :: "yaml_conv \<Rightarrow> yaml \<Rightarrow> cloud_config option result" where
  "cloud_config_of_yaml conv root =
     andthen (yaml_at root ''models'') (\<lambda>v.
       if \<not> is_map v then Inr None
       else let models_root = node_or_null v
            in andthen (yaml_at models_root ''runtime'') (\<lambda>runtime_root.
               andthen (read_default_provider runtime_root) (\<lambda>default_provider.
               andthen (read_provider_order runtime_root) (\<lambda>provider_order.
               andthen (read_summary_refresh conv runtime_root) (\<lambda>summary_refresh.
               andthen (read_cooldown conv runtime_root) (\<lambda>cooldown.
               andthen (cloud_model_nodes models_root) (\<lambda>nodes.
               andthen (provider_defaults_node models_root) (\<lambda>defaults.
               andthen (load_cloud_entries conv defaults nodes []) (\<lambda>providers.
                 Inr (Some \<lparr>cc_default_provider = default_provider, cc_provider_order = provider_order,
                   cc_summary_refresh = summary_refresh, cc_cooldown = cooldown, cc_providers = providers\<rparr>))))))))))"

definition load_cloudproviders_config :: "host \<Rightarrow> yaml_conv \<Rightarrow> cloud_config option result" where
  "load_cloudproviders_config h conv =
     (case find_ai_catalog_path h of
        None \<Rightarrow> Inr None
      | Some path \<Rightarrow>
          (case Option.bind (h_read h path) (h_yaml_load h) of
             None \<Rightarrow> Inl (RuntimeError ''bad file'')
           | Some root \<Rightarrow> cloud_config_of_yaml conv root))"

subsection \<open>Choice\<close>

definition find_cloud_provider :: "cloud_config \<Rightarrow> string \<Rightarrow> cloud_provider option" where
  "find_cloud_provider cfg provider_id = List.find (\<lambda>p. cp_id p = provider_id) (cc_providers cfg)"

definition find_cloud_model :: "cloud_provider \<Rightarrow> string \<Rightarrow> cloud_model option" where
  "find_cloud_model provider model_id = List.find (\<lambda>m. cm_id m = model_id) (cp_models provider)"

definition default_cloud_model :: "cloud_provider \<Rightarrow> cloud_model option" where
  "default_cloud_model provider =
     (case List.find (\<lambda>m. cm_role m = ''default'') (cp_models provider) of
        Some m \<Rightarrow> Some m
      | None \<Rightarrow> (case cp_models provider of [] \<Rightarrow> None | m # _ \<Rightarrow> Some m))"

definition choose_cloud_model :: "cloud_provider \<Rightarrow> string \<Rightarrow> cloud_model option" where
  "choose_cloud_model provider requested_model =
     (if requested_model \<noteq> []
      then (case find_cloud_model provider requested_model of
              Some m \<Rightarrow> Some m
            | None \<Rightarrow> default_cloud_model provider)
      else default_cloud_model provider)"

text \<open>The lambda \<open>push\<close>: the set \<open>seen\<close> holds the identifiers of \<open>out\<close>.\<close>

definition push_by :: "('a \<Rightarrow> string) \<Rightarrow> 'a list \<Rightarrow> 'a \<Rightarrow> 'a list" where
  "push_by ident out x = (if ident x \<in> set (map ident out) then out else out @ [x])"

definition push_opt :: "('a \<Rightarrow> string) \<Rightarrow> 'a list \<Rightarrow> 'a option \<Rightarrow> 'a list" where
  "push_opt ident out x = (case x of None \<Rightarrow> out | Some x \<Rightarrow> push_by ident out x)"

definition cloud_model_candidates :: "cloud_provider \<Rightarrow> string \<Rightarrow> cloud_model list" where
  "cloud_model_candidates provider requested_model =
     (let out = (if requested_model \<noteq> [] then push_opt cm_id [] (find_cloud_model provider requested_model) else []);
          out = push_opt cm_id out (choose_cloud_model provider []);
          out = foldl (push_by cm_id) out (filter (\<lambda>m. cm_role m = ''compact'') (cp_models provider))
      in foldl (push_by cm_id) out (cp_models provider))"

definition cheaper_provider :: "cloud_provider \<Rightarrow> cloud_provider \<Rightarrow> bool" where
  "cheaper_provider a b =
     (let rank_a = cost_tier_rank (cp_cost_tier a); rank_b = cost_tier_rank (cp_cost_tier b)
      in if rank_a \<noteq> rank_b then rank_a < rank_b else cp_id a < cp_id b)"

definition ordered_cloud_providers :: "cloud_config \<Rightarrow> cloud_provider list" where
  "ordered_cloud_providers cfg =
     (let out = foldl (push_opt cp_id) [] (map (find_cloud_provider cfg) (cc_provider_order cfg));
          remaining = filter (\<lambda>p. cp_id p \<notin> set (map cp_id out)) (cc_providers cfg)
      in foldl (push_by cp_id) out (stable_sort cheaper_provider remaining))"

subsection \<open>Lemmas: names\<close>

lemma is_space_to_lower [simp]: "is_space (to_lower c) \<longleftrightarrow> is_space c"
  by (auto simp: to_lower_def is_space_def is_upper_def byte_of_def)

lemma trim_lowercase: "trim_ascii (lowercase_ascii s) = lowercase_ascii (trim_ascii s)"
  by (simp add: trim_ascii_def lowercase_ascii_def rev_map dropWhile_map comp_def)

lemma normalize_name_Nil [simp]: "normalize_provider_name [] = []"
  by (simp add: normalize_provider_name_def trim_ascii_def lowercase_ascii_def)

lemma normalize_name_idem [simp]: "normalize_provider_name (normalize_provider_name s) = normalize_provider_name s"
proof (cases "normalize_provider_name s = []")
  case False
  then have "normalize_provider_name s = lowercase_ascii (trim_ascii s)" "list_all provider_char (lowercase_ascii (trim_ascii s))"
    by (auto simp: normalize_provider_name_def Let_def split: if_splits)
  then show ?thesis by (simp add: normalize_provider_name_def Let_def trim_lowercase lowercase_idem)
qed simp

lemma mask_hides: "length (mask_api_key k) \<le> 9"
  by (simp add: mask_api_key_def)

subsection \<open>Lemmas: what every statement keeps\<close>

definition keeps :: "('a \<Rightarrow> bool) \<Rightarrow> ('a \<Rightarrow> 'a result) \<Rightarrow> bool" where
  "keeps P f \<longleftrightarrow> (\<forall>p q. f p = Inr q \<longrightarrow> P p \<longrightarrow> P q)"

lemma run_steps_keeps: "list_all (keeps P) fs \<Longrightarrow> run_steps fs p = Inr q \<Longrightarrow> P p \<Longrightarrow> P q"
  by (induction fs arbitrary: p) (auto simp: andthen_eq_Inr keeps_def)

lemma run_steps_append: "run_steps (fs @ gs) p = andthen (run_steps fs p) (run_steps gs)"
  by (induction fs arbitrary: p) (auto simp: andthen_def split: sum.splits)

lemma keeps_assign: "(\<And>v p. P p \<Longrightarrow> P (wr v p)) \<Longrightarrow> keeps P (assign rd wr)"
  by (auto simp: keeps_def assign_def andthen_eq_Inr)

definition kind_ok :: "cloud_provider \<Rightarrow> bool" where
  "kind_ok p \<longleftrightarrow> cp_kind p = [] \<or> is_supported_provider_kind (cp_kind p)"

text \<open>The identifier and the models stay, the kind is supported and the key a name.\<close>

definition provider_kept :: "string \<Rightarrow> cloud_model list \<Rightarrow> cloud_provider \<Rightarrow> bool" where
  "provider_kept i ms p \<longleftrightarrow> cp_id p = i \<and> cp_models p = ms \<and> kind_ok p \<and>
     normalize_provider_name (cp_credential_provider_key p) = cp_credential_provider_key p"

lemmas kept_simps = provider_kept_def kind_ok_def

lemma keeps_check_kind: "keeps (provider_kept i ms) (pick_kind node dflt)"
  by (auto simp: keeps_def kept_simps pick_kind_def check_kind_def andthen_eq_Inr split: if_splits)

lemma keeps_fill_kind: "keeps (provider_kept i ms) (fill_kind node dflt)"
  by (auto simp: keeps_def kept_simps fill_kind_def check_kind_def andthen_eq_Inr split: if_splits option.splits)

lemma keeps_fill_enabled: "keeps (provider_kept i ms) (fill_enabled conv node dflt)"
  by (auto simp: keeps_def kept_simps fill_enabled_def andthen_eq_Inr split: if_splits option.splits)

lemma keeps_new_cooldown: "keeps (provider_kept i ms) (new_cooldown conv node dflt)"
  by (auto simp: keeps_def kept_simps new_cooldown_def andthen_eq_Inr)

lemma keeps_default_key: "normalize_provider_name i = i \<Longrightarrow> keeps (provider_kept i ms) default_credential_key"
  by (auto simp: keeps_def kept_simps default_credential_key_def)

lemma pick_credential_key_name:
  assumes "pick_credential_key node dflt cur = Inr s" "normalize_provider_name cur = cur"
  shows "normalize_provider_name s = s"
  using assms by (auto simp: pick_credential_key_def pick_as_def read_as_def andthen_eq_Inr split: option.splits)

lemma keeps_credential:
  "keeps (provider_kept i ms)
     (assign (\<lambda>p. pick_credential_key node dflt (cp_credential_provider_key p)) (\<lambda>s p. p\<lparr>cp_credential_provider_key := s\<rparr>))"
  "keeps (provider_kept i ms)
     (assign (\<lambda>p. if cp_credential_provider_key p = [] then pick_credential_key node dflt [] else Inr (cp_credential_provider_key p))
        (\<lambda>s p. p\<lparr>cp_credential_provider_key := s\<rparr>))"
  by (auto simp: keeps_def kept_simps assign_def andthen_eq_Inr dest: pick_credential_key_name split: if_splits)

lemmas keeps_steps = keeps_check_kind keeps_fill_kind keeps_fill_enabled keeps_new_cooldown keeps_default_key keeps_credential

lemma new_provider_kept:
  assumes "normalize_provider_name i = i" and "new_provider conv node dflt i = Inr p"
  shows "provider_kept i [] p"
proof (rule run_steps_keeps [where P = "provider_kept i []"])
  show "list_all (keeps (provider_kept i [])) (new_provider_steps conv node dflt i)"
    unfolding new_provider_steps_def list.pred_inject
    by (intro conjI keeps_steps keeps_assign assms(1) TrueI) (simp_all add: kept_simps)
  show "run_steps (new_provider_steps conv node dflt i) (empty_provider i) = Inr p"
    using assms(2) by (simp add: new_provider_def)
  show "provider_kept i [] (empty_provider i)" by (simp add: kept_simps empty_provider_def)
qed

lemma fill_provider_kept:
  assumes "normalize_provider_name i = i" and "run_steps (fill_provider_steps conv node dflt) p = Inr q"
    and "provider_kept i ms p"
  shows "provider_kept i ms q"
proof (rule run_steps_keeps [where P = "provider_kept i ms", OF _ assms(2,3)])
  show "list_all (keeps (provider_kept i ms)) (fill_provider_steps conv node dflt)"
    unfolding fill_provider_steps_def list.pred_inject
    by (intro conjI keeps_steps keeps_assign assms(1) TrueI) (simp_all add: kept_simps)
qed

lemma default_key_ne: "default_credential_key p = Inr q \<Longrightarrow> cp_id p \<noteq> [] \<Longrightarrow> cp_credential_provider_key q \<noteq> []"
  by (auto simp: default_credential_key_def split: if_splits)

lemma run_steps_default_key:
  assumes "run_steps (fs @ [default_credential_key]) p = Inr q"
    and "list_all (keeps (\<lambda>p. cp_id p \<noteq> [])) fs" and "cp_id p \<noteq> []"
  shows "cp_credential_provider_key q \<noteq> []"
proof -
  obtain r where r: "run_steps fs p = Inr r" "default_credential_key r = Inr q"
    using assms(1) by (auto simp: run_steps_append andthen_eq_Inr)
  then have "cp_id r \<noteq> []" using run_steps_keeps [OF assms(2) r(1)] assms(3) by blast
  then show ?thesis using default_key_ne r(2) by blast
qed

lemma new_provider_key:
  assumes "new_provider conv node dflt i = Inr p" and "i \<noteq> []"
  shows "cp_credential_provider_key p \<noteq> []"
proof (rule run_steps_default_key [of "butlast (new_provider_steps conv node dflt i)" "empty_provider i"])
  show "run_steps (butlast (new_provider_steps conv node dflt i) @ [default_credential_key]) (empty_provider i) = Inr p"
    using assms(1) by (simp add: new_provider_def new_provider_steps_def)
  show "list_all (keeps (\<lambda>p. cp_id p \<noteq> [])) (butlast (new_provider_steps conv node dflt i))"
    unfolding new_provider_steps_def
    by (auto simp: keeps_def assign_def andthen_eq_Inr pick_kind_def check_kind_def new_cooldown_def split: if_splits)
  show "cp_id (empty_provider i) \<noteq> []" using assms(2) by (simp add: empty_provider_def)
qed

lemma fill_provider_key:
  assumes "run_steps (fill_provider_steps conv node dflt) p = Inr q" and "cp_credential_provider_key p \<noteq> []"
  shows "cp_credential_provider_key q \<noteq> []"
proof (rule run_steps_keeps [where P = "\<lambda>p. cp_credential_provider_key p \<noteq> []", OF _ assms])
  show "list_all (keeps (\<lambda>p. cp_credential_provider_key p \<noteq> [])) (fill_provider_steps conv node dflt)"
    unfolding fill_provider_steps_def
    by (auto simp: keeps_def assign_def andthen_eq_Inr fill_kind_def check_kind_def fill_enabled_def
        default_credential_key_def split: if_splits option.splits)
qed

subsection \<open>Lemmas: the catalogue\<close>

definition provider_wf :: "cloud_provider \<Rightarrow> bool" where
  "provider_wf p \<longleftrightarrow> cp_id p \<noteq> [] \<and> normalize_provider_name (cp_id p) = cp_id p \<and>
     cp_credential_provider_key p \<noteq> [] \<and>
     normalize_provider_name (cp_credential_provider_key p) = cp_credential_provider_key p \<and>
     kind_ok p \<and> distinct (map cm_id (cp_models p))"

definition providers_wf :: "cloud_provider list \<Rightarrow> bool" where
  "providers_wf ps \<longleftrightarrow> distinct (map cp_id ps) \<and> list_all provider_wf ps"

lemma put_model_ids:
  "map cm_id (put_model m ms) = (if cm_id m \<in> cm_id ` set ms then map cm_id ms else map cm_id ms @ [cm_id m])"
  by (induction ms) auto

lemma put_model_distinct: "distinct (map cm_id ms) \<Longrightarrow> distinct (map cm_id (put_model m ms))"
  by (simp add: put_model_ids)

lemma find_put_model:
  "List.find (\<lambda>x. cm_id x = i) (put_model m ms) = (if i = cm_id m then Some m else List.find (\<lambda>x. cm_id x = i) ms)"
  by (induction ms) auto

definition with_model :: "cloud_model option \<Rightarrow> cloud_provider \<Rightarrow> cloud_provider" where
  "with_model m p = (case m of None \<Rightarrow> p | Some m \<Rightarrow> p\<lparr>cp_models := put_model m (cp_models p)\<rparr>)"

lemma with_model_id [simp]: "cp_id (with_model m p) = cp_id p"
  by (simp add: with_model_def split: option.splits)

lemma with_model_wf: "provider_wf p \<Longrightarrow> provider_wf (with_model m p)"
  by (auto simp: with_model_def provider_wf_def kind_ok_def put_model_distinct split: option.splits)

lemma fill_provider_wf:
  assumes "run_steps (fill_provider_steps conv node dflt) p = Inr q" and "provider_wf p"
  shows "provider_wf q" "cp_id q = cp_id p" "cp_models q = cp_models p"
proof -
  have "provider_kept (cp_id p) (cp_models p) q"
    by (rule fill_provider_kept [OF _ assms(1)]) (use assms(2) in \<open>auto simp: provider_wf_def provider_kept_def\<close>)
  moreover have "cp_credential_provider_key q \<noteq> []"
    using fill_provider_key [OF assms(1)] assms(2) by (simp add: provider_wf_def)
  ultimately show "provider_wf q" "cp_id q = cp_id p" "cp_models q = cp_models p"
    using assms(2) by (auto simp: provider_wf_def provider_kept_def)
qed

lemma new_provider_wf:
  assumes "new_provider conv node dflt i = Inr p" "normalize_provider_name i = i" "i \<noteq> []"
  shows "provider_wf p" "cp_id p = i" "cp_models p = []"
  using new_provider_kept [OF assms(2,1)] new_provider_key [OF assms(1,3)] assms(2,3)
  by (auto simp: provider_wf_def provider_kept_def)

definition entry_provider :: "yaml \<Rightarrow> string" where
  "entry_provider node =
     (case read_as yaml_string node ''provider_id'' [] of Inl _ \<Rightarrow> [] | Inr raw \<Rightarrow> normalize_provider_name raw)"

definition entry_model :: "yaml_conv \<Rightarrow> yaml \<Rightarrow> cloud_model option" where
  "entry_model conv node = (case read_model conv node of Inl _ \<Rightarrow> None | Inr m \<Rightarrow> m)"

text \<open>An entry without a provider changes nothing; another one updates its provider or adds it at the end.\<close>

definition entry_effect :: "yaml_conv \<Rightarrow> yaml \<Rightarrow> cloud_provider list \<Rightarrow> cloud_provider list \<Rightarrow> bool" where
  "entry_effect conv node ps ps' \<longleftrightarrow>
     (\<exists>q. provider_wf q \<and> cp_id q = entry_provider node \<and>
        ((\<exists>i < length ps. cp_id (ps ! i) = cp_id q \<and> cp_models q = cp_models (ps ! i) \<and>
             ps' = ps[i := with_model (entry_model conv node) q]) \<or>
         (cp_id q \<notin> cp_id ` set ps \<and> cp_models q = [] \<and> ps' = ps @ [with_model (entry_model conv node) q])))"

lemma load_cloud_entry_effect:
  assumes l: "load_cloud_entry conv d node ps = Inr ps'" and wf: "providers_wf ps"
  shows "(entry_provider node = [] \<and> ps' = ps) \<or> (entry_provider node \<noteq> [] \<and> entry_effect conv node ps ps')"
proof (cases "entry_provider node = []")
  case True
  then show ?thesis
    using l by (auto simp: load_cloud_entry_def entry_provider_def andthen_eq_Inr Let_def split: sum.splits)
next
  case False
  let ?i = "entry_provider node"
  have norm: "normalize_provider_name ?i = ?i" using False by (auto simp: entry_provider_def split: sum.splits)
  obtain df where l2: "andthen
      (case find_if (\<lambda>p. cp_id p = ?i) ps of Some i \<Rightarrow> Inr (ps, i)
       | None \<Rightarrow> andthen (new_provider conv node df ?i) (\<lambda>p. Inr (ps @ [p], length ps)))
      (\<lambda>(ps, i). andthen (run_steps (fill_provider_steps conv node df) (ps ! i)) (\<lambda>p.
         andthen (read_model conv node) (\<lambda>m. Inr (ps[i := with_model m p])))) = Inr ps'"
  proof -
    obtain raw d' where "read_as yaml_string node ''provider_id'' [] = Inr raw" "yaml_at d (normalize_provider_name raw) = Inr d'"
      using l False by (auto simp: load_cloud_entry_def entry_provider_def andthen_eq_Inr Let_def split: sum.splits if_splits)
    moreover from this have e: "?i = normalize_provider_name raw" by (simp add: entry_provider_def)
    ultimately show ?thesis
      using l False that [of "node_or_null d'"] unfolding e by (simp add: load_cloud_entry_def Let_def with_model_def)
  qed
  show ?thesis
  proof (cases "find_if (\<lambda>p. cp_id p = ?i) ps")
    case (Some k)
    then have k: "k < length ps" "cp_id (ps ! k) = ?i" by (auto simp: find_if_Some_iff)
    then have "provider_wf (ps ! k)" using wf by (simp add: providers_wf_def list_all_length)
    moreover obtain q m where q: "run_steps (fill_provider_steps conv node df) (ps ! k) = Inr q"
        "read_model conv node = Inr m" "ps' = ps[k := with_model m q]"
      using l2 Some by (auto simp: andthen_eq_Inr)
    ultimately have "entry_effect conv node ps ps'"
      using fill_provider_wf [OF q(1)] k unfolding entry_effect_def
      by (intro exI [of _ q] conjI disjI1 exI [of _ k]) (auto simp: entry_model_def)
    with False show ?thesis by blast
  next
    case None
    then have fresh: "?i \<notin> cp_id ` set ps" by (auto simp: find_if_None_iff)
    obtain p q m where q: "new_provider conv node df ?i = Inr p"
        "run_steps (fill_provider_steps conv node df) p = Inr q" "read_model conv node = Inr m"
        "ps' = ps @ [with_model m q]"
      using l2 None by (auto simp: andthen_eq_Inr)
    note n = new_provider_wf [OF q(1) norm False]
    have "entry_effect conv node ps ps'"
      using fill_provider_wf [OF q(2) n(1)] n fresh q(3,4) unfolding entry_effect_def
      by (intro exI [of _ q] conjI disjI2) (auto simp: entry_model_def)
    with False show ?thesis by blast
  qed
qed

lemma ids_update: "cp_id (ps ! i) = cp_id q \<Longrightarrow> map cp_id (ps[i := q]) = map cp_id ps"
  by (cases "i < length ps") (metis list_update_id map_update nth_map, simp add: list_update_beyond)

lemma providers_list_update: "list_all P xs \<Longrightarrow> P x \<Longrightarrow> list_all P (xs[i := x])"
  using set_update_subset_insert [of xs i x] by (auto simp: list_all_iff)

lemma entry_effect_wf: "entry_effect conv node ps ps' \<Longrightarrow> providers_wf ps \<Longrightarrow> providers_wf ps'"
  unfolding entry_effect_def providers_wf_def by (auto simp: ids_update providers_list_update with_model_wf)

text \<open>What the catalogue says of a model of a provider.\<close>

definition catalog_model :: "cloud_provider list \<Rightarrow> string \<times> string \<Rightarrow> cloud_model option" where
  "catalog_model ps pm =
     Option.bind (List.find (\<lambda>p. cp_id p = fst pm) ps) (\<lambda>p. List.find (\<lambda>m. cm_id m = snd pm) (cp_models p))"

definition entry_models :: "yaml_conv \<Rightarrow> yaml \<Rightarrow> ((string \<times> string) \<times> cloud_model) list" where
  "entry_models conv node =
     (if entry_provider node = [] then []
      else case entry_model conv node of None \<Rightarrow> [] | Some m \<Rightarrow> [((entry_provider node, cm_id m), m)])"

lemma find_update:
  "distinct (map cp_id ps) \<Longrightarrow> i < length ps \<Longrightarrow> cp_id (ps ! i) = cp_id q \<Longrightarrow>
   List.find (\<lambda>p. cp_id p = j) (ps[i := q]) = (if j = cp_id q then Some q else List.find (\<lambda>p. cp_id p = j) ps)"
  by (induction ps arbitrary: i) (auto split: nat.splits simp: nth_Cons, (metis image_eqI nth_mem)+)

lemma find_snoc:
  "cp_id q \<notin> cp_id ` set ps \<Longrightarrow>
   List.find (\<lambda>p. cp_id p = j) (ps @ [q]) = (if j = cp_id q then Some q else List.find (\<lambda>p. cp_id p = j) ps)"
  by (induction ps) auto

lemma find_fresh: "i \<notin> cp_id ` set ps \<Longrightarrow> List.find (\<lambda>p. cp_id p = i) ps = None"
  by (induction ps) auto

lemma find_at:
  "distinct (map cp_id ps) \<Longrightarrow> i < length ps \<Longrightarrow> List.find (\<lambda>p. cp_id p = cp_id (ps ! i)) ps = Some (ps ! i)"
  by (induction ps arbitrary: i) (auto simp: nth_Cons split: nat.splits)

lemma find_with_model:
  "List.find (\<lambda>m. cm_id m = i) (cp_models (with_model m q)) =
     (case m of Some x \<Rightarrow> if i = cm_id x then Some x else List.find (\<lambda>m. cm_id m = i) (cp_models q)
      | None \<Rightarrow> List.find (\<lambda>m. cm_id m = i) (cp_models q))"
  by (simp add: with_model_def find_put_model split: option.splits)

lemma entry_effect_catalog:
  assumes e: "entry_effect conv node ps ps'" and wf: "providers_wf ps" and ne: "entry_provider node \<noteq> []"
  shows "catalog_model ps' = catalog_model ps ++ map_of (entry_models conv node)"
proof
  fix pm :: "string \<times> string"
  obtain q where q: "cp_id q = entry_provider node"
    and f: "\<And>j. List.find (\<lambda>p. cp_id p = j) ps' =
      (if j = cp_id q then Some (with_model (entry_model conv node) q) else List.find (\<lambda>p. cp_id p = j) ps)"
    and old: "catalog_model ps (cp_id q, i) = List.find (\<lambda>m. cm_id m = i) (cp_models q)" for i
  proof -
    obtain q where q: "cp_id q = entry_provider node"
      and alt: "(\<exists>i < length ps. cp_id (ps ! i) = cp_id q \<and> cp_models q = cp_models (ps ! i) \<and>
             ps' = ps[i := with_model (entry_model conv node) q]) \<or>
         (cp_id q \<notin> cp_id ` set ps \<and> cp_models q = [] \<and> ps' = ps @ [with_model (entry_model conv node) q])"
      using e unfolding entry_effect_def by blast
    have d: "distinct (map cp_id ps)" using wf by (simp add: providers_wf_def)
    show thesis
      using alt
    proof (elim disjE exE conjE)
      fix i
      assume i: "i < length ps" "cp_id (ps ! i) = cp_id q" "cp_models q = cp_models (ps ! i)"
        "ps' = ps[i := with_model (entry_model conv node) q]"
      show thesis
        by (rule that [OF q]) (use i d find_update [OF d i(1), of "with_model (entry_model conv node) q"] find_at [OF d i(1)]
          in \<open>auto simp: catalog_model_def\<close>)
    next
      assume n: "cp_id q \<notin> cp_id ` set ps" "cp_models q = []" "ps' = ps @ [with_model (entry_model conv node) q]"
      then have "catalog_model ps (cp_id q, i) = List.find (\<lambda>m. cm_id m = i) (cp_models q)" for i
        using n(1,2) by (simp add: catalog_model_def find_fresh)
      moreover have "List.find (\<lambda>p. cp_id p = j) ps' =
          (if j = cp_id q then Some (with_model (entry_model conv node) q) else List.find (\<lambda>p. cp_id p = j) ps)" for j
        using n(1) find_snoc [of "with_model (entry_model conv node) q" ps j] unfolding n(3) by simp
      ultimately show thesis using that [OF q] by blast
    qed
  qed
  show "catalog_model ps' pm = (catalog_model ps ++ map_of (entry_models conv node)) pm"
  proof (cases "fst pm = cp_id q")
    case True
    then have "catalog_model ps' pm = List.find (\<lambda>m. cm_id m = snd pm) (cp_models (with_model (entry_model conv node) q))"
      by (simp add: catalog_model_def f)
    moreover have "catalog_model ps pm = List.find (\<lambda>m. cm_id m = snd pm) (cp_models q)"
      using old [of "snd pm"] True [symmetric] by simp
    ultimately show ?thesis
      using True q ne by (cases pm; cases "entry_model conv node") (auto simp: find_with_model entry_models_def map_add_def)
  next
    case False
    then have "catalog_model ps' pm = catalog_model ps pm" by (simp add: catalog_model_def f)
    moreover have "map_of (entry_models conv node) pm = None"
      using False q by (cases pm) (auto simp: entry_models_def split: option.splits)
    ultimately show ?thesis by (simp add: map_add_def)
  qed
qed

lemma load_cloud_entries_catalog:
  assumes "load_cloud_entries conv d nodes ps = Inr ps'" and "providers_wf ps"
  shows "providers_wf ps' \<and> catalog_model ps' = catalog_model ps ++ map_of (rev (concat (map (entry_models conv) nodes)))"
  using assms
proof (induction nodes arbitrary: ps)
  case (Cons node nodes)
  then obtain ps1 where l: "load_cloud_entry conv d node ps = Inr ps1" "load_cloud_entries conv d nodes ps1 = Inr ps'"
    by (auto simp: andthen_eq_Inr)
  have "providers_wf ps1 \<and> catalog_model ps1 = catalog_model ps ++ map_of (entry_models conv node)"
    using load_cloud_entry_effect [OF l(1) Cons.prems(2)] entry_effect_wf entry_effect_catalog Cons.prems(2)
    by (auto simp: entry_models_def)
  moreover have "rev (entry_models conv node) = entry_models conv node"
    by (simp add: entry_models_def split: option.splits)
  ultimately show ?case using Cons.IH [OF l(2)] by simp
qed simp

subsection \<open>Lemmas: pushing each identifier once\<close>

lemma foldl_push_by:
  "distinct (map f xs) \<Longrightarrow> foldl (push_by f) out xs = out @ filter (\<lambda>x. f x \<notin> f ` set out) xs"
proof (induction xs arbitrary: out)
  case (Cons x xs)
  have "filter (\<lambda>y. f y \<notin> f ` set (out @ [x])) xs = filter (\<lambda>y. f y \<notin> f ` set out) xs" if "f x \<notin> f ` set out"
    using Cons.prems by (intro filter_cong) (auto simp: image_iff)
  then show ?case using Cons by (auto simp: push_by_def)
qed simp

lemma foldl_push_filter:
  assumes d: "distinct (map f ms)" and s: "set out \<subseteq> set ms"
  shows "foldl (push_by f) out (filter Q ms) = out @ filter (\<lambda>m. Q m \<and> m \<notin> set out) ms"
proof -
  have "f m \<in> f ` set out \<longleftrightarrow> m \<in> set out" if "m \<in> set ms" for m
    using that d s by (auto simp: distinct_map dest: inj_onD)
  moreover have "distinct (map f (filter Q ms))" using d by (simp add: distinct_map_filter)
  ultimately show ?thesis by (auto simp: foldl_push_by intro: filter_cong)
qed

lemma filter_find:
  "distinct (map f ms) \<Longrightarrow> filter (\<lambda>m. f m = k) ms = (case List.find (\<lambda>m. f m = k) ms of None \<Rightarrow> [] | Some m \<Rightarrow> [m])"
  by (induction ms) (auto simp: filter_empty_conv image_iff find_Some_iff split: option.splits)

lemma push_opt_find:
  "distinct (map f ms) \<Longrightarrow> push_opt f out (List.find (\<lambda>m. f m = k) ms) = foldl (push_by f) out (filter (\<lambda>m. f m = k) ms)"
  by (simp add: filter_find push_opt_def split: option.splits)

lemma default_model_in: "default_cloud_model p = Some m \<Longrightarrow> m \<in> set (cp_models p)"
  by (auto simp: default_cloud_model_def find_Some_iff split: option.splits list.splits)

lemma filter_the:
  assumes "distinct ms" and "\<And>m. d = Some m \<Longrightarrow> m \<in> set ms"
  shows "filter (\<lambda>m. d = Some m) ms = (case d of None \<Rightarrow> [] | Some m \<Rightarrow> [m])"
proof (cases d)
  case (Some x)
  have "filter (\<lambda>m. x = m) ms = [x]" using assms(1) assms(2) [OF Some]
    by (induction ms) (auto simp: filter_empty_conv)
  then show ?thesis using Some by simp
qed simp

text \<open>The models in four classes: the requested one, the default, the compact ones, the others.\<close>

definition candidate_class :: "cloud_provider \<Rightarrow> string \<Rightarrow> cloud_model \<Rightarrow> nat" where
  "candidate_class p requested m =
     (if requested \<noteq> [] \<and> cm_id m = requested then 0
      else if default_cloud_model p = Some m then 1
      else if cm_role m = ''compact'' then 2 else 3)"

lemma candidates_by_class:
  assumes d: "distinct (map cm_id (cp_models p))"
  shows "cloud_model_candidates p requested =
    concat (map (\<lambda>k. filter (\<lambda>m. candidate_class p requested m = k) (cp_models p)) [0, 1, 2, 3])"
proof -
  let ?ms = "cp_models p"
  let ?c = "\<lambda>k. filter (\<lambda>m. candidate_class p requested m = k) ?ms"
  have dm: "distinct ?ms" using d by (simp add: distinct_map)
  have push: "foldl (push_by cm_id) out (filter Q ?ms) = out @ filter (\<lambda>m. Q m \<and> m \<notin> set out) ?ms"
    if "set out \<subseteq> set ?ms" for out Q
    using foldl_push_filter [OF d that] .
  have o0: "(if requested \<noteq> [] then push_opt cm_id [] (find_cloud_model p requested) else []) = ?c 0"
    using push [of "[]"] by (auto simp: find_cloud_model_def push_opt_find [OF d] candidate_class_def)
  have o1: "push_opt cm_id (?c 0) (choose_cloud_model p []) = ?c 0 @ ?c 1"
  proof -
    have "push_opt cm_id (?c 0) (choose_cloud_model p []) =
        foldl (push_by cm_id) (?c 0) (filter (\<lambda>m. default_cloud_model p = Some m) ?ms)"
      using filter_the [OF dm default_model_in [of p]]
      by (simp add: choose_cloud_model_def push_opt_def split: option.splits)
    then show ?thesis by (subst (asm) push) (auto simp: candidate_class_def intro: filter_cong)
  qed
  have o2: "foldl (push_by cm_id) (?c 0 @ ?c 1) (filter (\<lambda>m. cm_role m = ''compact'') ?ms) = (?c 0 @ ?c 1) @ ?c 2"
    by (subst push) (auto simp: candidate_class_def intro: filter_cong)
  have o3: "foldl (push_by cm_id) ((?c 0 @ ?c 1) @ ?c 2) ?ms = ((?c 0 @ ?c 1) @ ?c 2) @ ?c 3"
    using push [of "(?c 0 @ ?c 1) @ ?c 2" "\<lambda>_. True"] by (auto simp: candidate_class_def intro: filter_cong)
  show ?thesis unfolding cloud_model_candidates_def Let_def o0 o1 o2 o3 by simp
qed

subsection \<open>Lemmas: the order of the providers\<close>

definition order_index :: "string list \<Rightarrow> string \<Rightarrow> int" where
  "order_index order i = int (length (takeWhile (\<lambda>j. j \<noteq> i) order))"

text \<open>The listed providers first, in the order of the list; then by cost and by name.\<close>

definition provider_key :: "string list \<Rightarrow> cloud_provider \<Rightarrow> nat \<times> int \<times> string" where
  "provider_key order p =
     (if cp_id p \<in> set order then (0, order_index order (cp_id p), []) else (1, cost_tier_rank (cp_cost_tier p), cp_id p))"

lemma order_index_snoc: "i \<in> set order \<Longrightarrow> order_index (order @ [j]) i = order_index order i"
  by (simp add: order_index_def takeWhile_append1)

lemma order_index_less: "i \<in> set order \<Longrightarrow> order_index order i < int (length order)"
  by (induction order) (auto simp: order_index_def)

lemma order_index_last: "i \<notin> set order \<Longrightarrow> order_index (order @ [i]) i = int (length order)"
  by (induction order) (auto simp: order_index_def)

lemma order_index_inj: "i \<in> set order \<Longrightarrow> j \<in> set order \<Longrightarrow> order_index order i = order_index order j \<Longrightarrow> i = j"
  by (induction order) (auto simp: order_index_def split: if_splits)

definition listed :: "cloud_provider list \<Rightarrow> string list \<Rightarrow> cloud_provider list \<Rightarrow> bool" where
  "listed ps order out \<longleftrightarrow> distinct (map cp_id out) \<and> set out = {p \<in> set ps. cp_id p \<in> set order} \<and>
     sorted (map (\<lambda>p. order_index order (cp_id p)) out)"

lemma listed_indices:
  "listed ps order out \<Longrightarrow>
   map (\<lambda>p. order_index (order @ [i]) (cp_id p)) out = map (\<lambda>p. order_index order (cp_id p)) out"
  by (auto simp: listed_def order_index_snoc)

lemma listed_skip:
  assumes "listed ps order out" and "i \<in> set order \<or> i \<notin> cp_id ` set ps"
  shows "listed ps (order @ [i]) out"
  using assms unfolding listed_def listed_indices [OF assms(1)] by (auto simp: image_iff)

lemma listed_ids:
  assumes "listed ps order out" and "p \<in> set ps"
  shows "cp_id p \<in> cp_id ` set out \<longleftrightarrow> cp_id p \<in> set order"
proof
  assume "cp_id p \<in> cp_id ` set out"
  then obtain q where "q \<in> set out" "cp_id q = cp_id p" by force
  then show "cp_id p \<in> set order" using assms(1) unfolding listed_def by (metis (mono_tags, lifting) mem_Collect_eq)
next
  assume "cp_id p \<in> set order"
  then show "cp_id p \<in> cp_id ` set out" using assms unfolding listed_def by blast
qed

lemma listed_new:
  assumes l: "listed ps order out" and d: "distinct (map cp_id ps)" and p: "p \<in> set ps" "cp_id p \<notin> set order"
  shows "listed ps (order @ [cp_id p]) (out @ [p])"
proof -
  have "q = p" if "q \<in> set ps" "cp_id q = cp_id p" for q
    using d that p(1) inj_onD [of cp_id "set ps" q p] by (simp add: distinct_map)
  moreover have "cp_id p \<notin> cp_id ` set out" using listed_ids [OF l p(1)] p(2) by simp
  moreover have "order_index order (cp_id q) \<le> int (length order)" if "q \<in> set out" for q
    using l that order_index_less [of "cp_id q" order] by (auto simp: listed_def)
  ultimately show ?thesis
    using l p unfolding listed_def map_append listed_indices [OF l, of "cp_id p"]
    by (auto simp: sorted_append order_index_last)
qed

lemma listed_providers:
  assumes d: "distinct (map cp_id (cc_providers cfg))"
  shows "listed (cc_providers cfg) order (foldl (push_opt cp_id) [] (map (find_cloud_provider cfg) order))"
proof (induction order rule: rev_induct)
  case Nil
  show ?case by (simp add: listed_def)
next
  case (snoc i order)
  define out where "out = foldl (push_opt cp_id) [] (map (find_cloud_provider cfg) order)"
  have l: "listed (cc_providers cfg) order out" using snoc by (simp add: out_def)
  have "listed (cc_providers cfg) (order @ [i]) (push_opt cp_id out (find_cloud_provider cfg i))"
  proof (cases "find_cloud_provider cfg i")
    case None
    then have "i \<notin> cp_id ` set (cc_providers cfg)" by (auto simp: find_cloud_provider_def find_None_iff)
    then show ?thesis using listed_skip [OF l] None by (simp add: push_opt_def)
  next
    case (Some p)
    then have p: "p \<in> set (cc_providers cfg)" "cp_id p = i" by (auto simp: find_cloud_provider_def find_Some_iff)
    show ?thesis
      using listed_skip [OF l, of i] listed_new [OF l d p(1)] listed_ids [OF l p(1)] p(2) Some
      by (auto simp: push_opt_def push_by_def)
  qed
  then show ?case by (simp add: out_def)
qed

lemma provider_key_inj:
  assumes "distinct (map cp_id ps)"
  shows "inj_on (provider_key order) (set ps)"
  using assms order_index_inj
  by (auto simp: inj_on_def distinct_map provider_key_def split: if_splits)

lemma ordered_by_key:
  assumes d: "distinct (map cp_id (cc_providers cfg))"
  shows "ordered_cloud_providers cfg = sort_key (provider_key (cc_provider_order cfg)) (cc_providers cfg)"
proof -
  let ?ps = "cc_providers cfg" and ?o = "cc_provider_order cfg"
  define out where "out = foldl (push_opt cp_id) [] (map (find_cloud_provider cfg) ?o)"
  define rest where "rest = filter (\<lambda>p. cp_id p \<notin> set ?o) ?ps"
  define by_cost where "by_cost = sort_key (\<lambda>p. (cost_tier_rank (cp_cost_tier p), cp_id p)) rest"
  have l: "listed ?ps ?o out" using listed_providers [OF d] by (simp add: out_def)
  have "filter (\<lambda>p. cp_id p \<notin> set (map cp_id out)) ?ps = rest"
    using listed_ids [OF l] unfolding rest_def by (intro filter_cong) simp_all
  moreover have "stable_sort cheaper_provider rest = by_cost"
    unfolding by_cost_def by (rule stable_sort_key) (auto simp: cheaper_provider_def Let_def)
  moreover have "foldl (push_by cp_id) out by_cost = out @ by_cost"
  proof -
    have "mset (map cp_id by_cost) = mset (map cp_id rest)" by (simp add: by_cost_def)
    then have "distinct (map cp_id by_cost)"
      using d distinct_map_filter [OF d] by (metis mset_eq_imp_distinct_iff rest_def)
    moreover have "\<forall>p \<in> set by_cost. cp_id p \<notin> cp_id ` set out"
      using listed_ids [OF l] by (simp add: by_cost_def rest_def)
    ultimately show ?thesis by (simp add: foldl_push_by)
  qed
  ultimately have o: "ordered_cloud_providers cfg = out @ by_cost"
    by (simp add: ordered_cloud_providers_def Let_def flip: out_def)
  have "sorted (map (provider_key ?o) (out @ by_cost))"
  proof -
    have k0: "map (provider_key ?o) out = map (\<lambda>p. (0, order_index ?o (cp_id p), [])) out"
      using l by (auto simp: listed_def provider_key_def)
    have k1: "map (provider_key ?o) by_cost = map (\<lambda>p. (1, cost_tier_rank (cp_cost_tier p), cp_id p)) by_cost"
      by (auto simp: by_cost_def rest_def provider_key_def)
    have "sorted (map (\<lambda>p. (cost_tier_rank (cp_cost_tier p), cp_id p)) by_cost)" by (simp add: by_cost_def)
    moreover have "sorted (map (\<lambda>p. order_index ?o (cp_id p)) out)" using l by (simp add: listed_def)
    moreover have "(x < y \<or> x \<le> y) \<longleftrightarrow> x \<le> y" for x y :: int by auto
    ultimately show ?thesis unfolding map_append k0 k1 by (simp add: sorted_append sorted_map)
  qed
  then have "sort_key (provider_key ?o) (out @ by_cost) = out @ by_cost" by (rule sort_key_id_if_sorted)
  moreover have "mset (out @ by_cost) = mset ?ps"
  proof -
    have "mset out = mset (filter (\<lambda>p. cp_id p \<in> set ?o) ?ps)"
      using l d by (intro set_eq_iff_mset_eq_distinct [THEN iffD1]) (auto simp: listed_def distinct_map)
    then show ?thesis by (simp add: by_cost_def rest_def)
  qed
  ultimately show ?thesis
    using o sort_key_mset [of ?ps "out @ by_cost" "provider_key ?o"] provider_key_inj [OF d] d by (simp add: distinct_map)
qed

subsection \<open>Properties\<close>

definition config_wf :: "cloud_config \<Rightarrow> bool" where
  "config_wf cfg \<longleftrightarrow> providers_wf (cc_providers cfg) \<and>
     list_all (\<lambda>i. i \<noteq> [] \<and> normalize_provider_name i = i) (cc_provider_order cfg) \<and>
     normalize_provider_name (cc_default_provider cfg) = cc_default_provider cfg"

text \<open>The entries of the list of cloud models in the document of the catalogue.\<close>

definition catalog_entries :: "host \<Rightarrow> yaml list" where
  "catalog_entries h =
     (case Option.bind (find_ai_catalog_path h) (\<lambda>path. Option.bind (h_read h path) (h_yaml_load h)) of
        None \<Rightarrow> []
      | Some root \<Rightarrow>
          (case andthen (yaml_at root ''models'') (\<lambda>v. cloud_model_nodes (node_or_null v)) of Inl _ \<Rightarrow> [] | Inr nodes \<Rightarrow> nodes))"

lemma provider_order_names:
  "provider_order_from ys out = Inr res \<Longrightarrow> list_all (\<lambda>i. i \<noteq> [] \<and> normalize_provider_name i = i) out \<Longrightarrow>
   list_all (\<lambda>i. i \<noteq> [] \<and> normalize_provider_name i = i) res"
  by (induction ys arbitrary: out) (auto simp: andthen_eq_Inr Let_def split: if_splits)

lemma read_provider_order_names:
  assumes "read_provider_order r = Inr res"
  shows "list_all (\<lambda>i. i \<noteq> [] \<and> normalize_provider_name i = i) res"
proof -
  obtain v where "(case v of Some (YSeq items) \<Rightarrow> provider_order_from items [] | _ \<Rightarrow> Inr []) = Inr res"
    using assms by (auto simp: read_provider_order_def andthen_eq_Inr)
  then show ?thesis by (cases v) (auto dest: provider_order_names split: yaml.split_asm)
qed

lemma read_default_provider_name: "read_default_provider r = Inr s \<Longrightarrow> normalize_provider_name s = s"
  by (auto simp: read_default_provider_def andthen_eq_Inr split: option.splits)

lemma load_config_entries:
  assumes "load_cloudproviders_config h conv = Inr (Some cfg)"
  shows "\<exists>defaults. load_cloud_entries conv defaults (catalog_entries h) [] = Inr (cc_providers cfg)"
    and "list_all (\<lambda>i. i \<noteq> [] \<and> normalize_provider_name i = i) (cc_provider_order cfg)"
    and "normalize_provider_name (cc_default_provider cfg) = cc_default_provider cfg"
  using assms
  by (auto simp: load_cloudproviders_config_def cloud_config_of_yaml_def catalog_entries_def andthen_eq_Inr Let_def
      intro: read_provider_order_names read_default_provider_name split: option.splits if_splits)

lemma providers_wf_Nil [simp]: "providers_wf []"
  by (simp add: providers_wf_def)

lemma catalog_model_Nil [simp]: "catalog_model [] = Map.empty"
  by (simp add: catalog_model_def fun_eq_iff)

lemma load_config_wf: "load_cloudproviders_config h conv = Inr (Some cfg) \<Longrightarrow> config_wf cfg"
  using load_config_entries [of h conv cfg] load_cloud_entries_catalog by (fastforce simp: config_wf_def)

definition sample_conv :: yaml_conv where
  "sample_conv = \<lparr>as_ll = (\<lambda>s. if list_all is_digit s then Some (int (dec_value s)) else None),
     as_bool = (\<lambda>s. Some (s = ''true''))\<rparr>"

definition sample_entry :: "string \<Rightarrow> string \<Rightarrow> string \<Rightarrow> string \<Rightarrow> yaml" where
  "sample_entry p m e r =
     YMap [(YScalar ''provider_id'', YScalar p), (YScalar ''model_id'', YScalar m),
       (YScalar ''endpoint'', YScalar e), (YScalar ''role'', YScalar r)]"

definition sample_catalog :: yaml where
  "sample_catalog =
     YMap [(YScalar ''models'', YMap
        [(YScalar ''runtime'', YMap [(YScalar ''route_policy'', YMap [(YScalar ''provider_order'', YSeq [YScalar ''Beta''])])]),
         (YScalar ''Models'', YMap [(YScalar ''Cloud'', YSeq
            [sample_entry ''alpha'' ''a1'' ''e1'' ''compact'', sample_entry ''beta'' ''b1'' ''e2'' [],
             sample_entry ''Alpha'' ''a2'' ''e3'' ''default'', sample_entry ''alpha'' ''a1'' ''e4'' ''compact''])])])]"

definition catalog_host :: host where
  "catalog_host = sample_host\<lparr>h_exists := (\<lambda>_. True), h_read := Some, h_yaml_load := (\<lambda>_. Some sample_catalog)\<rparr>"

definition sample_model :: "string \<Rightarrow> string \<Rightarrow> string \<Rightarrow> cloud_model" where
  "sample_model i e r = \<lparr>cm_id = i, cm_endpoint = e, cm_role = r, cm_cost_tier = [], cm_default_for_low_budget = False,
     cm_rpm = 0, cm_tpm = 0, cm_rpd = 0, cm_cooldown_base_seconds = 0, cm_cooldown_cap_seconds = 0\<rparr>"

definition sample_provider :: "string \<Rightarrow> string \<Rightarrow> cloud_model list \<Rightarrow> cloud_provider" where
  "sample_provider i e ms =
     (empty_provider i)\<lparr>cp_display_name := i, cp_base_url := e, cp_credential_provider_key := i, cp_models := ms\<rparr>"

definition sample_cloud :: cloud_config where
  "sample_cloud = \<lparr>cc_default_provider = [], cc_provider_order = [''beta''], cc_summary_refresh = default_summary_refresh,
     cc_cooldown = default_cooldown_config,
     cc_providers = [sample_provider ''alpha'' ''e1'' [sample_model ''a1'' ''e4'' ''compact'', sample_model ''a2'' ''e3'' ''default''],
       sample_provider ''beta'' ''e2'' [sample_model ''b1'' ''e2'' []]]\<rparr>"

lemma sample_cloud_loads: "load_cloudproviders_config catalog_host sample_conv = Inr (Some sample_cloud)"
  by code_simp

lemma sample_cloud_ids: "map cp_id (cc_providers sample_cloud) = [''alpha'', ''beta'']"
  by code_simp

text \<open>
  C22 A configuration that loads is well formed: no provider occurs twice, every identifier and every
  credential key is a normalized, non-empty name, every kind is empty or supported, no provider has two
  models of one identifier, and the preferred order holds only normalized names.
\<close>

theorem catalog_well_formed:
  assumes "load_cloudproviders_config h conv = Inr (Some cfg)"
  shows "config_wf cfg"
  by (rule load_config_wf [OF assms])

theorem catalog_well_formed_witness:
  "config_wf sample_cloud \<and> map cp_id (cc_providers sample_cloud) = [''alpha'', ''beta'']"
  using catalog_well_formed [OF sample_cloud_loads] sample_cloud_ids by blast

text \<open>
  What a loaded configuration says of a model of a provider is what the last entry of the catalogue
  that names this provider and this model says; an entry with no usable provider, identifier or endpoint
  adds nothing, and a pair that no entry names is absent.
\<close>

theorem catalog_last_entry_wins:
  assumes "load_cloudproviders_config h conv = Inr (Some cfg)"
  shows "Option.bind (find_cloud_provider cfg provider_id) (\<lambda>p. find_cloud_model p model_id) =
    map_of (rev (concat (map (entry_models conv) (catalog_entries h)))) (provider_id, model_id)"
proof -
  obtain d where "load_cloud_entries conv d (catalog_entries h) [] = Inr (cc_providers cfg)"
    using load_config_entries(1) [OF assms] by blast
  then have "catalog_model (cc_providers cfg) = map_of (rev (concat (map (entry_models conv) (catalog_entries h))))"
    using load_cloud_entries_catalog by fastforce
  then show ?thesis by (simp add: find_cloud_provider_def [abs_def] find_cloud_model_def [abs_def] catalog_model_def fun_eq_iff)
qed

theorem catalog_last_entry_wins_witness:
  "Option.bind (find_cloud_provider sample_cloud ''alpha'') (\<lambda>p. find_cloud_model p ''a1'') =
     map_of (rev (concat (map (entry_models sample_conv) (catalog_entries catalog_host)))) (''alpha'', ''a1'') \<and>
   map_option cm_endpoint (map_of (rev (concat (map (entry_models sample_conv) (catalog_entries catalog_host)))) (''alpha'', ''a1'')) =
     Some ''e4''"
  by (rule conjI, rule catalog_last_entry_wins [OF sample_cloud_loads], code_simp)

text \<open>
  C23 The order of the attempts, for every configuration that loads: the providers are tried in the preferred
  order first and the others by cost tier and then by name, each once; the models of a provider are tried
  each once, the requested one first, then the default one, then those with the role \<open>compact\<close>, then the
  others, and within a class in the order of the catalogue.
\<close>

theorem cloud_choice_ranked:
  assumes "load_cloudproviders_config h conv = Inr (Some cfg)"
  shows "ordered_cloud_providers cfg = sort_key (provider_key (cc_provider_order cfg)) (cc_providers cfg) \<and>
    (\<forall>provider \<in> set (cc_providers cfg). \<forall>requested.
      cloud_model_candidates provider requested =
        concat (map (\<lambda>k. filter (\<lambda>m. candidate_class provider requested m = k) (cp_models provider)) [0, 1, 2, 3]))"
proof (intro conjI ballI allI)
  have wf: "providers_wf (cc_providers cfg)" using load_config_wf [OF assms] by (simp add: config_wf_def)
  then show "ordered_cloud_providers cfg = sort_key (provider_key (cc_provider_order cfg)) (cc_providers cfg)"
    by (intro ordered_by_key) (simp add: providers_wf_def)
  fix provider requested
  assume "provider \<in> set (cc_providers cfg)"
  then have "distinct (map cm_id (cp_models provider))" using wf by (simp add: providers_wf_def provider_wf_def list_all_iff)
  then show "cloud_model_candidates provider requested =
      concat (map (\<lambda>k. filter (\<lambda>m. candidate_class provider requested m = k) (cp_models provider)) [0, 1, 2, 3])"
    by (rule candidates_by_class)
qed

lemma sample_alpha: "hd (cc_providers sample_cloud) \<in> set (cc_providers sample_cloud)"
  using sample_cloud_ids by (cases "cc_providers sample_cloud") auto

lemma sample_choice:
  "map cp_id (ordered_cloud_providers sample_cloud) = [''beta'', ''alpha''] \<and>
   map cm_id (cloud_model_candidates (hd (cc_providers sample_cloud)) []) = [''a2'', ''a1'']"
  by code_simp

theorem cloud_choice_ranked_witness:
  "ordered_cloud_providers sample_cloud = sort_key (provider_key (cc_provider_order sample_cloud)) (cc_providers sample_cloud) \<and>
   map cp_id (ordered_cloud_providers sample_cloud) = [''beta'', ''alpha''] \<and>
   cloud_model_candidates (hd (cc_providers sample_cloud)) ''a1'' =
     concat (map (\<lambda>k. filter (\<lambda>m. candidate_class (hd (cc_providers sample_cloud)) ''a1'' m = k)
       (cp_models (hd (cc_providers sample_cloud)))) [0, 1, 2, 3]) \<and>
   map cm_id (cloud_model_candidates (hd (cc_providers sample_cloud)) []) = [''a2'', ''a1'']"
  using cloud_choice_ranked [OF sample_cloud_loads] sample_choice sample_alpha by blast

end
