(* ===== verification/Compaction.thy ===== *)
theory Compaction
  imports TextUtil ThreadState JsonCodec
begin

text \<open>
  \<open>src/src/api/support/ThreadCompaction.cpp\<close> and \<open>compact_context_tail\<close> of
  \<open>CloudClient.cpp\<close>: fitting an AI thread's context into a token budget (4 bytes to the
  token), the rolling summary and pinned facts kept per thread, and the validation of a summary
  that a model proposes.

  Output parameters (\<open>bool* compacted\<close> and so on) are components of the result. Sizes are
  natural numbers, token budgets \<open>int\<close>; the multiplication by 4 stays in 64 bits under the
  stated bound. The JSON package is \<open>lib\<close>; the database and the durable copy are those of
  \<open>ThreadState\<close>.
\<close>

subsection \<open>Fitting the context\<close>

definition estimate_tokens_from_text :: "string \<Rightarrow> int" where
  "estimate_tokens_from_text text = (if text = [] then 0 else int ((length text + 3) div 4))"

definition compact_context_tail :: "string \<Rightarrow> int \<Rightarrow> string \<times> bool" where
  "compact_context_tail context_json allowed_context_tokens =
     (if allowed_context_tokens \<le> 0 then ([], context_json \<noteq> [])
      else let max_bytes = allowed_context_tokens * 4
           in if max_bytes \<le> 0 \<or> int (length context_json) \<le> max_bytes then (context_json, False)
              else (''[context_compacted]'' @ [newline] @
                      drop (length context_json - nat max_bytes) context_json, True))"

definition parse_pinned_facts :: "json_lib \<Rightarrow> string option \<Rightarrow> string list" where
  "parse_pinned_facts lib raw_json =
     (case raw_json of
        None \<Rightarrow> []
      | Some raw \<Rightarrow>
          if raw = [] then []
          else case lib_parse lib raw of
              None \<Rightarrow> []
            | Some parsed \<Rightarrow>
                filter (\<lambda>t. t \<noteq> [])
                  (List.map_filter (\<lambda>item. case item of JStr t \<Rightarrow> Some t | _ \<Rightarrow> None) (array_items parsed)))"

definition extract_pinned_facts_json_from_context :: "json_lib \<Rightarrow> string \<Rightarrow> string option" where
  "extract_pinned_facts_json_from_context lib context_json =
     (if context_json = [] then None
      else case lib_parse lib context_json of
          None \<Rightarrow> None
        | Some parsed \<Rightarrow>
            case json_get ''pinned_facts'' parsed of
              None \<Rightarrow> None
            | Some facts \<Rightarrow> if is_array facts then Some (lib_dump lib facts) else None)"

text \<open>
  The lambda \<open>append\<close> of \<open>merge_pinned_facts_json\<close>. The set \<open>dedupe\<close> always holds the
  elements of \<open>merged\<close>. The limit is tested after each value, not before the first.
\<close>

fun append_facts :: "string list \<Rightarrow> string list \<Rightarrow> string list" where
  "append_facts [] merged = merged"
| "append_facts (value # values) merged =
     (if value = [] then append_facts values merged
      else let merged' = (if value \<in> set merged then merged else merged @ [value])
           in if 24 \<le> length merged' then merged' else append_facts values merged')"

definition merge_pinned_facts_json ::
  "json_lib \<Rightarrow> string option \<Rightarrow> string option \<Rightarrow> string option" where
  "merge_pinned_facts_json lib current_json incoming_json =
     (let merged = append_facts (parse_pinned_facts lib incoming_json)
                     (append_facts (parse_pinned_facts lib current_json) [])
      in if merged = [] then None else Some (lib_dump lib (JArr (map JStr merged))))"

definition summary_block :: "nat \<Rightarrow> thread_state \<Rightarrow> string" where
  "summary_block max_bytes state =
     (case ts_rolling_summary state of
        None \<Rightarrow> []
      | Some summary \<Rightarrow>
          if summary = [] then []
          else truncate_bytes_tail (''[rolling_summary]'' @ [newline] @ summary @ [newline, newline])
                 (min max_bytes 2400))"

definition facts_block :: "nat \<Rightarrow> string list \<Rightarrow> string" where
  "facts_block max_bytes facts =
     (if facts = [] then []
      else truncate_bytes_tail
             (''[pinned_facts]'' @ [newline] @
              concat (map (\<lambda>fact. ''- '' @ fact @ [newline]) (take 12 facts)) @ [newline])
             (min max_bytes 1200))"

record compacted_context =
  cc_text :: string
  cc_compacted :: bool
  cc_used_summary :: bool
  cc_pinned_fact_count :: nat

definition build_compacted_context ::
  "json_lib \<Rightarrow> string \<Rightarrow> int \<Rightarrow> thread_state option \<Rightarrow> compacted_context" where
  "build_compacted_context lib context_json allowed_context_tokens state =
     (if allowed_context_tokens \<le> 0 then
        \<lparr>cc_text = [], cc_compacted = (context_json \<noteq> []), cc_used_summary = False, cc_pinned_fact_count = 0\<rparr>
      else
        let max_bytes_ll = allowed_context_tokens * 4
        in if max_bytes_ll \<le> 0 then
             \<lparr>cc_text = [], cc_compacted = False, cc_used_summary = False, cc_pinned_fact_count = 0\<rparr>
           else
             let max_bytes = nat max_bytes_ll;
                 facts = (case state of None \<Rightarrow> [] | Some s \<Rightarrow> parse_pinned_facts lib (ts_pinned_facts_json s));
                 prefix = (case state of None \<Rightarrow> [] | Some s \<Rightarrow> summary_block max_bytes s @ facts_block max_bytes facts);
                 used_summary = (case state of None \<Rightarrow> False
                                 | Some s \<Rightarrow> ts_rolling_summary s \<noteq> None \<and> ts_rolling_summary s \<noteq> Some []);
                 remaining = (if max_bytes \<le> length prefix then 0 else max_bytes - length prefix);
                 (tail0, tail_compacted) = compact_context_tail context_json (int (remaining div 4));
                 out0 = prefix @ tail0;
                 over = max_bytes < length out0;
                 out = (if \<not> over then out0
                        else if max_bytes \<le> length prefix then take max_bytes prefix
                        else let keep_tail = max_bytes - length prefix
                             in prefix @ (if keep_tail < length tail0
                                          then drop (length tail0 - keep_tail) tail0 else tail0))
             in \<lparr>cc_text = out, cc_compacted = (tail_compacted \<or> prefix \<noteq> [] \<or> over),
                 cc_used_summary = used_summary, cc_pinned_fact_count = min 12 (length facts)\<rparr>)"

subsection \<open>The stored state\<close>

definition load_thread_compaction_state :: "bool \<Rightarrow> string \<Rightarrow> state_world \<Rightarrow> thread_state option result" where
  "load_thread_compaction_state prepared thread_id w =
     (if \<not> prepared then Inl (RuntimeError ''prepare thread compaction get failed'')
      else Inr (map_of (sw_table w) thread_id))"

definition upsert_thread_compaction_state ::
  "json_lib \<Rightarrow> state_env \<Rightarrow> bool \<Rightarrow> bool \<Rightarrow> thread_state \<Rightarrow> state_world \<Rightarrow> unit result \<times> state_world" where
  "upsert_thread_compaction_state lib env prepared stepped s w =
     (if \<not> prepared then (Inl (RuntimeError ''prepare thread compaction upsert failed''), w)
      else case persist_thread_compaction_state lib env s w of
             (Inl e, w') \<Rightarrow> (Inl e, w')
           | (Inr _, w') \<Rightarrow>
               if \<not> stepped then (Inl (RuntimeError ''upsert thread compaction failed''), w')
               else (Inr (), w'\<lparr>sw_table := AList.update (ts_thread_id s) s (sw_table w')\<rparr>))"

definition rolled_summary :: "string option \<Rightarrow> string \<Rightarrow> string option" where
  "rolled_summary old context_json =
     (let context_tail = fst (compact_context_tail context_json 800);
          base = (case old of None \<Rightarrow> [] | Some r \<Rightarrow> r);
          rolling = (if context_tail = [] then base
                     else let joined = (if base = [] then [] else base @ [newline]) @ context_tail
                          in if 6000 < length joined then truncate_bytes_tail joined 6000 else joined)
      in if rolling = [] then old else Some rolling)"

definition roll_thread_compaction_state ::
  "json_lib \<Rightarrow> state_env \<Rightarrow> bool \<Rightarrow> bool \<Rightarrow> bool \<Rightarrow> string \<Rightarrow> string \<Rightarrow> int \<Rightarrow> state_world \<Rightarrow>
     unit result \<times> state_world" where
  "roll_thread_compaction_state lib env load_ok prepared stepped thread_id context_json updated_at w =
     (if thread_id = [] then (Inr (), w)
      else case load_thread_compaction_state load_ok thread_id w of
        Inl e \<Rightarrow> (Inl e, w)
      | Inr current \<Rightarrow>
          let old = (case current of
                       None \<Rightarrow> \<lparr>ts_thread_id = thread_id, ts_rolling_summary = None, ts_pinned_facts_json = None,
                                ts_last_compacted_message_id = None, ts_updated_at = updated_at\<rparr>
                     | Some c \<Rightarrow> c\<lparr>ts_updated_at := updated_at\<rparr>);
              incoming = extract_pinned_facts_json_from_context lib context_json;
              new = old\<lparr>ts_rolling_summary := rolled_summary (ts_rolling_summary old) context_json,
                        ts_pinned_facts_json := merge_pinned_facts_json lib (ts_pinned_facts_json old) incoming\<rparr>
          in upsert_thread_compaction_state lib env prepared stepped new w)"

definition build_structured_summary_refresh_prompt :: "string option \<Rightarrow> string \<Rightarrow> string" where
  "build_structured_summary_refresh_prompt current_summary new_context =
     ''Refresh the rolling summary for future turns.'' @ [newline] @
     ''Return plain text only in this exact structure:'' @ [newline] @
     ''## Decisions'' @ [newline] @ ''- ...'' @ [newline] @
     ''## Constraints'' @ [newline] @ ''- ...'' @ [newline] @
     ''## Open Questions'' @ [newline] @ ''- ...'' @ [newline] @
     ''## Next Actions'' @ [newline] @ ''- ...'' @ [newline] @
     ''Keep bullet points concise and durable.'' @ [newline] @
     (case current_summary of
        None \<Rightarrow> []
      | Some cur \<Rightarrow> if cur = [] then []
                    else [newline] @ ''Current summary:'' @ [newline] @ cur @ [newline]) @
     [newline] @ ''New context:'' @ [newline] @ new_context"

subsection \<open>Validation of a proposed summary\<close>

record summary_validation =
  sv_accepted :: bool
  sv_summary :: string
  sv_reason :: string
  sv_extracted_items :: nat
  sv_used_fallback_sections :: bool

definition sections :: "(string \<times> string) list" where
  "sections = [(''decisions'', ''## Decisions''), (''constraints'', ''## Constraints''),
               (''open questions'', ''## Open Questions''), (''next actions'', ''## Next Actions'')]"

text \<open>The scan over the lines: buckets, current key, items counted, headers found.\<close>

record scan =
  sc_buckets :: "string \<Rightarrow> string list"
  sc_key :: string
  sc_items :: nat
  sc_headers :: nat

definition scan_start :: scan where
  "scan_start = \<lparr>sc_buckets = (\<lambda>_. []), sc_key = [], sc_items = 0, sc_headers = 0\<rparr>"

definition scan_line :: "scan \<Rightarrow> string \<Rightarrow> scan" where
  "scan_line sc line =
     (if line \<noteq> [] \<and> hd line = CHR ''#'' \<and> normalize_section_key line \<in> set (map fst sections) then
        sc\<lparr>sc_key := normalize_section_key line, sc_headers := Suc (sc_headers sc)\<rparr>
      else if sc_key sc = [] then sc
      else let bullet = bulletize line
           in if bullet = [] then sc
              else sc\<lparr>sc_buckets := (sc_buckets sc)(sc_key sc := sc_buckets sc (sc_key sc) @ [bullet]),
                      sc_items := Suc (sc_items sc)\<rparr>)"

definition content_bullets :: "string list \<Rightarrow> string list" where
  "content_bullets lines =
     filter (\<lambda>b. b \<noteq> []) (map bulletize (filter (\<lambda>l. \<not> (l \<noteq> [] \<and> hd l = CHR ''#'')) lines))"

text \<open>The fallback deals the content lines out, three to a section, on top of the buckets.\<close>

fun deal_out :: "string list \<Rightarrow> string list \<Rightarrow> (string \<Rightarrow> string list) \<Rightarrow> (string \<Rightarrow> string list)" where
  "deal_out [] content buckets = buckets"
| "deal_out (key # keys) content buckets =
     deal_out keys (drop 3 content) (buckets(key := buckets key @ take 3 content))"

definition render_section :: "(string \<Rightarrow> string list) \<Rightarrow> string \<times> string \<Rightarrow> string" where
  "render_section buckets sec =
     snd sec @ [newline] @
     (if buckets (fst sec) = [] then ''- (none)'' @ [newline, newline]
      else concat (map (\<lambda>line. line @ [newline]) (take 6 (buckets (fst sec)))) @ [newline])"

definition rejected :: "string \<Rightarrow> summary_validation" where
  "rejected reason = \<lparr>sv_accepted = False, sv_summary = [], sv_reason = reason,
                      sv_extracted_items = 0, sv_used_fallback_sections = False\<rparr>"

definition normalize_and_validate_rolling_summary ::
  "string \<Rightarrow> string option \<Rightarrow> int \<Rightarrow> summary_validation" where
  "normalize_and_validate_rolling_summary candidate_summary previous_summary max_summary_chars =
     (let trimmed = trim_ascii candidate_summary
      in if length trimmed < 40 then rejected ''too_short''
         else let lines = split_lines_trimmed trimmed
         in if lines = [] then rejected ''empty_lines''
            else let sc = foldl scan_line scan_start lines;
                     used_fallback = (sc_items sc < 2 \<or> sc_headers sc < 2);
                     content = content_bullets lines
            in if used_fallback \<and> length content < 2 then rejected ''low_signal''
               else let buckets = (if used_fallback
                                   then deal_out (map fst sections) content (sc_buckets sc)
                                   else sc_buckets sc);
                        items = (if used_fallback then length content else sc_items sc);
                        full = concat (map (render_section buckets) sections);
                        normalized = (if 0 < max_summary_chars \<and> nat max_summary_chars < length full
                                      then take (nat max_summary_chars) full else full);
                        prev_len = (case previous_summary of None \<Rightarrow> 0 | Some p \<Rightarrow> length p)
               in if 0 < prev_len \<and> length normalized < min 120 (prev_len div 2)
                  then rejected ''regressive_shrink''
                  else \<lparr>sv_accepted = True, sv_summary = normalized, sv_reason = [],
                        sv_extracted_items = items, sv_used_fallback_sections = used_fallback\<rparr>)"

subsection \<open>Lemmas: fitting the context\<close>

lemma compact_context_tail_cases:
  "compact_context_tail c a =
     (if a \<le> 0 then ([], c \<noteq> [])
      else if int (length c) \<le> a * 4 then (c, False)
      else (''[context_compacted]'' @ [newline] @ drop (length c - nat (a * 4)) c, True))"
  by (simp add: compact_context_tail_def Let_def)

lemma compact_context_tail_same: "snd (compact_context_tail c a) = False \<Longrightarrow> fst (compact_context_tail c a) = c"
  by (auto simp: compact_context_tail_cases split: if_splits)

lemma blocks_length:
  "length (summary_block m s) \<le> min m 2400" "length (facts_block m fs) \<le> min m 1200"
  unfolding summary_block_def facts_block_def
  by (auto split: option.splits intro: order_trans [OF truncate_bytes_tail_length])

subsection \<open>Lemmas: pinned facts\<close>

lemma append_facts_set: "set merged \<subseteq> set (append_facts vs merged) \<and> set (append_facts vs merged) \<subseteq> set merged \<union> set vs"
  by (induction vs merged rule: append_facts.induct) (auto simp: Let_def split: if_splits)

lemma append_facts_distinct: "distinct merged \<Longrightarrow> distinct (append_facts vs merged)"
  by (induction vs merged rule: append_facts.induct) (auto simp: Let_def)

lemma append_facts_nonempty: "[] \<notin> set merged \<Longrightarrow> [] \<notin> set (append_facts vs merged)"
  by (induction vs merged rule: append_facts.induct) (auto simp: Let_def)

lemma append_facts_prefix: "\<exists>new. append_facts vs merged = merged @ new"
  by (induction vs merged rule: append_facts.induct) (auto simp: Let_def)

text \<open>Below the limit it stops at 24; a list already at the limit still takes one more.\<close>

lemma append_facts_length: "length (append_facts vs merged) \<le> max 24 (Suc (length merged))"
proof (induction vs merged rule: append_facts.induct)
  case (2 v vs merged)
  define merged' where "merged' = (if v \<in> set merged then merged else merged @ [v])"
  have "length (append_facts vs merged') \<le> max 24 (Suc (length merged'))"
    if "v \<noteq> []" "\<not> 24 \<le> length merged'"
    using 2(2) [OF that(1) refl] that by (simp add: merged'_def)
  then have "length (append_facts vs merged') \<le> 24" if "v \<noteq> []" "\<not> 24 \<le> length merged'"
    using that by fastforce
  moreover have "length merged' \<le> Suc (length merged)" by (simp add: merged'_def)
  ultimately show ?case using 2(1) by (auto simp: Let_def merged'_def [symmetric])
qed simp

lemma append_facts_below: "length merged < 24 \<Longrightarrow> length (append_facts vs merged) \<le> 24"
  using append_facts_length [of vs merged] by simp

lemma parse_pinned_facts_nonempty: "[] \<notin> set (parse_pinned_facts lib raw)"
  by (auto simp: parse_pinned_facts_def split: option.splits)

definition merged_facts :: "string list \<Rightarrow> string list \<Rightarrow> string list" where
  "merged_facts current incoming = append_facts incoming (append_facts current [])"

lemma merged_facts_length: "length (merged_facts cur inc) \<le> 25"
  using append_facts_length [of inc "append_facts cur []"] append_facts_below [of "[]" cur]
  by (simp add: merged_facts_def)

lemma merged_facts_ok: "distinct (merged_facts cur inc) \<and> [] \<notin> set (merged_facts cur inc)"
  by (simp add: merged_facts_def append_facts_distinct append_facts_nonempty)

lemma merged_facts_set: "set (merged_facts cur inc) \<subseteq> set cur \<union> set inc"
  using append_facts_set [of "append_facts cur []" inc] append_facts_set [of "[]" cur]
  by (fastforce simp: merged_facts_def)

lemma append_facts_below_all:
  "length (merged @ vs) < 24 \<Longrightarrow> set merged \<union> (set vs - {[]}) \<subseteq> set (append_facts vs merged)"
  by (induction vs merged rule: append_facts.induct) (auto simp: Let_def split: if_splits)

lemma append_facts_distinct_all:
  "distinct (merged @ vs) \<Longrightarrow> [] \<notin> set vs \<Longrightarrow> length merged < 24 \<Longrightarrow>
   append_facts vs merged = take 24 (merged @ vs)"
proof (induction vs arbitrary: merged)
  case (Cons v vs)
  show ?case
  proof (cases "24 \<le> Suc (length merged)")
    case True
    then have "length merged = 23" using Cons.prems(3) by simp
    then show ?thesis using Cons.prems by (auto simp: Let_def)
  next
    case False
    then show ?thesis using Cons.IH [of "merged @ [v]"] Cons.prems by (auto simp: Let_def)
  qed
qed simp

lemma merge_as_merged_facts:
  "merge_pinned_facts_json lib cur inc =
     (let m = merged_facts (parse_pinned_facts lib cur) (parse_pinned_facts lib inc)
      in if m = [] then None else Some (lib_dump lib (JArr (map JStr m))))"
  by (simp add: merge_pinned_facts_json_def merged_facts_def)

text \<open>What the fact list needs of the JSON package: an array of strings that \<open>dump\<close> printed parses back.\<close>

definition facts_read_back :: "json_lib \<Rightarrow> bool" where
  "facts_read_back lib \<longleftrightarrow> (\<forall>fs. lib_dump lib (JArr (map JStr fs)) \<noteq> [] \<and>
     lib_parse lib (lib_dump lib (JArr (map JStr fs))) = Some (JArr (map JStr fs)))"

lemma map_filter_JStr:
  "List.map_filter (\<lambda>item. case item of JStr t \<Rightarrow> Some t | _ \<Rightarrow> None) (map JStr fs) = fs"
  by (induction fs) (simp_all add: List.map_filter_def)

lemma parse_merged:
  assumes "facts_read_back lib"
  shows "parse_pinned_facts lib (merge_pinned_facts_json lib cur inc) =
    merged_facts (parse_pinned_facts lib cur) (parse_pinned_facts lib inc)"
proof -
  let ?m = "merged_facts (parse_pinned_facts lib cur) (parse_pinned_facts lib inc)"
  have "filter (\<lambda>t. t \<noteq> []) ?m = ?m" using merged_facts_ok by (auto simp: filter_id_conv)
  then show ?thesis
    using assms by (simp add: merge_as_merged_facts parse_pinned_facts_def facts_read_back_def Let_def map_filter_JStr)
qed

subsection \<open>Lemmas: rolling\<close>

lemma rolled_summary_bound:
  assumes "rolled_summary old c = Some r"
  shows "length r \<le> 6000 \<or> old = Some r"
proof (cases "fst (compact_context_tail c 800) = []")
  case True
  then show ?thesis using assms by (auto simp: rolled_summary_def Let_def split: if_splits option.splits)
next
  case False
  then show ?thesis
    using assms truncate_bytes_tail_length
    by (fastforce simp: rolled_summary_def Let_def split: if_splits option.splits)
qed

text \<open>A stored state within the limits: summary of at most 6000 bytes, at most 25 distinct facts.\<close>

definition state_bounded :: "json_lib \<Rightarrow> thread_state \<Rightarrow> bool" where
  "state_bounded lib s \<longleftrightarrow>
     (case ts_rolling_summary s of None \<Rightarrow> True | Some r \<Rightarrow> length r \<le> 6000) \<and>
     length (parse_pinned_facts lib (ts_pinned_facts_json s)) \<le> 25 \<and>
     distinct (parse_pinned_facts lib (ts_pinned_facts_json s))"

definition table_bounded :: "json_lib \<Rightarrow> state_world \<Rightarrow> bool" where
  "table_bounded lib w \<longleftrightarrow> (\<forall>i s. map_of (sw_table w) i = Some s \<longrightarrow> ts_thread_id s = i \<and> state_bounded lib s)"

lemma persist_keeps_table: "sw_table (snd (persist_thread_compaction_state lib env s w)) = sw_table w"
  by (auto simp: persist_thread_compaction_state_def split: option.splits sum.splits)

lemma upsert_table:
  "upsert_thread_compaction_state lib env prepared stepped s w = (r, w') \<Longrightarrow>
   sw_table w' = (if r = Inr () then AList.update (ts_thread_id s) s (sw_table w) else sw_table w)"
  using persist_keeps_table [of lib env s w]
  by (auto simp: upsert_thread_compaction_state_def split: if_splits sum.splits prod.splits)

subsection \<open>Lemmas: validation\<close>

definition is_bullet :: "string \<Rightarrow> bool" where
  "is_bullet l \<longleftrightarrow> starts_with l ''- '' \<or> starts_with l ''* ''"

lemma bulletize_is_bullet: "bulletize l \<noteq> [] \<Longrightarrow> is_bullet (bulletize l)"
  using bulletize_bullet [of l] by (cases "l = []") (auto simp: is_bullet_def bulletize_def)

definition buckets_ok :: "(string \<Rightarrow> string list) \<Rightarrow> bool" where
  "buckets_ok b \<longleftrightarrow> (\<forall>k. list_all is_bullet (b k))"

lemma scan_line_ok: "buckets_ok (sc_buckets sc) \<Longrightarrow> buckets_ok (sc_buckets (scan_line sc l))"
  using bulletize_is_bullet [of l] by (auto simp: scan_line_def buckets_ok_def Let_def)

lemma scan_ok: "buckets_ok (sc_buckets sc) \<Longrightarrow> buckets_ok (sc_buckets (foldl scan_line sc ls))"
  by (induction ls arbitrary: sc) (simp_all add: scan_line_ok)

lemma content_ok: "list_all is_bullet (content_bullets ls)"
  using bulletize_is_bullet by (auto simp: content_bullets_def list_all_iff)

lemma list_all_take_drop: "list_all P xs \<Longrightarrow> list_all P (take n xs) \<and> list_all P (drop n xs)"
  by (auto simp: list_all_iff dest: in_set_takeD in_set_dropD)

lemma deal_out_ok: "buckets_ok b \<Longrightarrow> list_all is_bullet c \<Longrightarrow> buckets_ok (deal_out ks c b)"
proof (induction ks c b rule: deal_out.induct)
  case (2 k ks c b)
  have c: "list_all is_bullet (take 3 c)" "list_all is_bullet (drop 3 c)"
    using list_all_take_drop [OF 2(3)] by simp_all
  then have "buckets_ok (b(k := b k @ take 3 c))" using 2(2) by (simp add: buckets_ok_def)
  then show ?case unfolding deal_out.simps by (rule 2(1) [OF _ c(2)])
qed simp

lemma split_lines_trimmed_some: "40 \<le> length (trim_ascii t) \<Longrightarrow> split_lines_trimmed (trim_ascii t) \<noteq> []"
proof -
  assume "40 \<le> length (trim_ascii t)"
  then have "trim_ascii t \<noteq> []" by auto
  then have "\<exists>c \<in> set [] \<union> set (trim_ascii t). \<not> is_space c"
    using trim_ascii_hd [of t] hd_in_set by (metis UnCI)
  then show ?thesis unfolding split_lines_trimmed_def by (rule split_lines_from_some)
qed

text \<open>The shape of an accepted summary: the four headings in order, each with its bullets.\<close>

definition structured :: "string \<Rightarrow> bool" where
  "structured text \<longleftrightarrow> (\<exists>bs. length bs = 4 \<and>
     (\<forall>b \<in> set bs. b \<noteq> [] \<and> length b \<le> 6 \<and> list_all is_bullet b) \<and>
     text = concat (map2 (\<lambda>h b. h @ [newline] @ concat (map (\<lambda>l. l @ [newline]) b) @ [newline])
                     [''## Decisions'', ''## Constraints'', ''## Open Questions'', ''## Next Actions''] bs))"

definition shown :: "string list \<Rightarrow> string list" where
  "shown b = (if b = [] then [''- (none)''] else take 6 b)"

lemma render_section_shown:
  "render_section b sec = snd sec @ [newline] @ concat (map (\<lambda>l. l @ [newline]) (shown (b (fst sec)))) @ [newline]"
  by (simp add: render_section_def shown_def)

lemma shown_ok: "list_all is_bullet b \<Longrightarrow> shown b \<noteq> [] \<and> length (shown b) \<le> 6 \<and> list_all is_bullet (shown b)"
  using list_all_take_drop [of is_bullet b 6] by (auto simp: shown_def is_bullet_def starts_with_def)

lemma render_structured:
  assumes "buckets_ok b"
  shows "structured (concat (map (render_section b) sections))"
  unfolding structured_def
proof (intro exI conjI)
  let ?bs = "map (\<lambda>sec. shown (b (fst sec))) sections"
  show "length ?bs = 4" by (simp add: sections_def)
  show "\<forall>b \<in> set ?bs. b \<noteq> [] \<and> length b \<le> 6 \<and> list_all is_bullet b"
    using shown_ok assms by (auto simp: buckets_ok_def)
  show "concat (map (render_section b) sections) =
    concat (map2 (\<lambda>h b. h @ [newline] @ concat (map (\<lambda>l. l @ [newline]) b) @ [newline])
      [''## Decisions'', ''## Constraints'', ''## Open Questions'', ''## Next Actions''] ?bs)"
    by (simp add: sections_def render_section_shown)
qed

subsection \<open>Properties\<close>


definition plain_lib :: json_lib where
  "plain_lib = \<lparr>lib_parse = (\<lambda>_. None), lib_dump = (\<lambda>_. ''x''), lib_dump2 = (\<lambda>_. ''x''), lib_trunc = (\<lambda>_. 0)\<rparr>"


text \<open>
  Rolling keeps the stored states bounded. When every row of the table is within the limits,
  so is every row after a roll, whatever context it is given; a roll that reports an error leaves
  the table as it was, and one that succeeds changes the row of its own thread only, stamping it
  with the given time and keeping the id of the last compacted message.
\<close>

theorem roll_keeps_bounds:
  assumes ok: "table_bounded lib w" and lib: "facts_read_back lib"
    and roll: "roll_thread_compaction_state lib env load_ok prepared stepped tid ctx now w = (r, w')"
  shows "table_bounded lib w' \<and>
    (r \<noteq> Inr () \<or> tid = [] \<longrightarrow> sw_table w' = sw_table w) \<and>
    (\<forall>i. i \<noteq> tid \<longrightarrow> map_of (sw_table w') i = map_of (sw_table w) i) \<and>
    (r = Inr () \<and> tid \<noteq> [] \<longrightarrow> (\<exists>s. map_of (sw_table w') tid = Some s \<and> ts_updated_at s = now \<and>
       ts_last_compacted_message_id s =
         Option.bind (map_of (sw_table w) tid) ts_last_compacted_message_id))"
proof (cases "tid = [] \<or> \<not> load_ok")
  case True
  then show ?thesis
    using roll ok by (auto simp: roll_thread_compaction_state_def load_thread_compaction_state_def split: if_splits)
next
  case False
  define old where "old = (case map_of (sw_table w) tid of
      None \<Rightarrow> \<lparr>ts_thread_id = tid, ts_rolling_summary = None, ts_pinned_facts_json = None,
              ts_last_compacted_message_id = None, ts_updated_at = now\<rparr>
    | Some c \<Rightarrow> c\<lparr>ts_updated_at := now\<rparr>)"
  define new where "new = old\<lparr>ts_rolling_summary := rolled_summary (ts_rolling_summary old) ctx,
      ts_pinned_facts_json := merge_pinned_facts_json lib (ts_pinned_facts_json old)
        (extract_pinned_facts_json_from_context lib ctx)\<rparr>"
  have up: "upsert_thread_compaction_state lib env prepared stepped new w = (r, w')"
    using roll False
    by (simp add: roll_thread_compaction_state_def load_thread_compaction_state_def Let_def old_def new_def)
  have old: "ts_thread_id old = tid" "case ts_rolling_summary old of None \<Rightarrow> True | Some r \<Rightarrow> length r \<le> 6000"
    using ok by (auto simp: old_def table_bounded_def state_bounded_def split: option.splits)
  have "case ts_rolling_summary new of None \<Rightarrow> True | Some r \<Rightarrow> length r \<le> 6000"
    using old(2) rolled_summary_bound [of "ts_rolling_summary old" ctx]
    by (auto simp: new_def split: option.splits)
  then have new: "state_bounded lib new" "ts_thread_id new = tid" "ts_updated_at new = now"
    using old(1) merged_facts_length merged_facts_ok
    by (auto simp: state_bounded_def new_def parse_merged [OF lib] old_def split: option.splits)
  have last: "ts_last_compacted_message_id new = Option.bind (map_of (sw_table w) tid) ts_last_compacted_message_id"
    by (simp add: new_def old_def split: option.splits)
  show ?thesis using upsert_table [OF up] ok new last False by (auto simp: table_bounded_def update_conv' split: if_splits)
qed

lemma codec_facts_read_back: "facts_read_back codec_lib"
  by (simp only: facts_read_back_def codec_round_trip enc_ne simp_thms)

theorem roll_keeps_bounds_witness:
  "table_bounded codec_lib (snd (roll_thread_compaction_state codec_lib sample_env True True True ''abcd'' ''hello'' 9
     sample_state_world))"
proof -
  have "table_bounded codec_lib sample_state_world" by (simp add: table_bounded_def sample_state_world_def)
  from roll_keeps_bounds [OF this codec_facts_read_back surjective_pairing] show ?thesis by blast
qed

text \<open>
  The pinned facts of a thread: merging keeps the old facts first and in order, then the new
  ones, without repetition and without empty facts, and drops nothing while fewer than 24 values
  are given. The limit of 24 is not exact: a list of 24 facts takes one more at every merge that
  offers a new fact first, so 25 is the true bound.
\<close>

theorem pinned_facts_merge:
  assumes lib: "facts_read_back lib"
    and cur: "parse_pinned_facts lib current = cs" and inc: "parse_pinned_facts lib incoming = is"
    and out: "parse_pinned_facts lib (merge_pinned_facts_json lib current incoming) = ms"
  shows "distinct ms \<and> set ms \<subseteq> set cs \<union> set is \<and> length ms \<le> 25 \<and>
    (distinct cs \<longrightarrow> (\<exists>new. ms = take 24 cs @ new)) \<and>
    (length cs + length is < 24 \<longrightarrow> set ms = set cs \<union> set is) \<and>
    (distinct cs \<and> length cs = 24 \<and> is \<noteq> [] \<and> hd is \<notin> set cs \<longrightarrow> ms = cs @ [hd is])"
proof -
  have ms: "ms = merged_facts cs is" using out parse_merged [OF lib] cur inc by simp
  have ne: "[] \<notin> set cs" "[] \<notin> set is" using parse_pinned_facts_nonempty cur inc by metis+
  have first: "append_facts cs [] = take 24 cs" if "distinct cs"
    using append_facts_distinct_all [of "[]" cs] that ne by simp
  have "set ms = set cs \<union> set is" if "length cs + length is < 24"
  proof -
    let ?a = "append_facts cs []"
    have a: "set cs \<subseteq> set ?a" "set ?a \<subseteq> set cs" using append_facts_below_all [of "[]" cs] append_facts_set [of "[]" cs] ne that by auto
    have "length ?a = card (set ?a)" by (rule distinct_card [symmetric]) (simp add: append_facts_distinct)
    also have "\<dots> \<le> length cs" using a card_length [of cs] card_mono [OF finite_set a(2)] by simp
    finally have "length (?a @ is) < 24" using that by simp
    from append_facts_below_all [OF this] have "set cs \<union> set is \<subseteq> set ms" using a ne by (auto simp: ms merged_facts_def)
    then show ?thesis using merged_facts_set [of cs "is"] ms by auto
  qed
  moreover have "\<exists>new. ms = take 24 cs @ new" if "distinct cs"
    using append_facts_prefix [of "is" "take 24 cs"] first [OF that] by (simp add: ms merged_facts_def)
  moreover have "ms = cs @ [hd is]" if "distinct cs" "length cs = 24" "is \<noteq> []" "hd is \<notin> set cs"
    using first that ne by (cases "is") (auto simp: ms merged_facts_def Let_def)
  ultimately show ?thesis
    using ms merged_facts_ok [of cs "is"] merged_facts_set [of cs "is"] merged_facts_length [of cs "is"] by auto
qed

definition twenty_four :: "string list" where
  "twenty_four = map (\<lambda>n. replicate (Suc n) CHR ''a'') [0..<24]"

theorem pinned_facts_merge_witness:
  "parse_pinned_facts codec_lib (merge_pinned_facts_json codec_lib
       (Some (enc (JArr (map JStr twenty_four)))) (Some (enc (JArr [JStr ''b''])))) = twenty_four @ [''b'']"
proof -
  have p: "parse_pinned_facts codec_lib (Some (enc (JArr (map JStr fs)))) = filter (\<lambda>t. t \<noteq> []) fs" for fs
    by (simp add: parse_pinned_facts_def map_filter_JStr enc_ne del: enc.simps)
  have t: "filter (\<lambda>t. t \<noteq> []) twenty_four = twenty_four" "distinct twenty_four" "length twenty_four = 24"
    "''b'' \<notin> set twenty_four"
    by (auto simp: twenty_four_def filter_id_conv distinct_map inj_on_def)
  from pinned_facts_merge [OF codec_facts_read_back p p refl, of twenty_four "[''b'']"] t
  show ?thesis by (simp del: enc.simps)
qed

text \<open>
  Validation of a proposed summary. A rejected proposal gives no summary and one of three
  reasons: \<open>too_short\<close> exactly below 40 bytes after trimming, \<open>low_signal\<close> or
  \<open>regressive_shrink\<close>; the branch that the source marks as unreachable is never taken. An
  accepted one holds at least two items and is a text of the four sections in order, each with one
  to six bullets, cut at the size limit if there is one; against a previous summary it is not
  shorter than 120 bytes or half of it, whichever is less.
\<close>

theorem summary_validation_sound:
  assumes v: "v = normalize_and_validate_rolling_summary candidate previous limit"
  shows "(sv_reason v = ''too_short'' \<longleftrightarrow> length (trim_ascii candidate) < 40) \<and>
    (\<not> sv_accepted v \<longrightarrow> sv_summary v = [] \<and>
       sv_reason v \<in> {''too_short'', ''low_signal'', ''regressive_shrink''}) \<and>
    (sv_accepted v \<longrightarrow> sv_reason v = [] \<and> 2 \<le> sv_extracted_items v \<and>
       (0 < limit \<longrightarrow> int (length (sv_summary v)) \<le> limit) \<and>
       (\<forall>p. previous = Some p \<longrightarrow> min 120 (length p div 2) \<le> length (sv_summary v)) \<and>
       (\<exists>full. structured full \<and>
          sv_summary v = (if 0 < limit then take (nat limit) full else full)))"
proof (cases "length (trim_ascii candidate) < 40")
  case True
  then show ?thesis using v by (simp add: normalize_and_validate_rolling_summary_def rejected_def Let_def)
next
  case False
  define lines where "lines = split_lines_trimmed (trim_ascii candidate)"
  define sc where "sc = foldl scan_line scan_start lines"
  define fb where "fb = (sc_items sc < 2 \<or> sc_headers sc < 2)"
  define b where "b = (if fb then deal_out (map fst sections) (content_bullets lines) (sc_buckets sc) else sc_buckets sc)"
  define full where "full = concat (map (render_section b) sections)"
  define cut where "cut = (if 0 < limit \<and> nat limit < length full then take (nat limit) full else full)"
  define pl where "pl = (case previous of None \<Rightarrow> 0 | Some p \<Rightarrow> length p)"
  have ne: "lines \<noteq> []" using False split_lines_trimmed_some by (simp add: lines_def)
  have "buckets_ok (sc_buckets sc)" unfolding sc_def by (rule scan_ok) (simp add: scan_start_def buckets_ok_def)
  then have st: "structured full"
    unfolding full_def b_def by (intro render_structured) (simp add: deal_out_ok content_ok)
  have veq: "v = (if fb \<and> length (content_bullets lines) < 2 then rejected ''low_signal''
      else if 0 < pl \<and> length cut < min 120 (pl div 2) then rejected ''regressive_shrink''
      else \<lparr>sv_accepted = True, sv_summary = cut, sv_reason = [],
            sv_extracted_items = (if fb then length (content_bullets lines) else sc_items sc),
            sv_used_fallback_sections = fb\<rparr>)"
    unfolding v normalize_and_validate_rolling_summary_def Let_def
    by (simp only: False ne if_False lines_def [symmetric] sc_def [symmetric] fb_def [symmetric] b_def [symmetric]
        full_def [symmetric] cut_def [symmetric] pl_def [symmetric])
  have cut: "cut = (if 0 < limit then take (nat limit) full else full)" "0 < limit \<Longrightarrow> int (length cut) \<le> limit"
    by (auto simp: cut_def)
  consider (low) "v = rejected ''low_signal''" | (shrink) "v = rejected ''regressive_shrink''"
    | (ok) "\<not> (fb \<and> length (content_bullets lines) < 2)" "\<not> (0 < pl \<and> length cut < min 120 (pl div 2))"
    using veq by presburger
  then show ?thesis
  proof cases
    case ok
    have "min 120 (length p div 2) \<le> length cut" if "previous = Some p" for p
      using ok(2) that by (auto simp: pl_def)
    moreover have "2 \<le> (if fb then length (content_bullets lines) else sc_items sc)"
      using ok(1) by (auto simp: fb_def)
    ultimately show ?thesis unfolding veq using ok False st cut by (simp only: if_False) auto
  qed (use False in \<open>simp_all add: rejected_def\<close>)
qed

definition sample_summary :: string where
  "sample_summary = ''## Decisions'' @ [newline] @ ''- keep the cloud fallback'' @ [newline] @
     ''## Next Actions'' @ [newline] @ ''- write it down'' @ [newline]"

theorem summary_validation_sound_witness:
  "sv_accepted (normalize_and_validate_rolling_summary sample_summary None 0) \<and>
   (\<exists>full. structured full \<and>
      sv_summary (normalize_and_validate_rolling_summary sample_summary None 0) = full)"
proof -
  have "sv_accepted (normalize_and_validate_rolling_summary sample_summary None 0)"
    by (simp add: normalize_and_validate_rolling_summary_def sample_summary_def trim_ascii_def is_space_def
        byte_of_def split_lines_trimmed_def scan_line_def scan_start_def normalize_section_key_def
        lowercase_ascii_def to_lower_def is_upper_def sections_def bulletize_def starts_with_def content_bullets_def Let_def)
  then show ?thesis using summary_validation_sound [OF refl, of sample_summary None 0] by simp
qed

end
