(* ===== verification/CloudClient.thy ===== *)
theory CloudClient
  imports CloudConfig Compaction OAuth
begin

text \<open>
  \<open>src/src/api/support/CloudClient.cpp\<close>: one call of a cloud model, from the request for its kind of
  provider to the text or the error of the answer. \<open>estimate_tokens_from_text\<close> and
  \<open>compact_context_tail\<close> of the same file are in \<open>Compaction\<close>.

  The exchange over TLS is the argument \<open>net\<close>: from host, port, target, header fields and body to an
  error text or a status with a body; the texts of the JSON package's exceptions are \<open>json_what\<close>. The
  overrides for tests are not set.
\<close>

subsection \<open>The request\<close>

record https_url =
  hu_host :: string
  hu_port :: string
  hu_base_path :: string

definition parse_https_base_url :: "string \<Rightarrow> https_url option" where
  "parse_https_base_url base_url =
     (if \<not> starts_with base_url ''https://'' then None
      else
        let rest = drop 8 base_url;
            (host_port, base_path) =
              (case find_char CHR ''/'' rest of None \<Rightarrow> (rest, []) | Some slash \<Rightarrow> (take slash rest, drop slash rest))
        in if host_port = [] then None
           else
             let (host, port) =
                   (case find_char CHR '':'' host_port of
                      None \<Rightarrow> (host_port, ''443'')
                    | Some colon \<Rightarrow> (take colon host_port, drop (colon + 1) host_port))
             in if host = [] then None else Some \<lparr>hu_host = host, hu_port = port, hu_base_path = base_path\<rparr>)"

text \<open>The loop is the one of the form encoder.\<close>

definition url_encode_component :: "string \<Rightarrow> string" where
  "url_encode_component s = url_encode s"

definition truncate_bytes :: "string \<Rightarrow> nat \<Rightarrow> string" where
  "truncate_bytes text max_bytes = (if length text \<le> max_bytes then text else take max_bytes text)"

text \<open>\<open>set\<close> of Beast's fields: the fields of the name, in any case, go, and the new one is the last.\<close>

definition set_field :: "string \<times> string \<Rightarrow> (string \<times> string) list \<Rightarrow> (string \<times> string) list" where
  "set_field f fs = filter (\<lambda>g. lowercase_ascii (fst g) \<noteq> lowercase_ascii (fst f)) fs @ [f]"

type_synonym net = "string \<Rightarrow> string \<Rightarrow> string \<Rightarrow> (string \<times> string) list \<Rightarrow> string \<Rightarrow> string + int \<times> string"

definition https_post_json ::
  "net \<Rightarrow> json_lib \<Rightarrow> string \<Rightarrow> string \<Rightarrow> (string \<times> string) list \<Rightarrow> json \<Rightarrow> string + int \<times> string" where
  "https_post_json net lib base_url target_path_and_query headers body =
     (case parse_https_base_url base_url of
        None \<Rightarrow> Inl ''invalid https base_url''
      | Some parsed \<Rightarrow>
          net (hu_host parsed) (hu_port parsed) (hu_base_path parsed @ target_path_and_query)
            (foldl (\<lambda>fs f. set_field f fs)
               [(''Host'', hu_host parsed), (''User-Agent'', ''holder/cloud-runner''), (''Content-Type'', ''application/json'')]
               headers)
            (lib_dump lib body))"

subsection \<open>The answer\<close>

definition status_error_code :: "int \<Rightarrow> string" where
  "status_error_code status =
     (if status = 401 \<or> status = 403 then ''auth_failed''
      else if status = 429 then ''rate_limited''
      else if status = 408 \<or> status = 504 then ''provider_timeout''
      else if 500 \<le> status then ''provider_unavailable''
      else ''provider_error'')"

definition contains_insensitive :: "string \<Rightarrow> string \<Rightarrow> bool" where
  "contains_insensitive haystack needle \<longleftrightarrow> find_str (lowercase_ascii needle) (lowercase_ascii haystack) \<noteq> None"

definition insufficient_quota :: "json \<Rightarrow> bool" where
  "insufficient_quota parsed \<longleftrightarrow>
     (case json_get ''error'' parsed of
        Some err \<Rightarrow> is_object err \<and>
          (json_get ''code'' err = Some (JStr ''insufficient_quota'') \<or> json_get ''type'' err = Some (JStr ''insufficient_quota''))
      | None \<Rightarrow> False)"

definition credit_exhausted :: "json \<Rightarrow> bool" where
  "credit_exhausted parsed \<longleftrightarrow>
     (case json_get ''error'' parsed of
        Some err \<Rightarrow>
          (case json_get ''message'' err of
             Some (JStr msg) \<Rightarrow>
               contains_insensitive msg ''credit balance is too low'' \<or> contains_insensitive msg ''purchase credits'' \<or>
               contains_insensitive msg ''plans & billing''
           | _ \<Rightarrow> False)
      | None \<Rightarrow> False)"

definition classify_error_from_body :: "json_lib \<Rightarrow> string \<Rightarrow> int \<Rightarrow> string \<Rightarrow> string option" where
  "classify_error_from_body lib provider_kind status response_body =
     (if status = 401 \<or> status = 403 then Some ''auth_failed''
      else if status = 408 \<or> status = 504 then Some ''provider_timeout''
      else if 500 \<le> status then Some ''provider_unavailable''
      else
        let code = (if status = 429 then ''rate_limited'' else ''provider_error'')
        in case lib_parse lib response_body of
             None \<Rightarrow> Some code
           | Some parsed \<Rightarrow>
               if provider_kind = ''generic_responses'' \<and> insufficient_quota parsed then Some ''quota_exceeded''
               else if provider_kind = ''mechatropic_messages'' \<and> credit_exhausted parsed then Some ''quota_exceeded''
               else Some code)"

definition some_text :: "string \<Rightarrow> string option" where
  "some_text text = (if text = [] then None else Some text)"

definition part_text :: "json \<Rightarrow> string" where
  "part_text part = (case json_get ''text'' part of Some (JStr s) \<Rightarrow> s | _ \<Rightarrow> [])"

definition parse_chocolatefactory_text :: "json \<Rightarrow> string option" where
  "parse_chocolatefactory_text parsed =
     (case json_get ''candidates'' parsed of
        Some (JArr (first # _)) \<Rightarrow>
          (case Option.bind (json_get ''content'' first) (json_get ''parts'') of
             Some (JArr parts) \<Rightarrow> some_text (concat (map part_text parts))
           | _ \<Rightarrow> None)
      | _ \<Rightarrow> None)"

text \<open>The items of type \<open>text\<close>; \<open>value(\"type\", \"\")\<close> throws for a type that is not a string.\<close>

fun text_items :: "json list \<Rightarrow> string \<Rightarrow> string result" where
  "text_items [] text = Inr text"
| "text_items (item # items) text =
     (case json_get ''type'' item of
        None \<Rightarrow> text_items items text
      | Some t \<Rightarrow> andthen (get_string t) (\<lambda>t. text_items items (if t = ''text'' then text @ part_text item else text)))"

definition parse_generic_chat_text :: "json \<Rightarrow> string option result" where
  "parse_generic_chat_text parsed =
     (case json_get ''choices'' parsed of
        Some (JArr (choice # _)) \<Rightarrow>
          (case Option.bind (json_get ''message'' choice) (json_get ''content'') of
             Some (JStr text) \<Rightarrow> Inr (some_text text)
           | Some (JArr items) \<Rightarrow> andthen (text_items items []) (\<lambda>text. Inr (some_text text))
           | _ \<Rightarrow> Inr None)
      | _ \<Rightarrow> Inr None)"

definition parse_mechatropic_messages_text :: "json \<Rightarrow> string option result" where
  "parse_mechatropic_messages_text parsed =
     (case json_get ''content'' parsed of
        Some (JArr items) \<Rightarrow> andthen (text_items items []) (\<lambda>text. Inr (some_text text))
      | _ \<Rightarrow> Inr None)"

definition parse_generic_responses_text :: "json \<Rightarrow> string option" where
  "parse_generic_responses_text parsed =
     (case json_get ''output_text'' parsed of Some (JStr text) \<Rightarrow> some_text text | _ \<Rightarrow> None)"

record cloud_response =
  cr_text :: "string option"
  cr_error_code :: string
  cr_error_message :: string

definition response_text :: "string \<Rightarrow> json \<Rightarrow> string option result" where
  "response_text provider_kind parsed =
     (if provider_kind = ''chocolatefactory_generative_language'' then Inr (parse_chocolatefactory_text parsed)
      else if provider_kind = ''generic_chat'' then parse_generic_chat_text parsed
      else if provider_kind = ''generic_responses'' then Inr (parse_generic_responses_text parsed)
      else if provider_kind = ''mechatropic_messages'' then parse_mechatropic_messages_text parsed
      else Inr None)"

definition malformed :: "string \<Rightarrow> cloud_response" where
  "malformed msg = \<lparr>cr_text = None, cr_error_code = ''malformed_response'', cr_error_message = msg\<rparr>"

definition parse_cloud_response ::
  "(exn \<Rightarrow> string) \<Rightarrow> json_lib \<Rightarrow> string \<Rightarrow> int \<Rightarrow> string \<Rightarrow> cloud_response" where
  "parse_cloud_response json_what lib provider_kind status response_body =
     (if status < 200 \<or> 300 \<le> status
      then \<lparr>cr_text = None,
        cr_error_code =
          (case classify_error_from_body lib provider_kind status response_body of
             Some code \<Rightarrow> code | None \<Rightarrow> status_error_code status),
        cr_error_message = ''cloud HTTP '' @ int_to_string status @ '': '' @ truncate_bytes response_body 300\<rparr>
      else
        case lib_parse lib response_body of
          None \<Rightarrow> malformed (what json_what JsonParseError)
        | Some parsed \<Rightarrow>
            (case response_text provider_kind parsed of
               Inl e \<Rightarrow> malformed (what json_what e)
             | Inr (Some text) \<Rightarrow> \<lparr>cr_text = Some text, cr_error_code = [], cr_error_message = []\<rparr>
             | Inr None \<Rightarrow> malformed ''cloud response missing expected text''))"

subsection \<open>A call\<close>

text \<open>The target and the header fields that carry the key.\<close>

definition cloud_auth :: "cloud_provider \<Rightarrow> string \<Rightarrow> string \<Rightarrow> string + string \<times> (string \<times> string) list" where
  "cloud_auth provider target api_key =
     (if cp_auth_type provider = ''api_key_query'' then
        Inr (target @ ''?'' @ (if cp_key_param provider = [] then ''key'' else cp_key_param provider) @ ''='' @
          url_encode_component api_key, [])
      else if cp_auth_type provider = ''bearer_header'' then
        Inr (target, [(if cp_header_name provider = [] then ''Authorization'' else cp_header_name provider,
          (if cp_bearer_prefix provider = [] then ''Bearer'' else cp_bearer_prefix provider) @ '' '' @ api_key)])
      else if cp_auth_type provider = ''header_key'' then
        Inr (target, [(if cp_header_name provider = [] then ''x-api-key'' else cp_header_name provider, api_key)])
      else Inl (''unsupported auth type: '' @ cp_auth_type provider))"

definition user_message :: "string \<Rightarrow> json" where
  "user_message prompt = JArr [json_object [(''role'', JStr ''user''), (''content'', JStr prompt)]]"

definition cloud_body :: "cloud_provider \<Rightarrow> cloud_model \<Rightarrow> string \<Rightarrow> json" where
  "cloud_body provider model prompt =
     (if cp_kind provider = ''chocolatefactory_generative_language'' then
        json_object [(''contents'', JArr [json_object [(''parts'', JArr [json_object [(''text'', JStr prompt)]])]])]
      else if cp_kind provider = ''generic_chat'' then
        json_object [(''model'', JStr (cm_id model)), (''messages'', user_message prompt)]
      else if cp_kind provider = ''generic_responses'' then
        json_object [(''model'', JStr (cm_id model)), (''input'', JStr prompt)]
      else json_object [(''model'', JStr (cm_id model)), (''max_tokens'', JInt 1000), (''messages'', user_message prompt)])"

definition cloud_headers :: "cloud_provider \<Rightarrow> (string \<times> string) list \<Rightarrow> (string \<times> string) list" where
  "cloud_headers provider headers =
     (if cp_kind provider = ''mechatropic_messages'' then headers @ [(''anthropic-version'', ''2023-06-01'')] else headers)"

definition run_cloud_model ::
  "net \<Rightarrow> (exn \<Rightarrow> string) \<Rightarrow> json_lib \<Rightarrow> cloud_provider \<Rightarrow> cloud_model \<Rightarrow> string \<Rightarrow> string \<Rightarrow> string + string" where
  "run_cloud_model net json_what lib provider model api_key prompt_with_context =
     (if \<not> is_supported_provider_kind (cp_kind provider) then Inl (''unsupported provider kind: '' @ cp_kind provider)
      else if cm_endpoint model = [] then Inl ''missing provider model endpoint''
      else
        case cloud_auth provider (cm_endpoint model) api_key of
          Inl e \<Rightarrow> Inl e
        | Inr (target, headers) \<Rightarrow>
            (case https_post_json net lib (cp_base_url provider) target (cloud_headers provider headers)
                    (cloud_body provider model prompt_with_context) of
               Inl transport_error \<Rightarrow>
                 Inl (''transport_error: '' @ (if transport_error = [] then ''cloud request failed'' else transport_error))
             | Inr (status, response_body) \<Rightarrow>
                 (let parsed = parse_cloud_response json_what lib (cp_kind provider) status response_body
                  in case cr_text parsed of
                       Some text \<Rightarrow> Inr text
                     | None \<Rightarrow>
                         Inl (if cr_error_code parsed = [] then cr_error_message parsed
                              else cr_error_code parsed @ '': '' @ cr_error_message parsed))))"

subsection \<open>Lemmas\<close>

lemma some_text_Some [simp]: "some_text t = Some s \<longleftrightarrow> t = s \<and> s \<noteq> []"
  by (auto simp: some_text_def)

lemma response_text_ne: "response_text kind parsed = Inr (Some t) \<Longrightarrow> t \<noteq> []"
  by (auto simp: response_text_def parse_chocolatefactory_text_def parse_generic_chat_text_def
      parse_generic_responses_text_def parse_mechatropic_messages_text_def andthen_eq_Inr
      split: if_split_asm option.split_asm json.split_asm list.split_asm)

lemma response_success:
  "cr_text (parse_cloud_response json_what lib kind status body) = Some t \<Longrightarrow> t \<noteq> [] \<and> 200 \<le> status \<and> status < 300"
  by (auto simp: parse_cloud_response_def malformed_def dest: response_text_ne
      split: if_splits option.split_asm sum.split_asm)

lemma classify_ne: "classify_error_from_body lib kind status body = Some code \<Longrightarrow> code \<noteq> []"
  by (auto simp: classify_error_from_body_def Let_def split: if_splits option.splits)

lemma response_error_ne:
  "cr_text (parse_cloud_response json_what lib kind status body) = None \<Longrightarrow>
   cr_error_code (parse_cloud_response json_what lib kind status body) \<noteq> []"
  by (auto simp: parse_cloud_response_def malformed_def status_error_code_def dest: classify_ne
      split: if_splits option.split sum.split)

text \<open>What a status says, whatever the body.\<close>

definition status_code_agrees :: "string \<Rightarrow> int \<Rightarrow> bool" where
  "status_code_agrees code status \<longleftrightarrow>
     code \<in> {''auth_failed'', ''provider_timeout'', ''provider_unavailable'', ''rate_limited'', ''quota_exceeded'', ''provider_error''} \<and>
     (code = ''auth_failed'' \<longleftrightarrow> status \<in> {401, 403}) \<and>
     (code = ''provider_timeout'' \<longleftrightarrow> status \<in> {408, 504}) \<and>
     (code = ''provider_unavailable'' \<longleftrightarrow> 500 \<le> status \<and> status \<noteq> 504) \<and>
     (code = ''rate_limited'' \<longrightarrow> status = 429)"

lemma classify_agrees:
  "\<exists>code. classify_error_from_body lib kind status body = Some code \<and> status_code_agrees code status"
  by (auto simp: classify_error_from_body_def status_code_agrees_def Let_def split: option.splits)

text \<open>The outcome of a call whose request is valid, as a function of the answer.\<close>

definition valid_request :: "cloud_provider \<Rightarrow> cloud_model \<Rightarrow> string \<Rightarrow> string \<Rightarrow> (string \<times> string) list \<Rightarrow> bool" where
  "valid_request p m key target headers \<longleftrightarrow>
     is_supported_provider_kind (cp_kind p) \<and> cm_endpoint m \<noteq> [] \<and> cloud_auth p (cm_endpoint m) key = Inr (target, headers)"

definition cloud_answer ::
  "net \<Rightarrow> json_lib \<Rightarrow> cloud_provider \<Rightarrow> cloud_model \<Rightarrow> string \<Rightarrow> string \<Rightarrow> (string \<times> string) list \<Rightarrow> string + int \<times> string" where
  "cloud_answer net lib p m prompt target headers =
     https_post_json net lib (cp_base_url p) target (cloud_headers p headers) (cloud_body p m prompt)"

lemma auth_error_ne: "cloud_auth p target key = Inl e \<Longrightarrow> e \<noteq> []"
  by (auto simp: cloud_auth_def split: if_splits)

lemma run_cloud_model_cases:
  "run_cloud_model net json_what lib p m key prompt = Inl e \<Longrightarrow> e \<noteq> []"
  "run_cloud_model net json_what lib p m key prompt = Inr t \<Longrightarrow>
     t \<noteq> [] \<and> (\<exists>target headers status body. valid_request p m key target headers \<and>
       cloud_answer net lib p m prompt target headers = Inr (status, body) \<and> 200 \<le> status \<and> status < 300 \<and>
       cr_text (parse_cloud_response json_what lib (cp_kind p) status body) = Some t)"
  by (auto simp: run_cloud_model_def valid_request_def cloud_answer_def Let_def dest!: auth_error_ne response_error_ne response_success
      split: if_splits sum.split_asm option.split_asm)

lemma run_cloud_model_refused:
  assumes "valid_request p m key target headers" and "cloud_answer net lib p m prompt target headers = Inr (status, body)"
    and "status < 200 \<or> 300 \<le> status"
  shows "\<exists>code. status_code_agrees code status \<and>
    run_cloud_model net json_what lib p m key prompt =
      Inl (code @ '': cloud HTTP '' @ int_to_string status @ '': '' @ truncate_bytes body 300)"
proof -
  obtain code where c: "classify_error_from_body lib (cp_kind p) status body = Some code" "status_code_agrees code status"
    using classify_agrees by blast
  then show ?thesis
    using assms classify_ne [OF c(1)]
    by (intro exI [of _ code]) (auto simp: run_cloud_model_def valid_request_def cloud_answer_def parse_cloud_response_def)
qed

definition sample_chat :: cloud_provider where
  "sample_chat = (empty_provider ''beta'')\<lparr>cp_base_url := ''https://api.example'', cp_kind := ''generic_responses'',
     cp_auth_type := ''bearer_header''\<rparr>"

definition sample_cloud_lib :: json_lib where
  "sample_cloud_lib = \<lparr>lib_parse = (\<lambda>s. if s = [] then None else Some (json_object [(''output_text'', JStr s)])),
     lib_dump = (\<lambda>_. ''{}''), lib_dump2 = (\<lambda>_. ''{}''), lib_trunc = (\<lambda>_. 0)\<rparr>"

definition sample_net :: "int \<Rightarrow> net" where
  "sample_net status host port target headers body = Inr (status, host @ target)"

text \<open>
  The outcome of one call of a cloud model. It returns a text only when the kind, the endpoint and the
  authentication of the provider are usable and the answer has a status in the 200s from which a non-empty
  text was read; every failure has a non-empty error text; and an answer outside the 200s is reported with
  the code of its status, with at most 300 bytes of its body.
\<close>

theorem cloud_call_outcomes:
  fixes net :: net and json_what lib p m key prompt
  defines "outcome \<equiv> run_cloud_model net json_what lib p m key prompt"
  shows "(\<forall>e. outcome = Inl e \<longrightarrow> e \<noteq> []) \<and>
    (\<forall>t. outcome = Inr t \<longrightarrow> t \<noteq> [] \<and>
       (\<exists>target headers status body. valid_request p m key target headers \<and>
          cloud_answer net lib p m prompt target headers = Inr (status, body) \<and> 200 \<le> status \<and> status < 300 \<and>
          cr_text (parse_cloud_response json_what lib (cp_kind p) status body) = Some t)) \<and>
    (\<forall>target headers status body. valid_request p m key target headers \<and>
       cloud_answer net lib p m prompt target headers = Inr (status, body) \<and> (status < 200 \<or> 300 \<le> status) \<longrightarrow>
       (\<exists>code. status_code_agrees code status \<and>
          outcome = Inl (code @ '': cloud HTTP '' @ int_to_string status @ '': '' @ truncate_bytes body 300)))"
  unfolding outcome_def
  using run_cloud_model_cases [of net json_what lib p m key prompt]
    run_cloud_model_refused [of p m key _ _ net lib prompt _ _ json_what]
  by blast

lemma sample_request:
  "valid_request sample_chat (sample_model ''b1'' ''/v1'' []) ''k'' ''/v1'' [(''Authorization'', ''Bearer k'')]"
  "cloud_answer (sample_net 403) sample_cloud_lib sample_chat (sample_model ''b1'' ''/v1'' []) ''hi'' ''/v1''
     [(''Authorization'', ''Bearer k'')] = Inr (403, ''api.example/v1'')"
  "run_cloud_model (sample_net 200) (\<lambda>_. []) sample_cloud_lib sample_chat (sample_model ''b1'' ''/v1'' []) ''k'' ''hi'' =
     Inr ''api.example/v1''"
  by code_simp+

theorem cloud_call_outcomes_witness:
  "(\<exists>code. status_code_agrees code 403 \<and>
     run_cloud_model (sample_net 403) (\<lambda>_. []) sample_cloud_lib sample_chat (sample_model ''b1'' ''/v1'' []) ''k'' ''hi'' =
       Inl (code @ '': cloud HTTP '' @ int_to_string 403 @ '': '' @ truncate_bytes ''api.example/v1'' 300)) \<and>
   ''api.example/v1'' \<noteq> ([] :: string)"
proof (rule conjI)
  show "\<exists>code. status_code_agrees code 403 \<and>
      run_cloud_model (sample_net 403) (\<lambda>_. []) sample_cloud_lib sample_chat (sample_model ''b1'' ''/v1'' []) ''k'' ''hi'' =
        Inl (code @ '': cloud HTTP '' @ int_to_string 403 @ '': '' @ truncate_bytes ''api.example/v1'' 300)"
    using cloud_call_outcomes [THEN conjunct2, THEN conjunct2, rule_format, of sample_chat "sample_model ''b1'' ''/v1'' []" "''k''"
        "''/v1''" "[(''Authorization'', ''Bearer k'')]" "sample_net 403" sample_cloud_lib "''hi''" 403 "''api.example/v1''"]
      sample_request by simp
  show "''api.example/v1'' \<noteq> ([] :: string)"
    using cloud_call_outcomes [THEN conjunct2, THEN conjunct1, rule_format, OF sample_request(3)] by blast
qed

end
