(* ===== verification/RunStore.thy ===== *)
theory RunStore
  imports Journal "HOL-Library.Multiset"
begin

text \<open>
  \<open>src/src/api/support/RunEventStore.{h,cpp}\<close>: the process-wide table of AI run journals,
  at most 128 of them. \<open>g_run_events\<close> is an association list with distinct keys; the order
  in which the hash table is iterated is the parameter \<open>ord\<close>, of which only
  \<open>iterates ord\<close> is assumed: it visits every entry once. The clock and the UUID of a fresh
  journal are arguments. Under the global mutex each function is one step.

  The lemmas show the bound on retained runs, that eviction takes a least recently updated run
  and touches no other, and what a reader of a run gets after an append.
\<close>

record stored_run =
  r_journal :: journal
  r_updated_at :: int

type_synonym run_table = "(string \<times> stored_run) list"

definition kMaxRetainedRuns :: nat where
  "kMaxRetainedRuns = 128"

record run_event =
  re_name :: string
  re_data :: json
  re_id :: string

record run_event_stream =
  rs_events :: "run_event list"
  rs_finished :: bool
  rs_updated_at :: int

text \<open>The scan for the oldest entry: the first one, replaced by every strictly older one.\<close>

fun oldest_entry :: "string \<times> stored_run \<Rightarrow> run_table \<Rightarrow> string \<times> stored_run" where
  "oldest_entry best [] = best"
| "oldest_entry best (e # es) =
     oldest_entry (if r_updated_at (snd e) < r_updated_at (snd best) then e else best) es"

definition evict_oldest :: "(run_table \<Rightarrow> run_table) \<Rightarrow> run_table \<Rightarrow> run_table" where
  "evict_oldest ord runs =
     (case ord runs of [] \<Rightarrow> runs | e # es \<Rightarrow> AList.delete (fst (oldest_entry e (e # es))) runs)"

definition fresh_run_journal :: "string \<Rightarrow> journal" where
  "fresh_run_journal epoch =
     \<lparr>j_epoch = epoch, j_sequence = 0, j_oldest = 1, j_events = [], j_sizes = [], j_bytes = 0,
      j_capacity = 512, j_byte_limit = 1024 * 1024, j_finished = False\<rparr>"

definition make_room :: "(run_table \<Rightarrow> run_table) \<Rightarrow> string \<Rightarrow> run_table \<Rightarrow> run_table" where
  "make_room ord run_id runs =
     (if map_of runs run_id = None \<and> kMaxRetainedRuns \<le> length runs
      then evict_oldest ord runs else runs)"

definition run_journal :: "string \<Rightarrow> string \<Rightarrow> string \<Rightarrow> run_table \<Rightarrow> journal" where
  "run_journal epoch run_id name runs =
     (case map_of runs run_id of
        None \<Rightarrow> fresh_run_journal epoch
      | Some r \<Rightarrow> if name = ''run_started'' then fresh_run_journal epoch else r_journal r)"

definition append_run_event ::
  "dumper \<Rightarrow> (run_table \<Rightarrow> run_table) \<Rightarrow> int \<Rightarrow> string \<Rightarrow> string \<Rightarrow> string \<Rightarrow> json \<Rightarrow> bool \<Rightarrow>
     run_table \<Rightarrow> stream_event result \<times> run_table" where
  "append_run_event dump ord now epoch run_id name data fin runs =
     (let runs1 = make_room ord run_id runs;
          jr = run_journal epoch run_id name runs1;
          runs2 = AList.update run_id \<lparr>r_journal = jr, r_updated_at = now\<rparr> runs1
      in case json_index_put ''run_id'' (JStr run_id) data of
           Inl e \<Rightarrow> (Inl e, runs2)
         | Inr data' \<Rightarrow>
             let (ev, jr') = journal_append dump name data' fin jr
             in (Inr ev, AList.update run_id \<lparr>r_journal = jr', r_updated_at = now\<rparr> runs2))"

definition read_run_events :: "run_table \<Rightarrow> string \<Rightarrow> string \<Rightarrow> event_batch option" where
  "read_run_events runs run_id after =
     map_option (\<lambda>r. journal_read (r_journal r) after) (map_of runs run_id)"

definition get_run_event_stream :: "run_table \<Rightarrow> string \<Rightarrow> run_event_stream option" where
  "get_run_event_stream runs run_id =
     (case map_of runs run_id of
        None \<Rightarrow> None
      | Some r \<Rightarrow>
          let batch = journal_read (r_journal r) []
          in Some \<lparr>rs_events = map (\<lambda>e. \<lparr>re_name = ev_name e, re_data = ev_data e, re_id = ev_id e\<rparr>)
                                  (b_events batch),
                   rs_finished = b_finished batch, rs_updated_at = r_updated_at r\<rparr>)"

subsection \<open>Invariant and lemmas\<close>

definition iterates :: "(run_table \<Rightarrow> run_table) \<Rightarrow> bool" where
  "iterates ord \<longleftrightarrow> (\<forall>runs. mset (ord runs) = mset runs)"

definition store_inv :: "dumper \<Rightarrow> run_table \<Rightarrow> bool" where
  "store_inv dump runs \<longleftrightarrow>
     distinct (map fst runs) \<and> length runs \<le> kMaxRetainedRuns \<and>
     (\<forall>r \<in> snd ` set runs. journal_inv dump (r_journal r))"

lemma oldest_entry_in: "oldest_entry b es \<in> insert b (set es)"
  by (induction es arbitrary: b) auto

lemma oldest_entry_least:
  "\<forall>e \<in> insert b (set es). r_updated_at (snd (oldest_entry b es)) \<le> r_updated_at (snd e)"
proof (induction es arbitrary: b)
  case Nil
  then show ?case by simp
next
  case (Cons e es)
  show ?case using Cons.IH [of "if r_updated_at (snd e) < r_updated_at (snd b) then e else b"]
    by (auto split: if_splits)
qed

lemma evict_oldest_spec:
  assumes "iterates ord" and "distinct (map fst runs)" and "runs \<noteq> []"
  obtains v r where "map_of runs v = Some r" "evict_oldest ord runs = AList.delete v runs"
    "\<forall>k s. map_of runs k = Some s \<longrightarrow> r_updated_at r \<le> r_updated_at s"
proof -
  have ms: "set (ord runs) = set runs" "ord runs \<noteq> []"
    using assms unfolding iterates_def by (metis set_mset_mset, metis mset_zero_iff)
  then obtain e es where o: "ord runs = e # es" by (cases "ord runs") auto
  obtain v r where b: "oldest_entry e (e # es) = (v, r)" by (cases "oldest_entry e (e # es)") auto
  have "(v, r) \<in> set runs" using oldest_entry_in [of e "e # es"] b ms(1) o by auto
  then have "map_of runs v = Some r" using assms(2) by simp
  moreover have "\<forall>k s. map_of runs k = Some s \<longrightarrow> r_updated_at r \<le> r_updated_at s"
  proof (intro allI impI)
    fix k s
    assume "map_of runs k = Some s"
    then have "(k, s) \<in> insert e (set (e # es))" using ms(1) o by (auto dest!: map_of_SomeD)
    then show "r_updated_at r \<le> r_updated_at s" using oldest_entry_least [of e "e # es"] b by fastforce
  qed
  moreover have "evict_oldest ord runs = AList.delete v runs" using o b by (simp add: evict_oldest_def)
  ultimately show thesis by (intro that)
qed

lemma fresh_run_journal_inv:
  "uuid_shape epoch \<Longrightarrow> journal_inv dump (fresh_run_journal epoch)"
  by (simp add: fresh_run_journal_def journal_inv_def journal_core_def fits_def)

lemma fresh_run_journal_room: "journal_room (fresh_run_journal epoch) 1"
  by (simp add: fresh_run_journal_def journal_room_def)

lemma values_make_room: "snd ` set (make_room ord k runs) \<subseteq> snd ` set runs"
  using values_AList_delete [of _ runs]
  by (auto simp: make_room_def evict_oldest_def split: list.splits)

lemma make_room_spec:
  assumes "iterates ord" and "store_inv dump runs"
  shows "store_inv dump (make_room ord k runs) \<and>
    (make_room ord k runs = runs \<and> (map_of runs k \<noteq> None \<or> length runs < kMaxRetainedRuns) \<or>
     (\<exists>v r. map_of runs k = None \<and> length runs = kMaxRetainedRuns \<and> map_of runs v = Some r \<and>
        make_room ord k runs = AList.delete v runs \<and>
        Suc (length (AList.delete v runs)) = kMaxRetainedRuns \<and>
        (\<forall>k s. map_of runs k = Some s \<longrightarrow> r_updated_at r \<le> r_updated_at s)))"
proof (cases "map_of runs k = None \<and> kMaxRetainedRuns \<le> length runs")
  case False
  then show ?thesis using assms(2) by (auto simp: make_room_def)
next
  case True
  have d: "distinct (map fst runs)" and l: "length runs = kMaxRetainedRuns" and "runs \<noteq> []"
    using True assms(2) by (auto simp: store_inv_def kMaxRetainedRuns_def)
  then obtain v r where v: "map_of runs v = Some r" "evict_oldest ord runs = AList.delete v runs"
    "\<forall>k s. map_of runs k = Some s \<longrightarrow> r_updated_at r \<le> r_updated_at s"
    using evict_oldest_spec [OF assms(1)] by metis
  have len: "Suc (length (AList.delete v runs)) = kMaxRetainedRuns"
    using length_AList_delete [OF d] v(1) l by (metis domI dom_map_of_conv_image_fst)
  moreover have "\<forall>s \<in> snd ` set (AList.delete v runs). journal_inv dump (r_journal s)"
    using values_AList_delete [of v runs] assms(2) unfolding store_inv_def by blast
  ultimately have "store_inv dump (AList.delete v runs)"
    using distinct_delete [OF d] by (simp add: store_inv_def)
  then show ?thesis using True v l len by (auto simp: make_room_def)
qed

lemma run_journal_inv:
  assumes "store_inv dump runs" and "uuid_shape epoch"
    and "\<forall>r \<in> snd ` set runs. journal_room (r_journal r) 1"
  shows "journal_inv dump (run_journal epoch k name runs) \<and> journal_room (run_journal epoch k name runs) 1"
proof (cases "map_of runs k")
  case None
  then show ?thesis using assms(2) fresh_run_journal_inv fresh_run_journal_room by (simp add: run_journal_def)
next
  case (Some r)
  then have "r \<in> snd ` set runs" by (force dest: map_of_SomeD)
  then show ?thesis
    using Some assms fresh_run_journal_inv fresh_run_journal_room by (auto simp: run_journal_def store_inv_def)
qed

lemma store_inv_update:
  assumes "store_inv dump runs" and "journal_inv dump (r_journal r)"
    and "map_of runs k \<noteq> None \<or> length runs < kMaxRetainedRuns"
  shows "store_inv dump (AList.update k r runs)"
proof -
  have "length (AList.update k r runs) \<le> kMaxRetainedRuns"
    using assms(1,3) by (auto simp: length_AList_update store_inv_def)
  moreover have "distinct (map fst (AList.update k r runs))"
    using assms(1) by (intro distinct_update) (simp add: store_inv_def)
  moreover have "\<forall>s \<in> snd ` set (AList.update k r runs). journal_inv dump (r_journal s)"
    using values_AList_update [of k r runs] assms(1,2) unfolding store_inv_def by blast
  ultimately show ?thesis by (simp add: store_inv_def)
qed

subsection \<open>Properties\<close>

text \<open>
  C4 Retention of runs. \<open>append_run_event\<close> keeps at most 128 runs, keeps every journal
  well-formed, leaves the run it was called for in the table with the given time stamp, and
  changes no other run except that, when a new run arrives at a full table, exactly one run is
  dropped and no other run was updated earlier than it. This holds also when the payload is not
  an object and the call throws.
\<close>

theorem run_store_retention:
  assumes ord: "iterates ord" and inv: "store_inv dump runs" and ep: "uuid_shape epoch"
    and room: "\<forall>r \<in> snd ` set runs. journal_room (r_journal r) 1"
    and app: "append_run_event dump ord now epoch k name data fin runs = (res, runs')"
  shows "store_inv dump runs' \<and> length runs' \<le> 128 \<and>
    map_option r_updated_at (map_of runs' k) = Some now \<and>
    (\<exists>dropped. (\<forall>i. i \<noteq> k \<longrightarrow> map_of runs' i = (if i \<in> dropped then None else map_of runs i)) \<and>
       (dropped = {} \<or>
        (\<exists>v r. dropped = {v} \<and> map_of runs k = None \<and> length runs = 128 \<and> map_of runs v = Some r \<and>
           (\<forall>i s. map_of runs i = Some s \<longrightarrow> r_updated_at r \<le> r_updated_at s))))"
proof -
  let ?runs1 = "make_room ord k runs" and ?jr = "run_journal epoch k name (make_room ord k runs)"
  note mr = make_room_spec [OF ord inv, of k]
  have room1: "\<forall>r \<in> snd ` set ?runs1. journal_room (r_journal r) 1"
    using room values_make_room [of ord k runs] by blast
  have free: "map_of ?runs1 k \<noteq> None \<or> length ?runs1 < kMaxRetainedRuns" using mr by auto
  note jr = run_journal_inv [OF conjunct1 [OF mr] ep room1, of k name]
  obtain j' where j': "journal_inv dump j'"
    "runs' = AList.update k \<lparr>r_journal = j', r_updated_at = now\<rparr> ?runs1"
    using app jr append_inv [of dump ?jr 0 name _ fin]
    by (auto simp: append_run_event_def Let_def split: sum.splits prod.splits) (metis snd_conv)
  have "store_inv dump runs'" using store_inv_update [OF conjunct1 [OF mr] _ free] j' by simp
  moreover have "map_of runs' = (map_of ?runs1)(k \<mapsto> \<lparr>r_journal = j', r_updated_at = now\<rparr>)"
    using j'(2) by (simp add: update_conv')
  moreover have "\<exists>dropped. (\<forall>i. i \<noteq> k \<longrightarrow> map_of ?runs1 i = (if i \<in> dropped then None else map_of runs i)) \<and>
       (dropped = {} \<or>
        (\<exists>v r. dropped = {v} \<and> map_of runs k = None \<and> length runs = 128 \<and> map_of runs v = Some r \<and>
           (\<forall>i s. map_of runs i = Some s \<longrightarrow> r_updated_at r \<le> r_updated_at s)))"
    using mr
  proof (elim conjE disjE exE)
    fix v r
    assume "map_of runs k = None" "length runs = kMaxRetainedRuns" "map_of runs v = Some r"
      "?runs1 = AList.delete v runs" "\<forall>i s. map_of runs i = Some s \<longrightarrow> r_updated_at r \<le> r_updated_at s"
    then show ?thesis by (intro exI [of _ "{v}"]) (auto simp: delete_conv' kMaxRetainedRuns_def)
  qed (auto intro: exI [of _ "{}"])
  ultimately show ?thesis by (auto simp: store_inv_def kMaxRetainedRuns_def)
qed

theorem run_store_retention_witness:
  "iterates id \<and> store_inv sample_dump [] \<and> uuid_shape sample_epoch \<and>
   (\<exists>res runs'. append_run_event sample_dump id 7 sample_epoch ''r1'' ''run_started'' JNull False []
       = (res, runs') \<and> store_inv sample_dump runs' \<and>
       map_option r_updated_at (map_of runs' ''r1'') = Some 7)"
proof -
  have 1: "iterates id" by (simp add: iterates_def)
  have 2: "store_inv sample_dump []" by (simp add: store_inv_def)
  have 3: "uuid_shape sample_epoch" by code_simp
  obtain res runs' where 4: "append_run_event sample_dump id 7 sample_epoch ''r1'' ''run_started''
      JNull False [] = (res, runs')" by fastforce
  from run_store_retention [OF 1 2 3 _ 4] show ?thesis using 1 2 3 4 by auto
qed

text \<open>
  What a reader of a run sees. After a successful append to a run, the event carries the
  run's id in its payload; a reader that held the run's previous cursor (the cursor of the fresh
  journal for a new or restarted run) gets exactly this event, unless its frame alone exceeds
  the journal's 1 MiB, and then it is told to resynchronise.
\<close>

theorem run_store_read:
  assumes ord: "iterates ord" and inv: "store_inv dump runs" and ep: "uuid_shape epoch"
    and room: "\<forall>r \<in> snd ` set runs. journal_room (r_journal r) 1"
    and app: "append_run_event dump ord now epoch k name data fin runs = (Inr ev, runs')"
  shows "json_get ''run_id'' (ev_data ev) = Some (JStr k) \<and> ev_name ev = name \<and>
    (\<exists>batch. read_run_events runs' k
        (journal_cursor (run_journal epoch k name (make_room ord k runs))) = Some batch \<and>
      (b_resync_required batch \<and> b_events batch = [] \<or>
       \<not> b_resync_required batch \<and> b_events batch = [ev]))"
proof -
  let ?runs1 = "make_room ord k runs" and ?jr = "run_journal epoch k name (make_room ord k runs)"
  note mr = make_room_spec [OF ord inv, of k]
  have room1: "\<forall>r \<in> snd ` set ?runs1. journal_room (r_journal r) 1"
    using room values_make_room [of ord k runs] by blast
  note jr = run_journal_inv [OF conjunct1 [OF mr] ep room1, of k name]
  obtain data' where d: "json_index_put ''run_id'' (JStr k) data = Inr data'"
    and ev: "ev = fst (journal_append dump name data' fin ?jr)"
    and r': "runs' = AList.update k \<lparr>r_journal = snd (journal_append dump name data' fin ?jr),
                                      r_updated_at = now\<rparr> ?runs1"
    using app by (auto simp: append_run_event_def Let_def split: sum.splits prod.splits)
  let ?j = "snd (journal_append dump name data' fin ?jr)"
  have r1: "journal_room ?jr (Suc 0)" using jr by simp
  have core: "journal_inv dump ?j" using append_inv [OF conjunct1 [OF jr] r1] .
  have "read_at ?j (j_sequence ?jr) = (if length (j_events ?j) < 1 then None else Some [ev])"
    using jlog.read_since [OF conjunct1 [OF jr], of "[(name, data', fin)]"] jr ev by simp
  moreover have "journal_cursor ?jr = at_cursor ?j (j_sequence ?jr)"
    using append_fields [OF conjunct1 [OF jr] r1] by (simp add: journal_cursor_def at_cursor_def)
  ultimately have "(b_resync_required (journal_read ?j (journal_cursor ?jr)) \<and>
       b_events (journal_read ?j (journal_cursor ?jr)) = [] \<or>
       \<not> b_resync_required (journal_read ?j (journal_cursor ?jr)) \<and>
       b_events (journal_read ?j (journal_cursor ?jr)) = [ev])"
    using journal_read_parsed [of dump ?j] core
    by (auto simp: read_at_def at_cursor_def journal_inv_def split: if_splits option.splits)
  moreover have "json_get ''run_id'' data' = Some (JStr k)"
    using d by (cases data) (auto simp: map_of_amap_put_same)
  ultimately show ?thesis
    using ev r' r1 jr by (simp add: read_run_events_def update_conv' journal_append_eq)
qed

theorem run_store_read_witness:
  "iterates id \<and> store_inv sample_dump [] \<and> uuid_shape sample_epoch \<and>
   (\<exists>ev runs'. append_run_event sample_dump id 7 sample_epoch ''r1'' ''run_started'' JNull False []
       = (Inr ev, runs') \<and> json_get ''run_id'' (ev_data ev) = Some (JStr ''r1''))"
proof -
  have 1: "iterates id" by (simp add: iterates_def)
  have 2: "store_inv sample_dump []" by (simp add: store_inv_def)
  have 3: "uuid_shape sample_epoch" by code_simp
  obtain ev runs' where 4: "append_run_event sample_dump id 7 sample_epoch ''r1'' ''run_started''
      JNull False [] = (Inr ev, runs')"
    by (simp add: append_run_event_def Let_def case_prod_unfold)
  from run_store_read [OF 1 2 3 _ 4] show ?thesis using 1 2 3 4 by auto
qed

end
