(* ===== verification/RunWorld.thy ===== *)
theory RunWorld
  imports CloudClient Runners RunStore Quota
begin

text \<open>
  What the handler of \<open>POST /ai/runs\<close> (\<open>src/src/api/routes/ai/runs/AiRunPostRoute.cpp\<close>) works on,
  and its helpers for thread titles.

  The handler calls the clock, the generator of identifiers, SQLite, the file system, the network and the
  repositories of holder-core many times, and each may answer differently every time. So every such call
  takes the next number of the counter \<open>aw_tick\<close>, and the environment \<open>run_env\<close> gives the answer
  for that number: all behaviours of the outside are environments. An action is a function from the world to a
  result, which may be an exception, and a new world. Writes to repositories of holder-core are recorded in
  \<open>aw_effects\<close>, events handed to the stream in \<open>aw_sent\<close>; \<open>aw_calls\<close> records for each call of a
  cloud model what was known when it was made.
\<close>

subsection \<open>Data\<close>

record ai_thread =
  th_thread_id :: string
  th_project_id :: string
  th_card_id :: "string option"
  th_title :: string
  th_created_at :: int
  th_updated_at :: int

record ai_message =
  am_message_id :: string
  am_thread_id :: string
  am_role :: string
  am_source :: string
  am_provider :: "string option"
  am_model :: "string option"
  am_content :: string
  am_created_at :: int

record ai_run =
  ar_run_id :: string
  ar_project_id :: "string option"
  ar_thread_id :: "string option"
  ar_mode :: string
  ar_prompt :: string
  ar_context_json :: "string option"
  ar_router_model :: "string option"
  ar_status :: string
  ar_created_at :: int
  ar_updated_at :: int

record status_update =
  su_run_id :: string
  su_status :: string
  su_error :: "string option"
  su_message_id :: "string option"
  su_chosen_model :: "string option"
  su_ranked_json :: "string option"
  su_policy_trace :: "string option"
  su_updated_at :: int

record runner_status =
  ru_available :: bool
  ru_models :: "local_model list"

datatype effect =
    CreateRun ai_run
  | UpdateStatus status_update
  | AppendMessage ai_message
  | CreateThread ai_thread
  | PersistThread ai_thread
  | UpdateTitle string string int

datatype channel = NoChannel | ChReserved | ChActive | ChReleased | ChFinished

record cloud_call =
  ca_provider :: string
  ca_model :: cloud_model
  ca_now :: int
  ca_projected :: int
  ca_quota :: quota_world

subsection \<open>The outside\<close>

record run_env =
  xe_lib :: json_lib
  xe_json_what :: "exn \<Rightarrow> string"
  xe_order :: "run_table \<Rightarrow> run_table"
  xe_epoch :: "nat \<Rightarrow> string"
  xe_now :: "nat \<Rightarrow> int"
  xe_uuid :: "nat \<Rightarrow> string"
  xe_rand :: "nat \<Rightarrow> nat"
  xe_net :: "nat \<Rightarrow> net"
  xe_db :: "nat \<Rightarrow> db_fault"
  xe_io :: "nat \<Rightarrow> io_fault"
  xe_readable :: "nat \<Rightarrow> bool"
  xe_state_env :: state_env
  xe_fails :: "nat \<Rightarrow> exn option"
  xe_reserve :: "nat \<Rightarrow> bool"
  xe_thread :: "nat \<Rightarrow> string \<Rightarrow> ai_thread option result"
  xe_config :: "nat \<Rightarrow> local_config option result"
  xe_status :: "nat \<Rightarrow> client \<Rightarrow> runner_status"
  xe_generate :: "nat \<Rightarrow> client \<Rightarrow> string \<Rightarrow> string \<Rightarrow> string \<Rightarrow> bool \<times> string list \<times> string"
  xe_credentials :: "nat \<Rightarrow> string list result"
  xe_settings :: "nat \<Rightarrow> (string \<times> bool) list result"
  xe_secret :: "nat \<Rightarrow> string \<Rightarrow> string option result"

record ai_world =
  aw_quota :: quota_world
  aw_state :: state_world
  aw_runs :: run_table
  aw_channel :: channel
  aw_sent :: "stream_event list"
  aw_effects :: "effect list"
  aw_calls :: "cloud_call list"
  aw_tick :: nat

type_synonym 'a act = "ai_world \<Rightarrow> 'a result \<times> ai_world"

definition ret :: "'a \<Rightarrow> 'a act" where
  "ret x w = (Inr x, w)"

definition throw :: "exn \<Rightarrow> 'a act" where
  "throw e w = (Inl e, w)"

definition bindA :: "'a act \<Rightarrow> ('a \<Rightarrow> 'b act) \<Rightarrow> 'b act" where
  "bindA m f w = (case m w of (Inl e, w') \<Rightarrow> (Inl e, w') | (Inr x, w') \<Rightarrow> f x w')"

definition consult :: "(nat \<Rightarrow> 'a) \<Rightarrow> 'a act" where
  "consult f w = (Inr (f (aw_tick w)), w\<lparr>aw_tick := aw_tick w + 1\<rparr>)"

definition lift_result :: "'a result \<Rightarrow> 'a act" where
  "lift_result r w = (r, w)"

text \<open>A write to a repository of holder-core.\<close>

definition command :: "run_env \<Rightarrow> effect \<Rightarrow> unit act" where
  "command env e = bindA (consult (xe_fails env)) (\<lambda>f. case f of
     Some x \<Rightarrow> throw x
   | None \<Rightarrow> (\<lambda>w. (Inr (), w\<lparr>aw_effects := aw_effects w @ [e]\<rparr>)))"

definition on_quota :: "(quota_world \<Rightarrow> 'a result \<times> quota_world) \<Rightarrow> 'a act" where
  "on_quota f w = (let (r, q) = f (aw_quota w) in (r, w\<lparr>aw_quota := q\<rparr>))"

definition read_quota :: "(quota_world \<Rightarrow> 'a result) \<Rightarrow> 'a act" where
  "read_quota f w = (f (aw_quota w), w)"

definition on_state :: "(state_world \<Rightarrow> 'a result \<times> state_world) \<Rightarrow> 'a act" where
  "on_state f w = (let (r, s) = f (aw_state w) in (r, w\<lparr>aw_state := s\<rparr>))"

definition set_channel :: "channel \<Rightarrow> unit act" where
  "set_channel c w = (Inr (), w\<lparr>aw_channel := c\<rparr>)"

subsection \<open>Events\<close>

definition publish :: "run_env \<Rightarrow> string \<Rightarrow> string \<Rightarrow> json \<Rightarrow> bool \<Rightarrow> unit act" where
  "publish env run_id name data fin = bindA (consult (\<lambda>t. (xe_now env t, xe_epoch env t))) (\<lambda>(now, epoch) w.
     (case append_run_event (lib_dump (xe_lib env)) (xe_order env) now epoch run_id name data fin (aw_runs w) of
        (Inl e, runs) \<Rightarrow> (Inl e, w\<lparr>aw_runs := runs\<rparr>)
      | (Inr ev, runs) \<Rightarrow> (Inr (), w\<lparr>aw_runs := runs, aw_sent := aw_sent w @ [ev]\<rparr>)))"

definition send_event :: "run_env \<Rightarrow> string \<Rightarrow> string \<Rightarrow> (string \<times> json) list \<Rightarrow> unit act" where
  "send_event env run_id name data =
     publish env run_id name (json_object data) (name = ''done'' \<or> name = ''failed'')"

definition status_of :: "string \<Rightarrow> string \<Rightarrow> string option \<Rightarrow> int \<Rightarrow> status_update" where
  "status_of run_id status error now =
     \<lparr>su_run_id = run_id, su_status = status, su_error = error, su_message_id = None, su_chosen_model = None,
      su_ranked_json = None, su_policy_trace = None, su_updated_at = now\<rparr>"

text \<open>
  \<open>RunStreamCompletion\<close>: when an exception leaves the scope the run is marked as failed and a last event
  says so, and whatever happens the stream is finished. The guard ignores its own exceptions.
\<close>

definition kRunFailed :: string where
  "kRunFailed = ''Run execution failed; consult daemon logs.''"

definition report_failure :: "run_env \<Rightarrow> string \<Rightarrow> unit act" where
  "report_failure env run_id =
     bindA (consult (xe_now env)) (\<lambda>now.
     bindA (command env (UpdateStatus (status_of run_id ''failed'' (Some kRunFailed) now))) (\<lambda>_.
       publish env run_id ''failed'' (json_object [(''error'', JStr kRunFailed)]) True))"

definition with_completion :: "run_env \<Rightarrow> string \<Rightarrow> 'a act \<Rightarrow> 'a act" where
  "with_completion env run_id m w =
     (case m w of
        (Inr x, w') \<Rightarrow> (Inr x, w'\<lparr>aw_channel := ChFinished\<rparr>)
      | (Inl e, w') \<Rightarrow> (Inl e, (snd (report_failure env run_id w'))\<lparr>aw_channel := ChFinished\<rparr>))"

text \<open>
  From the admission of the stream to its activation, shared by both paths; \<open>False\<close> when there are too
  many streams. A run that cannot be created gives the socket back.
\<close>

definition create_run :: "run_env \<Rightarrow> ai_run \<Rightarrow> unit act" where
  "create_run env run w =
     (case command env (CreateRun run) w of
        (Inl e, w') \<Rightarrow> (Inl e, w'\<lparr>aw_channel := ChReleased\<rparr>)
      | (Inr _, w') \<Rightarrow> (Inr (), w'))"

definition start_run :: "run_env \<Rightarrow> ai_run \<Rightarrow> bool act" where
  "start_run env run =
     bindA (consult (xe_reserve env)) (\<lambda>admitted.
       if \<not> admitted then ret False
       else
         bindA (set_channel ChReserved) (\<lambda>_.
         bindA (create_run env run) (\<lambda>_.
         bindA (set_channel ChActive) (\<lambda>_.
         bindA (publish env (ar_run_id run) ''run_started''
                 (json_object [(''run_id'', JStr (ar_run_id run)), (''status'', JStr ''started''), (''created_at'', JInt (ar_created_at run))])
                 False) (\<lambda>_.
           ret True)))))"

subsection \<open>Thread titles\<close>

definition trim_copy :: "string \<Rightarrow> string" where
  "trim_copy input = trim_ascii input"

fun collapse_from :: "string \<Rightarrow> string \<Rightarrow> bool \<Rightarrow> string" where
  "collapse_from [] out in_space = out"
| "collapse_from (c # cs) out in_space =
     (if is_space c then collapse_from cs (if out \<noteq> [] \<and> \<not> in_space then out @ '' '' else out) True
      else collapse_from cs (out @ [c]) False)"

definition collapse_whitespace :: "string \<Rightarrow> string" where
  "collapse_whitespace input = trim_copy (collapse_from input [] False)"

definition run_strip_wrapping_quotes :: "string \<Rightarrow> string" where
  "run_strip_wrapping_quotes val =
     (let v = trim_copy val
      in if 2 \<le> length v \<and> (hd v = CHR 0x22 \<and> last v = CHR 0x22 \<or> hd v = CHR 0x27 \<and> last v = CHR 0x27)
         then trim_copy (substr v 1 (length v - 2))
         else v)"

definition should_refresh_thread_title :: "string \<Rightarrow> string \<Rightarrow> bool" where
  "should_refresh_thread_title current_title prompt =
     (let normalized_title = collapse_whitespace current_title
      in if normalized_title = [] then True
         else if starts_with normalized_title ''Thread '' \<or> starts_with normalized_title ''AI Thread '' then True
         else let prompt_seed = collapse_whitespace (truncate_bytes prompt 80)
              in prompt_seed \<noteq> [] \<and> normalized_title = prompt_seed)"

definition is_installed_model :: "runner_status \<Rightarrow> string \<Rightarrow> bool" where
  "is_installed_model status name \<longleftrightarrow> name \<in> set (map lm_name (ru_models status))"

definition smallest_fallback :: "run_env \<Rightarrow> client option \<Rightarrow> (string \<times> client) option act" where
  "smallest_fallback env fallback_runner =
     (case fallback_runner of
        None \<Rightarrow> ret None
      | Some c \<Rightarrow>
          bindA (consult (\<lambda>t. xe_status env t c)) (\<lambda>status.
            if \<not> ru_available status \<or> ru_models status = [] then ret None
            else let name = pick_smallest_model (ru_models status)
                 in if name = [] then ret None else ret (Some (name, c))))"

definition load_local_model_config :: "run_env \<Rightarrow> local_config option act" where
  "load_local_model_config env =
     bindA (consult (xe_config env)) (\<lambda>r. ret (case r of Inl _ \<Rightarrow> None | Inr row \<Rightarrow> config_get row))"

definition pick_local_title_model ::
  "run_env \<Rightarrow> runner_registry option \<Rightarrow> client option \<Rightarrow> (string \<times> client) option act" where
  "pick_local_title_model env registry fallback_runner =
     (case registry of
        None \<Rightarrow> smallest_fallback env fallback_runner
      | Some rr \<Rightarrow>
          bindA (load_local_model_config env) (\<lambda>cfg.
            case resolve_configured_runner_model (Option.bind cfg lc_fast) (Some (get_client rr)) of
              None \<Rightarrow> smallest_fallback env fallback_runner
            | Some (m, c) \<Rightarrow>
                bindA (consult (\<lambda>t. xe_status env t c)) (\<lambda>status.
                  if ru_available status \<and> is_installed_model status (mr_model_name m)
                  then ret (Some (mr_model_name m, c))
                  else smallest_fallback env fallback_runner)))"

definition thread_title_prompt :: "string \<Rightarrow> string \<Rightarrow> string" where
  "thread_title_prompt prompt assistant_text =
     ''Write a short human-readable thread title for this conversation.'' @ [newline] @
     ''Constraints:'' @ [newline] @
     ''- Output only the title.'' @ [newline] @
     ''- Keep it under 7 words.'' @ [newline] @
     ''- No quotes, no markdown, no trailing punctuation.'' @ [newline] @
     ''User:'' @ [newline] @ truncate_bytes prompt 600 @ [newline, newline] @
     (if assistant_text = [] then [] else ''Assistant:'' @ [newline] @ truncate_bytes assistant_text 600 @ [newline, newline]) @
     ''Title:''"

definition clean_title :: "string \<Rightarrow> string option" where
  "clean_title generated =
     (let title = run_strip_wrapping_quotes (collapse_whitespace generated);
          title = (if title \<noteq> [] \<and> last title = CHR ''.'' then trim_copy (butlast title) else title)
      in if title = [] \<or> CHR '':'' \<in> set title \<or> newline \<in> set title \<or>
            starts_with title ''User'' \<or> starts_with title ''Assistant'' \<or> starts_with title ''Title''
         then None
         else let title = (if 60 < length title then trim_copy (take 60 title) else title)
              in if title = [] then None else Some title)"

definition generate_thread_title ::
  "run_env \<Rightarrow> runner_registry option \<Rightarrow> client option \<Rightarrow> string \<Rightarrow> string \<Rightarrow> string option act" where
  "generate_thread_title env registry runner prompt assistant_text =
     bindA (pick_local_title_model env registry runner) (\<lambda>target. case target of
       None \<Rightarrow> ret None
     | Some (model_name, c) \<Rightarrow>
         bindA (consult (\<lambda>t. xe_generate env t c model_name (thread_title_prompt prompt assistant_text) ''{}'')) (\<lambda>(ok, chunks, _).
           ret (if ok then clean_title (concat chunks) else None)))"

definition maybe_update_thread_title ::
  "run_env \<Rightarrow> runner_registry option \<Rightarrow> client option \<Rightarrow> string option \<Rightarrow> string \<Rightarrow> string \<Rightarrow> int \<Rightarrow> unit act" where
  "maybe_update_thread_title env registry runner thread_id prompt assistant_text updated_at =
     (case thread_id of
        None \<Rightarrow> ret ()
      | Some tid \<Rightarrow>
          if assistant_text = [] then ret ()
          else
            bindA (bindA (consult (\<lambda>t. xe_thread env t tid)) lift_result) (\<lambda>thread. case thread of
              None \<Rightarrow> ret ()
            | Some thread \<Rightarrow>
                if \<not> should_refresh_thread_title (th_title thread) prompt then ret ()
                else
                  bindA (generate_thread_title env registry runner prompt assistant_text) (\<lambda>next_title. case next_title of
                    None \<Rightarrow> ret ()
                  | Some title \<Rightarrow>
                      if title = th_title thread then ret ()
                      else
                        bindA (command env (UpdateTitle tid title updated_at)) (\<lambda>_.
                        bindA (bindA (consult (\<lambda>t. xe_thread env t tid)) lift_result) (\<lambda>again. case again of
                          None \<Rightarrow> throw (RuntimeError ''bad optional access'')
                        | Some th \<Rightarrow> command env (PersistThread th))))))"

end
