(* ===== verification/CloudRun.thy ===== *)
theory CloudRun
  imports RunWorld
begin

text \<open>
  The cloud path of \<open>src/src/api/routes/ai/runs/AiRunPostRoute.cpp\<close>: the choice of a provider, the
  refresh of the rolling summary, the attempts over the candidate models under the quota and the cooldowns, and
  the outcome of the run.
\<close>

subsection \<open>Choices\<close>

definition choose_compact_summary_model :: "cloud_provider \<Rightarrow> cloud_model option" where
  "choose_compact_summary_model provider = List.find (\<lambda>m. cm_role m = ''compact'') (cp_models provider)"

definition effective_cooldown_policy :: "cloud_config \<Rightarrow> cloud_provider \<Rightarrow> cloud_model \<Rightarrow> int \<times> int" where
  "effective_cooldown_policy cfg provider model =
     (let b = cd_base_seconds (cc_cooldown cfg); c = cd_cap_seconds (cc_cooldown cfg);
          b = (if 0 < cp_cooldown_base_seconds provider then cp_cooldown_base_seconds provider else b);
          c = (if 0 < cp_cooldown_cap_seconds provider then cp_cooldown_cap_seconds provider else c);
          b = (if 0 < cm_cooldown_base_seconds model then cm_cooldown_base_seconds model else b);
          c = (if 0 < cm_cooldown_cap_seconds model then cm_cooldown_cap_seconds model else c)
      in (b, c))"

text \<open>The lambda \<open>try_select\<close>: the setting of the user, else the catalogue, and a stored credential.\<close>

definition selectable :: "string list \<Rightarrow> (string \<times> bool) list \<Rightarrow> cloud_provider \<Rightarrow> bool" where
  "selectable credentials settings provider \<longleftrightarrow>
     (case map_of (rev settings) (cp_id provider) of Some e \<Rightarrow> e | None \<Rightarrow> cp_enabled provider) \<and>
     cp_credential_provider_key provider \<in> set credentials"

definition select_provider ::
  "cloud_config \<Rightarrow> string list \<Rightarrow> (string \<times> bool) list \<Rightarrow> string \<Rightarrow> string + cloud_provider" where
  "select_provider cfg credentials settings requested_provider =
     (if requested_provider \<noteq> []
      then (case find_cloud_provider cfg requested_provider of
              Some p \<Rightarrow> if selectable credentials settings p then Inr p
                        else Inl ''Requested cloud provider is not enabled/configured.''
            | None \<Rightarrow> Inl ''Requested cloud provider is not enabled/configured.'')
      else (case List.find (selectable credentials settings) (ordered_cloud_providers cfg) of
              Some p \<Rightarrow> Inr p
            | None \<Rightarrow> Inl ''No enabled cloud provider with stored API key.''))"

subsection \<open>Limits\<close>

text \<open>The three limits, in the order of the source; the reason of a refusal.\<close>

definition quota_reject :: "cloud_model \<Rightarrow> window_usage \<Rightarrow> window_usage \<Rightarrow> int \<Rightarrow> string option" where
  "quota_reject model minute_usage day_usage projected_tokens =
     (if 0 < cm_rpm model \<and> cm_rpm model < wu_requests minute_usage + 1 then Some ''rpm_exceeded''
      else if 0 < cm_rpd model \<and> cm_rpd model < wu_requests day_usage + 1 then Some ''rpd_exceeded''
      else if 0 < cm_tpm model \<and> cm_tpm model < wu_tokens minute_usage + projected_tokens then Some ''tpm_exceeded''
      else None)"

definition window_usage_at :: "run_env \<Rightarrow> string \<Rightarrow> string \<Rightarrow> int \<Rightarrow> window_usage act" where
  "window_usage_at env provider_id model_id since =
     bindA (consult (xe_db env)) (\<lambda>f. read_quota (load_cloud_window_usage f provider_id model_id since))"

definition cooldown_of :: "run_env \<Rightarrow> string \<Rightarrow> string \<Rightarrow> cooldown_state option act" where
  "cooldown_of env provider_id model_id =
     bindA (consult (xe_db env)) (\<lambda>f. read_quota (load_cloud_model_cooldown f provider_id model_id))"

definition cooling :: "cooldown_state option \<Rightarrow> int \<Rightarrow> bool" where
  "cooling state now \<longleftrightarrow> (case state of None \<Rightarrow> False | Some c \<Rightarrow> now < cd_cooldown_until c)"

definition clear_cooldown :: "run_env \<Rightarrow> string \<Rightarrow> string \<Rightarrow> int \<Rightarrow> unit act" where
  "clear_cooldown env provider_id model_id now =
     bindA (consult (xe_db env)) (\<lambda>f. on_quota (clear_cloud_model_cooldown f provider_id model_id now))"

definition record_failure :: "run_env \<Rightarrow> string \<Rightarrow> string \<Rightarrow> string \<Rightarrow> int \<Rightarrow> int \<times> int \<Rightarrow> cooldown_state act" where
  "record_failure env provider_id model_id error now policy =
     bindA (consult (xe_db env)) (\<lambda>lf. bindA (consult (xe_db env)) (\<lambda>f.
       on_quota (record_cloud_model_failure lf f provider_id model_id error now (fst policy) (snd policy))))"

definition record_usage :: "run_env \<Rightarrow> string \<Rightarrow> string \<Rightarrow> int \<Rightarrow> int \<Rightarrow> int \<Rightarrow> string \<Rightarrow> unit act" where
  "record_usage env provider_id model_id prompt_tokens response_tokens now seed =
     bindA (consult (\<lambda>t. (xe_readable env t, xe_io env t, xe_db env t, xe_rand env t))) (\<lambda>(readable, io, f, rand).
       on_quota (record_cloud_usage_event (xe_lib env) readable io f
         (usage_event provider_id model_id prompt_tokens response_tokens now seed rand)))"

text \<open>A call of a model; the world records it with what the limits were checked against.\<close>

definition call_model ::
  "run_env \<Rightarrow> cloud_provider \<Rightarrow> cloud_model \<Rightarrow> string \<Rightarrow> string \<Rightarrow> int \<Rightarrow> int \<Rightarrow> (string + string) act" where
  "call_model env provider model api_key prompt now projected =
     bindA (\<lambda>w. (Inr (), w\<lparr>aw_calls := aw_calls w @ [\<lparr>ca_provider = cp_id provider, ca_model = model, ca_now = now,
                             ca_projected = projected, ca_quota = aw_quota w\<rparr>]\<rparr>)) (\<lambda>_.
       consult (\<lambda>t. run_cloud_model (xe_net env t) (xe_json_what env) (xe_lib env) provider model api_key prompt))"

subsection \<open>The rolling summary\<close>

record refresh_limits =
  rl_threshold :: int
  rl_source :: int
  rl_response :: int
  rl_max_chars :: int
  rl_min_interval :: int
  rl_min_delta :: int
  rl_force :: int

definition refresh_limits_of :: "cloud_config \<Rightarrow> refresh_limits" where
  "refresh_limits_of cfg =
     (let s = cc_summary_refresh cfg; threshold = max 1 (sr_trigger_context_tokens s)
      in \<lparr>rl_threshold = threshold, rl_source = max 256 (sr_source_context_tokens s),
          rl_response = max 64 (sr_response_tokens_budget s), rl_max_chars = max 256 (sr_max_summary_chars s),
          rl_min_interval = max 0 (sr_min_interval_seconds s), rl_min_delta = max 0 (sr_min_delta_tokens s),
          rl_force = max threshold (sr_force_refresh_tokens s)\<rparr>)"

text \<open>What a refresh leaves: the state, whether the summary is new, and the trace.\<close>

type_synonym refreshed = "thread_state option \<times> bool \<times> json"

definition skipped :: "thread_state option \<Rightarrow> (string \<times> json) list \<Rightarrow> refreshed" where
  "skipped state info = (state, False, json_object ((''status'', JStr ''skipped'') # info))"

definition blank_state :: thread_state where
  "blank_state = \<lparr>ts_thread_id = [], ts_rolling_summary = None, ts_pinned_facts_json = None,
     ts_last_compacted_message_id = None, ts_updated_at = 0\<rparr>"

definition accept_summary ::
  "run_env \<Rightarrow> string \<Rightarrow> thread_state option \<Rightarrow> summary_validation \<Rightarrow> int \<Rightarrow> cloud_model \<Rightarrow> bool \<Rightarrow> bool \<Rightarrow> int \<Rightarrow> int \<Rightarrow> refreshed act" where
  "accept_summary env tid state normalized now model forced src_compacted prompt_tokens response_tokens =
     (if sv_accepted normalized
      then
        let next = (case state of None \<Rightarrow> blank_state | Some s \<Rightarrow> s)\<lparr>ts_thread_id := tid,
                     ts_rolling_summary := Some (sv_summary normalized), ts_updated_at := now\<rparr>
        in bindA (consult (xe_db env)) (\<lambda>f.
           bindA (on_state (upsert_thread_compaction_state (xe_lib env) (xe_state_env env) (f \<noteq> PrepareFails) (f = DbOk) next)) (\<lambda>_.
             ret (Some next, True, json_object
               [(''status'', JStr ''completed''), (''model'', JStr (cm_id model)), (''forced'', JBool forced),
                (''source_compacted'', JBool src_compacted), (''prompt_tokens'', JInt prompt_tokens),
                (''response_tokens'', JInt response_tokens), (''quality_items'', JInt (int (sv_extracted_items normalized))),
                (''quality_fallback_sections'', JBool (sv_used_fallback_sections normalized))])))
      else ret (skipped state
        [(''reason'', JStr ''quality_guard_failed''), (''quality_reason'', JStr (sv_reason normalized)),
         (''model'', JStr (cm_id model)), (''forced'', JBool forced), (''source_compacted'', JBool src_compacted),
         (''prompt_tokens'', JInt prompt_tokens), (''response_tokens'', JInt response_tokens)]))"

definition call_summary_model ::
  "run_env \<Rightarrow> cloud_config \<Rightarrow> cloud_provider \<Rightarrow> cloud_model \<Rightarrow> string \<Rightarrow> string \<Rightarrow> string \<Rightarrow> string \<Rightarrow> thread_state option \<Rightarrow>
     int \<Rightarrow> bool \<Rightarrow> refreshed act" where
  "call_summary_model env cfg provider model api_key run_id tid context_json state now forced =
     bindA (window_usage_at env (cp_id provider) (cm_id model) (now - 60)) (\<lambda>minute_usage.
     bindA (window_usage_at env (cp_id provider) (cm_id model) (now - 86400)) (\<lambda>day_usage.
       let limits = refresh_limits_of cfg;
           (source, src_compacted) = compact_context_tail context_json (rl_source limits);
           current = Option.bind state ts_rolling_summary;
           prompt = build_structured_summary_refresh_prompt current source;
           prompt_tokens = estimate_tokens_from_text prompt;
           projected = prompt_tokens + rl_response limits
       in case quota_reject model minute_usage day_usage projected of
            Some reason \<Rightarrow> ret (skipped state [(''reason'', JStr reason)])
          | None \<Rightarrow>
              bindA (send_event env run_id ''progress''
                [(''message'', JStr ''Refreshing rolling summary''), (''provider'', JStr (cp_id provider)), (''model'', JStr (cm_id model))]) (\<lambda>_.
              bindA (call_model env provider model api_key prompt now projected) (\<lambda>outcome. case outcome of
                Inr text \<Rightarrow>
                  bindA (clear_cooldown env (cp_id provider) (cm_id model) now) (\<lambda>_.
                    let response_tokens = estimate_tokens_from_text text
                    in bindA (record_usage env (cp_id provider) (cm_id model) prompt_tokens response_tokens now (run_id @ ''-summary'')) (\<lambda>_.
                       accept_summary env tid state
                         (normalize_and_validate_rolling_summary text current (rl_max_chars limits))
                         now model forced src_compacted prompt_tokens response_tokens))
              | Inl e \<Rightarrow>
                  let fail_error = (if e = [] then ''summary refresh failed'' else e)
                  in bindA (record_failure env (cp_id provider) (cm_id model) fail_error now
                       (effective_cooldown_policy cfg provider model)) (\<lambda>cooldown.
                     ret (state, False, json_object
                       [(''status'', JStr ''failed''), (''model'', JStr (cm_id model)), (''forced'', JBool forced),
                        (''error'', JStr fail_error), (''cooldown_until'', JInt (cd_cooldown_until cooldown))]))))))"

definition refresh_due ::
  "refresh_limits \<Rightarrow> int \<Rightarrow> thread_state option \<Rightarrow> int \<Rightarrow> (string \<times> json) list + bool" where
  "refresh_due limits context_tokens state now =
     (let summary_tokens = (case Option.bind state ts_rolling_summary of Some s \<Rightarrow> estimate_tokens_from_text s | None \<Rightarrow> 0);
          token_delta = max 0 (context_tokens - summary_tokens);
          last_refresh_at = (case state of Some s \<Rightarrow> ts_updated_at s | None \<Rightarrow> 0);
          since = (if 0 < last_refresh_at then now - last_refresh_at else 2 ^ 30);
          forced = (rl_force limits \<le> context_tokens)
      in if \<not> forced \<and> 0 < last_refresh_at \<and> since < rl_min_interval limits
         then Inl [(''reason'', JStr ''min_interval_not_elapsed''), (''seconds_since_last'', JInt since),
                   (''min_interval_seconds'', JInt (rl_min_interval limits))]
         else if \<not> forced \<and> token_delta < rl_min_delta limits
         then Inl [(''reason'', JStr ''min_delta_not_met''), (''token_delta'', JInt token_delta),
                   (''min_delta_tokens'', JInt (rl_min_delta limits))]
         else Inr forced)"

definition refresh_summary ::
  "run_env \<Rightarrow> cloud_config \<Rightarrow> cloud_provider \<Rightarrow> string \<Rightarrow> string \<Rightarrow> string \<Rightarrow> string \<Rightarrow> thread_state option \<Rightarrow> refreshed act" where
  "refresh_summary env cfg provider api_key run_id tid context_json state =
     (let limits = refresh_limits_of cfg; context_tokens = estimate_tokens_from_text context_json
      in case choose_compact_summary_model provider of
           None \<Rightarrow> ret (skipped state [(''reason'', JStr ''no_compact_model'')])
         | Some model \<Rightarrow>
             if context_tokens < rl_threshold limits
             then ret (skipped state [(''reason'', JStr ''below_threshold''), (''context_tokens'', JInt context_tokens)])
             else
               bindA (consult (xe_now env)) (\<lambda>now.
                 case refresh_due limits context_tokens state now of
                   Inl info \<Rightarrow> ret (skipped state info)
                 | Inr forced \<Rightarrow>
                     bindA (cooldown_of env (cp_id provider) (cm_id model)) (\<lambda>cooldown.
                       if cooling cooldown now
                       then ret (skipped state [(''reason'', JStr ''cooldown_active''),
                              (''cooldown_until'', JInt (case cooldown of Some c \<Rightarrow> cd_cooldown_until c | None \<Rightarrow> 0))])
                       else call_summary_model env cfg provider model api_key run_id tid context_json state now forced)))"

subsection \<open>The attempts\<close>

definition candidate_context :: "json_lib \<Rightarrow> string \<Rightarrow> string \<Rightarrow> thread_state option \<Rightarrow> cloud_model \<Rightarrow> compacted_context" where
  "candidate_context lib prompt context_json state model =
     (let prompt_tokens = estimate_tokens_from_text prompt;
          model_input_budget = (if 0 < cm_tpm model then max 256 (cm_tpm model * 7 div 10) else 6000);
          context_budget = max 0 (model_input_budget - prompt_tokens - 64)
      in build_compacted_context lib context_json context_budget state)"

definition full_prompt :: "string \<Rightarrow> string \<Rightarrow> string" where
  "full_prompt prompt context =
     (if context = [] then prompt else prompt @ [newline, newline] @ ''Context:'' @ [newline] @ context)"

definition attempt_trace ::
  "cloud_model \<Rightarrow> window_usage \<Rightarrow> window_usage \<Rightarrow> int \<Rightarrow> compacted_context \<Rightarrow> int \<Rightarrow> (string \<times> json) list" where
  "attempt_trace model minute_usage day_usage projected ctx tokens =
     [(''model'', JStr (cm_id model)),
      (''quota'', json_object
         [(''rpm_limit'', JInt (cm_rpm model)), (''tpm_limit'', JInt (cm_tpm model)), (''rpd_limit'', JInt (cm_rpd model)),
          (''minute_requests'', JInt (wu_requests minute_usage)), (''minute_tokens'', JInt (wu_tokens minute_usage)),
          (''day_requests'', JInt (wu_requests day_usage)), (''projected_tokens'', JInt projected)]),
      (''context_compacted'', JBool (cc_compacted ctx)),
      (''compaction'', json_object
         [(''used_summary'', JBool (cc_used_summary ctx)), (''pinned_fact_count'', JInt (int (cc_pinned_fact_count ctx)))]),
      (''input_tokens'', JInt tokens)]"

record attempts =
  at_chosen :: "(string \<times> string \<times> int) option"
  at_error :: string
  at_trace :: "json list"

definition traced :: "attempts \<Rightarrow> (string \<times> json) list \<Rightarrow> attempts" where
  "traced at info = at\<lparr>at_trace := at_trace at @ [json_object info]\<rparr>"

text \<open>A candidate that passed the limits.\<close>

definition run_candidate ::
  "run_env \<Rightarrow> cloud_config \<Rightarrow> cloud_provider \<Rightarrow> string \<Rightarrow> string \<Rightarrow> cloud_model \<Rightarrow> string \<Rightarrow> bool \<Rightarrow> int \<Rightarrow> int \<Rightarrow>
     (string \<times> json) list \<Rightarrow> attempts \<Rightarrow> attempts act" where
  "run_candidate env cfg provider api_key run_id model prompt compacted now projected info at =
     bindA (send_event env run_id ''progress''
       [(''message'', JStr ''Trying cloud model''), (''provider'', JStr (cp_id provider)), (''model'', JStr (cm_id model)),
        (''context_compacted'', JBool compacted)]) (\<lambda>_.
     bindA (call_model env provider model api_key prompt now projected) (\<lambda>outcome. case outcome of
       Inr text \<Rightarrow>
         bindA (consult (xe_now env)) (\<lambda>later.
         bindA (clear_cooldown env (cp_id provider) (cm_id model) later) (\<lambda>_.
           ret ((traced at info)\<lparr>at_chosen := Some (cm_id model, text, estimate_tokens_from_text prompt)\<rparr>)))
     | Inl e \<Rightarrow>
         let final_error = (if e = [] then ''cloud call failed'' else e)
         in bindA (consult (xe_now env)) (\<lambda>later.
            bindA (record_failure env (cp_id provider) (cm_id model) final_error later
              (effective_cooldown_policy cfg provider model)) (\<lambda>cooldown.
            bindA (consult (xe_now env)) (\<lambda>after.
            bindA (send_event env run_id ''fallback''
              [(''provider'', JStr (cp_id provider)), (''model'', JStr (cm_id model)), (''error'', JStr final_error),
               (''cooldown_until'', JInt (cd_cooldown_until cooldown))]) (\<lambda>_.
              ret ((traced at (info @ [(''cooldown'', json_object
                [(''failure_count'', JInt (cd_failure_count cooldown)), (''cooldown_until'', JInt (cd_cooldown_until cooldown)),
                 (''remaining_seconds'', JInt (max 0 (cd_cooldown_until cooldown - after)))])]))\<lparr>at_error := final_error\<rparr>)))))))"

definition cooldown_info :: "cooldown_state \<Rightarrow> int \<Rightarrow> json" where
  "cooldown_info c now = json_object
     [(''failure_count'', JInt (cd_failure_count c)), (''cooldown_until'', JInt (cd_cooldown_until c)),
      (''remaining_seconds'', JInt (cd_cooldown_until c - now)),
      (''last_error'', if cd_last_error c = [] then JNull else JStr (cd_last_error c))]"

definition try_model ::
  "run_env \<Rightarrow> cloud_config \<Rightarrow> cloud_provider \<Rightarrow> string \<Rightarrow> string \<Rightarrow> string \<Rightarrow> string \<Rightarrow> thread_state option \<Rightarrow> cloud_model \<Rightarrow>
     attempts \<Rightarrow> attempts act" where
  "try_model env cfg provider api_key run_id prompt context_json state model at =
     bindA (consult (xe_now env)) (\<lambda>now.
     bindA (cooldown_of env (cp_id provider) (cm_id model)) (\<lambda>cooldown.
       if cooling cooldown now
       then ret (traced at [(''model'', JStr (cm_id model)), (''decision'', JStr ''rejected''), (''reason'', JStr ''cooldown_active''),
              (''cooldown'', case cooldown of Some c \<Rightarrow> cooldown_info c now | None \<Rightarrow> JNull)])
       else
         bindA (window_usage_at env (cp_id provider) (cm_id model) (now - 60)) (\<lambda>minute_usage.
         bindA (window_usage_at env (cp_id provider) (cm_id model) (now - 86400)) (\<lambda>day_usage.
           let ctx = candidate_context (xe_lib env) prompt context_json state model;
               prompt_full = full_prompt prompt (cc_text ctx);
               tokens = estimate_tokens_from_text prompt_full;
               projected = tokens + 512;
               info = attempt_trace model minute_usage day_usage projected ctx tokens
           in case quota_reject model minute_usage day_usage projected of
                Some reason \<Rightarrow> ret (traced at (info @ [(''decision'', JStr ''rejected''), (''reason'', JStr reason)]))
              | None \<Rightarrow>
                  run_candidate env cfg provider api_key run_id model prompt_full (cc_compacted ctx) now projected
                    (info @ [(''decision'', JStr ''selected'')]) at))))"

fun try_models ::
  "run_env \<Rightarrow> cloud_config \<Rightarrow> cloud_provider \<Rightarrow> string \<Rightarrow> string \<Rightarrow> string \<Rightarrow> string \<Rightarrow> thread_state option \<Rightarrow> cloud_model list \<Rightarrow>
     attempts \<Rightarrow> attempts act" where
  "try_models env cfg provider api_key run_id prompt context_json state [] at = ret at"
| "try_models env cfg provider api_key run_id prompt context_json state (m # ms) at =
     bindA (try_model env cfg provider api_key run_id prompt context_json state m at) (\<lambda>at'.
       if at_chosen at' \<noteq> None then ret at'
       else try_models env cfg provider api_key run_id prompt context_json state ms at')"

subsection \<open>The outcome\<close>

record run_input =
  ri_prompt :: string
  ri_mode :: string
  ri_project_id :: "string option"
  ri_thread_id :: "string option"
  ri_context_json :: string
  ri_context_card_id :: "string option"

definition new_message ::
  "run_env \<Rightarrow> string \<Rightarrow> string \<Rightarrow> string \<Rightarrow> string option \<Rightarrow> string option \<Rightarrow> string \<Rightarrow> int act \<Rightarrow> string act" where
  "new_message env tid role source provider model content time =
     bindA (consult (xe_uuid env)) (\<lambda>message_id.
     bindA time (\<lambda>now.
     bindA (command env (AppendMessage \<lparr>am_message_id = message_id, am_thread_id = tid, am_role = role, am_source = source,
       am_provider = provider, am_model = model, am_content = content, am_created_at = now\<rparr>)) (\<lambda>_.
       ret message_id)))"

definition roll_state :: "run_env \<Rightarrow> run_input \<Rightarrow> bool \<Rightarrow> int \<Rightarrow> unit act" where
  "roll_state env inp summary_refreshed updated_at =
     (case ri_thread_id inp of
        Some tid \<Rightarrow>
          if ri_context_json inp \<noteq> [] \<and> \<not> summary_refreshed
          then bindA (consult (xe_db env)) (\<lambda>lf. bindA (consult (xe_db env)) (\<lambda>f.
                 on_state (roll_thread_compaction_state (xe_lib env) (xe_state_env env) (lf \<noteq> PrepareFails) (f \<noteq> PrepareFails) (f = DbOk)
                   tid (ri_context_json inp) updated_at)))
          else ret ()
      | None \<Rightarrow> ret ())"

definition finish_failed ::
  "run_env \<Rightarrow> cloud_provider \<Rightarrow> string \<Rightarrow> run_input \<Rightarrow> bool \<Rightarrow> (string \<times> json) list \<Rightarrow> string \<Rightarrow> int \<Rightarrow> unit act" where
  "finish_failed env provider run_id inp summary_refreshed trace final_error updated_at =
     bindA (roll_state env inp summary_refreshed updated_at) (\<lambda>_.
     bindA (command env (UpdateStatus ((status_of run_id ''failed'' (Some final_error) updated_at)\<lparr>su_policy_trace :=
       Some (lib_dump (xe_lib env) (json_object (trace @
         [(''result'', json_object [(''status'', JStr ''failed''), (''error'', JStr final_error)])])))\<rparr>))) (\<lambda>_.
       send_event env run_id ''failed'' [(''error'', JStr final_error), (''provider'', JStr (cp_id provider))]))"

definition finish_completed ::
  "run_env \<Rightarrow> runner_registry option \<Rightarrow> client option \<Rightarrow> cloud_provider \<Rightarrow> string \<Rightarrow> run_input \<Rightarrow> bool \<Rightarrow> (string \<times> json) list \<Rightarrow>
     string \<Rightarrow> string \<Rightarrow> int \<Rightarrow> int \<Rightarrow> unit act" where
  "finish_completed env registry runner provider run_id inp summary_refreshed trace model_id output prompt_tokens updated_at =
     (let response_tokens = estimate_tokens_from_text output
      in bindA (roll_state env inp summary_refreshed updated_at) (\<lambda>_.
         bindA (record_usage env (cp_id provider) model_id prompt_tokens response_tokens updated_at run_id) (\<lambda>_.
         bindA (send_event env run_id ''chunk''
           [(''provider'', JStr (cp_id provider)), (''model'', JStr model_id), (''delta'', JStr output)]) (\<lambda>_.
         bindA (case ri_thread_id inp of
                  None \<Rightarrow> ret None
                | Some tid \<Rightarrow>
                    bindA (new_message env tid ''assistant'' ''cloud'' (Some (cp_id provider)) (Some model_id) output (ret updated_at))
                      (\<lambda>i. ret (Some i))) (\<lambda>message_id.
         bindA (maybe_update_thread_title env registry runner (ri_thread_id inp) (ri_prompt inp) output updated_at) (\<lambda>_.
         bindA (command env (UpdateStatus ((status_of run_id ''completed'' None updated_at)\<lparr>su_message_id := message_id,
           su_chosen_model := Some (cp_id provider @ '':'' @ model_id),
           su_policy_trace := Some (lib_dump (xe_lib env) (json_object (trace @
             [(''result'', json_object [(''status'', JStr ''completed''), (''provider'', JStr (cp_id provider)),
               (''model'', JStr model_id), (''prompt_tokens'', JInt prompt_tokens), (''response_tokens'', JInt response_tokens)])])))\<rparr>))) (\<lambda>_.
           send_event env run_id ''done'' [(''provider'', JStr (cp_id provider)), (''model'', JStr model_id)])))))))"

definition cloud_run_body ::
  "run_env \<Rightarrow> runner_registry option \<Rightarrow> client option \<Rightarrow> cloud_config \<Rightarrow> cloud_provider \<Rightarrow> string \<Rightarrow> cloud_model list \<Rightarrow>
     string \<Rightarrow> string \<Rightarrow> run_input \<Rightarrow> string \<Rightarrow> unit act" where
  "cloud_run_body env registry runner cfg provider api_key candidates requested_provider requested_model inp run_id =
     bindA (send_event env run_id ''progress'' [(''message'', JStr ''Using cloud provider''), (''provider'', JStr (cp_id provider))]) (\<lambda>_.
     bindA (case ri_thread_id inp of
              None \<Rightarrow> ret ()
            | Some tid \<Rightarrow>
                bindA (new_message env tid ''user'' ''cloud'' (Some (cp_id provider))
                  (if requested_model = [] then None else Some requested_model) (ri_prompt inp) (consult (xe_now env))) (\<lambda>_. ret ())) (\<lambda>_.
     bindA (case ri_thread_id inp of
              None \<Rightarrow> ret None
            | Some tid \<Rightarrow> bindA (consult (xe_db env)) (\<lambda>f w. (load_thread_compaction_state (f \<noteq> PrepareFails) tid (aw_state w), w))) (\<lambda>state.
     bindA (case ri_thread_id inp of
              Some tid \<Rightarrow>
                if ri_context_json inp \<noteq> []
                then bindA (refresh_summary env cfg provider api_key run_id tid (ri_context_json inp) state) (\<lambda>(s, new, t).
                       ret (s, new, [(''compaction'', json_object
                         [(''strategy'', JStr ''summary_plus_pinned_plus_tail''), (''summary_refresh'', t)])]))
                else ret (state, False, [])
            | None \<Rightarrow> ret (state, False, [])) (\<lambda>(state, summary_refreshed, compaction).
     bindA (try_models env cfg provider api_key run_id (ri_prompt inp) (ri_context_json inp) state candidates
              \<lparr>at_chosen = None, at_error = ''All cloud model attempts failed.'', at_trace = []\<rparr>) (\<lambda>at.
     bindA (consult (xe_now env)) (\<lambda>updated_at.
       let trace = [(''path'', JStr ''cloud''), (''provider'', JStr (cp_id provider)),
             (''selection'', json_object [(''requested_provider'', text_or_null requested_provider),
                (''requested_model'', text_or_null requested_model)]),
             (''attempts'', JArr (at_trace at))] @ compaction
       in case at_chosen at of
            None \<Rightarrow> finish_failed env provider run_id inp summary_refreshed trace (at_error at) updated_at
          | Some (model_id, output, prompt_tokens) \<Rightarrow>
              finish_completed env registry runner provider run_id inp summary_refreshed trace model_id output prompt_tokens updated_at))))))"

datatype reply = Reply response | Streaming

definition not_configured :: "run_env \<Rightarrow> string \<Rightarrow> reply" where
  "not_configured env msg = Reply (error_response (xe_lib env) 503 ''cloud_not_configured'' msg)"

definition body_text :: "json \<Rightarrow> string \<Rightarrow> string result" where
  "body_text body k = (case json_get k body of None \<Rightarrow> Inr [] | Some JNull \<Rightarrow> Inr [] | Some v \<Rightarrow> get_string v)"

definition body_has :: "json \<Rightarrow> string \<Rightarrow> bool" where
  "body_has body k \<longleftrightarrow> json_get k body \<notin> {None, Some JNull}"

definition new_run :: "run_env \<Rightarrow> run_input \<Rightarrow> string \<Rightarrow> string option \<Rightarrow> ai_run act" where
  "new_run env inp mode router_model =
     bindA (consult (xe_uuid env)) (\<lambda>run_id.
     bindA (consult (xe_now env)) (\<lambda>now.
       ret \<lparr>ar_run_id = run_id, ar_project_id = ri_project_id inp, ar_thread_id = ri_thread_id inp,
         ar_mode = (if mode = ''model'' then ''model'' else ''auto''), ar_prompt = ri_prompt inp,
         ar_context_json = (if ri_context_json inp = [] then None else Some (ri_context_json inp)),
         ar_router_model = router_model, ar_status = ''started'', ar_created_at = now, ar_updated_at = now\<rparr>))"

definition stream_run :: "run_env \<Rightarrow> ai_run \<Rightarrow> unit act \<Rightarrow> reply act" where
  "stream_run env run body =
     bindA (start_run env run) (\<lambda>started.
       if \<not> started then ret (Reply (error_response (xe_lib env) 503 ''server_busy'' ''Too many event streams.''))
       else bindA (with_completion env (ar_run_id run) body) (\<lambda>_. ret Streaming))"

definition execute_cloud_post_path ::
  "run_env \<Rightarrow> host \<Rightarrow> yaml_conv \<Rightarrow> bool \<Rightarrow> runner_registry option \<Rightarrow> client option \<Rightarrow> json \<Rightarrow> run_input \<Rightarrow> reply act" where
  "execute_cloud_post_path env h conv secrets registry runner body inp =
     bindA (lift_result (load_cloudproviders_config h conv)) (\<lambda>cfg. case cfg of
       None \<Rightarrow> ret (Reply (error_response (xe_lib env) 503 ''runner_unavailable''
                 ''No local runner and ai_catalog.yaml models runtime/catalog not found.''))
     | Some cfg \<Rightarrow>
         bindA (lift_result (body_text body ''provider'')) (\<lambda>raw_provider.
         bindA (lift_result (body_text body ''model'')) (\<lambda>requested_model.
         bindA (bindA (consult (xe_credentials env)) lift_result) (\<lambda>credentials.
         bindA (bindA (consult (xe_settings env)) lift_result) (\<lambda>settings.
           let requested_provider = normalize_provider_name raw_provider
           in case select_provider cfg credentials settings requested_provider of
                Inl msg \<Rightarrow> ret (not_configured env msg)
              | Inr provider \<Rightarrow>
                  if \<not> secrets then ret (not_configured env ''Cloud provider credential secret store is unavailable.'')
                  else
                    bindA (bindA (consult (\<lambda>t. xe_secret env t (cp_credential_provider_key provider))) lift_result) (\<lambda>secret. case secret of
                      None \<Rightarrow> ret (not_configured env ''Cloud provider credential secret is missing.'')
                    | Some api_key \<Rightarrow>
                        let candidates = cloud_model_candidates provider requested_model
                        in if candidates = [] then ret (not_configured env ''No cloud model configured for selected provider.'')
                           else
                             bindA (new_run env inp (if body_has body ''model'' then ''model'' else ri_mode inp) None) (\<lambda>run.
                               stream_run env run (cloud_run_body env registry runner cfg provider api_key candidates
                                 requested_provider requested_model inp (ar_run_id run)))))))))"

end
