(* ===== verification/LocalRun.thy ===== *)
theory LocalRun
  imports CloudRun
begin

text \<open>
  The rest of \<open>src/src/api/routes/ai/runs/AiRunPostRoute.cpp\<close>: the path over local runners and the handler of
  the route, which reads the request, picks the runner, makes sure there is a thread and takes one of the two paths.

  \<open>scale\<close> and \<open>detected\<close> are those of \<open>ModelRouting\<close>. A generation delivers its pieces in order; the
  environment gives them together with its result.
\<close>

subsection \<open>Candidates\<close>

definition parse_requested_model_for_runner :: "string \<Rightarrow> string \<Rightarrow> string option" where
  "parse_requested_model_for_runner requested_model runner_id =
     (if requested_model = [] then None
      else case parse_runner_model_ref requested_model of
             None \<Rightarrow> Some requested_model
           | Some p \<Rightarrow> if mr_runner_id p \<noteq> runner_id then None else Some (mr_model_name p))"

definition caste_candidates :: "string \<Rightarrow> (string \<times> model_meta) list \<Rightarrow> string list \<Rightarrow> string list" where
  "caste_candidates machine meta candidates =
     (let fit = filter (\<lambda>c. case map_of meta c of
                          None \<Rightarrow> True
                        | Some m \<Rightarrow> mm_hardware_tier m = [] \<or> caste_meets_or_exceeds machine (mm_hardware_tier m)) candidates
      in if fit = [] then candidates else fit)"

definition keep_configured :: "runner_status \<Rightarrow> string \<Rightarrow> string list \<Rightarrow> string option \<Rightarrow> string list" where
  "keep_configured status runner_id candidates configured =
     (case local_model_name_from_ref configured runner_id of
        None \<Rightarrow> candidates
      | Some name \<Rightarrow>
          if name = [] \<or> \<not> is_installed_model status name \<or> name \<in> set candidates then candidates else candidates @ [name])"

definition local_candidates ::
  "runner_status \<Rightarrow> string \<Rightarrow> (string \<times> model_meta) list \<Rightarrow> caste_info option \<Rightarrow> local_config option \<Rightarrow> string \<Rightarrow> string list" where
  "local_candidates status runner_id meta machine cfg forced_model =
     (let candidates = map lm_name (ru_models status);
          candidates =
            (if forced_model = []
             then (case machine of
                     None \<Rightarrow> candidates
                   | Some ci \<Rightarrow>
                       (let fit = caste_candidates (ci_name ci) meta candidates
                        in case cfg of
                             None \<Rightarrow> fit
                           | Some c \<Rightarrow> foldl (keep_configured status runner_id) fit [lc_fast c, lc_strong c, lc_deep c]))
             else candidates);
          strong = local_model_name_from_ref (Option.bind cfg lc_strong) runner_id
      in case strong of
           Some s \<Rightarrow> if forced_model = [] \<and> s \<in> set candidates \<and> s \<noteq> [] then [s] else candidates
         | None \<Rightarrow> candidates)"

definition candidate_models :: "runner_status \<Rightarrow> string list \<Rightarrow> local_model list" where
  "candidate_models status candidates = filter (\<lambda>m. lm_name m \<in> set candidates) (ru_models status)"

definition choose_router ::
  "runner_status \<Rightarrow> string \<Rightarrow> (string \<times> model_meta) list \<Rightarrow> local_config option \<Rightarrow> string \<Rightarrow> string list \<Rightarrow> string" where
  "choose_router status runner_id meta cfg forced_model candidates =
     (if forced_model = [] \<and> 1 < length candidates
      then
        let fast = (case local_model_name_from_ref (Option.bind cfg lc_fast) runner_id of
                      Some f \<Rightarrow> if f \<in> set candidates then f else []
                    | None \<Rightarrow> []);
            models = candidate_models status candidates;
            router = (if fast = [] then pick_router_model models meta else fast)
        in if router = [] then pick_smallest_model models else router
      else [])"

subsection \<open>Routing\<close>

definition router_limit :: nat where
  "router_limit = 50000"

definition candidate_line :: "runner_status \<Rightarrow> (string \<times> model_meta) list \<Rightarrow> string \<Rightarrow> string" where
  "candidate_line status meta name =
     (case List.find (\<lambda>m. lm_name m = name) (ru_models status) of
        None \<Rightarrow> []
      | Some m \<Rightarrow>
          (let category = (case map_of meta (lm_name m) of Some e \<Rightarrow> mm_category e | None \<Rightarrow> [])
           in ''- '' @ lm_name m @ '' (size='' @ int_to_string (lm_size m) @
              (if category = [] then [] else '', category='' @ category) @ '')'' @ [newline]))"

definition router_prompt :: "runner_status \<Rightarrow> (string \<times> model_meta) list \<Rightarrow> run_input \<Rightarrow> string list \<Rightarrow> string" where
  "router_prompt status meta inp candidates =
     ''You are a routing assistant. Output ONLY a JSON array of model names '' @
     ''ranked by best fit for the user prompt.'' @ [newline] @
     ''User prompt:'' @ [newline] @
     full_prompt (ri_prompt inp) (truncate_bytes (ri_context_json inp) router_limit) @ [newline, newline] @
     ''Candidate models:'' @ [newline] @ concat (map (candidate_line status meta) candidates)"

definition router_options :: json where
  "router_options = json_object [(''temperature'', JFloat 0x3FB999999999999A), (''num_predict'', JInt 256)]"

fun send_chunks :: "run_env \<Rightarrow> string \<Rightarrow> string \<Rightarrow> (string \<Rightarrow> (string \<times> json) list) \<Rightarrow> string list \<Rightarrow> unit act" where
  "send_chunks env run_id name info [] = ret ()"
| "send_chunks env run_id name info (c # cs) =
     bindA (send_event env run_id name (info c)) (\<lambda>_. send_chunks env run_id name info cs)"

definition rank_models :: "json_lib \<Rightarrow> runner_status \<Rightarrow> string \<Rightarrow> string list \<Rightarrow> string list" where
  "rank_models lib status router_text candidates =
     (let ranked = parse_ranked_models lib router_text candidates
      in if ranked \<noteq> [] then ranked
         else let fallback = pick_largest_model (candidate_models status candidates)
              in if fallback = [] then candidates else [fallback])"

definition ranked_payload :: "string \<Rightarrow> string list \<Rightarrow> json" where
  "ranked_payload runner_id ranked = JArr (map (\<lambda>m. JStr (make_runner_model_ref runner_id m)) ranked)"

text \<open>The candidates in the order of the attempts, and the ranking when the router was asked.\<close>

definition route_models ::
  "run_env \<Rightarrow> runner_status \<Rightarrow> client \<Rightarrow> string \<Rightarrow> (string \<times> model_meta) list \<Rightarrow> run_input \<Rightarrow> string \<Rightarrow> string \<Rightarrow> string \<Rightarrow>
     string list \<Rightarrow> (string list \<times> string) act" where
  "route_models env status c runner_id meta inp run_id forced_model router_model candidates =
     (if forced_model \<noteq> []
      then bindA (send_event env run_id ''router'' [(''message'', JStr ''routing skipped (forced model)'')])
             (\<lambda>_. ret ([forced_model], []))
      else if length candidates = 1
      then bindA (send_event env run_id ''router'' [(''message'', JStr ''routing skipped (single model)'')])
             (\<lambda>_. ret (candidates, []))
      else
        bindA (consult (\<lambda>t. xe_generate env t c router_model (router_prompt status meta inp candidates)
          (lib_dump (xe_lib env) router_options))) (\<lambda>(ok, chunks, err).
        bindA (send_chunks env run_id ''router'' (\<lambda>d. [(''delta'', JStr d)]) chunks) (\<lambda>_.
          let ranked = rank_models (xe_lib env) status (concat chunks) candidates;
              payload = ranked_payload runner_id ranked
          in bindA (send_event env run_id ''router_result''
               [(''router_model'', JStr (make_runner_model_ref runner_id router_model)), (''ranked'', payload),
                (''error'', text_or_null err)]) (\<lambda>_.
             ret (ranked, lib_dump (xe_lib env) payload)))))"

subsection \<open>The attempts\<close>

definition with_local_runner_fields :: "(string \<times> json) list \<Rightarrow> string \<Rightarrow> string \<Rightarrow> (string \<times> json) list" where
  "with_local_runner_fields info runner_id model_name =
     info @ [(''runner_id'', JStr runner_id), (''model'', JStr model_name),
       (''model_ref'', JStr (make_runner_model_ref runner_id model_name))]"

record local_attempts =
  la_chosen :: string
  la_text :: string
  la_any_output :: bool

definition fallback_info :: "string \<Rightarrow> string \<Rightarrow> string \<Rightarrow> bool \<Rightarrow> (string \<times> json) list" where
  "fallback_info runner_id model err partial =
     with_local_runner_fields [] runner_id model @
     (if err = [] then [] else [(''error'', JStr err)]) @ (if partial then [(''partial'', JBool True)] else [])"

fun try_local_models ::
  "run_env \<Rightarrow> client \<Rightarrow> string \<Rightarrow> string \<Rightarrow> string \<Rightarrow> string list \<Rightarrow> local_attempts \<Rightarrow> local_attempts act" where
  "try_local_models env c runner_id run_id prompt_full [] la = ret la"
| "try_local_models env c runner_id run_id prompt_full (model # models) la =
     bindA (send_event env run_id ''progress''
       (with_local_runner_fields [(''message'', JStr ''Trying model'')] runner_id model)) (\<lambda>_.
     bindA (consult (\<lambda>t. xe_generate env t c model prompt_full [])) (\<lambda>(ok, chunks, err).
     bindA (send_chunks env run_id ''chunk'' (\<lambda>d. with_local_runner_fields [(''delta'', JStr d)] runner_id model) chunks) (\<lambda>_.
       let la' = la\<lparr>la_text := la_text la @ concat chunks, la_any_output := la_any_output la \<or> chunks \<noteq> []\<rparr>
       in if ok \<and> chunks \<noteq> [] then ret (la'\<lparr>la_chosen := make_runner_model_ref runner_id model\<rparr>)
          else
            bindA (send_event env run_id ''fallback'' (fallback_info runner_id model err (chunks \<noteq> [] \<and> \<not> ok))) (\<lambda>_.
              try_local_models env c runner_id run_id prompt_full models la'))))"

subsection \<open>The outcome\<close>

definition done_info :: "string \<Rightarrow> string \<Rightarrow> (string \<times> json) list" where
  "done_info runner_id chosen =
     [(''runner_id'', JStr runner_id), (''model_ref'', JStr chosen),
      (''model'', JStr (case parse_runner_model_ref chosen of Some p \<Rightarrow> mr_model_name p | None \<Rightarrow> chosen))]"

definition finish_local ::
  "run_env \<Rightarrow> runner_registry option \<Rightarrow> client \<Rightarrow> string \<Rightarrow> string \<Rightarrow> run_input \<Rightarrow> string \<Rightarrow> local_attempts \<Rightarrow> int \<Rightarrow> unit act" where
  "finish_local env registry c runner_id run_id inp ranked_json la updated_at =
     (let ranked = (if ranked_json = [] then None else Some ranked_json)
      in if la_chosen la \<noteq> []
         then
           bindA (case ri_thread_id inp of
                    None \<Rightarrow> ret None
                  | Some tid \<Rightarrow>
                      bindA (new_message env tid ''assistant'' ''local'' (Some ''LocalRunner'') (Some (la_chosen la)) (la_text la) (ret updated_at))
                        (\<lambda>i. ret (Some i))) (\<lambda>message_id.
           bindA (maybe_update_thread_title env registry (Some c) (ri_thread_id inp) (ri_prompt inp) (la_text la) updated_at) (\<lambda>_.
           bindA (command env (UpdateStatus ((status_of run_id ''completed'' None updated_at)\<lparr>su_message_id := message_id,
             su_chosen_model := Some (la_chosen la), su_ranked_json := ranked\<rparr>))) (\<lambda>_.
             send_event env run_id ''done'' (done_info runner_id (la_chosen la)))))
         else
           bindA (command env (UpdateStatus ((status_of run_id ''failed''
             (Some (if la_any_output la then ''partial failure'' else ''no output'')) updated_at)\<lparr>su_ranked_json := ranked\<rparr>))) (\<lambda>_.
             send_event env run_id ''failed'' [(''runner_id'', JStr runner_id), (''error'', JStr ''All models failed.'')]))"

definition local_run_body ::
  "run_env \<Rightarrow> runner_registry option \<Rightarrow> client \<Rightarrow> string \<Rightarrow> runner_status \<Rightarrow> (string \<times> model_meta) list \<Rightarrow> string \<Rightarrow> string \<Rightarrow>
     string list \<Rightarrow> run_input \<Rightarrow> string \<Rightarrow> unit act" where
  "local_run_body env registry c runner_id status meta forced_model router_model candidates inp run_id =
     bindA (case ri_thread_id inp of
              None \<Rightarrow> ret ()
            | Some tid \<Rightarrow>
                bindA (new_message env tid ''user'' ''local'' None None (ri_prompt inp) (consult (xe_now env))) (\<lambda>_. ret ())) (\<lambda>_.
     bindA (route_models env status c runner_id meta inp run_id forced_model router_model candidates) (\<lambda>(models, ranked_json).
     bindA (try_local_models env c runner_id run_id (full_prompt (ri_prompt inp) (ri_context_json inp)) models
              \<lparr>la_chosen = [], la_text = [], la_any_output = False\<rparr>) (\<lambda>la.
     bindA (consult (xe_now env)) (\<lambda>updated_at.
       finish_local env registry c runner_id run_id inp ranked_json la updated_at))))"

definition bad_request :: "run_env \<Rightarrow> string \<Rightarrow> reply" where
  "bad_request env msg = Reply (error_response (xe_lib env) 400 ''bad_request'' msg)"

definition execute_local_post_path ::
  "run_env \<Rightarrow> host \<Rightarrow> (string \<Rightarrow> nat \<Rightarrow> int option) \<Rightarrow> (string \<times> string) option \<Rightarrow> runner_registry option \<Rightarrow> client \<Rightarrow>
     string \<Rightarrow> runner_status \<Rightarrow> json \<Rightarrow> run_input \<Rightarrow> reply act" where
  "execute_local_post_path env h scale detected registry c runner_id status body inp =
     bindA (lift_result (body_text body ''model'')) (\<lambda>requested.
       case (if body_has body ''model'' then parse_requested_model_for_runner requested runner_id else Some []) of
         None \<Rightarrow> ret (bad_request env ''Requested model runner is not available.'')
       | Some forced_model \<Rightarrow>
           bindA (if runner_id = kAutoLocalRunnerId then load_local_model_config env else ret None) (\<lambda>cfg.
             let meta = load_local_model_meta h scale;
                 candidates = local_candidates status runner_id meta (detect_machine_caste detected) cfg forced_model;
                 router_model = choose_router status runner_id meta cfg forced_model candidates
             in if forced_model \<noteq> [] \<and> \<not> is_installed_model status forced_model
                then ret (bad_request env ''Requested model is not installed.'')
                else
                  bindA (new_run env inp (if body_has body ''model'' then ''model'' else ri_mode inp)
                           (if router_model = [] then None else Some (make_runner_model_ref runner_id router_model))) (\<lambda>run.
                    stream_run env run (local_run_body env registry c runner_id status meta forced_model router_model candidates inp
                      (ar_run_id run)))))"

subsection \<open>The route\<close>

definition optional_text :: "json \<Rightarrow> string \<Rightarrow> string option result" where
  "optional_text body k =
     (if body_has body k then andthen (body_text body k) (\<lambda>s. Inr (Some s)) else Inr None)"

definition context_card :: "json \<Rightarrow> string option result" where
  "context_card body = (case json_get ''context'' body of None \<Rightarrow> Inr None | Some ctx \<Rightarrow> optional_text ctx ''card_id'')"

definition parse_ai_run_post_input :: "run_env \<Rightarrow> string \<Rightarrow> (reply + json \<times> run_input) result" where
  "parse_ai_run_post_input env req_body =
     (case lib_parse (xe_lib env) req_body of
        None \<Rightarrow> Inr (Inl (bad_request env (what (xe_json_what env) JsonParseError)))
      | Some body \<Rightarrow>
          (case json_get ''prompt'' body of
             None \<Rightarrow> Inr (Inl (bad_request env ''Missing prompt.''))
           | Some p \<Rightarrow>
               andthen (get_string p) (\<lambda>prompt.
               andthen (case json_get ''mode'' body of None \<Rightarrow> Inr ''auto'' | Some m \<Rightarrow> get_string m) (\<lambda>mode.
               andthen (optional_text body ''project_id'') (\<lambda>project_id.
               andthen (optional_text body ''thread_id'') (\<lambda>thread_id.
               andthen (context_card body) (\<lambda>card_id.
                 Inr (Inr (body, \<lparr>ri_prompt = prompt, ri_mode = mode, ri_project_id = project_id, ri_thread_id = thread_id,
                   ri_context_json = (if body_has body ''context'' then lib_dump (xe_lib env) (json_value body ''context'' JNull) else []),
                   ri_context_card_id = card_id\<rparr>))))))))) "

definition ensure_ai_run_thread :: "run_env \<Rightarrow> run_input \<Rightarrow> run_input act" where
  "ensure_ai_run_thread env inp =
     (case (ri_thread_id inp, ri_project_id inp) of
        (None, Some project_id) \<Rightarrow>
          bindA (consult (xe_uuid env)) (\<lambda>thread_id.
          bindA (consult (xe_now env)) (\<lambda>now.
            let thread = \<lparr>th_thread_id = thread_id, th_project_id = project_id, th_card_id = ri_context_card_id inp,
                          th_title = truncate_bytes (ri_prompt inp) 80, th_created_at = now, th_updated_at = now\<rparr>
            in bindA (command env (CreateThread thread)) (\<lambda>_.
               bindA (command env (PersistThread thread)) (\<lambda>_.
                 ret (inp\<lparr>ri_thread_id := Some thread_id\<rparr>)))))
      | _ \<Rightarrow> ret inp)"

text \<open>The runner a request means; \<open>None\<close> when the model names another one than \<open>runner_id\<close>.\<close>

definition requested_runner :: "json \<Rightarrow> string option result" where
  "requested_runner body =
     andthen (body_text body ''runner_id'') (\<lambda>raw.
     andthen (body_text body ''model'') (\<lambda>model.
       let selected = (if body_has body ''runner_id'' then raw else kAutoLocalRunnerId)
       in if \<not> body_has body ''model'' then Inr (Some selected)
          else case parse_runner_model_ref model of
                 None \<Rightarrow> Inr (Some selected)
               | Some p \<Rightarrow>
                   if selected \<noteq> kAutoLocalRunnerId \<and> selected \<noteq> mr_runner_id p then Inr None else Inr (Some (mr_runner_id p))))"

definition ai_runs_post ::
  "run_env \<Rightarrow> host \<Rightarrow> yaml_conv \<Rightarrow> (string \<Rightarrow> nat \<Rightarrow> int option) \<Rightarrow> (string \<times> string) option \<Rightarrow> bool \<Rightarrow> runner_registry option \<Rightarrow>
     string \<Rightarrow> reply act" where
  "ai_runs_post env h conv scale detected secrets registry req_body =
     bindA (lift_result (parse_ai_run_post_input env req_body)) (\<lambda>parsed. case parsed of
       Inl reply \<Rightarrow> ret reply
     | Inr (body, inp) \<Rightarrow>
         bindA (lift_result (requested_runner body)) (\<lambda>runner_id. case runner_id of
           None \<Rightarrow> ret (bad_request env ''runner_id does not match requested model runner.'')
         | Some runner_id \<Rightarrow>
             bindA (lift_result (body_text body ''provider'')) (\<lambda>raw_provider.
               let runner = Option.bind registry (\<lambda>rr. get_client rr runner_id);
                   cloud_requested = (normalize_provider_name raw_provider \<noteq> [])
               in if cloud_requested \<and> runner_id \<noteq> kAutoLocalRunnerId
                  then ret (bad_request env ''runner_id cannot be combined with cloud provider requests.'')
                  else
                    bindA (case runner of
                             None \<Rightarrow> ret \<lparr>ru_available = False, ru_models = []\<rparr>
                           | Some c \<Rightarrow> consult (\<lambda>t. xe_status env t c)) (\<lambda>status.
                    bindA (ensure_ai_run_thread env inp) (\<lambda>inp.
                      case runner of
                        Some c \<Rightarrow>
                          if \<not> (ru_available status \<and> ru_models status \<noteq> []) \<or> cloud_requested
                          then execute_cloud_post_path env h conv secrets registry runner body inp
                          else execute_local_post_path env h scale detected registry c runner_id status body inp
                      | None \<Rightarrow> execute_cloud_post_path env h conv secrets registry runner body inp)))))"

text \<open>An exception before the stream started is a reply; afterwards the stream already said that the run failed.\<close>

definition handle_ai_runs_post_route ::
  "run_env \<Rightarrow> host \<Rightarrow> yaml_conv \<Rightarrow> (string \<Rightarrow> nat \<Rightarrow> int option) \<Rightarrow> (string \<times> string) option \<Rightarrow> bool \<Rightarrow> runner_registry option \<Rightarrow>
     string \<Rightarrow> ai_world \<Rightarrow> reply \<times> ai_world" where
  "handle_ai_runs_post_route env h conv scale detected secrets registry req_body w =
     (case ai_runs_post env h conv scale detected secrets registry req_body w of
        (Inr r, w') \<Rightarrow> (r, w')
      | (Inl e, w') \<Rightarrow>
          (if aw_channel w' = ChFinished then Streaming else bad_request env (what (xe_json_what env) e), w'))"

end
