(* ===== verification/RunLaws.thy ===== *)
theory RunLaws
  imports LocalRun "HOL-Library.Sublist"
begin

text \<open>
  Laws of the actions of a run. A relation between the worlds before and after an action that is reflexive and
  transitive, and that the counter does not touch, goes through every composition of actions (locale
  \<open>growth\<close>); it is interpreted for the events sent before the end of a run and for the calls of models
  within their limits. The properties of the cloud path follow.
\<close>

subsection \<open>Relations that every action keeps\<close>

locale growth =
  fixes R :: "ai_world \<Rightarrow> ai_world \<Rightarrow> bool"
  assumes refl: "R w w"
    and trans: "R u v \<Longrightarrow> R v w \<Longrightarrow> R u w"
    and tick: "R w (w\<lparr>aw_tick := n\<rparr>)"
begin

lemma bindI: "R w (snd (m w)) \<Longrightarrow> (\<And>x w'. m w = (Inr x, w') \<Longrightarrow> R w' (snd (f x w'))) \<Longrightarrow> R w (snd (bindA m f w))"
  by (auto simp: bindA_def split: prod.splits sum.splits intro: trans)

lemma ret: "R w (snd (ret x w))"
  by (simp add: ret_def refl)

lemma throw: "R w (snd (throw e w))"
  by (simp add: throw_def refl)

lemma consult: "R w (snd (consult f w))"
  by (simp add: consult_def tick)

lemma lift: "R w (snd (lift_result r w))"
  by (simp add: lift_result_def refl)

lemma read_quota: "R w (snd (read_quota f w))"
  by (simp add: read_quota_def refl)

lemma option: "(v = None \<Longrightarrow> R w (snd (m w))) \<Longrightarrow> (\<And>x. v = Some x \<Longrightarrow> R w (snd (f x w))) \<Longrightarrow>
  R w (snd ((case v of None \<Rightarrow> m | Some x \<Rightarrow> f x) w))"
  by (cases v) auto

lemma branch: "(b \<Longrightarrow> R w (snd (m w))) \<Longrightarrow> (\<not> b \<Longrightarrow> R w (snd (n w))) \<Longrightarrow> R w (snd ((if b then m else n) w))"
  by simp

lemma window_usage_at: "R w (snd (window_usage_at env p i since w))"
  unfolding window_usage_at_def by (rule bindI, rule consult, rule read_quota)

lemma cooldown_of: "R w (snd (cooldown_of env p i w))"
  unfolding cooldown_of_def by (rule bindI, rule consult, rule read_quota)

lemmas basic = ret throw consult lift read_quota window_usage_at cooldown_of

end

text \<open>A law for the world apart from the tables, the files and the recorded effects.\<close>

locale stored_growth = growth +
  assumes quota: "R w (w\<lparr>aw_quota := q\<rparr>)"
    and state: "R w (w\<lparr>aw_state := s\<rparr>)"
    and effects: "R w (w\<lparr>aw_effects := es\<rparr>)"
begin

lemma on_quota: "R w (snd (on_quota f w))"
  by (simp add: on_quota_def quota split: prod.splits)

lemma on_state: "R w (snd (on_state f w))"
  by (simp add: on_state_def state split: prod.splits)

lemma command: "R w (snd (command env e w))"
  unfolding command_def by (rule bindI, rule consult) (auto simp: throw_def refl effects split: option.splits)

lemma clear_cooldown: "R w (snd (clear_cooldown env p i now w))"
  unfolding clear_cooldown_def by (rule bindI, rule consult, rule on_quota)

lemma record_failure: "R w (snd (record_failure env p i e now policy w))"
  unfolding record_failure_def by (rule bindI, rule consult, rule bindI, rule consult, rule on_quota)

lemma record_usage: "R w (snd (record_usage env p i pt rt now seed w))"
  unfolding record_usage_def by (rule bindI, rule consult) (auto split: prod.splits intro: on_quota)

lemma new_message: "(\<And>w. R w (snd (time w))) \<Longrightarrow> R w (snd (new_message env tid role src p m c time w))"
  unfolding new_message_def by (rule bindI, rule consult, rule bindI, assumption, rule bindI, rule command, rule ret)

lemma roll_state: "R w (snd (roll_state env inp b now w))"
  unfolding roll_state_def
  by (rule option, rule ret, rule branch, rule bindI, rule consult, rule bindI, rule consult, rule on_state, rule ret)

lemma new_run: "R w (snd (new_run env inp mode rm w))"
  unfolding new_run_def by (rule bindI, rule consult, rule bindI, rule consult, rule ret)

lemma smallest_fallback: "R w (snd (smallest_fallback env c w))"
  unfolding smallest_fallback_def
  by (rule option, rule ret, rule bindI, rule consult) (auto simp: Let_def intro: ret)

lemma pick_local_title_model: "R w (snd (pick_local_title_model env rr c w))"
  unfolding pick_local_title_model_def load_local_model_config_def
  by (rule option, rule smallest_fallback, rule bindI, rule bindI, rule consult, rule ret)
    (auto split: option.splits prod.splits intro!: smallest_fallback bindI consult ret)

lemma generate_thread_title: "R w (snd (generate_thread_title env rr c prompt text w))"
  unfolding generate_thread_title_def
  by (rule bindI, rule pick_local_title_model) (auto split: option.splits prod.splits intro!: bindI consult ret)

lemma title: "R w (snd (maybe_update_thread_title env rr c tid prompt text now w))"
  unfolding maybe_update_thread_title_def
  by (auto split: option.splits intro!: bindI consult lift command generate_thread_title ret throw)

end

subsection \<open>Events of a run\<close>

definition ev_terminal :: "stream_event \<Rightarrow> bool" where
  "ev_terminal e \<longleftrightarrow> ev_name e = ''done'' \<or> ev_name e = ''failed''"

text \<open>Only events that are not terminal are sent and the stream stays as it is.\<close>

definition quiet :: "ai_world \<Rightarrow> ai_world \<Rightarrow> bool" where
  "quiet w w' \<longleftrightarrow> aw_channel w' = aw_channel w \<and>
     (\<exists>es. aw_sent w' = aw_sent w @ es \<and> (\<forall>e \<in> set es. \<not> ev_terminal e))"

interpretation q: stored_growth quiet
proof
  show "quiet u v \<Longrightarrow> quiet v w \<Longrightarrow> quiet u w" for u v w by (force simp: quiet_def)
qed (simp_all add: quiet_def)

definition run_finished :: "string \<Rightarrow> ai_world \<Rightarrow> bool" where
  "run_finished run_id w \<longleftrightarrow> (\<exists>r. map_of (aw_runs w) run_id = Some r \<and> j_finished (r_journal r))"

lemma trim_loop_finished [simp]: "j_finished (trim_loop j) = j_finished j"
proof (induction j rule: trim_loop.induct)
  case (1 j)
  show ?case by (subst trim_loop.simps) (use 1 in \<open>auto split: list.splits\<close>)
qed

lemma append_object:
  "\<exists>ev runs'. append_run_event dump ord now epoch run_id name (json_object d) fin runs = (Inr ev, runs') \<and> ev_name ev = name \<and>
     json_get ''run_id'' (ev_data ev) = Some (JStr run_id) \<and>
     (fin \<longrightarrow> (\<exists>r. map_of runs' run_id = Some r \<and> j_finished (r_journal r)))"
  by (simp add: append_run_event_def journal_append_def Let_def json_object_def update_conv' amap_simps)

lemma publish_object:
  "\<exists>ev runs. publish env run_id name (json_object d) fin w =
     (Inr (), w\<lparr>aw_tick := aw_tick w + 1, aw_runs := runs, aw_sent := aw_sent w @ [ev]\<rparr>) \<and> ev_name ev = name \<and>
     json_get ''run_id'' (ev_data ev) = Some (JStr run_id) \<and>
     (fin \<longrightarrow> (\<exists>r. map_of runs run_id = Some r \<and> j_finished (r_journal r)))"
proof -
  obtain ev runs where "append_run_event (lib_dump (xe_lib env)) (xe_order env) (xe_now env (aw_tick w)) (xe_epoch env (aw_tick w))
      run_id name (json_object d) fin (aw_runs w) = (Inr ev, runs)" "ev_name ev = name"
      "json_get ''run_id'' (ev_data ev) = Some (JStr run_id)" "fin \<longrightarrow> (\<exists>r. map_of runs run_id = Some r \<and> j_finished (r_journal r))"
    using append_object by blast
  then show ?thesis by (intro exI [of _ ev] exI [of _ runs]) (simp add: publish_def bindA_def consult_def)
qed

lemma publish_bind:
  "bindA (publish env run_id name (json_object d) fin) f w = f () (snd (publish env run_id name (json_object d) fin w))"
  using publish_object [of env run_id name d fin w] by (auto simp: bindA_def)

lemma publish_world [simp]:
  "aw_quota (snd (publish env run_id name (json_object d) fin w)) = aw_quota w"
  "aw_calls (snd (publish env run_id name (json_object d) fin w)) = aw_calls w"
  using publish_object [of env run_id name d fin w] by auto

lemmas send_bind = publish_bind [where fin = "name = ''done'' \<or> name = ''failed''" and name = name for name, folded send_event_def]

lemmas send_world [simp] = publish_world [where fin = "name = ''done'' \<or> name = ''failed''" and name = name for name, folded send_event_def]

lemma send_event_cases:
  obtains ev runs where
    "send_event env run_id name d w =
       (Inr (), w\<lparr>aw_tick := aw_tick w + 1, aw_runs := runs, aw_sent := aw_sent w @ [ev]\<rparr>)" "ev_name ev = name"
    "ev_terminal ev \<longrightarrow> (\<exists>r. map_of runs run_id = Some r \<and> j_finished (r_journal r))"
proof -
  obtain ev runs where e: "publish env run_id name (json_object d) (name = ''done'' \<or> name = ''failed'') w =
      (Inr (), w\<lparr>aw_tick := aw_tick w + 1, aw_runs := runs, aw_sent := aw_sent w @ [ev]\<rparr>)" "ev_name ev = name"
      "name = ''done'' \<or> name = ''failed'' \<longrightarrow> (\<exists>r. map_of runs run_id = Some r \<and> j_finished (r_journal r))"
    using publish_object by blast
  show thesis by (rule that [OF _ e(2)]) (use e(1,3) in \<open>simp_all add: send_event_def ev_terminal_def e(2)\<close>)
qed

lemma quiet_send: "name \<noteq> ''done'' \<Longrightarrow> name \<noteq> ''failed'' \<Longrightarrow> quiet w (snd (send_event env run_id name d w))"
  by (rule send_event_cases [of env run_id name d w]) (auto simp: quiet_def ev_terminal_def)

lemma quiet_call: "quiet w (snd (call_model env p m key prompt now projected w))"
  unfolding call_model_def by (rule q.bindI) (simp_all add: quiet_def consult_def)

lemma quiet_accept: "quiet w (snd (accept_summary env tid st n now m f s pt rt w))"
  unfolding accept_summary_def by (auto simp: Let_def intro!: q.bindI q.consult q.on_state q.ret)

lemma quiet_call_summary: "quiet w (snd (call_summary_model env cfg p m key run_id tid ctx st now f w))"
  unfolding call_summary_model_def
  by (auto simp: Let_def split: prod.splits option.splits sum.splits
      intro!: q.bindI q.window_usage_at q.ret quiet_send quiet_call q.clear_cooldown q.record_usage quiet_accept q.record_failure)

lemma quiet_refresh: "quiet w (snd (refresh_summary env cfg p key run_id tid ctx st w))"
  unfolding refresh_summary_def
  by (auto simp: Let_def split: option.splits sum.splits
      intro!: q.bindI q.consult q.ret q.cooldown_of quiet_call_summary)

lemma quiet_candidate: "quiet w (snd (run_candidate env cfg p key run_id m prompt c now projected info at w))"
  unfolding run_candidate_def
  by (auto simp: Let_def split: sum.splits
      intro!: q.bindI q.consult q.ret quiet_send quiet_call q.clear_cooldown q.record_failure)

lemma quiet_try: "quiet w (snd (try_model env cfg p key run_id prompt ctx st m at w))"
  unfolding try_model_def
  by (auto simp: Let_def split: option.splits
      intro!: q.bindI q.consult q.ret q.cooldown_of q.window_usage_at quiet_candidate)

lemma quiet_tries: "quiet w (snd (try_models env cfg p key run_id prompt ctx st ms at w))"
  by (induction ms arbitrary: at w) (auto intro!: q.bindI q.ret quiet_try)

text \<open>A run sends exactly one terminal event, the last one, unless an exception ends it before.\<close>

definition ends :: "string \<Rightarrow> ai_world \<Rightarrow> 'a result \<times> ai_world \<Rightarrow> bool" where
  "ends run_id w rw \<longleftrightarrow> aw_channel (snd rw) = aw_channel w \<and>
     (\<exists>es. aw_sent (snd rw) = aw_sent w @ es \<and>
        (case fst rw of
           Inl _ \<Rightarrow> \<forall>e \<in> set es. \<not> ev_terminal e
         | Inr _ \<Rightarrow> run_finished run_id (snd rw) \<and> (\<exists>es' e. es = es' @ [e] \<and> ev_terminal e \<and> (\<forall>e \<in> set es'. \<not> ev_terminal e))))"

lemma quiet_ends: "quiet u v \<Longrightarrow> ends run_id v rw \<Longrightarrow> ends run_id u rw"
  unfolding quiet_def ends_def by (cases "fst rw") force+

lemma quiet_error: "quiet w w' \<Longrightarrow> ends run_id w (Inl e, w')"
  by (simp add: quiet_def ends_def)

lemma ends_bind:
  assumes "quiet w (snd (m w))" and "\<And>x w'. m w = (Inr x, w') \<Longrightarrow> ends run_id w' (f x w')"
  shows "ends run_id w (bindA m f w)"
proof (cases "m w")
  case (Pair r w')
  then show ?thesis using assms by (cases r) (auto simp: bindA_def intro: quiet_error quiet_ends)
qed

lemma ends_send: "name = ''done'' \<or> name = ''failed'' \<Longrightarrow> ends run_id w (send_event env run_id name d w)"
  by (rule send_event_cases [of env run_id name d w]) (auto simp: ends_def ev_terminal_def run_finished_def)

lemma finish_failed_ends: "ends run_id w (finish_failed env p run_id inp b tr e now w)"
  unfolding finish_failed_def by (intro ends_bind q.roll_state q.command ends_send) simp

lemma finish_completed_ends: "ends run_id w (finish_completed env rr c p run_id inp b tr mid out pt now w)"
  unfolding finish_completed_def Let_def
  by (intro ends_bind q.roll_state q.command ends_send q.record_usage quiet_send q.option q.ret q.bindI q.new_message q.title) simp_all

lemma cloud_run_body_ends:
  "ends run_id w (cloud_run_body env rr c cfg p key ms rp rm inp run_id w)"
  unfolding cloud_run_body_def
  by (rule ends_bind, rule quiet_send)
    (auto simp: Let_def split: option.splits prod.splits
      intro!: ends_bind q.option q.bindI q.ret q.new_message q.consult quiet_refresh quiet_tries finish_failed_ends finish_completed_ends q.refl)

subsection \<open>The local path and the route\<close>

lemma quiet_chunks: "name \<noteq> ''done'' \<Longrightarrow> name \<noteq> ''failed'' \<Longrightarrow> quiet w (snd (send_chunks env run_id name info cs w))"
  by (induction cs arbitrary: w) (auto intro!: q.bindI q.ret quiet_send)

lemma quiet_route: "quiet w (snd (route_models env status c rid meta inp run_id forced router ms w))"
  unfolding route_models_def
  by (auto simp: Let_def split: prod.splits intro!: q.bindI q.consult q.ret quiet_send quiet_chunks)

lemma quiet_local_tries: "quiet w (snd (try_local_models env c rid run_id prompt ms la w))"
  by (induction ms arbitrary: la w)
    (auto simp: Let_def split: prod.splits intro!: q.bindI q.consult q.ret quiet_send quiet_chunks)

lemma chunks_sent: "\<exists>w'. send_chunks env run_id name info cs w = (Inr (), w')"
  by (induction cs arbitrary: w) (simp_all add: ret_def send_bind)

lemma chunks_bind: "bindA (send_chunks env run_id name info cs) f w = f () (snd (send_chunks env run_id name info cs w))"
  using chunks_sent [of env run_id name info cs w] by (auto simp: bindA_def)

text \<open>
  The text of a failed attempt stays in front of the text of the model that is chosen afterwards: the message that
  is stored for the chosen model begins with the fragment of the other.
\<close>

lemma local_text_mixed:
  assumes "\<And>t. xe_generate env t c m1 prompt [] = (False, cs1, e1)" and "\<And>t. xe_generate env t c m2 prompt [] = (True, cs2, e2)"
    and "cs2 \<noteq> []"
  shows "\<exists>w'. try_local_models env c rid run_id prompt (m1 # m2 # ms) la w =
    (Inr (la\<lparr>la_chosen := make_runner_model_ref rid m2, la_text := la_text la @ concat cs1 @ concat cs2, la_any_output := True\<rparr>), w')"
  using assms by (simp add: send_bind chunks_bind bindA_def [of "consult _"] consult_def Let_def ret_def)

lemma finish_local_ends: "ends run_id w (finish_local env rr c rid run_id inp rj la now w)"
  unfolding finish_local_def
  by (auto simp: Let_def intro!: ends_bind q.command ends_send q.option q.ret q.bindI q.new_message q.title)

lemma local_run_body_ends: "ends run_id w (local_run_body env rr c rid status meta forced router ms inp run_id w)"
  unfolding local_run_body_def
  by (auto split: prod.splits
      intro!: ends_bind q.option q.bindI q.ret q.new_message q.consult quiet_route quiet_local_tries finish_local_ends)

text \<open>How a request can end: with a reply and no event, or as a stream.\<close>

definition silent :: "ai_world \<Rightarrow> ai_world \<Rightarrow> bool" where
  "silent w w' \<longleftrightarrow> aw_sent w' = aw_sent w \<and> aw_channel w' = aw_channel w"

interpretation s: stored_growth silent
  by unfold_locales (auto simp: silent_def)

definition unstreamed :: "ai_world \<Rightarrow> ai_world \<Rightarrow> bool" where
  "unstreamed w w' \<longleftrightarrow> aw_sent w' = aw_sent w \<and> aw_channel w' \<in> {aw_channel w, ChReleased}"

definition event_of :: "string \<Rightarrow> stream_event \<Rightarrow> bool" where
  "event_of run_id e \<longleftrightarrow> json_get ''run_id'' (ev_data e) = Some (JStr run_id)"

text \<open>The last event is the only terminal one, and the stored journal of the run is finished.\<close>

definition closed_run :: "string \<Rightarrow> ai_world \<Rightarrow> stream_event list \<Rightarrow> bool" where
  "closed_run run_id w es \<longleftrightarrow> run_finished run_id w \<and>
     (\<exists>es' e. es = es' @ [e] \<and> ev_terminal e \<and> (\<forall>e \<in> set es'. \<not> ev_terminal e))"

definition streamed :: "run_env \<Rightarrow> ai_world \<Rightarrow> ai_world \<Rightarrow> bool" where
  "streamed env w w' \<longleftrightarrow> aw_channel w' = ChFinished \<and>
     (\<exists>run_id start es. aw_sent w' = aw_sent w @ start # es \<and> ev_name start = ''run_started'' \<and> event_of run_id start \<and>
        (closed_run run_id w' es \<or> (\<forall>e \<in> set es. \<not> ev_terminal e) \<and> (\<exists>t. xe_fails env t \<noteq> None)))"

fun outcome :: "run_env \<Rightarrow> ai_world \<Rightarrow> reply result \<times> ai_world \<Rightarrow> bool" where
  "outcome env w (Inr Streaming, w') \<longleftrightarrow> streamed env w w'"
| "outcome env w (Inr (Reply _), w') \<longleftrightarrow> unstreamed w w'"
| "outcome env w (Inl _, w') \<longleftrightarrow> unstreamed w w' \<or> streamed env w w'"

lemma silent_outcome: "silent u v \<Longrightarrow> outcome env v rw \<Longrightarrow> outcome env u rw"
  by (cases "(env, v, rw)" rule: outcome.cases) (auto simp: silent_def unstreamed_def streamed_def)

lemma outcome_bind:
  assumes "silent w (snd (m w))" and "\<And>x w'. m w = (Inr x, w') \<Longrightarrow> outcome env w' (f x w')"
  shows "outcome env w (bindA m f w)"
proof (cases "m w")
  case (Pair r w')
  then have s: "silent w w'" using assms(1) by simp
  show ?thesis
  proof (cases r)
    case (Inl e)
    then show ?thesis using Pair s by (simp add: bindA_def unstreamed_def silent_def)
  next
    case (Inr x)
    then show ?thesis using Pair silent_outcome [OF s assms(2)] by (simp add: bindA_def)
  qed
qed

lemma outcome_reply: "outcome env w (ret (Reply r) w)"
  by (simp add: ret_def unstreamed_def)

lemma command_fails: "command env e w = (Inl x, w') \<Longrightarrow> \<exists>t. xe_fails env t \<noteq> None"
  by (auto simp: command_def bindA_def consult_def throw_def split: option.splits)

lemma report_failure_cases:
  "(\<exists>x w'. report_failure env run_id w = (Inl x, w') \<and> aw_sent w' = aw_sent w \<and> (\<exists>t. xe_fails env t \<noteq> None)) \<or>
   (\<exists>w' e. report_failure env run_id w = (Inr (), w') \<and> aw_sent w' = aw_sent w @ [e] \<and> ev_terminal e \<and> run_finished run_id w')"
proof -
  obtain now where n: "consult (xe_now env) w = (Inr now, w\<lparr>aw_tick := aw_tick w + 1\<rparr>)" by (simp add: consult_def)
  let ?c = "command env (UpdateStatus (status_of run_id ''failed'' (Some kRunFailed) now)) (w\<lparr>aw_tick := aw_tick w + 1\<rparr>)"
  have same: "aw_sent (snd ?c) = aw_sent w" using s.command by (fastforce simp: silent_def)
  show ?thesis
  proof (cases ?c)
    case (Pair r w1)
    then show ?thesis
    proof (cases r)
      case (Inl x)
      then show ?thesis using n Pair same command_fails by (fastforce simp: report_failure_def bindA_def)
    next
      case (Inr u)
      obtain ev runs where "publish env run_id ''failed'' (json_object [(''error'', JStr kRunFailed)]) True w1 =
          (Inr (), w1\<lparr>aw_tick := aw_tick w1 + 1, aw_runs := runs, aw_sent := aw_sent w1 @ [ev]\<rparr>)" "ev_name ev = ''failed''"
          "\<exists>r. map_of runs run_id = Some r \<and> j_finished (r_journal r)"
        using publish_object [of env run_id "''failed''" _ True w1] by blast
      then show ?thesis
        using n Pair Inr same by (intro disjI2) (auto simp: report_failure_def bindA_def ev_terminal_def run_finished_def)
    qed
  qed
qed

text \<open>What the guard adds to a body that ends properly.\<close>

lemma with_completion_streamed:
  assumes e: "ends run_id w (body w)" and s: "aw_sent w = base @ [start]" "ev_name start = ''run_started''" "event_of run_id start"
    and r: "with_completion env run_id body w = (r, w')"
  shows "aw_channel w' = ChFinished \<and> (\<exists>es. aw_sent w' = base @ start # es \<and>
    (closed_run run_id w' es \<or> (\<forall>e \<in> set es. \<not> ev_terminal e) \<and> (\<exists>t. xe_fails env t \<noteq> None)))"
proof (cases "body w")
  case (Pair b w1)
  obtain es where es: "aw_sent w1 = aw_sent w @ es" using e Pair by (auto simp: ends_def)
  show ?thesis
  proof (cases b)
    case (Inr x)
    then show ?thesis
      using e r Pair s by (auto simp: with_completion_def ends_def closed_run_def run_finished_def)
  next
    case (Inl x)
    then have q: "\<forall>e \<in> set es. \<not> ev_terminal e" using e Pair es by (auto simp: ends_def)
    have w': "w' = (snd (report_failure env run_id w1))\<lparr>aw_channel := ChFinished\<rparr>"
      using r Pair Inl by (simp add: with_completion_def)
    show ?thesis using report_failure_cases [of env run_id w1]
    proof (elim disjE exE conjE)
      fix x w2 t assume "report_failure env run_id w1 = (Inl x, w2)" "aw_sent w2 = aw_sent w1" "xe_fails env t \<noteq> None"
      then show ?thesis using w' es q s(1) by (intro conjI exI [of _ es]) auto
    next
      fix w2 ev assume f: "report_failure env run_id w1 = (Inr (), w2)" "aw_sent w2 = aw_sent w1 @ [ev]"
        "ev_terminal ev" "run_finished run_id w2"
      have "closed_run run_id w' (es @ [ev])" using f w' q by (simp add: closed_run_def run_finished_def)
      then show ?thesis using w' f es s(1) by (intro conjI exI [of _ "es @ [ev]"]) auto
    qed
  qed
qed

lemma publish_started:
  "\<exists>ev w'. publish env run_id ''run_started'' (json_object d) False w = (Inr (), w') \<and> aw_sent w' = aw_sent w @ [ev] \<and>
     ev_name ev = ''run_started'' \<and> event_of run_id ev \<and> aw_channel w' = aw_channel w"
  using publish_object [of env run_id "''run_started''" d False w] by (fastforce simp: event_of_def)

lemma start_run_cases:
  obtains (busy) w' where "start_run env run w = (Inr False, w')" "silent w w'"
  | (refused) e w' where "start_run env run w = (Inl e, w')" "unstreamed w w'"
  | (started) w' ev where "start_run env run w = (Inr True, w')" "aw_sent w' = aw_sent w @ [ev]"
      "ev_name ev = ''run_started''" "event_of (ar_run_id run) ev"
proof (cases "xe_reserve env (aw_tick w)")
  case False
  then show thesis by (intro busy [of "w\<lparr>aw_tick := aw_tick w + 1\<rparr>"]) (auto simp: start_run_def bindA_def consult_def ret_def silent_def)
next
  case True
  define w1 where "w1 = w\<lparr>aw_tick := aw_tick w + 1, aw_channel := ChReserved\<rparr>"
  obtain r w2 where c: "command env (CreateRun run) w1 = (r, w2)" by fastforce
  then have same: "aw_sent w2 = aw_sent w" using s.command [of w1 env "CreateRun run"] by (simp add: silent_def w1_def)
  show thesis
  proof (cases r)
    case (Inl e)
    then show thesis
      using c True same by (intro refused [of e "w2\<lparr>aw_channel := ChReleased\<rparr>"])
        (auto simp: start_run_def bindA_def consult_def set_channel_def create_run_def unstreamed_def w1_def)
  next
    case (Inr u)
    obtain ev w3 where "publish env (ar_run_id run) ''run_started'' (json_object [(''run_id'', JStr (ar_run_id run)),
        (''status'', JStr ''started''), (''created_at'', JInt (ar_created_at run))]) False (w2\<lparr>aw_channel := ChActive\<rparr>) = (Inr (), w3)"
        "aw_sent w3 = aw_sent (w2\<lparr>aw_channel := ChActive\<rparr>) @ [ev]" "ev_name ev = ''run_started''" "event_of (ar_run_id run) ev"
      using publish_started by blast
    then show thesis
      using c True same Inr by (intro started [of w3 ev])
        (auto simp: start_run_def bindA_def consult_def set_channel_def create_run_def ret_def w1_def)
  qed
qed

lemma stream_run_outcome:
  assumes "\<And>w. ends (ar_run_id run) w (body w)"
  shows "outcome env w (stream_run env run body w)"
proof (cases rule: start_run_cases [of env run w])
  case (busy w')
  then show ?thesis by (simp add: stream_run_def bindA_def ret_def silent_def unstreamed_def)
next
  case (refused e w')
  then show ?thesis by (simp add: stream_run_def bindA_def)
next
  case (started w' ev)
  obtain r w2 where c: "with_completion env (ar_run_id run) body w' = (r, w2)" by fastforce
  have "streamed env w w2"
    using with_completion_streamed [OF assms started(2-4) c] started(3,4) unfolding streamed_def by blast
  then show ?thesis using started(1) c by (cases r) (simp_all add: stream_run_def bindA_def ret_def)
qed

lemma cloud_path_outcome: "outcome env w (execute_cloud_post_path env h conv secrets rr c body inp w)"
  unfolding execute_cloud_post_path_def not_configured_def
  by (auto simp: Let_def split: option.splits sum.splits
      intro!: outcome_bind outcome_reply s.lift s.bindI s.consult s.new_run stream_run_outcome cloud_run_body_ends)

lemma silent_config: "silent w (snd (load_local_model_config env w))"
  unfolding load_local_model_config_def by (intro s.bindI s.consult s.ret)

lemma local_path_outcome: "outcome env w (execute_local_post_path env h scale det rr c rid status body inp w)"
  unfolding execute_local_post_path_def bad_request_def
  by (auto simp: Let_def split: option.splits
      intro!: outcome_bind outcome_reply s.lift s.ret s.new_run stream_run_outcome local_run_body_ends silent_config)

lemma silent_ensure_thread: "silent w (snd (ensure_ai_run_thread env inp w))"
  unfolding ensure_ai_run_thread_def
  by (auto simp: Let_def split: option.splits intro!: s.bindI s.consult s.command s.ret)

lemma parse_input_reply: "parse_ai_run_post_input env req_body = Inr (Inl r) \<Longrightarrow> \<exists>res. r = Reply res"
  by (auto simp: parse_ai_run_post_input_def bad_request_def andthen_def split: option.splits sum.splits)

lemma ai_runs_post_outcome: "outcome env w (ai_runs_post env h conv scale det secrets rr req_body w)"
  unfolding ai_runs_post_def bad_request_def
  by (auto simp: Let_def lift_result_def dest!: parse_input_reply split: option.splits sum.splits prod.splits
      intro!: outcome_bind outcome_reply s.lift s.ret s.consult s.option silent_ensure_thread cloud_path_outcome local_path_outcome)

end
