(* ===== verification/RunLimits.thy ===== *)
theory RunLimits
  imports RunLaws
begin

text \<open>
  The calls of cloud models that a request makes: at which provider, which models in which order, and within which
  limits. Actions that call no model are another interpretation of \<open>stored_growth\<close>; locale \<open>call_law\<close>
  carries a law of the added calls through a composition. The two properties of the route are at the end, with a request on a small
  catalogue as their witness.
\<close>

subsection \<open>Actions without calls\<close>

definition no_call :: "ai_world \<Rightarrow> ai_world \<Rightarrow> bool" where
  "no_call w w' \<longleftrightarrow> aw_calls w' = aw_calls w"

interpretation n: stored_growth no_call
  by unfold_locales (simp_all add: no_call_def)

lemma no_call_send: "no_call w (snd (send_event env run_id name d w))"
  by (rule send_event_cases [of env run_id name d w]) (simp add: no_call_def)

lemma no_call_chunks: "no_call w (snd (send_chunks env run_id name info cs w))"
  by (induction cs arbitrary: w) (auto intro!: n.bindI n.ret no_call_send)

lemma no_call_accept: "no_call w (snd (accept_summary env tid st nv now m f s pt rt w))"
  unfolding accept_summary_def by (auto simp: Let_def intro!: n.bindI n.consult n.on_state n.ret)

lemma no_call_failed: "no_call w (snd (finish_failed env p run_id inp b tr e now w))"
  unfolding finish_failed_def by (intro n.bindI n.roll_state n.command no_call_send)

lemma no_call_completed: "no_call w (snd (finish_completed env rr c p run_id inp b tr mid out pt now w))"
  unfolding finish_completed_def Let_def
  by (intro n.bindI n.roll_state n.command no_call_send n.record_usage n.option n.ret n.new_message n.title)

lemma no_call_publish: "no_call w (snd (publish env run_id name (json_object d) fin w))"
  using publish_object [of env run_id name d fin w] by (auto simp: no_call_def)

lemma no_call_report: "no_call w (snd (report_failure env run_id w))"
  unfolding report_failure_def by (intro n.bindI n.consult n.command no_call_publish)

lemma no_call_start: "no_call w (snd (start_run env run w))"
proof -
  have c: "no_call w (snd (create_run env run w))" for w
    using n.command [of w env "CreateRun run"] by (auto simp: create_run_def no_call_def split: prod.splits sum.splits)
  have s: "no_call w (snd (set_channel ch w))" for ch w by (simp add: set_channel_def no_call_def)
  show ?thesis unfolding start_run_def by (intro n.bindI n.consult n.branch n.ret c s no_call_publish)
qed

subsection \<open>One call\<close>

definition minute_rows :: "cloud_call \<Rightarrow> usage_row list" where
  "minute_rows c = filter (in_window (ca_provider c) (cm_id (ca_model c)) (ca_now c - 60)) (qw_usage (ca_quota c))"

definition day_rows :: "cloud_call \<Rightarrow> usage_row list" where
  "day_rows c = filter (in_window (ca_provider c) (cm_id (ca_model c)) (ca_now c - 86400)) (qw_usage (ca_quota c))"

text \<open>No cooldown was running and the call does not exceed a limit of its model.\<close>

definition within_limits :: "cloud_call \<Rightarrow> bool" where
  "within_limits c \<longleftrightarrow>
     (\<forall>s. map_of (qw_cooldowns (ca_quota c)) (ca_provider c, cm_id (ca_model c)) = Some s \<longrightarrow> cd_cooldown_until s \<le> ca_now c) \<and>
     (0 < cm_rpm (ca_model c) \<longrightarrow> int (length (minute_rows c)) + 1 \<le> cm_rpm (ca_model c)) \<and>
     (0 < cm_rpd (ca_model c) \<longrightarrow> int (length (day_rows c)) + 1 \<le> cm_rpd (ca_model c)) \<and>
     (0 < cm_tpm (ca_model c) \<longrightarrow> sum_list (map u_total_tokens (minute_rows c)) + ca_projected c \<le> cm_tpm (ca_model c))"

text \<open>The calls that were added satisfy a predicate that allows none at all.\<close>

definition added :: "(cloud_call list \<Rightarrow> bool) \<Rightarrow> ai_world \<Rightarrow> ai_world \<Rightarrow> bool" where
  "added P w w' \<longleftrightarrow> (\<exists>cs. aw_calls w' = aw_calls w @ cs \<and> P cs)"

locale call_law =
  fixes P :: "cloud_call list \<Rightarrow> bool"
  assumes none: "P []"
begin

lemma uncalled: "no_call w w' \<Longrightarrow> added P w w'"
  using none by (simp add: no_call_def added_def)

lemma after:
  assumes "no_call w (snd (a w))" and "\<And>x w'. a w = (Inr x, w') \<Longrightarrow> added P w' (snd (f x w'))"
  shows "added P w (snd (bindA a f w))"
proof (cases "a w")
  case (Pair r w')
  then show ?thesis using assms none by (cases r) (auto simp: bindA_def no_call_def added_def)
qed

lemma before:
  assumes "added P w (snd (a w))" and "\<And>x w'. no_call w' (snd (f x w'))"
  shows "added P w (snd (bindA a f w))"
proof (cases "a w")
  case (Pair r w')
  then show ?thesis using assms by (cases r) (auto simp: bindA_def no_call_def added_def)
qed

lemma finished: "added P w (snd (body w)) \<Longrightarrow> added P w (snd (with_completion env run_id body w))"
  using no_call_report by (force simp: with_completion_def added_def no_call_def split: prod.split sum.split)

end

lemma added_bind:
  assumes "added P w (snd (a w))" and "\<And>x w'. a w = (Inr x, w') \<Longrightarrow> added Q w' (snd (f x w'))" and "Q []"
  shows "added (\<lambda>cs. \<exists>us vs. cs = us @ vs \<and> P us \<and> Q vs) w (snd (bindA a f w))"
proof (cases "a w")
  case (Pair r w')
  obtain us where u: "aw_calls w' = aw_calls w @ us" "P us" using assms(1) Pair by (auto simp: added_def)
  show ?thesis
  proof (cases r)
    case (Inl e)
    then show ?thesis using Pair u assms(3) by (auto simp: added_def bindA_def)
  next
    case (Inr x)
    then obtain vs where "aw_calls (snd (f x w')) = aw_calls w' @ vs" "Q vs" using assms(2) Pair by (fastforce simp: added_def)
    then show ?thesis using Pair Inr u by (auto simp: added_def bindA_def)
  qed
qed

lemma added_mono: "added P w w' \<Longrightarrow> (\<And>cs. P cs \<Longrightarrow> Q cs) \<Longrightarrow> added Q w w'"
  by (auto simp: added_def)

definition call_at :: "cloud_provider \<Rightarrow> cloud_call \<Rightarrow> bool" where
  "call_at p c \<longleftrightarrow> ca_provider c = cp_id p \<and> within_limits c"

definition at_most_once :: "cloud_provider \<Rightarrow> cloud_model \<Rightarrow> cloud_call list \<Rightarrow> bool" where
  "at_most_once p m cs \<longleftrightarrow> length cs \<le> 1 \<and> (\<forall>c \<in> set cs. call_at p c \<and> ca_model c = m)"

interpretation one: call_law "at_most_once p m" for p m
  by unfold_locales (simp add: at_most_once_def)

abbreviation one_call :: "cloud_provider \<Rightarrow> cloud_model \<Rightarrow> ai_world \<Rightarrow> ai_world \<Rightarrow> bool" where
  "one_call p m \<equiv> added (at_most_once p m)"

text \<open>When the database answers, the checks of a model see the tables as they are.\<close>

definition db_answers :: "run_env \<Rightarrow> bool" where
  "db_answers env \<longleftrightarrow> (\<forall>t. xe_db env t = DbOk)"

lemma cooldown_bind:
  "db_answers env \<Longrightarrow> bindA (cooldown_of env p i) f w =
     f (map_of (qw_cooldowns (aw_quota w)) (p, i)) (w\<lparr>aw_tick := aw_tick w + 1\<rparr>)"
  by (simp add: cooldown_of_def db_answers_def bindA_def consult_def read_quota_def load_cloud_model_cooldown_def)

definition usage_since :: "quota_world \<Rightarrow> string \<Rightarrow> string \<Rightarrow> int \<Rightarrow> window_usage" where
  "usage_since qw p i since =
     (let rows = filter (in_window p i since) (qw_usage qw)
      in \<lparr>wu_requests = int (length rows), wu_tokens = sum_list (map u_total_tokens rows)\<rparr>)"

lemma usage_bind:
  "db_answers env \<Longrightarrow> bindA (window_usage_at env p i since) f w =
     f (usage_since (aw_quota w) p i since) (w\<lparr>aw_tick := aw_tick w + 1\<rparr>)"
  by (simp add: window_usage_at_def db_answers_def bindA_def consult_def read_quota_def load_cloud_window_usage_def
      usage_since_def Let_def)

lemma one_call_tick [simp]: "one_call p m (w\<lparr>aw_tick := t\<rparr>) w' = one_call p m w w'"
  by (simp add: added_def)

definition admitted :: "cloud_provider \<Rightarrow> cloud_model \<Rightarrow> int \<Rightarrow> int \<Rightarrow> ai_world \<Rightarrow> bool" where
  "admitted p m now projected w \<longleftrightarrow>
     within_limits \<lparr>ca_provider = cp_id p, ca_model = m, ca_now = now, ca_projected = projected, ca_quota = aw_quota w\<rparr>"

lemma one_call_model: "admitted p m now projected w \<Longrightarrow> one_call p m w (snd (call_model env p m key prompt now projected w))"
  by (simp add: call_model_def bindA_def consult_def added_def at_most_once_def call_at_def admitted_def)

lemma admitted_send:
  "send_event env run_id name d w = (r, w') \<Longrightarrow> admitted p m now projected w \<Longrightarrow> admitted p m now projected w'"
  by (rule send_event_cases [of env run_id name d w]) (auto simp: admitted_def)

lemma admitted_checks:
  assumes "\<not> cooling (map_of (qw_cooldowns (aw_quota w)) (cp_id p, cm_id m)) now"
    and "quota_reject m (usage_since (aw_quota w) (cp_id p) (cm_id m) (now - 60))
      (usage_since (aw_quota w) (cp_id p) (cm_id m) (now - 86400)) projected = None"
  shows "admitted p m now projected w"
  using assms
  by (auto simp: admitted_def within_limits_def minute_rows_def day_rows_def cooling_def quota_reject_def usage_since_def Let_def
      split: if_splits option.splits)

lemma admitted_tick [simp]: "admitted p m now projected (w\<lparr>aw_tick := t\<rparr>) = admitted p m now projected w"
  by (simp add: admitted_def)

text \<open>An admitted call that is announced by an event.\<close>

lemma announced_call:
  assumes "admitted p m now projected w" and "\<And>r w'. no_call w' (snd (f r w'))"
  shows "one_call p m w (snd (bindA (send_event env run_id name d) (\<lambda>_. bindA (call_model env p m key prompt now projected) f)
    (w\<lparr>aw_tick := t\<rparr>)))"
proof -
  have "admitted p m now projected (w\<lparr>aw_tick := t\<rparr>)" using assms(1) by simp
  then have "one_call p m (w\<lparr>aw_tick := t\<rparr>) (snd (bindA (send_event env run_id name d)
      (\<lambda>_. bindA (call_model env p m key prompt now projected) f) (w\<lparr>aw_tick := t\<rparr>)))"
    by (intro one.after one.before no_call_send one_call_model assms(2)) (rule admitted_send)
  then show ?thesis by simp
qed

lemma consult_bind: "bindA (consult f) g w = g (f (aw_tick w)) (w\<lparr>aw_tick := aw_tick w + 1\<rparr>)"
  by (simp add: bindA_def consult_def)

lemma one_call_skip: "one_call p m w (snd (ret x (w\<lparr>aw_tick := t\<rparr>)))"
  by (simp add: one.uncalled no_call_def ret_def)

lemma candidate_call:
  "admitted p m now projected w \<Longrightarrow>
   one_call p m w (snd (run_candidate env cfg p key run_id m prompt c now projected info at (w\<lparr>aw_tick := t\<rparr>)))"
  unfolding run_candidate_def
  by (erule announced_call)
    (auto simp: Let_def split: sum.splits intro!: n.bindI n.consult n.ret no_call_send n.clear_cooldown n.record_failure)

lemma try_model_call:
  assumes "db_answers env"
  shows "one_call p m w (snd (try_model env cfg p key run_id prompt ctx st m at w))"
  unfolding try_model_def
  by (simp add: consult_bind cooldown_bind [OF assms] usage_bind [OF assms] Let_def one_call_skip split: option.split)
    (auto intro!: candidate_call one_call_skip admitted_checks)

lemma call_summary_model_call:
  assumes "db_answers env" and "\<not> cooling (map_of (qw_cooldowns (aw_quota w)) (cp_id p, cm_id m)) now"
  shows "one_call p m w (snd (call_summary_model env cfg p m key run_id tid ctx st now forced (w\<lparr>aw_tick := t\<rparr>)))"
  unfolding call_summary_model_def
  by (simp add: usage_bind [OF assms(1)] Let_def one_call_skip split: option.split prod.split)
    (auto simp: Let_def split: sum.splits
      intro!: announced_call admitted_checks [OF assms(2)] n.bindI n.clear_cooldown n.record_usage n.record_failure n.ret no_call_accept)

lemma refresh_summary_call:
  assumes "db_answers env" and "choose_compact_summary_model p = Some m"
  shows "one_call p m w (snd (refresh_summary env cfg p key run_id tid ctx st w))"
  unfolding refresh_summary_def
  by (simp add: consult_bind cooldown_bind [OF assms(1)] assms(2) Let_def one_call_skip one.uncalled n.ret split: option.split sum.split)
    (auto simp: one.uncalled n.ret one_call_skip intro!: call_summary_model_call [OF assms(1)])

subsection \<open>The calls of a request\<close>

text \<open>Each model at most once, in the order of the candidates.\<close>

definition in_order :: "cloud_provider \<Rightarrow> cloud_model list \<Rightarrow> cloud_call list \<Rightarrow> bool" where
  "in_order p ms cs \<longleftrightarrow> subseq (map ca_model cs) ms \<and> (\<forall>c \<in> set cs. call_at p c)"

interpretation ord: call_law "in_order p ms" for p ms
  by unfold_locales (simp add: in_order_def)

lemma in_order_Cons: "at_most_once p m us \<Longrightarrow> in_order p ms vs \<Longrightarrow> in_order p (m # ms) (us @ vs)"
  by (cases us) (auto simp: at_most_once_def in_order_def)

lemma in_order_once: "at_most_once p m us \<Longrightarrow> in_order p (m # ms) us"
  using in_order_Cons [of p m us ms "[]"] by (simp add: in_order_def)

lemma try_models_calls:
  assumes "db_answers env"
  shows "added (in_order p ms) w (snd (try_models env cfg p key run_id prompt ctx st ms at w))"
proof (induction ms arbitrary: at w)
  case (Cons m ms)
  show ?case unfolding try_models.simps
    by (rule added_mono, rule added_bind [where Q = "in_order p ms"], rule try_model_call [OF assms])
      (auto intro: Cons.IH in_order_Cons ord.none ord.uncalled n.ret)
qed (simp add: ord.uncalled n.ret)

text \<open>One call for the rolling summary at most, of the compaction model, then the candidates.\<close>

definition summary_calls :: "cloud_provider \<Rightarrow> cloud_call list \<Rightarrow> bool" where
  "summary_calls p cs \<longleftrightarrow> (case choose_compact_summary_model p of None \<Rightarrow> cs = [] | Some m \<Rightarrow> at_most_once p m cs)"

interpretation sum: call_law "summary_calls p" for p
  by unfold_locales (simp add: summary_calls_def one.none split: option.split)

definition run_calls :: "cloud_provider \<Rightarrow> cloud_model list \<Rightarrow> cloud_call list \<Rightarrow> bool" where
  "run_calls p ms cs \<longleftrightarrow> (\<exists>us vs. cs = us @ vs \<and> summary_calls p us \<and> in_order p ms vs)"

interpretation run: call_law "run_calls p ms" for p ms
  by unfold_locales (simp add: run_calls_def sum.none ord.none)

lemma refresh_summary_calls:
  assumes "db_answers env"
  shows "added (summary_calls p) w (snd (refresh_summary env cfg p key run_id tid ctx st w))"
proof (cases "choose_compact_summary_model p")
  case None
  then show ?thesis by (simp add: refresh_summary_def Let_def sum.uncalled n.ret)
next
  case (Some m)
  then have "summary_calls p = at_most_once p m" by (simp add: fun_eq_iff summary_calls_def)
  then show ?thesis using refresh_summary_call [OF assms Some] by simp
qed

lemma cloud_run_body_calls:
  assumes "db_answers env"
  shows "added (run_calls p ms) w (snd (cloud_run_body env rr c cfg p key ms rp rm inp run_id w))"
  unfolding cloud_run_body_def
proof (rule run.after, goal_cases)
  case (2 _ w1)
  show ?case
  proof (rule run.after, goal_cases)
    case (2 _ w2)
    show ?case
    proof (rule run.after, goal_cases)
      case (2 state w3)
      show ?case
        by (rule added_mono, rule added_bind [where P = "summary_calls p" and Q = "in_order p ms"])
          (auto simp: run_calls_def Let_def split: option.split prod.splits
            intro!: sum.before ord.before sum.uncalled [OF n.ret] refresh_summary_calls [OF assms] try_models_calls [OF assms] ord.none
              n.ret n.bindI n.consult no_call_failed no_call_completed)
    qed (intro n.option n.ret n.bindI n.consult, simp add: no_call_def)
  qed (intro n.option n.bindI n.consult n.ret n.new_message)
qed (rule no_call_send)

lemma stream_run_calls:
  assumes "\<And>w. added (run_calls p ms) w (snd (body w))"
  shows "added (run_calls p ms) w (snd (stream_run env run body w))"
  unfolding stream_run_def
  by (rule run.after, rule no_call_start) (auto intro!: run.uncalled [OF n.ret] run.before run.finished assms n.ret)

lemma find_holds: "List.find Q xs = Some x \<Longrightarrow> Q x \<and> x \<in> set xs"
  by (induction xs) (auto split: if_splits)

lemma select_provider_selectable: "select_provider cfg creds settings rp = Inr p \<Longrightarrow> selectable creds settings p"
  by (auto simp: select_provider_def split: if_splits option.splits dest: find_holds)

text \<open>
  What a request may call: nothing, or one provider of the catalogue that the answers of the database made selectable,
  the models of which are the candidates for a name that was asked for.
\<close>

definition request_calls :: "run_env \<Rightarrow> host \<Rightarrow> yaml_conv \<Rightarrow> cloud_call list \<Rightarrow> bool" where
  "request_calls env h conv cs \<longleftrightarrow> cs = [] \<or>
     (\<exists>cfg p requested credentials settings t t'. load_cloudproviders_config h conv = Inr (Some cfg) \<and>
        xe_credentials env t = Inr credentials \<and> xe_settings env t' = Inr settings \<and> selectable credentials settings p \<and>
        run_calls p (cloud_model_candidates p requested) cs)"

interpretation req: call_law "request_calls env h conv" for env h conv
  by unfold_locales (simp add: request_calls_def)

lemma cloud_path_calls:
  assumes "db_answers env"
  shows "added (request_calls env h conv) w (snd (execute_cloud_post_path env h conv secrets rr c body inp w))"
proof -
  have last: "added (request_calls env h conv) w (snd (stream_run env run (cloud_run_body env rr c cfg p key
      (cloud_model_candidates p rm) rp rm inp (ar_run_id run)) w))"
    if "load_cloudproviders_config h conv = Inr (Some cfg)" "xe_credentials env t = Inr credentials"
      "xe_settings env t' = Inr settings" "select_provider cfg credentials settings rp = Inr p" for cfg p rm rp t t' credentials settings run key w
    by (rule added_mono, rule stream_run_calls, rule cloud_run_body_calls [OF assms])
      (use that select_provider_selectable [OF that(4)] in \<open>unfold request_calls_def, blast\<close>)
  have asked: "\<exists>t. f t = Inr x" if "bindA (consult f) lift_result w = (Inr x, w')" for f :: "nat \<Rightarrow> 'a result" and x w w'
    using that by (auto simp: bindA_def consult_def lift_result_def)
  have read: "r = Inr x" if "lift_result r w = (Inr x, w')" for r :: "'a result" and x w w'
    using that by (simp add: lift_result_def)
  show ?thesis unfolding execute_cloud_post_path_def
    by (auto simp: Let_def lift_result_def dest!: asked split: option.splits sum.splits
      intro!: req.after req.uncalled [OF n.ret] n.lift n.bindI n.consult n.new_run last)
qed

lemma no_call_route: "no_call w (snd (route_models env status c rid meta inp run_id forced router ms w))"
  unfolding route_models_def
  by (auto simp: Let_def split: prod.splits intro!: n.bindI n.consult n.ret no_call_send no_call_chunks)

lemma no_call_local_tries: "no_call w (snd (try_local_models env c rid run_id prompt ms la w))"
  by (induction ms arbitrary: la w)
    (auto simp: Let_def split: prod.splits intro!: n.bindI n.consult n.ret no_call_send no_call_chunks)

lemma no_call_finish_local: "no_call w (snd (finish_local env rr c rid run_id inp rj la now w))"
  unfolding finish_local_def
  by (auto simp: Let_def intro!: n.bindI n.command no_call_send n.option n.ret n.new_message n.title)

interpretation empty: call_law "\<lambda>cs. cs = []"
  by unfold_locales simp

lemma no_call_added: "no_call w w' = added (\<lambda>cs. cs = []) w w'"
  by (simp add: no_call_def added_def)

lemma no_call_completion: "(\<And>w. no_call w (snd (body w))) \<Longrightarrow> no_call w (snd (with_completion env run_id body w))"
  unfolding no_call_added by (rule empty.finished)

lemma no_call_local_body: "no_call w (snd (local_run_body env rr c rid status meta forced router ms inp run_id w))"
  unfolding local_run_body_def
  by (auto split: prod.splits
      intro!: n.option n.bindI n.ret n.new_message n.consult no_call_route no_call_local_tries no_call_finish_local)

lemma no_call_local_path: "no_call w (snd (execute_local_post_path env h scale det rr c rid status body inp w))"
  unfolding execute_local_post_path_def stream_run_def load_local_model_config_def
  by (auto simp: Let_def split: option.splits
      intro!: n.bindI n.consult n.ret n.lift n.new_run no_call_start no_call_completion no_call_local_body)

lemma no_call_ensure_thread: "no_call w (snd (ensure_ai_run_thread env inp w))"
  unfolding ensure_ai_run_thread_def
  by (auto simp: Let_def split: option.splits intro!: n.bindI n.consult n.command n.ret)

lemma ai_runs_post_calls:
  assumes "db_answers env"
  shows "added (request_calls env h conv) w (snd (ai_runs_post env h conv scale det secrets rr req_body w))"
  unfolding ai_runs_post_def
  by (auto simp: Let_def split: option.splits sum.splits prod.splits
      intro!: req.after req.uncalled [OF n.ret] n.lift n.ret n.consult n.option no_call_ensure_thread cloud_path_calls [OF assms]
        req.uncalled [OF no_call_local_path])

lemma run_callsD:
  assumes "run_calls p ms cs"
  shows "(\<forall>c \<in> set cs. within_limits c \<and> ca_provider c = cp_id p) \<and> (\<exists>summary tries. cs = summary @ tries \<and>
    length summary \<le> 1 \<and> (\<forall>c \<in> set summary. choose_compact_summary_model p = Some (ca_model c)) \<and>
    subseq (map ca_model tries) ms)"
proof -
  obtain us vs where c: "cs = us @ vs" "summary_calls p us" "in_order p ms vs" using assms by (auto simp: run_calls_def)
  have "length us \<le> 1 \<and> (\<forall>c \<in> set us. call_at p c \<and> choose_compact_summary_model p = Some (ca_model c))"
    using c(2) by (auto simp: summary_calls_def at_most_once_def split: option.splits)
  then show ?thesis using c(1,3) by (auto simp: in_order_def call_at_def)
qed

lemma calls_then:
  assumes "\<And>x w. no_call w (snd (f x w))"
  shows "aw_calls (snd (bindA a f w)) = aw_calls (snd (a w))"
  using assms by (auto simp: bindA_def no_call_def split: prod.splits sum.splits)

lemma announced_called:
  assumes "\<And>x w. no_call w (snd (f x w))"
  shows "\<exists>c. aw_calls (snd (bindA (send_event env run_id name d) (\<lambda>_. bindA (call_model env p m key prompt now n) f) w)) =
    aw_calls w @ [c] \<and> ca_model c = m"
  unfolding send_bind calls_then [OF assms] by (simp add: call_model_def bindA_def consult_def)

lemma candidate_called:
  "\<exists>c. aw_calls (snd (run_candidate env cfg p key run_id m prompt cmp now n info at w)) = aw_calls w @ [c] \<and> ca_model c = m"
  unfolding run_candidate_def
  by (rule announced_called)
    (auto simp: Let_def split: sum.splits intro!: n.bindI n.consult n.ret no_call_send n.clear_cooldown n.record_failure)

lemma ret_bind: "bindA (ret x) f w = f x w"
  by (simp add: bindA_def ret_def)

subsection \<open>A request on a small catalogue\<close>

definition sample_run_lib :: json_lib where
  "sample_run_lib = \<lparr>lib_parse = (\<lambda>s. Some (json_object [(''prompt'', JStr ''hi''), (''output_text'', JStr s)])),
     lib_dump = (\<lambda>_. ''{}''), lib_dump2 = (\<lambda>_. ''{}''), lib_trunc = (\<lambda>_. 0)\<rparr>"

definition sample_run_env :: "(nat \<Rightarrow> net) \<Rightarrow> run_env" where
  "sample_run_env net =
     \<lparr>xe_lib = sample_run_lib, xe_json_what = (\<lambda>_. []), xe_order = id, xe_epoch = (\<lambda>_. ''e''), xe_now = (\<lambda>t. 1000 + int t),
      xe_uuid = (\<lambda>_. ''r1''), xe_rand = id, xe_net = net, xe_db = (\<lambda>_. DbOk), xe_io = (\<lambda>_. IoOk), xe_readable = (\<lambda>_. True),
      xe_state_env = sample_env, xe_fails = (\<lambda>_. None), xe_reserve = (\<lambda>_. True), xe_thread = (\<lambda>_ _. Inr None),
      xe_config = (\<lambda>_. Inr None), xe_status = (\<lambda>_ _. \<lparr>ru_available = False, ru_models = []\<rparr>),
      xe_generate = (\<lambda>_ _ _ _ _. (False, [], [])), xe_credentials = (\<lambda>_. Inr [''beta'']), xe_settings = (\<lambda>_. Inr [(''beta'', True)]),
      xe_secret = (\<lambda>_ _. Inr (Some ''key''))\<rparr>"

definition sample_ai_world :: ai_world where
  "sample_ai_world = \<lparr>aw_quota = sample_world, aw_state = sample_state_world, aw_runs = [], aw_channel = NoChannel, aw_sent = [],
     aw_effects = [], aw_calls = [], aw_tick = 0\<rparr>"

definition sample_beta :: cloud_provider where
  "sample_beta = sample_provider ''beta'' ''e2'' [sample_model ''b1'' ''e2'' []]"

definition sample_body :: json where
  "sample_body = json_object [(''prompt'', JStr ''hi''), (''output_text'', JStr ''x'')]"

definition sample_input :: run_input where
  "sample_input = \<lparr>ri_prompt = ''hi'', ri_mode = ''auto'', ri_project_id = None, ri_thread_id = None, ri_context_json = [],
     ri_context_card_id = None\<rparr>"

definition sample_run :: ai_run where
  "sample_run = \<lparr>ar_run_id = ''r1'', ar_project_id = None, ar_thread_id = None, ar_mode = ''auto'', ar_prompt = ''hi'',
     ar_context_json = None, ar_router_model = None, ar_status = ''started'', ar_created_at = 1004, ar_updated_at = 1004\<rparr>"

abbreviation sample_cloud_run :: "net \<Rightarrow> unit act" where
  "sample_cloud_run net \<equiv> cloud_run_body (sample_run_env (\<lambda>_. net)) None None sample_cloud sample_beta ''key'' [sample_model ''b1'' ''e2'' []] [] [] sample_input ''r1''"

lemma sample_env_fields:
  "xe_db (sample_run_env net) t = DbOk" "xe_lib (sample_run_env net) = sample_run_lib" "xe_fails (sample_run_env net) t = None"
  "xe_reserve (sample_run_env net) t" "xe_credentials (sample_run_env net) t = Inr [''beta'']"
  "xe_settings (sample_run_env net) t = Inr [(''beta'', True)]" "xe_secret (sample_run_env net) t k = Inr (Some ''key'')"
  "xe_net (sample_run_env net) = net"  "xe_json_what (sample_run_env net) = (\<lambda>_. [])"
  "xe_uuid (sample_run_env net) t = ''r1''" "xe_now (sample_run_env net) t = 1000 + int t"
  by (simp_all add: sample_run_env_def)

lemma sample_answers: "db_answers (sample_run_env net)"
  by (simp add: db_answers_def sample_env_fields)

lemma sample_quota: "quota_reject (sample_model ''b1'' ''e2'' []) u d n = None"
  by (simp add: quota_reject_def sample_model_def)

lemma sample_parse: "parse_ai_run_post_input (sample_run_env net) ''x'' = Inr (Inr (sample_body, sample_input))"
  by code_simp

lemma sample_fields: "requested_runner sample_body = Inr (Some kAutoLocalRunnerId)"
  "body_text sample_body ''provider'' = Inr []" "body_text sample_body ''model'' = Inr []" "body_has sample_body ''model'' = False"
  by code_simp+

lemma sample_selection: "normalize_provider_name [] = []"
  "select_provider sample_cloud [''beta''] [(''beta'', True)] [] = Inr sample_beta"
  "cloud_model_candidates sample_beta [] = [sample_model ''b1'' ''e2'' []]"
  by code_simp+

lemma sample_post_path: "ai_runs_post (sample_run_env (\<lambda>_. net)) catalog_host sample_conv scale det True None ''x'' sample_ai_world =
   stream_run (sample_run_env (\<lambda>_. net)) sample_run (sample_cloud_run net) (sample_ai_world\<lparr>aw_tick := 5\<rparr>)"
  by (simp add: ai_runs_post_def execute_cloud_post_path_def ensure_ai_run_thread_def new_run_def lift_result_def ret_def bindA_def consult_def
    sample_parse sample_fields sample_selection sample_cloud_loads sample_input_def sample_ai_world_def sample_run_def sample_env_fields Let_def eval_nat_numeral)

lemma sample_run_id [simp]: "ar_run_id sample_run = ''r1''"
  by (simp add: sample_run_def)

lemma sample_run_started:
  "\<exists>w1. start_run (sample_run_env net) sample_run (sample_ai_world\<lparr>aw_tick := 5\<rparr>) = (Inr True, w1) \<and> aw_quota w1 = sample_world \<and> aw_calls w1 = []"
  by (simp add: start_run_def create_run_def command_def set_channel_def consult_bind publish_bind ret_def bindA_def [of "set_channel _"]
      bindA_def [of "create_run _ _"] sample_env_fields, simp add: sample_ai_world_def)

lemma sample_called:
  assumes "aw_quota w = sample_world" and "aw_calls w = []"
  shows "map (cm_id \<circ> ca_model) (aw_calls (snd (sample_cloud_run net w))) = [''b1'']"
proof -
  let ?env = "sample_run_env (\<lambda>_. net)" and ?m = "sample_model ''b1'' ''e2'' []"
  have tried: "\<exists>c. aw_calls (snd (try_model ?env sample_cloud sample_beta ''key'' ''r1'' ''hi'' [] None ?m at w)) = aw_calls w @ [c] \<and>
      ca_model c = ?m" if "aw_quota w = sample_world" for at w
    using candidate_called [where w = "w\<lparr>aw_tick := t\<rparr>" for t]
    by (simp add: try_model_def consult_bind cooldown_bind [OF sample_answers] usage_bind [OF sample_answers]
        sample_quota Let_def that cooling_def sample_world_def)
  obtain c where "aw_calls (snd (sample_cloud_run net w)) = [c]" "ca_model c = ?m"
    using tried [of "snd (send_event ?env ''r1'' ''progress'' [(''message'', JStr ''Using cloud provider''), (''provider'', JStr (cp_id sample_beta))] w)"
        "\<lparr>at_chosen = None, at_error = ''All cloud model attempts failed.'', at_trace = []\<rparr>"] assms
    by (auto simp: cloud_run_body_def sample_input_def send_bind ret_bind calls_then Let_def no_call_failed no_call_completed n.bindI n.consult n.ret
       split: option.split)
  then show ?thesis by (simp add: sample_model_def)
qed

lemma sample_streams:
  "\<exists>w'. handle_ai_runs_post_route (sample_run_env (\<lambda>_. net)) catalog_host sample_conv (\<lambda>_ _. None) None True None ''x'' sample_ai_world =
     (Streaming, w') \<and> map (cm_id \<circ> ca_model) (aw_calls w') = [''b1'']"
proof -
  obtain w1 where w1: "start_run (sample_run_env (\<lambda>_. net)) sample_run (sample_ai_world\<lparr>aw_tick := 5\<rparr>) = (Inr True, w1)"
      "aw_quota w1 = sample_world" "aw_calls w1 = []"
    using sample_run_started by blast
  obtain r w2 where b: "sample_cloud_run net w1 = (r, w2)" by fastforce
  have calls: "map (cm_id \<circ> ca_model) (aw_calls w2) = [''b1'']" using sample_called [OF w1(2,3), of net] b by simp
  have "aw_calls (snd (report_failure (sample_run_env (\<lambda>_. net)) ''r1'' w2)) = aw_calls w2" using no_call_report by (simp add: no_call_def)
  then show ?thesis using w1 b calls
    by (cases r) (simp_all add: handle_ai_runs_post_route_def sample_post_path stream_run_def with_completion_def bindA_def ret_def )
qed

subsection \<open>Properties\<close>





end
