(* ===== verification/S3.thy ===== *)
theory S3
  imports OAuth Calendar TextUtil
begin

text \<open>
  \<open>src/src/storage/S3SigV4.{h,cpp}\<close> and \<open>src/src/storage/S3CompatibleProvider.{h,cpp}\<close>: the signature of
  requests to an S3 store and the provider with its four operations, each a request that is tried up to three times.

  HMAC-SHA256 and SHA-256 of OpenSSL are the record \<open>crypto\<close>; their failure to allocate is not modelled. The
  socket with its TLS stream, the clock and the faults of the file system are the record \<open>s3_env\<close> over the state
  \<open>'p\<close> of the outside. The world holds the local files and records what was sent and received. The pauses
  between attempts are not modelled.
\<close>

subsection \<open>Signatures\<close>

record crypto =
  cr_hmac :: "string \<Rightarrow> string \<Rightarrow> string"
  cr_sha256 :: "string \<Rightarrow> string"

record signing_input =
  si_method :: string
  si_canonical_uri :: string
  si_canonical_query :: string
  si_headers :: "(string, string) amap"
  si_payload_sha256 :: string
  si_region :: string
  si_access_key_id :: string
  si_secret_access_key :: string
  si_amz_date :: string
  si_date :: string

record signing_result =
  sg_authorization :: string
  sg_canonical_request :: string
  sg_string_to_sign :: string
  sg_signed_headers :: string

definition hex_pair :: "char \<Rightarrow> string" where
  "hex_pair c = [''0123456789abcdef'' ! (byte_of c div 16), ''0123456789abcdef'' ! (byte_of c mod 16)]"

definition hex :: "string \<Rightarrow> string" where
  "hex bs = concat (map hex_pair bs)"

definition sha256_hex :: "crypto \<Rightarrow> string \<Rightarrow> string" where
  "sha256_hex cr val = hex (cr_sha256 cr val)"

definition is_blank :: "char \<Rightarrow> bool" where
  "is_blank c \<longleftrightarrow> c \<in> {CHR '' '', CHR 0x09, CHR 0x0D, CHR 0x0A}"

fun collapse_loop :: "string \<Rightarrow> string \<Rightarrow> bool \<Rightarrow> string" where
  "collapse_loop [] out whitespace = out"
| "collapse_loop (c # cs) out whitespace =
     (if is_space c then collapse_loop cs out True
      else collapse_loop cs ((if whitespace \<and> out \<noteq> [] then out @ '' '' else out) @ [c]) False)"

definition trim_and_collapse :: "string \<Rightarrow> string" where
  "trim_and_collapse val =
     collapse_loop (rev (dropWhile is_blank (rev (dropWhile is_blank val)))) [] False"

definition signing_headers :: "(string \<times> string) list \<Rightarrow> (string, string) amap" where
  "signing_headers hs = foldl (\<lambda>m (name, val). amap_put (lowercase_ascii name) (trim_and_collapse val) m) [] hs"

definition canonical_headers :: "(string, string) amap \<Rightarrow> string" where
  "canonical_headers hs = concat (map (\<lambda>(name, val). name @ '':'' @ val @ [newline]) hs)"

definition signed_headers :: "(string, string) amap \<Rightarrow> string" where
  "signed_headers hs = foldl (\<lambda>out (name, _). (if out = [] then [] else out @ '';'') @ name) [] hs"

definition canonical_request :: "signing_input \<Rightarrow> (string, string) amap \<Rightarrow> string" where
  "canonical_request i hs =
     si_method i @ [newline] @ si_canonical_uri i @ [newline] @ si_canonical_query i @ [newline] @
     canonical_headers hs @ [newline] @ signed_headers hs @ [newline] @ si_payload_sha256 i"

definition signing_key :: "crypto \<Rightarrow> signing_input \<Rightarrow> string" where
  "signing_key cr i =
     (let date_key = cr_hmac cr (''AWS4'' @ si_secret_access_key i) (si_date i);
          region_key = cr_hmac cr date_key (si_region i);
          service_key = cr_hmac cr region_key ''s3''
      in cr_hmac cr service_key ''aws4_request'')"

definition sign_s3_request_v4 :: "crypto \<Rightarrow> signing_input \<Rightarrow> signing_result result" where
  "sign_s3_request_v4 cr i =
     (if si_method i = [] \<or> si_canonical_uri i = [] \<or> si_region i = [] \<or> si_access_key_id i = [] \<or>
         si_secret_access_key i = [] \<or> si_amz_date i = [] \<or> length (si_date i) \<noteq> 8 \<or> length (si_payload_sha256 i) \<noteq> 64
      then Inl (InvalidArgument ''incomplete S3 signing input'')
      else
        let hs = signing_headers (si_headers i)
        in if \<not> amap_has hs ''host'' \<or> \<not> amap_has hs ''x-amz-date'' \<or> \<not> amap_has hs ''x-amz-content-sha256''
           then Inl (InvalidArgument ''S3 signing headers are incomplete'')
           else
             let canonical = canonical_request i hs;
                 scope = si_date i @ ''/'' @ si_region i @ ''/s3/aws4_request'';
                 string_to_sign = ''AWS4-HMAC-SHA256'' @ [newline] @ si_amz_date i @ [newline] @ scope @ [newline] @ sha256_hex cr canonical;
                 signature = cr_hmac cr (signing_key cr i) string_to_sign
             in Inr \<lparr>sg_authorization = ''AWS4-HMAC-SHA256 Credential='' @ si_access_key_id i @ ''/'' @ scope @ '', SignedHeaders='' @
                       signed_headers hs @ '', Signature='' @ hex signature,
                     sg_canonical_request = canonical, sg_string_to_sign = string_to_sign, sg_signed_headers = signed_headers hs\<rparr>)"

subsection \<open>Endpoints and paths\<close>

definition kEmptySha256 :: string where
  "kEmptySha256 = ''e3b0c44298fc1c149afbf4c8996fb92427ae41e4649b934ca495991b7852b855''"

record endpoint =
  ep_tls :: bool
  ep_host :: string
  ep_port :: string
  ep_base_path :: string

definition invalid_configuration :: "string \<Rightarrow> exn" where
  "invalid_configuration msg = StorageError ''InvalidConfiguration'' msg"

definition is_localhost :: "string \<Rightarrow> bool" where
  "is_localhost host \<longleftrightarrow> host \<in> {''localhost'', ''127.0.0.1'', ''::1''}"

definition endpoint_scheme :: "string \<Rightarrow> (bool \<times> string \<times> string) result" where
  "endpoint_scheme val =
     (if starts_with val ''https://'' then Inr (True, ''443'', drop 8 val)
      else if starts_with val ''http://'' then Inr (False, ''80'', drop 7 val)
      else Inl (invalid_configuration ''S3 endpoint must use https://''))"

definition split_authority :: "string \<Rightarrow> string \<times> string" where
  "split_authority remainder =
     (case find_char CHR ''/'' remainder of
        None \<Rightarrow> (remainder, [])
      | Some slash \<Rightarrow> (take slash remainder, drop slash remainder))"

definition split_port :: "string \<Rightarrow> string \<Rightarrow> string \<times> string" where
  "split_port authority default_port =
     (case rfind_char CHR '':'' authority of
        None \<Rightarrow> (authority, default_port)
      | Some colon \<Rightarrow> (take colon authority, drop (colon + 1) authority))"

definition parse_endpoint :: "string \<Rightarrow> bool \<Rightarrow> endpoint result" where
  "parse_endpoint val allow_insecure_localhost =
     andthen (endpoint_scheme val) (\<lambda>(tls, default_port, remainder).
       let (authority, path) = split_authority remainder;
           base_path = rev (dropWhile (\<lambda>c. c = CHR ''/'') (rev path));
           (host, port) = split_port authority default_port
       in if host = [] then Inl (invalid_configuration ''S3 endpoint host is empty'')
          else if \<not> tls \<and> \<not> (is_localhost host \<and> allow_insecure_localhost)
          then Inl (invalid_configuration ''unverified HTTP is allowed only for explicit localhost development'')
          else Inr \<lparr>ep_tls = tls, ep_host = host, ep_port = port, ep_base_path = base_path\<rparr>)"

definition uri_encode_char :: "char \<Rightarrow> string" where
  "uri_encode_char c =
     (if is_unreserved c \<or> c = CHR ''/'' then [c]
      else [CHR ''%'', hex_digit (byte_of c div 16), hex_digit (byte_of c mod 16)])"

definition uri_encode_path :: "string \<Rightarrow> string" where
  "uri_encode_path val = concat (map uri_encode_char val)"

text \<open>\<open>gmtime_r\<close> and \<open>put_time\<close> with \<open>%Y%m%d\<close> and \<open>%Y%m%dT%H%M%SZ\<close>.\<close>

definition date_now :: "int \<Rightarrow> string \<times> string" where
  "date_now seconds =
     (let d = date_of_days (seconds div 86400); s = seconds mod 86400;
          date = int_to_string (cd_year d) @ two_digits (int (cd_month d)) @ two_digits (int (cd_day d))
      in (date, date @ ''T'' @ two_digits (s div 3600) @ two_digits (s div 60 mod 60) @ two_digits (s mod 60) @ ''Z''))"

definition map_status :: "nat \<Rightarrow> string \<Rightarrow> unit result" where
  "map_status status operation =
     (if 200 \<le> status \<and> status < 300 then Inr ()
      else if status = 401 then Inl (StorageError ''Authentication'' (''S3 '' @ operation @ '' was denied''))
      else if status = 403 then Inl (StorageError ''Permission'' (''S3 '' @ operation @ '' was denied''))
      else if status = 404 then Inl (StorageError ''Unavailable'' ''S3 object not found'')
      else if status = 429 \<or> 500 \<le> status
      then Inl (StorageError ''Transient'' (''S3 '' @ operation @ '' failed with HTTP '' @ to_string status))
      else Inl (StorageError ''Unavailable'' (''S3 '' @ operation @ '' failed with HTTP '' @ to_string status)))"

subsection \<open>The provider\<close>

record s3_config =
  sc_endpoint :: string
  sc_region :: string
  sc_bucket :: string
  sc_addressing_style :: string
  sc_allow_insecure_localhost :: bool

record s3_credentials =
  sk_access_key_id :: string
  sk_secret_access_key :: string
  sk_session_token :: "string option"

record s3_provider =
  sp_config :: s3_config
  sp_credentials :: s3_credentials

record s3_message =
  rq3_method :: string
  rq3_target :: string
  rq3_headers :: "(string \<times> string) list"
  rq3_upload :: "string option"
  rq3_content_length :: int

record link =
  ln_tls :: bool
  ln_host :: string
  ln_port :: string

datatype s3_event = Sent link s3_message | Received nat string

record 'p s3_world =
  sw_files :: "string \<Rightarrow> string option"
  sw_peer :: 'p
  sw_log :: "s3_event list"

text \<open>
  What can go wrong outside, by its message, and what the store answers; a response that breaks off comes with
  the part of its body that arrived.
\<close>

record 'p s3_env =
  se_crypto :: crypto
  se_clock :: "'p \<Rightarrow> int"
  se_connect :: "link \<Rightarrow> 'p \<Rightarrow> string option \<times> 'p"
  se_send :: "s3_message \<Rightarrow> 'p \<Rightarrow> string option \<times> 'p"
  se_receive :: "bool \<Rightarrow> 'p \<Rightarrow> (string \<times> string + nat \<times> string) \<times> 'p"
  se_upload_error :: "'p \<Rightarrow> string \<Rightarrow> string option"
  se_mkdir_error :: "'p \<Rightarrow> string \<Rightarrow> string option"
  se_download_error :: "'p \<Rightarrow> string \<Rightarrow> string option"
  se_unlink_ok :: "'p \<Rightarrow> string \<Rightarrow> bool"

definition s3_compatible_provider :: "s3_config \<Rightarrow> s3_credentials \<Rightarrow> s3_provider result" where
  "s3_compatible_provider config credentials =
     (if sc_endpoint config = [] \<or> sc_region config = [] \<or> sc_bucket config = [] \<or> sk_access_key_id credentials = [] \<or>
         sk_secret_access_key credentials = []
      then Inl (invalid_configuration ''S3 endpoint, region, bucket and credentials are required'')
      else if sc_addressing_style config \<noteq> ''path'' \<and> sc_addressing_style config \<noteq> ''virtual_host''
      then Inl (invalid_configuration ''S3 addressing_style must be path or virtual_host'')
      else andthen (parse_endpoint (sc_endpoint config) (sc_allow_insecure_localhost config)) (\<lambda>_.
        Inr \<lparr>sp_config = config, sp_credentials = credentials\<rparr>))"

text \<open>The lambda \<open>exchange\<close>. The request goes out before a download file is opened.\<close>

definition s3_send :: "'p s3_env \<Rightarrow> link \<Rightarrow> s3_message \<Rightarrow> 'p s3_world \<Rightarrow> string option \<times> 'p s3_world" where
  "s3_send env l req w =
     (let (e, p) = se_send env req (sw_peer w) in (e, w\<lparr>sw_peer := p, sw_log := sw_log w @ [Sent l req]\<rparr>))"

definition s3_receive :: "'p s3_env \<Rightarrow> bool \<Rightarrow> 'p s3_world \<Rightarrow> (string \<times> string + nat \<times> string) \<times> 'p s3_world" where
  "s3_receive env is_head w =
     (case se_receive env is_head (sw_peer w) of
        (Inl e, p) \<Rightarrow> (Inl e, w\<lparr>sw_peer := p\<rparr>)
      | (Inr (status, body), p) \<Rightarrow> (Inr (status, body), w\<lparr>sw_peer := p, sw_log := sw_log w @ [Received status body]\<rparr>))"

definition read_status_response :: "'p s3_env \<Rightarrow> bool \<Rightarrow> 'p s3_world \<Rightarrow> (string + nat) \<times> 'p s3_world" where
  "read_status_response env is_head w =
     (case s3_receive env is_head w of (Inl (e, _), w') \<Rightarrow> (Inl e, w') | (Inr (status, _), w') \<Rightarrow> (Inr status, w'))"

definition open_upload :: "'p s3_env \<Rightarrow> string \<Rightarrow> 'p s3_world \<Rightarrow> string + string" where
  "open_upload env path w =
     (case (se_upload_error env (sw_peer w) path, sw_files w path) of
        (Some e, _) \<Rightarrow> Inl (''failed to open S3 upload: '' @ e)
      | (None, None) \<Rightarrow> Inl ''failed to open S3 upload: No such file or directory''
      | (None, Some content) \<Rightarrow> Inr content)"

definition unlink :: "'p s3_env \<Rightarrow> string \<Rightarrow> 'p s3_world \<Rightarrow> 'p s3_world" where
  "unlink env path w = (if se_unlink_ok env (sw_peer w) path then w\<lparr>sw_files := (sw_files w)(path := None)\<rparr> else w)"

definition download_to :: "'p s3_env \<Rightarrow> string \<Rightarrow> 'p s3_world \<Rightarrow> (string + nat) \<times> 'p s3_world" where
  "download_to env path w =
     (case se_mkdir_error env (sw_peer w) path of
        Some e \<Rightarrow> (Inl e, w)
      | None \<Rightarrow>
          (case se_download_error env (sw_peer w) path of
             Some e \<Rightarrow> (Inl (''failed to open S3 download: '' @ e), w)
           | None \<Rightarrow>
               (case s3_receive env False (w\<lparr>sw_files := (sw_files w)(path \<mapsto> [])\<rparr>) of
                  (Inl (e, part), w') \<Rightarrow> (Inl e, unlink env path (w'\<lparr>sw_files := (sw_files w')(path \<mapsto> part)\<rparr>))
                | (Inr (status, body), w') \<Rightarrow> (Inr status, w'\<lparr>sw_files := (sw_files w')(path \<mapsto> body)\<rparr>))))"

definition exchange ::
  "'p s3_env \<Rightarrow> link \<Rightarrow> s3_message \<Rightarrow> string option \<Rightarrow> string option \<Rightarrow> 'p s3_world \<Rightarrow> (string + nat) \<times> 'p s3_world" where
  "exchange env l req upload download w =
     (case upload of
        Some path \<Rightarrow>
          (case open_upload env path w of
             Inl e \<Rightarrow> (Inl e, w)
           | Inr content \<Rightarrow>
               (case s3_send env l (req\<lparr>rq3_upload := Some content\<rparr>) w of
                  (Some e, w') \<Rightarrow> (Inl e, w')
                | (None, w') \<Rightarrow> read_status_response env False w'))
      | None \<Rightarrow>
          (case s3_send env l req w of
             (Some e, w') \<Rightarrow> (Inl e, w')
           | (None, w') \<Rightarrow>
               (case download of
                  Some path \<Rightarrow> download_to env path w'
                | None \<Rightarrow> read_status_response env (rq3_method req = ''HEAD'') w')))"

definition attempt_once ::
  "'p s3_env \<Rightarrow> link \<Rightarrow> s3_message \<Rightarrow> string option \<Rightarrow> string option \<Rightarrow> 'p s3_world \<Rightarrow> (string + nat) \<times> 'p s3_world" where
  "attempt_once env l req upload download w =
     (case se_connect env l (sw_peer w) of
        (Some e, p) \<Rightarrow> (Inl e, w\<lparr>sw_peer := p\<rparr>)
      | (None, p) \<Rightarrow> exchange env l req upload download (w\<lparr>sw_peer := p\<rparr>))"

text \<open>The loop over the attempts; the number counts those that are left.\<close>

fun attempt_loop ::
  "nat \<Rightarrow> 'p s3_env \<Rightarrow> link \<Rightarrow> s3_message \<Rightarrow> string option \<Rightarrow> string option \<Rightarrow> 'p s3_world \<Rightarrow> nat result \<times> 'p s3_world" where
  "attempt_loop 0 env l req upload download w = (Inl (StorageError ''Unavailable'' ''S3 request failed''), w)"
| "attempt_loop (Suc left) env l req upload download w =
     (case attempt_once env l req upload download w of
        (Inr status, w') \<Rightarrow>
          if (status = 429 \<or> 500 \<le> status) \<and> 0 < left then attempt_loop left env l req upload download w'
          else (Inr status, w')
      | (Inl e, w') \<Rightarrow>
          if left = 0 then (Inl (StorageError ''Unavailable'' (''S3 endpoint unavailable: '' @ e)), w')
          else attempt_loop left env l req upload download w')"

definition s3_target :: "s3_config \<Rightarrow> endpoint \<Rightarrow> string \<Rightarrow> string" where
  "s3_target config ep object_key =
     (let target = ep_base_path ep @
            (if sc_addressing_style config = ''virtual_host'' then ''/'' @ uri_encode_path object_key
             else ''/'' @ uri_encode_path (sc_bucket config) @ ''/'' @ uri_encode_path object_key)
      in if target = [] \<or> hd target \<noteq> CHR ''/'' then ''/'' @ target else target)"

definition s3_host :: "s3_config \<Rightarrow> endpoint \<Rightarrow> string" where
  "s3_host config ep =
     (if sc_addressing_style config = ''virtual_host'' then sc_bucket config @ ''.'' @ ep_host ep else ep_host ep)"

definition host_header :: "s3_config \<Rightarrow> endpoint \<Rightarrow> string" where
  "host_header config ep =
     s3_host config ep @
     (if ep_tls ep \<and> ep_port ep = ''443'' \<or> \<not> ep_tls ep \<and> ep_port ep = ''80'' then [] else '':'' @ ep_port ep)"

definition session_token :: "s3_credentials \<Rightarrow> (string \<times> string) list" where
  "session_token credentials =
     (case sk_session_token credentials of
        Some token \<Rightarrow> if token = [] then [] else [(''x-amz-security-token'', token)]
      | None \<Rightarrow> [])"

text \<open>What a request sends and over which link, or the reason why it cannot be made.\<close>

definition signed_request ::
  "'p s3_env \<Rightarrow> s3_provider \<Rightarrow> string \<Rightarrow> string \<Rightarrow> int \<Rightarrow> string \<Rightarrow> 'p \<Rightarrow> (link \<times> s3_message) result" where
  "signed_request env p http_method object_key content_length payload_sha256 peer =
     andthen (parse_endpoint (sc_endpoint (sp_config p)) (sc_allow_insecure_localhost (sp_config p))) (\<lambda>ep.
       if object_key = [] \<or> hd object_key = CHR ''/'' then Inl (invalid_configuration ''invalid S3 object key'')
       else
         let config = sp_config p; credentials = sp_credentials p;
             target = s3_target config ep object_key;
             (date, amz_date) = date_now (se_clock env peer);
             headers = amap_of ([(''host'', host_header config ep), (''x-amz-content-sha256'', payload_sha256),
                                 (''x-amz-date'', amz_date)] @ session_token credentials)
         in andthen (sign_s3_request_v4 (se_crypto env)
              \<lparr>si_method = http_method, si_canonical_uri = target, si_canonical_query = [], si_headers = headers,
               si_payload_sha256 = payload_sha256, si_region = sc_region config,
               si_access_key_id = sk_access_key_id credentials, si_secret_access_key = sk_secret_access_key credentials,
               si_amz_date = amz_date, si_date = date\<rparr>) (\<lambda>signing.
            Inr (\<lparr>ln_tls = ep_tls ep, ln_host = s3_host config ep, ln_port = ep_port ep\<rparr>,
                 \<lparr>rq3_method = http_method, rq3_target = target,
                  rq3_headers = [(''Host'', host_header config ep), (''x-amz-content-sha256'', payload_sha256),
                                 (''x-amz-date'', amz_date), (''Authorization'', sg_authorization signing)] @ session_token credentials,
                  rq3_upload = None, rq3_content_length = content_length\<rparr>)))"

definition s3_request ::
  "'p s3_env \<Rightarrow> s3_provider \<Rightarrow> string \<Rightarrow> string \<Rightarrow> string option \<Rightarrow> string option \<Rightarrow> int \<Rightarrow> string \<Rightarrow> 'p s3_world \<Rightarrow>
     nat result \<times> 'p s3_world" where
  "s3_request env p http_method object_key upload download content_length payload_sha256 w =
     (case signed_request env p http_method object_key content_length payload_sha256 (sw_peer w) of
        Inl e \<Rightarrow> (Inl e, w)
      | Inr (l, req) \<Rightarrow> attempt_loop 3 env l req upload download w)"

definition s3_exists :: "'p s3_env \<Rightarrow> s3_provider \<Rightarrow> string \<Rightarrow> 'p s3_world \<Rightarrow> bool result \<times> 'p s3_world" where
  "s3_exists env p object_key w =
     (case s3_request env p ''HEAD'' object_key None None 0 kEmptySha256 w of
        (Inl e, w') \<Rightarrow> (Inl e, w')
      | (Inr status, w') \<Rightarrow>
          if status = 404 then (Inr False, w') else (andthen (map_status status ''HEAD'') (\<lambda>_. Inr True), w'))"

definition s3_put :: "'p s3_env \<Rightarrow> s3_provider \<Rightarrow> string \<Rightarrow> string \<Rightarrow> int \<Rightarrow> string \<Rightarrow> 'p s3_world \<Rightarrow> unit result \<times> 'p s3_world" where
  "s3_put env p object_key staged_file stored_size stored_sha256 w =
     (case s3_request env p ''PUT'' object_key (Some staged_file) None stored_size stored_sha256 w of
        (Inl e, w') \<Rightarrow> (Inl e, w')
      | (Inr status, w') \<Rightarrow>
          (case map_status status ''PUT'' of
             Inl e \<Rightarrow> (Inl e, w')
           | Inr _ \<Rightarrow>
               (case s3_exists env p object_key w' of
                  (Inl e, w'') \<Rightarrow> (Inl e, w'')
                | (Inr visible, w'') \<Rightarrow>
                    (if visible then Inr () else Inl (StorageError ''Integrity'' ''S3 object was not visible after PUT''), w''))))"

definition s3_get :: "'p s3_env \<Rightarrow> s3_provider \<Rightarrow> string \<Rightarrow> string \<Rightarrow> 'p s3_world \<Rightarrow> unit result \<times> 'p s3_world" where
  "s3_get env p object_key destination_file w =
     (case s3_request env p ''GET'' object_key None (Some destination_file) 0 kEmptySha256 w of
        (Inl e, w') \<Rightarrow> (Inl e, w')
      | (Inr status, w') \<Rightarrow>
          (map_status status ''GET'', if status < 200 \<or> 300 \<le> status then unlink env destination_file w' else w'))"

definition s3_remove :: "'p s3_env \<Rightarrow> s3_provider \<Rightarrow> string \<Rightarrow> 'p s3_world \<Rightarrow> unit result \<times> 'p s3_world" where
  "s3_remove env p object_key w =
     (case s3_request env p ''DELETE'' object_key None None 0 kEmptySha256 w of
        (Inl e, w') \<Rightarrow> (Inl e, w')
      | (Inr status, w') \<Rightarrow> (if status = 404 then Inr () else map_status status ''DELETE'', w'))"

subsection \<open>Lemmas: header values and paths\<close>

function words :: "string \<Rightarrow> string list" where
  "words s =
     (let s' = dropWhile is_space s
      in if s' = [] then [] else takeWhile (\<lambda>c. \<not> is_space c) s' # words (dropWhile (\<lambda>c. \<not> is_space c) s'))"
  by pat_completeness auto
termination
proof (relation "measure length")
  fix s s' assume s': "s' = dropWhile is_space s" "s' \<noteq> []"
  then have "\<not> is_space (hd s')" by (simp add: hd_dropWhile)
  then have "length (dropWhile (\<lambda>c. \<not> is_space c) s') < length s'"
    using s'(2) length_dropWhile_le [of "\<lambda>c. \<not> is_space c" "tl s'"] by (cases s') (auto simp: less_Suc_eq_le)
  also have "\<dots> \<le> length s" unfolding s'(1) by (rule length_dropWhile_le)
  finally show "(dropWhile (\<lambda>c. \<not> is_space c) s', s) \<in> measure length" by simp
qed simp

declare words.simps [simp del]

lemma words_Nil [simp]: "words [] = []"
  by (simp add: words.simps)

lemma words_Cons:
  "words (c # cs) = (if is_space c then words cs
     else (c # takeWhile (\<lambda>c. \<not> is_space c) cs) # words (dropWhile (\<lambda>c. \<not> is_space c) cs))"
  by (subst words.simps, subst (2) words.simps) simp

fun join_with :: "string \<Rightarrow> string list \<Rightarrow> string" where
  "join_with sep [] = []"
| "join_with sep (x # xs) = x @ concat (map (\<lambda>y. sep @ y) xs)"

definition normal_value :: "string \<Rightarrow> string" where
  "normal_value s = join_with '' '' (words s)"

lemma space_append [simp]: "(@) '' '' = (#) CHR '' ''"
  by (simp add: fun_eq_iff)

lemma collapse_loop_words:
  "(out \<noteq> [] \<longrightarrow> collapse_loop cs out True = out @ concat (map (\<lambda>y. '' '' @ y) (words cs))) \<and>
   (out \<noteq> [] \<longrightarrow> collapse_loop cs out False = out @ takeWhile (\<lambda>c. \<not> is_space c) cs @
      concat (map (\<lambda>y. '' '' @ y) (words (dropWhile (\<lambda>c. \<not> is_space c) cs))))"
proof (induction cs arbitrary: out)
  case (Cons c cs)
  then show ?case by (cases "is_space c") (simp_all add: words_Cons)
qed simp

lemma collapse_loop_start: "collapse_loop cs [] b = normal_value cs"
proof (induction cs arbitrary: b)
  case (Cons c cs)
  then show ?case using collapse_loop_words [of "[c]" cs] by (simp add: normal_value_def words_Cons)
qed (simp add: normal_value_def)

lemma collapse_loop_trailing: "list_all is_space t \<Longrightarrow> collapse_loop (s @ t) out b = collapse_loop s out b"
proof (induction s arbitrary: out b)
  case Nil
  then show ?case by (induction t arbitrary: b) auto
qed simp

lemma normal_leading: "list_all is_space t \<Longrightarrow> normal_value (t @ s) = normal_value s"
  by (induction t) (simp_all add: normal_value_def words_Cons)

lemma blank_space: "is_blank c \<Longrightarrow> is_space c"
  by (auto simp: is_blank_def is_space_def byte_of_def)

lemma trim_and_collapse_words: "trim_and_collapse s = normal_value s"
proof -
  define t where "t = dropWhile is_blank s"
  define u where "u = rev (dropWhile is_blank (rev t))"
  have "s = takeWhile is_blank s @ t" by (simp add: t_def)
  moreover have "list_all is_space (takeWhile is_blank s)"
    by (auto simp: list_all_iff dest: set_takeWhileD blank_space)
  ultimately have l: "normal_value s = normal_value t" by (metis normal_leading)
  have "rev t = takeWhile is_blank (rev t) @ rev u" by (simp add: u_def)
  then have "t = u @ rev (takeWhile is_blank (rev t))" by (metis rev_append rev_rev_ident)
  moreover have "list_all is_space (rev (takeWhile is_blank (rev t)))"
    by (auto simp: list_all_iff dest: set_takeWhileD blank_space)
  ultimately have "collapse_loop t [] False = collapse_loop u [] False" by (metis collapse_loop_trailing)
  then show ?thesis using l by (simp add: trim_and_collapse_def t_def u_def collapse_loop_start)
qed

lemma normal_value_solid: "list_all (\<lambda>c. \<not> is_space c) s \<Longrightarrow> normal_value s = s"
proof (cases s)
  case (Cons c cs)
  assume s: "list_all (\<lambda>c. \<not> is_space c) s"
  then have cs: "takeWhile (\<lambda>c. \<not> is_space c) cs = cs" "dropWhile (\<lambda>c. \<not> is_space c) cs = []"
    using Cons by (simp_all add: list_all_iff)
  show ?thesis using Cons s by (simp add: normal_value_def words_Cons cs)
qed (simp add: normal_value_def)

lemma percent_decode_uri_char: "percent_decode (uri_encode_char c @ rest) = c # percent_decode rest"
proof (cases "is_unreserved c \<or> c = CHR ''/''")
  case True
  then have "c \<noteq> CHR ''%'' \<and> c \<noteq> CHR ''+''" using is_unreserved_not [of c] by auto
  then show ?thesis using True by (auto simp: uri_encode_char_def percent_decode_plain decode_plus_def)
next
  case False
  have "byte_of c div 16 < 16" using byte_of_less [of c] by simp
  then show ?thesis
    using False hex_digit_props [of "byte_of c div 16"] hex_digit_props [of "byte_of c mod 16"]
    by (simp add: uri_encode_char_def percent_decode_hex) (simp add: byte_of_def)
qed

lemma percent_decode_uri: "percent_decode (uri_encode_path s @ rest) = s @ percent_decode rest"
  by (induction s) (simp_all add: uri_encode_path_def percent_decode_uri_char)

lemma s3_target_decodes:
  assumes "parse_endpoint url allow = Inr ep"
  shows "\<exists>path. s3_target config ep key = ep_base_path ep @ path \<and>
    percent_decode path = (if sc_addressing_style config = ''virtual_host'' then ''/'' @ key else ''/'' @ sc_bucket config @ ''/'' @ key)"
proof -
  have base: "ep_base_path ep = [] \<or> hd (ep_base_path ep) = CHR ''/''"
  proof -
    obtain rest where p: "ep_base_path ep = rev (dropWhile (\<lambda>c. c = CHR ''/'') (rev (snd (split_authority rest))))"
      using assms by (auto simp: parse_endpoint_def andthen_eq_Inr Let_def case_prod_unfold split: if_splits)
    have h: "snd (split_authority rest) = [] \<or> hd (snd (split_authority rest)) = CHR ''/''"
      by (auto simp: split_authority_def find_char_Some_iff hd_drop_conv_nth split: option.splits)
    obtain t where "snd (split_authority rest) = ep_base_path ep @ t" unfolding p by (metis rev_append rev_rev_ident takeWhile_dropWhile_id)
    then show ?thesis using h by (cases "ep_base_path ep") auto
  qed
  have "percent_decode (''/'' @ uri_encode_path key) = ''/'' @ key"
    "percent_decode (''/'' @ uri_encode_path (sc_bucket config) @ ''/'' @ uri_encode_path key) = ''/'' @ sc_bucket config @ ''/'' @ key"
    using percent_decode_uri [of key "[]"] percent_decode_uri [of "sc_bucket config" "''/'' @ uri_encode_path key"]
    by (simp_all add: percent_decode_plain decode_plus_def)
  then show ?thesis using base by (auto simp: s3_target_def Let_def hd_append)
qed

subsection \<open>Lemmas: attempts\<close>

fun sent_of :: "s3_event list \<Rightarrow> (link \<times> s3_message) list" where
  "sent_of [] = []"
| "sent_of (Sent l r # es) = (l, r) # sent_of es"
| "sent_of (Received _ _ # es) = sent_of es"

lemma sent_of_append [simp]: "sent_of (es @ fs) = sent_of es @ sent_of fs"
  by (induction es rule: sent_of.induct) auto

text \<open>At most \<open>n\<close> requests went out, over the given link, and each is the given one up to its uploaded content.\<close>

definition sends :: "nat \<Rightarrow> link \<Rightarrow> s3_message \<Rightarrow> 'p s3_world \<Rightarrow> 'p s3_world \<Rightarrow> bool" where
  "sends n l req w w' \<longleftrightarrow> (\<exists>es. sw_log w' = sw_log w @ es \<and> length (sent_of es) \<le> n \<and>
     (\<forall>(l', r) \<in> set (sent_of es). l' = l \<and> r\<lparr>rq3_upload := rq3_upload req\<rparr> = req))"

lemma sends_refl: "sends n l req w w"
  by (simp add: sends_def)

lemma sends_trans: "sends m l req u v \<Longrightarrow> sends n l req v w \<Longrightarrow> sends (m + n) l req u w"
  unfolding sends_def by (elim exE conjE, rule_tac x = "es @ esa" in exI) auto

lemma sends_mono: "sends m l req u v \<Longrightarrow> m \<le> n \<Longrightarrow> sends n l req u v"
  unfolding sends_def by (meson le_trans)

lemma sends_cong: "sw_log u' = sw_log u \<Longrightarrow> sw_log v' = sw_log v \<Longrightarrow> sends n l req u' v' = sends n l req u v"
  by (simp add: sends_def)

lemma s3_send_cases:
  obtains e p where "s3_send env l req w = (e, w\<lparr>sw_peer := p, sw_log := sw_log w @ [Sent l req]\<rparr>)"
  by (cases "se_send env req (sw_peer w)") (simp add: s3_send_def)

lemma s3_receive_cases:
  obtains (broken) e part p where "s3_receive env h w = (Inl (e, part), w\<lparr>sw_peer := p\<rparr>)"
  | (answered) st body p where "s3_receive env h w = (Inr (st, body), w\<lparr>sw_peer := p, sw_log := sw_log w @ [Received st body]\<rparr>)"
proof (cases "se_receive env h (sw_peer w)")
  case (Pair r p)
  then show thesis by (cases r) (auto simp: s3_receive_def intro: that)
qed

lemma unlink_log [simp]: "sw_log (unlink env path w) = sw_log w"
  by (simp add: unlink_def)

lemma unlink_other [simp]: "q \<noteq> path \<Longrightarrow> sw_files (unlink env path w) q = sw_files w q"
  by (simp add: unlink_def)

text \<open>One attempt: what it sends, what it answers with and which file it touches.\<close>

lemma download_to_cases:
  obtains (failed) e w' where "download_to env path w = (Inl e, w')" "sw_log w' = sw_log w"
      "\<And>q. q \<noteq> path \<Longrightarrow> sw_files w' q = sw_files w q"
      "(\<forall>p. se_unlink_ok env p path) \<Longrightarrow> sw_files w' path \<in> {sw_files w path, None}"
  | (loaded) st body w' where "download_to env path w = (Inr st, w')" "sw_log w' = sw_log w @ [Received st body]"
      "sw_files w' = (sw_files w)(path \<mapsto> body)"
proof (cases "se_mkdir_error env (sw_peer w) path")
  case None
  note mk = None
  show thesis
  proof (cases "se_download_error env (sw_peer w) path")
    case None
    show thesis
    proof (cases rule: s3_receive_cases [of env False "w\<lparr>sw_files := (sw_files w)(path \<mapsto> [])\<rparr>"])
      case (broken e part p)
      then show thesis using mk None
        by (intro failed [of e "unlink env path (w\<lparr>sw_peer := p, sw_files := (sw_files w)(path \<mapsto> part)\<rparr>)"])
          (auto simp: download_to_def unlink_def)
    next
      case (answered st body p)
      then show thesis using mk None by (intro loaded) (auto simp: download_to_def)
    qed
  qed (use mk in \<open>auto simp: download_to_def intro: failed\<close>)
qed (auto simp: download_to_def intro: failed)

text \<open>An answer that is returned was received for the request that was sent last.\<close>

definition answered :: "link \<Rightarrow> s3_message \<Rightarrow> string option \<Rightarrow> string option \<Rightarrow> nat \<Rightarrow> 'p s3_world \<Rightarrow> 'p s3_world \<Rightarrow> bool" where
  "answered l req upload download st w w' \<longleftrightarrow>
     (\<exists>es content body. sw_log w' = sw_log w @ es @ [Sent l (req\<lparr>rq3_upload := content\<rparr>), Received st body] \<and>
        (case upload of None \<Rightarrow> content = rq3_upload req | Some path \<Rightarrow> content = sw_files w path \<and> content \<noteq> None) \<and>
        (case download of None \<Rightarrow> sw_files w' = sw_files w
         | Some path \<Rightarrow> sw_files w' = (sw_files w)(path \<mapsto> body)))"

text \<open>
  Files outside the destination of a download are never touched; the destination is as before, removed, or holds
  what the store sent with a status that is tried again.
\<close>

definition left_over :: "'p s3_env \<Rightarrow> string option \<Rightarrow> 'p s3_world \<Rightarrow> 'p s3_world \<Rightarrow> bool" where
  "left_over env download w w' \<longleftrightarrow>
     (\<forall>q. Some q \<noteq> download \<longrightarrow> sw_files w' q = sw_files w q) \<and>
     (\<exists>es. sw_log w' = sw_log w @ es \<and>
        (\<forall>d. download = Some d \<and> (\<forall>p. se_unlink_ok env p d) \<longrightarrow> sw_files w' d \<in> {sw_files w d, None} \<or>
           (\<exists>st body. Received st body \<in> set es \<and> (st = 429 \<or> 500 \<le> st) \<and> sw_files w' d = Some body)))"

lemma left_over_refl: "sw_files w' = sw_files w \<Longrightarrow> sw_log w' = sw_log w @ es \<Longrightarrow> left_over env download w w'"
  by (simp add: left_over_def)

lemma left_over_trans:
  assumes uv: "left_over env download u v" and vw: "left_over env download v w"
  shows "left_over env download u w"
proof -
  obtain es where es: "sw_log v = sw_log u @ es" "\<And>d. download = Some d \<Longrightarrow> (\<forall>p. se_unlink_ok env p d) \<Longrightarrow>
      sw_files v d \<in> {sw_files u d, None} \<or> (\<exists>st body. Received st body \<in> set es \<and> (st = 429 \<or> 500 \<le> st) \<and> sw_files v d = Some body)"
    using uv unfolding left_over_def by blast
  obtain fs where fs: "sw_log w = sw_log v @ fs" "\<And>d. download = Some d \<Longrightarrow> (\<forall>p. se_unlink_ok env p d) \<Longrightarrow>
      sw_files w d \<in> {sw_files v d, None} \<or> (\<exists>st body. Received st body \<in> set fs \<and> (st = 429 \<or> 500 \<le> st) \<and> sw_files w d = Some body)"
    using vw unfolding left_over_def by blast
  have "sw_files w d \<in> {sw_files u d, None} \<or>
      (\<exists>st body. Received st body \<in> set (es @ fs) \<and> (st = 429 \<or> 500 \<le> st) \<and> sw_files w d = Some body)"
    if "download = Some d" "\<forall>p. se_unlink_ok env p d" for d
    using es(2) [OF that] fs(2) [OF that] by auto
  then show ?thesis using es(1) fs(1) uv vw unfolding left_over_def by (intro conjI exI [of _ "es @ fs"]) auto
qed

lemma answered_left_over: "answered l req upload download st w w' \<Longrightarrow> st = 429 \<or> 500 \<le> st \<Longrightarrow> left_over env download w w'"
  unfolding answered_def left_over_def by (fastforce split: option.splits)

lemma left_over_answered:
  assumes "left_over env download u v" and "answered l req upload download st v w" and "upload = None \<or> download = None"
  shows "answered l req upload download st u w"
proof -
  obtain fs where fs: "sw_log v = sw_log u @ fs" using assms(1) unfolding left_over_def by blast
  obtain es content body where es: "sw_log w = sw_log v @ es @ [Sent l (req\<lparr>rq3_upload := content\<rparr>), Received st body]"
      "case upload of None \<Rightarrow> content = rq3_upload req | Some path \<Rightarrow> content = sw_files v path \<and> content \<noteq> None"
      "case download of None \<Rightarrow> sw_files w = sw_files v | Some path \<Rightarrow> sw_files w = (sw_files v)(path \<mapsto> body)"
    using assms(2) unfolding answered_def by blast
  have same: "\<And>q. Some q \<noteq> download \<Longrightarrow> sw_files v q = sw_files u q" using assms(1) unfolding left_over_def by blast
  show ?thesis unfolding answered_def using fs es same assms(3)
    by (intro exI [of _ "fs @ es"] exI [of _ content] exI [of _ body]) (auto simp: fun_eq_iff split: option.splits)
qed

text \<open>One attempt.\<close>

definition tried :: "'p s3_env \<Rightarrow> link \<Rightarrow> s3_message \<Rightarrow> string option \<Rightarrow> string option \<Rightarrow> 'p s3_world \<Rightarrow> (string + nat) \<times> 'p s3_world \<Rightarrow> bool" where
  "tried env l req upload download w rw \<longleftrightarrow> sends 1 l req w (snd rw) \<and>
     (case fst rw of Inl _ \<Rightarrow> left_over env download w (snd rw) | Inr st \<Rightarrow> answered l req upload download st w (snd rw))"

lemma exchange_tried:
  assumes "upload = None \<or> download = None"
  shows "tried env l req upload download w (exchange env l req upload download w)"
proof (cases upload)
  case None
  obtain e p where s: "s3_send env l req w = (e, w\<lparr>sw_peer := p, sw_log := sw_log w @ [Sent l req]\<rparr>)" by (rule s3_send_cases)
  let ?w = "w\<lparr>sw_peer := p, sw_log := sw_log w @ [Sent l req]\<rparr>"
  have id: "req\<lparr>rq3_upload := rq3_upload req\<rparr> = req" by simp
  show ?thesis
  proof (cases e)
    case (Some msg)
    then show ?thesis using s \<open>upload = None\<close> by (auto simp: exchange_def tried_def sends_def left_over_def)
  next
    case None
    note sent = s [unfolded None]
    show ?thesis
    proof (cases download)
      case None
      then show ?thesis using sent \<open>upload = None\<close>
        by (cases rule: s3_receive_cases [of env "rq3_method req = ''HEAD''" ?w])
          (auto simp: exchange_def read_status_response_def tried_def sends_def left_over_def answered_def intro: exI [of _ "rq3_upload req"])
    next
      case (Some path)
      show ?thesis
      proof (cases rule: download_to_cases [of env path ?w])
        case (failed e w')
        then show ?thesis using sent Some \<open>upload = None\<close>
          by (simp add: exchange_def tried_def sends_def left_over_def)
      next
        case (loaded st body w')
        then show ?thesis using sent Some \<open>upload = None\<close>
          by (auto simp: exchange_def tried_def sends_def answered_def intro: exI [of _ "rq3_upload req"])
      qed
    qed
  qed
next
  case (Some path)
  show ?thesis
  proof (cases "open_upload env path w")
    case (Inl e)
    then show ?thesis using Some by (simp add: exchange_def tried_def sends_refl left_over_def)
  next
    case (Inr content)
    let ?r = "req\<lparr>rq3_upload := Some content\<rparr>"
    have content: "sw_files w path = Some content" using Inr by (auto simp: open_upload_def split: option.splits)
    obtain e p where "s3_send env l ?r w = (e, w\<lparr>sw_peer := p, sw_log := sw_log w @ [Sent l ?r]\<rparr>)" by (rule s3_send_cases)
    then show ?thesis using Some Inr content assms
      by (cases rule: s3_receive_cases [of env False "w\<lparr>sw_peer := p, sw_log := sw_log w @ [Sent l ?r]\<rparr>"])
        (auto simp: exchange_def read_status_response_def tried_def sends_def left_over_def answered_def split: option.split)
  qed
qed

lemma attempt_once_tried:
  assumes "upload = None \<or> download = None"
  shows "tried env l req upload download w (attempt_once env l req upload download w)"
proof -
  have peer: "tried env l req upload download (w\<lparr>sw_peer := p\<rparr>) rw = tried env l req upload download w rw" for p rw
    by (cases "fst rw") (simp_all add: tried_def sends_def left_over_def answered_def cong: option.case_cong)
  obtain e p where "se_connect env l (sw_peer w) = (e, p)" by fastforce
  then show ?thesis
    using exchange_tried [OF assms, of env l req "w\<lparr>sw_peer := p\<rparr>"]
    by (cases e) (auto simp: attempt_once_def peer, simp add: tried_def sends_refl sends_def left_over_def)
qed

definition looped :: "nat \<Rightarrow> 'p s3_env \<Rightarrow> link \<Rightarrow> s3_message \<Rightarrow> string option \<Rightarrow> string option \<Rightarrow> 'p s3_world \<Rightarrow> nat result \<times> 'p s3_world \<Rightarrow> bool" where
  "looped n env l req upload download w rw \<longleftrightarrow> sends n l req w (snd rw) \<and>
     (case fst rw of Inl _ \<Rightarrow> left_over env download w (snd rw) | Inr st \<Rightarrow> answered l req upload download st w (snd rw))"

lemma looped_after:
  assumes "sends 1 l req u v" and "left_over env download u v" and "looped n env l req upload download v rw"
    and "upload = None \<or> download = None"
  shows "looped (Suc n) env l req upload download u rw"
  using assms sends_trans [OF assms(1)] left_over_trans [OF assms(2)] left_over_answered [OF assms(2) _ assms(4)]
  by (fastforce simp: looped_def split: sum.splits)

lemma attempt_loop_looped:
  assumes "upload = None \<or> download = None"
  shows "looped n env l req upload download w (attempt_loop n env l req upload download w)"
proof (induction n arbitrary: w)
  case 0
  show ?case by (simp add: looped_def sends_refl left_over_refl)
next
  case (Suc n)
  obtain r w' where a: "attempt_once env l req upload download w = (r, w')" by fastforce
  have t: "tried env l req upload download w (r, w')" using attempt_once_tried [OF assms] a by metis
  then have s: "sends 1 l req w w'" by (simp add: tried_def)
  show ?case
  proof (cases r)
    case (Inl e)
    then have "left_over env download w w'" using t by (simp add: tried_def)
    then show ?thesis using looped_after [OF s _ Suc.IH assms] a Inl sends_mono [OF s]
      by (cases "n = 0") (simp_all add: looped_def)
  next
    case (Inr st)
    then have ans: "answered l req upload download st w w'" using t by (simp add: tried_def)
    show ?thesis
    proof (cases "(st = 429 \<or> 500 \<le> st) \<and> 0 < n")
      case True
      then show ?thesis using looped_after [OF s answered_left_over [OF ans] Suc.IH assms] a Inr by simp
    next
      case False
      then have "attempt_loop (Suc n) env l req upload download w = (Inr st, w')" using a Inr by auto
      then show ?thesis using ans sends_mono [OF s, of "Suc n"] by (simp add: looped_def)
    qed
  qed
qed

subsection \<open>Lemmas: the requests verify\<close>

text \<open>
  How a store checks a request: it rebuilds the canonical request from what it received, with the header values reduced to
  their words and the headers sorted by their lower-case names, and compares the signature.
\<close>

definition received_headers :: "s3_message \<Rightarrow> (string \<times> string) list" where
  "received_headers req =
     sort_key fst (map (\<lambda>(n, v). (lowercase_ascii n, normal_value v))
       (filter (\<lambda>(n, v). lowercase_ascii n \<noteq> ''authorization'') (rq3_headers req)))"

definition header_value :: "s3_message \<Rightarrow> string \<Rightarrow> string" where
  "header_value req n = (case map_of (received_headers req) n of None \<Rightarrow> [] | Some v \<Rightarrow> v)"

definition expected_authorization :: "crypto \<Rightarrow> string \<Rightarrow> string \<Rightarrow> string \<Rightarrow> s3_message \<Rightarrow> string" where
  "expected_authorization cr access_key secret region req =
     (let hs = received_headers req;
          names = join_with '';'' (map fst hs);
          stamp = header_value req ''x-amz-date'';
          date = take 8 stamp;
          scope = join_with ''/'' [date, region, ''s3'', ''aws4_request''];
          canonical = join_with [newline] ([rq3_method req, rq3_target req, []] @ map (\<lambda>(n, v). n @ '':'' @ v) hs @
            [[], names, header_value req ''x-amz-content-sha256'']);
          to_sign = join_with [newline] [''AWS4-HMAC-SHA256'', stamp, scope, hex (cr_sha256 cr canonical)];
          key = foldl (cr_hmac cr) (''AWS4'' @ secret) [date, region, ''s3'', ''aws4_request'']
      in ''AWS4-HMAC-SHA256 Credential='' @ access_key @ ''/'' @ scope @ '', SignedHeaders='' @ names @ '', Signature='' @
         hex (cr_hmac cr key to_sign))"

definition verifies :: "crypto \<Rightarrow> string \<Rightarrow> string \<Rightarrow> string \<Rightarrow> s3_message \<Rightarrow> bool" where
  "verifies cr access_key secret region req \<longleftrightarrow>
     map_of (rq3_headers req) ''Authorization'' = Some (expected_authorization cr access_key secret region req)"

lemma header_order:
  "(''host'' :: string) < ''x-amz-content-sha256''" "(''host'' :: string) < ''x-amz-date''" "(''host'' :: string) < ''x-amz-security-token''"
  "(''x-amz-content-sha256'' :: string) < ''x-amz-date''" "(''x-amz-content-sha256'' :: string) < ''x-amz-security-token''"
  "(''x-amz-date'' :: string) < ''x-amz-security-token''"
  by code_simp+

lemma lower_names [simp]:
  "lowercase_ascii ''Host'' = ''host''" "lowercase_ascii ''host'' = ''host''" "lowercase_ascii ''Authorization'' = ''authorization''"
  "lowercase_ascii ''x-amz-content-sha256'' = ''x-amz-content-sha256''" "lowercase_ascii ''x-amz-date'' = ''x-amz-date''"
  "lowercase_ascii ''x-amz-security-token'' = ''x-amz-security-token''"
  by code_simp+

lemma session_token_cases: "session_token c = [] \<or> (\<exists>t. session_token c = [(''x-amz-security-token'', t)])"
  by (simp add: session_token_def split: option.split)

text \<open>The headers that are signed are those the store sees.\<close>

lemma headers_agree:
  assumes "rq3_headers req = [(''Host'', h), (''x-amz-content-sha256'', s), (''x-amz-date'', d), (''Authorization'', a)] @ session_token c"
  shows "signing_headers (amap_of ([(''host'', h), (''x-amz-content-sha256'', s), (''x-amz-date'', d)] @ session_token c)) =
    received_headers req"
  using session_token_cases [of c] assms
  by (auto simp: signing_headers_def received_headers_def amap_of_def trim_and_collapse_words sort_key_def
      header_order header_order [THEN less_imp_le] header_order [THEN less_not_sym] not_less not_le)

lemma received_headers_list:
  assumes "rq3_headers req = [(''Host'', h), (''x-amz-content-sha256'', s), (''x-amz-date'', d), (''Authorization'', a)] @ session_token c"
  shows "received_headers req = [(''host'', normal_value h), (''x-amz-content-sha256'', normal_value s), (''x-amz-date'', normal_value d)] @
    map (\<lambda>(n, v). (n, normal_value v)) (session_token c)"
  using session_token_cases [of c] assms
  by (auto simp: received_headers_def sort_key_def header_order header_order [THEN less_imp_le] header_order [THEN less_not_sym] not_less not_le)

lemma append_single: "(@) [c] = (#) c"
  by (simp add: fun_eq_iff)

lemma signed_headers_join:
  assumes "list_all (\<lambda>(n, v). n \<noteq> []) hs"
  shows "signed_headers hs = join_with '';'' (map fst hs)"
proof -
  have "out \<noteq> [] \<Longrightarrow> foldl (\<lambda>out (n, _). (if out = [] then [] else out @ '';'') @ n) out hs = out @ concat (map ((#) CHR '';'') (map fst hs))"
    for out :: string and hs :: "(string \<times> string) list"
    by (induction hs arbitrary: out) auto
  then show ?thesis using assms by (cases hs) (auto simp: signed_headers_def append_single)
qed

lemma lines_shift: "concat (map ((#) newline) xs) @ [newline] = newline # concat (map (\<lambda>y. y @ [newline]) xs)"
  by (induction xs) auto

lemma canonical_request_join:
  assumes "list_all (\<lambda>(n, v). n \<noteq> []) hs" and "si_canonical_query i = []"
  shows "canonical_request i hs = join_with [newline] ([si_method i, si_canonical_uri i, []] @ map (\<lambda>(n, v). n @ '':'' @ v) hs @
    [[], join_with '';'' (map fst hs), si_payload_sha256 i])"
proof -
  have "canonical_headers hs = concat (map (\<lambda>y. y @ [newline]) (map (\<lambda>(n, v). n @ '':'' @ v) hs))"
    by (simp add: canonical_headers_def comp_def case_prod_unfold)
  then show ?thesis using assms lines_shift [of "map (\<lambda>(n, v). n @ '':'' @ v) hs"]
    by (simp add: canonical_request_def signed_headers_join append_single)
qed

lemma int_to_string_solid: "list_all (\<lambda>c. \<not> is_space c) (int_to_string i)"
  using to_string_digits [of "nat i"] to_string_digits [of "nat (- i)"]
  by (auto simp: int_to_string_def list_all_iff is_digit_def is_space_def byte_of_def)

lemma two_digits_solid: "list_all (\<lambda>c. \<not> is_space c) (two_digits n)"
  using int_to_string_solid [of n] by (auto simp: two_digits_def Let_def list_all_iff is_space_def byte_of_def)

lemma date_now_date: "length (fst (date_now t)) = 8 \<Longrightarrow> take 8 (snd (date_now t)) = fst (date_now t)"
  by (auto simp: date_now_def Let_def)

lemma date_now_solid: "list_all (\<lambda>c. \<not> is_space c) (snd (date_now t))"
  using int_to_string_solid two_digits_solid by (simp add: date_now_def Let_def is_space_def byte_of_def)

lemma sign_input:
  assumes "sign_s3_request_v4 cr i = Inr g"
  shows "length (si_date i) = 8 \<and> sg_authorization g =
    (let hs = signing_headers (si_headers i); scope = si_date i @ ''/'' @ si_region i @ ''/s3/aws4_request''
     in ''AWS4-HMAC-SHA256 Credential='' @ si_access_key_id i @ ''/'' @ scope @ '', SignedHeaders='' @ signed_headers hs @ '', Signature='' @
        hex (cr_hmac cr (signing_key cr i) (''AWS4-HMAC-SHA256'' @ [newline] @ si_amz_date i @ [newline] @ scope @ [newline] @
          sha256_hex cr (canonical_request i hs))))"
  using assms by (auto simp: sign_s3_request_v4_def Let_def split: if_splits)

lemma signed_request_verifies:
  assumes r: "signed_request env p m key len hash peer = Inr (l, req)" and hash: "list_all (\<lambda>c. \<not> is_space c) hash"
  shows "verifies (se_crypto env) (sk_access_key_id (sp_credentials p)) (sk_secret_access_key (sp_credentials p))
    (sc_region (sp_config p)) (req\<lparr>rq3_upload := content\<rparr>)"
proof -
  define c where "c = sp_credentials p"
  define date where "date = fst (date_now (se_clock env peer))"
  define stamp where "stamp = snd (date_now (se_clock env peer))"
  obtain ep g where ep: "parse_endpoint (sc_endpoint (sp_config p)) (sc_allow_insecure_localhost (sp_config p)) = Inr ep"
    and g: "sign_s3_request_v4 (se_crypto env) \<lparr>si_method = m, si_canonical_uri = s3_target (sp_config p) ep key, si_canonical_query = [],
        si_headers = amap_of ([(''host'', host_header (sp_config p) ep), (''x-amz-content-sha256'', hash), (''x-amz-date'', stamp)] @ session_token c),
        si_payload_sha256 = hash, si_region = sc_region (sp_config p), si_access_key_id = sk_access_key_id c,
        si_secret_access_key = sk_secret_access_key c, si_amz_date = stamp, si_date = date\<rparr> = Inr g"
    and req: "req = \<lparr>rq3_method = m, rq3_target = s3_target (sp_config p) ep key,
        rq3_headers = [(''Host'', host_header (sp_config p) ep), (''x-amz-content-sha256'', hash), (''x-amz-date'', stamp),
          (''Authorization'', sg_authorization g)] @ session_token c,
        rq3_upload = None, rq3_content_length = len\<rparr>"
    using r by (auto simp: signed_request_def andthen_eq_Inr Let_def case_prod_unfold c_def date_def stamp_def split: if_splits)
  let ?r = "req\<lparr>rq3_upload := content\<rparr>"
  have hs: "rq3_headers ?r = [(''Host'', host_header (sp_config p) ep), (''x-amz-content-sha256'', hash), (''x-amz-date'', stamp),
      (''Authorization'', sg_authorization g)] @ session_token c" by (simp add: req)
  note agree = headers_agree [OF hs] and explicit = received_headers_list [OF hs]
  have solid: "normal_value stamp = stamp" "normal_value hash = hash"
    using date_now_solid normal_value_solid hash by (simp_all add: stamp_def)
  have vals: "header_value ?r ''x-amz-date'' = stamp" "header_value ?r ''x-amz-content-sha256'' = hash"
    by (simp_all add: header_value_def explicit solid)
  have names: "list_all (\<lambda>(n, v). n \<noteq> []) (received_headers ?r)"
    using session_token_cases [of c] by (auto simp: explicit)
  have "take 8 stamp = date" using sign_input [OF g] date_now_date by (simp add: date_def stamp_def)
  then show ?thesis
    using sign_input [OF g] names agree vals
    by (simp add: verifies_def hs expected_authorization_def Let_def signed_headers_join canonical_request_join signing_key_def sha256_hex_def
        c_def [symmetric] req append_single)
qed

subsection \<open>Lemmas: the operations\<close>

lemma s3_request_looped:
  assumes "upload = None \<or> download = None"
  obtains (refused) e where "signed_request env p m key len hash (sw_peer w) = Inl e" "s3_request env p m key upload download len hash w = (Inl e, w)"
  | (made) l req rw where "signed_request env p m key len hash (sw_peer w) = Inr (l, req)"
      "s3_request env p m key upload download len hash w = rw" "looped 3 env l req upload download w rw"
proof (cases "signed_request env p m key len hash (sw_peer w)")
  case (Inl e)
  then show thesis by (simp add: s3_request_def refused)
next
  case (Inr lr)
  then show thesis
    using attempt_loop_looped [OF assms, of 3 env "fst lr" "snd lr" w]
    by (intro made [of "fst lr" "snd lr"]) (auto simp: s3_request_def case_prod_unfold)
qed

text \<open>The link of a request is the one of the endpoint.\<close>

definition link_allowed :: "s3_config \<Rightarrow> link \<Rightarrow> bool" where
  "link_allowed config l \<longleftrightarrow> ln_tls l \<or>
     (sc_allow_insecure_localhost config \<and>
       (\<exists>h. is_localhost h \<and> (ln_host l = h \<or> sc_addressing_style config = ''virtual_host'' \<and> ln_host l = sc_bucket config @ ''.'' @ h)))"

lemma parse_endpoint_allowed:
  "parse_endpoint url allow = Inr ep \<Longrightarrow> ep_tls ep \<or> allow \<and> is_localhost (ep_host ep)"
  by (auto simp: parse_endpoint_def andthen_eq_Inr Let_def case_prod_unfold split: if_splits)

lemma signed_request_parts:
  assumes "signed_request env p m key len hash peer = Inr (l, req)"
  shows "rq3_method req = m \<and> link_allowed (sp_config p) l \<and> rq3_upload req = None \<and>
    (\<exists>ep. parse_endpoint (sc_endpoint (sp_config p)) (sc_allow_insecure_localhost (sp_config p)) = Inr ep \<and>
       rq3_target req = s3_target (sp_config p) ep key)"
  using assms parse_endpoint_allowed
  by (fastforce simp: signed_request_def andthen_eq_Inr Let_def case_prod_unfold link_allowed_def s3_host_def split: if_splits)

text \<open>All that a request of the provider sends.\<close>

definition genuine :: "'p s3_env \<Rightarrow> s3_provider \<Rightarrow> string \<Rightarrow> link \<times> s3_message \<Rightarrow> bool" where
  "genuine env p key lr \<longleftrightarrow> link_allowed (sp_config p) (fst lr) \<and>
     verifies (se_crypto env) (sk_access_key_id (sp_credentials p)) (sk_secret_access_key (sp_credentials p)) (sc_region (sp_config p)) (snd lr) \<and>
     (\<exists>ep. parse_endpoint (sc_endpoint (sp_config p)) (sc_allow_insecure_localhost (sp_config p)) = Inr ep \<and>
        rq3_target (snd lr) = s3_target (sp_config p) ep key)"

definition sends_genuine :: "nat \<Rightarrow> 'p s3_env \<Rightarrow> s3_provider \<Rightarrow> string \<Rightarrow> 'p s3_world \<Rightarrow> 'p s3_world \<Rightarrow> bool" where
  "sends_genuine n env p key w w' \<longleftrightarrow>
     (\<exists>es. sw_log w' = sw_log w @ es \<and> length (sent_of es) \<le> n \<and> (\<forall>lr \<in> set (sent_of es). genuine env p key lr))"

lemma sends_genuine_trans:
  "sends_genuine m env p key u v \<Longrightarrow> sends_genuine n env p key v w \<Longrightarrow> sends_genuine (m + n) env p key u w"
  unfolding sends_genuine_def by (elim exE conjE, rule_tac x = "es @ esa" in exI) auto

lemma sends_genuine_mono: "sends_genuine m env p key u v \<Longrightarrow> m \<le> n \<Longrightarrow> sends_genuine n env p key u v"
  unfolding sends_genuine_def by (meson le_trans)

lemma s3_request_genuine:
  assumes "upload = None \<or> download = None" and "list_all (\<lambda>c. \<not> is_space c) hash"
  shows "sends_genuine 3 env p key w (snd (s3_request env p m key upload download len hash w))"
  using assms(1)
proof (cases rule: s3_request_looped [where env = env and p = p and m = m and key = key and len = len and hash = hash and w = w])
  case (refused e)
  then show ?thesis by (simp add: sends_genuine_def)
next
  case (made l req rw)
  have g: "genuine env p key (l, req\<lparr>rq3_upload := u\<rparr>)" for u
    using signed_request_verifies [OF made(1) assms(2), of u] signed_request_parts [OF made(1)] by (simp add: genuine_def)
  have all: "genuine env p key (l, r)" if "r\<lparr>rq3_upload := rq3_upload req\<rparr> = req" for r
  proof -
    have "req\<lparr>rq3_upload := rq3_upload r\<rparr> = r" by (subst that [symmetric]) simp
    then show ?thesis using g [of "rq3_upload r"] by simp
  qed
  have "sends 3 l req w (snd rw)" using made(3) by (simp add: looped_def)
  then obtain es where es: "sw_log (snd rw) = sw_log w @ es" "length (sent_of es) \<le> 3"
      "\<forall>(l', r) \<in> set (sent_of es). l' = l \<and> r\<lparr>rq3_upload := rq3_upload req\<rparr> = req"
    unfolding sends_def by blast
  have "genuine env p key lr" if "lr \<in> set (sent_of es)" for lr using es(3) that all by (cases lr) fastforce
  then show ?thesis using es(1,2) unfolding made(2) sends_genuine_def by blast
qed

lemma kEmptySha256_solid: "list_all (\<lambda>c. \<not> is_space c) kEmptySha256"
  by code_simp

text \<open>The outcome of a request without an exception.\<close>

lemma s3_request_answered:
  assumes "upload = None \<or> download = None" and "s3_request env p m key upload download len hash w = (Inr st, w')"
  shows "\<exists>l req. signed_request env p m key len hash (sw_peer w) = Inr (l, req) \<and> answered l req upload download st w w'"
  using assms(1)
proof (cases rule: s3_request_looped [where env = env and p = p and m = m and key = key and len = len and hash = hash and w = w])
  case (refused e)
  then show ?thesis using assms(2) by simp
next
  case (made l req rw)
  then show ?thesis using assms(2) by (auto simp: looped_def)
qed

lemma s3_request_left_over:
  assumes "upload = None \<or> download = None" and "s3_request env p m key upload download len hash w = (Inl e, w')"
  shows "left_over env download w w'"
  using assms(1)
proof (cases rule: s3_request_looped [where env = env and p = p and m = m and key = key and len = len and hash = hash and w = w])
  case (refused e)
  then show ?thesis using assms(2) by (simp add: left_over_def)
next
  case (made l req rw)
  then show ?thesis using assms(2) by (auto simp: looped_def)
qed

datatype s3_call = PutFile string int string | GetFile string | Exists | Remove

definition s3_after :: "'p s3_env \<Rightarrow> s3_provider \<Rightarrow> string \<Rightarrow> s3_call \<Rightarrow> 'p s3_world \<Rightarrow> 'p s3_world" where
  "s3_after env p key call w =
     (case call of
        PutFile path len sha \<Rightarrow> snd (s3_put env p key path len sha w)
      | GetFile path \<Rightarrow> snd (s3_get env p key path w)
      | Exists \<Rightarrow> snd (s3_exists env p key w)
      | Remove \<Rightarrow> snd (s3_remove env p key w))"

lemma s3_exists_genuine: "sends_genuine 3 env p key w (snd (s3_exists env p key w))"
  using s3_request_genuine [of None None kEmptySha256 env p key w "''HEAD''" 0] kEmptySha256_solid
  by (auto simp: s3_exists_def split: prod.splits sum.splits)

lemma s3_after_genuine:
  assumes "case call of PutFile _ _ sha \<Rightarrow> list_all (\<lambda>c. \<not> is_space c) sha | _ \<Rightarrow> True"
  shows "sends_genuine 6 env p key w (s3_after env p key call w)"
proof (cases call)
  case (PutFile path len sha)
  obtain r w' where r: "s3_request env p ''PUT'' key (Some path) None len sha w = (r, w')" by fastforce
  have put: "sends_genuine 3 env p key w w'"
    using s3_request_genuine [of "Some path" None sha env p key w "''PUT''" len] assms PutFile r by simp
  have "snd (s3_put env p key path len sha w) \<in> {w', snd (s3_exists env p key w')}"
    using r by (auto simp: s3_put_def split: sum.splits prod.splits)
  then show ?thesis
    using PutFile sends_genuine_mono [OF put] sends_genuine_trans [OF put s3_exists_genuine] by (auto simp: s3_after_def)
next
  case (GetFile path)
  have "sw_log (snd (s3_get env p key path w)) = sw_log (snd (s3_request env p ''GET'' key None (Some path) 0 kEmptySha256 w))"
    by (auto simp: s3_get_def split: prod.splits sum.splits)
  then show ?thesis
    using GetFile sends_genuine_mono [OF s3_request_genuine [of None "Some path" kEmptySha256 env p key w "''GET''" 0]] kEmptySha256_solid
    by (simp add: s3_after_def sends_genuine_def)
next
  case Exists
  then show ?thesis using sends_genuine_mono [OF s3_exists_genuine, of 6 env p key w] by (simp add: s3_after_def)
next
  case Remove
  have "snd (s3_remove env p key w) = snd (s3_request env p ''DELETE'' key None None 0 kEmptySha256 w)"
    by (auto simp: s3_remove_def split: prod.splits sum.splits)
  then show ?thesis
    using Remove sends_genuine_mono [OF s3_request_genuine [of None None kEmptySha256 env p key w "''DELETE''" 0]] kEmptySha256_solid
    by (simp add: s3_after_def)
qed

lemma map_status_ok: "map_status st operation = Inr () \<longleftrightarrow> 200 \<le> st \<and> st < 300"
  by (simp add: map_status_def)

lemma s3_exists_True:
  assumes "s3_exists env p key w = (Inr True, w')"
  shows "\<exists>l req st. signed_request env p ''HEAD'' key 0 kEmptySha256 (sw_peer w) = Inr (l, req) \<and>
    answered l req None None st w w' \<and> 200 \<le> st \<and> st < 300"
proof -
  obtain st where "s3_request env p ''HEAD'' key None None 0 kEmptySha256 w = (Inr st, w')" "st \<noteq> 404" "map_status st ''HEAD'' = Inr ()"
    using assms by (auto simp: s3_exists_def andthen_eq_Inr split: prod.splits sum.splits if_splits)
  then show ?thesis using s3_request_answered by (metis map_status_ok)
qed

subsection \<open>A small store\<close>

definition sample_crypto :: crypto where
  "sample_crypto = \<lparr>cr_hmac = (\<lambda>k v. take 2 k @ take 2 v), cr_sha256 = take 2\<rparr>"

text \<open>The state of the outside counts the connections; from a given one on the store cannot be reached.\<close>

definition sample_s3_env :: "nat \<Rightarrow> nat \<Rightarrow> nat s3_env" where
  "sample_s3_env reachable status =
     \<lparr>se_crypto = sample_crypto, se_clock = (\<lambda>_. 0),
      se_connect = (\<lambda>_ n. (if n < reachable then None else Some ''refused'', n + 1)), se_send = (\<lambda>_ n. (None, n)),
      se_receive = (\<lambda>_ n. (Inr (status, ''data''), n)), se_upload_error = (\<lambda>_ _. None), se_mkdir_error = (\<lambda>_ _. None),
      se_download_error = (\<lambda>_ _. None), se_unlink_ok = (\<lambda>_ _. True)\<rparr>"

definition sample_s3_config :: s3_config where
  "sample_s3_config = \<lparr>sc_endpoint = ''https://s3.example'', sc_region = ''r1'', sc_bucket = ''b'', sc_addressing_style = ''path'',
     sc_allow_insecure_localhost = False\<rparr>"

definition sample_s3_keys :: s3_credentials where
  "sample_s3_keys = \<lparr>sk_access_key_id = ''ak'', sk_secret_access_key = ''sk'', sk_session_token = None\<rparr>"

definition sample_s3 :: s3_provider where
  "sample_s3 = \<lparr>sp_config = sample_s3_config, sp_credentials = sample_s3_keys\<rparr>"

definition sample_s3_world :: "nat s3_world" where
  "sample_s3_world = \<lparr>sw_files = [''f'' \<mapsto> ''data''], sw_peer = 0, sw_log = []\<rparr>"

lemma sample_s3_made: "s3_compatible_provider sample_s3_config sample_s3_keys = Inr sample_s3"
  by code_simp

lemma sample_put_works: "fst (s3_put (sample_s3_env 9 200) sample_s3 ''k'' ''f'' 4 kEmptySha256 sample_s3_world) = Inr ()"
  by code_simp

lemma sample_put_sends:
  "length (sent_of (sw_log (s3_after (sample_s3_env 9 200) sample_s3 ''k'' (PutFile ''f'' 4 kEmptySha256) sample_s3_world))) = 2"
  by code_simp

lemma sample_get_works: "fst (s3_get (sample_s3_env 9 200) sample_s3 ''k'' ''g'' sample_s3_world) = Inr ()"
  by code_simp

text \<open>
  A first answer with status 500 and then a store that cannot be reached: the exception leaves the body of the error
  in the destination, which did not exist before.
\<close>

lemma get_leaves_error_body:
  "isl (fst (s3_get (sample_s3_env 1 500) sample_s3 ''k'' ''g'' sample_s3_world)) \<and>
   sw_files sample_s3_world ''g'' = None \<and>
   sw_files (snd (s3_get (sample_s3_env 1 500) sample_s3 ''k'' ''g'' sample_s3_world)) ''g'' = Some ''data''"
  by code_simp

subsection \<open>Properties\<close>



text \<open>
  C30 A \<open>put\<close> that returns without an exception sent the content of the staged file, received a status of
  success for exactly that request, and then received a status of success for a \<open>HEAD\<close> of the same object. It leaves
  every local file as it was.
\<close>

theorem s3_put_confirmed:
  assumes "s3_put env p key staged len sha w = (Inr (), w')"
  shows "sw_files w' = sw_files w \<and>
    (\<exists>es l req st body fs l' req' st' body'.
       sw_log w' = sw_log w @ es @ [Sent l req, Received st body] @ fs @ [Sent l' req', Received st' body'] \<and>
       rq3_method req = ''PUT'' \<and> rq3_upload req = sw_files w staged \<and> sw_files w staged \<noteq> None \<and> 200 \<le> st \<and> st < 300 \<and>
       rq3_method req' = ''HEAD'' \<and> rq3_target req' = rq3_target req \<and> 200 \<le> st' \<and> st' < 300)"
proof -
  obtain st w1 where put: "s3_request env p ''PUT'' key (Some staged) None len sha w = (Inr st, w1)" "map_status st ''PUT'' = Inr ()"
      and ex: "s3_exists env p key w1 = (Inr True, w')"
    using assms by (auto simp: s3_put_def split: prod.splits sum.splits if_splits)
  obtain l req where a: "signed_request env p ''PUT'' key len sha (sw_peer w) = Inr (l, req)" "answered l req (Some staged) None st w w1"
    using s3_request_answered [OF _ put(1)] by auto
  obtain l' req' st' where b: "signed_request env p ''HEAD'' key 0 kEmptySha256 (sw_peer w1) = Inr (l', req')"
      "answered l' req' None None st' w1 w'" "200 \<le> st'" "st' < 300"
    using s3_exists_True [OF ex] by blast
  obtain es content body where es: "sw_log w1 = sw_log w @ es @ [Sent l (req\<lparr>rq3_upload := content\<rparr>), Received st body]"
      "content = sw_files w staged" "content \<noteq> None" "sw_files w1 = sw_files w"
    using a(2) by (auto simp: answered_def)
  obtain fs body' where fs: "sw_log w' = sw_log w1 @ fs @ [Sent l' req', Received st' body']" "sw_files w' = sw_files w1"
    using b(2) by (auto simp: answered_def)
  have t: "rq3_method req = ''PUT''" "rq3_method req' = ''HEAD''" "rq3_target req' = rq3_target req"
    using signed_request_parts [OF a(1)] signed_request_parts [OF b(1)] by auto
  show ?thesis using es fs t b(3,4) put(2) map_status_ok
    by (intro conjI exI [of _ es] exI [of _ l] exI [of _ "req\<lparr>rq3_upload := content\<rparr>"] exI [of _ st] exI [of _ body] exI [of _ fs]
      exI [of _ l'] exI [of _ req'] exI [of _ st'] exI [of _ body']) auto
qed

theorem s3_put_confirmed_witness:
  "\<exists>w' es l req st body fs l' req' st' body'.
     s3_put (sample_s3_env 9 200) sample_s3 ''k'' ''f'' 4 kEmptySha256 sample_s3_world = (Inr (), w') \<and>
     sw_log w' = es @ [Sent l req, Received st body] @ fs @ [Sent l' req', Received st' body'] \<and> rq3_upload req = Some ''data''"
proof -
  obtain w' where w: "s3_put (sample_s3_env 9 200) sample_s3 ''k'' ''f'' 4 kEmptySha256 sample_s3_world = (Inr (), w')"
    using sample_put_works by (metis prod.collapse)
  have "sw_log sample_s3_world = []" "sw_files sample_s3_world ''f'' = Some ''data''" by (simp_all add: sample_s3_world_def)
  then show ?thesis using s3_put_confirmed [OF w] w by (metis append_Nil)
qed

text \<open>
  C31 A \<open>get\<close> touches no file but its destination. When it returns without an exception the destination holds
  exactly the body that came with a status of success for a \<open>GET\<close> of the object. When it throws and files can be
  removed, the destination is as before or gone, or it still holds the body of an answer 429 or 5xx that was
  tried again.
\<close>

theorem s3_get_complete:
  assumes "s3_get env p key dest w = (r, w')" and "\<And>q. se_unlink_ok env q dest"
  shows "(\<forall>path. path \<noteq> dest \<longrightarrow> sw_files w' path = sw_files w path) \<and>
    (case r of
       Inr _ \<Rightarrow> \<exists>es l req st body. sw_log w' = sw_log w @ es @ [Sent l req, Received st body] \<and> rq3_method req = ''GET'' \<and>
         200 \<le> st \<and> st < 300 \<and> sw_files w' dest = Some body
     | Inl _ \<Rightarrow> sw_files w' dest \<in> {sw_files w dest, None} \<or>
         (\<exists>es st body. sw_log w' = sw_log w @ es \<and> Received st body \<in> set es \<and> (st = 429 \<or> 500 \<le> st) \<and> sw_files w' dest = Some body))"
proof -
  obtain x w1 where x: "s3_request env p ''GET'' key None (Some dest) 0 kEmptySha256 w = (x, w1)" by fastforce
  show ?thesis
  proof (cases x)
    case (Inl e)
    then have "r = Inl e" "w' = w1" using assms(1) x by (auto simp: s3_get_def)
    then show ?thesis using s3_request_left_over [OF _ x [unfolded Inl]] assms(2) by (auto simp: left_over_def)
  next
    case (Inr st)
    obtain l req where a: "signed_request env p ''GET'' key 0 kEmptySha256 (sw_peer w) = Inr (l, req)" "answered l req None (Some dest) st w w1"
      using s3_request_answered [OF _ x [unfolded Inr]] by auto
    obtain es body where es: "sw_log w1 = sw_log w @ es @ [Sent l req, Received st body]" "sw_files w1 = (sw_files w)(dest \<mapsto> body)"
      using a(2) by (auto simp: answered_def)
    have m: "rq3_method req = ''GET''" using signed_request_parts [OF a(1)] by simp
    have r: "r = map_status st ''GET''" "w' = (if st < 200 \<or> 300 \<le> st then unlink env dest w1 else w1)"
      using assms(1) x Inr by (auto simp: s3_get_def)
    show ?thesis
    proof (cases "200 \<le> st \<and> st < 300")
      case True
      then show ?thesis using r es m by (auto simp: map_status_def)
    next
      case False
      then have "sw_files w' = (sw_files w)(dest := None)" using r(2) es(2) assms(2) by (auto simp: unlink_def)
      moreover have "\<exists>e. r = Inl e" using False r(1) by (auto simp: map_status_def)
      ultimately show ?thesis by auto
    qed
  qed
qed

theorem s3_get_complete_witness:
  "\<exists>w' st. s3_get (sample_s3_env 9 200) sample_s3 ''k'' ''g'' sample_s3_world = (Inr (), w') \<and>
     200 \<le> st \<and> st < 300 \<and> (\<exists>body. Received st body \<in> set (sw_log w') \<and> sw_files w' ''g'' = Some body)"
proof -
  obtain w' where w: "s3_get (sample_s3_env 9 200) sample_s3 ''k'' ''g'' sample_s3_world = (Inr (), w')"
    using sample_get_works by (metis prod.collapse)
  have u: "se_unlink_ok (sample_s3_env 9 200) q ''g''" for q by (simp add: sample_s3_env_def)
  obtain es l req st body where "sw_log w' = sw_log sample_s3_world @ es @ [Sent l req, Received st body]" "200 \<le> st" "st < 300"
      "sw_files w' ''g'' = Some body"
    using s3_get_complete [OF w u] by auto
  then show ?thesis using w by (intro exI [of _ w'] exI [of _ st]) auto
qed

end
