(* ===== verification/Drive.thy ===== *)
theory Drive
  imports OAuth JsonCodec
begin

text \<open>
  \<open>src/src/storage/google/DriveApi.{h,cpp}\<close>, \<open>GoogleDriveProvider.{h,cpp}\<close> and \<open>GoogleNetwork.cpp\<close>: the
  calls to Google Drive and the storage provider on top of them.

  The resolver, the TLS stream, the token service and the faults of the file system are the record \<open>drive_env\<close>
  over the state \<open>'p\<close> of the outside. The world holds the local files, the redirection for tests and a record of the
  requests that were sent. The copy of \<open>url_encode\<close> in this file is that of \<open>GoogleOAuth.cpp\<close> (theory
  \<open>OAuth\<close>). Text is taken to be valid UTF-8, so that printing json does not fail.
\<close>

subsection \<open>Requests and texts\<close>

record drive_request =
  dq_method :: string
  dq_target :: string
  dq_headers :: "(string \<times> string) list"
  dq_body :: string

record drive_response =
  dr_status :: nat
  dr_body :: string

definition kHost :: string where
  "kHost = ''www.googleapis.com''"

definition kFilesPath :: string where
  "kFilesPath = ''/drive/v3/files''"

definition kUploadPath :: string where
  "kUploadPath = ''/upload/drive/v3/files''"

definition kFolderMimeType :: string where
  "kFolderMimeType = ''application/vnd.google-apps.folder''"

definition kMultipartBoundary :: string where
  "kMultipartBoundary = ''holder-google-drive-upload-boundary''"

definition status_to_error_code :: "nat \<Rightarrow> string" where
  "status_to_error_code status =
     (if status = 401 then ''Authentication''
      else if status = 403 then ''Permission''
      else if status = 404 then ''Integrity''
      else if status = 429 \<or> 500 \<le> status then ''Transient''
      else ''Unavailable'')"

definition escape_drive_query_literal :: "string \<Rightarrow> string" where
  "escape_drive_query_literal val =
     concat (map (\<lambda>c. if c = CHR 0x5C \<or> c = CHR 0x27 then [CHR 0x5C, c] else [c]) val)"

definition check_ok :: "drive_response \<Rightarrow> string \<Rightarrow> unit result" where
  "check_ok response operation =
     (if 200 \<le> dr_status response \<and> dr_status response < 300 then Inr ()
      else Inl (StorageError (status_to_error_code (dr_status response))
             (''Drive '' @ operation @ '' failed: HTTP '' @ to_string (dr_status response))))"

definition required_file_id :: "json \<Rightarrow> string result" where
  "required_file_id body =
     andthen (json_at body ''id'') (\<lambda>j. andthen (get_string j) (\<lambda>i.
       if i = [] then Inl (RuntimeError ''file id is empty'') else Inr i))"

definition parse_body :: "json_lib \<Rightarrow> drive_response \<Rightarrow> json result" where
  "parse_body lib response =
     (case lib_parse lib (dr_body response) of None \<Rightarrow> Inl JsonParseError | Some j \<Rightarrow> Inr j)"

text \<open>The \<open>catch\<close> blocks: \<open>StorageError\<close> passes, everything else becomes \<open>Unavailable\<close>.\<close>

definition unavailable :: "(exn \<Rightarrow> string) \<Rightarrow> string \<Rightarrow> exn \<Rightarrow> exn" where
  "unavailable json_what msg e = StorageError ''Unavailable'' (msg @ what json_what e)"

fun rethrow :: "(exn \<Rightarrow> string) \<Rightarrow> string \<Rightarrow> exn \<Rightarrow> exn" where
  "rethrow json_what msg (StorageError code m) = StorageError code m"
| "rethrow json_what msg e = unavailable json_what msg e"

definition catch_with :: "(exn \<Rightarrow> exn) \<Rightarrow> 'a result \<Rightarrow> 'a result" where
  "catch_with f r = (case r of Inl e \<Rightarrow> Inl (f e) | Inr x \<Rightarrow> Inr x)"

subsection \<open>The world\<close>

type_synonym tcp_endpoint = "string \<times> nat"

datatype drive_event = Asked drive_request | GotAnswer nat string

record 'p drive_world =
  dw_files :: "string \<Rightarrow> string option"
  dw_peer :: 'p
  dw_test_endpoint :: "tcp_endpoint option"
  dw_log :: "drive_event list"

text \<open>
  A failing step has its message; an answer that breaks off comes with the part of its body that arrived. Reading a
  local file may stop after a number of bytes, which the stream does not report to the code.
\<close>

record 'p drive_env =
  de_oauth :: "'p \<Rightarrow> oauth_env"
  de_json_what :: "exn \<Rightarrow> string"
  de_is_loopback :: "tcp_endpoint \<Rightarrow> bool"
  de_resolve :: "'p \<Rightarrow> string \<Rightarrow> string \<Rightarrow> string + tcp_endpoint list"
  de_connect :: "tcp_endpoint list \<Rightarrow> string \<Rightarrow> 'p \<Rightarrow> string option \<times> 'p"
  de_exchange :: "drive_request \<Rightarrow> 'p \<Rightarrow> (string \<times> string + nat \<times> string) \<times> 'p"
  de_open_ok :: "'p \<Rightarrow> string \<Rightarrow> bool"
  de_read_stops :: "'p \<Rightarrow> string \<Rightarrow> nat option"
  de_mkdir_error :: "'p \<Rightarrow> string \<Rightarrow> string option"
  de_download_error :: "'p \<Rightarrow> string \<Rightarrow> string option"
  de_unlink_ok :: "'p \<Rightarrow> string \<Rightarrow> bool"

type_synonym ('p, 'a) drive_action = "'p drive_world \<Rightarrow> 'a result \<times> 'p drive_world"

definition then_do :: "('p, 'a) drive_action \<Rightarrow> ('a \<Rightarrow> ('p, 'b) drive_action) \<Rightarrow> ('p, 'b) drive_action" where
  "then_do m f w = (case m w of (Inl e, w') \<Rightarrow> (Inl e, w') | (Inr x, w') \<Rightarrow> f x w')"

definition give :: "'a result \<Rightarrow> ('p, 'a) drive_action" where
  "give r w = (r, w)"

definition catching :: "(exn \<Rightarrow> exn) \<Rightarrow> ('p, 'a) drive_action \<Rightarrow> ('p, 'a) drive_action" where
  "catching f m w = (case m w of (r, w') \<Rightarrow> (catch_with f r, w'))"

definition resolve_google_endpoint ::
  "'p drive_env \<Rightarrow> string \<Rightarrow> 'p drive_world \<Rightarrow> string + tcp_endpoint list" where
  "resolve_google_endpoint env host w =
     (case dw_test_endpoint w of
        Some endpoint \<Rightarrow> Inr [endpoint]
      | None \<Rightarrow> de_resolve env (dw_peer w) host ''443'')"

definition set_google_endpoint_for_tests :: "'p drive_env \<Rightarrow> tcp_endpoint option \<Rightarrow> ('p, unit) drive_action" where
  "set_google_endpoint_for_tests env endpoint w =
     (case endpoint of
        Some e \<Rightarrow>
          if \<not> de_is_loopback env e then (Inl (InvalidArgument ''Google test endpoint must be loopback''), w)
          else (Inr (), w\<lparr>dw_test_endpoint := endpoint\<rparr>)
      | None \<Rightarrow> (Inr (), w\<lparr>dw_test_endpoint := endpoint\<rparr>))"

text \<open>One request over a fresh connection. The failure carries what arrived of the body.\<close>

definition drive_exchange ::
  "'p drive_env \<Rightarrow> drive_request \<Rightarrow> 'p drive_world \<Rightarrow> (string \<times> string + drive_response) \<times> 'p drive_world" where
  "drive_exchange env req w =
     (case resolve_google_endpoint env kHost w of
        Inl e \<Rightarrow> (Inl (e, []), w)
      | Inr endpoints \<Rightarrow>
          (case de_connect env endpoints kHost (dw_peer w) of
             (Some e, p) \<Rightarrow> (Inl (e, []), w\<lparr>dw_peer := p\<rparr>)
           | (None, p) \<Rightarrow>
               (case de_exchange env req p of
                  (Inl e, p') \<Rightarrow> (Inl e, w\<lparr>dw_peer := p', dw_log := dw_log w @ [Asked req]\<rparr>)
                | (Inr (status, body), p') \<Rightarrow>
                    (Inr \<lparr>dr_status = status, dr_body = body\<rparr>,
                     w\<lparr>dw_peer := p', dw_log := dw_log w @ [Asked req, GotAnswer status body]\<rparr>))))"

definition string_exchange :: "'p drive_env \<Rightarrow> drive_request \<Rightarrow> ('p, drive_response) drive_action" where
  "string_exchange env req w =
     (case drive_exchange env req w of (Inl (e, _), w') \<Rightarrow> (Inl (RuntimeError e), w') | (Inr r, w') \<Rightarrow> (Inr r, w'))"

definition drive_headers :: "string \<Rightarrow> (string \<times> string) list" where
  "drive_headers token =
     [(''Host'', kHost), (''Authorization'', ''Bearer '' @ token), (''User-Agent'', ''holder/google-drive'')]"

definition json_request ::
  "json_lib \<Rightarrow> 'p drive_env \<Rightarrow> string \<Rightarrow> string \<Rightarrow> string \<Rightarrow> json option \<Rightarrow> ('p, drive_response) drive_action" where
  "json_request lib env http_method target token json_body =
     catching (unavailable (de_json_what env) ''Drive request failed: '')
       (string_exchange env
          \<lparr>dq_method = http_method, dq_target = target,
           dq_headers = drive_headers token @
             (case json_body of Some _ \<Rightarrow> [(''Content-Type'', ''application/json; charset=UTF-8'')] | None \<Rightarrow> []),
           dq_body = (case json_body of Some j \<Rightarrow> lib_dump lib j | None \<Rightarrow> [])\<rparr>)"

definition read_whole_file :: "'p drive_env \<Rightarrow> string \<Rightarrow> ('p, string) drive_action" where
  "read_whole_file env path w =
     (case dw_files w path of
        Some content \<Rightarrow>
          if de_open_ok env (dw_peer w) path
          then (Inr (case de_read_stops env (dw_peer w) path of Some n \<Rightarrow> take n content | None \<Rightarrow> content), w)
          else (Inl (StorageError ''Unavailable'' ''could not open staged file for Drive upload''), w)
      | None \<Rightarrow> (Inl (StorageError ''Unavailable'' ''could not open staged file for Drive upload''), w))"

subsection \<open>The calls\<close>

definition search_target :: "string \<Rightarrow> string" where
  "search_target query =
     kFilesPath @ ''?q='' @ url_encode query @ ''&fields='' @ url_encode ''files(id)'' @ ''&pageSize=1''"

definition first_file_id :: "json \<Rightarrow> string option result" where
  "first_file_id j =
     andthen (json_at j ''files'') (\<lambda>files.
       if \<not> is_array files then Inl (RuntimeError ''files must be an array'')
       else case array_items files of
           [] \<Rightarrow> Inr None
         | f # _ \<Rightarrow> andthen (required_file_id f) (\<lambda>i. Inr (Some i)))"

definition find_file_id_in_scope ::
  "json_lib \<Rightarrow> 'p drive_env \<Rightarrow> string \<Rightarrow> string \<Rightarrow> ('p, string option) drive_action" where
  "find_file_id_in_scope lib env token query =
     then_do (json_request lib env ''GET'' (search_target query) token None) (\<lambda>response.
       give (andthen (check_ok response ''search'') (\<lambda>_.
         catch_with (unavailable (de_json_what env) ''Drive search response could not be parsed: '')
           (andthen (parse_body lib response) first_file_id))))"

definition folder_query :: "string \<Rightarrow> string option \<Rightarrow> string" where
  "folder_query name parent_id =
     ''name = '' @ [CHR 0x27] @ escape_drive_query_literal name @ [CHR 0x27] @ '' and mimeType = '' @ [CHR 0x27] @
     kFolderMimeType @ [CHR 0x27] @ '' and trashed = false'' @
     (case parent_id of
        Some p \<Rightarrow> '' and '' @ [CHR 0x27] @ escape_drive_query_literal p @ [CHR 0x27] @ '' in parents''
      | None \<Rightarrow> '' and '' @ [CHR 0x27] @ ''root'' @ [CHR 0x27] @ '' in parents'')"

definition folder_metadata :: "string \<Rightarrow> string option \<Rightarrow> json" where
  "folder_metadata name parent_id =
     json_object ([(''name'', JStr name), (''mimeType'', JStr kFolderMimeType)] @
       (case parent_id of Some p \<Rightarrow> [(''parents'', JArr [JStr p])] | None \<Rightarrow> []))"

definition find_or_create_folder ::
  "json_lib \<Rightarrow> 'p drive_env \<Rightarrow> string \<Rightarrow> string \<Rightarrow> string option \<Rightarrow> ('p, string) drive_action" where
  "find_or_create_folder lib env token name parent_id =
     then_do (find_file_id_in_scope lib env token (folder_query name parent_id)) (\<lambda>existing.
       case existing of
         Some i \<Rightarrow> give (Inr i)
       | None \<Rightarrow>
           then_do (json_request lib env ''POST'' kFilesPath token (Some (folder_metadata name parent_id))) (\<lambda>response.
             give (andthen (check_ok response ''folder create'') (\<lambda>_.
               catch_with (unavailable (de_json_what env) ''Drive folder-create response could not be parsed: '')
                 (andthen (parse_body lib response) required_file_id)))))"

definition file_query :: "string \<Rightarrow> string \<Rightarrow> string" where
  "file_query folder_id name =
     ''name = '' @ [CHR 0x27] @ escape_drive_query_literal name @ [CHR 0x27] @ '' and '' @ [CHR 0x27] @
     escape_drive_query_literal folder_id @ [CHR 0x27] @ '' in parents and trashed = false''"

definition find_file_id ::
  "json_lib \<Rightarrow> 'p drive_env \<Rightarrow> string \<Rightarrow> string \<Rightarrow> string \<Rightarrow> ('p, string option) drive_action" where
  "find_file_id lib env token folder_id name = find_file_id_in_scope lib env token (file_query folder_id name)"

definition crlf :: string where
  "crlf = [CHR 0x0D, CHR 0x0A]"

definition upload_metadata :: "string \<Rightarrow> string \<Rightarrow> json" where
  "upload_metadata folder_id name = json_object [(''name'', JStr name), (''parents'', JArr [JStr folder_id])]"

definition multipart_body :: "string \<Rightarrow> string \<Rightarrow> string" where
  "multipart_body metadata file_bytes =
     ''--'' @ kMultipartBoundary @ crlf @ ''Content-Type: application/json; charset=UTF-8'' @ crlf @ crlf @ metadata @
     crlf @ ''--'' @ kMultipartBoundary @ crlf @ ''Content-Type: application/octet-stream'' @ crlf @ crlf @ file_bytes @
     crlf @ ''--'' @ kMultipartBoundary @ ''--'' @ crlf"

definition upload_file ::
  "json_lib \<Rightarrow> 'p drive_env \<Rightarrow> string \<Rightarrow> string \<Rightarrow> string \<Rightarrow> string \<Rightarrow> ('p, string) drive_action" where
  "upload_file lib env token folder_id name staged_file =
     then_do (read_whole_file env staged_file) (\<lambda>file_bytes.
       catching (rethrow (de_json_what env) ''Drive upload failed: '')
         (then_do (string_exchange env
            \<lparr>dq_method = ''POST'', dq_target = kUploadPath @ ''?uploadType=multipart'',
             dq_headers = drive_headers token @ [(''Content-Type'', ''multipart/related; boundary='' @ kMultipartBoundary)],
             dq_body = multipart_body (lib_dump lib (upload_metadata folder_id name)) file_bytes\<rparr>) (\<lambda>response.
            give (andthen (check_ok response ''upload'') (\<lambda>_. andthen (parse_body lib response) required_file_id)))))"

definition replace_file_content :: "'p drive_env \<Rightarrow> string \<Rightarrow> string \<Rightarrow> string \<Rightarrow> ('p, unit) drive_action" where
  "replace_file_content env token file_id staged_file =
     then_do (read_whole_file env staged_file) (\<lambda>file_bytes.
       catching (rethrow (de_json_what env) ''Drive update failed: '')
         (then_do (string_exchange env
            \<lparr>dq_method = ''PATCH'', dq_target = kUploadPath @ ''/'' @ file_id @ ''?uploadType=media'',
             dq_headers = drive_headers token @ [(''Content-Type'', ''application/octet-stream'')],
             dq_body = file_bytes\<rparr>) (\<lambda>response. give (check_ok response ''update''))))"

definition drive_unlink :: "'p drive_env \<Rightarrow> string \<Rightarrow> 'p drive_world \<Rightarrow> 'p drive_world" where
  "drive_unlink env path w =
     (if de_unlink_ok env (dw_peer w) path then w\<lparr>dw_files := (dw_files w)(path := None)\<rparr> else w)"

text \<open>The \<open>try\<close> block of \<open>download_file\<close>: the destination is opened before the connection is made.\<close>

definition download_try :: "'p drive_env \<Rightarrow> string \<Rightarrow> string \<Rightarrow> string \<Rightarrow> ('p, unit) drive_action" where
  "download_try env token file_id destination_file w =
     (case de_mkdir_error env (dw_peer w) destination_file of
        Some e \<Rightarrow> (Inl (RuntimeError e), w)
      | None \<Rightarrow>
          (case de_download_error env (dw_peer w) destination_file of
             Some e \<Rightarrow> (Inl (RuntimeError (''failed to open Drive download destination: '' @ e)), w)
           | None \<Rightarrow>
               (case drive_exchange env
                  \<lparr>dq_method = ''GET'', dq_target = kFilesPath @ ''/'' @ file_id @ ''?alt=media'',
                   dq_headers = drive_headers token, dq_body = []\<rparr>
                  (w\<lparr>dw_files := (dw_files w)(destination_file \<mapsto> [])\<rparr>) of
                  (Inl (e, part), w') \<Rightarrow>
                    (Inl (RuntimeError e), w'\<lparr>dw_files := (dw_files w')(destination_file \<mapsto> part)\<rparr>)
                | (Inr response, w') \<Rightarrow>
                    let w'' = w'\<lparr>dw_files := (dw_files w')(destination_file \<mapsto> dr_body response)\<rparr>;
                        status = dr_status response
                    in if status < 200 \<or> 300 \<le> status
                       then (Inl (StorageError (status_to_error_code status) (''Drive download failed: HTTP '' @ to_string status)),
                             drive_unlink env destination_file w'')
                       else (Inr (), w''))))"

definition download_file :: "'p drive_env \<Rightarrow> string \<Rightarrow> string \<Rightarrow> string \<Rightarrow> ('p, unit) drive_action" where
  "download_file env token file_id destination_file w =
     (case download_try env token file_id destination_file w of
        (Inl e, w') \<Rightarrow> (Inl (rethrow (de_json_what env) ''Drive download failed: '' e), drive_unlink env destination_file w')
      | (Inr _, w') \<Rightarrow> (Inr (), w'))"

definition delete_file :: "json_lib \<Rightarrow> 'p drive_env \<Rightarrow> string \<Rightarrow> string \<Rightarrow> ('p, unit) drive_action" where
  "delete_file lib env token file_id =
     then_do (json_request lib env ''DELETE'' (kFilesPath @ ''/'' @ file_id) token None) (\<lambda>response.
       give (if dr_status response = 404 then Inr () else check_ok response ''delete''))"

definition find_or_create_holder_resources_folder :: "json_lib \<Rightarrow> 'p drive_env \<Rightarrow> string \<Rightarrow> ('p, string) drive_action" where
  "find_or_create_holder_resources_folder lib env token =
     then_do (find_or_create_folder lib env token ''Holder'' None) (\<lambda>holder_folder_id.
       find_or_create_folder lib env token ''Resources'' (Some holder_folder_id))"

subsection \<open>The provider\<close>

record drive_provider =
  dp_folder_id :: string
  dp_refresh_token :: string
  dp_oauth_client :: oauth_client

definition google_drive_provider :: "string \<Rightarrow> string \<Rightarrow> oauth_client \<Rightarrow> drive_provider result" where
  "google_drive_provider folder_id refresh_token client =
     (if folder_id = [] then Inl (StorageError ''InvalidConfiguration'' ''Google Drive location is missing folder_id'')
      else if refresh_token = []
      then Inl (StorageError ''Authentication'' ''Google Drive is not connected -- no refresh token bound'')
      else Inr \<lparr>dp_folder_id = folder_id, dp_refresh_token = refresh_token, dp_oauth_client = client\<rparr>)"

definition drive_access_token :: "json_lib \<Rightarrow> 'p drive_env \<Rightarrow> drive_provider \<Rightarrow> ('p, string) drive_action" where
  "drive_access_token lib env p w =
     (andthen (refresh_access_token lib (de_oauth env (dw_peer w)) (dp_oauth_client p) (dp_refresh_token p)) (\<lambda>t.
        Inr (gt_access_token t)), w)"

definition drive_put ::
  "json_lib \<Rightarrow> 'p drive_env \<Rightarrow> drive_provider \<Rightarrow> string \<Rightarrow> string \<Rightarrow> int \<Rightarrow> string \<Rightarrow> ('p, unit) drive_action" where
  "drive_put lib env p object_key staged_file stored_size stored_sha256 =
     then_do (drive_access_token lib env p) (\<lambda>token.
     then_do (find_file_id lib env token (dp_folder_id p) object_key) (\<lambda>existing_file_id.
       case existing_file_id of
         Some i \<Rightarrow> replace_file_content env token i staged_file
       | None \<Rightarrow> then_do (upload_file lib env token (dp_folder_id p) object_key staged_file) (\<lambda>_. give (Inr ()))))"

definition drive_get :: "json_lib \<Rightarrow> 'p drive_env \<Rightarrow> drive_provider \<Rightarrow> string \<Rightarrow> string \<Rightarrow> ('p, unit) drive_action" where
  "drive_get lib env p object_key destination_file =
     then_do (drive_access_token lib env p) (\<lambda>token.
     then_do (find_file_id lib env token (dp_folder_id p) object_key) (\<lambda>file_id.
       case file_id of
         Some i \<Rightarrow> download_file env token i destination_file
       | None \<Rightarrow> give (Inl (StorageError ''Integrity'' (''no Drive file named '' @ object_key)))))"

definition drive_exists :: "json_lib \<Rightarrow> 'p drive_env \<Rightarrow> drive_provider \<Rightarrow> string \<Rightarrow> ('p, bool) drive_action" where
  "drive_exists lib env p object_key =
     then_do (drive_access_token lib env p) (\<lambda>token.
     then_do (find_file_id lib env token (dp_folder_id p) object_key) (\<lambda>file_id. give (Inr (file_id \<noteq> None))))"

definition drive_remove :: "json_lib \<Rightarrow> 'p drive_env \<Rightarrow> drive_provider \<Rightarrow> string \<Rightarrow> ('p, unit) drive_action" where
  "drive_remove lib env p object_key =
     then_do (drive_access_token lib env p) (\<lambda>token.
     then_do (find_file_id lib env token (dp_folder_id p) object_key) (\<lambda>file_id.
       case file_id of Some i \<Rightarrow> delete_file lib env token i | None \<Rightarrow> give (Inr ())))"

end
