(* ===== verification/DriveLaws.thy ===== *)
theory DriveLaws
  imports Drive
begin

text \<open>
  What the Drive provider promises. A service is described by how it reads a request (\<open>drive_call_of\<close>: percent
  decoding, the literals of a query, the parts of a multipart body) and what a call does to its files; against such a
  service the provider is a store of objects by key. For any other behaviour of the outside: which requests can be
  sent, and what a failed download leaves.
\<close>

subsection \<open>How a service reads a request\<close>

datatype drive_call =
    Search string string
  | Create string string string
  | Replace string string
  | Media string
  | Delete string

text \<open>A quoted literal of a query, without its opening quote, up to the closing one.\<close>

fun read_literal :: "string \<Rightarrow> string \<Rightarrow> (string \<times> string) option" where
  "read_literal acc [] = None"
| "read_literal acc (c # s) =
     (if c = CHR 0x27 then Some (rev acc, s)
      else if c = CHR 0x5C then (case s of [] \<Rightarrow> None | d # s' \<Rightarrow> read_literal (d # acc) s')
      else read_literal (c # acc) s)"

definition expect :: "string \<Rightarrow> string \<Rightarrow> string option" where
  "expect p s = (if starts_with s p then Some (drop (length p) s) else None)"

definition literal_after :: "string \<Rightarrow> string \<Rightarrow> (string \<times> string) option" where
  "literal_after p s = Option.bind (expect (p @ [CHR 0x27]) s) (read_literal [])"

definition read_query :: "string \<Rightarrow> (string \<times> string) option" where
  "read_query q =
     Option.bind (literal_after ''name = '' q) (\<lambda>(name, rest).
     Option.bind (literal_after '' and '' rest) (\<lambda>(folder, rest').
       if rest' = '' in parents and trashed = false'' then Some (name, folder) else None))"

text \<open>One part of a multipart body: the header up to an empty line, the content up to the next delimiter.\<close>

definition delimiter :: "string \<Rightarrow> string" where
  "delimiter boundary = crlf @ ''--'' @ boundary"

definition read_part :: "string \<Rightarrow> string \<Rightarrow> (string \<times> string) option" where
  "read_part boundary s =
     Option.bind (find_str (crlf @ crlf) s) (\<lambda>i.
       let rest = drop (i + 4) s
       in map_option (\<lambda>k. (take k rest, drop (k + length (delimiter boundary)) rest)) (find_str (delimiter boundary) rest))"

definition read_multipart :: "string \<Rightarrow> string \<Rightarrow> (string \<times> string) option" where
  "read_multipart boundary body =
     Option.bind (expect (''--'' @ boundary @ crlf) body) (\<lambda>s.
     Option.bind (read_part boundary s) (\<lambda>(first, rest).
     Option.bind (expect crlf rest) (\<lambda>s'.
     Option.bind (read_part boundary s') (\<lambda>(second, rest').
       if starts_with rest' ''--'' then Some (first, second) else None))))"

definition read_metadata :: "json_lib \<Rightarrow> string \<Rightarrow> (string \<times> string) option" where
  "read_metadata lib s =
     (case lib_parse lib s of
        Some j \<Rightarrow>
          (case (json_get ''name'' j, json_get ''parents'' j) of
             (Some (JStr name), Some (JArr [JStr folder])) \<Rightarrow> Some (name, folder)
           | _ \<Rightarrow> None)
      | None \<Rightarrow> None)"

definition drive_call_of :: "json_lib \<Rightarrow> drive_request \<Rightarrow> drive_call option" where
  "drive_call_of lib req =
     (let (path, query) = split_target (dq_target req); sub = (\<lambda>base. expect (base @ ''/'') path)
      in if dq_method req = ''GET'' \<and> path = kFilesPath
         then map_option (\<lambda>(name, folder). Search name folder) (read_query (percent_decode (query_param_value query ''q'')))
         else if dq_method req = ''GET'' \<and> query = ''alt=media'' then map_option Media (sub kFilesPath)
         else if dq_method req = ''DELETE'' then map_option Delete (sub kFilesPath)
         else if dq_method req = ''PATCH'' \<and> query = ''uploadType=media''
         then map_option (\<lambda>i. Replace i (dq_body req)) (sub kUploadPath)
         else if dq_method req = ''POST'' \<and> path = kUploadPath \<and> query = ''uploadType=multipart''
         then Option.bind (map_of (dq_headers req) ''Content-Type'') (\<lambda>ct.
              Option.bind (expect ''multipart/related; boundary='' ct) (\<lambda>boundary.
              Option.bind (read_multipart boundary (dq_body req)) (\<lambda>(metadata, content).
              map_option (\<lambda>(name, folder). Create name folder content) (read_metadata lib metadata))))
         else None)"

subsection \<open>Lemmas: the requests are read as meant\<close>

lemma expect_append [simp]: "expect p (p @ s) = Some s"
  by (simp add: expect_def)

lemma read_literal_escaped:
  "read_literal acc (escape_drive_query_literal v @ CHR 0x27 # rest) = Some (rev acc @ v, rest)"
  by (induction v arbitrary: acc) (auto simp: escape_drive_query_literal_def)

lemma literal_after_escaped:
  "literal_after p (p @ CHR 0x27 # escape_drive_query_literal v @ CHR 0x27 # rest) = Some (v, rest)"
  using expect_append [of "p @ [CHR 0x27]" "escape_drive_query_literal v @ CHR 0x27 # rest"]
  by (simp add: literal_after_def read_literal_escaped del: expect_append)

lemma read_query_file: "read_query (file_query folder name) = Some (name, folder)"
proof -
  let ?rest = "'' and '' @ CHR 0x27 # escape_drive_query_literal folder @ CHR 0x27 # '' in parents and trashed = false''"
  have q: "file_query folder name = ''name = '' @ CHR 0x27 # escape_drive_query_literal name @ CHR 0x27 # ?rest"
    by (simp add: file_query_def)
  show ?thesis unfolding read_query_def q literal_after_escaped by (simp add: literal_after_escaped del: append.simps)
qed

text \<open>A pattern that begins with a character it does not repeat is found where it was put, unless it occurs earlier.\<close>

lemma find_str_put:
  assumes "c \<notin> set p" and "find_str (c # p) s = None"
  shows "find_str (c # p) (s @ (c # p) @ rest) = Some (length s)"
  using assms(2)
proof (induction s)
  case Nil
  then show ?case using find_str_here [of "c # p" rest] by simp
next
  case (Cons x s)
  have "\<not> starts_with (x # s @ (c # p) @ rest) (c # p)"
  proof
    assume "starts_with (x # s @ (c # p) @ rest) (c # p)"
    then obtain b where b: "x # s @ (c # p) @ rest = (c # p) @ b" by (auto simp: starts_with_iff)
    then have "s @ c # p @ rest = p @ b" by simp
    then obtain us where "p = s @ us \<and> c # p @ rest = us @ b \<or> s = p @ us \<and> us @ c # p @ rest = b"
      by (auto simp: append_eq_append_conv2)
    then show False
    proof
      assume "p = s @ us \<and> c # p @ rest = us @ b"
      then have "p = s" using assms(1) by (cases us) (auto simp: Cons_eq_append_conv)
      then show False using b Cons.prems starts_with_append [of "c # p" "[]"] by simp
    next
      assume "s = p @ us \<and> us @ c # p @ rest = b"
      then have "x # s = [] @ (c # p) @ us" using b by simp
      then show False using Cons.prems unfolding find_str_None_iff by blast
    qed
  qed
  moreover have "find_str (c # p) s = None" using Cons.prems by (simp split: if_splits)
  ultimately show ?case using Cons.IH by simp
qed

lemma find_str_absent: "c \<notin> set s \<Longrightarrow> find_str (c # p) s = None"
  by (auto simp: find_str_None_iff)

lemma delimiter_Cons: "delimiter b = CHR 0x0D # CHR 0x0A # ''--'' @ b"
  by (simp add: delimiter_def crlf_def)

lemma find_str_first: "c \<notin> set s \<Longrightarrow> find_str (c # p) (s @ (c # p) @ rest) = Some (length s)"
  by (induction s) (use find_str_here [of "c # p" rest] in \<open>auto simp: starts_with_iff\<close>)

lemma read_part_made:
  assumes "CHR 0x0D \<notin> set header" and "CHR 0x0D \<notin> set boundary" and "find_str (delimiter boundary) content = None"
  shows "read_part boundary (header @ crlf @ crlf @ content @ delimiter boundary @ rest) = Some (content, rest)"
proof -
  have h: "find_str (crlf @ crlf) (header @ crlf @ crlf @ content @ delimiter boundary @ rest) = Some (length header)"
    using find_str_first [OF assms(1), of "CHR 0x0A # crlf" "content @ delimiter boundary @ rest"] by (simp add: crlf_def)
  have d: "drop (length header + 4) (header @ crlf @ crlf @ content @ delimiter boundary @ rest) = content @ delimiter boundary @ rest"
    by (simp add: crlf_def)
  have k: "find_str (delimiter boundary) (content @ delimiter boundary @ rest) = Some (length content)"
    unfolding delimiter_Cons by (rule find_str_put) (use assms in \<open>auto simp: delimiter_Cons\<close>)
  show ?thesis unfolding read_part_def h bind.bind_lunit Let_def d k by simp
qed

lemma read_multipart_made:
  assumes "CHR 0x0D \<notin> set metadata" and "find_str (delimiter kMultipartBoundary) content = None"
  shows "read_multipart kMultipartBoundary (multipart_body metadata content) = Some (metadata, content)"
proof -
  let ?d = "delimiter kMultipartBoundary"
  let ?closing = "''--'' @ crlf"
  let ?second = "''Content-Type: application/octet-stream'' @ crlf @ crlf @ content @ ?d @ ?closing"
  let ?first = "''Content-Type: application/json; charset=UTF-8'' @ crlf @ crlf @ metadata @ ?d @ crlf @ ?second"
  have b: "multipart_body metadata content = (''--'' @ kMultipartBoundary @ crlf) @ ?first"
    by (simp add: multipart_body_def delimiter_def)
  have cr: "CHR 0x0D \<notin> set kMultipartBoundary" by (simp add: kMultipartBoundary_def)
  have f: "read_part kMultipartBoundary ?first = Some (metadata, crlf @ ?second)"
    by (rule read_part_made) (use assms(1) cr in \<open>auto simp: delimiter_Cons find_str_absent\<close>)
  have s: "read_part kMultipartBoundary ?second = Some (content, ?closing)"
    by (rule read_part_made) (use assms(2) cr in auto)
  have e: "expect (''--'' @ kMultipartBoundary @ crlf) (multipart_body metadata content) = Some ?first"
    unfolding b by (rule expect_append)
  show ?thesis unfolding read_multipart_def e by (simp add: f s del: append.simps)
qed

lemma read_metadata_made:
  assumes "lib_parse lib (lib_dump lib (upload_metadata folder name)) = Some (upload_metadata folder name)"
  shows "read_metadata lib (lib_dump lib (upload_metadata folder name)) = Some (name, folder)"
  using assms by (simp add: read_metadata_def upload_metadata_def json_get_object)

lemma split_target_at: "CHR ''?'' \<notin> set path \<Longrightarrow> split_target (path @ CHR ''?'' # query) = (path, query)"
  by (simp add: split_target_def find_char_append_notin)

lemma split_target_none: "CHR ''?'' \<notin> set path \<Longrightarrow> split_target path = (path, [])"
  by (simp add: split_target_def find_char_None_iff [THEN iffD2])

lemma search_query_value: "percent_decode (query_param_value (''q='' @ url_encode v @ ''&fields='' @ rest) ''q'') = v"
proof -
  have "find_char CHR ''&'' (url_encode v @ ''&fields='' @ rest) = Some (length (url_encode v))"
    using url_encode_clean [of v] by (simp add: find_char_append_notin)
  then have "query_param_value (''q='' @ url_encode v @ ''&fields='' @ rest) ''q'' = url_encode v"
    using find_str_here [of "''q=''" "url_encode v @ ''&fields='' @ rest"] by (simp add: query_param_value_def)
  then show ?thesis using percent_decode_url_encode [of v] by simp
qed

definition id_ok :: "string \<Rightarrow> bool" where
  "id_ok i \<longleftrightarrow> i \<noteq> [] \<and> CHR ''?'' \<notin> set i"

lemma paths_plain: "CHR ''?'' \<notin> set kFilesPath" "CHR ''?'' \<notin> set kUploadPath"
  by (simp_all add: kFilesPath_def kUploadPath_def)

lemma sub_path: "expect (base @ ''/'') (base @ ''/'' @ i) = Some i" "base @ ''/'' @ i \<noteq> base"
  using expect_append [of "base @ ''/''" i] by simp_all

lemma search_read:
  assumes "dq_method req = ''GET''" "dq_target req = search_target (file_query folder name)"
  shows "drive_call_of lib req = Some (Search name folder)"
proof -
  have "split_target (dq_target req) =
      (kFilesPath, ''q='' @ url_encode (file_query folder name) @ ''&fields='' @ url_encode ''files(id)'' @ ''&pageSize=1'')"
    using split_target_at [OF paths_plain(1)] assms(2) by (simp add: search_target_def)
  then show ?thesis using assms(1) search_query_value [of "file_query folder name"]
    by (simp add: drive_call_of_def read_query_file)
qed

lemma media_read:
  assumes "dq_method req = ''GET''" "dq_target req = kFilesPath @ ''/'' @ i @ ''?alt=media''" "id_ok i"
  shows "drive_call_of lib req = Some (Media i)"
proof -
  have "split_target (dq_target req) = (kFilesPath @ ''/'' @ i, ''alt=media'')"
    using split_target_at [of "kFilesPath @ ''/'' @ i" "''alt=media''"] assms paths_plain by (simp add: id_ok_def)
  then show ?thesis using assms(1) sub_path by (simp add: drive_call_of_def)
qed

lemma delete_read:
  assumes "dq_method req = ''DELETE''" "dq_target req = kFilesPath @ ''/'' @ i" "id_ok i"
  shows "drive_call_of lib req = Some (Delete i)"
proof -
  have "split_target (dq_target req) = (kFilesPath @ ''/'' @ i, [])"
    using split_target_none [of "kFilesPath @ ''/'' @ i"] assms paths_plain by (simp add: id_ok_def)
  then show ?thesis using assms(1) sub_path by (simp add: drive_call_of_def)
qed

lemma replace_read:
  assumes "dq_method req = ''PATCH''" "dq_target req = kUploadPath @ ''/'' @ i @ ''?uploadType=media''" "id_ok i"
  shows "drive_call_of lib req = Some (Replace i (dq_body req))"
proof -
  have "split_target (dq_target req) = (kUploadPath @ ''/'' @ i, ''uploadType=media'')"
    using split_target_at [of "kUploadPath @ ''/'' @ i" "''uploadType=media''"] assms paths_plain by (simp add: id_ok_def)
  then show ?thesis using assms(1) sub_path by (simp add: drive_call_of_def)
qed

text \<open>What is needed of the printer: it is undone by the parser and prints control characters escaped.\<close>

definition json_text_ok :: "json_lib \<Rightarrow> bool" where
  "json_text_ok lib \<longleftrightarrow> (\<forall>j. lib_parse lib (lib_dump lib j) = Some j \<and> CHR 0x0D \<notin> set (lib_dump lib j))"

lemma create_read:
  assumes "json_text_ok lib" "find_str (delimiter kMultipartBoundary) content = None"
    and "dq_method req = ''POST''" "dq_target req = kUploadPath @ ''?uploadType=multipart''"
    and "dq_headers req = drive_headers token @ [(''Content-Type'', ''multipart/related; boundary='' @ kMultipartBoundary)]"
    and "dq_body req = multipart_body (lib_dump lib (upload_metadata folder name)) content"
  shows "drive_call_of lib req = Some (Create name folder content)"
proof -
  have "split_target (dq_target req) = (kUploadPath, ''uploadType=multipart'')"
    using split_target_at [OF paths_plain(2)] assms(4) by simp
  moreover have "map_of (dq_headers req) ''Content-Type'' = Some (''multipart/related; boundary='' @ kMultipartBoundary)"
    by (simp add: assms(5) drive_headers_def)
  moreover have "read_multipart kMultipartBoundary (dq_body req) = Some (lib_dump lib (upload_metadata folder name), content)"
    unfolding assms(6) by (rule read_multipart_made) (use assms(1,2) in \<open>auto simp: json_text_ok_def\<close>)
  ultimately show ?thesis
    using assms(1,3) read_metadata_made [of lib folder name] expect_append [of "''multipart/related; boundary=''" kMultipartBoundary]
    by (simp add: drive_call_of_def json_text_ok_def del: expect_append append.simps)
qed

subsection \<open>A service and the store of objects\<close>

record drive_file =
  df_id :: string
  df_folder :: string
  df_name :: string
  df_content :: string

definition named :: "string \<Rightarrow> string \<Rightarrow> drive_file \<Rightarrow> bool" where
  "named folder name f \<longleftrightarrow> df_folder f = folder \<and> df_name f = name"

definition success :: "nat \<Rightarrow> bool" where
  "success status \<longleftrightarrow> 200 \<le> status \<and> status < 300"

text \<open>
  What a call does to the files and what it served. A search gives some of the files of that name, at least one when there is
  one; a file that is created gets an identifier of its own.
\<close>

fun served :: "json_lib \<Rightarrow> drive_call \<Rightarrow> drive_file set \<Rightarrow> nat \<Rightarrow> string \<Rightarrow> drive_file set \<Rightarrow> bool" where
  "served lib (Search name folder) fs status body fs' \<longleftrightarrow>
     success status \<and> fs' = fs \<and>
     (\<exists>found es. set found \<subseteq> {f \<in> fs. named folder name f} \<and> (found = [] \<longrightarrow> \<not> (\<exists>f \<in> fs. named folder name f)) \<and>
        lib_parse lib body = Some (json_object (es @ [(''files'', JArr (map (\<lambda>f. json_object [(''id'', JStr (df_id f))]) found))])))"
| "served lib (Create name folder content) fs status body fs' \<longleftrightarrow>
     success status \<and>
     (\<exists>i es. id_ok i \<and> i \<notin> df_id ` fs \<and>
        fs' = insert \<lparr>df_id = i, df_folder = folder, df_name = name, df_content = content\<rparr> fs \<and>
        lib_parse lib body = Some (json_object (es @ [(''id'', JStr i)])))"
| "served lib (Replace i content) fs status body fs' \<longleftrightarrow>
     (i \<in> df_id ` fs \<longrightarrow> success status \<and> fs' = (\<lambda>f. if df_id f = i then f\<lparr>df_content := content\<rparr> else f) ` fs)"
| "served lib (Media i) fs status body fs' \<longleftrightarrow>
     (i \<in> df_id ` fs \<longrightarrow> success status \<and> (\<exists>f \<in> fs. df_id f = i \<and> body = df_content f)) \<and> fs' = fs"
| "served lib (Delete i) fs status body fs' \<longleftrightarrow>
     (i \<in> df_id ` fs \<longrightarrow> success status \<and> fs' = {f \<in> fs. df_id f \<noteq> i})"

definition drive_service :: "json_lib \<Rightarrow> 'p drive_env \<Rightarrow> (string \<Rightarrow> bool) \<Rightarrow> ('p \<Rightarrow> drive_file set) \<Rightarrow> bool" where
  "drive_service lib env valid files \<longleftrightarrow>
     (\<forall>p host port. \<exists>eps. de_resolve env p host port = Inr eps) \<and>
     (\<forall>eps host p. \<exists>p'. de_connect env eps host p = (None, p') \<and> files p' = files p) \<and>
     (\<forall>req p t call. map_of (dq_headers req) ''Authorization'' = Some (''Bearer '' @ t) \<and> valid t \<and> drive_call_of lib req = Some call \<longrightarrow>
        (\<exists>status body p'. de_exchange env req p = (Inr (status, body), p') \<and> served lib call (files p) status body (files p')))"

text \<open>The token service mints valid tokens, and the local file system does not fail.\<close>

definition tokens_minted :: "json_lib \<Rightarrow> 'p drive_env \<Rightarrow> (string \<Rightarrow> bool) \<Rightarrow> drive_provider \<Rightarrow> bool" where
  "tokens_minted lib env valid p \<longleftrightarrow>
     (\<forall>q. \<exists>t. refresh_access_token lib (de_oauth env q) (dp_oauth_client p) (dp_refresh_token p) = Inr t \<and> valid (gt_access_token t))"

definition local_ok :: "'p drive_env \<Rightarrow> bool" where
  "local_ok env \<longleftrightarrow> (\<forall>q path. de_open_ok env q path \<and> de_read_stops env q path = None \<and> de_mkdir_error env q path = None \<and>
     de_download_error env q path = None)"

definition store_ok :: "drive_file set \<Rightarrow> bool" where
  "store_ok fs \<longleftrightarrow> (\<forall>f \<in> fs. id_ok (df_id f)) \<and> inj_on df_id fs \<and> inj_on (\<lambda>f. (df_folder f, df_name f)) fs"

definition represents :: "drive_file set \<Rightarrow> string \<Rightarrow> (string \<Rightarrow> string option) \<Rightarrow> bool" where
  "represents fs folder objs \<longleftrightarrow> (\<forall>name content. objs name = Some content \<longleftrightarrow> (\<exists>f \<in> fs. named folder name f \<and> df_content f = content))"

text \<open>The specification: objects by key, beside the local files.\<close>

datatype store_call = PutObject string string int string | GetObject string string | HasObject string | DropObject string

datatype store_outcome = Done | Found bool | Failed exn

type_synonym store = "(string \<Rightarrow> string option) \<times> (string \<Rightarrow> string option)"

fun store_do :: "store_call \<Rightarrow> store \<Rightarrow> store_outcome \<times> store" where
  "store_do (PutObject key path _ _) (objs, local) =
     (case local path of
        Some content \<Rightarrow> (Done, (objs(key \<mapsto> content), local))
      | None \<Rightarrow> (Failed (StorageError ''Unavailable'' ''could not open staged file for Drive upload''), (objs, local)))"
| "store_do (GetObject key path) (objs, local) =
     (case objs key of
        Some content \<Rightarrow> (Done, (objs, local(path \<mapsto> content)))
      | None \<Rightarrow> (Failed (StorageError ''Integrity'' (''no Drive file named '' @ key)), (objs, local)))"
| "store_do (HasObject key) (objs, local) = (Found (objs key \<noteq> None), (objs, local))"
| "store_do (DropObject key) (objs, local) = (Done, (objs(key := None), local))"

fun outcome_of :: "unit result \<Rightarrow> store_outcome" where
  "outcome_of (Inr _) = Done"
| "outcome_of (Inl e) = Failed e"

fun drive_do :: "json_lib \<Rightarrow> 'p drive_env \<Rightarrow> drive_provider \<Rightarrow> store_call \<Rightarrow> 'p drive_world \<Rightarrow> store_outcome \<times> 'p drive_world" where
  "drive_do lib env p (PutObject key path len sha) w = map_prod outcome_of id (drive_put lib env p key path len sha w)"
| "drive_do lib env p (GetObject key path) w = map_prod outcome_of id (drive_get lib env p key path w)"
| "drive_do lib env p (HasObject key) w = map_prod (case_sum Failed Found) id (drive_exists lib env p key w)"
| "drive_do lib env p (DropObject key) w = map_prod outcome_of id (drive_remove lib env p key w)"

fun perform_all :: "('c \<Rightarrow> 'w \<Rightarrow> 'o \<times> 'w) \<Rightarrow> 'c list \<Rightarrow> 'w \<Rightarrow> 'o list \<times> 'w" where
  "perform_all f [] w = ([], w)"
| "perform_all f (c # cs) w = (let (r, w') = f c w; (rs, w'') = perform_all f cs w' in (r # rs, w''))"

subsection \<open>Lemmas: the calls against a service\<close>

lemma service_exchange:
  assumes "drive_service lib env valid files" "valid t" "map_of (dq_headers req) ''Authorization'' = Some (''Bearer '' @ t)"
    and "drive_call_of lib req = Some call"
  obtains status body w' where "drive_exchange env req w = (Inr \<lparr>dr_status = status, dr_body = body\<rparr>, w')" "dw_files w' = dw_files w"
    "served lib call (files (dw_peer w)) status body (files (dw_peer w'))"
proof -
  obtain eps0 where "de_resolve env (dw_peer w) kHost ''443'' = Inr eps0" using assms(1) unfolding drive_service_def by blast
  then obtain eps where r: "resolve_google_endpoint env kHost w = Inr eps"
    by (cases "dw_test_endpoint w") (auto simp: resolve_google_endpoint_def)
  obtain p1 where c: "de_connect env eps kHost (dw_peer w) = (None, p1)" "files p1 = files (dw_peer w)"
    using assms(1) unfolding drive_service_def by blast
  obtain status body p2 where e: "de_exchange env req p1 = (Inr (status, body), p2)" "served lib call (files p1) status body (files p2)"
    using assms unfolding drive_service_def by blast
  show thesis by (rule that [of status body "w\<lparr>dw_peer := p2, dw_log := dw_log w @ [Asked req, GotAnswer status body]\<rparr>"])
    (use r c e in \<open>simp_all add: drive_exchange_def\<close>)
qed

lemma drive_headers_auth [simp]: "map_of (drive_headers t @ hs) ''Authorization'' = Some (''Bearer '' @ t)"
  "map_of (drive_headers t) ''Authorization'' = Some (''Bearer '' @ t)"
  by (simp_all add: drive_headers_def)

lemma found_id: "id_ok i \<Longrightarrow> required_file_id (json_object (es @ [(''id'', JStr i)])) = Inr i"
  by (simp add: required_file_id_def json_at_def json_get_object andthen_def id_ok_def)

lemma find_served:
  assumes "drive_service lib env valid files" "valid t" "store_ok (files (dw_peer w))"
  obtains r w' where "find_file_id lib env t folder name w = (Inr r, w')" "dw_files w' = dw_files w"
    "files (dw_peer w') = files (dw_peer w)"
    "case r of None \<Rightarrow> \<not> (\<exists>f \<in> files (dw_peer w). named folder name f)
     | Some i \<Rightarrow> \<exists>f \<in> files (dw_peer w). named folder name f \<and> df_id f = i"
proof -
  let ?req = "\<lparr>dq_method = ''GET'', dq_target = search_target (file_query folder name), dq_headers = drive_headers t @ [], dq_body = []\<rparr>"
  have c: "drive_call_of lib ?req = Some (Search name folder)" by (rule search_read) simp_all
  obtain status body w' where e: "drive_exchange env ?req w = (Inr \<lparr>dr_status = status, dr_body = body\<rparr>, w')" "dw_files w' = dw_files w"
      "served lib (Search name folder) (files (dw_peer w)) status body (files (dw_peer w'))"
    by (rule service_exchange [OF assms(1,2) _ c, of w]) simp_all
  obtain found es where f: "success status" "files (dw_peer w') = files (dw_peer w)" "set found \<subseteq> {f \<in> files (dw_peer w). named folder name f}"
      "found = [] \<longrightarrow> \<not> (\<exists>f \<in> files (dw_peer w). named folder name f)"
      "lib_parse lib body = Some (json_object (es @ [(''files'', JArr (map (\<lambda>f. json_object [(''id'', JStr (df_id f))]) found))]))"
    using e(3) by auto
  have ids: "id_ok (df_id g)" if "g \<in> set found" for g using assms(3) f(3) that by (auto simp: store_ok_def)
  let ?r = "case found of [] \<Rightarrow> None | g # _ \<Rightarrow> Some (df_id g)"
  have "find_file_id lib env t folder name w = (Inr ?r, w')"
    using e(1) f(1,5) ids found_id [of "df_id (hd found)" "[]"]
    by (cases found) (simp_all add: find_file_id_def find_file_id_in_scope_def then_do_def json_request_def catching_def
      string_exchange_def catch_with_def give_def andthen_def check_ok_def success_def parse_body_def first_file_id_def json_at_def json_get_object)
  then show thesis using that [of ?r w'] e(2) f(2,3,4) by (cases found) auto
qed

definition elsewhere :: "drive_file set \<Rightarrow> string \<Rightarrow> drive_file set" where
  "elsewhere fs folder = {f \<in> fs. df_folder f \<noteq> folder}"

definition refined :: "drive_file set \<Rightarrow> string \<Rightarrow> (string \<Rightarrow> string option) \<Rightarrow> drive_file set \<Rightarrow> bool" where
  "refined fs folder objs fs' \<longleftrightarrow> store_ok fs' \<and> represents fs' folder objs \<and> elsewhere fs' folder = elsewhere fs folder"

lemma store_create:
  assumes "store_ok fs" "represents fs folder objs" "\<not> (\<exists>f \<in> fs. named folder name f)" "id_ok i" "i \<notin> df_id ` fs"
  shows "refined fs folder (objs(name \<mapsto> content)) (insert \<lparr>df_id = i, df_folder = folder, df_name = name, df_content = content\<rparr> fs)"
  using assms unfolding refined_def store_ok_def represents_def elsewhere_def named_def by auto

lemma store_delete:
  assumes "store_ok fs" "represents fs folder objs" "f \<in> fs" "named folder name f"
  shows "refined fs folder (objs(name := None)) {g \<in> fs. df_id g \<noteq> df_id f}"
proof -
  have eq: "{g \<in> fs. df_id g \<noteq> df_id f} = fs - {f}" using assms(1,3) by (auto simp: store_ok_def dest: inj_onD)
  have one: "g = f" if "g \<in> fs" "named folder name g" for g
    using assms(1,3,4) that by (auto simp: store_ok_def named_def inj_on_def)
  have "store_ok (fs - {f})" using assms(1) by (auto simp: store_ok_def inj_on_def)
  moreover have "represents (fs - {f}) folder (objs(name := None))"
    using assms(2,4) one unfolding represents_def by (auto simp: named_def)
  moreover have "elsewhere (fs - {f}) folder = elsewhere fs folder" using assms(4) by (auto simp: elsewhere_def named_def)
  ultimately show ?thesis by (simp add: eq refined_def)
qed

lemma refined_trans: "refined fs folder objs fs' \<Longrightarrow> refined fs' folder objs' fs'' \<Longrightarrow> refined fs folder objs' fs''"
  by (simp add: refined_def)

lemma store_replace:
  assumes "store_ok fs" "represents fs folder objs" "f \<in> fs" "named folder name f"
  shows "refined fs folder (objs(name \<mapsto> content)) ((\<lambda>g. if df_id g = df_id f then g\<lparr>df_content := content\<rparr> else g) ` fs)"
proof -
  let ?rest = "{g \<in> fs. df_id g \<noteq> df_id f}"
  let ?new = "\<lparr>df_id = df_id f, df_folder = folder, df_name = name, df_content = content\<rparr>"
  have g: "f\<lparr>df_content := content\<rparr> = ?new" using assms(4) by (cases f) (simp add: named_def)
  have same: "h = f" if "h \<in> fs" "df_id h = df_id f" for h
    using assms(1,3) that by (auto simp: store_ok_def dest: inj_onD)
  have eq: "(\<lambda>g. if df_id g = df_id f then g\<lparr>df_content := content\<rparr> else g) ` fs = insert ?new ?rest"
  proof (intro set_eqI iffI)
    fix x assume "x \<in> (\<lambda>g. if df_id g = df_id f then g\<lparr>df_content := content\<rparr> else g) ` fs"
    then show "x \<in> insert ?new ?rest" using same g by (auto split: if_splits)
  next
    fix x assume "x \<in> insert ?new ?rest"
    then show "x \<in> (\<lambda>g. if df_id g = df_id f then g\<lparr>df_content := content\<rparr> else g) ` fs"
      using assms(3) g by (auto intro: rev_image_eqI)
  qed
  have one: "h = f" if "h \<in> fs" "named folder name h" for h
    using assms(1,3,4) that by (auto simp: store_ok_def named_def inj_on_def)
  have d: "refined fs folder (objs(name := None)) ?rest" using store_delete [OF assms] .
  have "refined ?rest folder ((objs(name := None))(name \<mapsto> content)) (insert ?new ?rest)"
    by (rule store_create) (use d one assms(1,3) in \<open>auto simp: refined_def store_ok_def\<close>)
  then show ?thesis unfolding eq using refined_trans [OF d] by simp
qed

lemma store_same: "store_ok fs \<Longrightarrow> represents fs folder objs \<Longrightarrow> refined fs folder objs fs"
  by (simp add: refined_def)

text \<open>A world of a provider with a service behind it stands for objects and local files.\<close>

definition clean :: "(string \<Rightarrow> string option) \<Rightarrow> bool" where
  "clean m \<longleftrightarrow> (\<forall>k content. m k = Some content \<longrightarrow> find_str (delimiter kMultipartBoundary) content = None)"

definition stands_for :: "('p \<Rightarrow> drive_file set) \<Rightarrow> string \<Rightarrow> store \<Rightarrow> 'p drive_world \<Rightarrow> bool" where
  "stands_for files folder st w \<longleftrightarrow> store_ok (files (dw_peer w)) \<and> represents (files (dw_peer w)) folder (fst st) \<and> dw_files w = snd st \<and>
     clean (fst st) \<and> clean (snd st)"

definition outside_ok :: "json_lib \<Rightarrow> 'p drive_env \<Rightarrow> (string \<Rightarrow> bool) \<Rightarrow> ('p \<Rightarrow> drive_file set) \<Rightarrow> drive_provider \<Rightarrow> bool" where
  "outside_ok lib env valid files p \<longleftrightarrow>
     json_text_ok lib \<and> drive_service lib env valid files \<and> tokens_minted lib env valid p \<and> local_ok env"

lemma token_served:
  assumes "outside_ok lib env valid files p"
  obtains t where "drive_access_token lib env p w = (Inr t, w)" "valid t"
proof -
  obtain t where "refresh_access_token lib (de_oauth env (dw_peer w)) (dp_oauth_client p) (dp_refresh_token p) = Inr t" "valid (gt_access_token t)"
    using assms unfolding outside_ok_def tokens_minted_def by blast
  then show thesis using that by (simp add: drive_access_token_def)
qed

lemma read_served:
  assumes "outside_ok lib env valid files p"
  shows "read_whole_file env path w =
    ((case dw_files w path of Some c \<Rightarrow> Inr c | None \<Rightarrow> Inl (StorageError ''Unavailable'' ''could not open staged file for Drive upload'')), w)"
  using assms by (auto simp: outside_ok_def local_ok_def read_whole_file_def split: option.split)

lemma upload_served:
  assumes "outside_ok lib env valid files p" "valid t" "dw_files w path = Some content" "find_str (delimiter kMultipartBoundary) content = None"
    and "store_ok (files (dw_peer w))" "represents (files (dw_peer w)) folder objs" "\<not> (\<exists>f \<in> files (dw_peer w). named folder name f)"
  obtains i w' where "upload_file lib env t folder name path w = (Inr i, w')" "dw_files w' = dw_files w"
    "refined (files (dw_peer w)) folder (objs(name \<mapsto> content)) (files (dw_peer w'))"
proof -
  let ?req = "\<lparr>dq_method = ''POST'', dq_target = kUploadPath @ ''?uploadType=multipart'',
     dq_headers = drive_headers t @ [(''Content-Type'', ''multipart/related; boundary='' @ kMultipartBoundary)],
     dq_body = multipart_body (lib_dump lib (upload_metadata folder name)) content\<rparr>"
  have sv: "drive_service lib env valid files" and js: "json_text_ok lib" using assms(1) by (simp_all add: outside_ok_def)
  have c: "drive_call_of lib ?req = Some (Create name folder content)" by (rule create_read [OF js assms(4)]) simp_all
  obtain status body w' where e: "drive_exchange env ?req w = (Inr \<lparr>dr_status = status, dr_body = body\<rparr>, w')" "dw_files w' = dw_files w"
      "served lib (Create name folder content) (files (dw_peer w)) status body (files (dw_peer w'))"
    by (rule service_exchange [OF sv assms(2) _ c, of w]) simp_all
  obtain i es where i: "success status" "id_ok i" "i \<notin> df_id ` files (dw_peer w)"
      "files (dw_peer w') = insert \<lparr>df_id = i, df_folder = folder, df_name = name, df_content = content\<rparr> (files (dw_peer w))"
      "lib_parse lib body = Some (json_object (es @ [(''id'', JStr i)]))"
    using e(3) by auto
  have "upload_file lib env t folder name path w = (Inr i, w')"
    using e(1) i(1,5) found_id [OF i(2), of es] assms(3)
    by (simp add: upload_file_def then_do_def read_served [OF assms(1)] catching_def string_exchange_def catch_with_def give_def andthen_def
      check_ok_def success_def parse_body_def)
  then show thesis using that [of i w'] e(2) store_create [OF assms(5,6,7) i(2,3), of content] i(4) by simp
qed

lemma replace_served:
  assumes "outside_ok lib env valid files p" "valid t" "dw_files w path = Some content"
    and "store_ok (files (dw_peer w))" "represents (files (dw_peer w)) folder objs" "f \<in> files (dw_peer w)" "named folder name f"
  obtains w' where "replace_file_content env t (df_id f) path w = (Inr (), w')" "dw_files w' = dw_files w"
    "refined (files (dw_peer w)) folder (objs(name \<mapsto> content)) (files (dw_peer w'))"
proof -
  let ?req = "\<lparr>dq_method = ''PATCH'', dq_target = kUploadPath @ ''/'' @ df_id f @ ''?uploadType=media'',
     dq_headers = drive_headers t @ [(''Content-Type'', ''application/octet-stream'')], dq_body = content\<rparr>"
  have sv: "drive_service lib env valid files" using assms(1) by (simp add: outside_ok_def)
  have "id_ok (df_id f)" using assms(4,6) by (simp add: store_ok_def)
  then have c: "drive_call_of lib ?req = Some (Replace (df_id f) content)" using replace_read [of ?req] by simp
  obtain status body w' where e: "drive_exchange env ?req w = (Inr \<lparr>dr_status = status, dr_body = body\<rparr>, w')" "dw_files w' = dw_files w"
      "served lib (Replace (df_id f) content) (files (dw_peer w)) status body (files (dw_peer w'))"
    by (rule service_exchange [OF sv assms(2) _ c, of w]) simp_all
  have s: "success status"
      "files (dw_peer w') = (\<lambda>g. if df_id g = df_id f then g\<lparr>df_content := content\<rparr> else g) ` files (dw_peer w)"
    using e(3) assms(6) by auto
  have "replace_file_content env t (df_id f) path w = (Inr (), w')"
    using e(1) s(1) assms(3)
    by (simp add: replace_file_content_def then_do_def read_served [OF assms(1)] catching_def string_exchange_def catch_with_def give_def
      check_ok_def success_def)
  then show thesis using that [of w'] e(2) store_replace [OF assms(4-7), of content] s(2) by simp
qed

lemma download_served:
  assumes "outside_ok lib env valid files p" "valid t" "store_ok (files (dw_peer w))" "f \<in> files (dw_peer w)"
  obtains w' where "download_file env t (df_id f) path w = (Inr (), w')" "dw_files w' = (dw_files w)(path \<mapsto> df_content f)"
    "files (dw_peer w') = files (dw_peer w)"
proof -
  let ?req = "\<lparr>dq_method = ''GET'', dq_target = kFilesPath @ ''/'' @ df_id f @ ''?alt=media'', dq_headers = drive_headers t, dq_body = []\<rparr>"
  let ?w = "w\<lparr>dw_files := (dw_files w)(path \<mapsto> [])\<rparr>"
  have sv: "drive_service lib env valid files" using assms(1) by (simp add: outside_ok_def)
  have "id_ok (df_id f)" using assms(3,4) by (simp add: store_ok_def)
  then have c: "drive_call_of lib ?req = Some (Media (df_id f))" using media_read [of ?req] by simp
  have auth: "map_of (dq_headers ?req) ''Authorization'' = Some (''Bearer '' @ t)" by simp
  obtain status body w' where e: "drive_exchange env ?req ?w = (Inr \<lparr>dr_status = status, dr_body = body\<rparr>, w')" "dw_files w' = dw_files ?w"
      "served lib (Media (df_id f)) (files (dw_peer ?w)) status body (files (dw_peer w'))"
    by (rule service_exchange [OF sv assms(2) auth c, of ?w])
  have s: "success status" "body = df_content f" "files (dw_peer w') = files (dw_peer w)"
    using e(3) assms(3,4) by (auto simp: store_ok_def dest: inj_onD)
  have "de_mkdir_error env (dw_peer w) path = None" "de_download_error env (dw_peer w) path = None"
    using assms(1) by (simp_all add: outside_ok_def local_ok_def)
  then have "download_file env t (df_id f) path w = (Inr (), w'\<lparr>dw_files := (dw_files w')(path \<mapsto> df_content f)\<rparr>)"
    using e(1) s(1,2) by (simp add: download_file_def download_try_def success_def)
  then show thesis using that e(2) s(3) by simp
qed

lemma delete_served:
  assumes "outside_ok lib env valid files p" "valid t"
    and "store_ok (files (dw_peer w))" "represents (files (dw_peer w)) folder objs" "f \<in> files (dw_peer w)" "named folder name f"
  obtains w' where "delete_file lib env t (df_id f) w = (Inr (), w')" "dw_files w' = dw_files w"
    "refined (files (dw_peer w)) folder (objs(name := None)) (files (dw_peer w'))"
proof -
  let ?req = "\<lparr>dq_method = ''DELETE'', dq_target = kFilesPath @ ''/'' @ df_id f, dq_headers = drive_headers t @ [], dq_body = []\<rparr>"
  have sv: "drive_service lib env valid files" using assms(1) by (simp add: outside_ok_def)
  have "id_ok (df_id f)" using assms(3,5) by (simp add: store_ok_def)
  then have c: "drive_call_of lib ?req = Some (Delete (df_id f))" by (intro delete_read) simp_all
  obtain status body w' where e: "drive_exchange env ?req w = (Inr \<lparr>dr_status = status, dr_body = body\<rparr>, w')" "dw_files w' = dw_files w"
      "served lib (Delete (df_id f)) (files (dw_peer w)) status body (files (dw_peer w'))"
    by (rule service_exchange [OF sv assms(2) _ c, of w]) simp_all
  have s: "success status" "files (dw_peer w') = {g \<in> files (dw_peer w). df_id g \<noteq> df_id f}" using e(3) assms(5) by auto
  have "delete_file lib env t (df_id f) w = (Inr (), w')"
    using e(1) s(1)
    by (simp add: delete_file_def then_do_def json_request_def catching_def string_exchange_def catch_with_def give_def check_ok_def success_def)
  then show thesis using that [of w'] e(2) store_delete [OF assms(3-6)] s(2) by simp
qed

subsection \<open>Lemmas: the provider is a store\<close>

text \<open>Every operation begins with a token and a search.\<close>

lemma located:
  assumes "outside_ok lib env valid files p" "stands_for files (dp_folder_id p) st w"
  obtains objs t r w1 where "st = (objs, dw_files w1)" "clean objs" "clean (dw_files w1)" "valid t"
    "drive_access_token lib env p w = (Inr t, w)" "find_file_id lib env t (dp_folder_id p) key w = (Inr r, w1)"
    "files (dw_peer w1) = files (dw_peer w)" "store_ok (files (dw_peer w1))" "represents (files (dw_peer w1)) (dp_folder_id p) objs"
    "case r of None \<Rightarrow> \<not> (\<exists>f \<in> files (dw_peer w1). named (dp_folder_id p) key f)
     | Some i \<Rightarrow> \<exists>f \<in> files (dw_peer w1). named (dp_folder_id p) key f \<and> df_id f = i"
proof -
  have st: "snd st = dw_files w" "clean (fst st)" "clean (snd st)" "store_ok (files (dw_peer w))"
      "represents (files (dw_peer w)) (dp_folder_id p) (fst st)"
    using assms(2) by (auto simp: stands_for_def)
  have sv: "drive_service lib env valid files" using assms(1) by (simp add: outside_ok_def)
  obtain t where t: "drive_access_token lib env p w = (Inr t, w)" "valid t" by (rule token_served [OF assms(1)])
  obtain r w1 where f: "find_file_id lib env t (dp_folder_id p) key w = (Inr r, w1)" "dw_files w1 = dw_files w"
      "files (dw_peer w1) = files (dw_peer w)"
      "case r of None \<Rightarrow> \<not> (\<exists>f \<in> files (dw_peer w). named (dp_folder_id p) key f)
       | Some i \<Rightarrow> \<exists>f \<in> files (dw_peer w). named (dp_folder_id p) key f \<and> df_id f = i"
    by (rule find_served [OF sv t(2), of w, OF st(4)])
  show thesis using that [of "fst st" w1 t r] st t f by (metis prod.collapse)
qed

lemma put_refines:
  assumes "outside_ok lib env valid files p" "stands_for files (dp_folder_id p) st w"
  shows "\<exists>w'. drive_do lib env p (PutObject key path len sha) w = (fst (store_do (PutObject key path len sha) st), w') \<and>
     stands_for files (dp_folder_id p) (snd (store_do (PutObject key path len sha) st)) w' \<and>
     elsewhere (files (dw_peer w')) (dp_folder_id p) = elsewhere (files (dw_peer w)) (dp_folder_id p)"
proof -
  obtain objs t r w1 where st: "st = (objs, dw_files w1)" "clean objs" "clean (dw_files w1)" and t: "valid t"
      and f: "drive_access_token lib env p w = (Inr t, w)" "find_file_id lib env t (dp_folder_id p) key w = (Inr r, w1)"
      and same: "files (dw_peer w1) = files (dw_peer w)"
      and st1: "store_ok (files (dw_peer w1))" "represents (files (dw_peer w1)) (dp_folder_id p) objs"
      and r: "case r of None \<Rightarrow> \<not> (\<exists>f \<in> files (dw_peer w1). named (dp_folder_id p) key f)
        | Some i \<Rightarrow> \<exists>f \<in> files (dw_peer w1). named (dp_folder_id p) key f \<and> df_id f = i"
    by (rule located [OF assms]) blast
  show ?thesis
  proof (cases "dw_files w1 path")
    case None
    then show ?thesis using st st1 same
      by (cases r) (simp_all add: drive_put_def then_do_def f upload_file_def replace_file_content_def read_served [OF assms(1)] stands_for_def)
  next
    case (Some content)
    have c: "find_str (delimiter kMultipartBoundary) content = None" "clean (objs(key \<mapsto> content))"
      using st(2,3) Some by (auto simp: clean_def)
    have "\<exists>w'. drive_put lib env p key path len sha w = (Inr (), w') \<and> dw_files w' = dw_files w1 \<and>
        refined (files (dw_peer w1)) (dp_folder_id p) (objs(key \<mapsto> content)) (files (dw_peer w'))"
    proof (cases r)
      case None
      then have n: "\<not> (\<exists>f \<in> files (dw_peer w1). named (dp_folder_id p) key f)" using r by simp
      show ?thesis
        by (rule upload_served [OF assms(1) t Some c(1) st1 n]) (simp add: drive_put_def then_do_def f None give_def)
    next
      case i: (Some i)
      then obtain g where g: "g \<in> files (dw_peer w1)" "named (dp_folder_id p) key g" "df_id g = i" using r by auto
      show ?thesis
        by (rule replace_served [OF assms(1) t Some st1 g(1,2)]) (simp add: drive_put_def then_do_def f i g(3))
    qed
    then show ?thesis using st(1,3) c(2) Some same by (auto simp: stands_for_def refined_def)
  qed
qed

lemma represents_None: "represents fs folder objs \<Longrightarrow> \<not> (\<exists>f \<in> fs. named folder name f) \<Longrightarrow> objs name = None"
  by (cases "objs name") (auto simp: represents_def)

lemma represents_Some: "represents fs folder objs \<Longrightarrow> f \<in> fs \<Longrightarrow> named folder name f \<Longrightarrow> objs name = Some (df_content f)"
  by (auto simp: represents_def)

lemma get_refines:
  assumes "outside_ok lib env valid files p" "stands_for files (dp_folder_id p) st w"
  shows "\<exists>w'. drive_do lib env p (GetObject key path) w = (fst (store_do (GetObject key path) st), w') \<and>
     stands_for files (dp_folder_id p) (snd (store_do (GetObject key path) st)) w' \<and>
     elsewhere (files (dw_peer w')) (dp_folder_id p) = elsewhere (files (dw_peer w)) (dp_folder_id p)"
proof -
  obtain objs t r w1 where st: "st = (objs, dw_files w1)" "clean objs" "clean (dw_files w1)" and t: "valid t"
      and f: "drive_access_token lib env p w = (Inr t, w)" "find_file_id lib env t (dp_folder_id p) key w = (Inr r, w1)"
      and same: "files (dw_peer w1) = files (dw_peer w)"
      and st1: "store_ok (files (dw_peer w1))" "represents (files (dw_peer w1)) (dp_folder_id p) objs"
      and r: "case r of None \<Rightarrow> \<not> (\<exists>f \<in> files (dw_peer w1). named (dp_folder_id p) key f)
        | Some i \<Rightarrow> \<exists>f \<in> files (dw_peer w1). named (dp_folder_id p) key f \<and> df_id f = i"
    by (rule located [OF assms]) blast
  show ?thesis
  proof (cases r)
    case None
    then show ?thesis using represents_None [OF st1(2), of key] r st st1 same
      by (simp add: drive_get_def then_do_def f give_def stands_for_def)
  next
    case (Some i)
    then obtain g where g: "g \<in> files (dw_peer w1)" "named (dp_folder_id p) key g" "df_id g = i" using r by auto
    have o: "objs key = Some (df_content g)" by (rule represents_Some [OF st1(2) g(1,2)])
    have "clean ((dw_files w1)(path \<mapsto> df_content g))" using st(2,3) o by (auto simp: clean_def)
    moreover obtain w' where "download_file env t i path w1 = (Inr (), w')" "dw_files w' = (dw_files w1)(path \<mapsto> df_content g)"
        "files (dw_peer w') = files (dw_peer w1)"
      using download_served [OF assms(1) t st1(1) g(1), of path] unfolding g(3) .
    ultimately show ?thesis using st st1 same o by (simp add: drive_get_def then_do_def f Some stands_for_def)
  qed
qed

lemma has_refines:
  assumes "outside_ok lib env valid files p" "stands_for files (dp_folder_id p) st w"
  shows "\<exists>w'. drive_do lib env p (HasObject key) w = (fst (store_do (HasObject key) st), w') \<and>
     stands_for files (dp_folder_id p) (snd (store_do (HasObject key) st)) w' \<and>
     elsewhere (files (dw_peer w')) (dp_folder_id p) = elsewhere (files (dw_peer w)) (dp_folder_id p)"
proof -
  obtain objs t r w1 where st: "st = (objs, dw_files w1)" "clean objs" "clean (dw_files w1)" and t: "valid t"
      and f: "drive_access_token lib env p w = (Inr t, w)" "find_file_id lib env t (dp_folder_id p) key w = (Inr r, w1)"
      and same: "files (dw_peer w1) = files (dw_peer w)"
      and st1: "store_ok (files (dw_peer w1))" "represents (files (dw_peer w1)) (dp_folder_id p) objs"
      and r: "case r of None \<Rightarrow> \<not> (\<exists>f \<in> files (dw_peer w1). named (dp_folder_id p) key f)
        | Some i \<Rightarrow> \<exists>f \<in> files (dw_peer w1). named (dp_folder_id p) key f \<and> df_id f = i"
    by (rule located [OF assms]) blast
  have "(r \<noteq> None) = (objs key \<noteq> None)"
    using r represents_None [OF st1(2), of key] represents_Some [OF st1(2), of _ key] by (cases r) auto
  then show ?thesis using st st1 same by (simp add: drive_exists_def then_do_def f give_def stands_for_def)
qed

lemma drop_refines:
  assumes "outside_ok lib env valid files p" "stands_for files (dp_folder_id p) st w"
  shows "\<exists>w'. drive_do lib env p (DropObject key) w = (fst (store_do (DropObject key) st), w') \<and>
     stands_for files (dp_folder_id p) (snd (store_do (DropObject key) st)) w' \<and>
     elsewhere (files (dw_peer w')) (dp_folder_id p) = elsewhere (files (dw_peer w)) (dp_folder_id p)"
proof -
  obtain objs t r w1 where st: "st = (objs, dw_files w1)" "clean objs" "clean (dw_files w1)" and t: "valid t"
      and f: "drive_access_token lib env p w = (Inr t, w)" "find_file_id lib env t (dp_folder_id p) key w = (Inr r, w1)"
      and same: "files (dw_peer w1) = files (dw_peer w)"
      and st1: "store_ok (files (dw_peer w1))" "represents (files (dw_peer w1)) (dp_folder_id p) objs"
      and r: "case r of None \<Rightarrow> \<not> (\<exists>f \<in> files (dw_peer w1). named (dp_folder_id p) key f)
        | Some i \<Rightarrow> \<exists>f \<in> files (dw_peer w1). named (dp_folder_id p) key f \<and> df_id f = i"
    by (rule located [OF assms]) blast
  have c: "clean (objs(key := None))" using st(2) by (auto simp: clean_def)
  show ?thesis
  proof (cases r)
    case None
    then have "objs(key := None) = objs" using represents_None [OF st1(2), of key] r by auto
    then show ?thesis using st st1 same None by (simp add: drive_remove_def then_do_def f give_def stands_for_def)
  next
    case (Some i)
    then obtain g where g: "g \<in> files (dw_peer w1)" "named (dp_folder_id p) key g" "df_id g = i" using r by auto
    show ?thesis
      by (rule delete_served [OF assms(1) t st1 g(1,2)])
        (use st c same in \<open>simp add: drive_remove_def then_do_def f Some g(3) stands_for_def refined_def\<close>)
  qed
qed

lemma call_refines:
  assumes "outside_ok lib env valid files p" "stands_for files (dp_folder_id p) st w"
  shows "\<exists>w'. drive_do lib env p call w = (fst (store_do call st), w') \<and>
     stands_for files (dp_folder_id p) (snd (store_do call st)) w' \<and>
     elsewhere (files (dw_peer w')) (dp_folder_id p) = elsewhere (files (dw_peer w)) (dp_folder_id p)"
  by (cases call) (simp_all only: put_refines [OF assms] get_refines [OF assms] has_refines [OF assms] drop_refines [OF assms])

subsection \<open>Lemmas: what is sent, whatever is answered\<close>

definition asked_once :: "drive_request \<Rightarrow> 'p drive_world \<Rightarrow> 'p drive_world \<Rightarrow> bool" where
  "asked_once req w w' \<longleftrightarrow> dw_log w' = dw_log w \<or> dw_log w' = dw_log w @ [Asked req] \<or>
     (\<exists>status body. dw_log w' = dw_log w @ [Asked req, GotAnswer status body])"

lemma exchange_asks:
  assumes "drive_exchange env req w = (x, w')"
  shows "asked_once req w w' \<and> dw_files w' = dw_files w \<and>
    (\<forall>resp. x = Inr resp \<longrightarrow> dw_log w' = dw_log w @ [Asked req, GotAnswer (dr_status resp) (dr_body resp)])"
  using assms by (auto simp: drive_exchange_def asked_once_def split: sum.splits prod.splits option.splits)

lemma string_exchange_asks:
  assumes "string_exchange env req w = (x, w')"
  shows "asked_once req w w' \<and> dw_files w' = dw_files w \<and>
    (\<forall>resp. x = Inr resp \<longrightarrow> dw_log w' = dw_log w @ [Asked req, GotAnswer (dr_status resp) (dr_body resp)])"
  using assms exchange_asks [of env req w] by (auto simp: string_exchange_def split: sum.splits prod.splits)

definition bearer :: "drive_request \<Rightarrow> string \<Rightarrow> bool" where
  "bearer req t \<longleftrightarrow> map_of (dq_headers req) ''Authorization'' = Some (''Bearer '' @ t)"

lemma json_request_asks:
  assumes "json_request lib env m target t j w = (x, w')"
  obtains req where "dq_method req = m" "dq_target req = target" "bearer req t"
    "asked_once req w w'" "dw_files w' = dw_files w"
    "\<forall>resp. x = Inr resp \<longrightarrow> dw_log w' = dw_log w @ [Asked req, GotAnswer (dr_status resp) (dr_body resp)]"
proof -
  let ?req = "\<lparr>dq_method = m, dq_target = target,
     dq_headers = drive_headers t @ (case j of Some _ \<Rightarrow> [(''Content-Type'', ''application/json; charset=UTF-8'')] | None \<Rightarrow> []),
     dq_body = (case j of Some j \<Rightarrow> lib_dump lib j | None \<Rightarrow> [])\<rparr>"
  obtain y where y: "string_exchange env ?req w = (y, w')" "x = catch_with (unavailable (de_json_what env) ''Drive request failed: '') y"
    using assms by (auto simp: json_request_def catching_def split: prod.splits)
  then have "\<And>resp. x = Inr resp \<Longrightarrow> y = Inr resp" by (auto simp: catch_with_def split: sum.splits)
  then show thesis using that [of ?req] string_exchange_asks [OF y(1)] by (simp add: bearer_def)
qed

definition search_answered :: "json_lib \<Rightarrow> drive_request \<Rightarrow> string option \<Rightarrow> 'p drive_world \<Rightarrow> 'p drive_world \<Rightarrow> bool" where
  "search_answered lib s found w w' \<longleftrightarrow>
     (\<exists>status body j. dw_log w' = dw_log w @ [Asked s, GotAnswer status body] \<and> success status \<and>
        lib_parse lib body = Some j \<and> first_file_id j = Inr found)"

lemma scope_asks:
  assumes "find_file_id_in_scope lib env t query w = (x, w')"
  obtains s where "bearer s t" "dq_method s = ''GET''" "dq_target s = search_target query" "asked_once s w w'" "dw_files w' = dw_files w"
    "\<forall>found. x = Inr found \<longrightarrow> search_answered lib s found w w'"
proof -
  obtain y w1 where y: "json_request lib env ''GET'' (search_target query) t None w = (y, w1)" by fastforce
  obtain s where s: "dq_method s = ''GET''" "dq_target s = search_target query" "bearer s t" "asked_once s w w1" "dw_files w1 = dw_files w"
      "\<forall>resp. y = Inr resp \<longrightarrow> dw_log w1 = dw_log w @ [Asked s, GotAnswer (dr_status resp) (dr_body resp)]"
    by (rule json_request_asks [OF y])
  have w: "w' = w1" using assms y by (auto simp: find_file_id_in_scope_def then_do_def give_def split: sum.splits)
  have "search_answered lib s found w w'" if "x = Inr found" for found
    using assms that y s(6)
    by (auto simp: find_file_id_in_scope_def then_do_def give_def andthen_eq_Inr check_ok_def success_def
      catch_with_def parse_body_def search_answered_def split: sum.splits if_splits option.splits)
  then show thesis using that [of s] s w by blast
qed

lemma find_asks:
  assumes "find_file_id lib env t folder name w = (x, w')"
  obtains s where "bearer s t" "drive_call_of lib s = Some (Search name folder)" "asked_once s w w'" "dw_files w' = dw_files w"
    "\<forall>found. x = Inr found \<longrightarrow> search_answered lib s found w w'"
  by (rule scope_asks [OF assms [unfolded find_file_id_def]]) (use that search_read in blast)

lemma required_file_id_ne: "required_file_id j = Inr i \<Longrightarrow> i \<noteq> []"
  by (auto simp: required_file_id_def andthen_eq_Inr split: if_splits)

text \<open>A folder is created only after a search that was answered with an empty list, and its identifier is what the service gave.\<close>

lemma folder_found_or_created:
  assumes "find_or_create_folder lib env t name parent w = (Inr i, w')"
  shows "\<exists>s. bearer s t \<and> dq_target s = search_target (folder_query name parent) \<and>
    (search_answered lib s (Some i) w w' \<or>
     (\<exists>w1 req status body. search_answered lib s None w w1 \<and> bearer req t \<and> dq_method req = ''POST'' \<and> dq_target req = kFilesPath \<and>
        dw_log w' = dw_log w1 @ [Asked req, GotAnswer status body] \<and> success status \<and> i \<noteq> []))"
proof -
  obtain x w1 where x: "find_file_id_in_scope lib env t (folder_query name parent) w = (x, w1)" by fastforce
  obtain s where s: "bearer s t" "dq_target s = search_target (folder_query name parent)"
      "\<forall>found. x = Inr found \<longrightarrow> search_answered lib s found w w1"
    by (rule scope_asks [OF x])
  obtain found where f: "x = Inr found" using assms x by (cases x) (auto simp: find_or_create_folder_def then_do_def)
  show ?thesis
  proof (cases found)
    case (Some k)
    then show ?thesis using assms x f s by (auto simp: find_or_create_folder_def then_do_def give_def)
  next
    case None
    obtain y w2 where y: "json_request lib env ''POST'' kFilesPath t (Some (folder_metadata name parent)) w1 = (y, w2)" by fastforce
    obtain req where r: "dq_method req = ''POST''" "dq_target req = kFilesPath" "bearer req t"
        "\<forall>resp. y = Inr resp \<longrightarrow> dw_log w2 = dw_log w1 @ [Asked req, GotAnswer (dr_status resp) (dr_body resp)]"
      by (rule json_request_asks [OF y])
    obtain resp where "y = Inr resp" "success (dr_status resp)" "w' = w2" "i \<noteq> []"
      using assms x f None y
      by (auto simp: find_or_create_folder_def then_do_def give_def andthen_eq_Inr check_ok_def success_def catch_with_def
        dest: required_file_id_ne split: sum.splits if_splits)
    then show ?thesis using s f None r by blast
  qed
qed

text \<open>The second request of an operation, by what the search found.\<close>

definition follows :: "string \<Rightarrow> string \<Rightarrow> json_lib \<Rightarrow> string option \<Rightarrow> drive_request \<Rightarrow> bool" where
  "follows folder key lib found req \<longleftrightarrow>
     (case found of
        None \<Rightarrow> dq_method req = ''POST'' \<and> dq_target req = kUploadPath @ ''?uploadType=multipart'' \<and>
          (\<exists>content. dq_body req = multipart_body (lib_dump lib (upload_metadata folder key)) content)
      | Some i \<Rightarrow> (dq_method req, dq_target req) \<in>
          {(''PATCH'', kUploadPath @ ''/'' @ i @ ''?uploadType=media''), (''GET'', kFilesPath @ ''/'' @ i @ ''?alt=media''),
           (''DELETE'', kFilesPath @ ''/'' @ i)})"

definition second_ok :: "string \<Rightarrow> string \<Rightarrow> string \<Rightarrow> json_lib \<Rightarrow> string option \<Rightarrow> 'p drive_world \<Rightarrow> 'p drive_world \<Rightarrow> bool" where
  "second_ok t folder key lib found w w' \<longleftrightarrow> (\<exists>req. bearer req t \<and> follows folder key lib found req \<and> asked_once req w w')"

lemma asked_none: "dw_log w' = dw_log w \<Longrightarrow> asked_once req w w'"
  by (simp add: asked_once_def)

lemma read_asks: "read_whole_file env path w = (x, w') \<Longrightarrow> w' = w"
  by (auto simp: read_whole_file_def split: option.splits if_splits)

lemma upload_second: "second_ok t folder key lib None w (snd (upload_file lib env t folder key path w))"
  and upload_files: "dw_files (snd (upload_file lib env t folder key path w)) = dw_files w"
proof -
  let ?req = "\<lambda>content. \<lparr>dq_method = ''POST'', dq_target = kUploadPath @ ''?uploadType=multipart'',
     dq_headers = drive_headers t @ [(''Content-Type'', ''multipart/related; boundary='' @ kMultipartBoundary)],
     dq_body = multipart_body (lib_dump lib (upload_metadata folder key)) content\<rparr>"
  have f: "bearer (?req c) t" "follows folder key lib None (?req c)" for c by (auto simp: bearer_def follows_def)
  obtain x where r: "read_whole_file env path w = (x, w)" by (metis read_asks surj_pair)
  obtain y w' where e: "string_exchange env (?req (case x of Inr c \<Rightarrow> c | Inl _ \<Rightarrow> [])) w = (y, w')" by fastforce
  show "second_ok t folder key lib None w (snd (upload_file lib env t folder key path w))"
    using f r e string_exchange_asks [OF e] unfolding second_ok_def
    by (cases x; cases y) (auto simp: upload_file_def then_do_def catching_def give_def asked_none)
  show "dw_files (snd (upload_file lib env t folder key path w)) = dw_files w"
    using r e string_exchange_asks [OF e] by (cases x; cases y) (auto simp: upload_file_def then_do_def catching_def give_def)
qed

lemma replace_second: "second_ok t folder key lib (Some i) w (snd (replace_file_content env t i path w))"
  and replace_files: "dw_files (snd (replace_file_content env t i path w)) = dw_files w"
proof -
  let ?req = "\<lambda>content. \<lparr>dq_method = ''PATCH'', dq_target = kUploadPath @ ''/'' @ i @ ''?uploadType=media'',
     dq_headers = drive_headers t @ [(''Content-Type'', ''application/octet-stream'')], dq_body = content\<rparr>"
  have f: "bearer (?req c) t" "follows folder key lib (Some i) (?req c)" for c by (auto simp: bearer_def follows_def)
  obtain x where r: "read_whole_file env path w = (x, w)" by (metis read_asks surj_pair)
  obtain y w' where e: "string_exchange env (?req (case x of Inr c \<Rightarrow> c | Inl _ \<Rightarrow> [])) w = (y, w')" by fastforce
  show "second_ok t folder key lib (Some i) w (snd (replace_file_content env t i path w))"
    using f r e string_exchange_asks [OF e] unfolding second_ok_def
    by (cases x; cases y) (auto simp: replace_file_content_def then_do_def catching_def give_def asked_none)
  show "dw_files (snd (replace_file_content env t i path w)) = dw_files w"
    using r e string_exchange_asks [OF e] by (cases x; cases y) (auto simp: replace_file_content_def then_do_def catching_def give_def)
qed

lemma delete_second: "second_ok t folder key lib (Some i) w (snd (delete_file lib env t i w))"
  and delete_files: "dw_files (snd (delete_file lib env t i w)) = dw_files w"
proof -
  obtain y w' where y: "json_request lib env ''DELETE'' (kFilesPath @ ''/'' @ i) t None w = (y, w')" by fastforce
  then have d: "snd (delete_file lib env t i w) = w'" by (auto simp: delete_file_def then_do_def give_def split: sum.splits)
  show "second_ok t folder key lib (Some i) w (snd (delete_file lib env t i w))" "dw_files (snd (delete_file lib env t i w)) = dw_files w"
    unfolding d by (rule json_request_asks [OF y]; auto simp: second_ok_def follows_def)+
qed

lemma drive_unlink_log [simp]: "dw_log (drive_unlink env path w) = dw_log w"
  by (simp add: drive_unlink_def)

text \<open>A download asks once; it succeeds with the whole answer in the destination, or leaves no file there.\<close>

lemma download_cases:
  assumes "download_file env t i path w = (x, w')"
  obtains req where "bearer req t" "follows folder key lib (Some i) req" "asked_once req w w'"
    "\<And>q. q \<noteq> path \<Longrightarrow> dw_files w' q = dw_files w q"
    "\<And>u. x = Inr u \<Longrightarrow> \<exists>status body. dw_log w' = dw_log w @ [Asked req, GotAnswer status body] \<and> success status \<and> dw_files w' path = Some body"
    "isl x \<Longrightarrow> (\<And>q. de_unlink_ok env q path) \<Longrightarrow> dw_files w' path = None"
proof -
  let ?req = "\<lparr>dq_method = ''GET'', dq_target = kFilesPath @ ''/'' @ i @ ''?alt=media'', dq_headers = drive_headers t, dq_body = []\<rparr>"
  obtain y w1 where y: "drive_exchange env ?req (w\<lparr>dw_files := (dw_files w)(path \<mapsto> [])\<rparr>) = (y, w1)" by fastforce
  note e = exchange_asks [OF y]
  have "bearer ?req t" "follows folder key lib (Some i) ?req" by (auto simp: bearer_def follows_def)
  then show thesis using assms y e
    by (intro that [of ?req])
      (auto simp: download_file_def download_try_def drive_unlink_def asked_once_def success_def Let_def
        split: option.splits sum.splits if_splits prod.splits)
qed

fun key_of :: "store_call \<Rightarrow> string" where
  "key_of (PutObject key _ _ _) = key"
| "key_of (GetObject key _) = key"
| "key_of (HasObject key) = key"
| "key_of (DropObject key) = key"

text \<open>What an operation does after the search.\<close>

fun drive_rest :: "json_lib \<Rightarrow> 'p drive_env \<Rightarrow> drive_provider \<Rightarrow> store_call \<Rightarrow> string \<Rightarrow> string option \<Rightarrow> 'p drive_world \<Rightarrow> 'p drive_world" where
  "drive_rest lib env p (PutObject key path _ _) t None w = snd (upload_file lib env t (dp_folder_id p) key path w)"
| "drive_rest lib env p (PutObject key path _ _) t (Some i) w = snd (replace_file_content env t i path w)"
| "drive_rest lib env p (GetObject key path) t (Some i) w = snd (download_file env t i path w)"
| "drive_rest lib env p (DropObject key) t (Some i) w = snd (delete_file lib env t i w)"
| "drive_rest lib env p _ t _ w = w"

lemma drive_do_rest:
  "snd (drive_do lib env p call w) =
     (case drive_access_token lib env p w of
        (Inl _, _) \<Rightarrow> w
      | (Inr t, _) \<Rightarrow>
          (case find_file_id lib env t (dp_folder_id p) (key_of call) w of
             (Inl _, w1) \<Rightarrow> w1
           | (Inr found, w1) \<Rightarrow> drive_rest lib env p call t found w1))"
  by (cases call)
    (auto simp: drive_put_def drive_get_def drive_exists_def drive_remove_def then_do_def give_def drive_access_token_def
      split: sum.splits prod.splits option.splits)

lemma drive_rest_asks:
  "dw_log (drive_rest lib env p call t found w) = dw_log w \<or>
   second_ok t (dp_folder_id p) (key_of call) lib found w (drive_rest lib env p call t found w)"
proof (cases "\<exists>key path i. call = GetObject key path \<and> found = Some i")
  case True
  then obtain key path i where c: "call = GetObject key path" "found = Some i" by blast
  obtain x w' where d: "download_file env t i path w = (x, w')" by fastforce
  show ?thesis
    by (rule download_cases [OF d, of "dp_folder_id p" key lib]) (use c d in \<open>auto simp: second_ok_def\<close>)
next
  case False
  then show ?thesis by (cases call; cases found) (auto simp: upload_second replace_second delete_second)
qed

subsection \<open>A small service\<close>

definition text_lib :: json_lib where
  "text_lib = \<lparr>lib_parse = (\<lambda>s. codec_parse (percent_decode s)), lib_dump = (\<lambda>j. url_encode (enc j)),
               lib_dump2 = (\<lambda>j. url_encode (enc j)), lib_trunc = (\<lambda>_. 0)\<rparr>"

lemma url_encode_no_cr: "CHR 0x0D \<notin> set (url_encode s)"
proof -
  have u: "\<not> is_unreserved (CHR 0x0D)" by (simp add: is_unreserved_def is_alnum_def is_lower_def is_upper_def is_digit_def byte_of_def)
  have h: "CHR 0x0D \<noteq> hex_digit n" if "n < 16" for n
    using that by (auto simp: hex_digit_def less_Suc_eq numeral_eq_Suc)
  have "CHR 0x0D \<notin> set (url_encode_char c)" for c
  proof (cases "is_unreserved c")
    case True
    then have "c \<noteq> CHR 0x0D" using u by blast
    then show ?thesis using True by (simp add: url_encode_char_def)
  next
    case False
    then show ?thesis using h [of "byte_of c div 16 mod 16"] h [of "byte_of c mod 16"] by (simp add: url_encode_char_def)
  qed
  then show ?thesis by (simp add: url_encode_def)
qed

lemma text_lib_ok: "json_text_ok text_lib"
  using codec_parse_enc [of "[]"] by (simp add: json_text_ok_def text_lib_def percent_decode_url_encode url_encode_no_cr)

definition fresh_id :: "drive_file list \<Rightarrow> string" where
  "fresh_id fs = replicate (Suc (sum_list (map (\<lambda>f. length (df_id f)) fs))) CHR ''i''"

lemma fresh_id_fresh: "fresh_id fs \<notin> df_id ` set fs"
proof
  assume "fresh_id fs \<in> df_id ` set fs"
  then obtain f where f: "f \<in> set fs" "df_id f = fresh_id fs" by auto
  have "length (df_id f) \<le> sum_list (map (\<lambda>f. length (df_id f)) fs)" by (rule member_le_sum_list) (use f(1) in auto)
  then have "length (fresh_id fs) \<le> sum_list (map (\<lambda>f. length (df_id f)) fs)" by (simp only: f(2))
  then show False by (simp add: fresh_id_def)
qed

fun small_serve :: "drive_call \<Rightarrow> drive_file list \<Rightarrow> (nat \<times> string) \<times> drive_file list" where
  "small_serve (Search name folder) fs =
     ((200, lib_dump text_lib (json_object
        ([] @ [(''files'', JArr (map (\<lambda>f. json_object [(''id'', JStr (df_id f))]) (filter (named folder name) fs)))]))), fs)"
| "small_serve (Create name folder content) fs =
     ((200, lib_dump text_lib (json_object ([] @ [(''id'', JStr (fresh_id fs))]))),
      \<lparr>df_id = fresh_id fs, df_folder = folder, df_name = name, df_content = content\<rparr> # fs)"
| "small_serve (Replace i content) fs = ((200, []), map (\<lambda>f. if df_id f = i then f\<lparr>df_content := content\<rparr> else f) fs)"
| "small_serve (Media i) fs = ((200, case find (\<lambda>f. df_id f = i) fs of Some f \<Rightarrow> df_content f | None \<Rightarrow> []), fs)"
| "small_serve (Delete i) fs = ((204, []), filter (\<lambda>f. df_id f \<noteq> i) fs)"

definition small_oauth :: oauth_env where
  "small_oauth =
     \<lparr>oe_getenv = (\<lambda>_. None), oe_sha256 = id, oe_base64 = id,
      oe_post_form = (\<lambda>_ _ _. Inr (200, lib_dump text_lib (json_object [(''access_token'', JStr ''t'')]))),
      oe_folder = (\<lambda>_. Inr ''d''), oe_put_location = (\<lambda>_ _. Inr ()), oe_bind = (\<lambda>_ _ _. Inr ()), oe_json_what = (\<lambda>_. [])\<rparr>"

definition small_drive :: "drive_file list drive_env" where
  "small_drive =
     \<lparr>de_oauth = (\<lambda>_. small_oauth), de_json_what = (\<lambda>_. []), de_is_loopback = (\<lambda>_. True), de_resolve = (\<lambda>_ _ _. Inr []),
      de_connect = (\<lambda>_ _ fs. (None, fs)),
      de_exchange = (\<lambda>req fs.
        case drive_call_of text_lib req of
          Some call \<Rightarrow> (case small_serve call fs of (a, fs') \<Rightarrow> (Inr a, fs'))
        | None \<Rightarrow> (Inr (400, []), fs)),
      de_open_ok = (\<lambda>_ _. True), de_read_stops = (\<lambda>_ _. None), de_mkdir_error = (\<lambda>_ _. None), de_download_error = (\<lambda>_ _. None),
      de_unlink_ok = (\<lambda>_ _. True)\<rparr>"

definition small_provider :: drive_provider where
  "small_provider = \<lparr>dp_folder_id = ''d'', dp_refresh_token = ''r'', dp_oauth_client = \<lparr>oc_client_id = ''c'', oc_client_secret = ''s''\<rparr>\<rparr>"

definition small_world :: "drive_file list drive_world" where
  "small_world = \<lparr>dw_files = [''f'' \<mapsto> ''data''], dw_peer = [], dw_test_endpoint = None, dw_log = []\<rparr>"

lemma small_serve_answers:
  "case small_serve call fs of ((status, body), fs') \<Rightarrow> served text_lib call (set fs) status body (set fs')"
proof -
  have p: "lib_parse text_lib (lib_dump text_lib j) = Some j" for j using text_lib_ok by (simp add: json_text_ok_def)
  have i: "id_ok (fresh_id fs)" by (simp add: id_ok_def fresh_id_def)
  show ?thesis
  proof (cases call)
    case (Search name folder)
    then show ?thesis
      by (simp add: success_def p) (rule exI [of _ "filter (named folder name) fs"], auto simp: filter_empty_conv intro!: exI [of _ "[]"])
  next
    case (Create name folder content)
    then show ?thesis using i fresh_id_fresh [of fs]
      by (simp add: success_def p) (rule exI [of _ "fresh_id fs"], auto intro!: exI [of _ "[]"])
  next
    case (Media i)
    then show ?thesis by (auto simp: success_def find_None_iff find_Some_iff split: option.split)
  qed (auto simp: success_def)
qed

lemma small_drive_ok: "outside_ok text_lib small_drive (\<lambda>t. t = ''t'') set small_provider"
proof -
  have p: "lib_parse text_lib (lib_dump text_lib j) = Some j" for j using text_lib_ok by (simp add: json_text_ok_def)
  have "drive_service text_lib small_drive (\<lambda>t. t = ''t'') set"
    using small_serve_answers by (fastforce simp: drive_service_def small_drive_def split: prod.splits)
  moreover have "tokens_minted text_lib small_drive (\<lambda>t. t = ''t'') small_provider"
    by (simp add: tokens_minted_def small_drive_def refresh_access_token_def token_request_def small_oauth_def parse_token_response_def
      p string_or_def int_or_zero_def json_get_object andthen_def)
  moreover have "local_ok small_drive" by (simp add: local_ok_def small_drive_def)
  ultimately show ?thesis using text_lib_ok by (simp add: outside_ok_def)
qed

lemma small_world_stands: "stands_for set (dp_folder_id small_provider) (Map.empty, [''f'' \<mapsto> ''data'']) small_world"
proof -
  have "find_str (delimiter kMultipartBoundary) ''data'' = None" unfolding delimiter_Cons by (rule find_str_absent) simp
  then show ?thesis by (simp add: stands_for_def small_world_def store_ok_def represents_def clean_def)
qed

text \<open>
  A file that contains the delimiter: a service that reads the parts as they are written takes what comes before it
  for the whole file.
\<close>

lemma boundary_cuts_content:
  "read_multipart kMultipartBoundary
     (multipart_body ''{}'' (''head'' @ delimiter kMultipartBoundary @ ''--'' @ ''tail'')) = Some (''{}'', ''head'')"
  by code_simp

text \<open>A read that stops early is not noticed: the part of the file is stored and \<open>put\<close> succeeds.\<close>

lemma short_read_stored:
  "let env = small_drive\<lparr>de_read_stops := (\<lambda>_ _. Some 2)\<rparr>; (r, w) = drive_put text_lib env small_provider ''k'' ''f'' 4 [] small_world
   in r = Inr () \<and> map df_content (dw_peer w) = [''da'']"
  by code_simp

subsection \<open>Properties\<close>

text \<open>
  C32 With a service that served, valid tokens and a working file system, any sequence of \<open>put\<close>, \<open>get\<close>, \<open>exists\<close> and
  \<open>remove\<close> gives the outcomes of a store of objects by key and leaves its objects in the folder and its local files,
  whatever characters keys have. Names stay unique in the folder, a repeated \<open>put\<close> included, and files of other folders
  are untouched. Contents must not contain the delimiter of the multipart body.
\<close>

theorem drive_refines_store:
  assumes "outside_ok lib env valid files p" and "stands_for files (dp_folder_id p) (objs, local) w"
  shows "\<exists>w'. perform_all (drive_do lib env p) calls w = (fst (perform_all store_do calls (objs, local)), w') \<and>
     stands_for files (dp_folder_id p) (snd (perform_all store_do calls (objs, local))) w' \<and>
     elsewhere (files (dw_peer w')) (dp_folder_id p) = elsewhere (files (dw_peer w)) (dp_folder_id p)"
  using assms(2)
proof (induction calls arbitrary: objs local w)
  case Nil
  then show ?case by simp
next
  case (Cons call calls)
  obtain objs' local' where st: "snd (store_do call (objs, local)) = (objs', local')" by fastforce
  obtain w1 where w1: "drive_do lib env p call w = (fst (store_do call (objs, local)), w1)" "stands_for files (dp_folder_id p) (objs', local') w1"
      "elsewhere (files (dw_peer w1)) (dp_folder_id p) = elsewhere (files (dw_peer w)) (dp_folder_id p)"
    using call_refines [OF assms(1) Cons.prems, of call] unfolding st by blast
  show ?case using Cons.IH [OF w1(2)] w1(1,3) st by (auto simp: case_prod_unfold Let_def)
qed

theorem drive_refines_store_witness:
  "\<exists>w'. perform_all (drive_do text_lib small_drive small_provider)
       [PutObject ''it's'' ''f'' 4 [], PutObject ''it's'' ''f'' 4 [], GetObject ''it's'' ''g'', DropObject ''it's'', HasObject ''it's'']
       small_world = ([Done, Done, Done, Done, Found False], w') \<and> dw_files w' ''g'' = Some ''data''"
  using drive_refines_store [OF small_drive_ok small_world_stands, of
    "[PutObject ''it's'' ''f'' 4 [], PutObject ''it's'' ''f'' 4 [], GetObject ''it's'' ''g'', DropObject ''it's'', HasObject ''it's'']"]
  by (auto simp: stands_for_def)

text \<open>
  C33 Whatever the outside served, an operation of the Drive provider sends nothing without a token, and then first
  a search for its key in its folder. It goes on only when that was answered with success and a readable list, with one
  more request: a new file in the folder when the list was empty, otherwise a request for the first file of the list.
  Both carry the token minted for this operation.
\<close>

theorem drive_requests_scoped:
  "case fst (drive_access_token lib env p w) of
     Inl _ \<Rightarrow> dw_log (snd (drive_do lib env p call w)) = dw_log w
   | Inr t \<Rightarrow> \<exists>s. bearer s t \<and> drive_call_of lib s = Some (Search (key_of call) (dp_folder_id p)) \<and>
       (asked_once s w (snd (drive_do lib env p call w)) \<or>
        (\<exists>found w1 req. search_answered lib s found w w1 \<and> bearer req t \<and> follows (dp_folder_id p) (key_of call) lib found req \<and>
           asked_once req w1 (snd (drive_do lib env p call w))))"
proof (cases "fst (drive_access_token lib env p w)")
  case (Inl e)
  then show ?thesis by (simp add: drive_do_rest case_prod_unfold)
next
  case (Inr t)
  obtain x w1 where x: "find_file_id lib env t (dp_folder_id p) (key_of call) w = (x, w1)" by fastforce
  obtain s where s: "bearer s t" "drive_call_of lib s = Some (Search (key_of call) (dp_folder_id p))" "asked_once s w w1"
      "\<forall>found. x = Inr found \<longrightarrow> search_answered lib s found w w1"
    using find_asks [OF x] by metis
  have "asked_once s w (snd (drive_do lib env p call w)) \<or>
      (\<exists>found req. search_answered lib s found w w1 \<and> bearer req t \<and> follows (dp_folder_id p) (key_of call) lib found req \<and>
         asked_once req w1 (snd (drive_do lib env p call w)))"
  proof (cases x)
    case (Inl e)
    then show ?thesis using s(3) x Inr by (simp add: drive_do_rest case_prod_unfold)
  next
    case found: (Inr found)
    have d: "snd (drive_do lib env p call w) = drive_rest lib env p call t found w1"
      using x Inr found by (simp add: drive_do_rest case_prod_unfold)
    show ?thesis using drive_rest_asks [of lib env p call t found w1] s(3,4) found unfolding d
      by (auto simp: second_ok_def asked_once_def)
  qed
  then show ?thesis using Inr s by auto
qed

text \<open>
  C34 A \<open>get\<close> of the Drive provider touches no file but its destination. When it returns without an exception the
  destination holds exactly the body of a successful answer. When it throws and files can be removed, the destination is
  as before, or gone; no partial or foreign content is left, however the transfer fails.
\<close>

theorem drive_get_clean:
  assumes "drive_get lib env p key dest w = (r, w')" and "\<And>q. de_unlink_ok env q dest"
  shows "(\<forall>path. path \<noteq> dest \<longrightarrow> dw_files w' path = dw_files w path) \<and>
    (case r of
       Inr _ \<Rightarrow> \<exists>es req status body. dw_log w' = dw_log w @ es @ [Asked req, GotAnswer status body] \<and> success status \<and>
         dw_files w' dest = Some body
     | Inl _ \<Rightarrow> dw_files w' dest \<in> {dw_files w dest, None})"
proof -
  obtain x where t: "drive_access_token lib env p w = (x, w)" by (simp add: drive_access_token_def)
  show ?thesis
  proof (cases x)
    case (Inl e)
    then show ?thesis using assms(1) t by (auto simp: drive_get_def then_do_def)
  next
    case (Inr t')
    obtain y w1 where y: "find_file_id lib env t' (dp_folder_id p) key w = (y, w1)" by fastforce
    obtain es where w1: "dw_files w1 = dw_files w" "dw_log w1 = dw_log w @ es"
      by (rule find_asks [OF y]) (auto simp: asked_once_def)
    show ?thesis
    proof (cases "\<exists>i. y = Inr (Some i)")
      case True
      then obtain i where i: "y = Inr (Some i)" by blast
      then have d: "download_file env t' i dest w1 = (r, w')" using assms(1) t Inr y by (simp add: drive_get_def then_do_def)
      show ?thesis
        by (rule download_cases [OF d]) (use assms(2) w1 in \<open>auto split: sum.splits\<close>)
    next
      case False
      then show ?thesis using assms(1) t Inr y w1 by (auto simp: drive_get_def then_do_def give_def split: sum.splits option.splits)
    qed
  qed
qed

theorem drive_get_clean_witness:
  "\<exists>r w' body. drive_get text_lib small_drive small_provider ''k'' ''g'' (small_world\<lparr>dw_peer :=
       [\<lparr>df_id = ''1'', df_folder = ''d'', df_name = ''k'', df_content = ''x''\<rparr>]\<rparr>) = (Inr r, w') \<and>
     dw_files w' ''f'' = Some ''data'' \<and> dw_files w' ''g'' = Some body"
proof -
  let ?w = "small_world\<lparr>dw_peer := [\<lparr>df_id = ''1'', df_folder = ''d'', df_name = ''k'', df_content = ''x''\<rparr>]\<rparr>"
  have "fst (drive_get text_lib small_drive small_provider ''k'' ''g'' ?w) = Inr ()" by code_simp
  then obtain w' where g: "drive_get text_lib small_drive small_provider ''k'' ''g'' ?w = (Inr (), w')" by (metis prod.collapse)
  have u: "\<And>q. de_unlink_ok small_drive q ''g''" by (simp add: small_drive_def)
  have f: "dw_files ?w ''f'' = Some ''data''" by (simp add: small_world_def)
  show ?thesis using drive_get_clean [OF g u] g f by auto
qed

end
