(* ===== verification/ServerInfo.thy ===== *)
theory ServerInfo
  imports Http Paths JsonCodec
begin

text \<open>
  How a client finds the daemon: \<open>src/src/platform/ServerInfo.cpp\<close> writes the file \<open>holder.json\<close> with the port and
  the bearer token, \<open>src/src/cli/commands/Common.cpp\<close> checks who may read it, reads it and sends the token with every
  request (POSIX branches).

  A disk maps names to nodes and keeps every state it went through, so that what another process can see in between
  is part of the model. What the system calls answer is the record \<open>host_calls\<close>.
\<close>

subsection \<open>Files\<close>

datatype node_kind = Regular | Directory | Symlink | Special

record node =
  nd_kind :: node_kind
  nd_mode :: nat
  nd_uid :: nat
  nd_text :: string

type_synonym nodes = "string \<Rightarrow> node option"

record disk =
  dk_nodes :: nodes
  dk_history :: "nodes list"
  dk_counter :: nat

record host_calls =
  sv_uid :: nat
  sv_pid :: nat
  sv_open_ok :: "string \<Rightarrow> bool"
  sv_write :: "nat \<Rightarrow> int"
  sv_close_ok :: bool
  sv_rename :: "nat \<Rightarrow> string option"
  sv_remove_ok :: "string \<Rightarrow> bool"

definition set_node :: "string \<Rightarrow> node option \<Rightarrow> disk \<Rightarrow> disk" where
  "set_node path n d =
     (let ns = (dk_nodes d)(path := n) in d\<lparr>dk_nodes := ns, dk_history := dk_history d @ [ns]\<rparr>)"

definition change_node :: "string \<Rightarrow> (node \<Rightarrow> node) \<Rightarrow> disk \<Rightarrow> disk" where
  "change_node path f d = set_node path (map_option f (dk_nodes d path)) d"

text \<open>\<open>S_IRUSR | S_IWUSR\<close>, and the bits of group and others.\<close>

definition owner_only :: nat where
  "owner_only = 384"

definition open_to_others :: "nat \<Rightarrow> bool" where
  "open_to_others mode \<longleftrightarrow> mode mod 64 \<noteq> 0"

subsection \<open>The daemon's side\<close>

record server_info =
  in_pid :: int
  in_bind :: string
  in_port :: int
  in_started_at :: int
  in_api_version :: string
  in_server_version :: string
  in_auth_token :: string

definition unique_temp_suffix :: "host_calls \<Rightarrow> nat \<Rightarrow> string" where
  "unique_temp_suffix env counter = ''.'' @ to_string (sv_pid env) @ ''.'' @ to_string counter"

text \<open>\<open>open\<close> truncates; it gives the mode only to a file it creates.\<close>

definition opened :: "host_calls \<Rightarrow> node option \<Rightarrow> node" where
  "opened env n =
     (case n of
        Some n \<Rightarrow> n\<lparr>nd_text := []\<rparr>
      | None \<Rightarrow> \<lparr>nd_kind = Regular, nd_mode = owner_only, nd_uid = sv_uid env, nd_text = []\<rparr>)"

function write_loop :: "host_calls \<Rightarrow> string \<Rightarrow> string \<Rightarrow> disk \<Rightarrow> bool \<times> disk" where
  "write_loop env path rest d =
     (if rest = [] then (True, d)
      else let written = sv_write env (length rest)
           in if written \<le> 0 then (False, d)
              else write_loop env path (drop (nat written) rest)
                     (change_node path (\<lambda>n. n\<lparr>nd_text := nd_text n @ take (nat written) rest\<rparr>) d))"
  by pat_completeness auto
termination
  by (relation "measure (\<lambda>(env, path, rest, d). length rest)") auto

declare write_loop.simps [simp del]

definition remove_or_throw :: "host_calls \<Rightarrow> string \<Rightarrow> string \<Rightarrow> disk \<Rightarrow> unit result \<times> disk" where
  "remove_or_throw env path msg d =
     (if sv_remove_ok env path then (Inl (RuntimeError msg), set_node path None d)
      else (Inl (RuntimeError (''filesystem error: cannot remove: '' @ path)), d))"

definition write_owner_only_file :: "host_calls \<Rightarrow> string \<Rightarrow> string \<Rightarrow> disk \<Rightarrow> unit result \<times> disk" where
  "write_owner_only_file env path body d =
     (if \<not> sv_open_ok env path then (Inl (RuntimeError (''Failed to open server info temp file: '' @ path)), d)
      else case write_loop env path body (set_node path (Some (opened env (dk_nodes d path))) d) of
          (False, d') \<Rightarrow> remove_or_throw env path (''Failed to write server info temp file: '' @ path) d'
        | (True, d') \<Rightarrow>
            if \<not> sv_close_ok env then remove_or_throw env path (''Failed to close server info temp file: '' @ path) d'
            else (Inr (), change_node path (\<lambda>n. n\<lparr>nd_mode := owner_only\<rparr>) d'))"

definition generate_auth_token :: "nat list \<Rightarrow> string" where
  "generate_auth_token random =
     concat (map (\<lambda>v. [''0123456789abcdef'' ! (v div 16 mod 16), ''0123456789abcdef'' ! (v mod 16)]) random)"

definition server_info_json :: "server_info \<Rightarrow> json" where
  "server_info_json info =
     json_object [(''pid'', JInt (in_pid info)), (''bind'', JStr (in_bind info)), (''port'', JInt (in_port info)),
       (''started_at'', JInt (in_started_at info)), (''api_version'', JStr (in_api_version info)),
       (''server_version'', JStr (in_server_version info)), (''auth_token'', JStr (in_auth_token info))]"

text \<open>The \<open>n\<close>th \<open>rename\<close> of a call.\<close>

definition rename_node :: "host_calls \<Rightarrow> nat \<Rightarrow> string \<Rightarrow> string \<Rightarrow> disk \<Rightarrow> string option \<times> disk" where
  "rename_node env n from_path to_path d =
     (case sv_rename env n of
        Some msg \<Rightarrow> (Some msg, d)
      | None \<Rightarrow>
          let ns = (dk_nodes d)(to_path := dk_nodes d from_path, from_path := None)
          in (None, d\<lparr>dk_nodes := ns, dk_history := dk_history d @ [ns]\<rparr>))"

definition temp_path :: "host_calls \<Rightarrow> string \<Rightarrow> disk \<Rightarrow> string" where
  "temp_path env path d = path @ ''.tmp'' @ unique_temp_suffix env (dk_counter d)"

definition write_server_info :: "json_lib \<Rightarrow> host_calls \<Rightarrow> string \<Rightarrow> server_info \<Rightarrow> disk \<Rightarrow> unit result \<times> disk" where
  "write_server_info lib env path info d =
     (let tmp_path = temp_path env path d
      in case write_owner_only_file env tmp_path (lib_dump2 lib (server_info_json info) @ [newline]) (d\<lparr>dk_counter := dk_counter d + 1\<rparr>) of
           (Inl e, d1) \<Rightarrow> (Inl e, d1)
         | (Inr _, d1) \<Rightarrow>
             (case rename_node env 0 tmp_path path d1 of
                (None, d2) \<Rightarrow> (Inr (), d2)
              | (Some _, d2) \<Rightarrow>
                  (case rename_node env 1 tmp_path path (if sv_remove_ok env path then set_node path None d2 else d2) of
                     (None, d3) \<Rightarrow> (Inr (), d3)
                   | (Some msg, d3) \<Rightarrow> (Inl (RuntimeError (''Failed to write server info: '' @ path @ '' ('' @ msg @ '')'')), d3))))"

subsection \<open>The client's side\<close>

record daemon_connection =
  dc_info :: json
  dc_bind :: string
  dc_port :: int
  dc_token :: string

definition info_path :: "paths \<Rightarrow> string" where
  "info_path p = path_join (server_dir p) ''holder.json''"

text \<open>\<open>lstat\<close> of the file, \<open>stat\<close> of its directory: \<open>follow\<close> is where the name of the directory leads.\<close>

definition require_secure_file :: "(string \<Rightarrow> string) \<Rightarrow> nat \<Rightarrow> nodes \<Rightarrow> string \<Rightarrow> unit result" where
  "require_secure_file follow euid ns path =
     (case ns path of
        None \<Rightarrow> Inl (RuntimeError (''Cannot inspect token file: '' @ path))
      | Some n \<Rightarrow>
          if nd_kind n = Symlink then Inl (RuntimeError (''Refusing token file symlink: '' @ path))
          else if nd_kind n \<noteq> Regular then Inl (RuntimeError (''Token file is not a regular file: '' @ path))
          else if nd_uid n \<noteq> euid then Inl (RuntimeError (''Token file is not owned by the current user: '' @ path))
          else if open_to_others (nd_mode n) then Inl (RuntimeError (''Token file must be readable only by its owner: '' @ path))
          else
            let parent = parent_path path
            in case ns (follow parent) of
                 None \<Rightarrow> Inl (RuntimeError (''Cannot inspect token directory: '' @ parent))
               | Some p \<Rightarrow>
                   if nd_kind p \<noteq> Directory then Inl (RuntimeError (''Cannot inspect token directory: '' @ parent))
                   else if nd_uid p \<noteq> euid
                   then Inl (RuntimeError (''Token directory is not owned by the current user: '' @ parent))
                   else if open_to_others (nd_mode p)
                   then Inl (RuntimeError (''Token directory must be accessible only by its owner: '' @ parent))
                   else Inr ())"

definition read_server_info :: "json_lib \<Rightarrow> (string \<Rightarrow> string) \<Rightarrow> nodes \<Rightarrow> paths \<Rightarrow> json result" where
  "read_server_info lib follow ns paths =
     (case ns (follow (info_path paths)) of
        None \<Rightarrow> Inl (RuntimeError (''Holder daemon info file not found: '' @ info_path paths))
      | Some n \<Rightarrow> (case lib_parse lib (nd_text n) of None \<Rightarrow> Inl JsonParseError | Some j \<Rightarrow> Inr j))"

definition json_string :: "json \<Rightarrow> string \<Rightarrow> string \<Rightarrow> string result" where
  "json_string j key fallback =
     (case json_get key j of None \<Rightarrow> Inr fallback | Some JNull \<Rightarrow> Inr fallback | Some v \<Rightarrow> get_string v)"

definition json_int :: "json_lib \<Rightarrow> json \<Rightarrow> string \<Rightarrow> int \<Rightarrow> int result" where
  "json_int lib j key fallback =
     (case json_get key j of None \<Rightarrow> Inr fallback | Some JNull \<Rightarrow> Inr fallback | Some v \<Rightarrow> get_int32 lib v)"

definition read_secure_daemon_connection ::
  "json_lib \<Rightarrow> (string \<Rightarrow> string) \<Rightarrow> nat \<Rightarrow> nodes \<Rightarrow> paths \<Rightarrow> daemon_connection result" where
  "read_secure_daemon_connection lib follow euid ns paths =
     andthen (require_secure_file follow euid ns (info_path paths)) (\<lambda>_.
     andthen (read_server_info lib follow ns paths) (\<lambda>info.
     andthen (json_string info ''bind'' ''127.0.0.1'') (\<lambda>bind.
     andthen (json_int lib info ''port'' 11499) (\<lambda>port.
     andthen (json_string info ''auth_token'' []) (\<lambda>token.
       if token = [] then Inl (RuntimeError (''Holder daemon info file has no auth_token: '' @ info_path paths))
       else Inr \<lparr>dc_info = info, dc_bind = bind, dc_port = port, dc_token = token\<rparr>)))))"

definition command_token :: "json_lib \<Rightarrow> (string \<Rightarrow> string) \<Rightarrow> nat \<Rightarrow> nodes \<Rightarrow> paths \<Rightarrow> string result" where
  "command_token lib follow euid ns paths =
     andthen (require_secure_file follow euid ns (info_path paths)) (\<lambda>_.
     andthen (read_server_info lib follow ns paths) (\<lambda>info.
     andthen (json_string info ''auth_token'' []) (\<lambda>token.
       if token = [] then Inl (RuntimeError (''Holder daemon info file has no auth_token: '' @ info_path paths))
       else Inr (token @ [newline]))))"

text \<open>The request that \<open>http_json_request\<close> sends.\<close>

definition cli_request :: "json_lib \<Rightarrow> daemon_connection \<Rightarrow> verb \<Rightarrow> string \<Rightarrow> json option \<Rightarrow> request" where
  "cli_request lib connection verb target body =
     \<lparr>rq_method = verb, rq_target = target,
      rq_headers = [(''Host'', dc_bind connection), (''User-Agent'', ''holderctl''),
                    (''Authorization'', ''Bearer '' @ dc_token connection)] @
        (case body of Some _ \<Rightarrow> [(''Content-Type'', ''application/json'')] | None \<Rightarrow> []),
      rq_body = (case body of Some j \<Rightarrow> lib_dump lib j | None \<Rightarrow> [])\<rparr>"

subsection \<open>Lemmas: what can be seen of a write\<close>

definition stays :: "(nodes \<Rightarrow> bool) \<Rightarrow> disk \<Rightarrow> disk \<Rightarrow> bool" where
  "stays P d d' \<longleftrightarrow> (\<exists>hs. dk_history d' = dk_history d @ hs \<and> (\<forall>ns \<in> set hs. P ns)) \<and> P (dk_nodes d')"

lemma stays_refl: "P (dk_nodes d) \<Longrightarrow> stays P d d"
  by (auto simp: stays_def)

lemma stays_trans: "stays P d d' \<Longrightarrow> stays P d' d'' \<Longrightarrow> stays P d d''"
  by (fastforce simp: stays_def)

lemma stays_set_node: "P ((dk_nodes d)(path := n)) \<Longrightarrow> stays P d (set_node path n d)"
  by (auto simp: stays_def set_node_def Let_def)

lemma set_node_nodes [simp]: "dk_nodes (set_node path n d) = (dk_nodes d)(path := n)"
  by (simp add: set_node_def Let_def)

lemma change_node_nodes [simp]: "dk_nodes (change_node path f d) = (dk_nodes d)(path := map_option f (dk_nodes d path))"
  by (simp add: change_node_def)

lemma stays_change_node: "P ((dk_nodes d)(path := map_option f (dk_nodes d path))) \<Longrightarrow> stays P d (change_node path f d)"
  by (simp add: change_node_def stays_set_node)

lemma write_loop_stays:
  assumes "write_loop env path rest d = (ok, d')" and "P (dk_nodes d)"
    and "\<And>ns n t. P ns \<Longrightarrow> ns path = Some n \<Longrightarrow> P (ns(path \<mapsto> n\<lparr>nd_text := t\<rparr>))" and "dk_nodes d path = Some n"
  shows "stays P d d' \<and> (\<exists>t. dk_nodes d' = (dk_nodes d)(path \<mapsto> n\<lparr>nd_text := t\<rparr>)) \<and>
    (ok \<longrightarrow> dk_nodes d' = (dk_nodes d)(path \<mapsto> n\<lparr>nd_text := nd_text n @ rest\<rparr>))"
  using assms(1,2,4)
proof (induction "length rest" arbitrary: rest d n rule: less_induct)
  case less
  let ?k = "nat (sv_write env (length rest))"
  let ?d = "change_node path (\<lambda>n. n\<lparr>nd_text := nd_text n @ take ?k rest\<rparr>) d"
  show ?case
  proof (cases "rest = [] \<or> sv_write env (length rest) \<le> 0")
    case True
    then have "d' = d" "ok \<longrightarrow> rest = []" using less.prems(1) by (auto simp: write_loop.simps [of env path rest d] Let_def split: if_splits)
    moreover have "dk_nodes d = (dk_nodes d)(path \<mapsto> n\<lparr>nd_text := nd_text n\<rparr>)" using less.prems(3) by auto
    ultimately show ?thesis using less.prems(2) stays_refl [of P d] by (metis append_Nil2)
  next
    case False
    let ?n = "n\<lparr>nd_text := nd_text n @ take ?k rest\<rparr>"
    have w: "write_loop env path (drop ?k rest) ?d = (ok, d')"
      using False less.prems(1) by (simp add: write_loop.simps [of env path rest d] Let_def)
    have n: "dk_nodes ?d = (dk_nodes d)(path \<mapsto> ?n)" using less.prems(3) by simp
    have p: "P (dk_nodes ?d)" unfolding n by (rule assms(3) [OF less.prems(2,3)])
    have "length (drop ?k rest) < length rest" using False by auto
    then have r: "stays P ?d d'" "\<exists>t. dk_nodes d' = (dk_nodes ?d)(path \<mapsto> ?n\<lparr>nd_text := t\<rparr>)"
        "ok \<longrightarrow> dk_nodes d' = (dk_nodes ?d)(path \<mapsto> ?n\<lparr>nd_text := nd_text ?n @ drop ?k rest\<rparr>)"
      using less.hyps [OF _ w p, of ?n, unfolded n, OF _ fun_upd_same] unfolding n by auto
    have "stays P d ?d" by (rule stays_change_node) (use p in simp)
    then have "stays P d d'" using r(1) by (rule stays_trans)
    then show ?thesis using r(2,3) unfolding n by simp
  qed
qed

lemma temp_path_other: "temp_path env path d \<noteq> path"
  by (simp add: temp_path_def)

text \<open>A node that is not open to others, and what the file holds when the write is complete.\<close>

definition private_node :: "host_calls \<Rightarrow> string \<Rightarrow> node" where
  "private_node env text = \<lparr>nd_kind = Regular, nd_mode = owner_only, nd_uid = sv_uid env, nd_text = text\<rparr>"

definition seen_ok :: "host_calls \<Rightarrow> string \<Rightarrow> string \<Rightarrow> string \<Rightarrow> nodes \<Rightarrow> nodes \<Rightarrow> bool" where
  "seen_ok env path tmp text old ns \<longleftrightarrow>
     (\<forall>q. q \<noteq> path \<and> q \<noteq> tmp \<longrightarrow> ns q = old q) \<and>
     (ns path = old path \<or> ns path = Some (private_node env text) \<or> ns path = None \<and> sv_rename env 0 \<noteq> None) \<and>
     (ns tmp = None \<or> (\<exists>t. ns tmp = Some (private_node env t)))"

lemma write_temp_seen:
  assumes "write_owner_only_file env tmp text d = (r, d')" and "dk_nodes d tmp = None" and "tmp \<noteq> path"
  shows "stays (seen_ok env path tmp text (dk_nodes d)) d d' \<and> dk_nodes d' path = dk_nodes d path \<and>
    (r = Inr () \<longrightarrow> dk_nodes d' = (dk_nodes d)(tmp \<mapsto> private_node env text))"
proof (cases "sv_open_ok env tmp")
  case False
  then show ?thesis using assms by (auto simp: write_owner_only_file_def seen_ok_def intro!: stays_refl)
next
  case True
  let ?P = "\<lambda>ns. seen_ok env path tmp text (dk_nodes d) ns \<and> ns path = dk_nodes d path"
  let ?d = "set_node tmp (Some (private_node env [])) d"
  obtain ok d1 where w: "write_loop env tmp text ?d = (ok, d1)" by fastforce
  have p: "?P (dk_nodes ?d)" using assms(2,3) by (auto simp: seen_ok_def)
  have k: "?P (ns(tmp \<mapsto> n\<lparr>nd_text := t\<rparr>))" if "?P ns" "ns tmp = Some n" for ns n t
    using that assms(3) by (auto simp: seen_ok_def private_node_def)
  have l: "stays ?P ?d d1" "ok \<longrightarrow> dk_nodes d1 = (dk_nodes ?d)(tmp \<mapsto> (private_node env [])\<lparr>nd_text := [] @ text\<rparr>)"
    using write_loop_stays [OF w, of ?P "private_node env []"] p k by (auto simp: private_node_def)
  have s1: "stays ?P d d1" using stays_trans [OF stays_set_node l(1)] p by simp
  have gone: "stays ?P d1 (set_node tmp None d1)"
    by (rule stays_set_node) (use l(1) assms(3) in \<open>auto simp: stays_def seen_ok_def\<close>)
  have weaker: "stays (seen_ok env path tmp text (dk_nodes d)) d x \<and> dk_nodes x path = dk_nodes d path" if "stays ?P d x" for x
    using that by (auto simp: stays_def)
  have o: "opened env (dk_nodes d tmp) = private_node env []" using assms(2) by (simp add: opened_def private_node_def)
  have r: "write_owner_only_file env tmp text d =
      (if ok \<and> sv_close_ok env then (Inr (), change_node tmp (\<lambda>n. n\<lparr>nd_mode := owner_only\<rparr>) d1)
       else remove_or_throw env tmp (''Failed to '' @ (if ok then ''close'' else ''write'') @ '' server info temp file: '' @ tmp) d1)"
    using True w unfolding write_owner_only_file_def o by (cases ok) auto
  show ?thesis
  proof (cases "ok \<and> sv_close_ok env")
    case True
    then have d1: "dk_nodes d1 = (dk_nodes d)(tmp \<mapsto> private_node env text)" using l(2) by (simp add: private_node_def)
    have "stays ?P d1 (change_node tmp (\<lambda>n. n\<lparr>nd_mode := owner_only\<rparr>) d1)"
      by (rule stays_change_node) (use d1 assms(3) in \<open>auto simp: seen_ok_def private_node_def\<close>)
    then have "stays ?P d d'" using s1 stays_trans r True assms(1) by force
    moreover have "dk_nodes d' = (dk_nodes d)(tmp \<mapsto> private_node env text)"
      using r True assms(1) d1 by (auto simp: private_node_def)
    ultimately show ?thesis using weaker by blast
  next
    case False
    then have "r \<noteq> Inr ()" "d' = d1 \<or> d' = set_node tmp None d1" using r assms(1) by (auto simp: remove_or_throw_def split: if_splits)
    then show ?thesis using weaker s1 stays_trans [OF s1 gone] by blast
  qed
qed

lemma rename_node_cases:
  "rename_node env k a b d = (x, d') \<Longrightarrow>
     sv_rename env k = x \<and>
     (x = None \<and> dk_nodes d' = (dk_nodes d)(b := dk_nodes d a, a := None) \<and> dk_history d' = dk_history d @ [dk_nodes d'] \<or> x \<noteq> None \<and> d' = d)"
  by (cases "sv_rename env k") (auto simp: rename_node_def Let_def dest: sym)

lemma stays_rename:
  assumes "rename_node env k tmp path d = (x, d')" and "seen_ok env path tmp text old (dk_nodes d)"
    and "dk_nodes d tmp = Some (private_node env text)" and "tmp \<noteq> path"
  shows "stays (seen_ok env path tmp text old) d d' \<and>
    (x = None \<longrightarrow> dk_nodes d' path = Some (private_node env text) \<and> dk_nodes d' tmp = None) \<and> (x \<noteq> None \<longrightarrow> d' = d)"
proof (cases x)
  case None
  then have d: "dk_nodes d' = (dk_nodes d)(path := dk_nodes d tmp, tmp := None)" "dk_history d' = dk_history d @ [dk_nodes d']"
    using rename_node_cases [OF assms(1)] by auto
  have "seen_ok env path tmp text old (dk_nodes d')" using assms(2-4) unfolding d(1) by (auto simp: seen_ok_def)
  then show ?thesis using d assms(3,4) None by (auto simp: stays_def)
next
  case (Some m)
  then show ?thesis using rename_node_cases [OF assms(1)] assms(2) by (auto intro: stays_refl)
qed

lemma write_server_info_seen:
  assumes "write_server_info lib env path info d = (r, d')" and "dk_nodes d (temp_path env path d) = None"
    and txt_eq: "text = lib_dump2 lib (server_info_json info) @ [newline]"
  shows "stays (seen_ok env path (temp_path env path d) text (dk_nodes d)) d d' \<and>
    (r = Inr () \<longrightarrow> dk_nodes d' path = Some (private_node env text) \<and> dk_nodes d' (temp_path env path d) = None) \<and>
    (r \<noteq> Inr () \<longrightarrow> sv_rename env 0 = None \<longrightarrow> dk_nodes d' path = dk_nodes d path)"
proof -
  let ?tmp = "temp_path env path d" and ?c = "d\<lparr>dk_counter := dk_counter d + 1\<rparr>"
  let ?P = "seen_ok env path ?tmp text (dk_nodes d)"
  have start: "stays ?P d x \<longleftrightarrow> stays ?P ?c x" for x by (simp add: stays_def)
  obtain q d1 where w: "write_owner_only_file env ?tmp text ?c = (q, d1)" by fastforce
  note s = write_temp_seen [OF w _ temp_path_other, simplified, OF assms(2)]
  show ?thesis
  proof (cases q)
    case (Inl e)
    then have "r = Inl e" "d' = d1" using assms(1) w txt_eq by (auto simp: write_server_info_def Let_def)
    then show ?thesis using s start by simp
  next
    case (Inr u)
    then have n: "dk_nodes d1 ?tmp = Some (private_node env text)" "?P (dk_nodes d1)" using s by (auto simp: stays_def)
    obtain x d2 where x: "rename_node env 0 ?tmp path d1 = (x, d2)" by fastforce
    note r1 = stays_rename [OF x n(2,1) temp_path_other]
    show ?thesis
    proof (cases x)
      case None
      then have "r = Inr ()" "d' = d2" using assms(1) w Inr x txt_eq by (auto simp: write_server_info_def Let_def)
      moreover have "stays ?P ?c d2" using stays_trans [of ?P ?c d1 d2] s r1 by simp
      ultimately show ?thesis using r1 None by (simp add: start)
    next
      case (Some m)
      let ?d = "if sv_remove_ok env path then set_node path None d1 else d1"
      have f: "sv_rename env 0 \<noteq> None" "d2 = d1" using rename_node_cases [OF x] Some by auto
      have p: "?P (dk_nodes ?d)" "dk_nodes ?d ?tmp = Some (private_node env text)"
        using n f(1) temp_path_other [of env path d] by (auto simp: seen_ok_def)
      have g: "stays ?P d1 ?d" using p(1) n(2) by (auto intro: stays_refl stays_set_node)
      obtain y d3 where y: "rename_node env 1 ?tmp path ?d = (y, d3)" by fastforce
      note r2 = stays_rename [OF y p temp_path_other]
      have d': "d' = d3" "r = Inr () \<longleftrightarrow> y = None"
        using assms(1) w Inr x Some f(2) y txt_eq by (cases y; simp add: write_server_info_def Let_def; blast)+
      have a: "stays ?P ?c d1" using s by simp
      have "stays ?P ?c d3" by (rule stays_trans [OF stays_trans [OF a g]]) (use r2 in simp)
      then show ?thesis using r2 f(1) unfolding start d' by blast
    qed
  qed
qed

subsection \<open>Properties\<close>

text \<open>
  C28 What other processes can see while the daemon writes its server information, whichever system call fails: under the
  name of the file always the old node, or the complete new one that only the owner may read, or nothing after a first failed
  rename; in between only a file of the writer's own name, never open to others; nothing else changes. A reported
  success means the new file is in place and the temporary one gone; an error without a failed rename leaves the old file.
\<close>

theorem server_info_atomic:
  assumes "write_server_info lib env path info d = (r, d')" and "dk_nodes d (temp_path env path d) = None"
  shows "(\<exists>hs. dk_history d' = dk_history d @ hs \<and>
      (\<forall>ns \<in> set hs. (\<forall>q. q \<noteq> path \<and> q \<noteq> temp_path env path d \<longrightarrow> ns q = dk_nodes d q) \<and>
         (ns path = dk_nodes d path \<or> ns path = Some (private_node env (lib_dump2 lib (server_info_json info) @ [newline])) \<or>
          ns path = None \<and> sv_rename env 0 \<noteq> None) \<and>
         (\<forall>n. ns (temp_path env path d) = Some n \<longrightarrow> \<not> open_to_others (nd_mode n)))) \<and>
    (r = Inr () \<longrightarrow> dk_nodes d' path = Some (private_node env (lib_dump2 lib (server_info_json info) @ [newline])) \<and>
       dk_nodes d' (temp_path env path d) = None) \<and>
    (r \<noteq> Inr () \<longrightarrow> sv_rename env 0 = None \<longrightarrow> dk_nodes d' path = dk_nodes d path)"
proof -
  let ?text = "lib_dump2 lib (server_info_json info) @ [newline]"
  have p: "\<not> open_to_others (nd_mode (private_node env t))" for t by (simp add: private_node_def open_to_others_def owner_only_def)
  have "(\<forall>q. q \<noteq> path \<and> q \<noteq> temp_path env path d \<longrightarrow> ns q = dk_nodes d q) \<and>
      (ns path = dk_nodes d path \<or> ns path = Some (private_node env ?text) \<or> ns path = None \<and> sv_rename env 0 \<noteq> None) \<and>
      (\<forall>n. ns (temp_path env path d) = Some n \<longrightarrow> \<not> open_to_others (nd_mode n))"
    if "seen_ok env path (temp_path env path d) ?text (dk_nodes d) ns" for ns
    using that p unfolding seen_ok_def by (metis option.inject option.distinct(1))
  then show ?thesis using write_server_info_seen [OF assms refl] unfolding stays_def by meson
qed

definition sample_calls :: host_calls where
  "sample_calls = \<lparr>sv_uid = 7, sv_pid = 41, sv_open_ok = (\<lambda>_. True), sv_write = int, sv_close_ok = True,
     sv_rename = (\<lambda>n. if n = 0 then Some ''busy'' else None), sv_remove_ok = (\<lambda>_. True)\<rparr>"

definition sample_paths :: paths where
  "sample_paths = \<lparr>data_dir = ''/h/d'', config_dir = ''/h/c'', cache_dir = ''/h/k''\<rparr>"

definition sample_info :: server_info where
  "sample_info = \<lparr>in_pid = 41, in_bind = ''127.0.0.1'', in_port = 11499, in_started_at = 5, in_api_version = ''1.0'',
     in_server_version = ''0.1'', in_auth_token = ''ab''\<rparr>"

definition sample_disk :: disk where
  "sample_disk = \<lparr>dk_nodes = [''/h/d/server'' \<mapsto> \<lparr>nd_kind = Directory, nd_mode = 448, nd_uid = 7, nd_text = []\<rparr>],
     dk_history = [], dk_counter = 0\<rparr>"

lemma write_loop_whole: "(\<And>n. sv_write env n = int n) \<Longrightarrow> fst (write_loop env path rest d)"
  by (cases "rest = []") (simp_all add: write_loop.simps [of env path rest] write_loop.simps [of env path "[]"] Let_def)

lemma write_succeeds:
  assumes "\<And>p. sv_open_ok env p" "\<And>n. sv_write env n = int n" "sv_close_ok env" "sv_rename env 0 = None \<or> sv_rename env 1 = None"
  shows "fst (write_server_info lib env path info d) = Inr ()"
proof -
  have l: "fst (write_loop env p rest x)" for p rest x by (rule write_loop_whole) (rule assms(2))
  have w: "fst (write_owner_only_file env p body x) = Inr ()" for p body x
    using assms(1,3) l [of p body "set_node p (Some (opened env (dk_nodes x p))) x"]
    by (auto simp: write_owner_only_file_def split: prod.split bool.split)
  have w': "z = Inr ()" if "write_owner_only_file env p body x = (z, y)" for p body x y z using w [of p body x] that by simp
  have r: "sv_rename env k = z" if "rename_node env k a b x = (z, y)" for k a b x y z using rename_node_cases [OF that] by simp
  show ?thesis using assms(4)
    by (auto simp: write_server_info_def Let_def split: prod.splits sum.splits option.splits dest!: w' r)
qed

lemma sample_write: "fst (write_server_info codec_lib sample_calls (info_path sample_paths) sample_info sample_disk) = Inr ()"
  by (rule write_succeeds) (simp_all add: sample_calls_def)

lemma sample_temp: "dk_nodes sample_disk (temp_path sample_calls (info_path sample_paths) sample_disk) = None"
  by code_simp

theorem server_info_atomic_witness:
  "\<exists>d'. write_server_info codec_lib sample_calls (info_path sample_paths) sample_info sample_disk = (Inr (), d') \<and>
     dk_nodes d' (info_path sample_paths) =
       Some (private_node sample_calls (lib_dump2 codec_lib (server_info_json sample_info) @ [newline]))"
proof -
  obtain d' where d: "write_server_info codec_lib sample_calls (info_path sample_paths) sample_info sample_disk = (Inr (), d')"
    using sample_write by (metis prod.collapse)
  show ?thesis using server_info_atomic [OF d sample_temp] d by blast
qed

text \<open>
  C27 From the daemon to its client: after the daemon has written its information into a directory of its user that is
  closed to others, the client of the same user reads it back, connects to that address, and every request it sends is
  accepted by the token check of the daemon with exactly this token. A client of another user is refused.
\<close>

theorem server_info_handoff:
  assumes "write_server_info lib env (info_path paths) info d = (Inr (), d')" and "dk_nodes d (temp_path env (info_path paths) d) = None"
    and "\<And>j. lib_parse lib (lib_dump2 lib j @ [newline]) = Some j"
    and "in_auth_token info \<noteq> []" and "- 2147483648 \<le> in_port info" "in_port info < 2147483648"
    and "dk_nodes d' (follow (parent_path (info_path paths))) = Some dir" "nd_kind dir = Directory" "nd_uid dir = sv_uid env"
      "\<not> open_to_others (nd_mode dir)" and "follow (info_path paths) = info_path paths"
  shows "\<exists>c. read_secure_daemon_connection lib follow (sv_uid env) (dk_nodes d') paths = Inr c \<and>
      dc_bind c = in_bind info \<and> dc_port c = in_port info \<and> dc_token c = in_auth_token info \<and>
      (\<forall>verb target body token. is_authorized_bearer (cli_request lib c verb target body) token \<longleftrightarrow> token = in_auth_token info) \<and>
      (\<forall>euid. euid \<noteq> sv_uid env \<longrightarrow> isl (read_secure_daemon_connection lib follow euid (dk_nodes d') paths))"
proof -
  let ?text = "lib_dump2 lib (server_info_json info) @ [newline]"
  have n: "dk_nodes d' (info_path paths) = Some (private_node env ?text)"
    using write_server_info_seen [OF assms(1,2) refl] by simp
  have sec: "require_secure_file follow (sv_uid env) (dk_nodes d') (info_path paths) = Inr ()"
    using n assms(7-10) by (simp add: require_secure_file_def private_node_def open_to_others_def owner_only_def)
  have other: "isl (require_secure_file follow euid (dk_nodes d') (info_path paths))" if "euid \<noteq> sv_uid env" for euid
    using n that by (simp add: require_secure_file_def private_node_def)
  have j: "read_server_info lib follow (dk_nodes d') paths = Inr (server_info_json info)"
    using n assms(3,11) by (simp add: read_server_info_def private_node_def)
  have f: "json_string (server_info_json info) ''bind'' x = Inr (in_bind info)"
      "json_string (server_info_json info) ''auth_token'' x = Inr (in_auth_token info)"
      "json_int lib (server_info_json info) ''port'' y = Inr (in_port info)" for x y
    using assms(5,6) by (simp_all add: json_string_def json_int_def server_info_json_def json_get_object get_int32_small)
  let ?c = "\<lparr>dc_info = server_info_json info, dc_bind = in_bind info, dc_port = in_port info, dc_token = in_auth_token info\<rparr>"
  have "read_secure_daemon_connection lib follow (sv_uid env) (dk_nodes d') paths = Inr ?c"
    using sec j f assms(4) by (simp add: read_secure_daemon_connection_def)
  moreover have "is_authorized_bearer (cli_request lib ?c verb target body) token \<longleftrightarrow> token = in_auth_token info" for verb target body token
    using starts_with_append [of "''Bearer ''" "in_auth_token info"] by (auto simp: is_authorized_bearer_def cli_request_def simp del: starts_with_append)
  moreover have "isl (read_secure_daemon_connection lib follow euid (dk_nodes d') paths)" if "euid \<noteq> sv_uid env" for euid
    using other [OF that] by (auto simp: read_secure_daemon_connection_def andthen_def split: sum.splits)
  ultimately show ?thesis by auto
qed

theorem server_info_handoff_witness:
  "\<exists>d' c. write_server_info codec_lib sample_calls (info_path sample_paths) sample_info sample_disk = (Inr (), d') \<and>
     read_secure_daemon_connection codec_lib id 7 (dk_nodes d') sample_paths = Inr c \<and> dc_token c = ''ab'' \<and>
     is_authorized_bearer (cli_request codec_lib c VGet ''/health'' None) ''ab''"
proof -
  obtain d' where d: "write_server_info codec_lib sample_calls (info_path sample_paths) sample_info sample_disk = (Inr (), d')"
    using sample_write by (metis prod.collapse)
  let ?dir = "\<lparr>nd_kind = Directory, nd_mode = 448, nd_uid = 7, nd_text = []\<rparr>"
  have "parent_path (info_path sample_paths) \<noteq> info_path sample_paths"
      "parent_path (info_path sample_paths) \<noteq> temp_path sample_calls (info_path sample_paths) sample_disk"
      "dk_nodes sample_disk (parent_path (info_path sample_paths)) = Some ?dir" by code_simp+
  then have dir: "dk_nodes d' (id (parent_path (info_path sample_paths))) = Some ?dir"
    using write_server_info_seen [OF d sample_temp refl] by (simp add: stays_def seen_ok_def)
  have p: "lib_parse codec_lib (lib_dump2 codec_lib j @ [newline]) = Some j" for j
    using codec_parse_enc [of "[newline]" j] by (simp add: codec_lib_def is_space_def byte_of_def)
  have side: "in_auth_token sample_info \<noteq> []" "- 2147483648 \<le> in_port sample_info" "in_port sample_info < 2147483648"
      "nd_kind ?dir = Directory" "nd_uid ?dir = sv_uid sample_calls" "\<not> open_to_others (nd_mode ?dir)"
    by (simp_all add: sample_info_def sample_calls_def open_to_others_def)
  have uid: "sv_uid sample_calls = 7" "in_auth_token sample_info = ''ab''" by (simp_all add: sample_calls_def sample_info_def)
  obtain c where "read_secure_daemon_connection codec_lib id 7 (dk_nodes d') sample_paths = Inr c" "dc_token c = ''ab''"
      "is_authorized_bearer (cli_request codec_lib c VGet ''/health'' None) ''ab''"
    using server_info_handoff [where follow = id, OF d sample_temp p side(1-3) dir side(4-6) id_apply] unfolding uid
    by (elim exE conjE) (erule that, assumption, simp)
  then show ?thesis using d by blast
qed

end
