(* ===== verification/Daemon.thy ===== *)
theory Daemon
  imports ServerInfo System
begin

text \<open>
  Processes of the daemon: \<open>src/src/platform/LockFile.cpp\<close> and the control flow of \<open>run_daemon\<close>
  (\<open>src/src/app/DaemonApp.cpp\<close>, \<open>app/Entrypoint.cpp\<close>). Any number of processes of one user start, take the lock,
  work through the start-up and serve; a step of the system is one call of one process, so that a run is any
  interleaving. What a call to holder-core answers is free, an exception included. Logging is left out, as is a failure to create
  the directories, which ends a process before it comes to the lock.
\<close>

subsection \<open>The command line\<close>

definition stoi :: "string \<Rightarrow> int option" where
  "stoi s =
     (let t = dropWhile is_space s;
          (negative, u) = (case t of [] \<Rightarrow> (False, []) | c # r \<Rightarrow> if c = CHR ''-'' then (True, r) else if c = CHR ''+'' then (False, r) else (False, t));
          digits = takeWhile is_digit u;
          v = (if negative then - int (dec_value digits) else int (dec_value digits))
      in if digits = [] \<or> v < - 2147483648 \<or> 2147483647 < v then None else Some v)"

record daemon_options =
  op_bind :: string
  op_port :: int
  op_reindex_only :: bool
  op_rebuild_only :: bool
  op_dry_run :: bool

definition default_options :: daemon_options where
  "default_options = \<lparr>op_bind = ''127.0.0.1'', op_port = 11499, op_reindex_only = False, op_rebuild_only = False, op_dry_run = False\<rparr>"

text \<open>The left value is an exit code.\<close>

fun parse_options :: "string list \<Rightarrow> daemon_options \<Rightarrow> int + daemon_options" where
  "parse_options [] opts = Inr opts"
| "parse_options [arg] opts =
     (if arg = ''--help'' \<or> arg = ''-h'' then Inl 0
      else if arg = ''--reindex'' then Inr (opts\<lparr>op_reindex_only := True\<rparr>)
      else if arg = ''--rebuild-database'' then Inr (opts\<lparr>op_rebuild_only := True\<rparr>)
      else if arg = ''--dry-run'' then Inr (opts\<lparr>op_dry_run := True\<rparr>)
      else Inl 2)"
| "parse_options (arg # val # rest) opts =
     (if arg = ''--bind'' then parse_options rest (opts\<lparr>op_bind := val\<rparr>)
      else if arg = ''--port'' then
        (case stoi val of
           None \<Rightarrow> Inl 2
         | Some parsed \<Rightarrow> if parsed < 0 \<or> 65535 < parsed then Inl 2 else parse_options rest (opts\<lparr>op_port := parsed\<rparr>))
      else if arg = ''--help'' \<or> arg = ''-h'' then Inl 0
      else if arg = ''--reindex'' then parse_options (val # rest) (opts\<lparr>op_reindex_only := True\<rparr>)
      else if arg = ''--rebuild-database'' then parse_options (val # rest) (opts\<lparr>op_rebuild_only := True\<rparr>)
      else if arg = ''--dry-run'' then parse_options (val # rest) (opts\<lparr>op_dry_run := True\<rparr>)
      else Inl 2)"

definition daemon_args :: "string list \<Rightarrow> int + daemon_options" where
  "daemon_args args =
     (if list_ex (\<lambda>a. a \<in> {''--version'', ''--help'', ''-h''}) args then Inl 0 else parse_options args default_options)"

subsection \<open>The lock file\<close>

text \<open>
  The holders are the operating system's table: which process holds the lock on a file. A faulty call has its message; the
  switches for tests are among the faults.
\<close>

record lock_file =
  lk_path :: string
  lk_open :: bool
  lk_locked :: bool

type_synonym holders = "string \<Rightarrow> nat option"

record lock_faults =
  lf_touch :: bool
  lf_handle :: "string option"
  lf_try :: "string option"
  lf_release :: bool

definition lock_path :: "paths \<Rightarrow> string" where
  "lock_path p = path_join (server_dir p) ''holder.lock''"

definition lock_file_new :: "string \<Rightarrow> lock_file" where
  "lock_file_new path = \<lparr>lk_path = path, lk_open = False, lk_locked = False\<rparr>"

definition ensure_lock :: "lock_faults \<Rightarrow> lock_file \<Rightarrow> unit result \<times> lock_file" where
  "ensure_lock faults l =
     (if lk_open l then (Inr (), l)
      else if lf_touch faults then (Inl (RuntimeError (''Failed to open lock file: '' @ lk_path l)), l)
      else case lf_handle faults of
          Some msg \<Rightarrow> (Inl (RuntimeError msg), l)
        | None \<Rightarrow> (Inr (), l\<lparr>lk_open := True\<rparr>))"

definition try_acquire :: "lock_faults \<Rightarrow> nat \<Rightarrow> lock_file \<Rightarrow> holders \<Rightarrow> bool result \<times> lock_file \<times> holders" where
  "try_acquire faults pid l h =
     (case ensure_lock faults l of
        (Inl e, l1) \<Rightarrow> (Inl e, l1, h)
      | (Inr _, l1) \<Rightarrow>
          if lk_locked l1 then (Inr True, l1, h)
          else case lf_try faults of
              Some msg \<Rightarrow> (Inl (RuntimeError (''Failed to acquire lock: '' @ lk_path l1 @ '' ('' @ msg @ '')'')), l1, h)
            | None \<Rightarrow>
                if h (lk_path l1) \<in> {None, Some pid}
                then (Inr True, l1\<lparr>lk_locked := True\<rparr>, h(lk_path l1 \<mapsto> pid))
                else (Inr False, l1, h))"

text \<open>A failing \<open>unlock\<close> is swallowed, and closing the handle gives the lock up all the same.\<close>

definition lock_release :: "lock_faults \<Rightarrow> lock_file \<Rightarrow> holders \<Rightarrow> unit result \<times> lock_file \<times> holders" where
  "lock_release faults l h =
     (if lf_release faults then (Inl (RuntimeError ''forced release failure''), l, h)
      else if lk_open l then
        (Inr (), l\<lparr>lk_open := False, lk_locked := False\<rparr>, if lk_locked l then h(lk_path l := None) else h)
      else (Inr (), l, h))"

subsection \<open>The start-up\<close>

datatype startup_call =
    FindSchema | OpenSecrets | RebuildOnly | InspectHealth | RebuildFirst | ProbeDatabase | OpenDatabase
  | EnsureSchema | MigrateSchema | CheckSchemaVersion | InitDeviceConfig | InitUsageLedger | RecoverProjects
  | RecoverCredentials | BootstrapHome | BackfillManifests | BackfillThreads | BackfillThreadStates
  | BackfillDismissals | RememberProjects | AuditOwnership | MarkReady | BackfillTags | ReindexAll
  | StartServer | WriteInfo

datatype db_health = Healthy | Missing | Corrupt | IoError

datatype call_answer = Fine | Flag bool | Health db_health | Threw

datatype follow_up = Call startup_call | Serve | Leave int

record startup_facts =
  sf_existed :: bool
  sf_migrated :: bool

definition recover_requires_manifest :: "startup_facts \<Rightarrow> bool" where
  "recover_requires_manifest facts = (\<not> sf_existed facts)"

definition note_answer :: "startup_call \<Rightarrow> call_answer \<Rightarrow> startup_facts \<Rightarrow> startup_facts" where
  "note_answer c ans facts =
     (case (c, ans) of
        (ProbeDatabase, Flag b) \<Rightarrow> facts\<lparr>sf_existed := b\<rparr>
      | (MigrateSchema, Flag b) \<Rightarrow> facts\<lparr>sf_migrated := b\<rparr>
      | _ \<Rightarrow> facts)"

text \<open>What a call can answer when it does not throw.\<close>

fun answer_fits :: "startup_call \<Rightarrow> call_answer \<Rightarrow> bool" where
  "answer_fits ProbeDatabase ans \<longleftrightarrow> (\<exists>b. ans = Flag b) \<or> ans = Threw"
| "answer_fits MigrateSchema ans \<longleftrightarrow> (\<exists>b. ans = Flag b) \<or> ans = Threw"
| "answer_fits InspectHealth ans \<longleftrightarrow> (\<exists>h. ans = Health h) \<or> ans = Threw"
| "answer_fits c ans \<longleftrightarrow> ans = Fine \<or> ans = Threw"

definition after_readiness :: "daemon_options \<Rightarrow> startup_facts \<Rightarrow> follow_up" where
  "after_readiness opts facts =
     (if sf_migrated facts then Call BackfillTags else if op_reindex_only opts then Call ReindexAll else Call StartServer)"

fun next_call :: "daemon_options \<Rightarrow> startup_facts \<Rightarrow> startup_call \<Rightarrow> follow_up" where
  "next_call opts facts FindSchema = Call OpenSecrets"
| "next_call opts facts OpenSecrets =
     (if op_rebuild_only opts then Call RebuildOnly else if op_dry_run opts then Leave 2 else Call InspectHealth)"
| "next_call opts facts RebuildOnly = Leave 0"
| "next_call opts facts InspectHealth = Call ProbeDatabase"
| "next_call opts facts RebuildFirst = Call ProbeDatabase"
| "next_call opts facts ProbeDatabase = Call OpenDatabase"
| "next_call opts facts OpenDatabase = Call EnsureSchema"
| "next_call opts facts EnsureSchema = Call MigrateSchema"
| "next_call opts facts MigrateSchema = Call CheckSchemaVersion"
| "next_call opts facts CheckSchemaVersion = Call InitDeviceConfig"
| "next_call opts facts InitDeviceConfig = Call InitUsageLedger"
| "next_call opts facts InitUsageLedger = Call RecoverProjects"
| "next_call opts facts RecoverProjects = Call RecoverCredentials"
| "next_call opts facts RecoverCredentials = Call BootstrapHome"
| "next_call opts facts BootstrapHome = Call BackfillManifests"
| "next_call opts facts BackfillManifests = Call BackfillThreads"
| "next_call opts facts BackfillThreads = Call BackfillThreadStates"
| "next_call opts facts BackfillThreadStates = Call BackfillDismissals"
| "next_call opts facts BackfillDismissals = Call RememberProjects"
| "next_call opts facts RememberProjects = Call AuditOwnership"
| "next_call opts facts AuditOwnership = Call MarkReady"
| "next_call opts facts MarkReady = after_readiness opts facts"
| "next_call opts facts BackfillTags = (if op_reindex_only opts then Call ReindexAll else Call StartServer)"
| "next_call opts facts ReindexAll = Leave 0"
| "next_call opts facts StartServer = Call WriteInfo"
| "next_call opts facts WriteInfo = Serve"

text \<open>
  An exception ends the process with code 1, except that a failing audit is only logged; a database that is missing or
  corrupt is rebuilt first.
\<close>

definition follow :: "daemon_options \<Rightarrow> startup_facts \<Rightarrow> startup_call \<Rightarrow> call_answer \<Rightarrow> follow_up" where
  "follow opts facts c ans =
     (case ans of
        Threw \<Rightarrow> if c = AuditOwnership \<or> c = MarkReady then after_readiness opts facts else Leave 1
      | Health IoError \<Rightarrow> Leave 1
      | Health Missing \<Rightarrow> Call RebuildFirst
      | Health Corrupt \<Rightarrow> Call RebuildFirst
      | _ \<Rightarrow> next_call opts facts c)"

subsection \<open>Processes\<close>

datatype daemon_state =
    Parsed daemon_options
  | Starting daemon_options lock_file startup_facts startup_call "(startup_call \<times> call_answer) list"
  | Serving lock_file "(startup_call \<times> call_answer) list"
  | Ended int

text \<open>\<open>dm_touched\<close> records who worked on the database and who held the lock then, \<open>dm_info\<close> whose information is in \<open>holder.json\<close>.\<close>

record daemons =
  dm_procs :: "nat \<Rightarrow> daemon_state option"
  dm_holders :: holders
  dm_info :: "nat option"
  dm_touched :: "(nat \<times> nat option) list"

definition touches_database :: "startup_call \<Rightarrow> bool" where
  "touches_database c \<longleftrightarrow> c \<notin> {FindSchema, OpenSecrets, StartServer, WriteInfo}"

text \<open>The end of a process: the destructor of the lock, then the system takes back what is left.\<close>

definition process_ends :: "lock_faults \<Rightarrow> nat \<Rightarrow> lock_file \<Rightarrow> int \<Rightarrow> daemons \<Rightarrow> daemons" where
  "process_ends faults pid l code s =
     (let (_, _, h) = lock_release faults l (dm_holders s)
      in s\<lparr>dm_procs := (dm_procs s)(pid \<mapsto> Ended code), dm_holders := (\<lambda>p. if h p = Some pid then None else h p)\<rparr>)"

definition launch :: "nat \<Rightarrow> string list \<Rightarrow> daemons \<Rightarrow> daemons" where
  "launch pid args s =
     s\<lparr>dm_procs := (dm_procs s)(pid \<mapsto> (case daemon_args args of Inl code \<Rightarrow> Ended code | Inr opts \<Rightarrow> Parsed opts))\<rparr>"

definition acquire :: "lock_faults \<Rightarrow> string \<Rightarrow> nat \<Rightarrow> daemon_options \<Rightarrow> daemons \<Rightarrow> daemons" where
  "acquire faults path pid opts s =
     (case try_acquire faults pid (lock_file_new path) (dm_holders s) of
        (Inl _, l, h) \<Rightarrow> process_ends faults pid l 1 (s\<lparr>dm_holders := h\<rparr>)
      | (Inr False, l, h) \<Rightarrow> process_ends faults pid l 2 (s\<lparr>dm_holders := h\<rparr>)
      | (Inr True, l, h) \<Rightarrow>
          s\<lparr>dm_procs := (dm_procs s)(pid \<mapsto> Starting opts l \<lparr>sf_existed = False, sf_migrated = False\<rparr> FindSchema []), dm_holders := h\<rparr>)"

definition perform :: "lock_faults \<Rightarrow> string \<Rightarrow> nat \<Rightarrow> call_answer \<Rightarrow> daemons \<Rightarrow> daemons" where
  "perform faults path pid ans s =
     (case dm_procs s pid of
        Some (Starting opts l facts c made) \<Rightarrow>
          let facts' = note_answer c ans facts;
              made' = made @ [(c, ans)];
              s' = s\<lparr>dm_touched := dm_touched s @ (if touches_database c then [(pid, dm_holders s path)] else []),
                     dm_info := (if c = WriteInfo \<and> ans = Fine then Some pid else dm_info s)\<rparr>
          in (case follow opts facts' c ans of
                Call c' \<Rightarrow> s'\<lparr>dm_procs := (dm_procs s)(pid \<mapsto> Starting opts l facts' c' made')\<rparr>
              | Serve \<Rightarrow> s'\<lparr>dm_procs := (dm_procs s)(pid \<mapsto> Serving l made')\<rparr>
              | Leave code \<Rightarrow> process_ends faults pid l code s')
      | _ \<Rightarrow> s)"

definition crash :: "nat \<Rightarrow> daemons \<Rightarrow> daemons" where
  "crash pid s =
     s\<lparr>dm_procs := (dm_procs s)(pid \<mapsto> Ended 137),
       dm_holders := (\<lambda>p. if dm_holders s p = Some pid then None else dm_holders s p)\<rparr>"

definition over :: "daemon_state option \<Rightarrow> bool" where
  "over st \<longleftrightarrow> st = None \<or> (\<exists>code. st = Some (Ended code))"

inductive daemon_step :: "string \<Rightarrow> daemons \<Rightarrow> daemons \<Rightarrow> bool" for path where
  Launch: "over (dm_procs s pid) \<Longrightarrow> daemon_step path s (launch pid args s)"
| Acquire: "dm_procs s pid = Some (Parsed opts) \<Longrightarrow> daemon_step path s (acquire faults path pid opts s)"
| Perform: "dm_procs s pid = Some (Starting opts l facts c made) \<Longrightarrow> answer_fits c ans \<Longrightarrow> daemon_step path s (perform faults path pid ans s)"
| Stop: "dm_procs s pid = Some (Serving l made) \<Longrightarrow> code \<in> {0, 3} \<Longrightarrow> daemon_step path s (process_ends faults pid l code s)"
| Crash: "\<not> over (dm_procs s pid) \<Longrightarrow> daemon_step path s (crash pid s)"

definition no_daemons :: daemons where
  "no_daemons = \<lparr>dm_procs = (\<lambda>_. None), dm_holders = (\<lambda>_. None), dm_info = None, dm_touched = []\<rparr>"

inductive_cases daemon_stepE: "daemon_step path s t"

subsection \<open>Lemmas: the order of the start-up\<close>

definition order :: "startup_call list" where
  "order =
     [FindSchema, OpenSecrets, InspectHealth, ProbeDatabase, OpenDatabase, EnsureSchema, MigrateSchema, CheckSchemaVersion,
      InitDeviceConfig, InitUsageLedger, RecoverProjects, RecoverCredentials, BootstrapHome, BackfillManifests, BackfillThreads,
      BackfillThreadStates, BackfillDismissals, RememberProjects, AuditOwnership, StartServer, WriteInfo]"

text \<open>The calls that are not always made stand before these.\<close>

fun stand :: "startup_call \<Rightarrow> startup_call" where
  "stand RebuildOnly = InspectHealth"
| "stand RebuildFirst = ProbeDatabase"
| "stand MarkReady = StartServer"
| "stand BackfillTags = StartServer"
| "stand ReindexAll = StartServer"
| "stand c = c"

definition before :: "startup_call \<Rightarrow> startup_call list" where
  "before c = takeWhile (\<lambda>d. d \<noteq> stand c) order"

definition calls_in_order :: "(startup_call \<times> call_answer) list \<Rightarrow> startup_call list" where
  "calls_in_order made = filter (\<lambda>c. c \<in> set order) (map fst made)"

text \<open>No call failed but those that may; the database was healthy or rebuilt; ready only after a passed audit.\<close>

definition sound :: "(startup_call \<times> call_answer) list \<Rightarrow> bool" where
  "sound made \<longleftrightarrow>
     (\<forall>c. (c, Threw) \<in> set made \<longrightarrow> c \<in> {AuditOwnership, MarkReady}) \<and>
     (OpenDatabase \<in> fst ` set made \<longrightarrow> (InspectHealth, Health Healthy) \<in> set made \<or> (RebuildFirst, Fine) \<in> set made) \<and>
     (MarkReady \<in> fst ` set made \<longrightarrow> (AuditOwnership, Fine) \<in> set made)"

definition starting_ok :: "startup_call \<Rightarrow> (startup_call \<times> call_answer) list \<Rightarrow> bool" where
  "starting_ok c made \<longleftrightarrow> calls_in_order made = before c \<and> sound made \<and>
     (InspectHealth \<in> set (before c) \<and> c \<noteq> RebuildFirst \<longrightarrow> (InspectHealth, Health Healthy) \<in> set made \<or> (RebuildFirst, Fine) \<in> set made) \<and>
     (c = MarkReady \<longrightarrow> (AuditOwnership, Fine) \<in> set made)"

lemma calls_in_order_snoc: "calls_in_order (made @ [(c, ans)]) = calls_in_order made @ (if c \<in> set order then [c] else [])"
  by (simp add: calls_in_order_def)

text \<open>One call further, the calls before it grow by the one just made.\<close>

lemma before_next:
  assumes "next_call opts facts c = Call c'"
  shows "before c' = before c @ (if c \<in> set order then [c] else [])"
  using assms by (cases c; simp only: next_call.simps after_readiness_def follow_up.inject follow_up.distinct split: if_splits)
    (auto simp: before_def order_def)

lemma before_optional:
  "before MarkReady = before StartServer" "before BackfillTags = before StartServer" "before ReindexAll = before StartServer"
  "before StartServer = before AuditOwnership @ [AuditOwnership]" "AuditOwnership \<in> set order" "MarkReady \<notin> set order"
  by (simp_all add: before_def order_def)

lemma before_ready:
  assumes "after_readiness opts facts = Call c'" "c = AuditOwnership \<or> c = MarkReady"
  shows "before c' = before c @ (if c \<in> set order then [c] else [])"
  using assms by (auto simp: after_readiness_def before_optional split: if_splits)

lemma before_rebuild: "before RebuildFirst = before InspectHealth @ (if InspectHealth \<in> set order then [InspectHealth] else [])"
  by (simp add: before_def order_def)

lemma follow_cases:
  assumes "answer_fits c ans"
  obtains (goes_on) "follow opts facts c ans = next_call opts facts c" "ans \<noteq> Threw" "c = InspectHealth \<Longrightarrow> ans = Health Healthy"
  | (logged) "follow opts facts c ans = after_readiness opts facts" "c = AuditOwnership \<or> c = MarkReady" "ans = Threw"
  | (rebuild) "follow opts facts c ans = Call RebuildFirst" "c = InspectHealth" "ans \<noteq> Threw"
  | (leave) "follow opts facts c ans = Leave 1"
proof (cases ans)
  case (Health h)
  then have "c = InspectHealth" using assms by (cases c) auto
  then show ?thesis using Health that by (cases h) (auto simp: follow_def)
next
  case Fine
  then have "c \<noteq> InspectHealth" using assms by auto
  then show ?thesis using Fine that(1) by (auto simp: follow_def)
next
  case (Flag b)
  then have "c \<noteq> InspectHealth" using assms by auto
  then show ?thesis using Flag that(1) by (auto simp: follow_def)
next
  case Threw
  then show ?thesis using that(2,4) by (cases "c = AuditOwnership \<or> c = MarkReady") (auto simp: follow_def)
qed

lemma next_serve: "next_call opts facts c = Serve \<Longrightarrow> c = WriteInfo"
  by (cases c) (auto simp: after_readiness_def split: if_splits)

lemma ready_calls: "after_readiness opts facts \<noteq> Serve"
  by (simp add: after_readiness_def)

lemma follow_order:
  assumes "calls_in_order made = before c" "answer_fits c ans"
  shows "(\<forall>c'. follow opts facts c ans = Call c' \<longrightarrow> calls_in_order (made @ [(c, ans)]) = before c') \<and>
    (follow opts facts c ans = Serve \<longrightarrow> calls_in_order (made @ [(c, ans)]) = order \<and> c = WriteInfo \<and> ans = Fine)"
  using assms(2)
proof (cases rule: follow_cases [where opts = opts and facts = facts])
  case goes_on
  have "calls_in_order (made @ [(c, ans)]) = order \<and> ans = Fine" if "c = WriteInfo"
    using assms goes_on(2) that by (auto simp: calls_in_order_snoc before_def order_def)
  then show ?thesis using goes_on(1) before_next [of opts facts c] next_serve [of opts facts c] assms(1) by (auto simp: calls_in_order_snoc)
next
  case logged
  then show ?thesis using before_ready [of opts facts _ c] ready_calls [of opts facts] assms(1) by (auto simp: calls_in_order_snoc)
next
  case rebuild
  then show ?thesis using before_rebuild assms(1) by (simp add: calls_in_order_snoc)
next
  case leave
  then show ?thesis by simp
qed

lemma follow_sound:
  assumes "starting_ok c made" "answer_fits c ans" "follow opts facts c ans = Call c' \<or> follow opts facts c ans = Serve"
  shows "sound (made @ [(c, ans)])"
proof -
  have "InspectHealth \<in> set (before c) \<and> c \<noteq> RebuildFirst" if "c = OpenDatabase" using that by (simp add: before_def order_def)
  then show ?thesis using assms unfolding starting_ok_def sound_def
    by (cases ans) (auto simp: follow_def split: if_splits)
qed

lemma follow_starting:
  assumes "starting_ok c made" "answer_fits c ans" "follow opts facts c ans = Call c'"
  shows "starting_ok c' (made @ [(c, ans)])"
proof -
  have o: "calls_in_order (made @ [(c, ans)]) = before c'" using follow_order [of made c ans opts facts] assms by (auto simp: starting_ok_def)
  have h: "(InspectHealth, Health Healthy) \<in> set (made @ [(c, ans)]) \<or> (RebuildFirst, Fine) \<in> set (made @ [(c, ans)])"
    if "InspectHealth \<in> set (before c')" "c' \<noteq> RebuildFirst"
    using assms that unfolding starting_ok_def
    by (cases c) (auto simp: follow_def after_readiness_def before_def order_def split: call_answer.splits db_health.splits if_splits)
  have m: "c' = MarkReady \<longrightarrow> (AuditOwnership, Fine) \<in> set (made @ [(c, ans)])"
    using assms(2,3) by (cases c) (auto simp: follow_def after_readiness_def split: call_answer.splits db_health.splits if_splits)
  show ?thesis using o h m follow_sound [OF assms(1,2)] assms(3) by (auto simp: starting_ok_def)
qed

subsection \<open>Lemmas: one holder\<close>

definition lock_held :: "string \<Rightarrow> lock_file" where
  "lock_held path = \<lparr>lk_path = path, lk_open = True, lk_locked = True\<rparr>"

definition state_ok :: "string \<Rightarrow> daemons \<Rightarrow> nat \<Rightarrow> bool" where
  "state_ok path s pid \<longleftrightarrow>
     (case dm_procs s pid of
        Some (Starting opts l facts c made) \<Rightarrow> dm_holders s path = Some pid \<and> l = lock_held path \<and> starting_ok c made
      | Some (Serving l made) \<Rightarrow> dm_holders s path = Some pid \<and> l = lock_held path \<and> dm_info s = Some pid \<and> calls_in_order made = order \<and> sound made
      | _ \<Rightarrow> dm_holders s path \<noteq> Some pid)"

definition daemons_ok :: "string \<Rightarrow> daemons \<Rightarrow> bool" where
  "daemons_ok path s \<longleftrightarrow> (\<forall>pid. state_ok path s pid) \<and> (\<forall>(pid, h) \<in> set (dm_touched s). h = Some pid)"

lemma process_ends_ok:
  assumes "\<And>q. q \<noteq> pid \<Longrightarrow> state_ok path s q" "\<forall>(p, h) \<in> set (dm_touched s). h = Some p"
    and "lk_locked l \<Longrightarrow> lk_path l = path \<and> dm_holders s path = Some pid"
  shows "daemons_ok path (process_ends faults pid l code s)"
proof -
  obtain r l' h where r: "lock_release faults l (dm_holders s) = (r, l', h)" by (metis prod_cases3)
  have h: "h path = dm_holders s path \<or> h path = None \<and> dm_holders s path = Some pid"
    using r assms(3) by (auto simp: lock_release_def split: if_splits)
  let ?s = "process_ends faults pid l code s"
  have p: "dm_procs ?s = (dm_procs s)(pid \<mapsto> Ended code)" "dm_info ?s = dm_info s" "dm_touched ?s = dm_touched s"
      "dm_holders ?s path = (if dm_holders s path = Some pid then None else dm_holders s path)"
    using r h by (auto simp: process_ends_def)
  have "state_ok path ?s q" for q
    using assms(1) [of q] p by (cases "q = pid") (auto simp: state_ok_def split: option.splits daemon_state.splits)
  then show ?thesis using assms(2) p(3) by (simp add: daemons_ok_def)
qed

lemma other_state_ok:
  assumes "state_ok path s q" "dm_procs t q = dm_procs s q" "dm_holders t path = dm_holders s path" "dm_info t = dm_info s"
  shows "state_ok path t q"
  using assms(1) unfolding state_ok_def assms(2-4) .

lemma launch_ok:
  assumes "daemons_ok path s" "over (dm_procs s pid)"
  shows "daemons_ok path (launch pid args s)"
proof -
  have "state_ok path (launch pid args s) q" for q
  proof (cases "q = pid")
    case True
    have "state_ok path s pid" using assms(1) by (simp add: daemons_ok_def)
    then have "dm_holders s path \<noteq> Some pid" using assms(2) by (auto simp: state_ok_def over_def)
    then show ?thesis using True by (auto simp: state_ok_def launch_def split: sum.splits)
  next
    case False
    have "state_ok path s q" using assms(1) by (simp add: daemons_ok_def)
    then show ?thesis by (rule other_state_ok) (use False in \<open>simp_all add: launch_def\<close>)
  qed
  then show ?thesis using assms(1) by (simp add: daemons_ok_def launch_def)
qed

lemma try_acquire_cases:
  assumes "try_acquire faults pid (lock_file_new path) h = (r, l, h')"
  shows "r = Inr True \<and> l = lock_held path \<and> h' = h(path \<mapsto> pid) \<and> h path \<in> {None, Some pid} \<or> r \<noteq> Inr True \<and> \<not> lk_locked l \<and> h' = h"
  using assms by (auto simp: try_acquire_def ensure_lock_def lock_file_new_def lock_held_def split: if_splits option.splits)

lemma acquire_ok:
  assumes "daemons_ok path s" "dm_procs s pid = Some (Parsed opts)"
  shows "daemons_ok path (acquire faults path pid opts s)"
proof -
  have all: "state_ok path s q" for q using assms(1) by (simp add: daemons_ok_def)
  have free: "dm_holders s path \<noteq> Some pid" using all [of pid] assms(2) by (simp add: state_ok_def)
  obtain r l h where t: "try_acquire faults pid (lock_file_new path) (dm_holders s) = (r, l, h)" by (metis prod_cases3)
  show ?thesis
  proof (cases "r = Inr True")
    case True
    then have a: "l = lock_held path" "h = (dm_holders s)(path \<mapsto> pid)" "dm_holders s path = None"
      using try_acquire_cases [OF t] free by auto
    have n: "acquire faults path pid opts s =
        s\<lparr>dm_procs := (dm_procs s)(pid \<mapsto> Starting opts l \<lparr>sf_existed = False, sf_migrated = False\<rparr> FindSchema []), dm_holders := h\<rparr>"
      using t True by (simp add: acquire_def)
    have "state_ok path (acquire faults path pid opts s) q" for q
      using all [of q] a unfolding n
      by (cases "q = pid") (auto simp: state_ok_def starting_ok_def sound_def calls_in_order_def before_def order_def split: option.splits daemon_state.splits)
    then show ?thesis using assms(1) by (simp add: daemons_ok_def n)
  next
    case False
    then have a: "\<not> lk_locked l" "h = dm_holders s" using try_acquire_cases [OF t] by auto
    obtain code where c: "acquire faults path pid opts s = process_ends faults pid l code s"
    proof (cases r)
      case (Inl e)
      then show thesis using that [of 1] t a(2) by (simp add: acquire_def)
    next
      case (Inr b)
      then show thesis using that [of 2] False t a(2) by (simp add: acquire_def)
    qed
    show ?thesis unfolding c by (rule process_ends_ok) (use all assms(1) a(1) in \<open>auto simp: daemons_ok_def\<close>)
  qed
qed

lemma perform_ok:
  assumes "daemons_ok path s" "dm_procs s pid = Some (Starting opts l facts c made)" "answer_fits c ans"
  shows "daemons_ok path (perform faults path pid ans s)"
proof -
  have all: "state_ok path s q" for q using assms(1) by (simp add: daemons_ok_def)
  have me: "dm_holders s path = Some pid" "l = lock_held path" "starting_ok c made" using all [of pid] assms(2) by (auto simp: state_ok_def)
  let ?s = "s\<lparr>dm_touched := dm_touched s @ (if touches_database c then [(pid, dm_holders s path)] else []),
              dm_info := (if c = WriteInfo \<and> ans = Fine then Some pid else dm_info s)\<rparr>"
  have touched: "\<forall>(p, h) \<in> set (dm_touched ?s). h = Some p" using assms(1) me(1) by (auto simp: daemons_ok_def)
  have others: "state_ok path ?s q" if "q \<noteq> pid" for q
    using all [of q] that me(1) by (auto simp: state_ok_def split: option.splits daemon_state.splits)
  have moved: "daemons_ok path (?s\<lparr>dm_procs := (dm_procs s)(pid \<mapsto> st)\<rparr>)"
    if "state_ok path (?s\<lparr>dm_procs := (dm_procs s)(pid \<mapsto> st)\<rparr>) pid" for st
  proof -
    have "state_ok path (?s\<lparr>dm_procs := (dm_procs s)(pid \<mapsto> st)\<rparr>) q" if "q \<noteq> pid" for q
      by (rule other_state_ok [OF others [OF that]]) (use that in simp_all)
    then have "state_ok path (?s\<lparr>dm_procs := (dm_procs s)(pid \<mapsto> st)\<rparr>) q" for q using that by (cases "q = pid") auto
    then show ?thesis using touched by (simp add: daemons_ok_def)
  qed
  let ?facts = "note_answer c ans facts"
  show ?thesis
  proof (cases "follow opts ?facts c ans")
    case (Call c')
    then have "starting_ok c' (made @ [(c, ans)])" by (rule follow_starting [OF me(3) assms(3)])
    then show ?thesis using moved [of "Starting opts l ?facts c' (made @ [(c, ans)])"] Call assms(2) me
      by (simp add: perform_def state_ok_def)
  next
    case Serve
    then have "calls_in_order (made @ [(c, ans)]) = order" "c = WriteInfo" "ans = Fine" "sound (made @ [(c, ans)])"
      using follow_order [of made c ans opts ?facts] follow_sound [OF me(3) assms(3)] me(3) assms(3) by (auto simp: starting_ok_def)
    then show ?thesis using moved [of "Serving l (made @ [(c, ans)])"] Serve assms(2) me by (simp add: perform_def state_ok_def)
  next
    case (Leave code)
    then have "perform faults path pid ans s = process_ends faults pid l code ?s" using assms(2) by (simp add: perform_def)
    then show ?thesis using process_ends_ok [of pid path ?s l faults code] others touched me(1,2) by (simp add: lock_held_def)
  qed
qed

lemma crash_ok:
  assumes "daemons_ok path s"
  shows "daemons_ok path (crash pid s)"
proof -
  have all: "state_ok path s q" for q using assms by (simp add: daemons_ok_def)
  have "state_ok path (crash pid s) q" for q
    using all [of q] by (cases "q = pid") (auto simp: state_ok_def crash_def split: option.splits daemon_state.splits)
  then show ?thesis using assms by (simp add: daemons_ok_def crash_def)
qed

lemma daemon_step_ok:
  assumes "daemon_step path s t" "daemons_ok path s"
  shows "daemons_ok path t"
  using assms
proof (cases rule: daemon_step.cases)
  case (Stop pid l made code faults)
  have "state_ok path s q" for q using assms(2) by (simp add: daemons_ok_def)
  moreover have "dm_holders s path = Some pid" "l = lock_held path" using calculation [of pid] Stop by (auto simp: state_ok_def)
  ultimately show ?thesis using process_ends_ok [of pid path s l faults code] Stop(1) assms(2) by (simp add: daemons_ok_def lock_held_def)
qed (use assms in \<open>auto simp: launch_ok acquire_ok perform_ok crash_ok\<close>)

interpretation dm: step_system "daemon_step path" "daemons_ok path" for path
  by unfold_locales (rule daemon_step_ok)

lemma no_daemons_ok: "daemons_ok path no_daemons"
  by (simp add: daemons_ok_def state_ok_def no_daemons_def)

subsection \<open>A daemon that comes up\<close>

definition no_faults :: lock_faults where
  "no_faults = \<lparr>lf_touch = False, lf_handle = None, lf_try = None, lf_release = False\<rparr>"

fun good_answer :: "startup_call \<Rightarrow> call_answer" where
  "good_answer InspectHealth = Health Healthy"
| "good_answer ProbeDatabase = Flag True"
| "good_answer MigrateSchema = Flag False"
| "good_answer c = Fine"

definition good_step :: "string \<Rightarrow> nat \<Rightarrow> daemons \<Rightarrow> daemons" where
  "good_step path pid s =
     (case dm_procs s pid of
        Some (Starting opts l facts c made) \<Rightarrow> perform no_faults path pid (good_answer c) s
      | _ \<Rightarrow> s)"

lemma good_answer_fits: "answer_fits c (good_answer c)"
  by (cases c) auto

lemma good_step_reach:
  assumes "(daemon_step path)\<^sup>*\<^sup>* s t"
  shows "(daemon_step path)\<^sup>*\<^sup>* s (good_step path pid t)"
proof (cases "\<exists>opts l facts c made. dm_procs t pid = Some (Starting opts l facts c made)")
  case True
  then obtain opts l facts c made where t: "dm_procs t pid = Some (Starting opts l facts c made)" by blast
  have "daemon_step path t (good_step path pid t)"
    using daemon_step.Perform [OF t good_answer_fits, of path no_faults] t by (simp add: good_step_def)
  then show ?thesis by (rule rtranclp.rtrancl_into_rtrancl [OF assms])
next
  case False
  then have "good_step path pid t = t" by (auto simp: good_step_def split: option.split daemon_state.split)
  then show ?thesis using assms by simp
qed

lemma good_steps_reach: "(daemon_step path)\<^sup>*\<^sup>* s t \<Longrightarrow> (daemon_step path)\<^sup>*\<^sup>* s ((good_step path pid ^^ k) t)"
  by (induction k) (simp_all add: good_step_reach)

text \<open>Two processes start, the first takes the lock and works through its start-up.\<close>

definition two_started :: daemons where
  "two_started = acquire no_faults ''L'' 1 default_options (launch 2 [] (launch 1 [] no_daemons))"

lemma two_started_reached: "(daemon_step ''L'')\<^sup>*\<^sup>* no_daemons two_started"
proof -
  have a: "daemon_step ''L'' no_daemons (launch 1 [] no_daemons)" by (rule daemon_step.Launch) (simp add: over_def no_daemons_def)
  have b: "daemon_step ''L'' (launch 1 [] no_daemons) (launch 2 [] (launch 1 [] no_daemons))"
    by (rule daemon_step.Launch) (simp add: over_def no_daemons_def launch_def)
  have c: "daemon_step ''L'' (launch 2 [] (launch 1 [] no_daemons)) two_started"
    unfolding two_started_def by (rule daemon_step.Acquire) (simp add: launch_def daemon_args_def no_daemons_def)
  show ?thesis
    by (rule rtranclp.rtrancl_into_rtrancl [OF rtranclp.rtrancl_into_rtrancl [OF r_into_rtranclp [where r = "daemon_step ''L''", OF a] b] c])
qed

text \<open>What these steps do to the state of the one process.\<close>

fun good_next :: "daemon_state \<Rightarrow> daemon_state" where
  "good_next (Starting opts l facts c made) =
     (let facts' = note_answer c (good_answer c) facts; made' = made @ [(c, good_answer c)]
      in case follow opts facts' c (good_answer c) of
           Call c' \<Rightarrow> Starting opts l facts' c' made'
         | Serve \<Rightarrow> Serving l made'
         | Leave code \<Rightarrow> Ended code)"
| "good_next st = st"

lemma good_step_next: "dm_procs s pid = Some st \<Longrightarrow> dm_procs (good_step path pid s) pid = Some (good_next st)"
  by (cases st) (auto simp: good_step_def perform_def process_ends_def Let_def case_prod_unfold split: follow_up.split)

lemma good_steps_next: "dm_procs s pid = Some st \<Longrightarrow> dm_procs ((good_step path pid ^^ k) s) pid = Some ((good_next ^^ k) st)"
  by (induction k) (simp_all add: good_step_next)

lemma first_started:
  "dm_procs two_started 1 = Some (Starting default_options (lock_held ''L'') \<lparr>sf_existed = False, sf_migrated = False\<rparr> FindSchema [])"
  by (simp add: two_started_def acquire_def try_acquire_def ensure_lock_def lock_file_new_def no_faults_def launch_def no_daemons_def lock_held_def)

lemma good_serves:
  "case (good_next ^^ 22) (Starting default_options (lock_held ''L'') \<lparr>sf_existed = False, sf_migrated = False\<rparr> FindSchema []) of
     Serving l made \<Rightarrow> True | _ \<Rightarrow> False"
  by code_simp

lemma first_serves:
  obtains s l made where "(daemon_step ''L'')\<^sup>*\<^sup>* no_daemons s" "dm_procs s 1 = Some (Serving l made)"
proof -
  have "(daemon_step ''L'')\<^sup>*\<^sup>* no_daemons ((good_step ''L'' 1 ^^ 22) two_started)" by (rule good_steps_reach [OF two_started_reached])
  then show thesis using that good_steps_next [OF first_started, where path = "''L''" and k = 22] good_serves by (auto split: daemon_state.splits)
qed

subsection \<open>Properties\<close>

text \<open>
  C25 However many daemons of one user are started, stopped or killed, in any interleaving of their steps and with any
  faults of the lock file: at most one process is past the lock, every call that works on the database was made
  by the process that held the lock at that moment, and while a daemon serves, the server information that clients read is its own.
\<close>

theorem one_daemon:
  assumes "(daemon_step path)\<^sup>*\<^sup>* no_daemons s"
  shows "(\<forall>p q. (\<exists>opts l facts c made. dm_procs s p = Some (Starting opts l facts c made) \<or> dm_procs s p = Some (Serving l made)) \<and>
       (\<exists>opts l facts c made. dm_procs s q = Some (Starting opts l facts c made) \<or> dm_procs s q = Some (Serving l made)) \<longrightarrow> p = q) \<and>
     (\<forall>(pid, holder) \<in> set (dm_touched s). holder = Some pid) \<and>
     (\<forall>pid l made. dm_procs s pid = Some (Serving l made) \<longrightarrow> dm_info s = Some pid)"
proof -
  have ok: "daemons_ok path s" by (rule dm.run_keeps [OF assms no_daemons_ok])
  then have st: "state_ok path s pid" for pid by (simp add: daemons_ok_def)
  have held_by: "dm_holders s path = Some pid"
    if "\<exists>opts l facts c made. dm_procs s pid = Some (Starting opts l facts c made) \<or> dm_procs s pid = Some (Serving l made)" for pid
    using st [of pid] that by (auto simp: state_ok_def)
  have info: "dm_info s = Some pid" if "dm_procs s pid = Some (Serving l made)" for pid l made
    using st [of pid] that by (simp add: state_ok_def)
  have "p = q" if "\<exists>opts l facts c made. dm_procs s p = Some (Starting opts l facts c made) \<or> dm_procs s p = Some (Serving l made)"
      "\<exists>opts l facts c made. dm_procs s q = Some (Starting opts l facts c made) \<or> dm_procs s q = Some (Serving l made)" for p q
    using held_by [OF that(1)] held_by [OF that(2)] by simp
  then show ?thesis using ok info by (simp add: daemons_ok_def)
qed

theorem one_daemon_witness:
  "\<exists>s l made. (daemon_step ''L'')\<^sup>*\<^sup>* no_daemons s \<and> dm_procs s 1 = Some (Serving l made) \<and> dm_info s = Some 1"
proof -
  obtain s l made where r: "(daemon_step ''L'')\<^sup>*\<^sup>* no_daemons s" and v: "dm_procs s 1 = Some (Serving l made)" by (rule first_serves)
  have "dm_info s = Some 1" using one_daemon [OF r] v by simp
  then show ?thesis using r v by blast
qed

text \<open>
  C26 A daemon serves only after a complete start-up: in every reachable state its calls were made in the fixed order, none of
  them threw except the audit that may fail and the marking after it, the database it opened had been found
  healthy or been rebuilt, and the database was marked ready for a rebuild only after the audit had passed.
\<close>

theorem serves_after_startup:
  assumes "(daemon_step path)\<^sup>*\<^sup>* no_daemons s" and "dm_procs s pid = Some (Serving l made)"
  shows "filter (\<lambda>c. c \<in> set order) (map fst made) = order \<and>
    (\<forall>c. (c, Threw) \<in> set made \<longrightarrow> c \<in> {AuditOwnership, MarkReady}) \<and>
    ((InspectHealth, Health Healthy) \<in> set made \<or> (RebuildFirst, Fine) \<in> set made) \<and>
    (MarkReady \<in> fst ` set made \<longrightarrow> (AuditOwnership, Fine) \<in> set made)"
proof -
  have "state_ok path s pid" using dm.run_keeps [OF assms(1) no_daemons_ok] by (simp add: daemons_ok_def)
  then have o: "calls_in_order made = order" "sound made" using assms(2) by (auto simp: state_ok_def)
  have "OpenDatabase \<in> set (calls_in_order made)" unfolding o(1) by (simp add: order_def)
  then have "OpenDatabase \<in> fst ` set made" by (auto simp: calls_in_order_def)
  then show ?thesis using o by (auto simp: calls_in_order_def sound_def)
qed

theorem serves_after_startup_witness:
  "\<exists>s l made. (daemon_step ''L'')\<^sup>*\<^sup>* no_daemons s \<and> dm_procs s 1 = Some (Serving l made) \<and>
     filter (\<lambda>c. c \<in> set order) (map fst made) = order"
proof -
  obtain s l made where r: "(daemon_step ''L'')\<^sup>*\<^sup>* no_daemons s" and v: "dm_procs s 1 = Some (Serving l made)" by (rule first_serves)
  have "filter (\<lambda>c. c \<in> set order) (map fst made) = order" using serves_after_startup [OF r v] by simp
  then show ?thesis using r v by blast
qed

end
