(* ===== verification/Spec2Isabelle.thy ===== *)
theory Spec2Isabelle
  imports Recovery Executor EventStream Calendar Docs Registry RunLimits S3 DriveLaws Daemon
begin

text \<open>
  A model of the Holder daemon (\<open>src/src/\<close>): a local HTTP server that keeps cards, projects and
  AI threads in a database and in git work trees, answers a desktop client, streams change events
  to it and talks to local and cloud language models.

  \<^bold>\<open>Parts and how they interact.\<close> \<open>api/Listener.cpp\<close> accepts connections; its ingress
  workers parse requests (\<open>Session::prepare_request\<close>) and put them in one of three lanes, save
  and general workers execute them (\<open>Session::execute\<close>), writer workers send the responses.
  \<open>api/Session.cpp\<close> answers public paths, checks the bearer token and dispatches to the router
  and the route handlers. Handlers use the support modules: the event journal and the run event store
  for streams, the cloud quota, thread compaction with its durable files, the project registry and
  the Google OAuth client.

  \<^bold>\<open>Theories.\<close>
  \<^item> \<open>Prelude\<close>: strings, decimal numbers, ordered maps (\<open>std::map\<close> as sorted association
    lists), optional values and the json value type with its access functions.
  \<^item> \<open>Journal\<close>: \<open>EventJournal\<close>. A record of epoch, sequence, byte count and retained
    events; \<open>journal_append\<close> and \<open>journal_read\<close> are the two methods, \<open>trim_loop\<close> the
    eviction loop. The locale \<open>replay_log\<close> is the contract of a bounded log, interpreted on the
    journal; the lemmas show that a reader sees every event once and in order or is told to resync.
  \<^item> \<open>RunStore\<close>: \<open>RunEventStore\<close>, a table of at most 128 journals with eviction of the
    least recently updated run.
  \<^item> \<open>Quota\<close>: \<open>CloudQuota\<close>, the usage table, the durable ledger file, usage windows and
    cooldowns with exponential back-off. The tables are lists of rows.
  \<^item> \<open>TextUtil\<close>, \<open>Compaction\<close>: \<open>ThreadCompaction\<close>, pinned facts, the compacted
    context, rolling summaries and their validation.
  \<^item> \<open>WorkTree\<close>: what durable copies of rows share; the locale \<open>row_copies\<close> is the contract of
    such a kind of copy, interpreted on thread states and on dismissals of nudges.
  \<^item> \<open>ThreadState\<close>: \<open>AiThreadStateDurability\<close>, the copy of thread states in the project's
    work tree, its restoration and the check before a database is dropped.
  \<^item> \<open>Http\<close>: requests, responses, token check, query lookup, router, lane classification and
    the whole dispatch of \<open>Session.cpp\<close>, \<open>AuthenticatedRoutes.cpp\<close> and
    \<open>ai/AiDispatch.cpp\<close>.
  \<^item> \<open>Paths\<close>, \<open>Docs\<close>: base directories, path discovery, the static routes and the page
    script that points the API browser at the specification.
  \<^item> \<open>OAuth\<close>: the client of Google's token service and the two routes with their table of
    pending attempts.
  \<^item> \<open>Store\<close>, \<open>Registry\<close>: the contract of a file that is replaced atomically (locale
    \<open>atomic_store\<close>) and the project registry that implements it.
  \<^item> \<open>Listener\<close>: the threads of the server as a step relation. A run is any interleaving of
    their critical sections.
  \<^item> \<open>System\<close>: the locales \<open>step_system\<close> and \<open>draining_system\<close>, the contracts of a
    step relation with an invariant and of one that always finishes; the listener, the event stream
    and the joint runs of service and stream are instances.
  \<^item> \<open>ChangeFeed\<close>, \<open>EventService\<close>: the feed of fingerprints over the database, the
    observer with its failures, the event routes and the source of a stream.
  \<^item> \<open>Sse\<close>: \<open>SseStream\<close> and \<open>SseRegistry\<close>. A thread is the list of accesses to
    atomics and of posts it still has to make, the strand runs handlers one at a time; the lemmas
    show the order of frames, the byte bound and that one poll is under way at a time.
  \<^item> \<open>EventStream\<close>: service and stream together, up to what the client's socket receives.
  \<^item> \<open>Executor\<close>: \<open>SerialExecutor\<close>, a worker with a bounded queue, callers that wait for
    their future, and the adapters that put an object behind it.
  \<^item> \<open>Calendar\<close>: \<open>MilestoneDateTime\<close>, the command line's dates over the Gregorian
    calendar, with the host's local time as a parameter.
  \<^item> \<open>ModelRouting\<close>, \<open>Runners\<close>: the catalogue of local models, their ranking and choice
    (\<open>LocalModelRouting\<close>), references to models, the configured models and the table of clients
    (\<open>RunnerModelRef\<close>, \<open>AiLocalModelConfigRepo\<close>, \<open>RunnerRegistry\<close>).
  \<^item> \<open>CloudConfig\<close>, \<open>CloudClient\<close>: the cloud part of the catalogue, its loading and the order in
    which providers and models are tried (\<open>CloudConfig.cpp\<close>); the requests to a provider and the reading of
    its answers (\<open>CloudClient.cpp\<close>).
  \<^item> \<open>RunWorld\<close>, \<open>CloudRun\<close>, \<open>LocalRun\<close>: the handler of \<open>POST /ai/runs\<close>
    (\<open>AiRunPostRoute.cpp\<close>) over quota, thread states, run store and routing. An action maps the world of a
    run to a result, possibly an exception, and the world after it; what the outside answers is a function of the
    number of the question. \<open>RunWorld\<close> has the actions and the titles of threads, \<open>CloudRun\<close> the cloud
    path, \<open>LocalRun\<close> the local path and the route.
  \<^item> \<open>RunLaws\<close>, \<open>RunLimits\<close>: the locales \<open>growth\<close>, \<open>stored_growth\<close> and \<open>call_law\<close> carry a
    relation between worlds through a composition of actions; with them, that a run ends with exactly one terminal
    event and which models it calls.
  \<^item> \<open>NudgeText\<close>, \<open>Nudges\<close>, \<open>NudgeLaws\<close>: \<open>NudgeService\<close> with its table and the
    durable dismissals. The loop that fills up the titles is a partial function, shown to return;
    the invariant of table and files is kept by every request and by an audited rebuild.
  \<^item> \<open>S3\<close>: \<open>S3SigV4\<close> and \<open>S3CompatibleProvider\<close>. The world of a provider holds the local files and a
    log of what was sent and received; the signature is compared with the one that a store recomputes from the
    request it received.
  \<^item> \<open>Drive\<close>, \<open>DriveLaws\<close>: \<open>DriveApi\<close>, \<open>GoogleDriveProvider\<close> and \<open>GoogleNetwork\<close>. A service is described by
    how it reads requests and what its calls do to its files; with it the provider refines a store of objects by key.
  \<^item> \<open>ServerInfo\<close>: the file with port and token that the daemon writes (\<open>ServerInfo.cpp\<close>) and the command line client
    reads (\<open>cli/commands/Common.cpp\<close>), over a disk that keeps every state others can see.
  \<^item> \<open>Daemon\<close>: \<open>LockFile\<close> and the control flow of \<open>run_daemon\<close> for any number of processes, another
    instance of \<open>step_system\<close>: at most one is past the lock, and it serves only after a complete start-up.
  \<^item> \<open>DeviceConfig\<close>: \<open>DeviceConfigStore\<close>, a second instance of \<open>atomic_store\<close>; the locale
    \<open>keyed_table\<close> is what it needs of the repositories of holder-core.
  \<^item> \<open>Recovery\<close>: \<open>DatabaseRecovery\<close>, the audit before a rebuild of the database and the hooks
    that bring the tables of the components above back.
  \<^item> \<open>JsonCodec\<close>: a concrete printer and parser of json values with a round trip, on which the
    witnesses evaluate what is otherwise a parameter.
  \<^item> this theory: the daemon's request path put together, and the guard of the token over it.

  \<^bold>\<open>Parameters.\<close> Code that is not in the tree (holder-core, the json, YAML, TLS and HTTP
  libraries) and the operating system are arguments: a record \<open>json_lib\<close> of printer and parser,
  records of file-system and network operations, the clock and random values. What a property needs
  of them is among its assumptions, for instance that parsing undoes printing.

  \<^bold>\<open>Errors.\<close> An exception is the left value of a sum or \<open>None\<close>; every early return of a
  handler is a branch of its definition.

  \<^bold>\<open>Loops and bounds.\<close> Loops are structural recursions or have a termination proof; one loop, which
  fills up the titles of a nudge, is a partial function with a proof that it returns. No definition
  uses fuel. Sequence numbers and sizes are natural numbers: the 64-bit counters would have
  to count \<open>2^64\<close> events to wrap. Where the code computes with signed seconds they are integers.

  \<^bold>\<open>Not modelled.\<close> The resource handlers are thin layers over holder-core repositories, whose
  sources are not in the tree, and appear as parameters of the dispatch. The local
  model runners, the synchronisation worker and the commands of the
  command line client are left out, as are socket deadlines, signals and logging.
\<close>

section \<open>The request path of the daemon\<close>

text \<open>
  The session of a running daemon: the static routes over the host's files, the OAuth callback
  over the OAuth state, and behind the token whatever the event service, the router and the route
  handlers do. The state is the OAuth state and the rest of the daemon's state.
\<close>

definition daemon_callback ::
  "json_lib \<Rightarrow> oauth_env \<Rightarrow> bool \<Rightarrow> bool \<Rightarrow> int \<Rightarrow> int \<Rightarrow> (oauth_world \<times> 'v) plain_handler" where
  "daemon_callback lib env has_secrets has_git now clock path query req w =
     (let (res, o') = handle_google_drive_oauth_callback_route lib env has_secrets has_git now clock path query req (fst w)
      in (res, (o', snd w)))"

definition daemon_api ::
  "json_lib \<Rightarrow> host \<Rightarrow> oauth_env \<Rightarrow> bool \<Rightarrow> bool \<Rightarrow> int \<Rightarrow> int \<Rightarrow> string \<Rightarrow>
     (oauth_world \<times> 'v) stream_handler option \<Rightarrow> (oauth_world \<times> 'v) router \<Rightarrow> (oauth_world \<times> 'v) routes \<Rightarrow>
     (oauth_world \<times> 'v) api" where
  "daemon_api lib h env has_secrets has_git now clock token events router rts =
     \<lparr>api_token = token, api_static = handle_static_routes lib h,
      api_oauth_callback = daemon_callback lib env has_secrets has_git now clock,
      api_events = events, api_router = router, api_routes = rts\<rparr>"

definition is_callback :: "string \<Rightarrow> request \<Rightarrow> bool" where
  "is_callback path req \<longleftrightarrow>
     rq_method req = VGet \<and> (\<exists>i. i \<noteq> [] \<and> path = callback_prefix @ i @ callback_suffix)"

lemma callback_claims:
  "fst (handle_google_drive_oauth_callback_route lib env s g now clock path query req w) \<noteq> None \<longleftrightarrow> is_callback path req"
proof (cases "\<exists>i. parse_callback_location_id path = Some i \<and> rq_method req = VGet")
  case False
  then show ?thesis
    by (auto simp: handle_google_drive_oauth_callback_route_def is_callback_def parse_callback_iff [symmetric] split: option.splits)
next
  case True
  then obtain i where i: "parse_callback_location_id path = Some i" and get: "rq_method req = VGet" by blast
  have cb: "is_callback path req" using i get by (auto simp: is_callback_def parse_callback_iff)
  show ?thesis
  proof (cases "map_of (ow_pending w) i")
    case None
    then show ?thesis using i get cb by (simp add: handle_google_drive_oauth_callback_route_def Let_def)
  next
    case (Some a)
    from i get this show ?thesis
      by (rule callback_cases [where lib = lib and env = env and s = s and g = g and now = now and clock = clock and query = query])
        (simp_all add: cb)
  qed
qed

lemma callback_unclaimed:
  "\<not> is_callback path req \<Longrightarrow>
   handle_google_drive_oauth_callback_route lib env s g now clock path query req w = (None, w)"
  by (auto simp: handle_google_drive_oauth_callback_route_def is_callback_def parse_callback_iff split: option.splits)

text \<open>
  C1 The token guards everything but the public routes. For a request without the daemon's bearer
  token: the answer and the state after it do not depend on the event service, the router or any
  route handler, so none of them runs; unless the request is a GET of an OAuth callback path the
  state is unchanged, and even then only its OAuth part may change; and a path that is not
  \<open>/ping\<close>, static or such a callback is answered with 401 and the error code
  \<open>unauthorized\<close>.
\<close>

theorem token_guards_routes:
  assumes unauth: "map_of (rq_headers (pq_req pq)) ''Authorization'' \<noteq> Some (''Bearer '' @ token)"
    and r: "process_loaded_request lib (daemon_api lib h env s g now clock token events router rts) pq w = (res, w')"
  shows "process_loaded_request lib (daemon_api lib h env s g now clock token events2 router2 rts2) pq w = (res, w') \<and>
    snd w' = snd w \<and> (\<not> is_callback (pq_path pq) (pq_req pq) \<longrightarrow> w' = w) \<and>
    (pq_path pq \<noteq> ''/ping'' \<and> \<not> is_static_path (pq_path pq) \<and> \<not> is_callback (pq_path pq) (pq_req pq) \<longrightarrow>
       (\<exists>p. res = Some p \<and> rs_status (pr_res p) = 401 \<and>
          rs_body (pr_res p) = lib_dump lib (error_payload ''unauthorized'' ''Missing or invalid token.'')))"
proof -
  have na: "\<not> is_authorized_bearer (pq_req pq) token" using unauth by (simp add: is_authorized_bearer_iff)
  let ?a = "daemon_api lib h env s g now clock token events router rts"
  let ?b = "daemon_api lib h env s g now clock token events2 router2 rts2"
  have same: "api_token ?a = token" "api_token ?b = token" "api_static ?a = handle_static_routes lib h"
    "api_static ?b = handle_static_routes lib h"
    "api_oauth_callback ?a = daemon_callback lib env s g now clock"
    "api_oauth_callback ?b = daemon_callback lib env s g now clock"
    by (simp_all add: daemon_api_def)
  have pa: "respond lib ?a p q (pq_req pq) w = respond lib ?b p q (pq_req pq) w" for p q
    using respond_public [of "pq_req pq" ?a] respond_public [of "pq_req pq" ?b] na by (simp add: same cong: option.case_cong)
  have 1: "process_loaded_request lib ?b pq w = (res, w')"
    using r pa by (simp add: process_loaded_request_def)
  have resp: "respond lib ?a (pq_path pq) (pq_query_string pq) (pq_req pq) w = (x, v) \<Longrightarrow>
      snd v = snd w \<and> (\<not> is_callback (pq_path pq) (pq_req pq) \<longrightarrow> v = w)" for x v
    using respond_public [of "pq_req pq" ?a lib "pq_path pq" "pq_query_string pq" w] na
      callback_unclaimed [of "pq_path pq" "pq_req pq"]
    by (auto simp: same daemon_callback_def Let_def split: if_splits option.splits prod.splits)
  obtain x v where xv: "respond lib ?a (pq_path pq) (pq_query_string pq) (pq_req pq) w = (x, v)" by (rule prod.exhaust)
  have v: "v = w'" using r xv by (simp add: process_loaded_request_def)
  have 4: "\<exists>p. res = Some p \<and> rs_status (pr_res p) = 401 \<and>
      rs_body (pr_res p) = lib_dump lib (error_payload ''unauthorized'' ''Missing or invalid token.'')"
    if "pq_path pq \<noteq> ''/ping''" "\<not> is_static_path (pq_path pq)" "\<not> is_callback (pq_path pq) (pq_req pq)"
    using respond_public [of "pq_req pq" ?a lib "pq_path pq" "pq_query_string pq" w] na that r
      callback_unclaimed [OF that(3)]
    by (auto simp: same daemon_callback_def Let_def handle_static_routes_def process_loaded_request_def
        error_response_def json_response_def)
  show ?thesis using 1 resp [OF xv] v 4 by blast
qed

definition deny_all :: "'w plain_handler" where
  "deny_all _ _ _ w = (None, w)"

definition sample_ai_routes :: "'w ai_routes" where
  "sample_ai_routes =
     \<lparr>handle_ai_status_routes = deny_all, handle_ai_provider_routes = deny_all, handle_ai_nudge_routes = deny_all,
      handle_ai_run_routes = (\<lambda>_ _ _ w. (NotHandled, w)), handle_ai_runner_routes = (\<lambda>_ _ _ w. (NotHandled, w)),
      handle_ai_thread_routes = deny_all, handle_ai_message_routes = deny_all, has_secret_store = True\<rparr>"

definition sample_routes :: "'w routes" where
  "sample_routes =
     \<lparr>handle_history_routes = deny_all, handle_project_routes = deny_all, handle_rebuild_routes = deny_all,
      handle_reindex_routes = deny_all, handle_search_routes = deny_all, ai_route_table = sample_ai_routes,
      handle_ai_resource_routes = (\<lambda>_ _ _ w. (NotHandled, w)), handle_trash_routes = deny_all,
      handle_milestone_routes = deny_all, handle_card_reference_routes = deny_all, handle_card_routes = deny_all\<rparr>"

definition sample_prepared :: prepared_request where
  "sample_prepared =
     \<lparr>pq_req = \<lparr>rq_method = VDelete, rq_target = ''/cards/c1'', rq_headers = [(''Authorization'', ''Bearer wrong'')], rq_body = []\<rparr>,
      pq_path = ''/cards/c1'', pq_query_string = [], pq_lane = Save\<rparr>"

theorem token_guards_routes_witness:
  "\<exists>p. process_loaded_request codec_lib
     (daemon_api codec_lib sample_host sample_oauth_env True True 5 7 ''secret'' None [] sample_routes) sample_prepared
     (sample_oauth_world, 0::nat) = (Some p, (sample_oauth_world, 0)) \<and> rs_status (pr_res p) = 401"
proof -
  let ?api = "daemon_api codec_lib sample_host sample_oauth_env True True 5 7 ''secret'' None []
    (sample_routes :: (oauth_world \<times> nat) routes)"
  have u: "map_of (rq_headers (pq_req sample_prepared)) ''Authorization'' \<noteq> Some (''Bearer '' @ ''secret'')"
    by (simp add: sample_prepared_def)
  have c: "\<not> is_callback (pq_path sample_prepared) (pq_req sample_prepared)"
    "pq_path sample_prepared \<noteq> ''/ping''" "\<not> is_static_path (pq_path sample_prepared)"
    by (simp_all add: is_callback_def sample_prepared_def is_static_path_def starts_with_def)
  obtain res w' where r: "process_loaded_request codec_lib ?api sample_prepared (sample_oauth_world, 0::nat) = (res, w')"
    by (rule prod.exhaust)
  from token_guards_routes [OF u r, of None "[]" sample_routes] c show ?thesis using r by auto
qed

end
